(* ===== verification/Prelude.thy ===== *)
theory Prelude imports Main "HOL-Library.Char_ord" "HOL-Library.List_Lexorder" "HOL-Library.Product_Lexorder" "HOL-Library.Multiset" begin

text \<open>
  Shared vocabulary of the development: the exceptions of the Python code as a datatype, the
  result type of code that may raise, sequencing of such code, insertion-ordered dictionaries
  as association lists, and the few list facts that several components use.

  Strings are \<^typ>\<open>string\<close>; identifiers, status codes and currency codes of the code are
  ASCII.  Human-readable Chinese messages, labels and formulas are not text in the model: an
  exception keeps its class (and its machine-readable code where it has one), and an
  explanation of a cost line keeps the values it prints.
\<close>

section \<open>Exceptions and results\<close>

datatype py_error =
    ValueError
  | TypeError
  | KeyError
  | IndexError
  | AttributeError
  | StopIteration
  | AssertionError
  | OverflowError
  | InvalidOperation
  | DivisionByZero
  | RuntimeError
  | StoreUnavailable
  | IntegrityError
  | PurchaseRuleError string
  | AppError string

type_synonym 'a res = "py_error + 'a"

named_theorems res_simps \<open>rewriting of sequenced results\<close>

definition bindr :: "'a res \<Rightarrow> ('a \<Rightarrow> 'b res) \<Rightarrow> 'b res" where
  "bindr m f = (case m of Inl e \<Rightarrow> Inl e | Inr x \<Rightarrow> f x)"

lemma bindr_Inl [simp]: "bindr (Inl e) f = Inl e"
  by (simp add: bindr_def)

lemma bindr_Inr [simp]: "bindr (Inr x) f = f x"
  by (simp add: bindr_def)

lemma bindr_eq_Inr [res_simps]: "bindr m f = Inr y \<longleftrightarrow> (\<exists>x. m = Inr x \<and> f x = Inr y)"
  by (cases m) auto

lemma bindr_eq_Inl [res_simps]:
  "bindr m f = Inl e \<longleftrightarrow> m = Inl e \<or> (\<exists>x. m = Inr x \<and> f x = Inl e)"
  by (cases m) auto

lemma bindr_assoc: "bindr (bindr m f) g = bindr m (\<lambda>x. bindr (f x) g)"
  by (cases m) auto

lemma bindr_cong [fundef_cong]:
  assumes "m = m'" and "\<And>x. m' = Inr x \<Longrightarrow> f x = g x"
  shows "bindr m f = bindr m' g"
  using assms by (cases m') auto

text \<open>A list comprehension whose body may raise: left to right, the first exception wins.\<close>

fun mapr :: "('a \<Rightarrow> 'b res) \<Rightarrow> 'a list \<Rightarrow> 'b list res" where
  "mapr f [] = Inr []"
| "mapr f (x # xs) = bindr (f x) (\<lambda>y. bindr (mapr f xs) (\<lambda>ys. Inr (y # ys)))"

lemma mapr_Inr_length: "mapr f xs = Inr ys \<Longrightarrow> length ys = length xs"
  by (induction xs arbitrary: ys) (auto simp: res_simps)

lemma mapr_Inr_nth:
  "mapr f xs = Inr ys \<Longrightarrow> i < length xs \<Longrightarrow> f (xs ! i) = Inr (ys ! i)"
  by (induction xs arbitrary: ys i) (auto simp: res_simps nth_Cons split: nat.splits)

lemma mapr_Inr_list_all2: "mapr f xs = Inr ys \<longleftrightarrow> list_all2 (\<lambda>x y. f x = Inr y) xs ys"
  by (induction xs arbitrary: ys) (auto simp: res_simps list_all2_Cons1)

lemma mapr_Inr_set:
  "mapr f xs = Inr ys \<Longrightarrow> y \<in> set ys \<Longrightarrow> \<exists>x\<in>set xs. f x = Inr y"
  by (induction xs arbitrary: ys) (auto simp: res_simps)

lemma mapr_total: "(\<And>x. x \<in> set xs \<Longrightarrow> f x = Inr (g x)) \<Longrightarrow> mapr f xs = Inr (map g xs)"
  by (induction xs) auto

lemma mapr_exists: "(\<And>x. x \<in> set xs \<Longrightarrow> \<exists>y. f x = Inr y) \<Longrightarrow> \<exists>ys. mapr f xs = Inr ys"
  by (induction xs) (auto simp: res_simps)

text \<open>A loop over a list whose body updates the state or raises.\<close>

fun each :: "('a \<Rightarrow> 's \<Rightarrow> 's res) \<Rightarrow> 'a list \<Rightarrow> 's \<Rightarrow> 's res" where
  "each f [] s = Inr s"
| "each f (x # xs) s = bindr (f x s) (\<lambda>s. each f xs s)"

lemma each_invariant:
  assumes "each f xs s = Inr t" and "P s"
    and "\<And>x s t. x \<in> set xs \<Longrightarrow> P s \<Longrightarrow> f x s = Inr t \<Longrightarrow> P t"
  shows "P t"
  using assms
proof (induction xs arbitrary: s)
  case (Cons x xs)
  from Cons.prems(1) obtain u where u: "f x s = Inr u" "each f xs u = Inr t" by (auto simp: res_simps)
  from Cons.prems(3) [OF _ Cons.prems(2) u(1)] have "P u" by simp
  show ?case by (rule Cons.IH [OF u(2) \<open>P u\<close>]) (rule Cons.prems(3) [OF list.set_intros(2)])
qed simp

lemma each_append: "each f (xs @ ys) s = bindr (each f xs s) (\<lambda>s. each f ys s)"
  by (induction xs arbitrary: s) (auto simp: bindr_def split: sum.splits)

text \<open>Every value that a computation may return satisfies a predicate.\<close>

definition res_all :: "('a \<Rightarrow> bool) \<Rightarrow> 'a res \<Rightarrow> bool" where
  "res_all P m \<longleftrightarrow> (\<forall>x. m = Inr x \<longrightarrow> P x)"

lemma res_all_Inr [simp]: "res_all P (Inr x) \<longleftrightarrow> P x"
  by (simp add: res_all_def)

lemma res_all_Inl [simp]: "res_all P (Inl e)"
  by (simp add: res_all_def)

lemma res_all_bindr [simp]: "res_all P (bindr m f) \<longleftrightarrow> (\<forall>x. m = Inr x \<longrightarrow> res_all P (f x))"
  by (cases m) auto

lemma res_allD: "res_all P m \<Longrightarrow> m = Inr x \<Longrightarrow> P x"
  by (simp add: res_all_def)

section \<open>Insertion-ordered dictionaries\<close>

text \<open>
  A Python dict whose iteration order is observed is an association list without duplicate
  keys; \<open>dict_put\<close> overwrites in place and appends a new key at the end, as assignment to a
  subscript does.  \<open>group_on\<close> is the idiom \<open>d.setdefault(key(x), []).append(x)\<close> run over a
  list.
\<close>

fun dict_put :: "'k \<Rightarrow> 'v \<Rightarrow> ('k \<times> 'v) list \<Rightarrow> ('k \<times> 'v) list" where
  "dict_put k v [] = [(k, v)]"
| "dict_put k v ((k', v') # d) = (if k = k' then (k, v) # d else (k', v') # dict_put k v d)"

lemma map_of_dict_put [simp]: "map_of (dict_put k v d) = (map_of d)(k \<mapsto> v)"
  by (induction k v d rule: dict_put.induct) auto

lemma keys_dict_put: "set (map fst (dict_put k v d)) = insert k (set (map fst d))"
  by (induction k v d rule: dict_put.induct) auto

lemma distinct_dict_put: "distinct (map fst d) \<Longrightarrow> distinct (map fst (dict_put k v d))"
proof (induction k v d rule: dict_put.induct)
  case (2 k v k' v' d)
  then show ?case using keys_dict_put [of k v d] by auto
qed auto

definition dict_get :: "'k \<Rightarrow> 'v \<Rightarrow> ('k \<times> 'v) list \<Rightarrow> 'v" where
  "dict_get k dflt d = (case map_of d k of None \<Rightarrow> dflt | Some v \<Rightarrow> v)"

definition group_step :: "('a \<Rightarrow> 'k) \<Rightarrow> ('k \<times> 'a list) list \<Rightarrow> 'a \<Rightarrow> ('k \<times> 'a list) list" where
  "group_step key d x = dict_put (key x) (dict_get (key x) [] d @ [x]) d"

definition group_on :: "('a \<Rightarrow> 'k) \<Rightarrow> 'a list \<Rightarrow> ('k \<times> 'a list) list" where
  "group_on key xs = foldl (group_step key) [] xs"

lemma distinct_foldl_group_step:
  "distinct (map fst d) \<Longrightarrow> distinct (map fst (foldl (group_step key) d xs))"
  by (induction xs arbitrary: d) (auto simp: group_step_def distinct_dict_put)

lemma distinct_group_on: "distinct (map fst (group_on key xs))"
  by (simp add: group_on_def distinct_foldl_group_step)

lemma map_of_group_step:
  "map_of (group_step key d x) = (map_of d)(key x \<mapsto> dict_get (key x) [] d @ [x])"
  by (simp add: group_step_def)

lemma map_of_foldl_group_step:
  "map_of (foldl (group_step key) d xs) k =
     (if k \<in> key ` set xs \<or> k \<in> dom (map_of d)
      then Some (dict_get k [] d @ filter (\<lambda>x. key x = k) xs) else None)"
proof (induction xs arbitrary: d)
  case Nil
  then show ?case by (auto simp: dict_get_def split: option.splits)
next
  case (Cons x xs)
  show ?case
    by (auto simp: Cons.IH map_of_group_step dict_get_def)
qed

lemma map_of_group_on:
  "map_of (group_on key xs) k =
     (if k \<in> key ` set xs then Some (filter (\<lambda>x. key x = k) xs) else None)"
  by (simp add: group_on_def map_of_foldl_group_step dict_get_def)

lemma group_on_entry:
  assumes "(k, g) \<in> set (group_on key xs)"
  shows "g = filter (\<lambda>x. key x = k) xs" and "g \<noteq> []"
proof -
  from assms distinct_group_on have "map_of (group_on key xs) k = Some g"
    by (metis map_of_is_SomeI)
  then have "k \<in> key ` set xs" and g: "g = filter (\<lambda>x. key x = k) xs"
    by (auto simp: map_of_group_on split: if_splits)
  then show "g = filter (\<lambda>x. key x = k) xs" and "g \<noteq> []"
    by (auto simp: filter_empty_conv)
qed

lemma keys_group_on: "fst ` set (group_on key xs) = key ` set xs"
proof -
  have "dom (map_of (group_on key xs)) = key ` set xs"
    by (auto simp: map_of_group_on split: if_splits)
  then show ?thesis by (simp add: dom_map_of_conv_image_fst)
qed

text \<open>\<open>tuple(dict.fromkeys(xs))\<close>: duplicates dropped, first occurrences in order.\<close>

fun uniq_aux :: "'a list \<Rightarrow> 'a list \<Rightarrow> 'a list" where
  "uniq_aux seen [] = []"
| "uniq_aux seen (x # xs) =
     (if x \<in> set seen then uniq_aux seen xs else x # uniq_aux (x # seen) xs)"

definition uniq :: "'a list \<Rightarrow> 'a list" where
  "uniq xs = uniq_aux [] xs"

lemma uniq_aux_props:
  "set (uniq_aux seen xs) = set xs - set seen \<and> distinct (uniq_aux seen xs)"
  by (induction seen xs rule: uniq_aux.induct) auto

lemma set_uniq [simp]: "set (uniq xs) = set xs"
  and distinct_uniq [simp]: "distinct (uniq xs)"
  using uniq_aux_props [of "[]" xs] by (simp_all add: uniq_def)

section \<open>Strings\<close>

definition is_space :: "char \<Rightarrow> bool" where
  "is_space c = (let n = of_char c :: nat in n = 32 \<or> (9 \<le> n \<and> n \<le> 13) \<or> (28 \<le> n \<and> n \<le> 31))"

definition is_digit :: "char \<Rightarrow> bool" where
  "is_digit c = (let n = of_char c :: nat in 48 \<le> n \<and> n \<le> 57)"

definition lower_char :: "char \<Rightarrow> char" where
  "lower_char c = (let n = of_char c :: nat in if 65 \<le> n \<and> n \<le> 90 then char_of (n + 32) else c)"

definition upper_char :: "char \<Rightarrow> char" where
  "upper_char c = (let n = of_char c :: nat in if 97 \<le> n \<and> n \<le> 122 then char_of (n - 32) else c)"

definition lower :: "string \<Rightarrow> string" where
  "lower s = map lower_char s"

definition upper :: "string \<Rightarrow> string" where
  "upper s = map upper_char s"

definition strip :: "string \<Rightarrow> string" where
  "strip s = rev (dropWhile is_space (rev (dropWhile is_space s)))"

definition starts_with :: "string \<Rightarrow> string \<Rightarrow> bool" where
  "starts_with s p = (take (length p) s = p)"

lemma starts_with_iff: "starts_with s p \<longleftrightarrow> (\<exists>r. s = p @ r)"
  by (auto simp: starts_with_def) (metis append_take_drop_id)

lemma strip_Nil [simp]: "strip [] = []"
  by (simp add: strip_def)

lemma strip_eq_Nil: "strip s = [] \<longleftrightarrow> (\<forall>c\<in>set s. is_space c)"
proof -
  have "strip s = [] \<longleftrightarrow> (\<forall>c\<in>set (dropWhile is_space s). is_space c)"
    by (simp add: strip_def)
  also have "\<dots> \<longleftrightarrow> (\<forall>c\<in>set s. is_space c)"
    by (metis dropWhile_eq_Nil_conv hd_dropWhile list.set_sel(1) set_dropWhileD)
  finally show ?thesis .
qed

lemma strip_idem [simp]: "strip (strip s) = strip s"
proof -
  let ?l = "dropWhile is_space s"
  let ?r = "dropWhile is_space (rev ?l)"
  have "dropWhile is_space (rev ?r) = rev ?r"
  proof (cases "?r = []")
    case True
    then have "rev ?r = []" by (simp only: rev.simps)
    then show ?thesis by (simp only: dropWhile.simps)
  next
    case False
    then have "?l \<noteq> []" by (metis dropWhile.simps(1) rev.simps(1))
    then have hd_l: "\<not> is_space (hd ?l)" by (rule hd_dropWhile)
    have "rev ?r = take (length ?r) ?l"
      by (metis dropWhile_eq_drop rev_drop rev_rev_ident length_drop length_rev
          diff_diff_cancel length_dropWhile_le)
    with False have "hd (rev ?r) = hd ?l" by (cases ?l) (auto simp: hd_take)
    with False hd_l show ?thesis by (cases "rev ?r") auto
  qed
  moreover have "dropWhile is_space ?r = ?r" by (rule dropWhile_idem)
  ultimately show ?thesis by (simp add: strip_def)
qed

section \<open>Untyped mappings\<close>

text \<open>
  A value of a \<open>Mapping[str, object]\<close>: text, or anything else with its truth value (a missing
  key reads as \<open>None\<close>, which is falsy).
\<close>

datatype pyobj = OStr string | OOther bool

fun truthy :: "pyobj \<Rightarrow> bool" where
  "truthy (OStr s) = (s \<noteq> [])"
| "truthy (OOther b) = b"

type_synonym mapping = "(string \<times> pyobj) list"

definition obj_get :: "mapping \<Rightarrow> string \<Rightarrow> pyobj" where
  "obj_get m k = (case map_of m k of None \<Rightarrow> OOther False | Some v \<Rightarrow> v)"

definition obj_or :: "pyobj \<Rightarrow> pyobj \<Rightarrow> pyobj" where
  "obj_or a b = (if truthy a then a else b)"

section \<open>Counting and sorting\<close>

text \<open>\<open>sorted(...)\<close> with a key is stable insertion sort: Python's sort is stable.\<close>

abbreviation sort_on :: "('a \<Rightarrow> 'k::linorder) \<Rightarrow> 'a list \<Rightarrow> 'a list" where
  "sort_on \<equiv> sort_key"

lemma sum_list_filter_split:
  "sum_list (map f xs) = sum_list (map f (filter P xs)) + sum_list (map f (filter (\<lambda>x. \<not> P x) xs))"
  for f :: "'a \<Rightarrow> 'b::comm_monoid_add"
  by (induction xs) (auto simp: algebra_simps)

text \<open>A sum over the groups of a list is the sum over the list.\<close>

lemma sum_list_delta_notin:
  "a \<notin> set ks \<Longrightarrow> sum_list (map (\<lambda>k. if k = a then c else 0) ks) = (0 :: 'b::comm_monoid_add)"
  by (induction ks) auto

lemma sum_list_delta:
  "distinct ks \<Longrightarrow> a \<in> set ks \<Longrightarrow>
     sum_list (map (\<lambda>k. if k = a then c else 0) ks) = (c :: 'b::comm_monoid_add)"
  by (induction ks) (auto simp: sum_list_delta_notin)

lemma sum_list_partition:
  fixes f :: "'a \<Rightarrow> 'b::comm_monoid_add"
  assumes "distinct ks" and "set (map key xs) \<subseteq> set ks"
  shows "sum_list (map (\<lambda>k. sum_list (map f (filter (\<lambda>x. key x = k) xs))) ks) = sum_list (map f xs)"
  using assms(2)
proof (induction xs)
  case Nil
  then show ?case by (simp add: sum_list_0)
next
  case (Cons x xs)
  let ?g = "\<lambda>xs k. sum_list (map f (filter (\<lambda>x. key x = k) xs))"
  have "sum_list (map (?g (x # xs)) ks) =
      sum_list (map (\<lambda>k. (if k = key x then f x else 0) + ?g xs k) ks)"
    by (rule arg_cong [where f = sum_list]) (auto intro!: map_cong)
  also have "\<dots> = sum_list (map (\<lambda>k. if k = key x then f x else 0) ks) + sum_list (map (?g xs) ks)"
    by (rule sum_list_addf)
  also have "sum_list (map (\<lambda>k. if k = key x then f x else 0) ks) = f x"
    using assms(1) Cons.prems by (simp add: sum_list_delta)
  finally show ?case using Cons by simp
qed

lemma sorted_partition:
  assumes "sorted (map f xs)" and "\<And>x y. P x \<Longrightarrow> \<not> P y \<Longrightarrow> f x < f y"
  shows "xs = filter P xs @ filter (\<lambda>x. \<not> P x) xs"
  using assms(1)
proof (induction xs)
  case (Cons x xs)
  show ?case
  proof (cases "P x")
    case False
    with Cons.prems assms(2) have "\<forall>y\<in>set xs. \<not> P y" by (auto simp: not_less [symmetric])
    with False show ?thesis by (simp add: filter_empty_conv)
  qed (use Cons in simp)
qed simp

text \<open>\<open>max(xs, key=...)\<close> of a non-empty sequence: the first of the largest.\<close>

definition max_by :: "('a \<Rightarrow> 'k::linorder) \<Rightarrow> 'a \<Rightarrow> 'a list \<Rightarrow> 'a" where
  "max_by key x xs = foldl (\<lambda>best y. if key best < key y then y else best) x xs"

lemma max_by_props:
  "max_by key x xs \<in> set (x # xs) \<and> (\<forall>y\<in>set (x # xs). key y \<le> key (max_by key x xs))"
proof (induction xs arbitrary: x)
  case (Cons y ys)
  show ?case using Cons [of "if key x < key y then y else x"] by (auto simp: max_by_def)
qed (simp add: max_by_def)

lemma list_all2_member:
  assumes "list_all2 P xs ys" and "y \<in> set ys"
  shows "\<exists>x\<in>set xs. P x y"
  using assms by (induction rule: list_all2_induct) auto

text \<open>Replacing the entry with a given key in a list of rows with distinct keys.\<close>

lemma sum_list_map_replace:
  fixes g :: "'a \<Rightarrow> int"
  assumes "distinct (map k xs)" and "x \<in> set xs"
  shows "(\<Sum>y\<leftarrow>xs. g (if k y = k x then f y else y)) = (\<Sum>y\<leftarrow>xs. g y) + (g (f x) - g x)"
  using assms
proof (induction xs)
  case (Cons z zs)
  show ?case
  proof (cases "z = x")
    case True
    with Cons.prems(1) have "\<forall>y\<in>set zs. k y \<noteq> k x" by (auto simp: image_iff)
    then have "(\<Sum>y\<leftarrow>zs. g (if k y = k x then f y else y)) = (\<Sum>y\<leftarrow>zs. g y)"
      by (intro arg_cong [of _ _ sum_list] map_cong) auto
    with True show ?thesis by simp
  next
    case False
    with Cons.prems have "x \<in> set zs" "k z \<noteq> k x" by auto
    with Cons show ?thesis by simp
  qed
qed simp

end
