(* ===== verification/Machines.thy ===== *)
theory Machines imports Prelude begin

text \<open>
  Interfaces of state machines.  Several components of the code are a function from a state and
  an action to the next state, or to a refusal: order status, returns, purchase orders, tickets,
  export jobs.  The contracts below are stated once over such a step function; each component
  interprets them on its own definition.
\<close>

fun run_machine :: "('s \<Rightarrow> 'a \<Rightarrow> 's option) \<Rightarrow> 's \<Rightarrow> 'a list \<Rightarrow> 's option" where
  "run_machine step s [] = Some s"
| "run_machine step s (a # as) =
     (case step s a of None \<Rightarrow> None | Some t \<Rightarrow> run_machine step t as)"

lemma run_machine_append:
  "run_machine step s (xs @ ys) =
     (case run_machine step s xs of None \<Rightarrow> None | Some t \<Rightarrow> run_machine step t ys)"
  by (induction xs arbitrary: s) (auto split: option.splits)

section \<open>Invariants\<close>

locale invariant_machine =
  fixes step :: "'s \<Rightarrow> 'a \<Rightarrow> 's option" and inv :: "'s \<Rightarrow> bool"
  assumes step_inv: "inv s \<Longrightarrow> step s a = Some t \<Longrightarrow> inv t"
begin

lemma run_inv: "inv s \<Longrightarrow> run_machine step s as = Some t \<Longrightarrow> inv t"
  by (induction as arbitrary: s) (auto split: option.splits intro: step_inv)

end

section \<open>Machines that never go back\<close>

locale monotone_machine =
  fixes step :: "'s \<Rightarrow> 'a \<Rightarrow> 's option" and rank :: "'s \<Rightarrow> nat"
  assumes step_mono: "step s a = Some t \<Longrightarrow> rank s \<le> rank t"
begin

lemma run_mono: "run_machine step s as = Some t \<Longrightarrow> rank s \<le> rank t"
proof (induction as arbitrary: s)
  case (Cons a as)
  then obtain u where "step s a = Some u" "run_machine step u as = Some t"
    by (auto split: option.splits)
  with Cons.IH step_mono show ?case by (meson le_trans)
qed simp

end

text \<open>Machines whose every accepted action advances: no cycles, and histories of bounded length.\<close>

locale ranked_machine =
  fixes step :: "'s \<Rightarrow> 'a \<Rightarrow> 's option" and rank :: "'s \<Rightarrow> nat" and top :: nat
  assumes step_rank: "step s a = Some t \<Longrightarrow> rank s < rank t"
    and rank_top: "rank s \<le> top"

sublocale ranked_machine \<subseteq> monotone_machine step rank
  by unfold_locales (auto dest: step_rank)

context ranked_machine begin

lemma run_rank: "run_machine step s as = Some t \<Longrightarrow> rank s + length as \<le> rank t"
proof (induction as arbitrary: s)
  case (Cons a as)
  then obtain u where u: "step s a = Some u" "run_machine step u as = Some t"
    by (auto split: option.splits)
  from Cons.IH [OF u(2)] step_rank [OF u(1)] show ?case by simp
qed simp

lemma run_length: "run_machine step s as = Some t \<Longrightarrow> length as \<le> top - rank s"
  using run_rank [of s as t] rank_top [of t] by simp

lemma run_acyclic: "run_machine step s as = Some s \<Longrightarrow> as = []"
  using run_rank [of s as s] by simp

end

section \<open>Machines that keep a log\<close>

text \<open>Every step adds one entry, under the tag of its action; an entry leads back to its step.\<close>

locale logging_machine =
  fixes step :: "'s \<Rightarrow> 'a \<Rightarrow> 's option" and log_of :: "'s \<Rightarrow> ('t \<times> 'e) list" and tag :: "'a \<Rightarrow> 't"
  assumes step_logs: "step s a = Some t \<Longrightarrow> \<exists>e. log_of t = log_of s @ [(tag a, e)]"
begin

lemma run_logs: "run_machine step s as = Some t \<Longrightarrow> \<exists>es. log_of t = log_of s @ es \<and> map fst es = map tag as"
proof (induction as arbitrary: s)
  case (Cons a as)
  then obtain u where u: "step s a = Some u" "run_machine step u as = Some t" by (auto split: option.splits)
  with step_logs Cons.IH show ?case by fastforce
qed simp

lemma run_entry:
  assumes "run_machine step s as = Some t" and "log_of t = log_of s @ pre @ (x, e) # post"
  shows "\<exists>before a after u v. as = before @ a # after \<and> run_machine step s before = Some u \<and> step u a = Some v \<and>
    run_machine step v after = Some t \<and> tag a = x \<and> log_of u = log_of s @ pre \<and> log_of v = log_of u @ [(x, e)]"
  using assms
proof (induction as arbitrary: s pre)
  case (Cons a as)
  then obtain u where s: "step s a = Some u" and run: "run_machine step u as = Some t" by (auto split: option.splits)
  from step_logs [OF s] obtain e1 where e1: "log_of u = log_of s @ [(tag a, e1)]" ..
  from run_logs [OF run] obtain es where es: "log_of t = log_of u @ es" by blast
  show ?case
  proof (cases pre)
    case Nil
    with Cons.prems(2) e1 es have "tag a = x" "e1 = e" by auto
    with s run e1 Nil show ?thesis
      by (intro exI [of _ "[]"] exI [of _ a] exI [of _ as] exI [of _ s] exI [of _ u]) simp
  next
    case (Cons b pre')
    with Cons.prems(2) e1 es have b: "b = (tag a, e1)" by auto
    with Cons Cons.prems(2) e1 have "log_of t = log_of u @ pre' @ (x, e) # post" by simp
    from Cons.IH [OF run this] obtain before a' after v v' where
      i: "as = before @ a' # after" "run_machine step u before = Some v" "step v a' = Some v'"
        "run_machine step v' after = Some t" "tag a' = x" "log_of v = log_of u @ pre'" "log_of v' = log_of v @ [(x, e)]" by blast
    then show ?thesis using s b e1 Cons
      by (intro exI [of _ "a # before"] exI [of _ a'] exI [of _ after] exI [of _ v] exI [of _ v']) simp
  qed
qed simp

end

end
