(* ===== verification/OrderStatus.thy ===== *)
theory OrderStatus imports Machines begin

text \<open>
  \<^verbatim>\<open>app/engines/order_status.py\<close>: the nine unified order states, the mapping table from platform
  states, and the decision whether an incoming state may be written.  The string enums are
  datatypes with the source's member names; \<open>unified_value\<close> is the stored text of a member and
  \<open>parse_unified\<close> the constructor call with its \<open>ValueError\<close> turned into \<open>None\<close>.
\<close>

section \<open>States and the mapping table\<close>

datatype unified_status =
    S_PENDING | S_PAID | S_SHIPPED | S_DELIVERED | S_COMPLETED
  | S_CANCELLED | S_REFUNDING | S_REFUNDED | S_RETURNED

datatype change_source = Src_SYSTEM | Src_WEBHOOK | Src_MANUAL

datatype decision_kind = D_APPLY | D_UNCHANGED | D_REJECT

definition all_statuses :: "unified_status list" where
  "all_statuses = [S_PENDING, S_PAID, S_SHIPPED, S_DELIVERED, S_COMPLETED,
     S_CANCELLED, S_REFUNDING, S_REFUNDED, S_RETURNED]"

fun unified_value :: "unified_status \<Rightarrow> string" where
  "unified_value S_PENDING = ''PENDING''"
| "unified_value S_PAID = ''PAID''"
| "unified_value S_SHIPPED = ''SHIPPED''"
| "unified_value S_DELIVERED = ''DELIVERED''"
| "unified_value S_COMPLETED = ''COMPLETED''"
| "unified_value S_CANCELLED = ''CANCELLED''"
| "unified_value S_REFUNDING = ''REFUNDING''"
| "unified_value S_REFUNDED = ''REFUNDED''"
| "unified_value S_RETURNED = ''RETURNED''"

record status_decision =
  kind :: decision_kind
  from_status :: "unified_status option"
  to_status :: unified_status
  unmapped :: bool

definition parse_unified :: "string option \<Rightarrow> unified_status option" where
  "parse_unified value =
     (case value of
        None \<Rightarrow> None
      | Some v \<Rightarrow> if v = [] then None else find (\<lambda>s. unified_value s = v) all_statuses)"

definition resolve_target :: "string \<Rightarrow> (string \<rightharpoonup> string) \<Rightarrow> unified_status option" where
  "resolve_target platform_status table = parse_unified (table platform_status)"

definition merge_put :: "(string \<times> string) list \<Rightarrow> string \<times> string \<Rightarrow> (string \<times> string) list" where
  "merge_put merged kv =
     (case parse_unified (Some (snd kv)) of
        None \<Rightarrow> merged
      | Some parsed \<Rightarrow> dict_put (fst kv) (unified_value parsed) merged)"

definition merge_mapping ::
  "(string \<times> string) list \<Rightarrow> (string \<times> string) list \<Rightarrow> (string \<times> string) list" where
  "merge_mapping defaults stored =
     foldl merge_put (filter (\<lambda>kv. parse_unified (Some (snd kv)) \<noteq> None) defaults) stored"

section \<open>Deciding a change\<close>

definition main_chain :: "unified_status list" where
  "main_chain = [S_PENDING, S_PAID, S_SHIPPED, S_DELIVERED, S_COMPLETED]"

fun main_rank :: "unified_status \<Rightarrow> nat option" where
  "main_rank S_PENDING = Some 0"
| "main_rank S_PAID = Some 1"
| "main_rank S_SHIPPED = Some 2"
| "main_rank S_DELIVERED = Some 3"
| "main_rank S_COMPLETED = Some 4"
| "main_rank _ = None"

fun manual_edges :: "unified_status \<Rightarrow> unified_status list" where
  "manual_edges S_PENDING = [S_PAID, S_CANCELLED]"
| "manual_edges S_PAID = [S_SHIPPED, S_CANCELLED, S_REFUNDING]"
| "manual_edges S_SHIPPED = [S_DELIVERED, S_CANCELLED, S_REFUNDING, S_RETURNED]"
| "manual_edges S_DELIVERED = [S_COMPLETED, S_REFUNDING, S_RETURNED]"
| "manual_edges S_COMPLETED = [S_REFUNDING, S_RETURNED]"
| "manual_edges S_REFUNDING = [S_REFUNDED, S_RETURNED]"
| "manual_edges S_RETURNED = [S_REFUNDED]"
| "manual_edges S_REFUNDED = []"
| "manual_edges S_CANCELLED = []"

definition cancel_from :: "unified_status list" where
  "cancel_from = [S_PENDING, S_PAID, S_SHIPPED]"

definition refund_from :: "unified_status list" where
  "refund_from = [S_PAID, S_SHIPPED, S_DELIVERED, S_COMPLETED]"

definition return_from :: "unified_status list" where
  "return_from = [S_SHIPPED, S_DELIVERED, S_COMPLETED, S_REFUNDING]"

definition allowed :: "unified_status \<Rightarrow> unified_status \<Rightarrow> change_source \<Rightarrow> bool" where
  "allowed current target source =
     (if source = Src_MANUAL then target \<in> set (manual_edges current)
      else if current = S_CANCELLED then False
      else if current = S_REFUNDED then target = S_RETURNED
      else if current = S_RETURNED then target = S_REFUNDED
      else (case (main_rank current, main_rank target) of
              (Some c, Some t) \<Rightarrow> c < t
            | _ \<Rightarrow>
              (if target = S_CANCELLED then current \<in> set cancel_from
               else if target = S_REFUNDING then current \<in> set refund_from
               else if target = S_REFUNDED then current \<in> set refund_from \<or> current = S_REFUNDING
               else if target = S_RETURNED then current \<in> set return_from
               else False)))"

definition decide_status ::
  "unified_status option \<Rightarrow> unified_status option \<Rightarrow> change_source \<Rightarrow> status_decision" where
  "decide_status current target source =
     (case target of
        None \<Rightarrow>
          (case current of
             None \<Rightarrow> \<lparr>kind = D_APPLY, from_status = None, to_status = S_PENDING, unmapped = True\<rparr>
           | Some c \<Rightarrow> \<lparr>kind = D_UNCHANGED, from_status = Some c, to_status = c, unmapped = True\<rparr>)
      | Some t \<Rightarrow>
          (case current of
             None \<Rightarrow> \<lparr>kind = D_APPLY, from_status = None, to_status = t, unmapped = False\<rparr>
           | Some c \<Rightarrow>
               if c = t then \<lparr>kind = D_UNCHANGED, from_status = Some c, to_status = c, unmapped = False\<rparr>
               else if allowed c t source
               then \<lparr>kind = D_APPLY, from_status = Some c, to_status = t, unmapped = False\<rparr>
               else \<lparr>kind = D_REJECT, from_status = Some c, to_status = c, unmapped = False\<rparr>))"

section \<open>The mapping table: lemmas\<close>

lemma all_statuses_complete: "s \<in> set all_statuses"
  by (cases s) (simp_all add: all_statuses_def)

lemma unified_value_inj: "unified_value s = unified_value t \<longleftrightarrow> s = t"
  by (cases s; cases t) simp_all

lemma unified_value_nonempty [simp]: "unified_value s \<noteq> []"
  by (cases s) simp_all

lemma parse_unified_value [simp]: "parse_unified (Some (unified_value s)) = Some s"
proof -
  have "find (\<lambda>t. unified_value t = unified_value s) all_statuses = Some s"
    by (cases s) (simp_all add: all_statuses_def)
  then show ?thesis by (simp add: parse_unified_def)
qed

lemma parse_unified_Some: "parse_unified v = Some s \<longleftrightarrow> v = Some (unified_value s)"
proof
  assume "parse_unified v = Some s"
  then show "v = Some (unified_value s)"
    by (auto simp: parse_unified_def find_Some_iff split: option.splits if_splits)
qed simp

lemma map_of_merge_put:
  "map_of (merge_put m kv) =
     (if parse_unified (Some (snd kv)) = None then map_of m else (map_of m)(fst kv \<mapsto> snd kv))"
  by (auto simp: merge_put_def parse_unified_Some split: option.splits)

lemma map_of_foldl_merge_put:
  assumes "distinct (map fst stored)"
  shows "map_of (foldl merge_put m stored) k =
    (case map_of stored k of
       Some v \<Rightarrow> if parse_unified (Some v) = None then map_of m k else Some v
     | None \<Rightarrow> map_of m k)"
  using assms
proof (induction stored arbitrary: m)
  case (Cons kv stored)
  then have "fst kv \<notin> dom (map_of stored)" by (auto simp: dom_map_of_conv_image_fst)
  with Cons show ?case
    by (auto simp: map_of_merge_put domIff split: option.splits)
qed simp

lemma map_of_filter_value:
  "distinct (map fst xs) \<Longrightarrow>
     map_of (filter (\<lambda>kv. P (snd kv)) xs) k =
       (case map_of xs k of Some v \<Rightarrow> if P v then Some v else None | None \<Rightarrow> None)"
proof (induction xs)
  case (Cons kv xs)
  then show ?case
    by (auto split: option.splits simp: map_of_eq_None_iff image_iff dest: map_of_SomeD)
qed simp

section \<open>Decisions: lemmas\<close>

lemmas decide_simps = decide_status_def

lemma decide_apply_iff:
  "kind (decide_status (Some c) (Some t) src) = D_APPLY \<longleftrightarrow> c \<noteq> t \<and> allowed c t src"
  by (simp add: decide_status_def)

lemma decide_to_status:
  "to_status (decide_status (Some c) (Some t) src) = (if c \<noteq> t \<and> allowed c t src then t else c)"
  by (simp add: decide_status_def)

text \<open>The step of the machine: what is stored after a decision that applies.\<close>

definition status_step :: "change_source \<Rightarrow> unified_status \<Rightarrow> unified_status \<Rightarrow> unified_status option" where
  "status_step src c t =
     (if kind (decide_status (Some c) (Some t) src) = D_APPLY
      then Some (to_status (decide_status (Some c) (Some t) src)) else None)"

lemma status_step_iff: "status_step src c t = Some u \<longleftrightarrow> u = t \<and> c \<noteq> t \<and> allowed c t src"
  by (auto simp: status_step_def decide_apply_iff decide_to_status)

text \<open>Progress of a manual history, and the phases of a synchronised one.\<close>

fun manual_rank :: "unified_status \<Rightarrow> nat" where
  "manual_rank S_PENDING = 0"
| "manual_rank S_PAID = 1"
| "manual_rank S_SHIPPED = 2"
| "manual_rank S_DELIVERED = 3"
| "manual_rank S_COMPLETED = 4"
| "manual_rank S_REFUNDING = 5"
| "manual_rank S_RETURNED = 6"
| "manual_rank S_REFUNDED = 7"
| "manual_rank S_CANCELLED = 7"

fun sync_phase :: "unified_status \<Rightarrow> nat" where
  "sync_phase S_PENDING = 0"
| "sync_phase S_PAID = 1"
| "sync_phase S_SHIPPED = 2"
| "sync_phase S_DELIVERED = 3"
| "sync_phase S_COMPLETED = 4"
| "sync_phase S_REFUNDING = 5"
| "sync_phase S_RETURNED = 6"
| "sync_phase S_REFUNDED = 6"
| "sync_phase S_CANCELLED = 6"

lemma manual_allowed_rank: "allowed c t Src_MANUAL \<Longrightarrow> manual_rank c < manual_rank t"
  by (cases c; cases t; simp add: allowed_def)

lemma manual_rank_top: "manual_rank s \<le> 7"
  by (cases s) simp_all

lemma allowed_phase: "allowed c t src \<Longrightarrow> sync_phase c \<le> sync_phase t"
  by (cases c; cases t; simp add: allowed_def cancel_from_def refund_from_def return_from_def
      split: if_splits)

lemma manual_allowed_sync: "allowed c t Src_MANUAL \<Longrightarrow> allowed c t src"
  by (cases c; cases t; simp add: allowed_def cancel_from_def refund_from_def return_from_def)

interpretation manual_status: ranked_machine "status_step Src_MANUAL" manual_rank 7
  by unfold_locales (auto simp: status_step_iff manual_allowed_rank manual_rank_top)

text \<open>A history in which every change names where it comes from.\<close>

definition sourced_step :: "unified_status \<Rightarrow> change_source \<times> unified_status \<Rightarrow> unified_status option" where
  "sourced_step c a = status_step (fst a) c (snd a)"

lemma cancelled_final: "status_step src S_CANCELLED t = None"
  by (cases src) (auto simp: status_step_def decide_apply_iff allowed_def)

interpretation sync_status: monotone_machine sourced_step sync_phase
  by unfold_locales (auto simp: sourced_step_def status_step_iff allowed_phase)

interpretation cancelled_status: invariant_machine sourced_step "\<lambda>s. s = S_CANCELLED"
  by unfold_locales (simp add: sourced_step_def cancelled_final)

section \<open>Properties\<close>

text \<open>a decision applies exactly when it is a new order or a permitted change to a different
  status; in every other case the stored status is the one that is already there, and an unmapped
  platform status never produces anything but \<open>PENDING\<close> for a new order.\<close>

theorem decide_status_spec:
  "to_status (decide_status current target src) =
     (case (current, target) of
        (None, None) \<Rightarrow> S_PENDING
      | (None, Some t) \<Rightarrow> t
      | (Some c, None) \<Rightarrow> c
      | (Some c, Some t) \<Rightarrow> if allowed c t src then t else c)
   \<and> (kind (decide_status current target src) = D_APPLY \<longleftrightarrow>
        current = None \<or> (\<exists>c t. current = Some c \<and> target = Some t \<and> c \<noteq> t \<and> allowed c t src))
   \<and> from_status (decide_status current target src) = current
   \<and> (unmapped (decide_status current target src) \<longleftrightarrow> target = None)"
  by (auto simp: decide_status_def split: option.splits)

text \<open>a history of manual changes has at most seven changes and never returns to a status it
  left.\<close>

theorem manual_history_bounded:
  assumes "run_machine (status_step Src_MANUAL) s ts = Some u"
  shows "length ts \<le> 7 - manual_rank s \<and> (s = u \<longrightarrow> ts = [])"
  using manual_status.run_length [OF assms] manual_status.run_acyclic assms by auto

theorem manual_history_bounded_witness:
  "length [S_PAID, S_SHIPPED, S_RETURNED, S_REFUNDED] \<le> 7 - manual_rank S_PENDING"
proof -
  have "run_machine (status_step Src_MANUAL) S_PENDING [S_PAID, S_SHIPPED, S_RETURNED, S_REFUNDED]
      = Some S_REFUNDED"
    by (simp add: status_step_def decide_status_def allowed_def)
  from manual_history_bounded [OF this] show ?thesis by simp
qed

text \<open>whatever mixture of polling, webhook and manual changes is applied, the order never goes
  back: along the main chain the rank does not decrease, an order that has left the main chain for
  an after-sales or cancelled status never re-enters it, and a cancelled order stays cancelled.\<close>

theorem sync_history_forward:
  assumes "run_machine sourced_step s changes = Some u"
  shows "(\<forall>i j. main_rank s = Some i \<longrightarrow> main_rank u = Some j \<longrightarrow> i \<le> j) \<and>
    (main_rank s = None \<longrightarrow> main_rank u = None) \<and> (s = S_CANCELLED \<longrightarrow> u = S_CANCELLED)"
proof -
  from assms have "sync_phase s \<le> sync_phase u" by (rule sync_status.run_mono)
  moreover have "s = S_CANCELLED \<Longrightarrow> u = S_CANCELLED"
    using assms by (blast intro: cancelled_status.run_inv)
  ultimately show ?thesis by (cases s; cases u; simp)
qed

theorem sync_history_forward_witness:
  "run_machine sourced_step S_PAID [(Src_WEBHOOK, S_SHIPPED), (Src_MANUAL, S_RETURNED)] = Some S_RETURNED \<and>
   main_rank S_RETURNED = None \<and> S_PAID \<noteq> S_CANCELLED"
proof -
  have r: "run_machine sourced_step S_PAID [(Src_WEBHOOK, S_SHIPPED), (Src_MANUAL, S_RETURNED)] = Some S_RETURNED"
    by (simp add: sourced_step_def status_step_def decide_status_def allowed_def)
  then have "run_machine sourced_step S_RETURNED [] = Some S_RETURNED \<and> main_rank S_PAID = Some 1" by simp
  with sync_history_forward [OF r] r show ?thesis by simp
qed

text \<open>the effective mapping of a platform status is the stored one when it names a unified
  status, otherwise the default when that one does, otherwise none; an unknown unified status in
  either table never survives.\<close>

theorem merge_mapping_lookup:
  assumes "distinct (map fst defaults)" and "distinct (map fst stored)"
  shows "resolve_target k (map_of (merge_mapping defaults stored)) =
    (case parse_unified (map_of stored k) of
       Some s \<Rightarrow> Some s
     | None \<Rightarrow> parse_unified (map_of defaults k))"
proof -
  let ?valid = "\<lambda>v. parse_unified (Some v) \<noteq> None"
  have "map_of (merge_mapping defaults stored) k =
      (case map_of stored k of
         Some v \<Rightarrow> if ?valid v then Some v else
           (case map_of defaults k of Some w \<Rightarrow> if ?valid w then Some w else None | None \<Rightarrow> None)
       | None \<Rightarrow>
           (case map_of defaults k of Some w \<Rightarrow> if ?valid w then Some w else None | None \<Rightarrow> None))"
    unfolding merge_mapping_def map_of_foldl_merge_put [OF assms(2)]
      map_of_filter_value [OF assms(1), where P = ?valid]
    by (simp split: option.splits)
  moreover have "parse_unified None = None" by (simp add: parse_unified_def)
  ultimately show ?thesis by (simp add: resolve_target_def split: option.splits)
qed

theorem merge_mapping_lookup_witness:
  "resolve_target ''a'' (map_of (merge_mapping [(''a'', ''PAID''), (''b'', ''NOPE'')]
     [(''a'', ''SHIPPED''), (''b'', ''x'')])) = Some S_SHIPPED"
  by (subst merge_mapping_lookup) (simp_all add: parse_unified_def all_statuses_def)

end
