(* ===== verification/Decimal.thy ===== *)
theory Decimal imports Prelude Complex_Main begin

text \<open>
  The two inexact number types of the code.  Python's \<open>decimal.Decimal\<close> under the default
  context keeps 28 significant decimal digits and rounds half to even; a Python float keeps 53
  significant bits and rounds half to even.  Both are modelled by their numeric value, a rational,
  with one rounding function \<open>round_sig\<close> applied after every operation, as the arithmetic
  does.  \<open>quantize\<close> of \<^verbatim>\<open>app/engines/landed_cost.py\<close> rounds half away from zero to six places
  and raises \<^const>\<open>InvalidOperation\<close> when the result needs more than 28 digits.  Exponent
  overflow (beyond ten to the 999999, or beyond the binary64 range), signed zero and the trailing
  zeros of a Decimal are not modelled.
\<close>

section \<open>Rounding to a number of significant digits\<close>

definition round_half_even :: "rat \<Rightarrow> int" where
  "round_half_even x =
     (let f = \<lfloor>x\<rfloor>; r = x - of_int f in
      if r < 1 / 2 then f else if 1 / 2 < r then f + 1 else if even f then f else f + 1)"

lemma round_half_even_of_int [simp]: "round_half_even (of_int n) = n"
  by (simp add: round_half_even_def)

lemma round_half_even_close: "\<bar>of_int (round_half_even x) - x\<bar> \<le> 1 / 2"
proof -
  have "of_int \<lfloor>x\<rfloor> \<le> x" "x < of_int \<lfloor>x\<rfloor> + 1" by linarith+
  then show ?thesis by (auto simp: round_half_even_def Let_def abs_le_iff)
qed

lemma round_half_even_nonneg: "0 \<le> x \<Longrightarrow> 0 \<le> round_half_even x"
proof -
  assume "0 \<le> x"
  then have "0 \<le> \<lfloor>x\<rfloor>" by simp
  then show ?thesis by (simp add: round_half_even_def Let_def)
qed

text \<open>The number of base-\<open>b\<close> digits of a positive integer.\<close>

function ndigits :: "int \<Rightarrow> int \<Rightarrow> nat" where
  "ndigits b n = (if n < b \<or> b \<le> 1 then 1 else Suc (ndigits b (n div b)))"
  by pat_completeness auto
termination
proof (relation "measure (\<lambda>(b, n). nat n)")
  fix b n :: int
  assume "\<not> (n < b \<or> b \<le> 1)"
  then have "n div b < n" and "0 \<le> n div b"
    by (auto intro: int_div_less_self simp: pos_imp_zdiv_nonneg_iff)
  then show "((b, n div b), b, n) \<in> measure (\<lambda>(b, n). nat n)" by simp
qed simp

declare ndigits.simps [simp del]

lemma ndigits_bounds:
  assumes "2 \<le> b" and "0 < n"
  shows "b ^ (ndigits b n - 1) \<le> n \<and> n < b ^ ndigits b n \<and> 0 < ndigits b n"
  using assms
proof (induction b n rule: ndigits.induct)
  case (1 b n)
  show ?case
  proof (cases "n < b")
    case True
    with 1 show ?thesis by (simp add: ndigits.simps [of b n])
  next
    case False
    let ?k = "ndigits b (n div b)"
    from False 1(2) have pos: "0 < n div b"
      by (simp add: pos_imp_zdiv_pos_iff)
    with False 1 have IH: "b ^ (?k - 1) \<le> n div b" "n div b < b ^ ?k" "0 < ?k"
      by auto
    have n: "n = b * (n div b) + n mod b" by simp
    have m: "0 \<le> n mod b" "n mod b < b" using 1(2) by auto
    have "b * b ^ (?k - 1) \<le> b * (n div b)" using IH(1) 1(2) by (intro mult_left_mono) auto
    moreover have "b * b ^ (?k - 1) = b ^ ?k" using IH(3) by (metis power_minus_mult mult.commute)
    ultimately have lo: "b ^ ?k \<le> n" using n m(1) by linarith
    have "b * (n div b + 1) \<le> b * b ^ ?k" using IH(2) 1(2) by (intro mult_left_mono) auto
    moreover have "b * (n div b + 1) = b * (n div b) + b" by (simp add: algebra_simps)
    ultimately have hi: "n < b * b ^ ?k" using n m(2) by linarith
    from False 1(2) have "ndigits b n = Suc ?k" by (simp add: ndigits.simps [of b n])
    with lo hi show ?thesis by simp
  qed
qed

text \<open>The exponent of the leading digit of a positive rational: \<open>b ^ e \<le> x < b ^ (e + 1)\<close>.\<close>

definition lead_exp :: "int \<Rightarrow> rat \<Rightarrow> int" where
  "lead_exp b x =
     (let (p, q) = quotient_of x; k = int (ndigits b p) - int (ndigits b q) in
      if of_int b powi k \<le> x then k else k - 1)"

lemma lead_exp_bounds:
  assumes b: "2 \<le> b" and x: "0 < x"
  shows "of_int b powi lead_exp b x \<le> x \<and> x < of_int b powi (lead_exp b x + 1)"
proof -
  let ?b = "of_int b :: rat"
  obtain p q where pq: "quotient_of x = (p, q)" by fastforce
  have q: "0 < q" using quotient_of_denom_pos [OF pq] .
  have xpq: "x = of_int p / of_int q" using quotient_of_div [OF pq] .
  with x q have p: "0 < p" by (simp add: zero_less_divide_iff)
  define np where "np = ndigits b p"
  define nq where "nq = ndigits b q"
  define k where "k = int np - int nq"
  have b0: "0 < ?b" "1 < ?b" "?b \<noteq> 0" using b by auto
  have np: "b ^ (np - 1) \<le> p" "p < b ^ np" "0 < np" and nq: "b ^ (nq - 1) \<le> q" "q < b ^ nq" "0 < nq"
    using ndigits_bounds [OF b p] ndigits_bounds [OF b q] by (auto simp: np_def nq_def)
  have P: "?b ^ (np - 1) \<le> of_int p" "of_int p < ?b ^ np"
    using np(1,2) by (metis of_int_le_iff of_int_power, metis of_int_less_iff of_int_power)
  have Q: "?b ^ (nq - 1) \<le> of_int q" "of_int q < ?b ^ nq"
    using nq(1,2) by (metis of_int_le_iff of_int_power, metis of_int_less_iff of_int_power)
  have q0: "(0 :: rat) < of_int q" using q by simp
  have pw: "?b powi (int m - int n) = ?b ^ m / ?b ^ n" for m n
    using b0 by (simp add: power_int_diff)
  have "?b powi (k - 1) = ?b ^ (np - 1) / ?b ^ nq"
    using np(3) by (simp add: k_def flip: pw)  (simp add: of_nat_diff algebra_simps)
  also have "\<dots> \<le> of_int p / of_int q"
    using P(1) Q(2) q0 b0 p by (intro frac_le) auto
  finally have lo: "?b powi (k - 1) \<le> x" by (simp add: xpq)
  have "x < ?b ^ np / ?b ^ (nq - 1)"
    unfolding xpq using P(2) Q(1) q0 b0 by (intro frac_less) (auto simp: p order.strict_implies_order)
  also have "\<dots> = ?b powi (k + 1)"
    using nq(3) by (simp add: k_def flip: pw) (simp add: of_nat_diff algebra_simps)
  finally have hi: "x < ?b powi (k + 1)" .
  have le: "lead_exp b x = (if ?b powi k \<le> x then k else k - 1)"
    by (simp add: lead_exp_def pq k_def np_def nq_def)
  show ?thesis using lo hi by (auto simp: le not_le)
qed

definition round_sig :: "int \<Rightarrow> nat \<Rightarrow> rat \<Rightarrow> rat" where
  "round_sig b prec x =
     (if x = 0 then 0
      else let e = lead_exp b \<bar>x\<bar> - int prec + 1
           in of_int (round_half_even (x / of_int b powi e)) * of_int b powi e)"

lemma round_sig_0 [simp]: "round_sig b prec 0 = 0"
  by (simp add: round_sig_def)

text \<open>A value that fits in the precision is kept exactly.\<close>

lemma round_sig_exact:
  assumes b: "2 \<le> b" and n: "\<bar>n\<bar> < b ^ prec" and x: "x = of_int n * of_int b powi k"
  shows "round_sig b prec x = x"
proof (cases "x = 0")
  case False
  let ?b = "of_int b :: rat"
  have b1: "1 < ?b" "?b \<noteq> 0" using b by auto
  define e where "e = lead_exp b \<bar>x\<bar> - int prec + 1"
  from False lead_exp_bounds [OF b, of "\<bar>x\<bar>"]
  have "?b powi (e + int prec - 1) \<le> \<bar>x\<bar>" by (simp add: e_def)
  also have "\<bar>x\<bar> = of_int \<bar>n\<bar> * ?b powi k" using b1 by (simp add: x abs_mult)
  also have "\<dots> < ?b ^ prec * ?b powi k"
  proof -
    have "(of_int \<bar>n\<bar> :: rat) < of_int (b ^ prec)" using n by (simp only: of_int_less_iff)
    moreover have "0 < ?b powi k" using b1 by simp
    ultimately show ?thesis by (simp add: mult_strict_right_mono)
  qed
  also have "\<dots> = ?b powi (k + int prec)" using b1 by (simp add: power_int_add)
  finally have "e + int prec - 1 < k + int prec"
    using b1 by (metis linorder_not_less power_int_increasing order.strict_implies_order)
  then have ek: "e \<le> k" by simp
  have "x / ?b powi e = of_int n * ?b powi (k - e)" using b1 by (simp add: x power_int_diff)
  also have "\<dots> = of_int (n * b ^ nat (k - e))" using ek by (simp add: power_int_def)
  finally have div: "x / ?b powi e = of_int (n * b ^ nat (k - e))" .
  have "round_sig b prec x = of_int (round_half_even (x / ?b powi e)) * ?b powi e"
    using False by (simp add: round_sig_def e_def Let_def)
  also have "\<dots> = (x / ?b powi e) * ?b powi e" unfolding div round_half_even_of_int ..
  also have "\<dots> = x" using b1 by simp
  finally show ?thesis .
qed simp

lemma round_sig_int:
  "2 \<le> b \<Longrightarrow> \<bar>n\<bar> < b ^ prec \<Longrightarrow> round_sig b prec (of_int n) = of_int n"
  by (rule round_sig_exact [where k = 0]) auto

lemma round_sig_nonneg: "2 \<le> b \<Longrightarrow> 0 \<le> x \<Longrightarrow> 0 \<le> round_sig b prec x"
  by (auto simp: round_sig_def Let_def intro!: mult_nonneg_nonneg round_half_even_nonneg)

lemma round_half_even_mono: "x \<le> y \<Longrightarrow> round_half_even x \<le> round_half_even y"
proof -
  assume le: "x \<le> y"
  have b: "\<lfloor>z\<rfloor> \<le> round_half_even z \<and> round_half_even z \<le> \<lfloor>z\<rfloor> + 1" for z
    by (simp add: round_half_even_def Let_def)
  show ?thesis
  proof (cases "\<lfloor>x\<rfloor> = \<lfloor>y\<rfloor>")
    case True
    with le show ?thesis by (auto simp: round_half_even_def Let_def)
  next
    case False
    with floor_mono [OF le] have "\<lfloor>x\<rfloor> + 1 \<le> \<lfloor>y\<rfloor>" by simp
    with b [of x] b [of y] show ?thesis by linarith
  qed
qed

lemma round_half_even_minus: "round_half_even (- x) = - round_half_even x"
proof (cases "x = of_int \<lfloor>x\<rfloor>")
  case True
  then have "round_half_even x = \<lfloor>x\<rfloor>" "round_half_even (- x) = - \<lfloor>x\<rfloor>"
    by (metis round_half_even_of_int, metis round_half_even_of_int of_int_minus)
  then show ?thesis by simp
next
  case False
  then have f: "\<lfloor>- x\<rfloor> = - \<lfloor>x\<rfloor> - 1"
    by (simp add: floor_eq_iff) linarith
  show ?thesis by (auto simp: round_half_even_def Let_def f)
qed

lemma round_sig_minus: "round_sig b prec (- x) = - round_sig b prec x"
  by (simp add: round_sig_def Let_def round_half_even_minus)

lemma round_sig_bounds:
  assumes b: "2 \<le> b" and x: "0 < x" and prec: "0 < prec"
  shows "of_int b powi lead_exp b x \<le> round_sig b prec x \<and>
    round_sig b prec x \<le> of_int b powi (lead_exp b x + 1)"
proof -
  let ?b = "of_int b :: rat"
  let ?e = "lead_exp b x - int prec + 1"
  have b1: "1 < ?b" "?b \<noteq> 0" "0 < ?b powi ?e" using b by auto
  have r: "round_sig b prec x = of_int (round_half_even (x / ?b powi ?e)) * ?b powi ?e"
    using x by (simp add: round_sig_def Let_def)
  have lo: "of_int (b ^ (prec - 1)) * ?b powi ?e = ?b powi lead_exp b x"
    using b1 prec by (simp add: power_int_add [symmetric] flip: power_int_of_nat)
  have hi: "of_int (b ^ prec) * ?b powi ?e = ?b powi (lead_exp b x + 1)"
    using b1 by (simp add: power_int_add [symmetric] flip: power_int_of_nat)
  note bnd = lead_exp_bounds [OF b x]
  have "of_int (b ^ (prec - 1)) \<le> x / ?b powi ?e"
    using bnd b1 lo by (simp add: pos_le_divide_eq)
  from round_half_even_mono [OF this] have "b ^ (prec - 1) \<le> round_half_even (x / ?b powi ?e)"
    by (simp only: round_half_even_of_int)
  then have "of_int (b ^ (prec - 1)) * ?b powi ?e \<le> round_sig b prec x"
    unfolding r using b1 by (intro mult_right_mono) (simp_all only: of_int_le_iff less_imp_le)
  moreover have "x / ?b powi ?e \<le> of_int (b ^ prec)"
    using bnd b1 hi by (simp add: pos_divide_le_eq)
  from round_half_even_mono [OF this] have "round_half_even (x / ?b powi ?e) \<le> b ^ prec"
    by (simp only: round_half_even_of_int)
  then have "round_sig b prec x \<le> of_int (b ^ prec) * ?b powi ?e"
    unfolding r using b1 by (intro mult_right_mono) (simp_all only: of_int_le_iff less_imp_le)
  ultimately show ?thesis unfolding lo hi by blast
qed

lemma round_sig_mono_pos:
  assumes b: "2 \<le> b" and prec: "0 < prec" and x: "0 < x" and le: "x \<le> y"
  shows "round_sig b prec x \<le> round_sig b prec y"
proof -
  let ?b = "of_int b :: rat"
  from x le have y: "0 < y" by simp
  have b1: "1 < ?b" using b by simp
  have "?b powi lead_exp b x < ?b powi (lead_exp b y + 1)"
    using lead_exp_bounds [OF b x] lead_exp_bounds [OF b y] le by linarith
  then have le_exp: "lead_exp b x \<le> lead_exp b y"
    using b1 by (metis power_int_increasing linorder_not_less zless_add1_eq order.strict_implies_order)
  show ?thesis
  proof (cases "lead_exp b x = lead_exp b y")
    case True
    have p: "0 < ?b powi (lead_exp b y - int prec + 1)" using b1 by simp
    have "round_half_even (x / ?b powi (lead_exp b y - int prec + 1))
        \<le> round_half_even (y / ?b powi (lead_exp b y - int prec + 1))"
      using le p by (intro round_half_even_mono divide_right_mono) auto
    then show ?thesis
      using x y p True by (simp add: round_sig_def Let_def mult_right_mono)
  next
    case False
    with le_exp have "?b powi (lead_exp b x + 1) \<le> ?b powi lead_exp b y"
      using b1 by (intro power_int_increasing) auto
    with round_sig_bounds [OF b x prec] round_sig_bounds [OF b y prec] show ?thesis by linarith
  qed
qed

lemma round_sig_mono:
  assumes b: "2 \<le> b" and prec: "0 < prec" and le: "x \<le> y"
  shows "round_sig b prec x \<le> round_sig b prec y"
proof -
  consider "0 < x" | "y < 0" | "x \<le> 0" "0 \<le> y" by linarith
  then show ?thesis
  proof cases
    case 1
    then show ?thesis using round_sig_mono_pos [OF b prec] le by blast
  next
    case 2
    then have "round_sig b prec (- y) \<le> round_sig b prec (- x)"
      using le by (intro round_sig_mono_pos [OF b prec]) auto
    then show ?thesis by (simp add: round_sig_minus)
  next
    case 3
    then have "0 \<le> round_sig b prec (- x)" "0 \<le> round_sig b prec y"
      using b by (auto intro: round_sig_nonneg)
    then show ?thesis by (simp add: round_sig_minus)
  qed
qed

text \<open>Rounding commutes with scaling by the base.\<close>

lemma lead_exp_scale:
  assumes b: "2 \<le> b" and x: "0 < x"
  shows "lead_exp b (of_int b * x) = lead_exp b x + 1"
proof -
  let ?b = "of_int b :: rat"
  have b1: "1 < ?b" "0 < ?b" "?b \<noteq> 0" using b by auto
  have le: "m \<le> n" if "?b powi m < ?b powi (n + 1)" for m n
    using that b1 by (metis linorder_not_less order.strict_implies_order power_int_increasing zle_add1_eq_le)
  have bx: "0 < ?b * x" using x b1 by simp
  note l = lead_exp_bounds [OF b x] and l' = lead_exp_bounds [OF b bx]
  have up: "?b powi (k + 1) = ?b * ?b powi k" for k using b1 by (simp add: power_int_add)
  have "?b powi (lead_exp b x + 1) \<le> ?b * x" "?b * x < ?b powi (lead_exp b x + 1 + 1)"
    using l b1 unfolding up [of "lead_exp b x"] up [of "lead_exp b x + 1"]
    by (auto simp: up intro!: mult_left_mono mult_strict_left_mono)
  with l' have "?b powi lead_exp b (?b * x) < ?b powi (lead_exp b x + 1 + 1)"
    "?b powi (lead_exp b x + 1) < ?b powi (lead_exp b (?b * x) + 1)" by linarith+
  from le [OF this(1)] le [OF this(2)] show ?thesis by simp
qed

lemma round_sig_scale:
  assumes b: "2 \<le> b"
  shows "round_sig b prec (of_int b * x) = of_int b * round_sig b prec x"
proof (cases "x = 0")
  case False
  let ?b = "of_int b :: rat"
  have b1: "1 < ?b" "0 < ?b" "?b \<noteq> 0" using b by auto
  define e where "e = lead_exp b \<bar>x\<bar> - int prec + 1"
  have "lead_exp b \<bar>?b * x\<bar> = lead_exp b \<bar>x\<bar> + 1"
    using lead_exp_scale [OF b, of "\<bar>x\<bar>"] False b1 by (simp add: abs_mult)
  then have e': "lead_exp b \<bar>?b * x\<bar> - int prec + 1 = e + 1" by (simp add: e_def)
  have up: "?b powi (e + 1) = ?b * ?b powi e" using b1 by (simp add: power_int_add)
  have nz: "?b * x \<noteq> 0" using False b1 by simp
  have "round_sig b prec (?b * x) =
      of_int (round_half_even (?b * x / (?b * ?b powi e))) * (?b * ?b powi e)"
    using nz by (simp only: round_sig_def e' up Let_def if_False)
  also have "?b * x / (?b * ?b powi e) = x / ?b powi e" using b1 by simp
  also have "of_int (round_half_even (x / ?b powi e)) * (?b * ?b powi e) = ?b * round_sig b prec x"
    using False by (simp add: round_sig_def e_def Let_def)
  finally show ?thesis .
qed simp

text \<open>The relative error of one rounding is below one half, which is all that size estimates need.\<close>

lemma round_sig_double:
  assumes b: "2 \<le> b" and prec: "0 < prec" and x: "0 \<le> x"
  shows "round_sig b prec x \<le> of_int b * x"
proof (cases "x = 0")
  case False
  with x have pos: "0 < x" by simp
  have "(of_int b :: rat) powi (lead_exp b x + 1) = of_int b * of_int b powi lead_exp b x"
    using b by (simp add: power_int_add)
  also have "\<dots> \<le> of_int b * x"
    using lead_exp_bounds [OF b pos] b by (intro mult_left_mono) auto
  finally show ?thesis using round_sig_bounds [OF b pos prec] by linarith
qed simp

text \<open>A rounded value is kept by another rounding.\<close>

lemma round_sig_idem_pos:
  assumes b: "2 \<le> b" and prec: "0 < prec" and x: "0 < x"
  shows "round_sig b prec (round_sig b prec x) = round_sig b prec x"
proof -
  let ?b = "of_int b :: rat"
  define e where "e = lead_exp b x - int prec + 1"
  define n where "n = round_half_even (x / ?b powi e)"
  have b1: "1 < ?b" "?b \<noteq> 0" "0 < ?b powi e" using b by auto
  have r: "round_sig b prec x = of_int n * ?b powi e"
    using x by (simp add: round_sig_def Let_def n_def e_def)
  have hi: "of_int (b ^ prec) * ?b powi e = ?b powi (lead_exp b x + 1)"
    using b1 by (simp add: e_def power_int_add [symmetric] flip: power_int_of_nat)
  have "of_int n * ?b powi e \<le> of_int (b ^ prec) * ?b powi e"
    using round_sig_bounds [OF b x prec] unfolding r hi by blast
  then have n: "n \<le> b ^ prec"
    using b1 mult_le_cancel_right_pos [of "?b powi e" "of_int n" "of_int (b ^ prec)"] by (simp only: of_int_le_iff)
  have n0: "0 \<le> n" using x b1 by (simp add: n_def round_half_even_nonneg)
  show ?thesis
  proof (cases "n = b ^ prec")
    case True
    have "round_sig b prec x = of_int 1 * ?b powi (lead_exp b x + 1)" unfolding r True hi by simp
    moreover have "1 < b ^ prec" using b prec by (intro one_less_power) auto
    ultimately show ?thesis by (intro round_sig_exact [OF b, of 1]) auto
  next
    case False
    with n n0 have "\<bar>n\<bar> < b ^ prec" by simp
    then show ?thesis using r by (intro round_sig_exact [OF b]) auto
  qed
qed

lemma round_sig_idem: "2 \<le> b \<Longrightarrow> 0 < prec \<Longrightarrow> round_sig b prec (round_sig b prec x) = round_sig b prec x"
  using round_sig_idem_pos [of b prec x] round_sig_idem_pos [of b prec "- x"]
  by (cases "0 < x"; cases "x = 0") (auto simp: round_sig_minus)

section \<open>Decimal and float arithmetic\<close>

type_synonym dec = rat
type_synonym float64 = rat

definition ctx :: "rat \<Rightarrow> dec" where
  "ctx = round_sig 10 28"

definition fl :: "rat \<Rightarrow> float64" where
  "fl = round_sig 2 53"

definition dadd :: "dec \<Rightarrow> dec \<Rightarrow> dec" where
  "dadd x y = ctx (x + y)"

definition dsub :: "dec \<Rightarrow> dec \<Rightarrow> dec" where
  "dsub x y = ctx (x - y)"

definition dmul :: "dec \<Rightarrow> dec \<Rightarrow> dec" where
  "dmul x y = ctx (x * y)"

text \<open>Division by zero raises \<open>DivisionByZero\<close>, zero by zero raises \<open>InvalidOperation\<close>.\<close>

definition ddiv :: "dec \<Rightarrow> dec \<Rightarrow> dec res" where
  "ddiv x y =
     (if y = 0 then Inl (if x = 0 then InvalidOperation else DivisionByZero) else Inr (ctx (x / y)))"

text \<open>\<open>sum(xs, Decimal("0"))\<close>: left to right, rounding after every addition.\<close>

definition dsum :: "dec list \<Rightarrow> dec" where
  "dsum xs = foldl dadd 0 xs"

lemma ctx_0 [simp]: "ctx 0 = 0"
  by (simp add: ctx_def)

lemma fl_0 [simp]: "fl 0 = 0"
  by (simp add: fl_def)

lemma ctx_nonneg: "0 \<le> x \<Longrightarrow> 0 \<le> ctx x"
  by (simp add: ctx_def round_sig_nonneg)

lemma fl_nonneg: "0 \<le> x \<Longrightarrow> 0 \<le> fl x"
  by (simp add: fl_def round_sig_nonneg)

lemma ctx_mono: "x \<le> y \<Longrightarrow> ctx x \<le> ctx y"
  unfolding ctx_def by (rule round_sig_mono) auto

lemma fl_mono: "x \<le> y \<Longrightarrow> fl x \<le> fl y"
  unfolding fl_def by (rule round_sig_mono) auto

lemma ctx_idem [simp]: "ctx (ctx x) = ctx x"
  by (simp add: ctx_def round_sig_idem)

lemma fl_idem [simp]: "fl (fl x) = fl x"
  by (simp add: fl_def round_sig_idem)

lemma ctx_minus: "ctx (- x) = - ctx x"
  by (simp add: ctx_def round_sig_minus)

lemma ctx_le: "0 \<le> x \<Longrightarrow> ctx x \<le> 10 * x"
  unfolding ctx_def using round_sig_double [of 10 28 x] by simp

lemma fl_scale: "fl (2 * x) = 2 * fl x"
  using round_sig_scale [of 2 53 x] by (simp add: fl_def)

lemma fl_of_int: "\<bar>n\<bar> < 2 ^ 53 \<Longrightarrow> fl (of_int n) = of_int n"
  unfolding fl_def by (rule round_sig_int) auto

lemma dsum_Nil [simp]: "dsum [] = 0"
  by (simp add: dsum_def)

section \<open>Six decimal places\<close>

text \<open>
  \<open>quantize(value)\<close> is \<open>value.quantize(Decimal("0.000001"), rounding=ROUND_HALF_UP)\<close>: ties go
  away from zero, and a coefficient of more than 28 digits raises.  \<open>micro\<close> says that a value is a
  whole number of millionths that the context can hold: what \<open>quantize\<close> returns.
\<close>

definition round_half_up :: "rat \<Rightarrow> int" where
  "round_half_up x = (if 0 \<le> x then \<lfloor>x + 1 / 2\<rfloor> else - \<lfloor>- x + 1 / 2\<rfloor>)"

definition quantize_to :: "nat \<Rightarrow> dec \<Rightarrow> dec res" where
  "quantize_to places x =
     (let n = round_half_up (x * 10 ^ places) in
      if \<bar>n\<bar> < 10 ^ 28 then Inr (of_int n / 10 ^ places) else Inl InvalidOperation)"

definition quantize :: "dec \<Rightarrow> dec res" where
  "quantize x = quantize_to 6 x"

definition micro :: "dec \<Rightarrow> bool" where
  "micro x \<longleftrightarrow> (\<exists>n. x = of_int n / 10 ^ 6 \<and> \<bar>n\<bar> < 10 ^ 28)"

lemma round_half_up_of_int [simp]: "round_half_up (of_int n) = n"
  unfolding round_half_up_def by (auto simp: floor_eq_iff)

lemma round_half_up_0 [simp]: "round_half_up 0 = 0"
  using round_half_up_of_int [of 0] by simp

lemma round_half_up_close: "\<bar>of_int (round_half_up x) - x\<bar> \<le> 1 / 2"
proof -
  have f: "\<bar>of_int \<lfloor>y + 1 / 2\<rfloor> - y\<bar> \<le> 1 / 2" for y :: rat
    by linarith
  have "\<bar>- of_int \<lfloor>- x + 1 / 2\<rfloor> - x\<bar> \<le> 1 / 2"
    using f [of "- x"] by linarith
  with f [of x] show ?thesis by (simp add: round_half_up_def del: uminus_add_conv_diff)
qed

lemma round_half_up_mono:
  assumes "x \<le> y" shows "round_half_up x \<le> round_half_up y"
proof -
  have "0 \<le> \<lfloor>z + 1 / 2\<rfloor>" if "0 \<le> z" for z :: rat
    using that by (simp add: zero_le_floor)
  then have pos: "0 \<le> round_half_up z" if "0 \<le> z" for z using that by (simp add: round_half_up_def)
  have neg: "round_half_up z \<le> 0" if "z < 0" for z
  proof -
    have "0 \<le> \<lfloor>- z + 1 / 2\<rfloor>" using that by (simp add: zero_le_floor)
    with that show ?thesis by (simp add: round_half_up_def)
  qed
  consider "0 \<le> x" | "x < 0" "0 \<le> y" | "y < 0" using assms by linarith
  then show ?thesis
  proof cases
    case 1
    with assms show ?thesis by (simp add: round_half_up_def floor_mono)
  next
    case 2
    with pos [of y] neg [of x] show ?thesis by linarith
  next
    case 3
    with assms have "\<lfloor>- y + 1 / 2\<rfloor> \<le> \<lfloor>- x + 1 / 2\<rfloor>" by (intro floor_mono) simp
    with 3 assms show ?thesis by (simp add: round_half_up_def)
  qed
qed

lemma quantize_Inr:
  "quantize x = Inr q \<longleftrightarrow>
     q = of_int (round_half_up (x * 10 ^ 6)) / 10 ^ 6 \<and> \<bar>round_half_up (x * 10 ^ 6)\<bar> < 10 ^ 28"
  by (auto simp: quantize_def quantize_to_def Let_def)

lemma quantize_micro:
  assumes "quantize x = Inr q" shows "micro q"
  using assms unfolding quantize_Inr micro_def by blast

lemma quantize_id:
  assumes "micro x" shows "quantize x = Inr x"
proof -
  from assms obtain n where n: "x = of_int n / 10 ^ 6" "\<bar>n\<bar> < 10 ^ 28"
    by (auto simp only: micro_def)
  then have "x * 10 ^ 6 = of_int n" by simp
  then have "round_half_up (x * 10 ^ 6) = n" by (simp only: round_half_up_of_int)
  with n show ?thesis unfolding quantize_Inr by (simp only: simp_thms)
qed

lemma quantize_close:
  assumes "quantize x = Inr q" shows "\<bar>q - x\<bar> \<le> 1 / 2000000"
proof -
  let ?n = "round_half_up (x * 10 ^ 6)"
  have "q - x = (of_int ?n - x * 10 ^ 6) / 10 ^ 6"
    using assms by (simp add: quantize_Inr diff_divide_distrib)
  then have "\<bar>q - x\<bar> = \<bar>of_int ?n - x * 10 ^ 6\<bar> / 10 ^ 6"
    by (simp only: abs_divide) simp
  also have "\<dots> \<le> (1 / 2) / 10 ^ 6"
    by (intro divide_right_mono round_half_up_close) simp
  finally show ?thesis by simp
qed

lemma quantize_mono:
  assumes "quantize x = Inr p" and "quantize y = Inr q" and "x \<le> y"
  shows "p \<le> q"
proof -
  have "round_half_up (x * 10 ^ 6) \<le> round_half_up (y * 10 ^ 6)"
    using assms(3) by (intro round_half_up_mono) simp
  then have "(of_int (round_half_up (x * 10 ^ 6)) :: rat) / 10 ^ 6
      \<le> of_int (round_half_up (y * 10 ^ 6)) / 10 ^ 6"
    by (intro divide_right_mono) simp_all
  then show ?thesis using assms(1,2) by (simp only: quantize_Inr)
qed

lemma quantize_0 [simp]: "quantize 0 = Inr 0"
  by (simp add: quantize_Inr)

lemma quantize_nonneg: "quantize x = Inr q \<Longrightarrow> 0 \<le> x \<Longrightarrow> 0 \<le> q"
  using quantize_mono [OF quantize_0] by blast

lemma quantize_defined:
  assumes "\<bar>x\<bar> < 10 ^ 22 - 1" shows "\<exists>q. quantize x = Inr q"
proof -
  let ?n = "round_half_up (x * 10 ^ 6)"
  have "\<bar>of_int ?n - x * 10 ^ 6\<bar> \<le> 1 / 2" by (rule round_half_up_close)
  moreover have "\<bar>x * 10 ^ 6\<bar> < (10 ^ 22 - 1) * 10 ^ 6" using assms by (simp add: abs_mult)
  moreover have "\<bar>a\<bar> < c + 1 / 2" if "\<bar>a - b\<bar> \<le> 1 / 2" "\<bar>b\<bar> < c" for a b c :: rat
    using that by linarith
  ultimately have "\<bar>of_int ?n\<bar> < ((10 ^ 22 - 1) * 10 ^ 6 + 1 / 2 :: rat)" by blast
  also have "\<dots> < 10 ^ 28" by simp
  finally have "\<bar>of_int ?n\<bar> < (10 ^ 28 :: rat)" .
  then have "of_int \<bar>?n\<bar> < (of_int (10 ^ 28) :: rat)" by simp
  then have "\<bar>?n\<bar> < 10 ^ 28" by (simp only: of_int_less_iff)
  then show ?thesis unfolding quantize_Inr by blast
qed

lemma micro_0 [simp]: "micro 0"
  unfolding micro_def by (rule exI [of _ 0]) simp

lemma micro_minus: "micro x \<Longrightarrow> micro (- x)"
proof -
  assume "micro x"
  then obtain n where "x = of_int n / 10 ^ 6" "\<bar>n\<bar> < 10 ^ 28" by (auto simp: micro_def)
  then show ?thesis unfolding micro_def by (intro exI [of _ "- n"]) simp
qed

lemma ctx_micro: "micro x \<Longrightarrow> ctx x = x"
proof -
  assume "micro x"
  then obtain n where n: "x = of_int n / 10 ^ 6" "\<bar>n\<bar> < 10 ^ 28" by (auto simp: micro_def)
  have "(10 :: rat) powi (- 6) = 1 / 10 ^ 6" unfolding power_int_minus_divide by simp
  then have "x = of_int n * of_int 10 powi (- 6)" using n(1) by simp
  with n(2) show ?thesis unfolding ctx_def
    by (intro round_sig_exact [where n = n and k = "- 6"]) auto
qed

text \<open>Sums of quantized amounts are exact while they stay below ten to the 22.\<close>

definition millionths :: "dec \<Rightarrow> bool" where
  "millionths x \<longleftrightarrow> (\<exists>n. x = of_int n / 10 ^ 6)"

lemma micro_iff: "micro x \<longleftrightarrow> millionths x \<and> \<bar>x\<bar> < 10 ^ 22"
proof -
  have "\<bar>of_int n / 10 ^ 6 :: rat\<bar> < 10 ^ 22 \<longleftrightarrow> \<bar>n\<bar> < 10 ^ 28" for n
  proof -
    have "\<bar>of_int n / 10 ^ 6 :: rat\<bar> < 10 ^ 22 \<longleftrightarrow> of_int \<bar>n\<bar> < (10 ^ 28 :: rat)"
      by (simp add: field_simps)
    also have "\<dots> \<longleftrightarrow> of_int \<bar>n\<bar> < (of_int (10 ^ 28) :: rat)" by simp
    also have "\<dots> \<longleftrightarrow> \<bar>n\<bar> < 10 ^ 28" by (simp only: of_int_less_iff)
    finally show ?thesis .
  qed
  then show ?thesis by (auto simp: micro_def millionths_def)
qed

lemma millionths_add: "millionths x \<Longrightarrow> millionths y \<Longrightarrow> millionths (x + y)"
  unfolding millionths_def by (metis add_divide_distrib of_int_add)

lemma millionths_minus: "millionths x \<Longrightarrow> millionths (- x)"
  unfolding millionths_def by (metis minus_divide_left of_int_minus)

lemma millionths_diff: "millionths x \<Longrightarrow> millionths y \<Longrightarrow> millionths (x - y)"
  using millionths_add [OF _ millionths_minus, of x y] by simp

lemma millionths_0 [simp]: "millionths 0"
  unfolding millionths_def by (rule exI [of _ 0]) simp

lemma micro_millionths: "micro x \<Longrightarrow> millionths x"
  by (simp add: micro_iff)

lemma dadd_exact: "millionths x \<Longrightarrow> millionths y \<Longrightarrow> \<bar>x + y\<bar> < 10 ^ 22 \<Longrightarrow> dadd x y = x + y"
  by (simp add: dadd_def ctx_micro micro_iff millionths_add)

lemma dsub_exact: "millionths x \<Longrightarrow> millionths y \<Longrightarrow> \<bar>x - y\<bar> < 10 ^ 22 \<Longrightarrow> dsub x y = x - y"
  by (simp add: dsub_def ctx_micro micro_iff millionths_diff)

lemma millionths_times: "millionths x \<Longrightarrow> millionths (of_int k * x)"
  unfolding millionths_def by (metis mult.left_commute of_int_mult times_divide_eq_right)

lemma millionths_sum_list: "(\<And>x. x \<in> set xs \<Longrightarrow> millionths x) \<Longrightarrow> millionths (sum_list xs)"
  by (induction xs) (auto simp: millionths_add)

lemma abs_sum_list_le: "\<bar>sum_list xs\<bar> \<le> sum_list (map abs xs)" for xs :: "rat list"
  by (induction xs) auto

lemma foldl_dadd_exact:
  assumes "millionths a" and "\<And>x. x \<in> set xs \<Longrightarrow> millionths x"
    and "\<bar>a\<bar> + sum_list (map abs xs) < 10 ^ 22"
  shows "foldl dadd a xs = a + sum_list xs"
  using assms
proof (induction xs arbitrary: a)
  case (Cons x xs)
  have nn: "0 \<le> sum_list (map abs xs)" by (induction xs) auto
  have "\<bar>a + x\<bar> \<le> \<bar>a\<bar> + \<bar>x\<bar>" by simp
  with Cons.prems(3) nn have b: "\<bar>a + x\<bar> + sum_list (map abs xs) < 10 ^ 22" by simp
  with nn have d: "dadd a x = a + x" using Cons.prems(1,2) by (intro dadd_exact) auto
  have "foldl dadd (a + x) xs = (a + x) + sum_list xs"
    using Cons.prems(1,2) b by (intro Cons.IH millionths_add) auto
  with d show ?case by simp
qed simp

lemma dsum_exact:
  assumes "\<And>x. x \<in> set xs \<Longrightarrow> millionths x" and "sum_list (map abs xs) < 10 ^ 22"
  shows "dsum xs = sum_list xs"
  using foldl_dadd_exact [of 0 xs] assms by (simp add: dsum_def)

text \<open>Evaluation of closed amounts: a value that is a whole number of millionths is kept.\<close>

lemma micro_eval:
  assumes "of_int \<lfloor>x * 1000000\<rfloor> = x * 1000000" and "\<bar>\<lfloor>x * 1000000\<rfloor>\<bar> < 10 ^ 28"
  shows "micro x"
proof -
  have "x = of_int \<lfloor>x * 1000000\<rfloor> / 10 ^ 6" unfolding assms(1) by simp
  then show ?thesis unfolding micro_def using assms(2) by blast
qed

lemmas dec_eval = ctx_micro [OF micro_eval] quantize_id [OF micro_eval] dadd_def dsub_def dmul_def
  ddiv_def dsum_def

text \<open>\<open>Decimal(n)\<close> of an integer is exact; arithmetic rounds its result, not its operands.\<close>

abbreviation dec_of_int :: "int \<Rightarrow> dec" where
  "dec_of_int \<equiv> of_int"

end
