(* ===== verification/PyTime.thy ===== *)
theory PyTime imports Decimal begin

text \<open>
  Python's \<open>datetime\<close> as the code uses it.  A \<open>datetime\<close> carries a count of microseconds and
  whether it has a time zone; two aware values compare by instant, a naive and an aware value do
  not compare at all.  A \<open>date\<close> is its proleptic Gregorian ordinal (1 is 0001-01-01), and date
  arithmetic outside the years 1 to 9999 raises \<^const>\<open>OverflowError\<close>.  The calendar functions
  below are the standard library's: leap years, month lengths, ordinal to year, month and day.
  The range check of aware timestamps (years 1 to 9999) is not modelled.
\<close>

section \<open>Timestamps\<close>

datatype datetime = Naive int | Aware int

fun is_naive :: "datetime \<Rightarrow> bool" where
  "is_naive (Naive _) = True"
| "is_naive (Aware _) = False"

fun micros :: "datetime \<Rightarrow> int" where
  "micros (Naive t) = t"
| "micros (Aware t) = t"

text \<open>The helper that appears as \<open>_as_utc\<close> and \<open>ensure_utc\<close>: a naive value is read as UTC.\<close>

definition as_utc :: "datetime \<Rightarrow> datetime" where
  "as_utc v = (case v of Naive t \<Rightarrow> Aware t | Aware t \<Rightarrow> Aware t)"

lemma as_utc_micros [simp]: "as_utc v = Aware (micros v)"
  by (cases v) (simp_all add: as_utc_def)

text \<open>\<open>a < b\<close>, \<open>a <= b\<close> and \<open>a - b\<close> raise \<open>TypeError\<close> when exactly one side is naive.\<close>

definition dt_comparable :: "datetime \<Rightarrow> datetime \<Rightarrow> bool" where
  "dt_comparable a b \<longleftrightarrow> is_naive a = is_naive b"

definition dt_less_eq :: "datetime \<Rightarrow> datetime \<Rightarrow> bool res" where
  "dt_less_eq a b = (if dt_comparable a b then Inr (micros a \<le> micros b) else Inl TypeError)"

definition dt_diff :: "datetime \<Rightarrow> datetime \<Rightarrow> int res" where
  "dt_diff a b = (if dt_comparable a b then Inr (micros a - micros b) else Inl TypeError)"

definition dt_add :: "datetime \<Rightarrow> int \<Rightarrow> datetime" where
  "dt_add a d = (case a of Naive t \<Rightarrow> Naive (t + d) | Aware t \<Rightarrow> Aware (t + d))"

lemma is_naive_dt_add [simp]: "is_naive (dt_add a d) = is_naive a"
  by (cases a) (simp_all add: dt_add_def)

lemma micros_dt_add [simp]: "micros (dt_add a d) = micros a + d"
  by (cases a) (simp_all add: dt_add_def)

lemma dt_comparable_refl [simp]: "dt_comparable a a"
  by (simp add: dt_comparable_def)

definition seconds :: "int \<Rightarrow> int" where
  "seconds n = n * 1000000"

definition hours :: "int \<Rightarrow> int" where
  "hours n = n * 3600000000"

text \<open>\<open>timedelta.total_seconds()\<close> is a float: the exact quotient, rounded once.\<close>

definition total_seconds :: "int \<Rightarrow> float64" where
  "total_seconds d = fl (of_int d / 1000000)"

section \<open>Dates\<close>

type_synonym date = int

definition max_ordinal :: int where
  "max_ordinal = 3652059"

definition date_ok :: "date \<Rightarrow> bool" where
  "date_ok d \<longleftrightarrow> 1 \<le> d \<and> d \<le> max_ordinal"

definition date_add :: "date \<Rightarrow> int \<Rightarrow> date res" where
  "date_add d n = (if date_ok (d + n) then Inr (d + n) else Inl OverflowError)"

definition weekday :: "date \<Rightarrow> int" where
  "weekday d = (d + 6) mod 7"

definition is_leap :: "int \<Rightarrow> bool" where
  "is_leap y \<longleftrightarrow> y mod 4 = 0 \<and> (y mod 100 \<noteq> 0 \<or> y mod 400 = 0)"

definition days_before_year :: "int \<Rightarrow> int" where
  "days_before_year y = (let z = y - 1 in z * 365 + z div 4 - z div 100 + z div 400)"

definition days_in_month :: "int \<Rightarrow> int \<Rightarrow> int" where
  "days_in_month y m =
     (if m = 2 then (if is_leap y then 29 else 28)
      else if m = 4 \<or> m = 6 \<or> m = 9 \<or> m = 11 then 30 else 31)"

definition days_before_month :: "int \<Rightarrow> int \<Rightarrow> int" where
  "days_before_month y m = (\<Sum>i\<leftarrow>[1..m - 1]. days_in_month y i)"

definition mk_date :: "int \<Rightarrow> int \<Rightarrow> int \<Rightarrow> date res" where
  "mk_date y m d =
     (if 1 \<le> y \<and> y \<le> 9999 \<and> 1 \<le> m \<and> m \<le> 12 \<and> 1 \<le> d \<and> d \<le> days_in_month y m
      then Inr (days_before_year y + days_before_month y m + d) else Inl ValueError)"

lemma days_in_month_bounds: "28 \<le> days_in_month y m \<and> days_in_month y m \<le> 31"
  by (simp add: days_in_month_def)

lemma days_before_year_step:
  "days_before_year (y + 1) = days_before_year y + (if is_leap y then 366 else 365)"
proof -
  have d: "(y::int) div k = (y - 1) div k + (if y mod k = 0 then 1 else 0)" if k: "0 < k" for k
  proof -
    have y: "y = k * (y div k) + y mod k" and m: "0 \<le> y mod k" "y mod k < k" using k by simp_all
    have "(y - 1) div k = (if y mod k = 0 then y div k - 1 else y div k)"
    proof (cases "y mod k = 0")
      case True
      have "(y - 1) div k = y div k - 1"
        by (rule int_div_pos_eq [where r = "k - 1"]) (use True y k in \<open>auto simp: algebra_simps\<close>)
      with True show ?thesis by simp
    next
      case False
      then have "(y - 1) div k = y div k"
        by (intro int_div_pos_eq [where r = "y mod k - 1"]) (use y m False in linarith)+
      with False show ?thesis by simp
    qed
    then show ?thesis by simp
  qed
  have "(100::int) dvd 400" "(4::int) dvd 100" by simp_all
  then have m: "y mod 400 = 0 \<Longrightarrow> y mod 100 = 0" "y mod 100 = 0 \<Longrightarrow> y mod 4 = 0"
    unfolding mod_eq_0_iff_dvd by (blast intro: dvd_trans)+
  then have leap: "(if is_leap y then 1 else 0) = (if y mod 4 = 0 then 1 else 0)
      - (if y mod 100 = 0 then 1 else 0) + (if y mod 400 = 0 then 1 else (0::int))"
    unfolding is_leap_def
    by (cases "y mod 400 = 0"; cases "y mod 100 = 0"; cases "y mod 4 = 0") (use m in simp_all)
  have next_year: "days_before_year (y + 1) = y * 365 + y div 4 - y div 100 + y div 400"
    by (simp add: days_before_year_def)
  have this_year: "days_before_year y =
      (y - 1) * 365 + (y - 1) div 4 - (y - 1) div 100 + (y - 1) div 400"
    by (simp only: days_before_year_def Let_def)
  have arith: "e = c + (365 + l)"
    if "l = i - j + k" "e = y * 365 + b4 - b100 + b400" "c = (y - 1) * 365 + a4 - a100 + a400"
      "b4 = a4 + i" "b100 = a100 + j" "b400 = a400 + k"
    for c e l i j k a4 a100 a400 b4 b100 b400 :: int
    unfolding that(2-6) that(1) by (simp add: algebra_simps)
  have "days_before_year (y + 1) = days_before_year y + (365 + (if is_leap y then 1 else 0))"
    by (rule arith [OF leap next_year this_year]; rule d; simp)
  then show ?thesis by simp
qed

lemma days_before_year_lower: "1 \<le> y \<Longrightarrow> days_before_year y \<le> 366 * (y - 1)"
proof -
  assume "1 \<le> y"
  then have "(y - 1) div 4 \<le> (y - 1) div 1" "(y - 1) div 400 \<le> (y - 1) div 100"
    by (intro zdiv_mono2; simp)+
  then show ?thesis by (simp add: days_before_year_def Let_def)
qed

text \<open>The year of an ordinal: search upwards from a lower bound.\<close>

function year_from :: "int \<Rightarrow> date \<Rightarrow> int" where
  "year_from y n = (if days_before_year (y + 1) < n then year_from (y + 1) n else y)"
  by pat_completeness auto
termination
proof (relation "measure (\<lambda>(y, n). nat (n - days_before_year y))")
  fix y n
  assume "days_before_year (y + 1) < n"
  moreover have "days_before_year y < days_before_year (y + 1)"
    using days_before_year_step [of y] by simp
  ultimately show "((y + 1, n), y, n) \<in> measure (\<lambda>(y, n). nat (n - days_before_year y))"
    by simp
qed simp

declare year_from.simps [simp del]

lemma year_from_bounds:
  "days_before_year y < n \<Longrightarrow>
     days_before_year (year_from y n) < n \<and> n \<le> days_before_year (year_from y n + 1)"
proof (induction y n rule: year_from.induct)
  case (1 y n)
  then show ?case by (cases "days_before_year (y + 1) < n") (auto simp: year_from.simps [of y n])
qed

definition year_of :: "date \<Rightarrow> int" where
  "year_of n = year_from ((n - 1) div 366 + 1) n"

lemma year_of_bounds:
  assumes "1 \<le> n"
  shows "days_before_year (year_of n) < n" and "n \<le> days_before_year (year_of n + 1)"
proof -
  let ?y = "(n - 1) div 366 + 1"
  have "days_before_year ?y \<le> 366 * ((n - 1) div 366)"
    using assms days_before_year_lower [of ?y] by (simp add: pos_imp_zdiv_nonneg_iff)
  moreover have "366 * ((n - 1) div 366) = n - 1 - (n - 1) mod 366" by (rule minus_mod_eq_mult_div [symmetric])
  moreover have "0 \<le> (n - 1) mod 366" by simp
  ultimately have "days_before_year ?y < n" by linarith
  then show "days_before_year (year_of n) < n" and "n \<le> days_before_year (year_of n + 1)"
    unfolding year_of_def by (simp_all add: year_from_bounds)
qed

function month_from :: "int \<Rightarrow> int \<Rightarrow> int \<Rightarrow> int \<times> int" where
  "month_from y m k =
     (if m < 12 \<and> days_in_month y m < k then month_from y (m + 1) (k - days_in_month y m) else (m, k))"
  by pat_completeness auto
termination by (relation "measure (\<lambda>(y, m, k). nat (12 - m))") auto

declare month_from.simps [simp del]

definition ymd_of :: "date \<Rightarrow> int \<times> int \<times> int" where
  "ymd_of n = (let y = year_of n in (y, month_from y 1 (n - days_before_year y)))"

lemma days_before_month_Suc:
  "1 \<le> m \<Longrightarrow> days_before_month y (m + 1) = days_before_month y m + days_in_month y m"
  by (simp add: days_before_month_def upto_rec2)

lemma month_from_props:
  assumes "1 \<le> m" "m \<le> 12" "1 \<le> k" and "month_from y m k = (m', d)"
  shows "m \<le> m' \<and> m' \<le> 12 \<and> 1 \<le> d \<and> days_before_month y m + k = days_before_month y m' + d \<and>
    (m' < 12 \<longrightarrow> d \<le> days_in_month y m')"
  using assms
proof (induction y m k rule: month_from.induct)
  case (1 y m k)
  show ?case
  proof (cases "m < 12 \<and> days_in_month y m < k")
    case True
    with 1 have "m + 1 \<le> m' \<and> m' \<le> 12 \<and> 1 \<le> d \<and>
        days_before_month y (m + 1) + (k - days_in_month y m) = days_before_month y m' + d \<and>
        (m' < 12 \<longrightarrow> d \<le> days_in_month y m')"
      by (auto simp: month_from.simps [of y m k])
    with 1(2) show ?thesis by (auto simp: days_before_month_Suc)
  next
    case False
    with 1 show ?thesis by (auto simp: month_from.simps [of y m k])
  qed
qed

lemma days_before_month_1 [simp]: "days_before_month y 1 = 0"
  by (simp add: days_before_month_def)

lemma days_of_year: "days_before_month y 12 + 31 = (if is_leap y then 366 else 365)"
proof -
  have "[1..12 - 1 :: int] = [1,2,3,4,5,6,7,8,9,10,11]" by (simp add: upto.simps)
  then show ?thesis by (simp add: days_before_month_def days_in_month_def)
qed

text \<open>Year, month and day of an ordinal are a valid date with that ordinal.\<close>

lemma ymd_of_props:
  assumes "1 \<le> n" and "ymd_of n = (y, m, d)"
  shows "1 \<le> m" "m \<le> 12" "1 \<le> d" "d \<le> days_in_month y m"
    and "n = days_before_year y + days_before_month y m + d"
proof -
  from assms(2) have y: "y = year_of n" and md: "month_from y 1 (n - days_before_year y) = (m, d)"
    by (auto simp: ymd_of_def Let_def)
  from year_of_bounds [OF assms(1)] y
  have b: "1 \<le> n - days_before_year y" "n \<le> days_before_year (y + 1)" by simp_all
  from month_from_props [OF _ _ b(1) md]
  have p: "1 \<le> m \<and> m \<le> 12 \<and> 1 \<le> d \<and> n - days_before_year y = days_before_month y m + d \<and>
      (m < 12 \<longrightarrow> d \<le> days_in_month y m)" by simp
  then show "1 \<le> m" "m \<le> 12" "1 \<le> d" "n = days_before_year y + days_before_month y m + d"
    by simp_all
  show "d \<le> days_in_month y m"
  proof (cases "m < 12")
    case False
    with p have m: "m = 12" by simp
    from p b(2) have "days_before_month y 12 + d \<le> (if is_leap y then 366 else 365)"
      by (simp add: m days_before_year_step)
    with days_of_year [of y] have "d \<le> 31" by simp
    then show ?thesis by (simp add: m days_in_month_def)
  qed (use p in simp)
qed

text \<open>Months follow each other without overlap, so the month of an ordinal is unique.\<close>

lemma days_before_month_mono:
  assumes "1 \<le> m" and "m < m'"
  shows "days_before_month y m + days_in_month y m \<le> days_before_month y m'"
proof -
  have "m + 1 \<le> m'" using assms(2) by simp
  then show ?thesis
  proof (induction m' rule: int_ge_induct)
    case base
    then show ?case using assms(1) by (simp add: days_before_month_Suc)
  next
    case (step i)
    then show ?case using assms(1) days_in_month_bounds [of y i] by (simp add: days_before_month_Suc)
  qed
qed

lemma month_within_year:
  assumes "1 \<le> m" and "m \<le> 12"
  shows "days_before_year y + days_before_month y m + days_in_month y m \<le> days_before_year (y + 1)"
proof (cases "m = 12")
  case True
  then show ?thesis using days_of_year [of y] by (simp add: days_before_year_step days_in_month_def)
next
  case False
  with assms have "days_before_month y m + days_in_month y m \<le> days_before_month y 12"
    by (intro days_before_month_mono) auto
  then show ?thesis using days_of_year [of y] by (simp add: days_before_year_step)
qed

lemma days_before_year_mono:
  assumes "y < y'" shows "days_before_year (y + 1) \<le> days_before_year y'"
proof -
  have "y + 1 \<le> y'" using assms by simp
  then show ?thesis by (induction y' rule: int_ge_induct) (auto simp: days_before_year_step)
qed

lemma month_order:
  assumes m: "1 \<le> m" "m \<le> 12" and n: "days_before_year y + days_before_month y m < n"
    and m': "1 \<le> m'" "n \<le> days_before_year y' + days_before_month y' m' + days_in_month y' m'" "m' \<le> 12"
  shows "y < y' \<or> y = y' \<and> m \<le> m'"
proof (rule ccontr)
  assume "\<not> ?thesis"
  then consider "y' < y" | "y' = y" "m' < m" by linarith
  then show False
  proof cases
    case 1
    have "0 \<le> days_before_month y m"
      using days_before_month_mono [of 1 m y] days_in_month_bounds [of y 1] m by (cases "m = 1") auto
    then show False
      using days_before_year_mono [OF 1] month_within_year [OF m'(1,3), of y'] m'(2) n by linarith
  next
    case 2
    then show False using days_before_month_mono [OF m'(1) 2(2), of y] m'(2) n by simp
  qed
qed

lemma ymd_of_unique:
  assumes "1 \<le> n" and "1 \<le> m" "m \<le> 12"
    and "days_before_year y + days_before_month y m < n"
    and "n \<le> days_before_year y + days_before_month y m + days_in_month y m"
  shows "ymd_of n = (y, m, n - days_before_year y - days_before_month y m)"
proof -
  obtain y' m' d' where q: "ymd_of n = (y', m', d')" by (metis prod_cases3)
  note p = ymd_of_props [OF assms(1) q]
  have "y < y' \<or> y = y' \<and> m \<le> m'"
    using p assms by (intro month_order [of m y n]) auto
  moreover have "y' < y \<or> y' = y \<and> m' \<le> m"
    using p assms by (intro month_order [of m' y' n]) auto
  ultimately have "y = y'" "m = m'" by auto
  with p(5) q show ?thesis by simp
qed

lemma weekday_bounds: "0 \<le> weekday d \<and> weekday d \<le> 6"
  by (simp add: weekday_def)

end
