(* ===== verification/OrderDesk.thy ===== *)
theory OrderDesk imports Machines PyTime begin

text \<open>
  \<^verbatim>\<open>app/engines/order_desk.py\<close>: review of orders by amount, detection of order exceptions, the
  shipping window, and the states of a return.  Status codes are the stored strings.  The three
  refusal messages of \<open>review_blocks_ship\<close> are the constructors of \<open>ship_block\<close>.
\<close>

section \<open>Review\<close>

abbreviation RV_AUTO_PASSED :: string where "RV_AUTO_PASSED \<equiv> ''AUTO_PASSED''"
abbreviation RV_PENDING :: string where "RV_PENDING \<equiv> ''PENDING''"
abbreviation RV_APPROVED :: string where "RV_APPROVED \<equiv> ''APPROVED''"
abbreviation RV_REJECTED :: string where "RV_REJECTED \<equiv> ''REJECTED''"

definition locked_review :: "string list" where
  "locked_review = [RV_APPROVED, RV_REJECTED]"

definition shippable_review :: "string list" where
  "shippable_review = [RV_AUTO_PASSED, RV_APPROVED]"

record amount_rule =
  rule_currency :: string
  amount_gt :: dec
  rule_enabled :: bool

definition amount_needs_review :: "dec \<Rightarrow> string \<Rightarrow> amount_rule list \<Rightarrow> bool" where
  "amount_needs_review amount currency rules =
     (let code = upper (strip currency) in
      list_ex (\<lambda>r. rule_enabled r \<and> upper (rule_currency r) = code \<and> amount_gt r < amount) rules)"

definition next_review_status ::
  "string option \<Rightarrow> dec \<Rightarrow> string \<Rightarrow> amount_rule list \<Rightarrow> string" where
  "next_review_status current amount currency rules =
     (case current of
        Some c \<Rightarrow>
          if c \<in> set locked_review then c
          else if amount_needs_review amount currency rules then RV_PENDING else RV_AUTO_PASSED
      | None \<Rightarrow> if amount_needs_review amount currency rules then RV_PENDING else RV_AUTO_PASSED)"

datatype ship_block = Block_pending | Block_rejected | Block_unknown

definition review_blocks_ship :: "string \<Rightarrow> ship_block option" where
  "review_blocks_ship review_status =
     (if review_status = RV_PENDING then Some Block_pending
      else if review_status = RV_REJECTED then Some Block_rejected
      else if review_status \<notin> set shippable_review then Some Block_unknown
      else None)"

section \<open>Exceptions of an order\<close>

abbreviation EX_SKU_UNMATCHED :: string where "EX_SKU_UNMATCHED \<equiv> ''SKU_UNMATCHED''"
abbreviation EX_ADDRESS_INVALID :: string where "EX_ADDRESS_INVALID \<equiv> ''ADDRESS_INVALID''"
abbreviation EX_SHIP_DUE_SOON :: string where "EX_SHIP_DUE_SOON \<equiv> ''SHIP_DUE_SOON''"
abbreviation EX_SHIP_OVERDUE :: string where "EX_SHIP_OVERDUE \<equiv> ''SHIP_OVERDUE''"
abbreviation EX_REVIEW_PENDING :: string where "EX_REVIEW_PENDING \<equiv> ''REVIEW_PENDING''"

fun desk_text :: "pyobj \<Rightarrow> string" where
  "desk_text (OStr s) = strip s"
| "desk_text (OOther _) = []"

text \<open>A missing address and an empty mapping are both falsy in Python.\<close>

definition address_invalid :: "mapping option \<Rightarrow> bool" where
  "address_invalid ship_to =
     (case ship_to of
        None \<Rightarrow> True
      | Some m \<Rightarrow>
          if m = [] then True
          else let country = desk_text (obj_get m ''country'');
                   line1 = desk_text (obj_get m ''line1'');
                   city = desk_text (obj_get m ''city'')
               in country = [] \<or> (line1 = [] \<and> city = []))"

definition ship_deadline :: "datetime option \<Rightarrow> int \<Rightarrow> datetime option" where
  "ship_deadline paid_at sla_hours = map_option (\<lambda>p. dt_add p (hours sla_hours)) paid_at"

definition ship_window ::
  "string \<Rightarrow> datetime option \<Rightarrow> datetime \<Rightarrow> int \<Rightarrow> int \<Rightarrow> string option res" where
  "ship_window unified_status paid_at now sla_hours warn_hours =
     (if unified_status \<noteq> ''PAID'' then Inr None
      else case ship_deadline paid_at sla_hours of
        None \<Rightarrow> Inr None
      | Some deadline \<Rightarrow>
          bindr (dt_less_eq deadline now) (\<lambda>over.
          if over then Inr (Some EX_SHIP_OVERDUE)
          else bindr (dt_less_eq (dt_add deadline (- hours (max warn_hours 0))) now) (\<lambda>soon.
          if soon then Inr (Some EX_SHIP_DUE_SOON) else Inr None)))"

definition classify_exceptions ::
  "string \<Rightarrow> string \<Rightarrow> mapping option \<Rightarrow> bool \<Rightarrow> datetime option \<Rightarrow> datetime \<Rightarrow> int \<Rightarrow> int
     \<Rightarrow> string list res" where
  "classify_exceptions unified_status review_status ship_to sku_unmatched paid_at now sla_hours
     warn_hours =
     bindr (ship_window unified_status paid_at now sla_hours warn_hours) (\<lambda>window.
     Inr ((if sku_unmatched then [EX_SKU_UNMATCHED] else []) @
          (if address_invalid ship_to then [EX_ADDRESS_INVALID] else []) @
          (case window of None \<Rightarrow> [] | Some w \<Rightarrow> [w]) @
          (if review_status = RV_PENDING then [EX_REVIEW_PENDING] else [])))"

section \<open>Returns\<close>

abbreviation RT_REQUESTED :: string where "RT_REQUESTED \<equiv> ''REQUESTED''"
abbreviation RT_APPROVED :: string where "RT_APPROVED \<equiv> ''APPROVED''"
abbreviation RT_REJECTED :: string where "RT_REJECTED \<equiv> ''REJECTED''"
abbreviation RT_REFUNDED :: string where "RT_REFUNDED \<equiv> ''REFUNDED''"

definition return_table :: "((string \<times> string) \<times> string) list" where
  "return_table =
     [((RT_REQUESTED, ''approve''), RT_APPROVED),
      ((RT_REQUESTED, ''reject''), RT_REJECTED),
      ((RT_APPROVED, ''refund''), RT_REFUNDED)]"

definition decide_return :: "string \<Rightarrow> string \<Rightarrow> string option" where
  "decide_return current action = map_of return_table (current, action)"

definition restock_after_refund :: "bool \<Rightarrow> string" where
  "restock_after_refund restock_flag = (if restock_flag then ''DEFERRED'' else ''NONE'')"

section \<open>Lemmas\<close>

lemma ship_window_paid:
  assumes "is_naive p = is_naive now"
  shows "ship_window ''PAID'' (Some p) now sla warn =
    Inr (let due = micros p + hours sla in
         if due \<le> micros now then Some EX_SHIP_OVERDUE
         else if due - hours (max warn 0) \<le> micros now then Some EX_SHIP_DUE_SOON else None)"
  using assms by (simp add: ship_window_def ship_deadline_def dt_less_eq_def dt_comparable_def Let_def)

definition return_rank :: "string \<Rightarrow> nat" where
  "return_rank s = (if s = RT_REQUESTED then 0 else if s = RT_APPROVED then 1 else 2)"

lemma decide_return_Some:
  "decide_return s a = Some t \<longleftrightarrow>
     (s = RT_REQUESTED \<and> a = ''approve'' \<and> t = RT_APPROVED) \<or>
     (s = RT_REQUESTED \<and> a = ''reject'' \<and> t = RT_REJECTED) \<or>
     (s = RT_APPROVED \<and> a = ''refund'' \<and> t = RT_REFUNDED)"
  by (auto simp: decide_return_def return_table_def split: if_splits)

interpretation return_flow: ranked_machine decide_return return_rank 2
  by unfold_locales (auto simp: decide_return_Some return_rank_def)

lemma run_return_refunded:
  assumes "run_machine decide_return RT_REQUESTED as = Some RT_REFUNDED"
  shows "as = [''approve'', ''refund'']"
proof -
  from assms obtain a bs u where as: "as = a # bs" "decide_return RT_REQUESTED a = Some u"
      "run_machine decide_return u bs = Some RT_REFUNDED"
    by (cases as) (auto split: option.splits)
  have dead: "decide_return RT_REJECTED b = None" "decide_return RT_REFUNDED b = None" for b
    by (auto simp: decide_return_def return_table_def)
  from as(2) consider "a = ''approve''" "u = RT_APPROVED" | "u = RT_REJECTED"
    by (auto simp: decide_return_Some)
  then show ?thesis
  proof cases
    case 1
    with as(3) obtain b cs v where bs: "bs = b # cs" "decide_return RT_APPROVED b = Some v"
        "run_machine decide_return v cs = Some RT_REFUNDED"
      by (cases bs) (auto split: option.splits)
    then have "b = ''refund''" "v = RT_REFUNDED" by (auto simp: decide_return_Some)
    moreover from this bs(3) have "cs = []" by (cases cs) (auto simp: dead)
    ultimately show ?thesis using 1 as(1) bs(1) by simp
  next
    case 2
    with as(3) show ?thesis by (cases bs) (auto simp: dead)
  qed
qed

section \<open>Properties\<close>

text \<open>a human review verdict is never overwritten by a later synchronisation; otherwise the
  order waits for review exactly when an enabled rule of the same currency is exceeded, and only an
  approved or automatically passed order may ship.\<close>

theorem review_gate:
  "(current = Some RV_APPROVED \<or> current = Some RV_REJECTED \<longrightarrow>
      Some (next_review_status current amount currency rules) = current) \<and>
   (current \<noteq> Some RV_APPROVED \<and> current \<noteq> Some RV_REJECTED \<longrightarrow>
      (review_blocks_ship (next_review_status current amount currency rules) = Some Block_pending
         \<longleftrightarrow> (\<exists>r\<in>set rules. rule_enabled r \<and> upper (rule_currency r) = upper (strip currency)
               \<and> amount_gt r < amount)) \<and>
      (review_blocks_ship (next_review_status current amount currency rules) = None
         \<longleftrightarrow> \<not> amount_needs_review amount currency rules)) \<and>
   (review_blocks_ship s = None \<longleftrightarrow> s = RV_AUTO_PASSED \<or> s = RV_APPROVED)"
  by (auto simp: next_review_status_def locked_review_def review_blocks_ship_def
      shippable_review_def amount_needs_review_def list_ex_iff Let_def split: option.splits)

theorem review_gate_witness:
  "Some (next_review_status (Some RV_REJECTED) 100 ''USD'' []) = Some RV_REJECTED"
  using review_gate [of "Some RV_REJECTED" 100 "''USD''" "[]" RV_PENDING] by simp

text \<open>the shipping window of a paid order moves one way as the clock advances: nothing, then due
  soon, then overdue; it is overdue exactly from the deadline on, and any other status is never
  timed.\<close>

theorem ship_window_monotone:
  assumes "is_naive p = is_naive now" and "is_naive now = is_naive later"
    and "micros now \<le> micros later"
  shows "(ship_window st (Some p) now sla warn = Inr (Some EX_SHIP_OVERDUE)
            \<longleftrightarrow> st = ''PAID'' \<and> micros p + hours sla \<le> micros now) \<and>
    (ship_window st (Some p) now sla warn = Inr (Some EX_SHIP_OVERDUE) \<longrightarrow>
       ship_window st (Some p) later sla warn = Inr (Some EX_SHIP_OVERDUE)) \<and>
    (ship_window st (Some p) now sla warn = Inr (Some EX_SHIP_DUE_SOON) \<longrightarrow>
       ship_window st (Some p) later sla warn
         \<in> {Inr (Some EX_SHIP_DUE_SOON), Inr (Some EX_SHIP_OVERDUE)}) \<and>
    (st \<noteq> ''PAID'' \<longrightarrow> ship_window st (Some p) now sla warn = Inr None)"
proof (cases "st = ''PAID''")
  case True
  with assms show ?thesis by (simp add: ship_window_paid Let_def)
next
  case False
  then show ?thesis by (simp add: ship_window_def)
qed

theorem ship_window_monotone_witness:
  "ship_window ''PAID'' (Some (Aware 0)) (Aware (hours 48)) 48 4 = Inr (Some EX_SHIP_OVERDUE)"
  using ship_window_monotone [of "Aware 0" "Aware (hours 48)" "Aware (hours 50)" "''PAID''" 48 4]
  by (simp add: hours_def)

text \<open>a return is refunded only after it was approved, by exactly the actions approve and then
  refund; every history of a return has at most two actions.\<close>

theorem return_refund_path:
  assumes "run_machine decide_return RT_REQUESTED as = Some u"
  shows "length as \<le> 2 \<and> (u = RT_REFUNDED \<longleftrightarrow> as = [''approve'', ''refund''])"
proof -
  have "length as \<le> 2 - return_rank RT_REQUESTED" using assms by (rule return_flow.run_length)
  moreover have "as = [''approve'', ''refund''] \<Longrightarrow> u = RT_REFUNDED"
    using assms by (simp add: decide_return_def return_table_def)
  ultimately show ?thesis using assms run_return_refunded by auto
qed

theorem return_refund_path_witness:
  "RT_REFUNDED = ''REFUNDED'' \<and> length [''approve'', ''refund''] \<le> (2::nat)"
proof -
  have "run_machine decide_return RT_REQUESTED [''approve'', ''refund''] = Some RT_REFUNDED"
    by (simp add: decide_return_def return_table_def)
  from return_refund_path [OF this] show ?thesis by simp
qed

end
