(* ===== verification/OrderPrivacy.thy ===== *)
theory OrderPrivacy imports Prelude begin

text \<open>
  \<^verbatim>\<open>app/engines/order_privacy.py\<close>: what each role sees of a buyer.  The two dictionaries that
  \<open>mask_party\<close> returns have fixed keys and are the records \<open>buyer_view\<close> and \<open>ship_view\<close>; a field
  that may not be seen is \<open>None\<close>.  Text is ASCII, so \<open>str.isdigit\<close> of a character is \<open>is_digit\<close>.
\<close>

section \<open>Masking\<close>

definition full_roles :: "string list" where
  "full_roles = [''OWNER'', ''ADMIN'']"

definition ship_roles :: "string list" where
  "ship_roles = [''OPS_MANAGER'', ''OPS_STAFF'']"

definition region_roles :: "string list" where
  "region_roles = [''FINANCE'']"

definition contact_roles :: "string list" where
  "contact_roles = [''CS'']"

definition phone_last4 :: "string option \<Rightarrow> string option" where
  "phone_last4 phone =
     (let digits = filter is_digit (case phone of None \<Rightarrow> [] | Some p \<Rightarrow> p) in
      if length digits < 4 then None else Some (drop (length digits - 4) digits))"

definition mask_name_initial :: "string option \<Rightarrow> string option" where
  "mask_name_initial name =
     (case name of
        None \<Rightarrow> None
      | Some [] \<Rightarrow> None
      | Some (c # cs) \<Rightarrow> Some (c # replicate (max (length cs) 1) CHR ''*''))"

definition digit_positions :: "string \<Rightarrow> nat list" where
  "digit_positions phone = filter (\<lambda>i. is_digit (phone ! i)) [0..<length phone]"

definition hidden_positions :: "string \<Rightarrow> nat list" where
  "hidden_positions phone =
     (let at = digit_positions phone in take 4 (drop ((length at - 4) div 2) at))"

definition mask_phone_middle :: "string option \<Rightarrow> string option" where
  "mask_phone_middle phone =
     (case phone of
        None \<Rightarrow> None
      | Some p \<Rightarrow>
          if p = [] then None
          else if length (digit_positions p) < 7 then Some (replicate (length p) CHR ''*'')
          else Some (map (\<lambda>i. if i \<in> set (hidden_positions p) then CHR ''*'' else p ! i)
                       [0..<length p]))"

fun party_text :: "pyobj \<Rightarrow> string option" where
  "party_text (OStr s) = (let t = strip s in if t = [] then None else Some t)"
| "party_text (OOther _) = None"

record buyer_view =
  b_name :: "string option"
  b_phone :: "string option"
  b_country :: "string option"

record ship_view =
  s_name :: "string option"
  s_phone :: "string option"
  s_country :: "string option"
  s_state :: "string option"
  s_city :: "string option"
  s_line1 :: "string option"
  s_postal_code :: "string option"

definition mask_party ::
  "string \<Rightarrow> mapping option \<Rightarrow> mapping option \<Rightarrow> buyer_view \<times> ship_view" where
  "mask_party role_code buyer ship_to =
    (let source_buyer = (case buyer of None \<Rightarrow> [] | Some m \<Rightarrow> m);
         source_ship = (case ship_to of None \<Rightarrow> [] | Some m \<Rightarrow> m);
         name = party_text (obj_get source_buyer ''name'');
         phone = party_text (obj_or (obj_get source_buyer ''phone'') (obj_get source_ship ''phone''));
         country = party_text (obj_or (obj_get source_buyer ''country'') (obj_get source_ship ''country''));
         state = party_text (obj_get source_ship ''state'');
         city = party_text (obj_get source_ship ''city'');
         line1 = party_text (obj_get source_ship ''line1'');
         postal = party_text (obj_or (obj_get source_ship ''postal_code'') (obj_get source_ship ''postal''))
     in if role_code \<in> set full_roles then
          (\<lparr>b_name = name, b_phone = phone, b_country = country\<rparr>,
           \<lparr>s_name = name, s_phone = phone, s_country = country, s_state = state, s_city = city,
            s_line1 = line1, s_postal_code = postal\<rparr>)
        else if role_code \<in> set ship_roles then
          (let shown = mask_name_initial name in
          (\<lparr>b_name = shown, b_phone = phone, b_country = country\<rparr>,
           \<lparr>s_name = shown, s_phone = phone, s_country = country, s_state = state, s_city = city,
            s_line1 = line1, s_postal_code = postal\<rparr>))
        else if role_code \<in> set region_roles then
          (\<lparr>b_name = None, b_phone = None, b_country = country\<rparr>,
           \<lparr>s_name = None, s_phone = None, s_country = country, s_state = state, s_city = city,
            s_line1 = None, s_postal_code = None\<rparr>)
        else if role_code \<in> set contact_roles then
          (\<lparr>b_name = name, b_phone = mask_phone_middle phone, b_country = country\<rparr>,
           \<lparr>s_name = name, s_phone = mask_phone_middle phone, s_country = country, s_state = None,
            s_city = None, s_line1 = None, s_postal_code = None\<rparr>)
        else
          (\<lparr>b_name = None, b_phone = None, b_country = None\<rparr>,
           \<lparr>s_name = None, s_phone = None, s_country = None, s_state = None, s_city = None,
            s_line1 = None, s_postal_code = None\<rparr>))"

section \<open>Lemmas\<close>

lemma distinct_digit_positions: "distinct (digit_positions p)"
  by (simp add: digit_positions_def)

lemma set_digit_positions: "set (digit_positions p) = {i. i < length p \<and> is_digit (p ! i)}"
  by (auto simp: digit_positions_def)

lemma hidden_positions_subset: "set (hidden_positions p) \<subseteq> set (digit_positions p)"
  unfolding hidden_positions_def Let_def by (meson set_drop_subset set_take_subset subset_trans)

lemma length_hidden_positions: "7 \<le> length (digit_positions p) \<Longrightarrow> length (hidden_positions p) = 4"
  by (simp add: hidden_positions_def Let_def)

lemma distinct_hidden_positions: "distinct (hidden_positions p)"
  by (simp add: hidden_positions_def Let_def distinct_digit_positions)

lemma digit_positions_cong:
  assumes "length p = length q" and "\<And>i. i < length p \<Longrightarrow> is_digit (p ! i) = is_digit (q ! i)"
  shows "digit_positions p = digit_positions q"
  unfolding digit_positions_def assms(1) using assms by (intro filter_cong) auto

lemma party_text_None: "party_text (obj_get [] k) = None"
  by (simp add: obj_get_def)

section \<open>Properties\<close>

text \<open>the phone number customer service sees has its length, keeps every character outside the
  hidden positions, and hides exactly four digits; numbers that differ only in those four digits
  look the same, and a number with fewer than seven digits is hidden completely.\<close>

theorem mask_phone_middle_hides:
  assumes "p \<noteq> []"
  shows "(\<exists>m. mask_phone_middle (Some p) = Some m \<and> length m = length p \<and>
      (if length (digit_positions p) < 7 then set m = {CHR ''*''}
       else card (set (hidden_positions p)) = 4 \<and>
         (\<forall>i<length p. m ! i = (if i \<in> set (hidden_positions p) then CHR ''*'' else p ! i)) \<and>
         (\<forall>i\<in>set (hidden_positions p). is_digit (p ! i)))) \<and>
    (\<forall>q. length q = length p \<and> (\<forall>i<length p. is_digit (p ! i) = is_digit (q ! i)) \<and>
        (\<forall>i<length p. i \<notin> set (hidden_positions p) \<longrightarrow> p ! i = q ! i) \<longrightarrow>
      mask_phone_middle (Some q) = mask_phone_middle (Some p))"
proof (intro conjI allI impI)
  show "\<exists>m. mask_phone_middle (Some p) = Some m \<and> length m = length p \<and>
      (if length (digit_positions p) < 7 then set m = {CHR ''*''}
       else card (set (hidden_positions p)) = 4 \<and>
         (\<forall>i<length p. m ! i = (if i \<in> set (hidden_positions p) then CHR ''*'' else p ! i)) \<and>
         (\<forall>i\<in>set (hidden_positions p). is_digit (p ! i)))"
    using assms hidden_positions_subset [of p]
    by (auto simp: mask_phone_middle_def set_digit_positions distinct_card
        distinct_hidden_positions length_hidden_positions)
next
  fix q
  assume q: "length q = length p \<and> (\<forall>i<length p. is_digit (p ! i) = is_digit (q ! i)) \<and>
      (\<forall>i<length p. i \<notin> set (hidden_positions p) \<longrightarrow> p ! i = q ! i)"
  then have "digit_positions q = digit_positions p"
    by (intro digit_positions_cong) auto
  then have "hidden_positions q = hidden_positions p" by (simp add: hidden_positions_def)
  with \<open>digit_positions q = digit_positions p\<close> q assms
  show "mask_phone_middle (Some q) = mask_phone_middle (Some p)"
    by (auto simp: mask_phone_middle_def)
qed

theorem mask_phone_middle_hides_witness:
  "mask_phone_middle (Some ''+6591239999'') = mask_phone_middle (Some ''+6590000999'')"
proof -
  have p: "''+6591239999'' \<noteq> []" by simp
  let ?p = "''+6591239999''" and ?q = "''+6590000999''"
  have h: "hidden_positions ?p = [4, 5, 6, 7]" by code_simp
  have "is_digit (?p ! i) = is_digit (?q ! i) \<and>
      (i \<notin> set (hidden_positions ?p) \<longrightarrow> ?p ! i = ?q ! i)" if "i < 11" for i
  proof -
    from that have "i \<in> set [0, 1, 2, 3, 4, 5, 6, 7, 8, 9, 10]" by (simp, presburger)
    then show ?thesis unfolding h by (auto simp: is_digit_def)
  qed
  moreover have "length ?p = 11" "length ?q = 11" by simp_all
  ultimately have "length ?q = length ?p \<and> (\<forall>i<length ?p. is_digit (?p ! i) = is_digit (?q ! i)) \<and>
      (\<forall>i<length ?p. i \<notin> set (hidden_positions ?p) \<longrightarrow> ?p ! i = ?q ! i)"
    by metis
  with mask_phone_middle_hides [OF p] show ?thesis by metis
qed

text \<open>what a role may not see does not influence what it is shown.  A finance user's view
  depends on country, state and city only; customer service gets no address line, city, state or
  postal code; a role outside the four groups gets nothing at all.\<close>

theorem mask_party_noninterference:
  assumes "\<And>k. k \<in> {''country'', ''state'', ''city''} \<Longrightarrow>
      obj_get (case ship_to of None \<Rightarrow> [] | Some m \<Rightarrow> m) k = obj_get (case ship_to' of None \<Rightarrow> [] | Some m \<Rightarrow> m) k"
    and "obj_get (case buyer of None \<Rightarrow> [] | Some m \<Rightarrow> m) ''country''
       = obj_get (case buyer' of None \<Rightarrow> [] | Some m \<Rightarrow> m) ''country''"
  shows "mask_party ''FINANCE'' buyer ship_to = mask_party ''FINANCE'' buyer' ship_to' \<and>
    (let v = snd (mask_party ''CS'' buyer ship_to) in
       s_state v = None \<and> s_city v = None \<and> s_line1 v = None \<and> s_postal_code v = None) \<and>
    (role \<notin> set (full_roles @ ship_roles @ region_roles @ contact_roles) \<longrightarrow>
       mask_party role buyer ship_to = mask_party role None None)"
  using assms
  by (simp add: mask_party_def Let_def full_roles_def ship_roles_def region_roles_def
      contact_roles_def)

theorem mask_party_noninterference_witness:
  "mask_party ''FINANCE'' (Some [(''name'', OStr ''Ann'')]) (Some [(''city'', OStr ''X'')])
     = mask_party ''FINANCE'' None (Some [(''city'', OStr ''X''), (''line1'', OStr ''Y'')])"
proof -
  have "obj_get [(''city'', OStr ''X'')] k = obj_get [(''city'', OStr ''X''), (''line1'', OStr ''Y'')] k"
    if "k \<in> {''country'', ''state'', ''city''}" for k
    using that by (auto simp: obj_get_def)
  then show ?thesis
    using mask_party_noninterference [of "Some [(''city'', OStr ''X'')]"
        "Some [(''city'', OStr ''X''), (''line1'', OStr ''Y'')]" "Some [(''name'', OStr ''Ann'')]" None]
    by (simp add: obj_get_def)
qed

end
