(* ===== verification/Permissions.thy ===== *)
theory Permissions imports Prelude begin

text \<open>
  \<^verbatim>\<open>app/core/permissions.py\<close>: the eight built-in roles, the permission points, the role matrix and
  the lookups that the API layer enforces.  Roles and permission points are string enums; the model
  keeps them as datatypes with their stored text in \<open>role_value\<close> and \<open>perm_value\<close>.
\<close>

section \<open>Roles and permission points\<close>

datatype role =
    R_OWNER | R_ADMIN | R_OPS_MANAGER | R_OPS_STAFF
  | R_PURCHASER | R_FINANCE | R_CS | R_VIEWER

definition all_roles :: "role list" where
  "all_roles = [R_OWNER, R_ADMIN, R_OPS_MANAGER, R_OPS_STAFF, R_PURCHASER, R_FINANCE, R_CS, R_VIEWER]"

fun role_value :: "role \<Rightarrow> string" where
  "role_value R_OWNER = ''OWNER''"
| "role_value R_ADMIN = ''ADMIN''"
| "role_value R_OPS_MANAGER = ''OPS_MANAGER''"
| "role_value R_OPS_STAFF = ''OPS_STAFF''"
| "role_value R_PURCHASER = ''PURCHASER''"
| "role_value R_FINANCE = ''FINANCE''"
| "role_value R_CS = ''CS''"
| "role_value R_VIEWER = ''VIEWER''"

datatype perm =
    P_TENANT_READ | P_TENANT_WRITE | P_MEMBER_READ | P_MEMBER_WRITE | P_SHOP_READ |
    P_SHOP_GRANT | P_PRODUCT_READ | P_PRODUCT_WRITE | P_ORDER_READ | P_ORDER_SHIP |
    P_ORDER_WRITE | P_ORDER_RULE | P_INVENTORY_READ | P_INVENTORY_WRITE | P_PURCHASE_READ |
    P_PURCHASE_WRITE | P_COST_READ | P_ADS_READ | P_COMPLIANCE_READ | P_COMPLIANCE_WRITE |
    P_LANDED_COST_READ | P_LANDED_COST_CALC | P_FINANCE_READ | P_FINANCE_WRITE |
    P_REPORT_EXPORT | P_DASHBOARD_READ | P_CS_READ | P_CS_WRITE | P_AUDIT_READ | P_SYSTEM_READ |
    P_SYSTEM_WRITE

definition all_perms :: "perm list" where
  "all_perms = [
     P_TENANT_READ, P_TENANT_WRITE, P_MEMBER_READ, P_MEMBER_WRITE, P_SHOP_READ, P_SHOP_GRANT,
     P_PRODUCT_READ, P_PRODUCT_WRITE, P_ORDER_READ, P_ORDER_SHIP, P_ORDER_WRITE, P_ORDER_RULE,
     P_INVENTORY_READ, P_INVENTORY_WRITE, P_PURCHASE_READ, P_PURCHASE_WRITE, P_COST_READ,
     P_ADS_READ, P_COMPLIANCE_READ, P_COMPLIANCE_WRITE, P_LANDED_COST_READ, P_LANDED_COST_CALC,
     P_FINANCE_READ, P_FINANCE_WRITE, P_REPORT_EXPORT, P_DASHBOARD_READ, P_CS_READ, P_CS_WRITE,
     P_AUDIT_READ, P_SYSTEM_READ, P_SYSTEM_WRITE]"

fun perm_value :: "perm \<Rightarrow> string" where
  "perm_value P_TENANT_READ = ''tenant:read''"
| "perm_value P_TENANT_WRITE = ''tenant:write''"
| "perm_value P_MEMBER_READ = ''member:read''"
| "perm_value P_MEMBER_WRITE = ''member:write''"
| "perm_value P_SHOP_READ = ''shop:read''"
| "perm_value P_SHOP_GRANT = ''shop:grant''"
| "perm_value P_PRODUCT_READ = ''product:read''"
| "perm_value P_PRODUCT_WRITE = ''product:write''"
| "perm_value P_ORDER_READ = ''order:read''"
| "perm_value P_ORDER_SHIP = ''order:ship''"
| "perm_value P_ORDER_WRITE = ''order:write''"
| "perm_value P_ORDER_RULE = ''order:rule''"
| "perm_value P_INVENTORY_READ = ''inventory:read''"
| "perm_value P_INVENTORY_WRITE = ''inventory:write''"
| "perm_value P_PURCHASE_READ = ''purchase:read''"
| "perm_value P_PURCHASE_WRITE = ''purchase:write''"
| "perm_value P_COST_READ = ''cost:read''"
| "perm_value P_ADS_READ = ''ads:read''"
| "perm_value P_COMPLIANCE_READ = ''compliance:read''"
| "perm_value P_COMPLIANCE_WRITE = ''compliance:write''"
| "perm_value P_LANDED_COST_READ = ''landed_cost:read''"
| "perm_value P_LANDED_COST_CALC = ''landed_cost:calc''"
| "perm_value P_FINANCE_READ = ''finance:read''"
| "perm_value P_FINANCE_WRITE = ''finance:write''"
| "perm_value P_REPORT_EXPORT = ''report:export''"
| "perm_value P_DASHBOARD_READ = ''dashboard:read''"
| "perm_value P_CS_READ = ''cs:read''"
| "perm_value P_CS_WRITE = ''cs:write''"
| "perm_value P_AUDIT_READ = ''audit:read''"
| "perm_value P_SYSTEM_READ = ''system:read''"
| "perm_value P_SYSTEM_WRITE = ''system:write''"

fun role_permissions :: "role \<Rightarrow> perm list" where
  "role_permissions R_OWNER = all_perms"
| "role_permissions R_ADMIN = all_perms"
| "role_permissions R_OPS_MANAGER = [
     P_SHOP_READ, P_SHOP_GRANT, P_PRODUCT_READ, P_PRODUCT_WRITE, P_ORDER_READ, P_ORDER_SHIP,
     P_ORDER_WRITE, P_ORDER_RULE, P_INVENTORY_READ, P_INVENTORY_WRITE, P_PURCHASE_READ,
     P_COST_READ, P_ADS_READ, P_COMPLIANCE_READ, P_COMPLIANCE_WRITE, P_LANDED_COST_READ,
     P_LANDED_COST_CALC, P_FINANCE_READ, P_REPORT_EXPORT, P_DASHBOARD_READ, P_CS_READ, P_CS_WRITE]"
| "role_permissions R_OPS_STAFF = [
     P_PRODUCT_READ, P_PRODUCT_WRITE, P_ORDER_READ, P_ORDER_SHIP, P_ORDER_WRITE,
     P_INVENTORY_READ, P_INVENTORY_WRITE, P_ADS_READ, P_COMPLIANCE_READ, P_COMPLIANCE_WRITE,
     P_LANDED_COST_READ, P_LANDED_COST_CALC, P_DASHBOARD_READ, P_CS_READ, P_CS_WRITE]"
| "role_permissions R_PURCHASER = [
     P_PRODUCT_READ, P_INVENTORY_READ, P_INVENTORY_WRITE, P_PURCHASE_READ, P_PURCHASE_WRITE,
     P_COST_READ, P_COMPLIANCE_READ, P_LANDED_COST_READ, P_LANDED_COST_CALC, P_DASHBOARD_READ]"
| "role_permissions R_FINANCE = [
     P_PRODUCT_READ, P_ORDER_READ, P_INVENTORY_READ, P_PURCHASE_READ, P_COST_READ, P_ADS_READ,
     P_LANDED_COST_READ, P_FINANCE_READ, P_FINANCE_WRITE, P_REPORT_EXPORT, P_DASHBOARD_READ]"
| "role_permissions R_CS = [
     P_PRODUCT_READ, P_ORDER_READ, P_ORDER_SHIP, P_ORDER_WRITE, P_CS_READ, P_CS_WRITE]"
| "role_permissions R_VIEWER = [
     P_SHOP_READ, P_PRODUCT_READ, P_ORDER_READ, P_INVENTORY_READ, P_ADS_READ, P_COMPLIANCE_READ,
     P_FINANCE_READ, P_DASHBOARD_READ, P_CS_READ]"

definition cost_visible_roles :: "role list" where
  "cost_visible_roles = [R_OWNER, R_ADMIN, R_OPS_MANAGER, R_PURCHASER, R_FINANCE]"

section \<open>Lookups\<close>

text \<open>\<open>RoleCode(role_code)\<close>: the member with that text; no member raises \<open>ValueError\<close>.\<close>

definition role_of :: "string \<Rightarrow> role option" where
  "role_of code = find (\<lambda>r. role_value r = code) all_roles"

definition permissions_for_role :: "string \<Rightarrow> perm list" where
  "permissions_for_role code = (case role_of code of None \<Rightarrow> [] | Some r \<Rightarrow> role_permissions r)"

definition permission_codes_for_role :: "string \<Rightarrow> string list" where
  "permission_codes_for_role code = sort (map perm_value (permissions_for_role code))"

definition role_has_permission :: "string \<Rightarrow> string \<Rightarrow> bool" where
  "role_has_permission code permission \<longleftrightarrow>
     list_ex (\<lambda>p. perm_value p = permission) (permissions_for_role code)"

definition role_can_view_cost :: "string \<Rightarrow> bool" where
  "role_can_view_cost code =
     (case role_of code of None \<Rightarrow> False | Some r \<Rightarrow> r \<in> set cost_visible_roles)"

definition system_role_codes :: "string list" where
  "system_role_codes = map role_value all_roles"

section \<open>Lemmas\<close>

lemma role_of_value [simp]: "role_of (role_value r) = Some r"
  by (cases r) (simp_all add: role_of_def all_roles_def)

lemma role_of_Some: "role_of c = Some r \<longleftrightarrow> c = role_value r"
proof
  assume "role_of c = Some r"
  then show "c = role_value r" by (auto simp: role_of_def find_Some_iff)
qed simp

lemma perm_value_inj: "perm_value p = perm_value q \<longleftrightarrow> p = q"
proof
  have "distinct (map perm_value all_perms)" by (simp add: all_perms_def)
  moreover have "p \<in> set all_perms" "q \<in> set all_perms"
    by (cases p; simp add: all_perms_def) (cases q; simp add: all_perms_def)
  moreover assume "perm_value p = perm_value q"
  ultimately show "p = q" by (auto simp: distinct_map inj_on_def)
qed simp

lemma role_has_permission_value:
  "role_has_permission code (perm_value p) \<longleftrightarrow> p \<in> set (permissions_for_role code)"
  by (auto simp: role_has_permission_def list_ex_iff perm_value_inj)

lemma permissions_for_role_value [simp]:
  "permissions_for_role (role_value r) = role_permissions r"
  by (simp add: permissions_for_role_def)

lemma permissions_for_role_cases:
  "permissions_for_role c = [] \<or> (\<exists>r. c = role_value r \<and> permissions_for_role c = role_permissions r)"
  by (auto simp: permissions_for_role_def role_of_Some split: option.splits)

text \<open>The read permission that goes with a permission to change or use something.\<close>

fun read_side :: "perm \<Rightarrow> perm" where
  "read_side P_TENANT_WRITE = P_TENANT_READ"
| "read_side P_MEMBER_WRITE = P_MEMBER_READ"
| "read_side P_SHOP_GRANT = P_SHOP_READ"
| "read_side P_PRODUCT_WRITE = P_PRODUCT_READ"
| "read_side P_ORDER_SHIP = P_ORDER_READ"
| "read_side P_ORDER_WRITE = P_ORDER_READ"
| "read_side P_ORDER_RULE = P_ORDER_READ"
| "read_side P_INVENTORY_WRITE = P_INVENTORY_READ"
| "read_side P_PURCHASE_WRITE = P_PURCHASE_READ"
| "read_side P_COMPLIANCE_WRITE = P_COMPLIANCE_READ"
| "read_side P_LANDED_COST_CALC = P_LANDED_COST_READ"
| "read_side P_FINANCE_WRITE = P_FINANCE_READ"
| "read_side P_REPORT_EXPORT = P_FINANCE_READ"
| "read_side P_CS_WRITE = P_CS_READ"
| "read_side P_SYSTEM_WRITE = P_SYSTEM_READ"
| "read_side p = p"

lemma read_side_closed: "p \<in> set (role_permissions r) \<Longrightarrow> read_side p \<in> set (role_permissions r)"
proof -
  have "list_all (\<lambda>p. List.member (role_permissions r) (read_side p)) (role_permissions r)"
    by (cases r) (simp_all add: all_perms_def)
  then show "p \<in> set (role_permissions r) \<Longrightarrow> read_side p \<in> set (role_permissions r)"
    by (auto simp: list_all_iff)
qed

section \<open>Properties\<close>

text \<open>the two mechanisms that hide purchase cost agree: a role sees cost fields exactly when it
  holds the permission point \<open>cost:read\<close>; operations staff, customer service, viewers and unknown
  role codes never do.\<close>

theorem cost_visibility_agrees:
  "(role_can_view_cost code \<longleftrightarrow> role_has_permission code ''cost:read'') \<and>
   (role_can_view_cost code \<longrightarrow>
      code \<in> {''OWNER'', ''ADMIN'', ''OPS_MANAGER'', ''PURCHASER'', ''FINANCE''}) \<and>
   (code \<notin> set system_role_codes \<longrightarrow> permissions_for_role code = [])"
proof (cases "role_of code")
  case None
  then have "permissions_for_role code = []" by (simp add: permissions_for_role_def)
  with None show ?thesis by (simp add: role_can_view_cost_def role_has_permission_def)
next
  case (Some r)
  then have c: "code = role_value r" by (simp add: role_of_Some)
  have view: "role_can_view_cost code \<longleftrightarrow> r \<in> set cost_visible_roles"
    by (simp add: role_can_view_cost_def Some)
  have "role_has_permission code ''cost:read'' \<longleftrightarrow> P_COST_READ \<in> set (role_permissions r)"
    using role_has_permission_value [of code P_COST_READ] by (simp add: c)
  moreover have "code \<in> set system_role_codes"
    by (cases r) (simp_all add: c system_role_codes_def all_roles_def)
  ultimately show ?thesis
    unfolding view
    by (cases r) (simp_all add: c cost_visible_roles_def all_perms_def)
qed

theorem cost_visibility_agrees_witness:
  "\<not> role_can_view_cost ''OPS_STAFF'' \<and> permissions_for_role ''root'' = []"
proof -
  have "\<not> role_can_view_cost ''OPS_STAFF''"
    using cost_visibility_agrees [THEN conjunct2, THEN conjunct1, of "''OPS_STAFF''"] by auto
  moreover have "permissions_for_role ''root'' = []"
    using cost_visibility_agrees [THEN conjunct2, THEN conjunct2, of "''root''"]
    by (simp add: system_role_codes_def all_roles_def)
  ultimately show ?thesis ..
qed

text \<open>in the role matrix, every permission to change, ship, grant, calculate or export comes with
  the permission to read the same module, and a viewer holds read permissions only.\<close>

theorem write_implies_read:
  "(role_has_permission code (perm_value p) \<longrightarrow> role_has_permission code (perm_value (read_side p))) \<and>
   (role_has_permission ''VIEWER'' (perm_value p) \<longrightarrow> read_side p = p)"
proof -
  have "p \<in> set (permissions_for_role code) \<Longrightarrow> read_side p \<in> set (permissions_for_role code)"
    using permissions_for_role_cases [of code] read_side_closed by force
  moreover have "permissions_for_role ''VIEWER'' = role_permissions R_VIEWER"
    using permissions_for_role_value [of R_VIEWER] by simp
  ultimately show ?thesis by (auto simp: role_has_permission_value)
qed

theorem write_implies_read_witness:
  "role_has_permission ''CS'' ''order:ship'' \<and> role_has_permission ''CS'' ''order:read''"
proof -
  have "P_ORDER_SHIP \<in> set (permissions_for_role ''CS'')"
    using permissions_for_role_value [of R_CS] by simp
  then have "role_has_permission ''CS'' (perm_value P_ORDER_SHIP)"
    by (simp only: role_has_permission_value)
  with write_implies_read [of "''CS''" P_ORDER_SHIP] show ?thesis by simp
qed

end
