(* ===== verification/Stock.thy ===== *)
theory Stock imports PyTime begin

text \<open>
  \<^verbatim>\<open>app/engines/inventory.py\<close>: sellable stock, allocation of an order over warehouses, the
  optimistic-lock operations on one stock level, transfer moves, stocktaking, replenishment and
  turnover.  The mutable \<open>StockLevel\<close> is passed in and returned updated; \<open>ValueError\<close>s are
  \<^const>\<open>Inl\<close> results.  Quantities are Python integers.
\<close>

section \<open>Quantities\<close>

datatype stock_outcome = SO_APPLIED | SO_INSUFFICIENT | SO_CONFLICT

record stock_level =
  available :: int
  occupied :: int
  version :: int

record bin_view =
  bin_warehouse :: int
  bin_available :: int
  bin_occupied :: int
  bin_default :: bool
  bin_type :: string

record allocation =
  alloc_warehouse :: int
  alloc_quantity :: int

record replenishment =
  suggested_qty :: int
  order_on :: "date option"
  daily_sales :: dec

definition should_reserve_line :: "int option \<Rightarrow> int \<Rightarrow> bool" where
  "should_reserve_line sku_id quantity \<longleftrightarrow> sku_id \<noteq> None \<and> 0 < quantity"

definition sellable_qty :: "int \<Rightarrow> int \<Rightarrow> int \<Rightarrow> int" where
  "sellable_qty avail occ safe_stock = max (avail - occ - safe_stock) 0"

definition free_qty :: "int \<Rightarrow> int \<Rightarrow> int" where
  "free_qty avail occ = avail - occ"

definition platform_push_quantity :: "int \<Rightarrow> int \<Rightarrow> int res" where
  "platform_push_quantity on_hand_free platform_safety =
     (if on_hand_free < 0 \<or> platform_safety < 0 then Inl ValueError
      else Inr (max (on_hand_free - platform_safety) 0))"

section \<open>Allocation over warehouses\<close>

definition bin_free :: "bin_view \<Rightarrow> int" where
  "bin_free b = bin_available b - bin_occupied b"

definition bin_key :: "bin_view \<Rightarrow> int \<times> int \<times> int" where
  "bin_key b = (if bin_default b then 0 else 1, - bin_free b, bin_warehouse b)"

definition bin_skipped :: "bin_view \<Rightarrow> bool" where
  "bin_skipped b \<longleftrightarrow> (\<not> bin_default b \<and> bin_type b = ''PLATFORM'') \<or> bin_free b \<le> 0"

fun alloc_loop :: "bin_view list \<Rightarrow> int \<Rightarrow> allocation list \<times> int" where
  "alloc_loop [] left = ([], left)"
| "alloc_loop (b # bs) left =
     (if left = 0 then ([], left)
      else if \<not> bin_default b \<and> bin_type b = ''PLATFORM'' then alloc_loop bs left
      else if bin_free b \<le> 0 then alloc_loop bs left
      else let take_qty = min (bin_free b) left;
               (chosen, rest) = alloc_loop bs (left - take_qty)
           in (\<lparr>alloc_warehouse = bin_warehouse b, alloc_quantity = take_qty\<rparr> # chosen, rest))"

definition plan_allocations :: "bin_view list \<Rightarrow> int \<Rightarrow> (allocation list \<times> int) res" where
  "plan_allocations bins quantity =
     (if quantity < 0 then Inl ValueError else Inr (alloc_loop (sort_on bin_key bins) quantity))"

section \<open>Optimistic-lock operations\<close>

definition try_reserve :: "stock_level \<Rightarrow> int \<Rightarrow> int \<Rightarrow> (stock_outcome \<times> stock_level) res" where
  "try_reserve l quantity seen_version =
     (if quantity < 0 then Inl ValueError
      else if version l \<noteq> seen_version then Inr (SO_CONFLICT, l)
      else if free_qty (available l) (occupied l) < quantity then Inr (SO_INSUFFICIENT, l)
      else Inr (SO_APPLIED, l\<lparr>occupied := occupied l + quantity, version := version l + 1\<rparr>))"

definition try_release :: "stock_level \<Rightarrow> int \<Rightarrow> int \<Rightarrow> (stock_outcome \<times> stock_level) res" where
  "try_release l quantity seen_version =
     (if quantity < 0 then Inl ValueError
      else if version l \<noteq> seen_version then Inr (SO_CONFLICT, l)
      else if occupied l < quantity then Inr (SO_INSUFFICIENT, l)
      else Inr (SO_APPLIED, l\<lparr>occupied := occupied l - quantity, version := version l + 1\<rparr>))"

definition try_ship :: "stock_level \<Rightarrow> int \<Rightarrow> int \<Rightarrow> (stock_outcome \<times> stock_level) res" where
  "try_ship l quantity seen_version =
     (if quantity < 0 then Inl ValueError
      else if version l \<noteq> seen_version then Inr (SO_CONFLICT, l)
      else if occupied l < quantity \<or> available l < quantity then Inr (SO_INSUFFICIENT, l)
      else Inr (SO_APPLIED, l\<lparr>available := available l - quantity,
                             occupied := occupied l - quantity, version := version l + 1\<rparr>))"

definition try_outbound :: "stock_level \<Rightarrow> int \<Rightarrow> int \<Rightarrow> (stock_outcome \<times> stock_level) res" where
  "try_outbound l quantity seen_version =
     (if quantity < 0 then Inl ValueError
      else if version l \<noteq> seen_version then Inr (SO_CONFLICT, l)
      else if free_qty (available l) (occupied l) < quantity then Inr (SO_INSUFFICIENT, l)
      else Inr (SO_APPLIED, l\<lparr>available := available l - quantity, version := version l + 1\<rparr>))"

definition try_inbound :: "stock_level \<Rightarrow> int \<Rightarrow> int \<Rightarrow> (stock_outcome \<times> stock_level) res" where
  "try_inbound l quantity seen_version =
     (if quantity < 0 then Inl ValueError
      else if version l \<noteq> seen_version then Inr (SO_CONFLICT, l)
      else Inr (SO_APPLIED, l\<lparr>available := available l + quantity, version := version l + 1\<rparr>))"

text \<open>One attempt of \<open>simulate_parallel_reserves\<close> under the guard, and the attempts one after the
  other: the version is read inside the guard, so a conflict cannot happen and the retry loop ends
  in its first round.\<close>

fun reserve_attempts :: "nat \<Rightarrow> int \<Rightarrow> int \<times> stock_level \<Rightarrow> (int \<times> stock_level) res" where
  "reserve_attempts 0 quantity (successes, l) = Inr (successes, l)"
| "reserve_attempts (Suc n) quantity (successes, l) =
     bindr (try_reserve l quantity (version l)) (\<lambda>(outcome, l').
     reserve_attempts n quantity
       (if outcome = SO_APPLIED then successes + 1 else successes, l'))"

definition simulate_parallel_reserves :: "int \<Rightarrow> int \<Rightarrow> int \<Rightarrow> (int \<times> stock_level) res" where
  "simulate_parallel_reserves avail attempts quantity =
     reserve_attempts (nat attempts) quantity (0, \<lparr>available = avail, occupied = 0, version = 0\<rparr>)"

section \<open>Pushing to platforms\<close>

function chunks :: "nat \<Rightarrow> 'a list \<Rightarrow> 'a list list" where
  "chunks n xs = (if xs = [] \<or> n = 0 then [] else take n xs # chunks n (drop n xs))"
  by pat_completeness auto
termination by (relation "measure (\<lambda>(n, xs). length xs)") auto

declare chunks.simps [simp del]

definition chunk_updates :: "'a list \<Rightarrow> int \<Rightarrow> 'a list list res" where
  "chunk_updates items batch_limit =
     (if batch_limit < 1 then Inl ValueError else Inr (chunks (nat batch_limit) items))"

definition should_push_zero ::
  "datetime option \<Rightarrow> datetime \<Rightarrow> datetime \<Rightarrow> int \<Rightarrow> bool res" where
  "should_push_zero last_success_at anchor now lag_seconds =
     (if lag_seconds < 1 then Inl ValueError
      else let basis = (case last_success_at of None \<Rightarrow> anchor | Some t \<Rightarrow> t) in
        if is_naive basis \<or> is_naive now then Inl ValueError
        else bindr (dt_diff now basis) (\<lambda>d. Inr (of_int lag_seconds < total_seconds d)))"

section \<open>Replenishment\<close>

definition suggest_replenishment ::
  "int \<Rightarrow> int \<Rightarrow> int \<Rightarrow> int \<Rightarrow> int \<Rightarrow> int \<Rightarrow> int \<Rightarrow> date \<Rightarrow> replenishment res" where
  "suggest_replenishment sold window_days lead_time_days cover_days safety movable in_transit today =
     (if window_days < 1 then Inl ValueError
      else if min sold (min lead_time_days (min cover_days (min safety (min movable in_transit)))) < 0
      then Inl ValueError
      else
        bindr (ddiv (of_int sold) (of_int window_days)) (\<lambda>daily.
        let raw = dsub (dsub (dadd (dmul daily (of_int (lead_time_days + cover_days)))
                    (of_int safety)) (of_int movable)) (of_int in_transit);
            suggested = (if raw \<le> 0 then 0 else \<lceil>raw\<rceil>)
        in if daily = 0
           then Inr \<lparr>suggested_qty = suggested,
                     order_on = (if 0 < suggested then Some today else None), daily_sales = daily\<rparr>
           else
             bindr (ddiv (of_int movable) daily) (\<lambda>cover.
             if cover < of_int lead_time_days
             then Inr \<lparr>suggested_qty = suggested, order_on = Some today, daily_sales = daily\<rparr>
             else
               bindr (date_add today \<lfloor>dsub cover (of_int lead_time_days)\<rfloor>) (\<lambda>on.
               Inr \<lparr>suggested_qty = suggested, order_on = Some on, daily_sales = daily\<rparr>))))"

definition restock_bucket :: "bool \<Rightarrow> string" where
  "restock_bucket sellable = (if sellable then ''available'' else ''defective'')"

definition mark_posted :: "string \<Rightarrow> string" where
  "mark_posted status = (if status \<noteq> ''DEFERRED'' then status else ''POSTED'')"

section \<open>Transfers and stocktaking\<close>

record stock_move =
  available_delta :: int
  in_transit_delta :: int
  flow_type :: string
  bucket :: string

definition positive :: "int \<Rightarrow> unit res" where
  "positive quantity = (if quantity \<le> 0 then Inl ValueError else Inr ())"

definition ship_moves :: "int \<Rightarrow> (stock_move \<times> stock_move) res" where
  "ship_moves quantity = bindr (positive quantity) (\<lambda>_. Inr
     (\<lparr>available_delta = - quantity, in_transit_delta = 0,
       flow_type = ''TRANSFER_OUT'', bucket = ''available''\<rparr>,
      \<lparr>available_delta = 0, in_transit_delta = quantity,
       flow_type = ''TRANSFER_IN'', bucket = ''in_transit''\<rparr>))"

definition receive_move :: "int \<Rightarrow> stock_move res" where
  "receive_move quantity = bindr (positive quantity) (\<lambda>_. Inr
     \<lparr>available_delta = quantity, in_transit_delta = - quantity,
      flow_type = ''TRANSFER_IN'', bucket = ''available''\<rparr>)"

definition cancel_transit_moves :: "int \<Rightarrow> (stock_move \<times> stock_move) res" where
  "cancel_transit_moves quantity = bindr (positive quantity) (\<lambda>_. Inr
     (\<lparr>available_delta = 0, in_transit_delta = - quantity,
       flow_type = ''TRANSFER_IN'', bucket = ''in_transit''\<rparr>,
      \<lparr>available_delta = quantity, in_transit_delta = 0,
       flow_type = ''TRANSFER_OUT'', bucket = ''available''\<rparr>))"

definition apply_bin :: "int \<Rightarrow> int \<Rightarrow> int \<Rightarrow> stock_move \<Rightarrow> string \<times> int \<times> int \<times> int" where
  "apply_bin avail occ in_transit move =
     (let new_available = avail + available_delta move;
          new_transit = in_transit + in_transit_delta move
      in if new_available < 0 \<or> new_transit < 0 \<or> new_available < occ
         then (''insufficient'', avail, occ, in_transit)
         else (''applied'', new_available, occ, new_transit))"

definition taking_delta :: "int \<Rightarrow> int \<Rightarrow> int" where
  "taking_delta book_qty counted_qty = counted_qty - book_qty"

definition taking_fits :: "int \<Rightarrow> int \<Rightarrow> int \<Rightarrow> bool" where
  "taking_fits avail occ delta \<longleftrightarrow> (let n = avail + delta in 0 \<le> n \<and> occ \<le> n)"

definition turnover_days :: "int \<Rightarrow> int \<Rightarrow> int \<Rightarrow> dec option res" where
  "turnover_days on_hand sold window_days =
     (if sold \<le> 0 \<or> window_days \<le> 0 then Inr None
      else bindr (ddiv (of_int sold) (of_int window_days)) (\<lambda>daily.
           bindr (ddiv (of_int on_hand) daily) (\<lambda>days.
           bindr (quantize_to 2 days) (\<lambda>q. Inr (Some q)))))"

definition dead_stock_amount :: "int \<Rightarrow> int \<Rightarrow> dec option \<Rightarrow> dec option res" where
  "dead_stock_amount on_hand sold unit_cost =
     (if sold \<noteq> 0 \<or> on_hand \<le> 0 then Inr None
      else case unit_cost of
        None \<Rightarrow> Inr None
      | Some cost \<Rightarrow> bindr (quantize_to 6 (dmul (of_int on_hand) cost)) (\<lambda>q. Inr (Some q)))"

section \<open>The contract of an optimistic-lock operation\<close>

definition stock_inv :: "stock_level \<Rightarrow> bool" where
  "stock_inv l \<longleftrightarrow> 0 \<le> occupied l \<and> occupied l \<le> available l"

locale optimistic_op =
  fixes op :: "stock_level \<Rightarrow> int \<Rightarrow> int \<Rightarrow> (stock_outcome \<times> stock_level) res"
  assumes op_negative: "q < 0 \<Longrightarrow> op l q v = Inl ValueError"
    and op_stale: "0 \<le> q \<Longrightarrow> version l \<noteq> v \<Longrightarrow> op l q v = Inr (SO_CONFLICT, l)"
    and op_fresh: "op l q (version l) \<noteq> Inr (SO_CONFLICT, l')"
    and op_total: "0 \<le> q \<Longrightarrow> \<exists>r. op l q v = Inr r"
    and op_applied: "op l q v = Inr (SO_APPLIED, l') \<Longrightarrow> version l' = version l + 1"
    and op_refused: "op l q v = Inr (r, l') \<Longrightarrow> r \<noteq> SO_APPLIED \<Longrightarrow> l' = l"
    and op_inv: "stock_inv l \<Longrightarrow> op l q v = Inr (r, l') \<Longrightarrow> stock_inv l'"
begin

lemma applied_version: "op l q v = Inr (SO_APPLIED, l') \<Longrightarrow> v = version l \<and> 0 \<le> q"
  using op_stale [of q l v] op_negative [of q l v] by (cases "0 \<le> q"; cases "version l = v") auto

lemma conflict_iff: "0 \<le> q \<Longrightarrow> (\<exists>l'. op l q v = Inr (SO_CONFLICT, l')) \<longleftrightarrow> version l \<noteq> v"
  using op_stale [of q l v] op_fresh [of l q] by auto

lemma version_step:
  "op l q v = Inr (r, l') \<Longrightarrow> version l' = version l + (if r = SO_APPLIED then 1 else 0)"
  by (cases "r = SO_APPLIED") (auto dest: op_applied op_refused)

end

text \<open>Two writers that read the same version: the second one is told about the conflict.\<close>

locale optimistic_pair = first: optimistic_op op1 + second: optimistic_op op2
  for op1 :: "stock_level \<Rightarrow> int \<Rightarrow> int \<Rightarrow> (stock_outcome \<times> stock_level) res"
  and op2 :: "stock_level \<Rightarrow> int \<Rightarrow> int \<Rightarrow> (stock_outcome \<times> stock_level) res"
begin

lemma no_lost_update:
  assumes "op1 l q v = Inr (SO_APPLIED, l')" and "0 \<le> q'"
  shows "op2 l' q' v = Inr (SO_CONFLICT, l')"
proof -
  have "version l' \<noteq> v"
    using first.op_applied [OF assms(1)] first.applied_version [OF assms(1)] by simp
  with assms(2) show ?thesis by (rule second.op_stale)
qed

end

text \<open>The five operations as one indexed family, and a script of operations run in order.\<close>

datatype stock_cmd = Cmd_reserve | Cmd_release | Cmd_ship | Cmd_outbound | Cmd_inbound

fun stock_op :: "stock_cmd \<Rightarrow> stock_level \<Rightarrow> int \<Rightarrow> int \<Rightarrow> (stock_outcome \<times> stock_level) res" where
  "stock_op Cmd_reserve = try_reserve"
| "stock_op Cmd_release = try_release"
| "stock_op Cmd_ship = try_ship"
| "stock_op Cmd_outbound = try_outbound"
| "stock_op Cmd_inbound = try_inbound"

lemmas stock_op_defs = try_reserve_def try_release_def try_ship_def try_outbound_def try_inbound_def
  free_qty_def

interpretation stock: optimistic_op "stock_op c" for c
proof
  fix l l' :: stock_level and q v :: int and r
  show "q < 0 \<Longrightarrow> stock_op c l q v = Inl ValueError"
    by (cases c) (simp_all add: stock_op_defs)
  show "0 \<le> q \<Longrightarrow> version l \<noteq> v \<Longrightarrow> stock_op c l q v = Inr (SO_CONFLICT, l)"
    by (cases c) (simp_all add: stock_op_defs)
  show "stock_op c l q (version l) \<noteq> Inr (SO_CONFLICT, l')"
    by (cases c) (simp_all add: stock_op_defs)
  show "0 \<le> q \<Longrightarrow> \<exists>r. stock_op c l q v = Inr r"
    by (cases c) (simp_all add: stock_op_defs)
  show "stock_op c l q v = Inr (SO_APPLIED, l') \<Longrightarrow> version l' = version l + 1"
    by (cases c) (auto simp: stock_op_defs split: if_splits)
  show "stock_op c l q v = Inr (r, l') \<Longrightarrow> r \<noteq> SO_APPLIED \<Longrightarrow> l' = l"
    by (cases c) (auto simp: stock_op_defs split: if_splits)
  show "stock_inv l \<Longrightarrow> stock_op c l q v = Inr (r, l') \<Longrightarrow> stock_inv l'"
    by (cases c) (auto simp: stock_op_defs stock_inv_def split: if_splits)
qed

interpretation stock_pair: optimistic_pair "stock_op c" "stock_op d" for c d ..

fun run_stock :: "(stock_cmd \<times> int \<times> int) list \<Rightarrow> stock_level \<Rightarrow> (stock_outcome list \<times> stock_level) res"
where
  "run_stock [] l = Inr ([], l)"
| "run_stock ((c, q, v) # cs) l =
     bindr (stock_op c l q v) (\<lambda>(r, l'). bindr (run_stock cs l') (\<lambda>(rs, l''). Inr (r # rs, l'')))"

text \<open>What an applied operation does to the goods on hand and to the reserved quantity.\<close>

fun hand_delta :: "stock_cmd \<Rightarrow> int \<Rightarrow> int" where
  "hand_delta Cmd_ship q = - q"
| "hand_delta Cmd_outbound q = - q"
| "hand_delta Cmd_inbound q = q"
| "hand_delta _ q = 0"

fun occ_delta :: "stock_cmd \<Rightarrow> int \<Rightarrow> int" where
  "occ_delta Cmd_reserve q = q"
| "occ_delta Cmd_release q = - q"
| "occ_delta Cmd_ship q = - q"
| "occ_delta _ q = 0"

fun ledger :: "(stock_cmd \<Rightarrow> int \<Rightarrow> int) \<Rightarrow> (stock_cmd \<times> int \<times> int) list \<Rightarrow> stock_outcome list \<Rightarrow> int"
where
  "ledger d ((c, q, v) # cs) (r # rs) = (if r = SO_APPLIED then d c q else 0) + ledger d cs rs"
| "ledger d _ _ = 0"

lemma stock_op_delta:
  "stock_op c l q v = Inr (r, l') \<Longrightarrow>
     available l' = available l + (if r = SO_APPLIED then hand_delta c q else 0) \<and>
     occupied l' = occupied l + (if r = SO_APPLIED then occ_delta c q else 0)"
  by (cases c) (auto simp: stock_op_defs split: if_splits)

lemma run_stock_props:
  "run_stock cs l = Inr (rs, l') \<Longrightarrow>
     available l' = available l + ledger hand_delta cs rs \<and>
     occupied l' = occupied l + ledger occ_delta cs rs \<and>
     version l' = version l + int (count_list rs SO_APPLIED) \<and>
     (stock_inv l \<longrightarrow> stock_inv l')"
proof (induction cs arbitrary: l rs)
  case (Cons x cs)
  obtain c q v where x: "x = (c, q, v)" by (cases x)
  from Cons.prems x obtain r l1 rs1 where s: "stock_op c l q v = Inr (r, l1)"
      "run_stock cs l1 = Inr (rs1, l')" "rs = r # rs1"
    by (auto simp: res_simps)
  from Cons.IH [OF s(2)] stock_op_delta [OF s(1)] stock.version_step [OF s(1)]
    stock.op_inv [OF _ s(1)] s(3) x
  show ?case by auto
qed simp

text \<open>The versions that the applied commands had seen.\<close>

fun seen_applied :: "(stock_cmd \<times> int \<times> int) list \<Rightarrow> stock_outcome list \<Rightarrow> int list" where
  "seen_applied ((c, q, v) # cs) (r # rs) = (if r = SO_APPLIED then [v] else []) @ seen_applied cs rs"
| "seen_applied _ _ = []"

lemma run_stock_seen:
  "run_stock cs l = Inr (rs, l') \<Longrightarrow> length rs = length cs \<and>
     version l' = version l + int (length (seen_applied cs rs)) \<and>
     seen_applied cs rs = map (\<lambda>i. version l + int i) [0..<length (seen_applied cs rs)]"
proof (induction cs arbitrary: l rs)
  case (Cons x cs)
  obtain c q v where x: "x = (c, q, v)" by (cases x)
  from Cons.prems x obtain r l1 rs1 where s: "stock_op c l q v = Inr (r, l1)"
      "run_stock cs l1 = Inr (rs1, l')" "rs = r # rs1"
    by (auto simp: res_simps)
  note IH = Cons.IH [OF s(2)] and step = stock.version_step [OF s(1)]
  show ?case
  proof (cases "r = SO_APPLIED")
    case True
    with s(1) have v: "v = version l" using stock.applied_version by blast
    have "map (\<lambda>i. version l + int i) [0..<Suc n] = version l # map (\<lambda>i. version l + 1 + int i) [0..<n]" for n
      unfolding upt_conv_Cons [OF zero_less_Suc] map_Suc_upt [symmetric] by simp
    with IH step True v show ?thesis unfolding s(3) x by simp
  next
    case False
    with IH step show ?thesis unfolding s(3) x by simp
  qed
qed simp

section \<open>Allocation: lemmas\<close>

lemma sum_list_mset_eq: "mset xs = mset ys \<Longrightarrow> sum_list xs = sum_list (ys :: int list)"
  by (metis sum_mset_sum_list)

lemma sum_list_map_filter_mset:
  fixes f :: "'a \<Rightarrow> int"
  assumes "mset xs = mset ys"
  shows "sum_list (map f (filter P xs)) = sum_list (map f (filter P ys))"
proof -
  have "mset (map f (filter P xs)) = mset (map f (filter P ys))" using assms by simp
  then show ?thesis by (rule sum_list_mset_eq)
qed

lemma alloc_loop_props:
  assumes "0 \<le> left" and "alloc_loop bs left = (chosen, rest)"
  shows "sum_list (map alloc_quantity chosen) + rest = left \<and> 0 \<le> rest \<and>
    (\<forall>a\<in>set chosen. 0 < alloc_quantity a \<and>
       (\<exists>b\<in>set bs. \<not> bin_skipped b \<and> alloc_warehouse a = bin_warehouse b \<and>
          alloc_quantity a \<le> bin_free b)) \<and>
    (0 < rest \<longrightarrow> sum_list (map alloc_quantity chosen) =
       sum_list (map bin_free (filter (\<lambda>b. \<not> bin_skipped b) bs)))"
  using assms
proof (induction bs arbitrary: left chosen)
  case (Cons b bs)
  consider "left = 0" | "left \<noteq> 0" "bin_skipped b" | "left \<noteq> 0" "\<not> bin_skipped b" by blast
  then show ?case
  proof cases
    case 2
    then have "alloc_loop bs left = (chosen, rest)" using Cons.prems
      by (auto simp: bin_skipped_def split: if_splits)
    from Cons.IH [OF Cons.prems(1) this] 2(2) show ?thesis by auto
  next
    case 3
    let ?t = "min (bin_free b) left"
    from 3 Cons.prems obtain chosen' where c: "alloc_loop bs (left - ?t) = (chosen', rest)"
        "chosen = \<lparr>alloc_warehouse = bin_warehouse b, alloc_quantity = ?t\<rparr> # chosen'"
      by (auto simp: bin_skipped_def Let_def split: prod.splits)
    have t: "0 < ?t" using 3 Cons.prems(1) by (auto simp: bin_skipped_def)
    have "0 \<le> left - ?t" by simp
    from Cons.IH [OF this c(1)]
    have IH: "sum_list (map alloc_quantity chosen') + rest = left - ?t \<and> 0 \<le> rest \<and>
      (\<forall>a\<in>set chosen'. 0 < alloc_quantity a \<and>
         (\<exists>b\<in>set bs. \<not> bin_skipped b \<and> alloc_warehouse a = bin_warehouse b \<and>
            alloc_quantity a \<le> bin_free b)) \<and>
      (0 < rest \<longrightarrow> sum_list (map alloc_quantity chosen') =
         sum_list (map bin_free (filter (\<lambda>b. \<not> bin_skipped b) bs)))" .
    have "?t = bin_free b" if "0 < rest"
    proof (rule ccontr)
      assume "?t \<noteq> bin_free b"
      then have "left - ?t = 0" by simp
      then have "rest = 0" using c(1) by (cases bs) auto
      with that show False by simp
    qed
    with IH c(2) t 3(2) show ?thesis by auto
  qed (use Cons.prems in auto)
qed auto

section \<open>Slicing: lemmas\<close>

lemma concat_chunks: "0 < n \<Longrightarrow> concat (chunks n xs) = xs"
proof (induction n xs rule: chunks.induct)
  case (1 n xs)
  then show ?case by (cases "xs = []") (simp_all add: chunks.simps [of n xs] chunks.simps [of n "[]"])
qed

lemma chunks_sizes:
  "c \<in> set (chunks n xs) \<Longrightarrow> c \<noteq> [] \<and> length c \<le> n"
proof (induction n xs rule: chunks.induct)
  case (1 n xs)
  then show ?case by (auto simp: chunks.simps [of n xs] split: if_splits)
qed

lemma chunks_full: "c \<in> set (butlast (chunks n xs)) \<Longrightarrow> length c = n"
proof (induction n xs rule: chunks.induct)
  case (1 n xs)
  show ?case
  proof (cases "xs = [] \<or> n = 0 \<or> chunks n (drop n xs) = []")
    case True
    with 1(2) show ?thesis by (auto simp: chunks.simps [of n xs] split: if_splits)
  next
    case False
    then have "drop n xs \<noteq> []" by (metis chunks.simps)
    then have "length (take n xs) = n" by simp
    with False 1 show ?thesis by (auto simp: chunks.simps [of n xs])
  qed
qed

lemma alloc_loop_0 [simp]: "alloc_loop bs 0 = ([], 0)"
  by (cases bs) auto

lemma alloc_loop_append:
  "alloc_loop (xs @ ys) left =
     (let (c1, r1) = alloc_loop xs left; (c2, r2) = alloc_loop ys r1 in (c1 @ c2, r2))"
  by (induction xs arbitrary: left) (auto simp: Let_def split: prod.splits)

lemma plan_default_first:
  "sort_on bin_key bins =
     filter bin_default (sort_on bin_key bins) @ filter (\<lambda>b. \<not> bin_default b) (sort_on bin_key bins)"
  by (rule sorted_partition [where f = bin_key]) (auto simp: bin_key_def)

lemma reserve_attempts_value:
  assumes "0 < q" and "0 \<le> free_qty (available l) (occupied l)"
  shows "\<exists>l'. reserve_attempts n q (s, l) =
      Inr (s + min (int n) (free_qty (available l) (occupied l) div q), l') \<and>
      available l' = available l \<and>
      occupied l' = occupied l + q * min (int n) (free_qty (available l) (occupied l) div q)"
  using assms(2)
proof (induction n arbitrary: s l)
  case 0
  then show ?case using assms(1) by (simp add: pos_imp_zdiv_nonneg_iff min_def)
next
  case (Suc n)
  let ?f = "free_qty (available l) (occupied l)"
  show ?case
  proof (cases "?f < q")
    case True
    with Suc.prems have "?f div q = 0" by simp
    moreover from True Suc.prems assms(1)
    have "reserve_attempts (Suc n) q (s, l) = reserve_attempts n q (s, l)"
      by (simp add: try_reserve_def)
    ultimately show ?thesis using Suc.IH [of l s] Suc.prems by auto
  next
    case False
    let ?l = "l\<lparr>occupied := occupied l + q, version := version l + 1\<rparr>"
    have f: "free_qty (available ?l) (occupied ?l) = ?f - q" by (simp add: free_qty_def)
    have d: "(?f - q) div q = ?f div q - 1" using assms(1) div_add_self2 [of q "?f - q"] by simp
    from False assms(1)
    have "reserve_attempts (Suc n) q (s, l) = reserve_attempts n q (s + 1, ?l)"
      by (simp add: try_reserve_def)
    moreover have "0 \<le> free_qty (available ?l) (occupied ?l)" using False f by simp
    ultimately show ?thesis
      using Suc.IH [of ?l "s + 1"] unfolding f d
      by (auto simp: min_def algebra_simps split: if_splits)
  qed
qed

section \<open>Properties\<close>

text \<open>C14: any script of reserve, release, ship, outbound and inbound commands, each with the version its
  writer had seen, keeps 0 <= occupied <= available; the goods on hand and the occupied stock end as the start
  plus exactly what the applied commands say; and the applied commands had seen the version of the start, the
  next one, and so on without a gap or a repetition, so of two writers that saw the same version at most one
  is applied and no update is lost.\<close>

theorem stock_no_lost_update:
  assumes "run_stock cs l = Inr (rs, l')" and "stock_inv l"
  shows "stock_inv l' \<and> length rs = length cs \<and>
    available l' = available l + ledger hand_delta cs rs \<and>
    occupied l' = occupied l + ledger occ_delta cs rs \<and>
    seen_applied cs rs = map (\<lambda>i. version l + int i) [0..<length (seen_applied cs rs)] \<and>
    version l' = version l + int (length (seen_applied cs rs))"
  using run_stock_props [OF assms(1)] run_stock_seen [OF assms(1)] assms(2) by simp

theorem stock_no_lost_update_witness:
  "run_stock [(Cmd_reserve, 3, 0), (Cmd_reserve, 8, 0), (Cmd_ship, 3, 1)] \<lparr>available = 10, occupied = 0, version = 0\<rparr> =
     Inr ([SO_APPLIED, SO_CONFLICT, SO_APPLIED], \<lparr>available = 7, occupied = 0, version = 2\<rparr>) \<and>
   seen_applied [(Cmd_reserve, 3, 0), (Cmd_reserve, 8, 0), (Cmd_ship, 3, 1)] [SO_APPLIED, SO_CONFLICT, SO_APPLIED] = [0, 1] \<and>
   stock_inv \<lparr>available = 7, occupied = 0, version = 2\<rparr>"
proof -
  let ?l = "\<lparr>available = 10, occupied = 0, version = 0\<rparr>"
  have "run_stock [(Cmd_reserve, 3, 0), (Cmd_reserve, 8, 0), (Cmd_ship, 3, 1)] ?l =
      Inr ([SO_APPLIED, SO_CONFLICT, SO_APPLIED], \<lparr>available = 7, occupied = 0, version = 2\<rparr>)"
    by (simp add: stock_op_defs)
  moreover have "stock_inv ?l" by (simp add: stock_inv_def)
  ultimately show ?thesis using stock_no_lost_update by fastforce
qed

text \<open>an allocation plan accounts for the whole quantity; every share is positive and fits the
  free stock of a warehouse that may be used; something is left over only when every usable
  warehouse is taken completely; and the default warehouses are served before any other.\<close>

theorem plan_allocations_spec:
  assumes "plan_allocations bins quantity = Inr (chosen, rest)"
  shows "sum_list (map alloc_quantity chosen) + rest = quantity \<and> 0 \<le> rest \<and>
    (\<forall>a\<in>set chosen. 0 < alloc_quantity a \<and>
       (\<exists>b\<in>set bins. \<not> bin_skipped b \<and> alloc_warehouse a = bin_warehouse b \<and>
          alloc_quantity a \<le> bin_free b)) \<and>
    (0 < rest \<longrightarrow> sum_list (map alloc_quantity chosen) =
       sum_list (map bin_free (filter (\<lambda>b. \<not> bin_skipped b) bins))) \<and>
    (\<exists>c1 r1 c2. alloc_loop (filter bin_default (sort_on bin_key bins)) quantity = (c1, r1) \<and>
       alloc_loop (filter (\<lambda>b. \<not> bin_default b) (sort_on bin_key bins)) r1 = (c2, rest) \<and>
       chosen = c1 @ c2)"
proof -
  let ?s = "sort_on bin_key bins"
  from assms have q: "0 \<le> quantity" and loop: "alloc_loop ?s quantity = (chosen, rest)"
    by (auto simp: plan_allocations_def split: if_splits)
  have "sum_list (map bin_free (filter (\<lambda>b. \<not> bin_skipped b) ?s)) =
      sum_list (map bin_free (filter (\<lambda>b. \<not> bin_skipped b) bins))"
    by (rule sum_list_map_filter_mset) simp
  moreover have "\<exists>c1 r1 c2. alloc_loop (filter bin_default ?s) quantity = (c1, r1) \<and>
      alloc_loop (filter (\<lambda>b. \<not> bin_default b) ?s) r1 = (c2, rest) \<and> chosen = c1 @ c2"
    using loop alloc_loop_append [of "filter bin_default ?s" "filter (\<lambda>b. \<not> bin_default b) ?s" quantity]
    by (auto simp: plan_default_first [of bins, symmetric] Let_def split: prod.splits)
  ultimately show ?thesis using alloc_loop_props [OF q loop] by simp
qed

theorem plan_allocations_spec_witness:
  "\<exists>chosen. plan_allocations
       [\<lparr>bin_warehouse = 1, bin_available = 9, bin_occupied = 0, bin_default = False, bin_type = ''LOCAL''\<rparr>,
        \<lparr>bin_warehouse = 2, bin_available = 5, bin_occupied = 1, bin_default = True, bin_type = ''LOCAL''\<rparr>]
       6 = Inr (chosen, 0) \<and> sum_list (map alloc_quantity chosen) = 6"
proof -
  let ?bins = "[\<lparr>bin_warehouse = 1, bin_available = 9, bin_occupied = 0, bin_default = False, bin_type = ''LOCAL''\<rparr>,
        \<lparr>bin_warehouse = 2, bin_available = 5, bin_occupied = 1, bin_default = True, bin_type = ''LOCAL''\<rparr>]"
  let ?chosen = "[\<lparr>alloc_warehouse = 2, alloc_quantity = 4\<rparr>, \<lparr>alloc_warehouse = 1, alloc_quantity = 2\<rparr>]"
  have "plan_allocations ?bins 6 = Inr (?chosen, 0)"
    by (simp add: plan_allocations_def bin_key_def bin_free_def)
  with plan_allocations_spec [OF this] show ?thesis by (intro exI [of _ ?chosen]) simp
qed

text \<open>updates are sliced without loss, duplication or reordering; no slice is empty or exceeds
  the platform's batch limit, and all but the last are full.\<close>

theorem chunk_updates_spec:
  assumes "chunk_updates items batch_limit = Inr cs"
  shows "concat cs = items \<and> (\<forall>c\<in>set cs. c \<noteq> [] \<and> int (length c) \<le> batch_limit) \<and>
    (\<forall>c\<in>set (butlast cs). int (length c) = batch_limit)"
proof -
  from assms have "1 \<le> batch_limit" and cs: "cs = chunks (nat batch_limit) items"
    by (auto simp: chunk_updates_def split: if_splits)
  then show ?thesis
    using concat_chunks [of "nat batch_limit" items] chunks_sizes [of _ "nat batch_limit" items]
      chunks_full [of _ "nat batch_limit" items]
    by (fastforce simp: cs)
qed

theorem chunk_updates_spec_witness:
  "concat [[1, 2], [3, 4], [5]] = [1, 2, 3, 4, 5 :: int] \<and>
   chunk_updates [1, 2, 3, 4, 5 :: int] 2 = Inr [[1, 2], [3, 4], [5]]"
proof -
  have "chunk_updates [1, 2, 3, 4, 5 :: int] 2 = Inr [[1, 2], [3, 4], [5]]"
    by (simp add: chunk_updates_def chunks.simps)
  from chunk_updates_spec [OF this] this show ?thesis by simp
qed

text \<open>a transfer neither creates nor destroys goods: shipping moves the quantity from the source
  to the goods in transit, receiving makes it available at the destination, and cancelling puts both
  warehouses back exactly as they were.\<close>

theorem transfer_conserves:
  assumes "ship_moves q = Inr (out_move, in_move)"
    and "apply_bin a1 o1 t1 out_move = (''applied'', a1', o1', t1')"
    and "apply_bin a2 o2 t2 in_move = (''applied'', a2', o2', t2')"
  shows "a1' + t1' + a2' + t2' = a1 + t1 + a2 + t2 \<and>
    (\<forall>m a3 o3 t3. receive_move q = Inr m \<longrightarrow> apply_bin a2' o2' t2' m = (''applied'', a3, o3, t3) \<longrightarrow>
       a1' + a3 = a1 + a2 \<and> t3 = t2) \<and>
    (\<forall>dest_move source_move. cancel_transit_moves q = Inr (dest_move, source_move) \<longrightarrow>
       o1 \<le> a1 \<longrightarrow> 0 \<le> t1 \<longrightarrow> 0 \<le> t2 \<longrightarrow> 0 \<le> a1 \<longrightarrow>
       apply_bin a2' o2' t2' dest_move = (''applied'', a2, o2, t2) \<and>
       apply_bin a1' o1' t1' source_move = (''applied'', a1, o1, t1))"
proof -
  have q: "0 < q" using assms(1) by (auto simp: ship_moves_def positive_def split: if_splits)
  with assms have "out_move = \<lparr>available_delta = - q, in_transit_delta = 0,
      flow_type = ''TRANSFER_OUT'', bucket = ''available''\<rparr>"
    "in_move = \<lparr>available_delta = 0, in_transit_delta = q,
      flow_type = ''TRANSFER_IN'', bucket = ''in_transit''\<rparr>"
    by (auto simp: ship_moves_def positive_def)
  with assms(2,3) have e: "a1' = a1 - q" "o1' = o1" "t1' = t1" "a2' = a2" "o2' = o2" "t2' = t2 + q"
    "0 \<le> a2" "o2 \<le> a2"
    by (auto simp: apply_bin_def Let_def split: if_splits)
  with q show ?thesis
    by (auto simp: receive_move_def cancel_transit_moves_def positive_def apply_bin_def Let_def
        split: if_splits)
qed

theorem transfer_conserves_witness:
  "(6::int) + 0 + 2 + 4 = 10 + 0 + 2 + 0"
proof -
  let ?out = "\<lparr>available_delta = - 4, in_transit_delta = 0,
      flow_type = ''TRANSFER_OUT'', bucket = ''available''\<rparr>"
  let ?in = "\<lparr>available_delta = 0, in_transit_delta = 4,
      flow_type = ''TRANSFER_IN'', bucket = ''in_transit''\<rparr>"
  have "ship_moves 4 = Inr (?out, ?in)" by (simp add: ship_moves_def positive_def)
  moreover have "apply_bin 10 1 0 ?out = (''applied'', 6, 1, 0)" by (simp add: apply_bin_def)
  moreover have "apply_bin 2 0 0 ?in = (''applied'', 2, 0, 4)" by (simp add: apply_bin_def)
  ultimately show ?thesis by (rule transfer_conserves [THEN conjunct1])
qed

text \<open>however many attempts compete for the stock, exactly as many succeed as the goods on hand
  can serve, and the reservation is the successes times the quantity.\<close>

theorem parallel_reserves_value:
  assumes "0 < quantity" and "0 \<le> avail" and "0 \<le> attempts"
  shows "\<exists>l. simulate_parallel_reserves avail attempts quantity =
      Inr (min attempts (avail div quantity), l) \<and> available l = avail \<and>
      occupied l = quantity * min attempts (avail div quantity) \<and> occupied l \<le> avail"
proof -
  let ?l = "\<lparr>available = avail, occupied = 0, version = 0\<rparr>"
  have "0 \<le> free_qty (available ?l) (occupied ?l)" using assms(2) by (simp add: free_qty_def)
  from reserve_attempts_value [OF assms(1) this, of "nat attempts" 0]
  obtain l where l: "simulate_parallel_reserves avail attempts quantity =
      Inr (min attempts (avail div quantity), l)" "available l = avail"
      "occupied l = quantity * min attempts (avail div quantity)"
    using assms(3) by (auto simp: simulate_parallel_reserves_def free_qty_def)
  have "quantity * min attempts (avail div quantity) \<le> quantity * (avail div quantity)"
    using assms(1) by (intro mult_left_mono) auto
  also have "\<dots> \<le> avail" using assms(1) by (simp add: minus_mod_eq_mult_div [symmetric])
  finally show ?thesis using l by auto
qed

theorem parallel_reserves_value_witness:
  "\<exists>l. simulate_parallel_reserves 7 100 2 = Inr (3, l) \<and> occupied l = 6"
  using parallel_reserves_value [of 2 7 100] by auto

text \<open>a replenishment suggestion with admissible parameters either is produced, with a
  non-negative quantity and an order date not before today, or fails with an overflow because the
  stock would last beyond the year 9999; it fails that way for one sale in 30 days and 200000 pieces
  on hand.\<close>

theorem suggest_replenishment_outcomes:
  assumes "1 \<le> window_days" and "0 \<le> sold" "0 \<le> lead" "0 \<le> cover" "0 \<le> safety" "0 \<le> movable"
    "0 \<le> transit"
  shows "(case suggest_replenishment sold window_days lead cover safety movable transit today of
      Inl e \<Rightarrow> e = OverflowError
    | Inr r \<Rightarrow> 0 \<le> suggested_qty r \<and> 0 \<le> daily_sales r \<and>
        (\<forall>d. order_on r = Some d \<longrightarrow> today \<le> d \<and> (d = today \<or> date_ok d)) \<and>
        (order_on r = None \<longrightarrow> suggested_qty r = 0 \<and> daily_sales r = 0)) \<and>
    suggest_replenishment 1 30 7 14 0 200000 0 739000 = Inl OverflowError"
proof -
  define daily where "daily = ctx (of_int sold / of_int window_days)"
  define raw where "raw = dsub (dsub (dadd (dmul daily (of_int (lead + cover))) (of_int safety))
      (of_int movable)) (of_int transit)"
  define suggested where "suggested = (if raw \<le> 0 then 0 else \<lceil>raw\<rceil>)"
  define days where "days = ctx (of_int movable / daily)"
  have daily: "ddiv (of_int sold) (of_int window_days) = Inr daily" "0 \<le> daily"
    using assms(1,2) by (simp_all add: ddiv_def daily_def ctx_nonneg)
  have days: "ddiv (of_int movable) daily = Inr days" if "daily \<noteq> 0"
    using that by (simp add: ddiv_def days_def)
  have suggested: "0 \<le> suggested"
    by (simp add: suggested_def le_ceiling_iff)
  have admissible: "(min sold (min lead (min cover (min safety (min movable transit)))) < 0) = False"
      "(window_days < 1) = False"
    using assms by simp_all
  have eq: "suggest_replenishment sold window_days lead cover safety movable transit today =
     (if daily = 0
      then Inr \<lparr>suggested_qty = suggested,
                order_on = (if 0 < suggested then Some today else None), daily_sales = daily\<rparr>
      else if days < of_int lead
      then Inr \<lparr>suggested_qty = suggested, order_on = Some today, daily_sales = daily\<rparr>
      else bindr (date_add today \<lfloor>dsub days (of_int lead)\<rfloor>) (\<lambda>on.
           Inr \<lparr>suggested_qty = suggested, order_on = Some on, daily_sales = daily\<rparr>))"
    unfolding suggest_replenishment_def Let_def daily(1) bindr_Inr suggested_def raw_def admissible if_False
    by (rule if_cong) (simp_all only: days bindr_Inr not_False_eq_True)
  have later: "0 \<le> \<lfloor>dsub days (of_int lead)\<rfloor>" if "\<not> days < of_int lead"
    using that by (simp add: dsub_def ctx_nonneg)
  have "ddiv 1 30 = Inr (3333333333333333333333333333 / 10 ^ 29)"
    "ddiv 200000 (3333333333333333333333333333 / 10 ^ 29) = Inr (6000000000000000000000000001 / 10 ^ 21)"
    "\<lfloor>dsub (6000000000000000000000000001 / 10 ^ 21) 7\<rfloor> = 5999993"
    by code_simp+
  moreover have "(3333333333333333333333333333 / 10 ^ 29 :: rat) \<noteq> 0"
    "\<not> 6000000000000000000000000001 / 10 ^ 21 < (7 :: rat)" by simp_all
  ultimately have "\<exists>d c. ddiv 1 30 = Inr d \<and> d \<noteq> 0 \<and> ddiv 200000 d = Inr c \<and> \<not> c < 7 \<and>
      \<lfloor>dsub c 7\<rfloor> = 5999993"
    by blast
  then obtain d c where "ddiv 1 30 = Inr d" "d \<noteq> 0" "ddiv 200000 d = Inr c" "\<not> c < 7"
      "\<lfloor>dsub c 7\<rfloor> = 5999993"
    by blast
  then have "suggest_replenishment 1 30 7 14 0 200000 0 739000 = Inl OverflowError"
    by (simp add: suggest_replenishment_def Let_def date_add_def date_ok_def max_ordinal_def)
  moreover consider "daily = 0" | "daily \<noteq> 0" "days < of_int lead"
    | "daily \<noteq> 0" "\<not> days < of_int lead" "date_ok (today + \<lfloor>dsub days (of_int lead)\<rfloor>)"
    | "daily \<noteq> 0" "\<not> days < of_int lead" "\<not> date_ok (today + \<lfloor>dsub days (of_int lead)\<rfloor>)"
    by blast
  then have "case suggest_replenishment sold window_days lead cover safety movable transit today of
      Inl e \<Rightarrow> e = OverflowError
    | Inr r \<Rightarrow> 0 \<le> suggested_qty r \<and> 0 \<le> daily_sales r \<and>
        (\<forall>d. order_on r = Some d \<longrightarrow> today \<le> d \<and> (d = today \<or> date_ok d)) \<and>
        (order_on r = None \<longrightarrow> suggested_qty r = 0 \<and> daily_sales r = 0)"
    by cases (use eq suggested daily(2) later in \<open>auto simp: date_add_def\<close>)
  ultimately show ?thesis by blast
qed

theorem suggest_replenishment_outcomes_witness:
  "case suggest_replenishment 300 30 7 14 10 50 20 739000 of
     Inl e \<Rightarrow> False
   | Inr r \<Rightarrow> suggested_qty r = 150 \<and> order_on r = Some 739000"
proof -
  have "suggest_replenishment 300 30 7 14 10 50 20 739000 =
      Inr \<lparr>suggested_qty = 150, order_on = Some 739000, daily_sales = 10\<rparr>"
  proof -
    have "ddiv 300 30 = Inr 10" "ddiv 50 10 = Inr 5"
      "dsub (dsub (dadd (dmul 10 21) 10) 50) 20 = 150"
      by code_simp+
    then show ?thesis by (simp add: suggest_replenishment_def Let_def)
  qed
  with suggest_replenishment_outcomes [of 30 300 7 14 10 50 20 739000] show ?thesis by simp
qed

end
