(* ===== verification/LandedCost.thy ===== *)
theory LandedCost imports PyTime begin

text \<open>
  \<^verbatim>\<open>app/engines/landed_cost.py\<close>: the twelve cost lines of one sale and what follows from them.
  Every function of the source is a definition with the same branches; Decimal operations are those
  of \<^theory_text>\<open>Decimal\<close>, so a result of more than 28 digits or a division by zero is an exception
  here as it is there.  The printed text of a line is kept as an \<open>explanation\<close>: a tag that names the
  f-string of the source and the numbers that \<open>money_text\<close> prints into it, in order.  A source
  remark is a \<open>src_note\<close>: a fixed phrase of the code, given text, or a citation with the date it was
  checked.  The label of a line is a function of its code and is left out.
\<close>

section \<open>Data\<close>

datatype explanation = Note string "dec list" "explanation list"

datatype src_note =
    Src_unset
  | Src_input
  | Src_shipment
  | Src_tenant
  | Src_unlabelled
  | Src_computed
  | Src_text string
  | Src_cite string "date option"
  | Src_join "src_note list"

record tax_fact =
  tax_type :: string
  hs_code_pattern :: string
  tax_rate :: dec
  basis_numerator :: int
  basis_denominator :: int
  threshold_amount :: "dec option"
  threshold_currency :: "string option"
  tax_source :: string
  tax_verified_at :: "date option"

record fee_fact =
  fee_code :: string
  fee_channel :: string
  fee_label :: string
  charge :: string
  fee_amount :: dec
  fee_currency :: "string option"
  volumetric_divisor :: "int option"
  fee_source :: string
  fee_verified_at :: "date option"

record lc_input =
  market :: string
  selling_currency :: string
  channel :: string
  first_mile_method :: string
  selling_price :: "dec option"
  purchase_amount :: "dec option"
  purchase_currency :: "string option"
  fx_rate :: "dec option"
  fx_source :: string
  weight_g :: "dec option"
  volume_cm3 :: "dec option"
  hs_code :: string
  declared_value :: "dec option"
  declared_currency :: "string option"
  shipment_cost :: "dec option"
  shipment_currency :: "string option"
  shipment_weight_g :: "dec option"
  shipment_volume_cm3 :: "dec option"
  shipment_value :: "dec option"
  storage_days :: "int option"

record cost_line =
  cl_code :: string
  cl_amount :: "dec option"
  cl_currency :: string
  cl_formula :: explanation
  cl_source :: src_note
  cl_complete :: bool

record lc_result =
  lc_lines :: "cost_line list"
  lc_currency :: string
  landed_cost :: "dec option"
  net_profit :: "dec option"
  net_margin_percent :: "dec option"
  roi_percent :: "dec option"
  lc_complete :: bool
  profit_complete :: bool

definition import_tax_types :: "string list" where
  "import_tax_types = [''VAT'', ''GST'', ''SST'', ''PPN'', ''SALES_TAX'']"

definition landed_codes :: "string list" where
  "landed_codes = [''PURCHASE'', ''FIRST_MILE'', ''DUTY'', ''IMPORT_TAX'', ''BROKERAGE'', ''STORAGE'',
     ''FX_RESERVE'']"

definition deduction_codes :: "string list" where
  "deduction_codes = [''COMMISSION'', ''PAYMENT'', ''FULFILLMENT'', ''ADS'', ''RETURN'']"

definition line_codes :: "string list" where
  "line_codes = [''PURCHASE'', ''FIRST_MILE'', ''DUTY'', ''IMPORT_TAX'', ''BROKERAGE'', ''STORAGE'',
     ''FX_RESERVE'', ''COMMISSION'', ''PAYMENT'', ''FULFILLMENT'', ''ADS'', ''RETURN'']"

section \<open>Lines\<close>

text \<open>\<open>money_text\<close> prints a quantized value; the printed number stands for the text.\<close>

definition money_text :: "dec \<Rightarrow> dec res" where
  "money_text v = quantize v"

definition gap_line :: "string \<Rightarrow> string \<Rightarrow> string \<Rightarrow> src_note \<Rightarrow> cost_line" where
  "gap_line c cur tag src =
     \<lparr>cl_code = c, cl_amount = None, cl_currency = cur, cl_formula = Note tag [] [],
      cl_source = src, cl_complete = False\<rparr>"

definition ok_line ::
  "string \<Rightarrow> dec \<Rightarrow> string \<Rightarrow> explanation \<Rightarrow> src_note \<Rightarrow> cost_line res" where
  "ok_line c amount cur formula src =
     bindr (quantize amount) (\<lambda>a.
     Inr \<lparr>cl_code = c, cl_amount = Some a, cl_currency = cur, cl_formula = formula,
          cl_source = src, cl_complete = True\<rparr>)"

text \<open>A line whose formula prints the given values.\<close>

definition priced_line ::
  "string \<Rightarrow> dec \<Rightarrow> string \<Rightarrow> string \<Rightarrow> dec list \<Rightarrow> src_note \<Rightarrow> cost_line res" where
  "priced_line c amount cur tag printed src =
     bindr (mapr money_text printed) (\<lambda>vs. ok_line c amount cur (Note tag vs []) src)"

definition total_of :: "cost_line list \<Rightarrow> dec option res" where
  "total_of lines =
     (if list_ex (\<lambda>l. \<not> cl_complete l \<or> cl_amount l = None) lines then Inr None
      else bindr (quantize (dsum (List.map_filter cl_amount lines))) (\<lambda>t. Inr (Some t)))"

definition invested :: "cost_line \<Rightarrow> cost_line \<Rightarrow> dec option res" where
  "invested purchase first_mile =
     (if \<not> cl_complete purchase \<or> \<not> cl_complete first_mile then Inr None
      else case (cl_amount purchase, cl_amount first_mile) of
        (Some p, Some f) \<Rightarrow> bindr (quantize (dadd p f)) (\<lambda>t. Inr (Some t))
      | _ \<Rightarrow> Inr None)"

definition cite :: "string \<Rightarrow> date option \<Rightarrow> src_note" where
  "cite src verified_at = (case verified_at of None \<Rightarrow> Src_text src | Some d \<Rightarrow> Src_cite src (Some d))"

definition cite_tax :: "tax_fact \<Rightarrow> src_note" where
  "cite_tax f = cite (tax_source f) (tax_verified_at f)"

definition cite_fee :: "fee_fact \<Rightarrow> src_note" where
  "cite_fee f = cite (fee_source f) (fee_verified_at f)"

definition purchase_line :: "lc_input \<Rightarrow> string \<Rightarrow> cost_line res" where
  "purchase_line data cur =
     (case (purchase_amount data, purchase_currency data) of
        (Some p, Some pc) \<Rightarrow>
          if pc = [] then Inr (gap_line ''PURCHASE'' cur ''purchase missing'' Src_unset)
          else if pc = cur then
            bindr (quantize p) (\<lambda>a. priced_line ''PURCHASE'' a cur ''purchase same currency'' [a] Src_input)
          else (case fx_rate data of
              None \<Rightarrow> Inr (gap_line ''PURCHASE'' cur ''purchase rate missing'' Src_unset)
            | Some r \<Rightarrow>
                if r \<le> 0 then Inr (gap_line ''PURCHASE'' cur ''purchase rate missing'' Src_unset)
                else
                  bindr (ddiv p r) (\<lambda>d.
                  bindr (quantize d) (\<lambda>a.
                  let origin = (if strip (fx_source data) = [] then Src_unlabelled
                                else Src_text (strip (fx_source data)))
                  in priced_line ''PURCHASE'' a cur ''purchase converted'' [p, r, a] origin)))
      | _ \<Rightarrow> Inr (gap_line ''PURCHASE'' cur ''purchase missing'' Src_unset))"

section \<open>Duty and import tax\<close>

definition pick_tax :: "tax_fact list \<Rightarrow> string \<Rightarrow> string \<Rightarrow> tax_fact option" where
  "pick_tax taxes ttype hs =
     (let rows = filter (\<lambda>r. tax_type r = ttype) taxes;
          specific = filter (\<lambda>r. hs_code_pattern r \<noteq> ''*'' \<and> starts_with hs (hs_code_pattern r)) rows
      in case specific of
           s # ss \<Rightarrow> Some (max_by (\<lambda>r. length (hs_code_pattern r)) s ss)
         | [] \<Rightarrow>
             (case filter (\<lambda>r. hs_code_pattern r = ''*'') rows of
                [w] \<Rightarrow> Some w
              | _ \<Rightarrow> None))"

definition blocked_by_threshold :: "dec \<Rightarrow> string \<Rightarrow> tax_fact \<Rightarrow> bool option" where
  "blocked_by_threshold amount cur tf =
     (case threshold_amount tf of
        None \<Rightarrow> Some False
      | Some t \<Rightarrow> if threshold_currency tf \<noteq> Some cur then None else Some (amount < t))"

definition or_zero :: "dec option \<Rightarrow> dec" where
  "or_zero v = (case v of None \<Rightarrow> 0 | Some x \<Rightarrow> x)"

definition duty_line :: "lc_input \<Rightarrow> tax_fact list \<Rightarrow> string \<Rightarrow> cost_line res" where
  "duty_line data taxes cur =
     (case pick_tax taxes ''DUTY'' (hs_code data) of
        None \<Rightarrow> Inr (gap_line ''DUTY'' cur ''duty unset'' Src_unset)
      | Some tf \<Rightarrow>
          (case declared_value data of
             None \<Rightarrow> Inr (gap_line ''DUTY'' cur ''duty declared value'' (cite_tax tf))
           | Some declared \<Rightarrow>
               if declared_currency data \<noteq> Some cur
               then Inr (gap_line ''DUTY'' cur ''duty declared value'' (cite_tax tf))
               else (case blocked_by_threshold declared cur tf of
                   None \<Rightarrow> Inr (gap_line ''DUTY'' cur ''duty threshold currency'' (cite_tax tf))
                 | Some True \<Rightarrow>
                     priced_line ''DUTY'' 0 cur ''duty below threshold''
                       [declared, or_zero (threshold_amount tf)] (cite_tax tf)
                 | Some False \<Rightarrow>
                     bindr (quantize (dmul declared (tax_rate tf))) (\<lambda>a.
                     priced_line ''DUTY'' a cur ''duty'' [declared, tax_rate tf, a] (cite_tax tf)))))"

text \<open>The loop over the picked taxes; it stops with a gap at the first threshold in another currency.\<close>

fun import_tax_loop ::
  "dec \<Rightarrow> dec \<Rightarrow> string \<Rightarrow> tax_fact list \<Rightarrow> explanation list \<Rightarrow> src_note list \<Rightarrow> dec \<Rightarrow> cost_line res" where
  "import_tax_loop declared duty cur [] parts sources tax_total =
     ok_line ''IMPORT_TAX'' tax_total cur (Note ''import tax'' [] parts) (Src_join sources)"
| "import_tax_loop declared duty cur (tf # tfs) parts sources tax_total =
     (case blocked_by_threshold declared cur tf of
        None \<Rightarrow> Inr (gap_line ''IMPORT_TAX'' cur ''import tax threshold currency'' (cite_tax tf))
      | Some True \<Rightarrow>
          bindr (mapr money_text [or_zero (threshold_amount tf)]) (\<lambda>vs.
          import_tax_loop declared duty cur tfs (parts @ [Note (tax_type tf) vs []])
            (sources @ [cite_tax tf]) tax_total)
      | Some False \<Rightarrow>
          bindr (ddiv (dmul (dadd declared duty) (of_int (basis_numerator tf)))
                   (of_int (basis_denominator tf))) (\<lambda>base.
          bindr (quantize (dmul base (tax_rate tf))) (\<lambda>a.
          bindr (mapr money_text [declared, duty, tax_rate tf, a]) (\<lambda>vs.
          import_tax_loop declared duty cur tfs
            (parts @ [Note (tax_type tf) vs []]) (sources @ [cite_tax tf]) (dadd tax_total a)))))"

definition import_tax_line :: "lc_input \<Rightarrow> tax_fact list \<Rightarrow> string \<Rightarrow> cost_line \<Rightarrow> cost_line res" where
  "import_tax_line data taxes cur duty =
     (let tfs = List.map_filter (\<lambda>t. pick_tax taxes t (hs_code data)) import_tax_types in
      if tfs = [] then Inr (gap_line ''IMPORT_TAX'' cur ''import tax unset'' Src_unset)
      else case (declared_value data, cl_amount duty) of
        (Some declared, Some d) \<Rightarrow>
          if declared_currency data \<noteq> Some cur \<or> \<not> cl_complete duty
          then Inr (gap_line ''IMPORT_TAX'' cur ''import tax needs duty'' Src_unset)
          else import_tax_loop declared d cur tfs [] [] 0
      | _ \<Rightarrow> Inr (gap_line ''IMPORT_TAX'' cur ''import tax needs duty'' Src_unset))"

section \<open>Fee rules\<close>

text \<open>One rule per label: the channel's own, else the wildcard one; an ambiguous label makes the
  whole selection \<open>None\<close>.\<close>

fun pick_labels :: "fee_fact list \<Rightarrow> string \<Rightarrow> string list \<Rightarrow> fee_fact list option" where
  "pick_labels rows ch [] = Some []"
| "pick_labels rows ch (l # ls) =
     (let exact = filter (\<lambda>r. fee_label r = l \<and> fee_channel r = ch) rows;
          wild = filter (\<lambda>r. fee_label r = l \<and> fee_channel r = ''*'') rows
      in case (if exact = [] then wild else exact) of
           [] \<Rightarrow> pick_labels rows ch ls
         | [r] \<Rightarrow> map_option ((#) r) (pick_labels rows ch ls)
         | _ \<Rightarrow> None)"

definition pick_fees :: "fee_fact list \<Rightarrow> string \<Rightarrow> string \<Rightarrow> fee_fact list option" where
  "pick_fees fees fcode ch =
     (let rows = filter (\<lambda>r. fee_code r = fcode) fees in
      pick_labels rows ch (sort (remdups (map fee_label rows))))"

fun brokerage_loop ::
  "string \<Rightarrow> fee_fact list \<Rightarrow> explanation list \<Rightarrow> src_note list \<Rightarrow> dec \<Rightarrow> cost_line res" where
  "brokerage_loop cur [] parts sources fee_total =
     ok_line ''BROKERAGE'' fee_total cur (Note ''brokerage'' [] parts) (Src_join sources)"
| "brokerage_loop cur (r # rows) parts sources fee_total =
     (if fee_currency r \<noteq> Some cur
      then Inr (gap_line ''BROKERAGE'' cur ''brokerage currency'' (cite_fee r))
      else
        bindr (quantize (fee_amount r)) (\<lambda>a.
        bindr (mapr money_text [fee_amount r]) (\<lambda>vs.
        brokerage_loop cur rows (parts @ [Note (fee_label r) vs []]) (sources @ [cite_fee r])
          (dadd fee_total a))))"

definition brokerage_line :: "lc_input \<Rightarrow> fee_fact list \<Rightarrow> string \<Rightarrow> cost_line res" where
  "brokerage_line data fees cur =
     (case pick_fees fees ''BROKERAGE'' (channel data) of
        None \<Rightarrow> Inr (gap_line ''BROKERAGE'' cur ''brokerage ambiguous'' Src_unset)
      | Some chosen \<Rightarrow>
          if chosen = [] then Inr (gap_line ''BROKERAGE'' cur ''brokerage unset'' Src_unset)
          else if list_ex (\<lambda>r. charge r \<noteq> ''FIXED'') chosen
          then Inr (gap_line ''BROKERAGE'' cur ''brokerage not fixed'' Src_unset)
          else brokerage_loop cur chosen [] [] 0)"

definition storage_line :: "lc_input \<Rightarrow> fee_fact list \<Rightarrow> string \<Rightarrow> cost_line res" where
  "storage_line data fees cur =
     (case storage_days data of
        None \<Rightarrow> Inr (gap_line ''STORAGE'' cur ''storage days missing'' Src_unset)
      | Some days \<Rightarrow>
          if days = 0 then ok_line ''STORAGE'' 0 cur (Note ''storage zero days'' [] []) Src_input
          else (case pick_fees fees ''STORAGE'' (channel data) of
              Some [r] \<Rightarrow>
                if charge r \<noteq> ''PER_CBM_DAY'' \<or> fee_currency r \<noteq> Some cur
                then Inr (gap_line ''STORAGE'' cur ''storage charge'' (cite_fee r))
                else (case volume_cm3 data of
                    None \<Rightarrow> Inr (gap_line ''STORAGE'' cur ''storage volume missing'' (cite_fee r))
                  | Some v \<Rightarrow>
                      bindr (ddiv v 1000000) (\<lambda>cbm.
                      bindr (quantize (dmul (dmul cbm (of_int days)) (fee_amount r))) (\<lambda>a.
                      priced_line ''STORAGE'' a cur ''storage'' [v, fee_amount r, a] (cite_fee r))))
            | _ \<Rightarrow> Inr (gap_line ''STORAGE'' cur ''storage rule'' Src_unset)))"

section \<open>First mile\<close>

definition allocation_metrics ::
  "lc_input \<Rightarrow> string \<Rightarrow> cost_line \<Rightarrow> dec option \<times> dec option \<times> string" where
  "allocation_metrics data cur purchase =
     (if first_mile_method data = ''WEIGHT'' then (weight_g data, shipment_weight_g data, ''weight'')
      else if first_mile_method data = ''VOLUME''
      then (volume_cm3 data, shipment_volume_cm3 data, ''volume'')
      else
        let declared = (if declared_currency data = Some cur then declared_value data else None);
            unit_value = (case declared of
                Some d \<Rightarrow> Some d
              | None \<Rightarrow> if cl_complete purchase then cl_amount purchase else None)
        in (unit_value, shipment_value data, ''value''))"

definition allocate_line :: "lc_input \<Rightarrow> string \<Rightarrow> cost_line \<Rightarrow> cost_line res" where
  "allocate_line data cur purchase =
     (case shipment_cost data of
        None \<Rightarrow> Inr (gap_line ''FIRST_MILE'' cur ''first mile total missing'' Src_unset)
      | Some cost \<Rightarrow>
          if shipment_currency data \<noteq> Some cur
          then Inr (gap_line ''FIRST_MILE'' cur ''first mile total missing'' Src_unset)
          else (case allocation_metrics data cur purchase of
              (Some u, Some whole, unit_name) \<Rightarrow>
                if whole \<le> 0 then Inr (gap_line ''FIRST_MILE'' cur ''first mile whole positive'' Src_unset)
                else
                  bindr (ddiv (dmul cost u) whole) (\<lambda>d.
                  bindr (quantize d) (\<lambda>a.
                  priced_line ''FIRST_MILE'' a cur unit_name [cost, u, whole, a] Src_shipment))
            | (_, _, unit_name) \<Rightarrow>
                Inr (gap_line ''FIRST_MILE'' cur ''first mile metric missing'' Src_unset)))"

definition charge_weights :: "lc_input \<Rightarrow> fee_fact \<Rightarrow> (dec option \<times> dec option) res" where
  "charge_weights data r =
     bindr (case weight_g data of
         None \<Rightarrow> Inr None
       | Some w \<Rightarrow> bindr (ddiv w 1000) (\<lambda>k. Inr (Some k))) (\<lambda>actual.
     bindr (case (volumetric_divisor r, volume_cm3 data) of
         (Some d, Some v) \<Rightarrow>
           if d = 0 then Inr None else bindr (ddiv v (of_int d)) (\<lambda>k. Inr (Some k))
       | _ \<Rightarrow> Inr None) (\<lambda>volumetric.
     Inr (actual, volumetric)))"

definition larger_weight :: "dec option \<Rightarrow> dec option \<Rightarrow> dec option" where
  "larger_weight actual volumetric =
     (case (actual, volumetric) of
        (Some a, Some b) \<Rightarrow> Some (max a b)
      | (Some a, None) \<Rightarrow> Some a
      | (None, v) \<Rightarrow> v)"

definition chargeable_line :: "lc_input \<Rightarrow> fee_fact list \<Rightarrow> string \<Rightarrow> cost_line res" where
  "chargeable_line data fees cur =
     (case pick_fees fees ''FIRST_MILE'' (channel data) of
        Some [r] \<Rightarrow>
          if fee_currency r \<noteq> Some cur
          then Inr (gap_line ''FIRST_MILE'' cur ''first mile currency'' (cite_fee r))
          else if charge r = ''FIXED''
          then priced_line ''FIRST_MILE'' (fee_amount r) cur ''first mile fixed'' [fee_amount r] (cite_fee r)
          else if charge r = ''PER_CBM''
          then (case volume_cm3 data of
              None \<Rightarrow> Inr (gap_line ''FIRST_MILE'' cur ''first mile volume missing'' (cite_fee r))
            | Some v \<Rightarrow>
                bindr (ddiv v 1000000) (\<lambda>cbm.
                bindr (quantize (dmul cbm (fee_amount r))) (\<lambda>a.
                priced_line ''FIRST_MILE'' a cur ''first mile volume'' [v, fee_amount r, a] (cite_fee r))))
          else if charge r \<noteq> ''PER_KG''
          then Inr (gap_line ''FIRST_MILE'' cur ''first mile charge'' (cite_fee r))
          else
            bindr (charge_weights data r) (\<lambda>(actual, volumetric).
            (case larger_weight actual volumetric of
               None \<Rightarrow> Inr (gap_line ''FIRST_MILE'' cur ''first mile weight missing'' (cite_fee r))
             | Some kg \<Rightarrow>
                 let tag = (if actual \<noteq> None \<and> volumetric \<noteq> None then ''first mile larger weight''
                            else ''first mile given weight'')
                 in bindr (quantize (dmul kg (fee_amount r))) (\<lambda>a.
                    priced_line ''FIRST_MILE'' a cur tag [kg, fee_amount r, a] (cite_fee r))))
      | _ \<Rightarrow> Inr (gap_line ''FIRST_MILE'' cur ''first mile rule'' Src_unset))"

definition first_mile_line ::
  "lc_input \<Rightarrow> fee_fact list \<Rightarrow> string \<Rightarrow> cost_line \<Rightarrow> cost_line res" where
  "first_mile_line data fees cur purchase =
     (if first_mile_method data \<in> set [''WEIGHT'', ''VOLUME'', ''VALUE''] then allocate_line data cur purchase
      else if first_mile_method data = ''CHARGEABLE'' then chargeable_line data fees cur
      else Inr (gap_line ''FIRST_MILE'' cur ''first mile method'' Src_unset))"

section \<open>Reserve and price-dependent lines\<close>

definition fx_reserve_line ::
  "fee_fact list \<Rightarrow> string \<Rightarrow> string \<Rightarrow> cost_line list \<Rightarrow> cost_line res" where
  "fx_reserve_line fees ch cur parts =
     bindr (total_of parts) (\<lambda>base.
     (case pick_fees fees ''FX_RESERVE'' ch of
        Some [r] \<Rightarrow>
          if charge r \<noteq> ''RATE'' then Inr (gap_line ''FX_RESERVE'' cur ''reserve not a rate'' (cite_fee r))
          else (case base of
              None \<Rightarrow> Inr (gap_line ''FX_RESERVE'' cur ''reserve base incomplete'' (cite_fee r))
            | Some b \<Rightarrow>
                bindr (quantize (dmul b (fee_amount r))) (\<lambda>a.
                priced_line ''FX_RESERVE'' a cur ''reserve'' [b, fee_amount r, a] (cite_fee r)))
      | _ \<Rightarrow> Inr (gap_line ''FX_RESERVE'' cur ''reserve rule'' Src_unset)))"

definition rate_of_price ::
  "string \<Rightarrow> dec option \<Rightarrow> fee_fact list \<Rightarrow> string \<Rightarrow> string \<Rightarrow> cost_line res" where
  "rate_of_price c price fees ch cur =
     (case pick_fees fees c ch of
        Some [r] \<Rightarrow>
          if charge r \<noteq> ''RATE'' then Inr (gap_line c cur ''not a rate'' (cite_fee r))
          else (case price of
              None \<Rightarrow> Inr (gap_line c cur ''price missing'' (cite_fee r))
            | Some p \<Rightarrow>
                bindr (quantize (dmul p (fee_amount r))) (\<lambda>a.
                priced_line c a cur ''price share'' [p, fee_amount r, a] (cite_fee r)))
      | _ \<Rightarrow> Inr (gap_line c cur ''rule'' Src_unset))"

definition fulfillment_line ::
  "dec option \<Rightarrow> fee_fact list \<Rightarrow> string \<Rightarrow> string \<Rightarrow> cost_line res" where
  "fulfillment_line price fees ch cur =
     (case pick_fees fees ''FULFILLMENT'' ch of
        Some [r] \<Rightarrow>
          if charge r = ''FIXED'' then
            (if fee_currency r \<noteq> Some cur
             then Inr (gap_line ''FULFILLMENT'' cur ''fulfillment currency'' (cite_fee r))
             else priced_line ''FULFILLMENT'' (fee_amount r) cur ''fulfillment fixed'' [fee_amount r]
                    (cite_fee r))
          else if charge r = ''RATE'' then
            (case price of
               None \<Rightarrow> Inr (gap_line ''FULFILLMENT'' cur ''price missing'' (cite_fee r))
             | Some p \<Rightarrow>
                 bindr (quantize (dmul p (fee_amount r))) (\<lambda>a.
                 priced_line ''FULFILLMENT'' a cur ''price share'' [p, fee_amount r, a] (cite_fee r)))
          else Inr (gap_line ''FULFILLMENT'' cur ''fulfillment charge'' (cite_fee r))
      | _ \<Rightarrow> Inr (gap_line ''FULFILLMENT'' cur ''rule'' Src_unset))"

definition return_loss_line ::
  "dec option \<Rightarrow> fee_fact list \<Rightarrow> string \<Rightarrow> string \<Rightarrow> cost_line res" where
  "return_loss_line price fees ch cur =
     (case (pick_fees fees ''RETURN_RATE'' ch, pick_fees fees ''RETURN_LOSS'' ch) of
        (Some [left], Some [right]) \<Rightarrow>
          let src = Src_join [cite_fee left, cite_fee right] in
          if charge left \<noteq> ''RATE'' \<or> charge right \<noteq> ''RATE''
          then Inr (gap_line ''RETURN'' cur ''return not a rate'' src)
          else (case price of
              None \<Rightarrow> Inr (gap_line ''RETURN'' cur ''price missing'' src)
            | Some p \<Rightarrow>
                bindr (quantize (dmul (dmul p (fee_amount left)) (fee_amount right))) (\<lambda>a.
                priced_line ''RETURN'' a cur ''return loss'' [p, fee_amount left, fee_amount right, a] src))
      | _ \<Rightarrow> Inr (gap_line ''RETURN'' cur ''return rules'' Src_unset))"

definition price_lines :: "lc_input \<Rightarrow> fee_fact list \<Rightarrow> string \<Rightarrow> cost_line list res" where
  "price_lines data fees cur =
     (let price = selling_price data; ch = channel data in
      bindr (rate_of_price ''COMMISSION'' price fees ch cur) (\<lambda>commission.
      bindr (rate_of_price ''PAYMENT'' price fees ch cur) (\<lambda>payment.
      bindr (fulfillment_line price fees ch cur) (\<lambda>fulfillment.
      bindr (rate_of_price ''ADS'' price fees ch cur) (\<lambda>ads.
      bindr (return_loss_line price fees ch cur) (\<lambda>ret.
      Inr [commission, payment, fulfillment, ads, ret]))))))"

section \<open>The result\<close>

definition gate :: "string list \<Rightarrow> string \<Rightarrow> cost_line \<Rightarrow> cost_line" where
  "gate off cur line =
     (if cl_code line \<notin> set off then line
      else \<lparr>cl_code = cl_code line, cl_amount = Some 0, cl_currency = cur,
            cl_formula = Note ''switched off'' [] [], cl_source = Src_tenant, cl_complete = True\<rparr>)"

text \<open>The lines are computed in the order of the source and returned in the order of \<open>line_codes\<close>.\<close>

definition compute_lines ::
  "lc_input \<Rightarrow> tax_fact list \<Rightarrow> fee_fact list \<Rightarrow> string list \<Rightarrow> cost_line list res" where
  "compute_lines data taxes fees off =
     (let cur = selling_currency data; g = gate off cur in
      bindr (purchase_line data cur) (\<lambda>purchase0. let purchase = g purchase0 in
      bindr (duty_line data taxes cur) (\<lambda>duty0. let duty = g duty0 in
      bindr (import_tax_line data taxes cur duty) (\<lambda>import0. let import_tax = g import0 in
      bindr (brokerage_line data fees cur) (\<lambda>brokerage0. let brokerage = g brokerage0 in
      bindr (storage_line data fees cur) (\<lambda>storage0. let storage = g storage0 in
      bindr (first_mile_line data fees cur purchase) (\<lambda>first_mile0. let first_mile = g first_mile0 in
      bindr (fx_reserve_line fees (channel data) cur
               [purchase, first_mile, duty, import_tax, brokerage, storage]) (\<lambda>reserve0.
      bindr (price_lines data fees cur) (\<lambda>prices0.
      Inr ([purchase, first_mile, duty, import_tax, brokerage, storage, g reserve0] @ map g prices0))))))))))"

text \<open>Net profit, margin and return on investment of the lines; \<open>purchase\<close> and \<open>first_mile\<close> are the
  gated lines of these codes.\<close>

definition profit_of ::
  "dec option \<Rightarrow> dec option \<Rightarrow> cost_line list \<Rightarrow> cost_line \<Rightarrow> cost_line
     \<Rightarrow> (dec option \<times> dec option \<times> dec option) res" where
  "profit_of price landed deductions purchase first_mile =
     (case (landed, price) of
        (Some l, Some p) \<Rightarrow>
          if \<not> list_all cl_complete deductions then Inr (None, None, None)
          else
            bindr (total_of deductions) (\<lambda>deducted.
            (case deducted of
               None \<Rightarrow> Inr (None, None, None)
             | Some d \<Rightarrow>
                 bindr (quantize (dsub (dsub p l) d)) (\<lambda>net.
                 bindr (if 0 < p
                        then bindr (ddiv net p) (\<lambda>r. bindr (quantize (dmul r 100)) (\<lambda>m. Inr (Some m)))
                        else Inr None) (\<lambda>margin.
                 bindr (invested purchase first_mile) (\<lambda>base.
                 bindr (case base of
                          Some b \<Rightarrow>
                            if 0 < b
                            then bindr (ddiv net b) (\<lambda>r. bindr (quantize (dmul r 100)) (\<lambda>m. Inr (Some m)))
                            else Inr None
                        | None \<Rightarrow> Inr None) (\<lambda>roi.
                 Inr (Some net, margin, roi)))))))
      | _ \<Rightarrow> Inr (None, None, None))"

definition compute_landed_cost ::
  "lc_input \<Rightarrow> tax_fact list \<Rightarrow> fee_fact list \<Rightarrow> string list \<Rightarrow> lc_result res" where
  "compute_landed_cost data taxes fees off =
     bindr (compute_lines data taxes fees off) (\<lambda>ordered.
     bindr (total_of (filter (\<lambda>l. cl_code l \<in> set landed_codes) ordered)) (\<lambda>landed.
     bindr (profit_of (selling_price data) landed
              (filter (\<lambda>l. cl_code l \<in> set deduction_codes) ordered) (ordered ! 0) (ordered ! 1))
       (\<lambda>(net, margin, roi).
     Inr \<lparr>lc_lines = ordered, lc_currency = selling_currency data, landed_cost = landed,
          net_profit = net, net_margin_percent = margin, roi_percent = roi,
          lc_complete = (landed \<noteq> None), profit_complete = (net \<noteq> None)\<rparr>)))"

section \<open>Well-formed lines\<close>

text \<open>A line carries its code and the selling currency; it is complete exactly when it has an amount,
  and an amount is a whole number of millionths the context can hold.\<close>

definition wf_line :: "string \<Rightarrow> string \<Rightarrow> cost_line \<Rightarrow> bool" where
  "wf_line c cur l \<longleftrightarrow> cl_code l = c \<and> cl_currency l = cur \<and> (cl_complete l \<longleftrightarrow> cl_amount l \<noteq> None) \<and>
     (\<forall>a. cl_amount l = Some a \<longrightarrow> micro a)"

named_theorems wf_lines \<open>each line function returns a well-formed line\<close>

lemma wf_gap_line [wf_lines]: "wf_line c cur (gap_line c cur tag src)"
  by (simp add: wf_line_def gap_line_def)

lemma wf_ok_line [wf_lines]: "res_all (wf_line c cur) (ok_line c a cur f src)"
  by (auto simp: ok_line_def wf_line_def dest: quantize_micro)

lemma wf_priced_line [wf_lines]: "res_all (wf_line c cur) (priced_line c a cur tag vs src)"
  by (simp add: priced_line_def wf_lines)

lemma wf_purchase_line: "res_all (wf_line ''PURCHASE'' cur) (purchase_line data cur)"
  by (simp add: purchase_line_def Let_def wf_lines split: option.split)

lemma wf_duty_line: "res_all (wf_line ''DUTY'' cur) (duty_line data taxes cur)"
  by (simp add: duty_line_def wf_lines split: option.split bool.split)

lemma wf_import_tax_loop:
  "res_all (wf_line ''IMPORT_TAX'' cur) (import_tax_loop declared d cur tfs parts sources t)"
  by (induction declared d cur tfs parts sources t rule: import_tax_loop.induct)
    (auto simp: wf_lines split: option.split bool.split)

lemma wf_import_tax_line: "res_all (wf_line ''IMPORT_TAX'' cur) (import_tax_line data taxes cur duty)"
  by (simp add: import_tax_line_def Let_def wf_lines wf_import_tax_loop split: option.split)

lemma wf_brokerage_loop:
  "res_all (wf_line ''BROKERAGE'' cur) (brokerage_loop cur rows parts sources t)"
  by (induction cur rows parts sources t rule: brokerage_loop.induct) (auto simp: wf_lines)

lemma wf_brokerage_line: "res_all (wf_line ''BROKERAGE'' cur) (brokerage_line data fees cur)"
  by (simp add: brokerage_line_def wf_lines wf_brokerage_loop split: option.split)

lemma wf_storage_line: "res_all (wf_line ''STORAGE'' cur) (storage_line data fees cur)"
  by (simp add: storage_line_def wf_lines split: option.split list.split)

lemma wf_allocate_line: "res_all (wf_line ''FIRST_MILE'' cur) (allocate_line data cur purchase)"
  by (simp add: allocate_line_def wf_lines split: option.split prod.split)

lemma wf_chargeable_line: "res_all (wf_line ''FIRST_MILE'' cur) (chargeable_line data fees cur)"
  by (simp add: chargeable_line_def Let_def wf_lines split: option.split list.split)

lemma wf_first_mile_line: "res_all (wf_line ''FIRST_MILE'' cur) (first_mile_line data fees cur purchase)"
  by (simp add: first_mile_line_def wf_lines wf_allocate_line wf_chargeable_line)

lemma wf_fx_reserve_line: "res_all (wf_line ''FX_RESERVE'' cur) (fx_reserve_line fees ch cur parts)"
  by (simp add: fx_reserve_line_def wf_lines split: option.split list.split)

lemma wf_rate_of_price: "res_all (wf_line c cur) (rate_of_price c price fees ch cur)"
  by (simp add: rate_of_price_def wf_lines split: option.split list.split)

lemma wf_fulfillment_line: "res_all (wf_line ''FULFILLMENT'' cur) (fulfillment_line price fees ch cur)"
  by (simp add: fulfillment_line_def wf_lines split: option.split list.split)

lemma wf_return_loss_line: "res_all (wf_line ''RETURN'' cur) (return_loss_line price fees ch cur)"
  by (simp add: return_loss_line_def Let_def wf_lines split: option.split list.split)

lemma wf_gate: "wf_line c cur l \<Longrightarrow> wf_line c cur (gate off cur l)"
  by (simp add: gate_def wf_line_def)

lemma gate_off: "wf_line c cur l \<Longrightarrow> c \<in> set off \<Longrightarrow> cl_amount (gate off cur l) = Some 0"
  by (simp add: gate_def wf_line_def)

lemmas wf_line_functions =
  wf_purchase_line wf_duty_line wf_import_tax_line wf_brokerage_line wf_storage_line
  wf_first_mile_line wf_fx_reserve_line wf_rate_of_price wf_fulfillment_line wf_return_loss_line

lemma wf_price_lines:
  "price_lines data fees cur = Inr ls \<Longrightarrow> list_all2 (\<lambda>c l. wf_line c cur l) deduction_codes ls"
  by (auto simp: price_lines_def Let_def res_simps deduction_codes_def
      dest: res_allD [OF wf_rate_of_price] res_allD [OF wf_fulfillment_line]
        res_allD [OF wf_return_loss_line])

lemma list_all2_gate:
  "list_all2 (\<lambda>c l. wf_line c cur l) cs ls \<Longrightarrow>
     list_all2 (\<lambda>c l. wf_line c cur l \<and> (c \<in> set off \<longrightarrow> cl_amount l = Some 0)) cs (map (gate off cur) ls)"
  by (induction rule: list_all2_induct) (auto simp: wf_gate gate_off)

lemma compute_lines_wf:
  assumes "compute_lines data taxes fees off = Inr ls"
  shows "list_all2 (\<lambda>c l. wf_line c (selling_currency data) l \<and> (c \<in> set off \<longrightarrow> cl_amount l = Some 0))
    line_codes ls"
proof -
  let ?cur = "selling_currency data"
  from assms obtain pu du im br st fm re ps where
      ls: "ls = map (gate off ?cur) ([pu, fm, du, im, br, st, re] @ ps)" and
      w: "wf_line ''PURCHASE'' ?cur pu" "wf_line ''FIRST_MILE'' ?cur fm" "wf_line ''DUTY'' ?cur du"
        "wf_line ''IMPORT_TAX'' ?cur im" "wf_line ''BROKERAGE'' ?cur br" "wf_line ''STORAGE'' ?cur st"
        "wf_line ''FX_RESERVE'' ?cur re" and
      ps: "price_lines data fees ?cur = Inr ps"
    by (auto simp: compute_lines_def Let_def res_simps dest!: res_allD [OF wf_purchase_line]
        res_allD [OF wf_duty_line] res_allD [OF wf_import_tax_line] res_allD [OF wf_brokerage_line]
        res_allD [OF wf_storage_line] res_allD [OF wf_first_mile_line] res_allD [OF wf_fx_reserve_line])
  have "list_all2 (\<lambda>c l. wf_line c ?cur l) (landed_codes @ deduction_codes)
      ([pu, fm, du, im, br, st, re] @ ps)"
    using w wf_price_lines [OF ps] by (simp add: landed_codes_def list_all2_append)
  moreover have "landed_codes @ deduction_codes = line_codes"
    by (simp add: landed_codes_def deduction_codes_def line_codes_def)
  ultimately show ?thesis unfolding ls by (simp only: list_all2_gate)
qed

section \<open>Totals\<close>

lemma landed_part:
  assumes "map cl_code ls = line_codes"
  shows "filter (\<lambda>l. cl_code l \<in> set landed_codes) ls = take 7 ls"
    and "filter (\<lambda>l. cl_code l \<in> set deduction_codes) ls = drop 7 ls"
proof -
  have d: "set landed_codes \<inter> set deduction_codes = {}"
    by (simp add: landed_codes_def deduction_codes_def)
  have "map cl_code (take 7 ls) = landed_codes" "map cl_code (drop 7 ls) = deduction_codes"
    by (simp_all add: take_map [symmetric] drop_map [symmetric] assms line_codes_def landed_codes_def
        deduction_codes_def)
  then have t: "\<And>l. l \<in> set (take 7 ls) \<Longrightarrow> cl_code l \<in> set landed_codes"
    and u: "\<And>l. l \<in> set (drop 7 ls) \<Longrightarrow> cl_code l \<in> set deduction_codes"
    by (metis imageI list.set_map)+
  have f: "filter P ls = filter P (take 7 ls) @ filter P (drop 7 ls)" for P
    by (simp flip: filter_append)
  show "filter (\<lambda>l. cl_code l \<in> set landed_codes) ls = take 7 ls"
    unfolding f [of "\<lambda>l. cl_code l \<in> set landed_codes"]
    using t u d by (simp add: filter_id_conv filter_empty_conv) blast
  show "filter (\<lambda>l. cl_code l \<in> set deduction_codes) ls = drop 7 ls"
    unfolding f [of "\<lambda>l. cl_code l \<in> set deduction_codes"]
    using t u d by (simp add: filter_id_conv filter_empty_conv) blast
qed

definition amounts :: "cost_line list \<Rightarrow> dec list" where
  "amounts ls = List.map_filter cl_amount ls"

lemma amounts_simps [simp]:
  "amounts [] = []"
  "amounts (l # ls) = (case cl_amount l of None \<Rightarrow> amounts ls | Some a \<Rightarrow> a # amounts ls)"
  by (simp_all add: amounts_def map_filter_simps split: option.split)

lemma set_amounts: "set (amounts ls) = {a. \<exists>l\<in>set ls. cl_amount l = Some a}"
  by (induction ls) (auto split: option.splits)

lemma amounts_append: "amounts (xs @ ys) = amounts xs @ amounts ys"
  by (induction xs) (auto split: option.splits)

lemma total_of_None:
  "total_of ls = Inr t \<Longrightarrow> t = None \<longleftrightarrow> (\<exists>l\<in>set ls. \<not> cl_complete l \<or> cl_amount l = None)"
  by (auto simp: total_of_def list_ex_iff res_simps split: if_splits)

lemma total_of_exact:
  assumes "total_of ls = Inr (Some t)" and "\<And>l a. l \<in> set ls \<Longrightarrow> cl_amount l = Some a \<Longrightarrow> micro a"
    and "sum_list (map abs (amounts ls)) < 10 ^ 22"
  shows "t = sum_list (amounts ls)"
proof -
  have m: "\<And>a. a \<in> set (amounts ls) \<Longrightarrow> millionths a"
    using assms(2) by (auto simp: set_amounts intro: micro_millionths)
  have "dsum (amounts ls) = sum_list (amounts ls)" using m assms(3) by (rule dsum_exact)
  moreover have "micro (sum_list (amounts ls))"
    using m assms(3) abs_sum_list_le [of "amounts ls"]
    by (auto simp: micro_iff intro: millionths_sum_list)
  ultimately show ?thesis
    using assms(1) by (auto simp: total_of_def amounts_def res_simps quantize_id split: if_splits)
qed

lemma compute_result:
  assumes "compute_landed_cost data taxes fees off = Inr r"
  obtains landed net margin roi where
    "compute_lines data taxes fees off = Inr (lc_lines r)"
    "total_of (take 7 (lc_lines r)) = Inr landed"
    "profit_of (selling_price data) landed (drop 7 (lc_lines r)) (lc_lines r ! 0) (lc_lines r ! 1)
       = Inr (net, margin, roi)"
    "landed_cost r = landed" "net_profit r = net" "net_margin_percent r = margin"
    "roi_percent r = roi" "lc_complete r = (landed \<noteq> None)" "profit_complete r = (net \<noteq> None)"
proof -
  from assms obtain ls where ls: "compute_lines data taxes fees off = Inr ls"
    by (auto simp: compute_landed_cost_def res_simps)
  from compute_lines_wf [OF ls] have "map cl_code ls = line_codes"
    by (auto simp: wf_line_def list_all2_conv_all_nth list_eq_iff_nth_eq)
  note parts = landed_part [OF this]
  show thesis
    using assms by (auto simp: compute_landed_cost_def ls parts res_simps intro!: that)
qed

lemma compute_result_wf:
  assumes "compute_landed_cost data taxes fees off = Inr r"
  shows "map cl_code (lc_lines r) = line_codes" and "length (lc_lines r) = 12"
    and "\<And>l. l \<in> set (lc_lines r) \<Longrightarrow> wf_line (cl_code l) (selling_currency data) l \<and>
           (cl_code l \<in> set off \<longrightarrow> cl_amount l = Some 0)"
proof -
  from assms have w: "list_all2 (\<lambda>c l. wf_line c (selling_currency data) l \<and>
      (c \<in> set off \<longrightarrow> cl_amount l = Some 0)) line_codes (lc_lines r)"
    by (rule compute_result) (rule compute_lines_wf)
  then show c: "map cl_code (lc_lines r) = line_codes"
    by (auto simp: wf_line_def list_all2_conv_all_nth list_eq_iff_nth_eq)
  from arg_cong [OF c, of length] show "length (lc_lines r) = 12" by (simp add: line_codes_def)
  fix l assume "l \<in> set (lc_lines r)"
  with w obtain c where "wf_line c (selling_currency data) l" "c \<in> set off \<longrightarrow> cl_amount l = Some 0"
    by (blast dest: list_all2_member)
  then show "wf_line (cl_code l) (selling_currency data) l \<and>
      (cl_code l \<in> set off \<longrightarrow> cl_amount l = Some 0)"
    by (simp add: wf_line_def)
qed

lemma profit_of_net:
  assumes "profit_of price landed ds p f = Inr (net, margin, roi)"
  shows "net \<noteq> None \<longleftrightarrow> price \<noteq> None \<and> landed \<noteq> None \<and> (\<forall>l\<in>set ds. cl_complete l \<and> cl_amount l \<noteq> None)"
      (is ?defined)
    and "net = Some n \<Longrightarrow> \<exists>pr l d. price = Some pr \<and> landed = Some l \<and> total_of ds = Inr (Some d) \<and>
      quantize (dsub (dsub pr l) d) = Inr n" (is "_ \<Longrightarrow> ?value")
    and "margin \<noteq> None \<or> roi \<noteq> None \<Longrightarrow> net \<noteq> None"
proof -
  have "?defined \<and> (net = Some n \<longrightarrow> ?value) \<and> (margin \<noteq> None \<or> roi \<noteq> None \<longrightarrow> net \<noteq> None)"
  proof (cases "\<exists>l pr. landed = Some l \<and> price = Some pr \<and> list_all cl_complete ds")
    case False
    with assms show ?thesis
      by (auto simp: profit_of_def list_all_iff split: option.splits if_splits)
  next
    case True
    then obtain l pr where lp: "landed = Some l" "price = Some pr" "list_all cl_complete ds" by blast
    from assms lp obtain d where d: "total_of ds = Inr d" by (auto simp: profit_of_def res_simps)
    show ?thesis
    proof (cases d)
      case None
      with assms lp d total_of_None [OF d] show ?thesis by (auto simp: profit_of_def)
    next
      case (Some x)
      with total_of_None [OF d] have "\<forall>l\<in>set ds. cl_complete l \<and> cl_amount l \<noteq> None" by auto
      moreover from assms lp d Some obtain n' where "net = Some n'" "quantize (dsub (dsub pr l) x) = Inr n'"
        by (auto simp: profit_of_def res_simps)
      ultimately show ?thesis using lp d Some by auto
    qed
  qed
  then show ?defined and "net = Some n \<Longrightarrow> ?value"
    and "margin \<noteq> None \<or> roi \<noteq> None \<Longrightarrow> net \<noteq> None" by blast+
qed

section \<open>The choice of a fee rule\<close>

lemma pick_labels_spec:
  assumes "pick_labels rows ch ls = Some rs"
  shows "set rs \<subseteq> set rows"
    and "map fee_label rs = filter (\<lambda>l. \<exists>r\<in>set rows. fee_label r = l \<and> fee_channel r \<in> {ch, ''*''}) ls"
    and "r \<in> set rs \<Longrightarrow> fee_channel r = ch \<or> fee_channel r = ''*'' \<and>
           (\<forall>q\<in>set rows. fee_label q = fee_label r \<longrightarrow> fee_channel q \<noteq> ch)"
proof -
  let ?served = "\<lambda>l. \<exists>r\<in>set rows. fee_label r = l \<and> fee_channel r \<in> {ch, ''*''}"
  let ?own = "\<lambda>r. fee_channel r = ch \<or> fee_channel r = ''*'' \<and>
           (\<forall>q\<in>set rows. fee_label q = fee_label r \<longrightarrow> fee_channel q \<noteq> ch)"
  have "set rs \<subseteq> set rows \<and> map fee_label rs = filter ?served ls \<and> (\<forall>r\<in>set rs. ?own r)"
    using assms
  proof (induction ls arbitrary: rs)
    case (Cons l ls)
    let ?exact = "filter (\<lambda>r. fee_label r = l \<and> fee_channel r = ch) rows"
    let ?wild = "filter (\<lambda>r. fee_label r = l \<and> fee_channel r = ''*'') rows"
    let ?rows = "if ?exact = [] then ?wild else ?exact"
    have rows: "q \<in> set ?rows \<Longrightarrow> q \<in> set rows \<and> fee_label q = l \<and> ?own q" for q
      by (auto simp: filter_empty_conv split: if_splits)
    have served: "?served l \<longleftrightarrow> ?rows \<noteq> []"
      by (auto simp: filter_empty_conv)
    show ?case
    proof (cases ?rows)
      case Nil
      with Cons.prems have "pick_labels rows ch ls = Some rs" by (simp add: Let_def)
      then show ?thesis using Cons.IH Nil served by simp
    next
      case (Cons r more)
      with Cons.prems obtain rs' where "more = []" and rs': "pick_labels rows ch ls = Some rs'" "rs = r # rs'"
        by (auto simp: Let_def split: list.splits)
      have "?served l" using Cons served by simp
      moreover have "r \<in> set rows \<and> fee_label r = l \<and> ?own r"
        by (rule rows) (simp only: Cons list.set_intros)
      ultimately show ?thesis using Cons.IH [OF rs'(1)] rs'(2) by auto
    qed
  qed simp
  then show "set rs \<subseteq> set rows" "map fee_label rs = filter ?served ls"
    "r \<in> set rs \<Longrightarrow> ?own r" by blast+
qed

section \<open>What a line needs\<close>

text \<open>
  Which rules and inputs a line cannot do without, said of the input and the tables alone.  \<open>needs_met\<close>
  is what the code is held to: a line has an amount exactly when its needs are met.
\<close>

definition in_currency :: "string \<Rightarrow> string option \<Rightarrow> bool" where
  "in_currency cur c \<longleftrightarrow> c = Some cur"

definition given_one :: "'a option \<Rightarrow> bool" where
  "given_one x \<longleftrightarrow> x \<noteq> None"

definition positive_rate :: "dec option \<Rightarrow> bool" where
  "positive_rate r \<longleftrightarrow> (case r of None \<Rightarrow> False | Some x \<Rightarrow> 0 < x)"

text \<open>The one fee rule of a code for the channel; \<open>False\<close> where there is none or more than one.\<close>

definition one_rule :: "(fee_fact \<Rightarrow> bool) \<Rightarrow> fee_fact list \<Rightarrow> string \<Rightarrow> string \<Rightarrow> bool" where
  "one_rule ok fees c ch \<longleftrightarrow> (case pick_fees fees c ch of Some [r] \<Rightarrow> ok r | _ \<Rightarrow> False)"

definition is_rate :: "fee_fact \<Rightarrow> bool" where
  "is_rate r \<longleftrightarrow> charge r = ''RATE''"

definition threshold_usable :: "string \<Rightarrow> tax_fact \<Rightarrow> bool" where
  "threshold_usable cur tf \<longleftrightarrow> threshold_amount tf = None \<or> in_currency cur (threshold_currency tf)"

definition declared_known :: "lc_input \<Rightarrow> string \<Rightarrow> bool" where
  "declared_known data cur \<longleftrightarrow> given_one (declared_value data) \<and> in_currency cur (declared_currency data)"

definition purchase_needs :: "lc_input \<Rightarrow> string \<Rightarrow> bool" where
  "purchase_needs data cur \<longleftrightarrow> given_one (purchase_amount data) \<and>
     (case purchase_currency data of None \<Rightarrow> False | Some pc \<Rightarrow> pc \<noteq> [] \<and> (pc = cur \<or> positive_rate (fx_rate data)))"

definition duty_needs :: "lc_input \<Rightarrow> tax_fact list \<Rightarrow> string \<Rightarrow> bool" where
  "duty_needs data taxes cur \<longleftrightarrow> declared_known data cur \<and>
     (case pick_tax taxes ''DUTY'' (hs_code data) of None \<Rightarrow> False | Some tf \<Rightarrow> threshold_usable cur tf)"

definition import_taxes :: "lc_input \<Rightarrow> tax_fact list \<Rightarrow> tax_fact list" where
  "import_taxes data taxes = List.map_filter (\<lambda>t. pick_tax taxes t (hs_code data)) import_tax_types"

definition import_needs :: "lc_input \<Rightarrow> tax_fact list \<Rightarrow> string \<Rightarrow> bool" where
  "import_needs data taxes cur \<longleftrightarrow> declared_known data cur \<and> import_taxes data taxes \<noteq> [] \<and>
     (\<forall>tf\<in>set (import_taxes data taxes). threshold_usable cur tf)"

definition brokerage_needs :: "lc_input \<Rightarrow> fee_fact list \<Rightarrow> string \<Rightarrow> bool" where
  "brokerage_needs data fees cur \<longleftrightarrow>
     (case pick_fees fees ''BROKERAGE'' (channel data) of
        None \<Rightarrow> False
      | Some rs \<Rightarrow> rs \<noteq> [] \<and> (\<forall>r\<in>set rs. charge r = ''FIXED'' \<and> in_currency cur (fee_currency r)))"

definition storage_needs :: "lc_input \<Rightarrow> fee_fact list \<Rightarrow> string \<Rightarrow> bool" where
  "storage_needs data fees cur \<longleftrightarrow>
     (case storage_days data of
        None \<Rightarrow> False
      | Some days \<Rightarrow> days = 0 \<or> given_one (volume_cm3 data) \<and>
          one_rule (\<lambda>r. charge r = ''PER_CBM_DAY'' \<and> in_currency cur (fee_currency r)) fees ''STORAGE'' (channel data))"

text \<open>The first mile: a share of a shipment by weight, volume or value, or a rate card.\<close>

definition share_known :: "lc_input \<Rightarrow> string \<Rightarrow> bool \<Rightarrow> bool" where
  "share_known data cur purchase_known \<longleftrightarrow>
     (if first_mile_method data = ''WEIGHT'' then given_one (weight_g data) \<and> positive_rate (shipment_weight_g data)
      else if first_mile_method data = ''VOLUME'' then given_one (volume_cm3 data) \<and> positive_rate (shipment_volume_cm3 data)
      else (declared_known data cur \<or> purchase_known) \<and> positive_rate (shipment_value data))"

definition weight_known :: "lc_input \<Rightarrow> fee_fact \<Rightarrow> bool" where
  "weight_known data r \<longleftrightarrow> given_one (weight_g data) \<or>
     given_one (volume_cm3 data) \<and> (case volumetric_divisor r of None \<Rightarrow> False | Some d \<Rightarrow> d \<noteq> 0)"

definition first_mile_needs :: "lc_input \<Rightarrow> fee_fact list \<Rightarrow> string \<Rightarrow> bool \<Rightarrow> bool" where
  "first_mile_needs data fees cur purchase_known \<longleftrightarrow>
     (if first_mile_method data \<in> {''WEIGHT'', ''VOLUME'', ''VALUE''}
      then given_one (shipment_cost data) \<and> in_currency cur (shipment_currency data) \<and> share_known data cur purchase_known
      else first_mile_method data = ''CHARGEABLE'' \<and>
        one_rule (\<lambda>r. in_currency cur (fee_currency r) \<and>
          (charge r = ''FIXED'' \<or> charge r = ''PER_CBM'' \<and> given_one (volume_cm3 data) \<or>
           charge r = ''PER_KG'' \<and> weight_known data r)) fees ''FIRST_MILE'' (channel data))"

definition price_share_needs :: "lc_input \<Rightarrow> fee_fact list \<Rightarrow> string \<Rightarrow> bool" where
  "price_share_needs data fees c \<longleftrightarrow> given_one (selling_price data) \<and> one_rule is_rate fees c (channel data)"

definition fulfillment_needs :: "lc_input \<Rightarrow> fee_fact list \<Rightarrow> string \<Rightarrow> bool" where
  "fulfillment_needs data fees cur \<longleftrightarrow>
     one_rule (\<lambda>r. charge r = ''FIXED'' \<and> in_currency cur (fee_currency r) \<or> is_rate r \<and> given_one (selling_price data))
       fees ''FULFILLMENT'' (channel data)"

definition return_needs :: "lc_input \<Rightarrow> fee_fact list \<Rightarrow> bool" where
  "return_needs data fees \<longleftrightarrow> given_one (selling_price data) \<and>
     one_rule is_rate fees ''RETURN_RATE'' (channel data) \<and> one_rule is_rate fees ''RETURN_LOSS'' (channel data)"

text \<open>The needs of all lines; a line the tenant switched off has none, and a line that is computed from
  others needs theirs.\<close>

definition needs_met :: "lc_input \<Rightarrow> tax_fact list \<Rightarrow> fee_fact list \<Rightarrow> string list \<Rightarrow> string \<Rightarrow> bool" where
  "needs_met data taxes fees off c \<longleftrightarrow>
     (let cur = selling_currency data;
          met = (\<lambda>c needs. c \<in> set off \<or> needs);
          purchase = met ''PURCHASE'' (purchase_needs data cur);
          duty = met ''DUTY'' (duty_needs data taxes cur);
          import_tax = met ''IMPORT_TAX'' (import_needs data taxes cur \<and> duty);
          brokerage = met ''BROKERAGE'' (brokerage_needs data fees cur);
          storage = met ''STORAGE'' (storage_needs data fees cur);
          first_mile = met ''FIRST_MILE'' (first_mile_needs data fees cur purchase);
          reserve = met ''FX_RESERVE'' (one_rule is_rate fees ''FX_RESERVE'' (channel data) \<and>
            purchase \<and> first_mile \<and> duty \<and> import_tax \<and> brokerage \<and> storage)
      in map_of
        [(''PURCHASE'', purchase), (''FIRST_MILE'', first_mile), (''DUTY'', duty), (''IMPORT_TAX'', import_tax),
         (''BROKERAGE'', brokerage), (''STORAGE'', storage), (''FX_RESERVE'', reserve),
         (''COMMISSION'', met ''COMMISSION'' (price_share_needs data fees ''COMMISSION'')),
         (''PAYMENT'', met ''PAYMENT'' (price_share_needs data fees ''PAYMENT'')),
         (''FULFILLMENT'', met ''FULFILLMENT'' (fulfillment_needs data fees cur)),
         (''ADS'', met ''ADS'' (price_share_needs data fees ''ADS'')),
         (''RETURN'', met ''RETURN'' (return_needs data fees))] c = Some True)"

text \<open>Every line function against its needs.\<close>

definition priced :: "bool \<Rightarrow> cost_line res \<Rightarrow> bool" where
  "priced needs line \<longleftrightarrow> res_all (\<lambda>l. cl_amount l \<noteq> None \<longleftrightarrow> needs) line"

named_theorems pricing \<open>when a line has an amount\<close>

lemma priced_gap [pricing]: "priced needs (Inr (gap_line c cur tag src)) \<longleftrightarrow> \<not> needs"
  by (simp add: priced_def gap_line_def)

lemma priced_ok [pricing]: "needs \<Longrightarrow> priced needs (ok_line c a cur f src)"
  by (auto simp: priced_def ok_line_def res_all_def res_simps)

lemma priced_priced [pricing]: "needs \<Longrightarrow> priced needs (priced_line c a cur tag vs src)"
  by (auto simp: priced_def priced_line_def ok_line_def res_all_def res_simps)

lemma priced_bindr [pricing]: "(\<And>x. m = Inr x \<Longrightarrow> priced needs (f x)) \<Longrightarrow> priced needs (bindr m f)"
  by (auto simp: priced_def res_all_def res_simps)

lemmas needs_defs = in_currency_def given_one_def positive_rate_def one_rule_def is_rate_def threshold_usable_def declared_known_def

lemma priced_purchase: "priced (purchase_needs data cur) (purchase_line data cur)"
  by (auto simp: purchase_line_def purchase_needs_def needs_defs Let_def pricing not_less split: option.split)

lemma blocked_usable: "blocked_by_threshold x cur tf = None \<longleftrightarrow> \<not> threshold_usable cur tf"
  by (auto simp: blocked_by_threshold_def threshold_usable_def in_currency_def split: option.split)

lemma blocked_known: "blocked_by_threshold x cur tf = Some b \<Longrightarrow> threshold_usable cur tf"
  using blocked_usable [of x cur tf] by auto

lemma priced_duty: "priced (duty_needs data taxes cur) (duty_line data taxes cur)"
  by (auto simp: duty_line_def duty_needs_def declared_known_def given_one_def in_currency_def pricing blocked_usable
      dest: blocked_known split: option.split bool.split)

lemma priced_import_loop:
  "priced (\<forall>tf\<in>set tfs. threshold_usable cur tf) (import_tax_loop declared d cur tfs parts sources t)"
proof (induction declared d cur tfs parts sources t rule: import_tax_loop.induct)
  case (2 declared duty cur tf tfs parts sources tax_total)
  show ?case
  proof (cases "blocked_by_threshold declared cur tf")
    case None
    then show ?thesis using blocked_usable [of declared cur tf] by (simp add: pricing)
  next
    case (Some b)
    then have "threshold_usable cur tf" using blocked_usable [of declared cur tf] by auto
    with Some 2 show ?thesis by (cases b) (auto simp del: mapr.simps intro!: priced_bindr)
  qed
qed (simp add: pricing)

lemma priced_import:
  assumes "cl_complete duty \<longleftrightarrow> cl_amount duty \<noteq> None"
  shows "priced (import_needs data taxes cur \<and> cl_amount duty \<noteq> None) (import_tax_line data taxes cur duty)"
  using assms priced_import_loop
  by (auto simp: import_tax_line_def import_needs_def import_taxes_def declared_known_def given_one_def in_currency_def Let_def
      pricing split: option.split)

lemma priced_brokerage_loop:
  "priced (\<forall>r\<in>set rows. in_currency cur (fee_currency r)) (brokerage_loop cur rows parts sources t)"
proof (induction cur rows parts sources t rule: brokerage_loop.induct)
  case (2 cur r rows parts sources fee_total)
  then show ?case
    by (cases "fee_currency r = Some cur") (auto simp: pricing in_currency_def simp del: mapr.simps intro!: priced_bindr)
qed (simp add: pricing)

lemma priced_brokerage: "priced (brokerage_needs data fees cur) (brokerage_line data fees cur)"
proof (cases "pick_fees fees ''BROKERAGE'' (channel data)")
  case (Some rs)
  show ?thesis
  proof (cases "list_ex (\<lambda>r. charge r \<noteq> ''FIXED'') rs")
    case False
    then have "(\<forall>r\<in>set rs. charge r = ''FIXED'' \<and> in_currency cur (fee_currency r)) \<longleftrightarrow> (\<forall>r\<in>set rs. in_currency cur (fee_currency r))"
      by (auto simp: list_ex_iff)
    with Some False priced_brokerage_loop [of rs cur "[]" "[]" 0] show ?thesis
      by (auto simp: brokerage_line_def brokerage_needs_def pricing)
  qed (use Some in \<open>auto simp: brokerage_line_def brokerage_needs_def pricing list_ex_iff\<close>)
qed (simp add: brokerage_line_def brokerage_needs_def pricing)

lemma priced_storage: "priced (storage_needs data fees cur) (storage_line data fees cur)"
  by (auto simp: storage_line_def storage_needs_def needs_defs pricing split: option.split list.split)

lemma priced_rate_of_price:
  "priced (given_one price \<and> one_rule is_rate fees c ch) (rate_of_price c price fees ch cur)"
  by (auto simp: rate_of_price_def needs_defs pricing split: option.split list.split)

lemma priced_fulfillment:
  "priced (one_rule (\<lambda>r. charge r = ''FIXED'' \<and> in_currency cur (fee_currency r) \<or> is_rate r \<and> given_one price) fees ''FULFILLMENT'' ch)
     (fulfillment_line price fees ch cur)"
  by (auto simp: fulfillment_line_def needs_defs pricing split: option.split list.split)

lemma priced_return:
  "priced (given_one price \<and> one_rule is_rate fees ''RETURN_RATE'' ch \<and> one_rule is_rate fees ''RETURN_LOSS'' ch)
     (return_loss_line price fees ch cur)"
  by (auto simp: return_loss_line_def needs_defs Let_def pricing split: option.split list.split)

lemma priced_share:
  assumes "cl_complete purchase \<longleftrightarrow> cl_amount purchase \<noteq> None"
    and "first_mile_method data \<in> {''WEIGHT'', ''VOLUME'', ''VALUE''}"
  shows "priced (given_one (shipment_cost data) \<and> in_currency cur (shipment_currency data) \<and>
      share_known data cur (cl_amount purchase \<noteq> None)) (allocate_line data cur purchase)"
proof -
  obtain u whole name where m: "allocation_metrics data cur purchase = (u, whole, name)" by (cases "allocation_metrics data cur purchase")
  then have "share_known data cur (cl_amount purchase \<noteq> None) \<longleftrightarrow> u \<noteq> None \<and> positive_rate whole"
    using assms by (auto simp: allocation_metrics_def share_known_def needs_defs split: if_splits option.splits) metis
  with m show ?thesis
    by (auto simp: allocate_line_def needs_defs pricing split: option.split)
qed

lemma weights_known:
  "charge_weights data r = Inr (a, v) \<Longrightarrow> larger_weight a v \<noteq> None \<longleftrightarrow> weight_known data r"
  by (auto simp: charge_weights_def larger_weight_def weight_known_def given_one_def res_simps split: option.splits if_splits)

lemma priced_chargeable:
  "priced (one_rule (\<lambda>r. in_currency cur (fee_currency r) \<and>
      (charge r = ''FIXED'' \<or> charge r = ''PER_CBM'' \<and> given_one (volume_cm3 data) \<or>
       charge r = ''PER_KG'' \<and> weight_known data r)) fees ''FIRST_MILE'' (channel data)) (chargeable_line data fees cur)"
proof -
  have kg: "priced (weight_known data r) (bindr (charge_weights data r) (\<lambda>(a, v).
      case larger_weight a v of None \<Rightarrow> Inr (gap_line c cur t src) | Some k \<Rightarrow> f a v k))"
    if "\<And>a v k. priced True (f a v k)" for r c t src f
    unfolding priced_def res_all_def
  proof (intro allI impI)
    fix l
    assume "bindr (charge_weights data r) (\<lambda>(a, v).
      case larger_weight a v of None \<Rightarrow> Inr (gap_line c cur t src) | Some k \<Rightarrow> f a v k) = Inr l"
    then obtain a v where w: "charge_weights data r = Inr (a, v)"
      and l: "(case larger_weight a v of None \<Rightarrow> Inr (gap_line c cur t src) | Some k \<Rightarrow> f a v k) = Inr l"
      by (auto simp: res_simps)
    show "cl_amount l \<noteq> None \<longleftrightarrow> weight_known data r"
    proof (cases "larger_weight a v")
      case None
      with l weights_known [OF w] show ?thesis by (auto simp: gap_line_def)
    next
      case (Some k)
      with l that [of a v k] weights_known [OF w] show ?thesis by (simp add: priced_def)
    qed
  qed
  show ?thesis
  proof (cases "pick_fees fees ''FIRST_MILE'' (channel data)")
    case (Some rs)
    show ?thesis
    proof (cases "\<exists>r. rs = [r]")
      case True
      then obtain r where r: "rs = [r]" ..
      show ?thesis
      proof (cases "charge r = ''PER_KG'' \<and> fee_currency r = Some cur")
        case True
        with Some r kg show ?thesis
          by (simp add: chargeable_line_def one_rule_def in_currency_def Let_def) (rule kg, simp add: pricing)
      qed (use Some r in \<open>auto simp: chargeable_line_def one_rule_def in_currency_def given_one_def pricing split: option.split\<close>)
    qed (use Some in \<open>auto simp: chargeable_line_def one_rule_def pricing split: list.split\<close>)
  qed (simp add: chargeable_line_def one_rule_def pricing)
qed

lemma priced_first_mile:
  assumes "cl_complete purchase \<longleftrightarrow> cl_amount purchase \<noteq> None"
  shows "priced (first_mile_needs data fees cur (cl_amount purchase \<noteq> None)) (first_mile_line data fees cur purchase)"
  using priced_share [OF assms] priced_chargeable
  by (auto simp: first_mile_line_def first_mile_needs_def pricing)

lemma priced_reserve:
  "priced (one_rule is_rate fees ''FX_RESERVE'' ch \<and> (\<forall>l\<in>set parts. cl_complete l \<and> cl_amount l \<noteq> None))
     (fx_reserve_line fees ch cur parts)"
  unfolding fx_reserve_line_def
proof (rule priced_bindr)
  fix base
  assume "total_of parts = Inr base"
  note base = total_of_None [OF this]
  show "priced (one_rule is_rate fees ''FX_RESERVE'' ch \<and> (\<forall>l\<in>set parts. cl_complete l \<and> cl_amount l \<noteq> None))
    (case pick_fees fees ''FX_RESERVE'' ch of
        Some [r] \<Rightarrow>
          if charge r \<noteq> ''RATE'' then Inr (gap_line ''FX_RESERVE'' cur ''reserve not a rate'' (cite_fee r))
          else (case base of
              None \<Rightarrow> Inr (gap_line ''FX_RESERVE'' cur ''reserve base incomplete'' (cite_fee r))
            | Some b \<Rightarrow>
                bindr (quantize (dmul b (fee_amount r))) (\<lambda>a.
                priced_line ''FX_RESERVE'' a cur ''reserve'' [b, fee_amount r, a] (cite_fee r)))
      | _ \<Rightarrow> Inr (gap_line ''FX_RESERVE'' cur ''reserve rule'' Src_unset))"
    using base by (auto simp: one_rule_def is_rate_def pricing split: option.split list.split)
qed

lemma pricedD: "priced needs line \<Longrightarrow> line = Inr l \<Longrightarrow> cl_amount l \<noteq> None \<longleftrightarrow> needs"
  by (simp add: priced_def)

lemma gate_amount: "wf_line c cur l \<Longrightarrow> cl_amount (gate off cur l) \<noteq> None \<longleftrightarrow> c \<in> set off \<or> cl_amount l \<noteq> None"
  by (auto simp: gate_def wf_line_def)

lemma gate_complete: "wf_line c cur l \<Longrightarrow> cl_complete (gate off cur l) \<longleftrightarrow> cl_amount (gate off cur l) \<noteq> None"
  by (auto simp: gate_def wf_line_def)

lemma price_lines_needs:
  assumes "price_lines data fees cur = Inr ls"
  shows "list_all2 (\<lambda>c l. cl_amount (gate off cur l) \<noteq> None \<longleftrightarrow> c \<in> set off \<or>
    (if c = ''FULFILLMENT'' then fulfillment_needs data fees cur else if c = ''RETURN'' then return_needs data fees
     else price_share_needs data fees c)) deduction_codes ls"
proof -
  from assms obtain co pa fu ad re where ls: "ls = [co, pa, fu, ad, re]"
    and r: "rate_of_price ''COMMISSION'' (selling_price data) fees (channel data) cur = Inr co"
      "rate_of_price ''PAYMENT'' (selling_price data) fees (channel data) cur = Inr pa"
      "fulfillment_line (selling_price data) fees (channel data) cur = Inr fu"
      "rate_of_price ''ADS'' (selling_price data) fees (channel data) cur = Inr ad"
      "return_loss_line (selling_price data) fees (channel data) cur = Inr re"
    by (auto simp: price_lines_def Let_def res_simps)
  show ?thesis
    using gate_amount [OF res_allD [OF wf_rate_of_price r(1)], of off] pricedD [OF priced_rate_of_price r(1)]
      gate_amount [OF res_allD [OF wf_rate_of_price r(2)], of off] pricedD [OF priced_rate_of_price r(2)]
      gate_amount [OF res_allD [OF wf_fulfillment_line r(3)], of off] pricedD [OF priced_fulfillment r(3)]
      gate_amount [OF res_allD [OF wf_rate_of_price r(4)], of off] pricedD [OF priced_rate_of_price r(4)]
      gate_amount [OF res_allD [OF wf_return_loss_line r(5)], of off] pricedD [OF priced_return r(5)]
    by (simp add: ls deduction_codes_def price_share_needs_def fulfillment_needs_def return_needs_def)
qed

lemma compute_lines_needs:
  assumes "compute_lines data taxes fees off = Inr ls"
  shows "list_all2 (\<lambda>c l. cl_amount l \<noteq> None \<longleftrightarrow> needs_met data taxes fees off c) line_codes ls"
proof -
  let ?cur = "selling_currency data"
  let ?g = "gate off ?cur"
  from assms obtain pu du im br st fm re ps where
      r: "purchase_line data ?cur = Inr pu" "duty_line data taxes ?cur = Inr du"
        "import_tax_line data taxes ?cur (?g du) = Inr im" "brokerage_line data fees ?cur = Inr br"
        "storage_line data fees ?cur = Inr st" "first_mile_line data fees ?cur (?g pu) = Inr fm"
        "fx_reserve_line fees (channel data) ?cur [?g pu, ?g fm, ?g du, ?g im, ?g br, ?g st] = Inr re"
      and ps: "price_lines data fees ?cur = Inr ps"
      and ls: "ls = [?g pu, ?g fm, ?g du, ?g im, ?g br, ?g st, ?g re] @ map ?g ps"
    by (auto simp: compute_lines_def Let_def res_simps)
  note w = res_allD [OF wf_purchase_line r(1)] res_allD [OF wf_duty_line r(2)] res_allD [OF wf_import_tax_line r(3)]
    res_allD [OF wf_brokerage_line r(4)] res_allD [OF wf_storage_line r(5)] res_allD [OF wf_first_mile_line r(6)]
    res_allD [OF wf_fx_reserve_line r(7)]
  note a = w [THEN gate_amount, where off = off] and k = w [THEN gate_complete, where off = off]
  have pu: "cl_amount (?g pu) \<noteq> None \<longleftrightarrow> needs_met data taxes fees off ''PURCHASE''"
    and du: "cl_amount (?g du) \<noteq> None \<longleftrightarrow> needs_met data taxes fees off ''DUTY''"
    and br: "cl_amount (?g br) \<noteq> None \<longleftrightarrow> needs_met data taxes fees off ''BROKERAGE''"
    and st: "cl_amount (?g st) \<noteq> None \<longleftrightarrow> needs_met data taxes fees off ''STORAGE''"
    using a pricedD [OF priced_purchase r(1)] pricedD [OF priced_duty r(2)] pricedD [OF priced_brokerage r(4)]
      pricedD [OF priced_storage r(5)]
    by (simp_all add: needs_met_def Let_def)
  have im: "cl_amount (?g im) \<noteq> None \<longleftrightarrow> needs_met data taxes fees off ''IMPORT_TAX''"
    using a(3) pricedD [OF priced_import [OF k(2)] r(3)] du by (simp add: needs_met_def Let_def)
  have fm: "cl_amount (?g fm) \<noteq> None \<longleftrightarrow> needs_met data taxes fees off ''FIRST_MILE''"
    using a(6) pricedD [OF priced_first_mile [OF k(1)] r(6)] pu by (simp add: needs_met_def Let_def)
  have re: "cl_amount (?g re) \<noteq> None \<longleftrightarrow> needs_met data taxes fees off ''FX_RESERVE''"
    using a(7) pricedD [OF priced_reserve r(7)] k pu du br st im fm by (auto simp: needs_met_def Let_def)
  have "list_all2 (\<lambda>c l. cl_amount l \<noteq> None \<longleftrightarrow> needs_met data taxes fees off c) deduction_codes (map ?g ps)"
    using price_lines_needs [OF ps, of off] unfolding deduction_codes_def
    by (auto simp: list_all2_Cons1 needs_met_def Let_def)
  then show ?thesis
    using pu du br st im fm re by (auto simp: ls line_codes_def deduction_codes_def list_all2_Cons1)
qed

section \<open>An example input\<close>

definition demo_tax :: "string \<Rightarrow> dec \<Rightarrow> tax_fact" where
  "demo_tax t r = \<lparr>tax_type = t, hs_code_pattern = ''*'', tax_rate = r, basis_numerator = 1,
     basis_denominator = 1, threshold_amount = None, threshold_currency = None, tax_source = ''law'',
     tax_verified_at = None\<rparr>"

definition demo_fee :: "string \<Rightarrow> string \<Rightarrow> dec \<Rightarrow> fee_fact" where
  "demo_fee c kind a = \<lparr>fee_code = c, fee_channel = ''*'', fee_label = [], charge = kind, fee_amount = a,
     fee_currency = Some ''SGD'', volumetric_divisor = None, fee_source = ''card'', fee_verified_at = None\<rparr>"

definition demo_input :: lc_input where
  "demo_input = \<lparr>market = ''SG'', selling_currency = ''SGD'', channel = ''sea'',
     first_mile_method = ''CHARGEABLE'', selling_price = Some 100, purchase_amount = Some 20,
     purchase_currency = Some ''SGD'', fx_rate = None, fx_source = [], weight_g = None, volume_cm3 = None,
     hs_code = ''8517'', declared_value = Some 20, declared_currency = Some ''SGD'', shipment_cost = None,
     shipment_currency = None, shipment_weight_g = None, shipment_volume_cm3 = None,
     shipment_value = None, storage_days = Some 0\<rparr>"

definition demo_taxes :: "tax_fact list" where
  "demo_taxes = [demo_tax ''DUTY'' 0, demo_tax ''GST'' (9/100)]"

definition demo_fees :: "fee_fact list" where
  "demo_fees = [demo_fee ''BROKERAGE'' ''FIXED'' 1, demo_fee ''FIRST_MILE'' ''FIXED'' 5,
     demo_fee ''FX_RESERVE'' ''RATE'' (2/100), demo_fee ''COMMISSION'' ''RATE'' (6/100),
     demo_fee ''PAYMENT'' ''RATE'' (2/100), demo_fee ''FULFILLMENT'' ''FIXED'' (3/2),
     demo_fee ''ADS'' ''RATE'' (1/10), demo_fee ''RETURN_RATE'' ''RATE'' (1/20),
     demo_fee ''RETURN_LOSS'' ''RATE'' (1/2)]"

lemmas lc_eval = money_text_def gap_line_def ok_line_def priced_line_def total_of_def
  cite_tax_def cite_fee_def cite_def pick_tax_def blocked_by_threshold_def starts_with_def max_by_def
  import_tax_types_def map_filter_simps Let_def dec_eval

lemma demo_pick [simp]:
  "pick_fees demo_fees ''BROKERAGE'' ch = Some [demo_fee ''BROKERAGE'' ''FIXED'' 1]"
  "pick_fees demo_fees ''FIRST_MILE'' ch = Some [demo_fee ''FIRST_MILE'' ''FIXED'' 5]"
  "pick_fees demo_fees ''FX_RESERVE'' ch = Some [demo_fee ''FX_RESERVE'' ''RATE'' (2/100)]"
  "pick_fees demo_fees ''COMMISSION'' ch = Some [demo_fee ''COMMISSION'' ''RATE'' (6/100)]"
  "pick_fees demo_fees ''PAYMENT'' ch = Some [demo_fee ''PAYMENT'' ''RATE'' (2/100)]"
  "pick_fees demo_fees ''FULFILLMENT'' ch = Some [demo_fee ''FULFILLMENT'' ''FIXED'' (3/2)]"
  "pick_fees demo_fees ''ADS'' ch = Some [demo_fee ''ADS'' ''RATE'' (1/10)]"
  "pick_fees demo_fees ''RETURN_RATE'' ch = Some [demo_fee ''RETURN_RATE'' ''RATE'' (1/20)]"
  "pick_fees demo_fees ''RETURN_LOSS'' ch = Some [demo_fee ''RETURN_LOSS'' ''RATE'' (1/2)]"
  by (auto simp: pick_fees_def demo_fees_def demo_fee_def Let_def)

lemma demo_run:
  "\<exists>r. compute_landed_cost demo_input demo_taxes demo_fees [] = Inr r \<and>
     map cl_amount (lc_lines r) = map Some [20, 5, 0, 9/5, 1, 0, 139/250, 6, 2, 3/2, 10, 5/2] \<and>
     landed_cost r = Some (7089/250) \<and> net_profit r = Some (12411/250)"
  by (simp add: compute_landed_cost_def compute_lines_def demo_input_def demo_taxes_def demo_tax_def demo_fee_def lc_eval purchase_line_def duty_line_def
   import_tax_line_def brokerage_line_def storage_line_def first_mile_line_def chargeable_line_def
   fx_reserve_line_def price_lines_def rate_of_price_def fulfillment_line_def return_loss_line_def gate_def
   landed_codes_def deduction_codes_def profit_of_def invested_def)
lemma amounts_map: "map cl_amount ls = map Some xs \<Longrightarrow> amounts ls = xs"
proof (induction ls arbitrary: xs)
  case (Cons l ls)
  then show ?case by (cases xs) auto
qed simp

section \<open>Properties\<close>

text \<open>a computed result always has the twelve cost lines, once each and in the fixed order, all
  in the selling currency; a line has an amount exactly when it is complete, and a line the tenant
  has switched off is complete with amount zero.\<close>

theorem landed_cost_lines:
  assumes "compute_landed_cost data taxes fees off = Inr r"
  shows "map cl_code (lc_lines r) = line_codes \<and> lc_currency r = selling_currency data \<and>
    (\<forall>l\<in>set (lc_lines r). cl_currency l = selling_currency data \<and>
       (cl_complete l \<longleftrightarrow> cl_amount l \<noteq> None) \<and>
       (cl_code l \<in> set off \<longrightarrow> cl_amount l = Some 0 \<and> cl_complete l))"
proof -
  have "lc_currency r = selling_currency data"
    using assms by (auto simp: compute_landed_cost_def res_simps)
  then show ?thesis
    using compute_result_wf(1) [OF assms] compute_result_wf(3) [OF assms] by (auto simp: wf_line_def)
qed

theorem landed_cost_lines_witness:
  "\<exists>r. compute_landed_cost demo_input demo_taxes demo_fees [] = Inr r \<and> map cl_code (lc_lines r) = line_codes"
  using landed_cost_lines demo_run by blast

text \<open>C15: a missing rule or input is never replaced by a guess: a line has an amount exactly when the rules
  and inputs it needs are there (\<open>needs_met\<close>, which reads the input and the tables only) or the tenant has
  switched it off, and then it is zero; the landed cost exists exactly when the needs of its seven lines are
  met, the net profit exactly when a selling price is given and the needs of all twelve are met, and the
  margin and the return on investment only when the net profit exists.\<close>

theorem landed_cost_never_guessed:
  assumes "compute_landed_cost data taxes fees off = Inr r"
  shows "list_all2 (\<lambda>c l. cl_code l = c \<and> (cl_amount l \<noteq> None \<longleftrightarrow> needs_met data taxes fees off c) \<and>
      (c \<in> set off \<longrightarrow> cl_amount l = Some 0)) line_codes (lc_lines r) \<and>
    (landed_cost r \<noteq> None \<longleftrightarrow> (\<forall>c\<in>set landed_codes. needs_met data taxes fees off c)) \<and>
    (net_profit r \<noteq> None \<longleftrightarrow> selling_price data \<noteq> None \<and> (\<forall>c\<in>set line_codes. needs_met data taxes fees off c)) \<and>
    (lc_complete r \<longleftrightarrow> landed_cost r \<noteq> None) \<and> (profit_complete r \<longleftrightarrow> net_profit r \<noteq> None) \<and>
    (net_profit r = None \<longrightarrow> net_margin_percent r = None \<and> roi_percent r = None)"
proof -
  let ?ls = "lc_lines r" and ?met = "needs_met data taxes fees off"
  note wf = compute_result_wf [OF assms]
  from assms obtain landed net margin roi where r:
      "compute_lines data taxes fees off = Inr ?ls" "total_of (take 7 ?ls) = Inr landed"
      "profit_of (selling_price data) landed (drop 7 ?ls) (?ls ! 0) (?ls ! 1) = Inr (net, margin, roi)"
      "landed_cost r = landed" "net_profit r = net" "net_margin_percent r = margin"
      "roi_percent r = roi" "lc_complete r = (landed \<noteq> None)" "profit_complete r = (net \<noteq> None)"
    by (rule compute_result)
  note needs = compute_lines_needs [OF r(1)]
  have lines: "list_all2 (\<lambda>c l. cl_code l = c \<and> (cl_amount l \<noteq> None \<longleftrightarrow> ?met c) \<and> (c \<in> set off \<longrightarrow> cl_amount l = Some 0))
      line_codes ?ls"
    using needs compute_lines_wf [OF r(1)] by (auto simp: list_all2_conv_all_nth wf_line_def)
  have known: "(\<forall>l\<in>set ls. cl_complete l) \<longleftrightarrow> (\<forall>c\<in>set cs. ?met c)"
    if "list_all2 (\<lambda>c l. cl_code l = c \<and> (cl_amount l \<noteq> None \<longleftrightarrow> ?met c) \<and> (c \<in> set off \<longrightarrow> cl_amount l = Some 0)) cs ls"
      and "set ls \<subseteq> set ?ls" for cs ls
    using that
  proof (induction rule: list_all2_induct)
    case (Cons c cs l ls)
    then show ?case using wf(3) [of l] by (auto simp: wf_line_def)
  qed simp
  have "list_all2 (\<lambda>c l. cl_code l = c \<and> (cl_amount l \<noteq> None \<longleftrightarrow> ?met c) \<and> (c \<in> set off \<longrightarrow> cl_amount l = Some 0))
      landed_codes (take 7 ?ls)"
    using list_all2_takeI [OF lines, of 7] by (simp add: line_codes_def landed_codes_def)
  from known [OF this] set_take_subset [of 7 ?ls] have first: "(\<forall>l\<in>set (take 7 ?ls). cl_complete l) \<longleftrightarrow> (\<forall>c\<in>set landed_codes. ?met c)"
    by blast
  have amount: "\<And>l. l \<in> set ?ls \<Longrightarrow> cl_complete l \<longleftrightarrow> cl_amount l \<noteq> None" using wf(3) by (auto simp: wf_line_def)
  have split: "set ?ls = set (take 7 ?ls) \<union> set (drop 7 ?ls)" by (metis append_take_drop_id set_append)
  have l: "landed \<noteq> None \<longleftrightarrow> (\<forall>l\<in>set (take 7 ?ls). cl_complete l)" using total_of_None [OF r(2)] amount split by auto
  moreover have "net \<noteq> None \<longleftrightarrow> selling_price data \<noteq> None \<and> (\<forall>l\<in>set ?ls. cl_complete l)"
    using profit_of_net(1) [OF r(3)] l amount split by auto
  moreover have "net = None \<longrightarrow> margin = None \<and> roi = None" using profit_of_net(3) [OF r(3)] by blast
  ultimately show ?thesis using r(4-9) lines first known [OF lines] by simp
qed

theorem landed_cost_never_guessed_witness:
  "\<exists>r. compute_landed_cost demo_input demo_taxes demo_fees [] = Inr r \<and>
     list_all (needs_met demo_input demo_taxes demo_fees []) line_codes"
proof -
  from demo_run obtain r where r: "compute_landed_cost demo_input demo_taxes demo_fees [] = Inr r"
    and n: "net_profit r = Some (12411/250)" by blast
  from landed_cost_never_guessed [OF r] n have "list_all (needs_met demo_input demo_taxes demo_fees []) line_codes"
    by (auto simp: list_all_iff)
  with r show ?thesis by blast
qed

text \<open>the accounts balance to the last millionth: while the amounts stay below ten to the 22, the
  landed cost is the exact sum of its seven lines and the net profit is the selling price minus the
  exact sum of all twelve; intermediate rounding loses nothing.\<close>

theorem landed_cost_identity:
  assumes "compute_landed_cost data taxes fees off = Inr r"
    and "selling_price data = Some p" and "millionths p"
    and "\<bar>p\<bar> + sum_list (map abs (amounts (lc_lines r))) < 10 ^ 22"
    and "net_profit r = Some n"
  shows "landed_cost r = Some (sum_list (amounts (take 7 (lc_lines r)))) \<and>
    n = p - sum_list (amounts (lc_lines r))"
proof -
  note wf = compute_result_wf [OF assms(1)]
  let ?a = "amounts (take 7 (lc_lines r))" and ?b = "amounts (drop 7 (lc_lines r))"
  have ab: "amounts (lc_lines r) = ?a @ ?b"
    by (simp flip: amounts_append)
  have micro: "\<And>l a. l \<in> set (lc_lines r) \<Longrightarrow> cl_amount l = Some a \<Longrightarrow> micro a"
    using wf(3) by (auto simp: wf_line_def)
  have nn: "0 \<le> sum_list (map abs xs)" for xs :: "rat list" by (induction xs) auto
  have bound: "\<bar>p\<bar> + (sum_list (map abs ?a) + sum_list (map abs ?b)) < 10 ^ 22"
    using assms(4) by (simp add: ab)
  from assms(1) obtain landed net margin roi where r:
      "total_of (take 7 (lc_lines r)) = Inr landed"
      "profit_of (selling_price data) landed (drop 7 (lc_lines r)) (lc_lines r ! 0) (lc_lines r ! 1)
         = Inr (net, margin, roi)" "landed_cost r = landed" "net_profit r = net"
    by (rule compute_result)
  from profit_of_net(2) [OF r(2), of n] assms(2,5) r(4) obtain l d where
      l: "landed = Some l" and d: "total_of (drop 7 (lc_lines r)) = Inr (Some d)"
      and q: "quantize (dsub (dsub p l) d) = Inr n"
    by auto
  have b2: "sum_list (map abs ?a) < 10 ^ 22" "sum_list (map abs ?b) < 10 ^ 22"
    using bound nn [of ?a] nn [of ?b] by linarith+
  have lsum: "l = sum_list ?a"
    using r(1) unfolding l by (rule total_of_exact [OF _ micro b2(1)]) (rule in_set_takeD)
  have dsum: "d = sum_list ?b"
    using d by (rule total_of_exact [OF _ micro b2(2)]) (rule in_set_dropD)
  have "millionths x" if "x \<in> set ?a \<or> x \<in> set ?b" for x
    using that by (auto simp: set_amounts intro: micro_millionths [OF micro] dest: in_set_takeD in_set_dropD)
  then have m: "millionths l" "millionths d"
    unfolding lsum dsum by (simp_all add: millionths_sum_list)
  have absl: "\<bar>l\<bar> \<le> sum_list (map abs ?a)" "\<bar>d\<bar> \<le> sum_list (map abs ?b)"
    unfolding lsum dsum by (rule abs_sum_list_le)+
  have b1: "\<bar>p - l\<bar> < 10 ^ 22" "\<bar>p - l - d\<bar> < 10 ^ 22"
    using absl bound nn [of ?b] by linarith+
  have "dsub p l = p - l" using assms(3) m(1) b1(1) by (rule dsub_exact)
  moreover have "dsub (p - l) d = p - l - d"
    using millionths_diff [OF assms(3) m(1)] m(2) b1(2) by (rule dsub_exact)
  moreover have "micro (p - l - d)"
    using b1(2) assms(3) m by (simp add: micro_iff millionths_diff)
  ultimately have "n = p - l - d" using q by (simp add: quantize_id)
  then show ?thesis using r(3) l lsum dsum ab by simp
qed

theorem landed_cost_identity_witness:
  "\<exists>r. compute_landed_cost demo_input demo_taxes demo_fees [] = Inr r \<and>
     landed_cost r = Some (20 + 5 + 0 + 9/5 + 1 + 0 + 139/250)"
proof -
  from demo_run obtain r where r: "compute_landed_cost demo_input demo_taxes demo_fees [] = Inr r"
    and a: "map cl_amount (lc_lines r) = map Some [20, 5, 0, 9/5, 1, 0, 139/250, 6, 2, 3/2, 10, 5/2]"
    and n: "net_profit r = Some (12411/250)" by blast
  have "map cl_amount (take 7 (lc_lines r)) = map Some [20, 5, 0, 9/5, 1, 0, 139/250]"
    by (simp add: take_map [symmetric] a)
  note amounts_map [OF this]
  moreover have "selling_price demo_input = Some 100" by (simp add: demo_input_def)
  moreover have "millionths 100" by (rule micro_millionths, rule micro_eval) simp_all
  ultimately show ?thesis
    using landed_cost_identity [OF r, of 100 "12411/250"] r n amounts_map [OF a] by auto
qed

text \<open>the rule of a fee: what \<open>pick_fees\<close> returns are stored rules of the asked code, one per label
  in label order, one for every label that has a rule for the channel or a wildcard rule, and a
  wildcard rule is taken only where the channel has none of its own for the label.\<close>

theorem pick_fees_prefers_channel:
  assumes "pick_fees fees c ch = Some rs"
  shows "set rs \<subseteq> {f \<in> set fees. fee_code f = c} \<and> distinct (map fee_label rs) \<and>
    sorted (map fee_label rs) \<and>
    (\<forall>f\<in>set fees. fee_code f = c \<and> fee_channel f \<in> {ch, ''*''} \<longrightarrow> fee_label f \<in> fee_label ` set rs) \<and>
    (\<forall>r\<in>set rs. fee_channel r = ch \<or> fee_channel r = ''*'' \<and>
       (\<forall>q\<in>set fees. fee_code q = c \<and> fee_label q = fee_label r \<longrightarrow> fee_channel q \<noteq> ch))"
proof -
  let ?rows = "filter (\<lambda>r. fee_code r = c) fees" and ?ls = "sort (remdups (map fee_label
      (filter (\<lambda>r. fee_code r = c) fees)))"
  from assms have p: "pick_labels ?rows ch ?ls = Some rs" by (simp add: pick_fees_def Let_def)
  note spec = pick_labels_spec [OF p]
  have "distinct (map fee_label rs)" "sorted (map fee_label rs)"
    unfolding spec(2) by (simp_all add: sorted_filter [of id, simplified])
  moreover have "fee_label f \<in> set (map fee_label rs)"
    if "f \<in> set fees" "fee_code f = c" "fee_channel f \<in> {ch, ''*''}" for f
    unfolding spec(2) using that by auto
  ultimately show ?thesis using spec(1,3) by auto
qed

theorem pick_fees_prefers_channel_witness:
  "pick_fees demo_fees ''ADS'' ''sea'' = Some [demo_fee ''ADS'' ''RATE'' (1/10)] \<and>
     sorted (map fee_label [demo_fee ''ADS'' ''RATE'' (1/10)])"
  using pick_fees_prefers_channel [of demo_fees "''ADS''" "''sea''" "[demo_fee ''ADS'' ''RATE'' (1/10)]"]
  by simp

end
