(* ===== verification/Purchase.thy ===== *)
theory Purchase imports LandedCost begin

text \<open>
  \<^verbatim>\<open>app/engines/purchase.py\<close>: the state machine of a purchase order, what a receipt does to a line,
  the split of a first-mile bill over the lines of a shipment, and the moving average of the cost
  pool.  A \<open>PurchaseRuleError\<close> keeps its code; a printed formula is kept as its numbers.
\<close>

section \<open>Order lines and status\<close>

definition po_statuses :: "string list" where
  "po_statuses = [''DRAFT'', ''PENDING'', ''APPROVED'', ''PARTIAL'', ''RECEIVED'', ''CLOSED'', ''CANCELLED'']"

definition receipt_dispositions :: "string list" where
  "receipt_dispositions = [''RECEIVE'', ''SHORT'']"

definition alloc_methods :: "string list" where
  "alloc_methods = [''WEIGHT'', ''VOLUME'', ''VALUE'']"

definition open_for_receipt :: "string list" where
  "open_for_receipt = [''APPROVED'', ''PARTIAL'']"

definition open_for_edit :: "string list" where
  "open_for_edit = [''DRAFT'', ''PENDING'', ''APPROVED'', ''PARTIAL'']"

definition open_qty :: "int \<Rightarrow> int \<Rightarrow> int \<Rightarrow> int" where
  "open_qty ordered received short = max 0 (ordered - received - short)"

definition assert_transition :: "string \<Rightarrow> string \<Rightarrow> int \<Rightarrow> string res" where
  "assert_transition status action received =
     (if action = ''submit'' \<and> status = ''DRAFT'' then Inr ''PENDING''
      else if action = ''reject'' \<and> status = ''PENDING'' then Inr ''DRAFT''
      else if action = ''approve'' \<and> status = ''PENDING'' then Inr ''APPROVED''
      else if action = ''cancel'' \<and> status \<in> set [''DRAFT'', ''PENDING''] then Inr ''CANCELLED''
      else if action = ''cancel'' \<and> status = ''APPROVED'' then
        (if 0 < received then Inl (PurchaseRuleError ''state'') else Inr ''CANCELLED'')
      else if action = ''close'' \<and> status \<in> set [''PARTIAL'', ''RECEIVED''] then Inr ''CLOSED''
      else Inl (PurchaseRuleError ''state''))"

definition assert_can_edit :: "string \<Rightarrow> unit res" where
  "assert_can_edit status =
     (if status \<notin> set open_for_edit then Inl (PurchaseRuleError ''state'') else Inr ())"

definition assert_can_receive :: "string \<Rightarrow> unit res" where
  "assert_can_receive status =
     (if status \<notin> set open_for_receipt then Inl (PurchaseRuleError ''state'') else Inr ())"

definition transit_delta_for_qty_change :: "string \<Rightarrow> int \<Rightarrow> int \<Rightarrow> int \<Rightarrow> int \<Rightarrow> int res" where
  "transit_delta_for_qty_change status ordered received short new_ordered =
     (if new_ordered \<le> 0 then Inl (PurchaseRuleError ''receipt'')
      else if new_ordered < received + short then Inl (PurchaseRuleError ''receipt'')
      else bindr (assert_can_edit status) (\<lambda>_.
        if status \<in> set [''DRAFT'', ''PENDING''] then Inr 0
        else Inr (open_qty new_ordered received short - open_qty ordered received short)))"

record receipt_plan =
  receive_qty :: int
  transit_release :: int
  new_received :: int
  new_short :: int

definition plan_receive :: "int \<Rightarrow> int \<Rightarrow> int \<Rightarrow> int \<Rightarrow> string \<Rightarrow> bool \<Rightarrow> receipt_plan res" where
  "plan_receive ordered received short quantity disposition allow_over =
     (if disposition \<notin> set receipt_dispositions then Inl (PurchaseRuleError ''receipt'')
      else
        let remaining = open_qty ordered received short in
        if disposition = ''SHORT'' then
          (if remaining \<le> 0 then Inl (PurchaseRuleError ''receipt'')
           else Inr \<lparr>receive_qty = 0, transit_release = remaining, new_received = received,
                     new_short = short + remaining\<rparr>)
        else if quantity \<le> 0 then Inl (PurchaseRuleError ''receipt'')
        else if remaining < quantity \<and> \<not> allow_over then Inl (PurchaseRuleError ''receipt'')
        else Inr \<lparr>receive_qty = quantity, transit_release = min quantity remaining,
                  new_received = received + quantity, new_short = short\<rparr>)"

definition next_receipt_status :: "(int \<times> int \<times> int) list \<Rightarrow> string" where
  "next_receipt_status lines =
     (if lines \<noteq> [] \<and> list_all (\<lambda>(ordered, received, short). open_qty ordered received short = 0) lines
      then ''RECEIVED''
      else if list_ex (\<lambda>(_, received, short). received \<noteq> 0 \<or> short \<noteq> 0) lines then ''PARTIAL''
      else ''APPROVED'')"

definition transit_region :: "string \<Rightarrow> string res" where
  "transit_region warehouse_type =
     (if warehouse_type = ''LOCAL'' then Inr ''DOMESTIC''
      else if warehouse_type \<in> set [''OVERSEAS'', ''FBA''] then Inr ''OVERSEAS''
      else Inl (PurchaseRuleError ''state''))"

definition should_move_stock :: "int option \<Rightarrow> int option \<Rightarrow> string option \<Rightarrow> bool" where
  "should_move_stock from_id to_id po_warehouse_type =
     (if from_id = None \<or> to_id = None \<or> from_id = to_id then False
      else po_warehouse_type \<notin> {Some ''OVERSEAS'', Some ''FBA''})"

section \<open>Splitting a first-mile bill\<close>

record alloc_input =
  ai_sku :: int
  ai_quantity :: int
  ai_weight_g :: dec
  ai_volume_cm3 :: dec
  ai_unit_value :: dec

record alloc_output =
  ao_sku :: int
  ao_quantity :: int
  allocated_cost :: dec
  unit_cost :: dec
  ao_formula :: explanation
  ao_source :: src_note

definition metric :: "string \<Rightarrow> alloc_input \<Rightarrow> dec res" where
  "metric alloc_by line =
     (if ai_quantity line \<le> 0 then Inl (PurchaseRuleError ''receipt'')
      else
        let unit = (if alloc_by = ''WEIGHT'' then ai_weight_g line
                    else if alloc_by = ''VOLUME'' then ai_volume_cm3 line
                    else ai_unit_value line)
        in if unit \<le> 0 then Inl (PurchaseRuleError ''receipt'')
           else Inr (dmul unit (of_int (ai_quantity line))))"

definition winner_index :: "dec list \<Rightarrow> nat" where
  "winner_index metrics = max_by (\<lambda>i. (metrics ! i, - int i)) 0 [1..<length metrics]"

definition share_of :: "dec \<Rightarrow> dec \<Rightarrow> dec \<Rightarrow> dec res" where
  "share_of bill whole m = bindr (ddiv (dmul bill m) whole) quantize"

text \<open>One output row: the share, the unit cost and the numbers its formula prints.\<close>

definition alloc_row ::
  "dec \<Rightarrow> dec \<Rightarrow> dec list \<Rightarrow> dec list \<Rightarrow> nat \<Rightarrow> dec \<Rightarrow> nat \<times> alloc_input \<Rightarrow> alloc_output res" where
  "alloc_row bill whole metrics shares winner remainder row =
     (let i = fst row; line = snd row; share = shares ! i in
      bindr (ddiv share (of_int (ai_quantity line))) (\<lambda>u.
      bindr (quantize u) (\<lambda>unit.
      bindr (mapr money_text [bill, metrics ! i, whole, share]) (\<lambda>vs.
      bindr (mapr money_text (if i = winner \<and> remainder \<noteq> 0 then [remainder] else [])) (\<lambda>rs.
      bindr (mapr money_text [share, unit]) (\<lambda>us.
      Inr \<lparr>ao_sku = ai_sku line, ao_quantity = ai_quantity line, allocated_cost = share,
           unit_cost = unit, ao_formula = Note ''first mile share'' (vs @ rs @ us) [],
           ao_source = Src_shipment\<rparr>))))))"

definition allocate :: "string \<Rightarrow> dec \<Rightarrow> string \<Rightarrow> alloc_input list \<Rightarrow> alloc_output list res" where
  "allocate alloc_by bill currency lines =
     (if alloc_by \<notin> set alloc_methods then Inl (PurchaseRuleError ''receipt'')
      else if bill \<le> 0 then Inl (PurchaseRuleError ''receipt'')
      else if lines = [] then Inl (PurchaseRuleError ''receipt'')
      else
        bindr (mapr (metric alloc_by) lines) (\<lambda>metrics.
        let whole = dsum metrics in
        if whole \<le> 0 then Inl (PurchaseRuleError ''receipt'')
        else
          bindr (mapr (share_of bill whole) metrics) (\<lambda>shares.
          bindr (quantize (dsub bill (dsum shares))) (\<lambda>remainder.
          let winner = winner_index metrics in
          bindr (if remainder \<noteq> 0
                 then bindr (quantize (dadd (shares ! winner) remainder)) (\<lambda>s. Inr (shares[winner := s]))
                 else Inr shares) (\<lambda>shares'.
          mapr (alloc_row bill whole metrics shares' winner remainder) (enumerate 0 lines))))))"

section \<open>Binding the shipment to the landed cost, and the cost pool\<close>

definition bind_line :: "explanation \<Rightarrow> src_note \<Rightarrow> cost_line \<Rightarrow> cost_line" where
  "bind_line formula src line =
     (if cl_code line = ''FIRST_MILE'' \<and> cl_complete line \<and> cl_amount line \<noteq> None
      then line\<lparr>cl_formula := formula, cl_source := src, cl_complete := True\<rparr> else line)"

definition bind_first_mile :: "lc_result \<Rightarrow> explanation \<Rightarrow> src_note \<Rightarrow> lc_result res" where
  "bind_first_mile result formula src =
     (let lines = map (bind_line formula src) (lc_lines result);
          landed_parts = filter (\<lambda>l. cl_code l \<in> set landed_codes) lines
      in if list_ex (\<lambda>l. \<not> cl_complete l \<or> cl_amount l = None) landed_parts
         then Inr \<lparr>lc_lines = lines, lc_currency = lc_currency result, landed_cost = None,
                   net_profit = None, net_margin_percent = None, roi_percent = None,
                   lc_complete = False, profit_complete = False\<rparr>
         else
           bindr (quantize (dsum (List.map_filter cl_amount landed_parts))) (\<lambda>landed.
           Inr \<lparr>lc_lines = lines, lc_currency = lc_currency result, landed_cost = Some landed,
                net_profit = None, net_margin_percent = None, roi_percent = None,
                lc_complete = True, profit_complete = False\<rparr>))"

definition incomplete_landed :: "lc_result \<Rightarrow> string list" where
  "incomplete_landed result =
     map cl_code (filter (\<lambda>l. cl_code l \<in> set landed_codes \<and> \<not> cl_complete l) (lc_lines result))"

definition weighted_unit :: "int \<Rightarrow> dec \<Rightarrow> int \<Rightarrow> dec \<Rightarrow> dec res" where
  "weighted_unit old_qty old_unit new_qty new_unit =
     (if new_qty \<le> 0 then Inl (PurchaseRuleError ''receipt'')
      else if old_qty \<le> 0 then quantize new_unit
      else
        bindr (ddiv (dadd (dmul (of_int old_qty) old_unit) (dmul (of_int new_qty) new_unit))
                 (of_int (old_qty + new_qty))) quantize)"

definition average_formula ::
  "string \<Rightarrow> int \<Rightarrow> dec \<Rightarrow> int \<Rightarrow> dec \<Rightarrow> dec \<Rightarrow> string \<Rightarrow> explanation res" where
  "average_formula label old_qty old_unit new_qty new_unit averaged currency =
     (if old_qty \<le> 0
      then bindr (money_text new_unit) (\<lambda>n. Inr (Note ''first arrival'' [n] []))
      else
        bindr (mapr money_text [old_unit, new_unit, averaged]) (\<lambda>vs.
        Inr (Note ''moving average'' ([of_int old_qty, of_int new_qty, of_int (old_qty + new_qty)] @ vs) [])))"

section \<open>Properties of the split\<close>

lemma mapr_alloc_row:
  assumes "mapr (alloc_row bill whole ms ss w r) rows = Inr outs"
  shows "map allocated_cost outs = map (\<lambda>x. ss ! fst x) rows \<and>
    map (\<lambda>ao. (ao_sku ao, ao_quantity ao)) outs = map (\<lambda>x. (ai_sku (snd x), ai_quantity (snd x))) rows"
  using assms by (induction rows arbitrary: outs) (auto simp: alloc_row_def Let_def res_simps)

lemma map_nth_enumerate:
  "length ss = length xs \<Longrightarrow> map (\<lambda>x. ss ! fst x) (enumerate 0 xs) = ss"
  by (rule nth_equalityI) (simp_all add: nth_enumerate_eq)

lemma snd_enumerate_comp: "map (\<lambda>x. g (snd x)) (enumerate n xs) = map g xs"
  by (induction xs arbitrary: n) auto

lemma winner_index_bound: "ms \<noteq> [] \<Longrightarrow> winner_index ms < length ms"
  using max_by_props [of "\<lambda>i. (ms ! i, - int i)" 0 "[1..<length ms]"]
  by (auto simp: winner_index_def)

lemma metric_nonneg:
  assumes "metric m line = Inr x" shows "0 \<le> x" and "ctx x = x"
  using assms by (auto simp: metric_def Let_def dmul_def ctx_nonneg split: if_splits)

lemma foldl_dadd_ge:
  assumes "\<forall>x\<in>set xs. 0 \<le> x \<and> ctx x = x" and "0 \<le> a" and "ctx a = a"
  shows "a \<le> foldl dadd a xs \<and> (\<forall>x\<in>set xs. x \<le> foldl dadd a xs)"
  using assms
proof (induction xs arbitrary: a)
  case (Cons x xs)
  have "ctx x \<le> dadd a x" "ctx a \<le> dadd a x"
    using ctx_mono [of x "a + x"] ctx_mono [of a "a + x"] Cons.prems by (auto simp: dadd_def)
  with Cons.prems have le: "x \<le> dadd a x" "a \<le> dadd a x" by auto
  have "dadd a x \<le> foldl dadd (dadd a x) xs \<and> (\<forall>y\<in>set xs. y \<le> foldl dadd (dadd a x) xs)"
    using Cons.prems le by (intro Cons.IH) (auto simp: dadd_def)
  with le show ?case by auto
qed simp

lemma share_of_bounds:
  assumes "share_of bill whole m = Inr s" and "0 \<le> bill" and "0 \<le> m" and "m \<le> whole" and "0 < whole"
  shows "micro s" and "0 \<le> s" and "s \<le> 100 * bill + 1"
proof -
  from assms(1,5) have q: "quantize (ctx (dmul bill m / whole)) = Inr s"
    by (simp add: share_of_def ddiv_def)
  then show "micro s" by (rule quantize_micro)
  have "0 \<le> dmul bill m" using assms(2,3) by (simp add: dmul_def ctx_nonneg)
  then have x0: "0 \<le> dmul bill m / whole" using assms(5) by simp
  then show "0 \<le> s" using q by (auto intro: quantize_nonneg ctx_nonneg)
  have "dmul bill m \<le> 10 * (bill * m)" unfolding dmul_def using assms(2,3) by (intro ctx_le) simp
  also have "\<dots> \<le> 10 * (bill * whole)" using assms(2,4) by (simp add: mult_left_mono)
  finally have "dmul bill m / whole \<le> 10 * bill" using assms(5) by (simp add: pos_divide_le_eq)
  with ctx_le [OF x0] have "ctx (dmul bill m / whole) \<le> 100 * bill" by linarith
  with quantize_close [OF q] show "s \<le> 100 * bill + 1" by linarith
qed

lemma sum_list_le_length:
  fixes xs :: "rat list"
  assumes "\<And>x. x \<in> set xs \<Longrightarrow> 0 \<le> x \<and> x \<le> c"
  shows "0 \<le> sum_list xs \<and> sum_list xs \<le> of_nat (length xs) * c"
  using assms
proof (induction xs)
  case (Cons x xs)
  then have "0 \<le> sum_list xs \<and> sum_list xs \<le> of_nat (length xs) * c" "0 \<le> x" "x \<le> c" by simp_all
  then show ?case by (simp add: distrib_right)
qed simp

lemma sum_list_set_nth:
  fixes xs :: "rat list"
  shows "w < length xs \<Longrightarrow> sum_list (xs[w := s]) = sum_list xs + s - xs ! w"
proof (induction xs arbitrary: w)
  case (Cons x xs)
  then show ?case by (cases w) auto
qed simp

text \<open>The adjusted shares add up to the bill.\<close>

lemma shares_balance:
  fixes ss :: "dec list"
  assumes ss: "\<And>s. s \<in> set ss \<Longrightarrow> micro s \<and> 0 \<le> s \<and> s \<le> 10 ^ 15" and n: "length ss \<le> 10 ^ 6"
    and bill: "millionths bill" "0 < bill" "bill < 10 ^ 12"
    and r: "quantize (dsub bill (dsum ss)) = Inr r" and w: "w < length ss"
    and s: "quantize (dadd (ss ! w) r) = Inr s"
  shows "r = bill - sum_list ss" and "sum_list (ss[w := s]) = bill"
proof -
  have le: "0 \<le> sum_list ss" "sum_list ss \<le> of_nat (length ss) * 10 ^ 15"
    using sum_list_le_length [of ss "10 ^ 15"] ss by auto
  have "(of_nat (length ss) :: rat) \<le> 10 ^ 6"
    using n by (metis of_nat_le_iff of_nat_numeral of_nat_power)
  with le have sum: "0 \<le> sum_list ss" "sum_list ss \<le> 10 ^ 21" by auto
  have abs: "map abs ss = ss" using ss by (auto intro!: map_idI)
  have m: "millionths (sum_list ss)" using ss by (auto intro: millionths_sum_list micro_millionths)
  have "dsum ss = sum_list ss"
    using ss sum by (intro dsum_exact) (auto simp: abs intro: micro_millionths)
  moreover have d: "\<bar>bill - sum_list ss\<bar> < 10 ^ 22" using sum bill by (simp add: abs_less_iff)
  ultimately have "dsub bill (dsum ss) = bill - sum_list ss"
    using bill(1) m by (simp add: dsub_exact)
  moreover have mb: "micro (bill - sum_list ss)"
    using d bill(1) m by (simp add: micro_iff millionths_diff)
  ultimately show r': "r = bill - sum_list ss" using r by (simp add: quantize_id)
  have sw: "micro (ss ! w)" "0 \<le> ss ! w" "ss ! w \<le> 10 ^ 15" using ss w by (auto simp: nth_mem)
  have b: "\<bar>ss ! w + r\<bar> < 10 ^ 22" using sw sum bill unfolding r' by (simp add: abs_less_iff)
  have "dadd (ss ! w) r = ss ! w + r"
    using sw(1) mb b by (intro dadd_exact) (auto simp: r' intro: micro_millionths)
  moreover have "micro (ss ! w + r)"
    using b sw(1) mb by (simp add: micro_iff r' millionths_add micro_millionths)
  ultimately have "s = ss ! w + r" using s by (simp add: quantize_id)
  then show "sum_list (ss[w := s]) = bill"
    using w by (simp add: sum_list_set_nth r')
qed

lemma bind_line_keeps [simp]:
  "cl_code (bind_line f s l) = cl_code l" "cl_amount (bind_line f s l) = cl_amount l"
  "cl_complete (bind_line f s l) = cl_complete l" "cl_currency (bind_line f s l) = cl_currency l"
  by (simp_all add: bind_line_def)

lemma bind_filter:
  "filter (\<lambda>l. cl_code l \<in> A) (map (bind_line f s) ls) = map (bind_line f s) (filter (\<lambda>l. cl_code l \<in> A) ls)"
  by (induction ls) auto

lemma bind_amounts: "List.map_filter cl_amount (map (bind_line f s) ls) = List.map_filter cl_amount ls"
  by (induction ls) (auto simp: map_filter_simps split: option.splits)

lemma bind_total_of: "total_of (map (bind_line f s) ls) = total_of ls"
proof -
  have "list_ex (\<lambda>l. \<not> cl_complete l \<or> cl_amount l = None) (map (bind_line f s) ls) =
      list_ex (\<lambda>l. \<not> cl_complete l \<or> cl_amount l = None) ls"
    by (induction ls) auto
  then show ?thesis by (simp only: total_of_def bind_amounts)
qed

lemma bind_first_mile_total:
  "bind_first_mile r f s =
     bindr (total_of (filter (\<lambda>l. cl_code l \<in> set landed_codes) (lc_lines r))) (\<lambda>landed.
     Inr \<lparr>lc_lines = map (bind_line f s) (lc_lines r), lc_currency = lc_currency r, landed_cost = landed,
          net_profit = None, net_margin_percent = None, roi_percent = None,
          lc_complete = (landed \<noteq> None), profit_complete = False\<rparr>)"
proof -
  have "bind_first_mile r f s =
     bindr (total_of (filter (\<lambda>l. cl_code l \<in> set landed_codes) (map (bind_line f s) (lc_lines r)))) (\<lambda>landed.
     Inr \<lparr>lc_lines = map (bind_line f s) (lc_lines r), lc_currency = lc_currency r, landed_cost = landed,
          net_profit = None, net_margin_percent = None, roi_percent = None,
          lc_complete = (landed \<noteq> None), profit_complete = False\<rparr>)"
    by (simp add: bind_first_mile_def total_of_def Let_def bindr_assoc)
  then show ?thesis by (simp only: bind_filter bind_total_of)
qed

section \<open>An example shipment\<close>

definition demo_shipment :: "alloc_input list" where
  "demo_shipment = map (\<lambda>k. \<lparr>ai_sku = k, ai_quantity = 1, ai_weight_g = 2, ai_volume_cm3 = 0,
     ai_unit_value = 0\<rparr>) [1, 2, 3]"

lemma demo_share: "share_of 10 6 2 = Inr (3333333/1000000)"
  by code_simp

lemma demo_metrics: "mapr (metric ''WEIGHT'') demo_shipment = Inr [2, 2, 2]"
  by (simp add: demo_shipment_def metric_def dec_eval)

lemma demo_totals: "dsum [2, 2, 2] = 6" "quantize (dsub 10 (dsum [3333333/1000000, 3333333/1000000, 3333333/1000000])) = Inr (1/1000000)"
  "quantize (dadd (3333333/1000000) (1/1000000)) = Inr (3333334/1000000)"
  by (simp_all add: dec_eval)

lemma demo_winner: "winner_index [2, 2, 2] = 0"
  by (simp add: winner_index_def max_by_def upt_rec)

lemma demo_allocate:
  "\<exists>outs. allocate ''WEIGHT'' 10 ''SGD'' demo_shipment = Inr outs \<and>
     map allocated_cost outs = [3333334/1000000, 3333333/1000000, 3333333/1000000]"
proof -
  have "\<exists>outs. mapr (alloc_row 10 6 [2, 2, 2] [3333334/1000000, 3333333/1000000, 3333333/1000000] 0 (1/1000000))
      (enumerate 0 demo_shipment) = Inr outs"
    by (simp add: demo_shipment_def alloc_row_def money_text_def Let_def dec_eval)
  then obtain outs where o: "mapr (alloc_row 10 6 [2, 2, 2] [3333334/1000000, 3333333/1000000, 3333333/1000000] 0
      (1/1000000)) (enumerate 0 demo_shipment) = Inr outs" by blast
  then have "allocate ''WEIGHT'' 10 ''SGD'' demo_shipment = Inr outs"
    by (simp add: allocate_def alloc_methods_def demo_metrics demo_totals demo_share demo_winner Let_def)
      (simp add: demo_shipment_def)
  moreover have "map allocated_cost outs = [3333334/1000000, 3333333/1000000, 3333333/1000000]"
    by (subst conjunct1 [OF mapr_alloc_row [OF o]]) (simp add: demo_shipment_def)
  ultimately show ?thesis by (intro exI conjI)
qed

section \<open>Properties\<close>

text \<open>the split of a first-mile bill loses no cent: for a bill in whole millionths below ten to the
  12 and at most a million lines, the allocated costs add up to exactly the bill, one row per line
  with its SKU and quantity.\<close>

theorem allocate_conserves:
  assumes "allocate alloc_by bill currency lines = Inr outs"
    and "millionths bill" and "bill < 10 ^ 12" and "length lines \<le> 10 ^ 6"
  shows "sum_list (map allocated_cost outs) = bill \<and>
    map (\<lambda>ao. (ao_sku ao, ao_quantity ao)) outs = map (\<lambda>l. (ai_sku l, ai_quantity l)) lines"
proof -
  from assms(1) obtain ms ss r ss' where bill: "0 < bill" and ne: "lines \<noteq> []"
    and ms: "mapr (metric alloc_by) lines = Inr ms" and whole: "0 < dsum ms"
    and ss: "mapr (share_of bill (dsum ms)) ms = Inr ss"
    and r: "quantize (dsub bill (dsum ss)) = Inr r"
    and ss': "(if r \<noteq> 0 then bindr (quantize (dadd (ss ! winner_index ms) r))
        (\<lambda>s. Inr (ss[winner_index ms := s])) else Inr ss) = Inr ss'"
    and rows: "mapr (alloc_row bill (dsum ms) ms ss' (winner_index ms) r) (enumerate 0 lines) = Inr outs"
    by (auto simp: allocate_def Let_def res_simps not_le split: if_splits)
  have len: "length ms = length lines" "length ss = length lines"
    using mapr_Inr_length [OF ms] mapr_Inr_length [OF ss] by simp_all
  have m: "0 \<le> x \<and> ctx x = x" if "x \<in> set ms" for x
    using that mapr_Inr_set [OF ms] metric_nonneg by blast
  have mle: "x \<in> set ms \<Longrightarrow> x \<le> dsum ms" for x
    using foldl_dadd_ge [of ms 0] m by (auto simp: dsum_def)
  have s: "micro s \<and> 0 \<le> s \<and> s \<le> 10 ^ 15" if "s \<in> set ss" for s
  proof -
    from that mapr_Inr_set [OF ss] obtain x where "x \<in> set ms" "share_of bill (dsum ms) x = Inr s" by blast
    with share_of_bounds [OF this(2)] m mle whole bill assms(3) show ?thesis by force
  qed
  have w: "winner_index ms < length ss" using winner_index_bound [of ms] ne len by (cases ms) auto
  have n: "length ss \<le> 10 ^ 6" using assms(4) len by simp
  note bal = shares_balance [OF s n assms(2) bill assms(3) r w]
  have "sum_list ss' = bill \<and> length ss' = length lines"
  proof (cases "r = 0")
    case True
    with ss' have "ss' = ss" by simp
    moreover have "\<exists>q. quantize (dadd (ss ! winner_index ms) 0) = Inr q"
      using s [of "ss ! winner_index ms"] w by (auto simp: dadd_def ctx_micro quantize_id)
    ultimately show ?thesis using bal(1) True len by auto
  next
    case False
    with ss' obtain q where "quantize (dadd (ss ! winner_index ms) r) = Inr q" "ss' = ss[winner_index ms := q]"
      by (auto simp: res_simps)
    with bal(2) len show ?thesis by simp
  qed
  then show ?thesis
    using mapr_alloc_row [OF rows] snd_enumerate_comp [of "\<lambda>l. (ai_sku l, ai_quantity l)" 0 lines]
    by (simp add: map_nth_enumerate)
qed

theorem allocate_conserves_witness:
  "\<exists>outs. allocate ''WEIGHT'' 10 ''SGD'' demo_shipment = Inr outs \<and>
     map allocated_cost outs = [3333334/1000000, 3333333/1000000, 3333333/1000000] \<and>
     sum_list (map allocated_cost outs) = 10"
proof -
  obtain outs where a: "allocate ''WEIGHT'' 10 ''SGD'' demo_shipment = Inr outs"
    and c: "map allocated_cost outs = [3333334/1000000, 3333333/1000000, 3333333/1000000]"
    using demo_allocate by (elim exE conjE)
  have "millionths 10" by (rule micro_millionths, rule micro_eval) simp_all
  then have "sum_list (map allocated_cost outs) = 10"
    by (rule conjunct1 [OF allocate_conserves [OF a]]) (simp_all add: demo_shipment_def)
  with a c show ?thesis by (intro exI conjI)
qed

text \<open>putting the shipment's explanation on the first-mile line changes no money: the lines keep
  their codes, amounts and completeness, and the landed cost is the one that was computed.\<close>

theorem bind_first_mile_keeps_money:
  assumes "compute_landed_cost data taxes fees off = Inr r"
  shows "\<exists>b. bind_first_mile r formula src = Inr b \<and> landed_cost b = landed_cost r \<and>
    map cl_amount (lc_lines b) = map cl_amount (lc_lines r) \<and>
    map cl_code (lc_lines b) = line_codes \<and> lc_complete b = lc_complete r \<and>
    incomplete_landed b = incomplete_landed r"
proof -
  from assms obtain landed net margin roi where r:
      "total_of (take 7 (lc_lines r)) = Inr landed" "landed_cost r = landed" "lc_complete r = (landed \<noteq> None)"
    by (rule compute_result)
  have codes: "map cl_code (lc_lines r) = line_codes" by (rule compute_result_wf(1) [OF assms])
  have "incomplete_landed \<lparr>lc_lines = map (bind_line formula src) ls, lc_currency = c, landed_cost = l,
          net_profit = None, net_margin_percent = None, roi_percent = None,
          lc_complete = d, profit_complete = False\<rparr> = map cl_code (filter (\<lambda>l. cl_code l \<in> set landed_codes \<and> \<not> cl_complete l) ls)"
    for ls c l d
    by (induction ls) (auto simp: incomplete_landed_def)
  with r codes show ?thesis
    unfolding bind_first_mile_total landed_part(1) [OF codes]
    by (simp add: o_def incomplete_landed_def)
qed

theorem bind_first_mile_keeps_money_witness:
  "\<exists>r b. compute_landed_cost demo_input demo_taxes demo_fees [] = Inr r \<and>
     bind_first_mile r (Note ''share'' [5] []) Src_shipment = Inr b \<and> landed_cost b = Some (7089/250)"
proof -
  from demo_run obtain r where r: "compute_landed_cost demo_input demo_taxes demo_fees [] = Inr r"
    and l: "landed_cost r = Some (7089/250)" by blast
  from bind_first_mile_keeps_money [OF r, of "Note ''share'' [5] []" Src_shipment] r l show ?thesis by auto
qed

text \<open>the moving average of the cost pool lies between the two unit costs it averages, to the
  last millionth.\<close>

theorem weighted_unit_between:
  assumes "weighted_unit old_qty old_unit new_qty new_unit = Inr u" and "0 < old_qty"
    and "micro old_unit" and "micro new_unit" and "micro lo" and "micro hi"
    and "lo \<le> old_unit" and "lo \<le> new_unit" and "old_unit \<le> hi" and "new_unit \<le> hi"
    and "\<bar>of_int old_qty * old_unit\<bar> + \<bar>of_int new_qty * new_unit\<bar> < 10 ^ 22"
  shows "lo \<le> u \<and> u \<le> hi"
proof -
  let ?a = "of_int old_qty * old_unit" and ?b = "of_int new_qty * new_unit"
  let ?n = "of_int (old_qty + new_qty) :: rat"
  from assms(1,2) have new: "0 < new_qty" by (auto simp: weighted_unit_def split: if_splits)
  then have n: "0 < ?n" using assms(2) by simp
  note m = micro_millionths [THEN millionths_times]
  have "micro ?a" "micro ?b" "micro (?a + ?b)"
    using m [OF assms(3)] m [OF assms(4)] assms(11) by (auto simp: micro_iff intro: millionths_add)
  then have "quantize (ctx ((?a + ?b) / ?n)) = Inr u"
    using assms(1,2) new n by (simp add: weighted_unit_def dmul_def dadd_def ddiv_def ctx_micro)
  moreover have "lo \<le> (?a + ?b) / ?n" "(?a + ?b) / ?n \<le> hi"
  proof -
    have "of_int old_qty * lo \<le> ?a" "of_int new_qty * lo \<le> ?b" "?a \<le> of_int old_qty * hi" "?b \<le> of_int new_qty * hi"
      using assms(2,7-10) new by (auto intro: mult_left_mono)
    then have "lo * ?n \<le> ?a + ?b" "?a + ?b \<le> hi * ?n" by (simp_all add: algebra_simps)
    then show "lo \<le> (?a + ?b) / ?n" "(?a + ?b) / ?n \<le> hi"
      using n by (simp_all add: pos_le_divide_eq pos_divide_le_eq)
  qed
  then have "lo \<le> ctx ((?a + ?b) / ?n)" "ctx ((?a + ?b) / ?n) \<le> hi"
    using ctx_mono ctx_micro [OF assms(5)] ctx_micro [OF assms(6)] by metis+
  ultimately show ?thesis
    using quantize_mono quantize_id [OF assms(5)] quantize_id [OF assms(6)] by blast
qed

theorem weighted_unit_between_witness:
  "weighted_unit 2 10 6 14 = Inr 13 \<and> (10 :: rat) \<le> 13 \<and> (13 :: rat) \<le> 14"
proof -
  have w: "weighted_unit 2 10 6 14 = Inr 13" by (simp add: weighted_unit_def dec_eval)
  have "micro 10" "micro 14" by (rule micro_eval; simp)+
  with weighted_unit_between [OF w, of 10 14] w show ?thesis by simp
qed

end
