(* ===== verification/PurchaseOrder.thy ===== *)
theory PurchaseOrder imports Purchase Machines begin

text \<open>
  The life of a purchase order in \<^verbatim>\<open>app/services/purchase.py\<close>: creation, status actions, receipts and
  line edits, with the stock each of them moves.  The state is the order with its lines, the
  idempotency keys of its receipts, the next identifier of the generator, and the stock rows of the
  destination warehouse by SKU.  A database row is a record, a query by key a lookup; the transaction
  of a request that raises is rolled back, so a failed operation leaves the state as it was.  The
  optimistic version check of a stock row cannot fail inside one request and its journal rows,
  the audit log and the views returned to the caller are left out, as are lookups of suppliers,
  SKUs and warehouses that only check existence.
\<close>

section \<open>State\<close>

record po_item =
  item_id :: int
  po_sku :: int
  ordered_qty :: int
  received_qty :: int
  short_qty :: int
  unit_price :: dec

record stock_row =
  row_available :: int
  row_occupied :: int
  row_in_transit :: int

type_synonym warehouse_stock = "int \<Rightarrow> stock_row"

record purchase_order =
  po_status :: string
  po_items :: "po_item list"
  total_amount :: dec
  receipt_keys :: "string list"
  next_item_id :: int
  po_stock :: warehouse_stock

definition item_open :: "po_item \<Rightarrow> int" where
  "item_open i = open_qty (ordered_qty i) (received_qty i) (short_qty i)"

section \<open>Stock rows\<close>

text \<open>The guarded update of one stock row.\<close>

definition apply_delta :: "int \<Rightarrow> int \<Rightarrow> stock_row \<Rightarrow> stock_row res" where
  "apply_delta available_delta in_transit_delta row =
     (if 0 \<le> row_available row + available_delta \<and> 0 \<le> row_occupied row \<and>
         0 \<le> row_in_transit row + in_transit_delta \<and>
         row_occupied row \<le> row_available row + available_delta
      then Inr (row\<lparr>row_available := row_available row + available_delta,
                    row_in_transit := row_in_transit row + in_transit_delta\<rparr>)
      else Inl (AppError ''InventoryInsufficientError''))"

definition post_warehouse :: "int \<Rightarrow> int \<Rightarrow> int \<Rightarrow> warehouse_stock \<Rightarrow> warehouse_stock res" where
  "post_warehouse sku available_delta in_transit_delta st =
     (if available_delta = 0 \<and> in_transit_delta = 0 then Inr st
      else
        bindr (if available_delta \<noteq> 0 then apply_delta available_delta 0 (st sku) else Inr (st sku)) (\<lambda>row.
        bindr (if in_transit_delta \<noteq> 0 then apply_delta 0 in_transit_delta row else Inr row) (\<lambda>row.
        Inr (st(sku := row)))))"

fun post_all :: "(int \<times> int) list \<Rightarrow> warehouse_stock \<Rightarrow> warehouse_stock res" where
  "post_all [] st = Inr st"
| "post_all ((sku, in_transit_delta) # moves) st =
     bindr (post_warehouse sku 0 in_transit_delta st) (\<lambda>st. post_all moves st)"

section \<open>Operations\<close>

definition raise_rule :: "'a res \<Rightarrow> 'a res" where
  "raise_rule r =
     (case r of
        Inl (PurchaseRuleError c) \<Rightarrow>
          Inl (AppError (if c = ''state'' then ''PurchaseStateError'' else ''ReceiptInvalidError''))
      | _ \<Rightarrow> r)"

definition clean_key :: "string option \<Rightarrow> string option res" where
  "clean_key v =
     (case v of
        None \<Rightarrow> Inr None
      | Some s \<Rightarrow>
          let key = strip s in
          if key = [] then Inr None
          else if list_ex (\<lambda>c. c \<in> set ''%_#'') key then Inl (AppError ''ParamInvalidError'')
          else Inr (Some key))"

definition extended :: "int \<Rightarrow> dec \<Rightarrow> dec res" where
  "extended quantity price = quantize (dmul price (of_int quantity))"

text \<open>A requested line is a SKU, a quantity and a unit price; the schema refuses a quantity that is
  not positive.\<close>

type_synonym po_line = "int \<times> int \<times> dec"

definition valid_lines :: "po_line list \<Rightarrow> bool" where
  "valid_lines lines = list_all (\<lambda>(_, quantity, _). 0 < quantity) lines"

definition new_item :: "int \<Rightarrow> po_line \<Rightarrow> po_item" where
  "new_item ident line =
     (case line of (sku, quantity, price) \<Rightarrow>
        \<lparr>item_id = ident, po_sku = sku, ordered_qty = quantity, received_qty = 0, short_qty = 0,
         unit_price = price\<rparr>)"

fun new_items :: "int \<Rightarrow> po_line list \<Rightarrow> po_item list" where
  "new_items ident [] = []"
| "new_items ident (l # ls) = new_item ident l # new_items (ident + 1) ls"

definition insert_order :: "po_line list \<Rightarrow> int \<Rightarrow> warehouse_stock \<Rightarrow> purchase_order res" where
  "insert_order lines ident st =
     (if \<not> valid_lines lines then Inl ValueError
      else if \<not> distinct (map fst lines) then Inl (AppError ''ParamInvalidError'')
      else
        bindr (mapr (\<lambda>(_, quantity, price). extended quantity price) lines) (\<lambda>amounts.
        bindr (quantize (dsum amounts)) (\<lambda>total_sum.
        Inr \<lparr>po_status = ''DRAFT'', po_items = new_items ident lines, total_amount = total_sum,
             receipt_keys = [], next_item_id = ident + int (length lines), po_stock = st\<rparr>)))"

definition transition :: "purchase_order \<Rightarrow> string \<Rightarrow> purchase_order res" where
  "transition po action =
     (let items = po_items po; previous = po_status po in
      if action = ''close'' \<and> list_ex (\<lambda>i. item_open i \<noteq> 0) items
      then Inl (AppError ''PurchaseStateError'')
      else if action = ''submit'' \<and> items = [] then Inl (AppError ''ParamInvalidError'')
      else
        bindr (raise_rule (assert_transition previous action (\<Sum>i\<leftarrow>items. received_qty i))) (\<lambda>status.
        bindr (if action = ''approve''
               then post_all (map (\<lambda>i. (po_sku i, ordered_qty i)) items) (po_stock po)
               else Inr (po_stock po)) (\<lambda>st.
        bindr (if action = ''cancel'' \<and> previous = ''APPROVED''
               then post_all (map (\<lambda>i. (po_sku i, - item_open i)) (filter (\<lambda>i. item_open i \<noteq> 0) items)) st
               else Inr st) (\<lambda>st.
        Inr (po\<lparr>po_status := status, po_stock := st\<rparr>)))))"

definition set_item :: "int \<Rightarrow> (po_item \<Rightarrow> po_item) \<Rightarrow> po_item list \<Rightarrow> po_item list" where
  "set_item ident f items = map (\<lambda>i. if item_id i = ident then f i else i) items"

fun receive_lines ::
  "string \<Rightarrow> bool \<Rightarrow> (int \<times> int) list \<Rightarrow> po_item list \<Rightarrow> warehouse_stock
     \<Rightarrow> (po_item list \<times> warehouse_stock) res" where
  "receive_lines disposition allow_over [] items st = Inr (items, st)"
| "receive_lines disposition allow_over ((ident, quantity) # lines) items st =
     (case find (\<lambda>i. item_id i = ident) items of
        None \<Rightarrow> Inl (AppError ''NotFoundError'')
      | Some i \<Rightarrow>
          bindr (raise_rule (plan_receive (ordered_qty i) (received_qty i) (short_qty i) quantity
                   disposition allow_over)) (\<lambda>plan.
          bindr (post_warehouse (po_sku i) (receive_qty plan) (- transit_release plan) st) (\<lambda>st.
          receive_lines disposition allow_over lines
            (set_item ident (\<lambda>i. i\<lparr>received_qty := new_received plan, short_qty := new_short plan\<rparr>) items)
            st)))"

definition receive ::
  "purchase_order \<Rightarrow> string option \<Rightarrow> string \<Rightarrow> bool \<Rightarrow> (int \<times> int) list \<Rightarrow> purchase_order res" where
  "receive po idempotency_key disposition allow_over lines =
     bindr (clean_key idempotency_key) (\<lambda>key.
     if \<exists>k\<in>set_option key. k \<in> set (receipt_keys po) then Inr po
     else
       bindr (raise_rule (assert_can_receive (po_status po))) (\<lambda>_.
       if \<not> distinct (map fst lines) then Inl (AppError ''ReceiptInvalidError'')
       else
         bindr (receive_lines disposition allow_over lines (po_items po) (po_stock po)) (\<lambda>(items, st).
         Inr (po\<lparr>po_items := items, po_stock := st,
                 po_status := next_receipt_status
                   (map (\<lambda>i. (ordered_qty i, received_qty i, short_qty i)) items),
                 receipt_keys := (case key of None \<Rightarrow> [] | Some k \<Rightarrow> [k]) @ receipt_keys po\<rparr>))))"

fun edit_lines ::
  "string \<Rightarrow> int list \<Rightarrow> po_line list \<Rightarrow> po_item list \<Rightarrow> int \<Rightarrow> warehouse_stock
     \<Rightarrow> (po_item list \<times> int \<times> warehouse_stock) res" where
  "edit_lines status seen [] items ident st = Inr (items, ident, st)"
| "edit_lines status seen ((sku, quantity, price) # lines) items ident st =
     (if sku \<in> set seen then Inl (AppError ''ParamInvalidError'')
      else case find (\<lambda>i. po_sku i = sku) items of
        None \<Rightarrow>
          bindr (if status \<in> set [''APPROVED'', ''PARTIAL''] then post_warehouse sku 0 quantity st else Inr st)
            (\<lambda>st.
          edit_lines status (sku # seen) lines (items @ [new_item ident (sku, quantity, price)])
            (ident + 1) st)
      | Some i \<Rightarrow>
          bindr (raise_rule (transit_delta_for_qty_change status (ordered_qty i) (received_qty i)
                   (short_qty i) quantity)) (\<lambda>delta.
          bindr (if delta \<noteq> 0 then post_warehouse sku 0 delta st else Inr st) (\<lambda>st.
          edit_lines status (sku # seen) lines
            (set_item (item_id i) (\<lambda>i. i\<lparr>ordered_qty := quantity, unit_price := price\<rparr>) items) ident st)))"

definition update_order :: "purchase_order \<Rightarrow> po_line list option \<Rightarrow> purchase_order res" where
  "update_order po payload =
     (case payload of
        None \<Rightarrow> bindr (raise_rule (assert_can_edit (po_status po))) (\<lambda>_. Inr po)
      | Some lines \<Rightarrow>
          if \<not> valid_lines lines then Inl ValueError
          else
            bindr (raise_rule (assert_can_edit (po_status po))) (\<lambda>_.
            bindr (edit_lines (po_status po) [] lines (po_items po) (next_item_id po) (po_stock po))
              (\<lambda>(items, ident, st).
            bindr (mapr (\<lambda>i. extended (ordered_qty i) (unit_price i)) items) (\<lambda>amounts.
            bindr (quantize (dsum amounts)) (\<lambda>total_sum.
            Inr (po\<lparr>po_items := items, next_item_id := ident, po_stock := st,
                    total_amount := total_sum\<rparr>))))))"

section \<open>Histories of requests\<close>

datatype po_request =
    Req_transition string
  | Req_receive "string option" string bool "(int \<times> int) list"
  | Req_edit "po_line list option"

fun handle :: "po_request \<Rightarrow> purchase_order \<Rightarrow> purchase_order res" where
  "handle (Req_transition action) po = transition po action"
| "handle (Req_receive key disposition allow_over lines) po = receive po key disposition allow_over lines"
| "handle (Req_edit payload) po = update_order po payload"

text \<open>A request that fails is rolled back.\<close>

definition serve :: "purchase_order \<Rightarrow> po_request \<Rightarrow> purchase_order option" where
  "serve po req = Some (case handle req po of Inl _ \<Rightarrow> po | Inr po' \<Rightarrow> po')"

section \<open>The books of an order\<close>

text \<open>What an order owes the warehouse in transit and has brought in, by SKU.\<close>

definition open_of :: "po_item list \<Rightarrow> int \<Rightarrow> int" where
  "open_of items sku = (\<Sum>i\<leftarrow>items. if po_sku i = sku then item_open i else 0)"

definition received_of :: "po_item list \<Rightarrow> int \<Rightarrow> int" where
  "received_of items sku = (\<Sum>i\<leftarrow>items. if po_sku i = sku then received_qty i else 0)"

definition in_books :: "warehouse_stock \<Rightarrow> warehouse_stock \<Rightarrow> (int \<Rightarrow> int) \<Rightarrow> (int \<Rightarrow> int) \<Rightarrow> bool" where
  "in_books st0 st arrived transit \<longleftrightarrow>
     (\<forall>sku. row_available (st sku) = row_available (st0 sku) + arrived sku \<and>
            row_in_transit (st sku) = row_in_transit (st0 sku) + transit sku \<and>
            row_occupied (st sku) = row_occupied (st0 sku))"

definition items_ok :: "int \<Rightarrow> po_item list \<Rightarrow> bool" where
  "items_ok ident items \<longleftrightarrow> distinct (map item_id items) \<and> distinct (map po_sku items) \<and>
     (\<forall>i\<in>set items. item_id i < ident \<and> 0 < ordered_qty i \<and> 0 \<le> received_qty i \<and> 0 \<le> short_qty i)"

definition untouched :: "po_item list \<Rightarrow> bool" where
  "untouched items \<longleftrightarrow> (\<forall>i\<in>set items. received_qty i = 0 \<and> short_qty i = 0)"

definition in_transit_status :: "string \<Rightarrow> bool" where
  "in_transit_status s \<longleftrightarrow> s = ''APPROVED'' \<or> s = ''PARTIAL''"

definition po_inv :: "warehouse_stock \<Rightarrow> purchase_order \<Rightarrow> bool" where
  "po_inv st0 po \<longleftrightarrow>
     po_status po \<in> set po_statuses \<and> items_ok (next_item_id po) (po_items po) \<and>
     (po_status po \<in> set [''DRAFT'', ''PENDING'', ''APPROVED'', ''CANCELLED''] \<longrightarrow> untouched (po_items po)) \<and>
     (po_status po \<in> set [''RECEIVED'', ''CLOSED''] \<longrightarrow> (\<forall>i\<in>set (po_items po). item_open i = 0)) \<and>
     in_books st0 (po_stock po) (received_of (po_items po))
       (\<lambda>sku. if in_transit_status (po_status po) then open_of (po_items po) sku else 0)"

named_theorems po_defs \<open>the parts of the order invariant\<close>

declare po_inv_def [po_defs] items_ok_def [po_defs] untouched_def [po_defs] in_transit_status_def [po_defs]
  po_statuses_def [po_defs]

lemma post_stock_books:
  assumes "post_warehouse sku a t st = Inr st'" and "in_books st0 st arr tr"
  shows "in_books st0 st' (arr(sku := arr sku + a)) (tr(sku := tr sku + t))"
  using assms
  by (auto simp: post_warehouse_def apply_delta_def in_books_def res_simps split: if_splits)

lemma post_stock_transit:
  assumes "post_warehouse sku 0 t st = Inr st'" and "in_books st0 st arr tr"
  shows "in_books st0 st' arr (tr(sku := tr sku + t))"
  using post_stock_books [OF assms] by simp

lemma post_all_books:
  assumes "post_all moves st = Inr st'" and "in_books st0 st arr tr"
  shows "in_books st0 st' arr (\<lambda>sku. tr sku + (\<Sum>m\<leftarrow>moves. if fst m = sku then snd m else 0))"
  using assms
proof (induction moves arbitrary: st tr)
  case (Cons m moves)
  obtain sku t where m: "m = (sku, t)" by fastforce
  with Cons.prems obtain st1 where s: "post_warehouse sku 0 t st = Inr st1" "post_all moves st1 = Inr st'"
    by (auto simp: res_simps)
  from Cons.IH [OF s(2) post_stock_transit [OF s(1) Cons.prems(2)]] show ?case
    by (simp add: m in_books_def algebra_simps)
qed simp

lemma post_all_to:
  assumes "post_all moves st = Inr st'" and "in_books st0 st arr tr"
    and "\<And>sku. tr sku + (\<Sum>m\<leftarrow>moves. if fst m = sku then snd m else 0) = tr' sku"
  shows "in_books st0 st' arr tr'"
  using post_all_books [OF assms(1,2)] by (simp add: assms(3))

lemma find_item:
  assumes "find P items = Some i" shows "i \<in> set items" and "P i"
  using assms by (auto simp: find_Some_iff)

lemma set_item_sum:
  fixes g :: "po_item \<Rightarrow> int"
  assumes "distinct (map item_id items)" and "i \<in> set items"
  shows "(\<Sum>j\<leftarrow>set_item (item_id i) f items. g j) = (\<Sum>j\<leftarrow>items. g j) + (g (f i) - g i)"
  using sum_list_map_replace [OF assms, of g f] by (simp add: set_item_def o_def)

lemma set_item_keys:
  assumes "\<And>i. item_id (f i) = item_id i \<and> po_sku (f i) = po_sku i"
  shows "map item_id (set_item ident f items) = map item_id items"
    and "map po_sku (set_item ident f items) = map po_sku items"
  using assms by (auto simp: set_item_def)

lemma set_item_elems:
  assumes "distinct (map item_id items)" and "i \<in> set items" and "j \<in> set (set_item (item_id i) f items)"
  shows "j \<in> set items \<or> j = f i"
  using assms by (auto simp: set_item_def distinct_map inj_on_def)

text \<open>Replacing one line moves the sums of its SKU by the difference.\<close>

lemma set_item_books:
  assumes "distinct (map item_id items)" and "i \<in> set items" and "po_sku (f i) = po_sku i"
  shows "open_of (set_item (item_id i) f items) =
      (open_of items)(po_sku i := open_of items (po_sku i) + (item_open (f i) - item_open i))"
    and "received_of (set_item (item_id i) f items) =
      (received_of items)(po_sku i := received_of items (po_sku i) + (received_qty (f i) - received_qty i))"
  using assms(3) by (auto simp: open_of_def received_of_def set_item_sum [OF assms(1,2)])

lemma plan_receive_effect:
  assumes "plan_receive (ordered_qty i) (received_qty i) (short_qty i) q d ov = Inr plan"
  shows "item_open (i\<lparr>received_qty := new_received plan, short_qty := new_short plan\<rparr>)
           = item_open i - transit_release plan"
    and "new_received plan = received_qty i + receive_qty plan"
    and "received_qty i \<le> new_received plan" and "short_qty i \<le> new_short plan"
    and "0 < receive_qty plan + transit_release plan"
  using assms by (auto simp: plan_receive_def item_open_def open_qty_def Let_def split: if_splits)

lemma raise_rule_Inr [simp]: "raise_rule r = Inr x \<longleftrightarrow> r = Inr x"
  by (auto simp: raise_rule_def split: sum.splits py_error.splits)

lemma receive_lines_books:
  assumes "receive_lines d ov lines items st = Inr (items', st')" and "items_ok ident items"
    and "in_books st0 st (received_of items) (open_of items)"
  shows "items_ok ident items' \<and> in_books st0 st' (received_of items') (open_of items')"
  using assms
proof (induction lines arbitrary: items st)
  case (Cons l lines)
  obtain k q where l: "l = (k, q)" by fastforce
  from Cons.prems(1) l obtain i where i: "find (\<lambda>i. item_id i = k) items = Some i"
    by (auto split: option.splits)
  note mem = find_item [OF i]
  from Cons.prems(1) l i obtain plan st1 where
      plan: "plan_receive (ordered_qty i) (received_qty i) (short_qty i) q d ov = Inr plan"
    and st1: "post_warehouse (po_sku i) (receive_qty plan) (- transit_release plan) st = Inr st1"
    and rest: "receive_lines d ov lines
        (set_item (item_id i) (\<lambda>i. i\<lparr>received_qty := new_received plan, short_qty := new_short plan\<rparr>) items)
        st1 = Inr (items', st')"
    using mem by (auto simp: res_simps)
  let ?f = "\<lambda>i. i\<lparr>received_qty := new_received plan, short_qty := new_short plan\<rparr>"
  let ?items = "set_item (item_id i) ?f items"
  note eff = plan_receive_effect [OF plan]
  have dist: "distinct (map item_id items)" using Cons.prems(2) by (simp add: items_ok_def)
  note books = set_item_books [OF dist mem(1), of ?f]
  have "in_books st0 st1 (received_of ?items) (open_of ?items)"
    using post_stock_books [OF st1 Cons.prems(3)] books eff by simp
  moreover have "items_ok ident ?items"
    using Cons.prems(2) mem(1) set_item_keys [of ?f "item_id i" items] eff
    by (auto simp: items_ok_def dest!: set_item_elems [OF dist mem(1)])
  ultimately show ?case using Cons.IH [OF rest] by blast
qed simp

lemma edit_lines_books:
  assumes "edit_lines status seen lines items ident st = Inr (items', ident', st')"
    and "items_ok ident items" and "valid_lines lines"
    and "status \<notin> set [''APPROVED'', ''PARTIAL''] \<longrightarrow> status \<in> set [''DRAFT'', ''PENDING'']"
    and "in_books st0 st (received_of items) (\<lambda>sku. if in_transit_status status then open_of items sku else 0)"
  shows "items_ok ident' items' \<and> (untouched items \<longrightarrow> untouched items') \<and>
    in_books st0 st' (received_of items') (\<lambda>sku. if in_transit_status status then open_of items' sku else 0)"
  using assms
proof (induction lines arbitrary: seen items ident st)
  case (Cons l lines)
  obtain sku q p where l: "l = (sku, q, p)" by (cases l) auto
  from Cons.prems(3) l have q: "0 < q" and v: "valid_lines lines" by (auto simp: valid_lines_def)
  show ?case
  proof (cases "find (\<lambda>i. po_sku i = sku) items")
    case None
    then have fresh: "sku \<notin> po_sku ` set items" by (auto simp: find_None_iff)
    let ?items = "items @ [new_item ident (sku, q, p)]"
    from Cons.prems(1) l None obtain st1 where
        st1: "(if in_transit_status status then post_warehouse sku 0 q st else Inr st) = Inr st1"
      and rest: "edit_lines status (sku # seen) lines ?items (ident + 1) st1 = Inr (items', ident', st')"
      by (auto simp: res_simps in_transit_status_def split: if_splits)
    have o: "open_of ?items = (open_of items)(sku := open_of items sku + q)"
      "received_of ?items = received_of items"
      using q by (auto simp: open_of_def received_of_def new_item_def item_open_def open_qty_def)
    have "in_books st0 st1 (received_of ?items) (\<lambda>x. if in_transit_status status then open_of ?items x else 0)"
      using st1 post_stock_transit [OF _ Cons.prems(5), of sku q] Cons.prems(5) unfolding o
      by (simp add: in_books_def split: if_splits)
    moreover have "items_ok (ident + 1) ?items"
      using Cons.prems(2) fresh q by (auto simp: items_ok_def new_item_def)
    moreover have "untouched items \<longrightarrow> untouched ?items" by (auto simp: untouched_def new_item_def)
    ultimately show ?thesis using Cons.IH [OF rest _ v Cons.prems(4)] by blast
  next
    case (Some i)
    note mem = find_item [OF Some]
    let ?f = "\<lambda>i. i\<lparr>ordered_qty := q, unit_price := p\<rparr>"
    let ?items = "set_item (item_id i) ?f items"
    have sku: "po_sku (?f i) = po_sku i" by simp
    from Cons.prems(1) l Some obtain delta st1 where
        delta: "transit_delta_for_qty_change status (ordered_qty i) (received_qty i) (short_qty i) q = Inr delta"
      and st1: "(if delta \<noteq> 0 then post_warehouse sku 0 delta st else Inr st) = Inr st1"
      and rest: "edit_lines status (sku # seen) lines ?items ident st1 = Inr (items', ident', st')"
      by (auto simp: res_simps split: if_splits)
    have dist: "distinct (map item_id items)" using Cons.prems(2) by (simp add: items_ok_def)
    note books = set_item_books [OF dist mem(1), of ?f, OF sku]
    have d: "delta = (if in_transit_status status then item_open (?f i) - item_open i else 0)"
      using delta Cons.prems(4)
      by (auto simp: transit_delta_for_qty_change_def in_transit_status_def item_open_def res_simps split: if_splits)
    have "in_books st0 st1 (received_of items)
        ((\<lambda>x. if in_transit_status status then open_of items x else 0)
          (sku := (if in_transit_status status then open_of items sku else 0) + delta))"
      using st1 post_stock_transit [OF _ Cons.prems(5), of sku delta] Cons.prems(5)
      by (auto simp: fun_upd_idem split: if_splits)
    then have "in_books st0 st1 (received_of ?items) (\<lambda>x. if in_transit_status status then open_of ?items x else 0)"
      using mem(2) unfolding books d by (auto simp: in_books_def)
    moreover have "items_ok ident ?items"
      using Cons.prems(2) mem(1) set_item_keys [of ?f "item_id i" items] q
      by (auto simp: items_ok_def dest!: set_item_elems [OF dist mem(1)])
    moreover have "untouched items \<longrightarrow> untouched ?items"
      using mem(1) by (auto simp: untouched_def dest!: set_item_elems [OF dist mem(1)])
    ultimately show ?thesis using Cons.IH [OF rest _ v Cons.prems(4)] by blast
  qed
qed simp

section \<open>Every request keeps the books\<close>

lemma open_of_untouched:
  assumes "untouched items" and "items_ok ident items"
  shows "(\<Sum>m\<leftarrow>map (\<lambda>i. (po_sku i, ordered_qty i)) items. if fst m = sku then snd m else 0) = open_of items sku"
proof -
  have "\<forall>i\<in>set items. item_open i = ordered_qty i"
    using assms by (auto simp: untouched_def items_ok_def item_open_def open_qty_def)
  then show ?thesis by (induction items) (auto simp: open_of_def)
qed

lemma release_of:
  "(\<Sum>m\<leftarrow>map (\<lambda>i. (po_sku i, - item_open i)) (filter (\<lambda>i. item_open i \<noteq> 0) items).
      if fst m = sku then snd m else 0) = - open_of items sku"
  by (induction items) (auto simp: open_of_def)

lemma open_of_zero: "\<forall>i\<in>set items. item_open i = 0 \<Longrightarrow> open_of items sku = 0"
  by (induction items) (auto simp: open_of_def)

lemma assert_transition_cases:
  assumes "assert_transition s a r = Inr t"
  obtains "a = ''submit''" "s = ''DRAFT''" "t = ''PENDING''"
    | "a = ''reject''" "s = ''PENDING''" "t = ''DRAFT''"
    | "a = ''approve''" "s = ''PENDING''" "t = ''APPROVED''"
    | "a = ''cancel''" "s = ''DRAFT'' \<or> s = ''PENDING'' \<or> s = ''APPROVED''" "t = ''CANCELLED''"
    | "a = ''close''" "s = ''PARTIAL'' \<or> s = ''RECEIVED''" "t = ''CLOSED''"
  using assms by (auto simp: assert_transition_def split: if_splits)

lemma transition_inv:
  assumes "po_inv st0 po" and "transition po action = Inr po'"
  shows "po_inv st0 po'"
proof -
  from assms(2) obtain status st where closed: "action = ''close'' \<longrightarrow> (\<forall>i\<in>set (po_items po). item_open i = 0)"
    and tr: "assert_transition (po_status po) action (\<Sum>i\<leftarrow>po_items po. received_qty i) = Inr status"
    and st: "(if action = ''approve''
        then post_all (map (\<lambda>i. (po_sku i, ordered_qty i)) (po_items po)) (po_stock po)
        else if action = ''cancel'' \<and> po_status po = ''APPROVED''
        then post_all (map (\<lambda>i. (po_sku i, - item_open i)) (filter (\<lambda>i. item_open i \<noteq> 0) (po_items po))) (po_stock po)
        else Inr (po_stock po)) = Inr st"
    and po': "po' = po\<lparr>po_status := status, po_stock := st\<rparr>"
    by (auto simp: transition_def Let_def list_ex_iff res_simps split: if_splits)
  have books: "in_books st0 (po_stock po) (received_of (po_items po))
       (\<lambda>sku. if in_transit_status (po_status po) then open_of (po_items po) sku else 0)"
    and ok: "items_ok (next_item_id po) (po_items po)"
    and un: "po_status po \<in> set [''DRAFT'', ''PENDING'', ''APPROVED'', ''CANCELLED''] \<longrightarrow> untouched (po_items po)"
    using assms(1) by (auto simp: po_inv_def)
  have moved: "in_books st0 st (received_of (po_items po))
       (\<lambda>sku. if in_transit_status status then open_of (po_items po) sku else 0)"
    using tr
  proof (cases rule: assert_transition_cases)
    case 3
    with st have "post_all (map (\<lambda>i. (po_sku i, ordered_qty i)) (po_items po)) (po_stock po) = Inr st" by simp
    then show ?thesis
    proof (rule post_all_to [OF _ books])
      fix sku
      have "untouched (po_items po)" using un 3 by simp
      from open_of_untouched [OF this ok, of sku]
      show "(if in_transit_status (po_status po) then open_of (po_items po) sku else 0) +
          (\<Sum>m\<leftarrow>map (\<lambda>i. (po_sku i, ordered_qty i)) (po_items po). if fst m = sku then snd m else 0) =
          (if in_transit_status status then open_of (po_items po) sku else 0)"
        by (simp only: 3 in_transit_status_def) simp
    qed
  next
    case 4
    show ?thesis
    proof (cases "po_status po = ''APPROVED''")
      case True
      with 4 st have "post_all (map (\<lambda>i. (po_sku i, - item_open i))
          (filter (\<lambda>i. item_open i \<noteq> 0) (po_items po))) (po_stock po) = Inr st" by simp
      then show ?thesis
        by (rule post_all_to [OF _ books]) (simp only: release_of True 4 in_transit_status_def, simp)
    next
      case False
      with 4 st books show ?thesis by (auto simp: in_transit_status_def)
    qed
  next
    case 5
    with st books closed show ?thesis by (auto simp: open_of_zero in_transit_status_def)
  qed (use st books in \<open>auto simp: in_transit_status_def\<close>)
  show ?thesis
    using tr ok un closed moved unfolding po'
    by (cases rule: assert_transition_cases) (auto simp: po_inv_def po_statuses_def cong: if_cong)
qed

lemma next_receipt_status_cases:
  "next_receipt_status (map (\<lambda>i. (ordered_qty i, received_qty i, short_qty i)) items) = s \<Longrightarrow>
     s = ''RECEIVED'' \<and> (\<forall>i\<in>set items. item_open i = 0) \<or> s = ''PARTIAL'' \<or> s = ''APPROVED'' \<and> untouched items"
  by (auto simp: next_receipt_status_def item_open_def untouched_def list_all_iff list_ex_iff split: if_splits)

lemma receive_inv:
  assumes "po_inv st0 po" and "receive po key d ov lines = Inr po'"
  shows "po_inv st0 po'"
proof (cases "po' = po")
  case False
  with assms(2) obtain items st k where can: "po_status po \<in> set open_for_receipt"
    and rl: "receive_lines d ov lines (po_items po) (po_stock po) = Inr (items, st)"
    and po': "po' = po\<lparr>po_items := items, po_stock := st,
        po_status := next_receipt_status (map (\<lambda>i. (ordered_qty i, received_qty i, short_qty i)) items),
        receipt_keys := k\<rparr>"
    by (auto simp: receive_def assert_can_receive_def res_simps split: if_splits)
  from can assms(1) have "items_ok (next_item_id po) (po_items po)"
      "in_books st0 (po_stock po) (received_of (po_items po)) (open_of (po_items po))"
    by (auto simp: po_inv_def open_for_receipt_def in_transit_status_def)
  from receive_lines_books [OF rl this]
  have books: "items_ok (next_item_id po) items" "in_books st0 st (received_of items) (open_of items)" by blast+
  show ?thesis
    using next_receipt_status_cases [OF refl, of items] books unfolding po'
    by (auto simp: po_inv_def po_statuses_def in_transit_status_def in_books_def open_of_zero)
qed (use assms in simp)

lemma update_order_inv:
  assumes "po_inv st0 po" and "update_order po payload = Inr po'"
  shows "po_inv st0 po'"
proof (cases payload)
  case (Some lines)
  with assms(2) obtain items ident st t where v: "valid_lines lines" and can: "po_status po \<in> set open_for_edit"
    and el: "edit_lines (po_status po) [] lines (po_items po) (next_item_id po) (po_stock po) = Inr (items, ident, st)"
    and po': "po' = po\<lparr>po_items := items, next_item_id := ident, po_stock := st, total_amount := t\<rparr>"
    by (auto simp: update_order_def assert_can_edit_def res_simps split: if_splits)
  from can have s: "po_status po \<notin> set [''APPROVED'', ''PARTIAL''] \<longrightarrow> po_status po \<in> set [''DRAFT'', ''PENDING'']"
    by (auto simp: open_for_edit_def)
  from assms(1) have "items_ok (next_item_id po) (po_items po)" and "in_books st0 (po_stock po) (received_of (po_items po))
       (\<lambda>sku. if in_transit_status (po_status po) then open_of (po_items po) sku else 0)"
    by (auto simp: po_inv_def)
  note kept = edit_lines_books [OF el this(1) v s this(2)]
  have "po_status po \<in> set po_statuses" "po_status po \<noteq> ''RECEIVED''" "po_status po \<noteq> ''CLOSED''"
    "po_status po \<in> set [''DRAFT'', ''PENDING'', ''APPROVED'', ''CANCELLED''] \<longrightarrow> untouched (po_items po)"
    using assms(1) can by (auto simp: po_inv_def open_for_edit_def)
  with kept show ?thesis unfolding po' po_inv_def by (simp cong: if_cong)
qed (use assms in \<open>simp add: update_order_def res_simps\<close>)

lemma handle_inv: "po_inv st0 po \<Longrightarrow> handle req po = Inr po' \<Longrightarrow> po_inv st0 po'"
  by (cases req) (auto intro: transition_inv receive_inv update_order_inv)

interpretation purchase_books: invariant_machine serve "po_inv st0" for st0
  by unfold_locales (auto simp: serve_def intro: handle_inv split: sum.splits)

lemma new_items_props:
  assumes "valid_lines lines" and "distinct (map fst lines)"
  shows "items_ok (ident + int (length lines)) (new_items ident lines) \<and> untouched (new_items ident lines) \<and>
    map po_sku (new_items ident lines) = map fst lines \<and>
    (\<forall>i\<in>set (new_items ident lines). ident \<le> item_id i)"
  using assms
proof (induction lines arbitrary: ident)
  case (Cons l lines)
  have v: "valid_lines lines" "distinct (map fst lines)" "0 < fst (snd l)"
    using Cons.prems by (auto simp: valid_lines_def)
  have "fst l \<notin> set (map po_sku (new_items (ident + 1) lines))"
    using Cons.IH [OF v(1,2), of "ident + 1"] Cons.prems(2) by simp
  with Cons.IH [OF v(1,2), of "ident + 1"] v(3) show ?case
    by (cases l) (auto simp: items_ok_def untouched_def new_item_def)
qed (simp add: items_ok_def untouched_def)

lemma insert_order_inv:
  assumes "insert_order lines ident st = Inr po" shows "po_inv st po"
proof -
  from assms obtain t where v: "valid_lines lines" "distinct (map fst lines)"
    and po: "po = \<lparr>po_status = ''DRAFT'', po_items = new_items ident lines, total_amount = t,
             receipt_keys = [], next_item_id = ident + int (length lines), po_stock = st\<rparr>"
    by (auto simp: insert_order_def res_simps split: if_splits)
  have "untouched items \<Longrightarrow> received_of items sku = 0" for items sku
    by (induction items) (auto simp: received_of_def untouched_def)
  with new_items_props [OF v, of ident] show ?thesis
    by (simp add: po po_inv_def po_statuses_def in_transit_status_def in_books_def)
qed

section \<open>Properties\<close>

text \<open>C12: the books of a purchase order: whatever requests are served after its creation, and in
  whatever order, the stock in transit is what it was plus exactly the open quantities of the lines
  while the order is approved or partly received and plus nothing otherwise, the stock on hand is
  what it was plus exactly the received quantities, and the occupied stock is untouched.\<close>

theorem purchase_stock_books:
  assumes "insert_order lines ident st = Inr po" and "run_machine serve po reqs = Some po'"
  shows "row_in_transit (po_stock po' sku) = row_in_transit (st sku) +
      (if po_status po' = ''APPROVED'' \<or> po_status po' = ''PARTIAL'' then open_of (po_items po') sku else 0) \<and>
    row_available (po_stock po' sku) = row_available (st sku) + received_of (po_items po') sku \<and>
    row_occupied (po_stock po' sku) = row_occupied (st sku)"
  using purchase_books.run_inv [OF insert_order_inv [OF assms(1)] assms(2)]
  by (simp add: po_inv_def in_books_def in_transit_status_def)

theorem purchase_stock_books_witness:
  "\<exists>po po'. insert_order [(7, 10, 2)] 1 (\<lambda>_. \<lparr>row_available = 0, row_occupied = 0, row_in_transit = 3\<rparr>) = Inr po \<and>
     run_machine serve po [Req_transition ''submit'', Req_transition ''approve'',
       Req_receive (Some ''k1'') ''RECEIVE'' False [(1, 4)], Req_receive (Some ''k1'') ''RECEIVE'' False [(1, 4)]]
       = Some po' \<and>
     row_in_transit (po_stock po' 7) = 3 + 6 \<and> row_available (po_stock po' 7) = 4"
proof -
  let ?st = "\<lambda>_ :: int. \<lparr>row_available = 0, row_occupied = 0, row_in_transit = 3\<rparr>"
  let ?reqs = "[Req_transition ''submit'', Req_transition ''approve'',
       Req_receive (Some ''k1'') ''RECEIVE'' False [(1, 4)], Req_receive (Some ''k1'') ''RECEIVE'' False [(1, 4)]]"
  let ?po = "\<lparr>po_status = ''DRAFT'', po_items = [\<lparr>item_id = 1, po_sku = 7, ordered_qty = 10,
      received_qty = 0, short_qty = 0, unit_price = 2\<rparr>], total_amount = 20, receipt_keys = [],
      next_item_id = 2, po_stock = ?st\<rparr>"
  have i: "insert_order [(7, 10, 2)] 1 ?st = Inr ?po"
    by (simp add: insert_order_def valid_lines_def extended_def new_item_def dec_eval)
  have "\<exists>po'. run_machine serve ?po ?reqs = Some po' \<and> po_status po' = ''PARTIAL'' \<and>
      open_of (po_items po') 7 = 6 \<and> received_of (po_items po') 7 = 4"
    by (simp add: serve_def transition_def receive_def assert_transition_def assert_can_receive_def
        open_for_receipt_def clean_key_def strip_def is_space_def plan_receive_def receipt_dispositions_def
        post_warehouse_def apply_delta_def item_open_def open_qty_def set_item_def next_receipt_status_def
        raise_rule_def open_of_def received_of_def Let_def)
  then obtain po' where r: "run_machine serve ?po ?reqs = Some po'" and p: "po_status po' = ''PARTIAL''"
      "open_of (po_items po') 7 = 6" "received_of (po_items po') 7 = 4" by blast
  from purchase_stock_books [OF i r, of 7] p
  have "row_in_transit (po_stock po' 7) = 3 + 6 \<and> row_available (po_stock po' 7) = 4" by simp
  with i r show ?thesis by blast
qed

text \<open>an order that is finished is settled: in every reachable state a received or closed order has
  no open quantity on any line, and an order that is a draft, pending, approved or cancelled has
  received nothing and written off nothing.\<close>

theorem purchase_status_settled:
  assumes "insert_order lines ident st = Inr po" and "run_machine serve po reqs = Some po'"
  shows "po_status po' \<in> set po_statuses \<and>
    (po_status po' \<in> {''RECEIVED'', ''CLOSED''} \<longrightarrow> (\<forall>i\<in>set (po_items po'). item_open i = 0)) \<and>
    (po_status po' \<in> {''DRAFT'', ''PENDING'', ''APPROVED'', ''CANCELLED''} \<longrightarrow>
       (\<forall>i\<in>set (po_items po'). received_qty i = 0 \<and> short_qty i = 0))"
  using purchase_books.run_inv [OF insert_order_inv [OF assms(1)] assms(2)]
  by (auto simp: po_inv_def untouched_def)

theorem purchase_status_settled_witness:
  "\<exists>po. insert_order [] 1 (\<lambda>_. \<lparr>row_available = 0, row_occupied = 0, row_in_transit = 0\<rparr>) = Inr po \<and>
     run_machine serve po [Req_transition ''submit''] = Some po \<and> po_status po = ''DRAFT'' \<and>
     po_status po \<in> set po_statuses"
proof -
  let ?st = "\<lambda>_ :: int. \<lparr>row_available = 0, row_occupied = 0, row_in_transit = 0\<rparr>"
  let ?po = "\<lparr>po_status = ''DRAFT'', po_items = [], total_amount = 0, receipt_keys = [],
      next_item_id = 1, po_stock = ?st\<rparr>"
  have i: "insert_order [] 1 ?st = Inr ?po"
    by (simp add: insert_order_def valid_lines_def)
  have r: "run_machine serve ?po [Req_transition ''submit''] = Some ?po"
    by (simp add: serve_def transition_def Let_def)
  from purchase_status_settled [OF i r] i r show ?thesis by auto
qed

text \<open>C13: a receipt is booked once: repeating a receipt that was accepted under an idempotency key
  changes nothing, whatever the repetition asks for.\<close>

theorem receipt_idempotent:
  assumes "receive po (Some key) disposition allow_over lines = Inr po'" and "strip key \<noteq> []"
  shows "receive po' (Some key) disposition' allow_over' lines' = Inr po'"
proof -
  from assms obtain k where k: "clean_key (Some key) = Inr (Some k)"
    by (auto simp: receive_def clean_key_def Let_def res_simps split: if_splits)
  with assms(1) have "k \<in> set (receipt_keys po')"
    by (auto simp: receive_def res_simps split: if_splits)
  with k show ?thesis by (simp add: receive_def)
qed

theorem receipt_idempotent_witness:
  "\<exists>po'. receive \<lparr>po_status = ''APPROVED'', po_items = [\<lparr>item_id = 1, po_sku = 7, ordered_qty = 10,
      received_qty = 0, short_qty = 0, unit_price = 2\<rparr>], total_amount = 20, receipt_keys = [], next_item_id = 2,
      po_stock = \<lambda>_. \<lparr>row_available = 0, row_occupied = 0, row_in_transit = 10\<rparr>\<rparr>
      (Some ''k1'') ''RECEIVE'' False [(1, 4)] = Inr po' \<and>
    receive po' (Some ''k1'') ''SHORT'' False [(1, 0)] = Inr po'"
proof -
  let ?po = "\<lparr>po_status = ''APPROVED'', po_items = [\<lparr>item_id = 1, po_sku = 7, ordered_qty = 10,
      received_qty = 0, short_qty = 0, unit_price = 2\<rparr>], total_amount = 20, receipt_keys = [], next_item_id = 2,
      po_stock = \<lambda>_ :: int. \<lparr>row_available = 0, row_occupied = 0, row_in_transit = 10\<rparr>\<rparr>"
  have "\<exists>po'. receive ?po (Some ''k1'') ''RECEIVE'' False [(1, 4)] = Inr po'"
    by (simp add: receive_def assert_can_receive_def
        open_for_receipt_def clean_key_def strip_def is_space_def plan_receive_def receipt_dispositions_def
        post_warehouse_def apply_delta_def open_qty_def raise_rule_def Let_def)
  then obtain po' where r: "receive ?po (Some ''k1'') ''RECEIVE'' False [(1, 4)] = Inr po'" by blast
  have "strip ''k1'' \<noteq> []" by (simp add: strip_def is_space_def)
  from receipt_idempotent [OF r this] r show ?thesis by blast
qed

end
