(* ===== verification/Profit.thy ===== *)
theory Profit imports LandedCost begin

text \<open>
  \<^verbatim>\<open>app/engines/profit.py\<close>: exchange gain of an order, the daily roll-up of order lines of one SKU, the
  bounds of a reporting period and the waterfall from revenue to net profit.  The roll-up combines
  the twelve cost lines of \<^theory_text>\<open>LandedCost\<close> line by line.
\<close>

section \<open>Exchange gain\<close>

record fx_gain =
  fx_amount :: "dec option"
  fx_currency :: string
  fx_formula :: explanation
  fx_gain_source :: src_note
  fx_complete :: bool

definition fx_gain_loss ::
  "dec \<Rightarrow> dec option \<Rightarrow> dec option \<Rightarrow> string \<Rightarrow> string \<Rightarrow> string \<Rightarrow> bool \<Rightarrow> fx_gain res" where
  "fx_gain_loss foreign_amount order_rate settlement_rate order_source settlement_source book_currency
     same_currency =
     (let unset = Inr \<lparr>fx_amount = None, fx_currency = book_currency, fx_formula = Note ''fx rate missing'' [] [],
                       fx_gain_source = Src_unset, fx_complete = False\<rparr> in
      if same_currency
      then Inr \<lparr>fx_amount = Some 0, fx_currency = book_currency, fx_formula = Note ''fx same currency'' [] [],
                fx_gain_source = Src_text ''same currency'', fx_complete = True\<rparr>
      else case (order_rate, settlement_rate) of
        (Some o_rate, Some s_rate) \<Rightarrow>
          if o_rate \<le> 0 \<or> s_rate \<le> 0 then unset
          else
            bindr (quantize (dmul foreign_amount (dsub s_rate o_rate))) (\<lambda>amount.
            bindr (mapr money_text [foreign_amount, s_rate, o_rate, amount]) (\<lambda>vs.
            Inr \<lparr>fx_amount = Some amount, fx_currency = book_currency, fx_formula = Note ''fx gain'' vs [],
                 fx_gain_source = Src_join [Src_text order_source, Src_text settlement_source],
                 fx_complete = True\<rparr>))
      | _ \<Rightarrow> unset)"

section \<open>Daily roll-up\<close>

type_synonym unit_row = "int \<times> dec \<times> lc_result"

record daily_rollup =
  ru_revenue :: dec
  ru_cost_total :: "dec option"
  ru_net_profit :: "dec option"
  ru_margin_percent :: "dec option"
  ru_book_revenue :: "dec option"
  ru_book_cost_total :: "dec option"
  ru_book_net_profit :: "dec option"
  ru_fx_gain :: "dec option"
  ru_fx_formula :: explanation
  ru_fx_source :: src_note
  ru_lines :: "cost_line list"
  ru_complete :: bool

text \<open>Python's \<open>next(...)\<close> without a default raises when the result has no line of the code.\<close>

definition line_with :: "lc_result \<Rightarrow> string \<Rightarrow> cost_line res" where
  "line_with result c =
     (case find (\<lambda>l. cl_code l = c) (lc_lines result) of None \<Rightarrow> Inl StopIteration | Some l \<Rightarrow> Inr l)"

text \<open>A source that prints as the empty text, and the sources of a roll-up joined without repetition.\<close>

fun blank_source :: "src_note \<Rightarrow> bool" where
  "blank_source (Src_text s) \<longleftrightarrow> s = []"
| "blank_source (Src_join xs) \<longleftrightarrow> (case xs of [] \<Rightarrow> True | [x] \<Rightarrow> blank_source x | _ \<Rightarrow> False)"
| "blank_source _ \<longleftrightarrow> False"

definition joined_sources :: "src_note list \<Rightarrow> src_note \<Rightarrow> src_note" where
  "joined_sources sources fallback =
     (let s = Src_join (uniq sources) in if blank_source s then fallback else s)"

fun combine_units ::
  "string \<Rightarrow> unit_row list \<Rightarrow> dec list \<times> src_note list \<times> bool \<times> string
     \<Rightarrow> (dec list \<times> src_note list \<times> bool \<times> string) res" where
  "combine_units c [] acc = Inr acc"
| "combine_units c ((quantity, price, result) # units) (paid, sources, whole, currency) =
     bindr (line_with result c) (\<lambda>line.
     (case (cl_complete line, cl_amount line) of
        (True, Some a) \<Rightarrow>
          bindr (quantize (dmul a (of_int quantity))) (\<lambda>x.
          combine_units c units (paid @ [x], sources @ [cl_source line], whole, cl_currency line))
      | _ \<Rightarrow> combine_units c units (paid, sources @ [cl_source line], False, cl_currency line)))"

definition combine_code :: "unit_row list \<Rightarrow> string \<Rightarrow> cost_line res" where
  "combine_code units c =
     bindr (combine_units c units ([], [], True, [])) (\<lambda>(paid, sources, whole, currency).
     if \<not> whole
     then Inr \<lparr>cl_code = c, cl_amount = None, cl_currency = currency,
               cl_formula = Note ''order line incomplete'' [] [],
               cl_source = joined_sources sources Src_unset, cl_complete = False\<rparr>
     else
       bindr (quantize (dsum paid)) (\<lambda>total_sum.
       bindr (money_text total_sum) (\<lambda>shown.
       Inr \<lparr>cl_code = c, cl_amount = Some total_sum, cl_currency = currency,
            cl_formula = Note ''sum of order lines'' [shown] [],
            cl_source = joined_sources sources Src_computed, cl_complete = True\<rparr>)))"

definition combine :: "unit_row list \<Rightarrow> cost_line list res" where
  "combine units = mapr (combine_code units) line_codes"

definition in_book :: "dec \<Rightarrow> dec option \<Rightarrow> dec option res" where
  "in_book rate v =
     (case v of None \<Rightarrow> Inr None | Some x \<Rightarrow> bindr (quantize (dmul x rate)) (\<lambda>b. Inr (Some b)))"

text \<open>Revenue, lines, cost, net profit and margin in the selling currency.\<close>

definition rollup_money ::
  "unit_row list \<Rightarrow> (dec \<times> cost_line list \<times> dec option \<times> dec option \<times> dec option) res" where
  "rollup_money units =
     bindr (mapr (\<lambda>(quantity, price, _). quantize (dmul price (of_int quantity))) units) (\<lambda>parts.
     bindr (quantize (dsum parts)) (\<lambda>revenue.
     bindr (combine units) (\<lambda>lines.
     bindr (total_of lines) (\<lambda>cost.
     case cost of
       None \<Rightarrow> Inr (revenue, lines, None, None, None)
     | Some c \<Rightarrow>
         bindr (quantize (dsub revenue c)) (\<lambda>net.
         if 0 < revenue
         then bindr (ddiv net revenue) (\<lambda>r. bindr (quantize (dmul r 100)) (\<lambda>margin.
              Inr (revenue, lines, Some c, Some net, Some margin)))
         else Inr (revenue, lines, Some c, Some net, None))))))"

definition rollup_daily :: "unit_row list \<Rightarrow> dec option \<Rightarrow> string \<Rightarrow> fx_gain \<Rightarrow> daily_rollup res" where
  "rollup_daily units book_rate book_currency fx =
     bindr (rollup_money units) (\<lambda>(revenue, lines, cost, net, margin).
     let unbooked =
           Inr \<lparr>ru_revenue = revenue, ru_cost_total = None, ru_net_profit = None, ru_margin_percent = None,
                ru_book_revenue = None, ru_book_cost_total = None, ru_book_net_profit = None,
                ru_fx_gain = fx_amount fx, ru_fx_formula = fx_formula fx, ru_fx_source = fx_gain_source fx,
                ru_lines = lines, ru_complete = False\<rparr> in
     case book_rate of
       None \<Rightarrow> unbooked
     | Some rate \<Rightarrow>
         if rate \<le> 0 then unbooked
         else
           bindr (quantize (dmul revenue rate)) (\<lambda>book_revenue.
           bindr (in_book rate cost) (\<lambda>book_cost.
           bindr (in_book rate net) (\<lambda>book_net.
           Inr \<lparr>ru_revenue = revenue, ru_cost_total = cost, ru_net_profit = net, ru_margin_percent = margin,
                ru_book_revenue = Some book_revenue, ru_book_cost_total = book_cost,
                ru_book_net_profit = book_net, ru_fx_gain = fx_amount fx, ru_fx_formula = fx_formula fx,
                ru_fx_source = fx_gain_source fx, ru_lines = lines, ru_complete = (cost \<noteq> None)\<rparr>))))"

section \<open>Reporting periods\<close>

definition month_start :: "date \<Rightarrow> date res" where
  "month_start d = (case ymd_of d of (y, m, _) \<Rightarrow> mk_date y m 1)"

definition month_last :: "date \<Rightarrow> date res" where
  "month_last start =
     (case ymd_of start of (y, m, _) \<Rightarrow>
        bindr (if m = 12 then mk_date (y + 1) 1 1 else mk_date y (m + 1) 1) (\<lambda>next_month.
        date_add next_month (- 1)))"

definition period_bounds :: "date \<Rightarrow> string \<Rightarrow> (date \<times> date) res" where
  "period_bounds stat_date grain =
     (if grain = ''day'' then Inr (stat_date, stat_date)
      else if grain = ''week'' then
        bindr (date_add stat_date (- weekday stat_date)) (\<lambda>start.
        bindr (date_add start 6) (\<lambda>stop. Inr (start, stop)))
      else if grain = ''month'' then
        bindr (month_start stat_date) (\<lambda>start.
        bindr (month_last start) (\<lambda>stop. Inr (start, stop)))
      else Inl ValueError)"

section \<open>Waterfall\<close>

record waterfall_step =
  wf_code :: string
  wf_amount :: "dec option"
  wf_running :: "dec option"
  wf_memo :: bool
  wf_formula :: explanation

definition wf_step :: "string \<Rightarrow> dec option \<Rightarrow> dec option \<Rightarrow> bool \<Rightarrow> explanation \<Rightarrow> waterfall_step" where
  "wf_step c amount running memo formula =
     \<lparr>wf_code = c, wf_amount = amount, wf_running = running, wf_memo = memo, wf_formula = formula\<rparr>"

fun waterfall_loop ::
  "(string \<Rightarrow> cost_line option) \<Rightarrow> string list \<Rightarrow> dec option \<Rightarrow> waterfall_step list res" where
  "waterfall_loop by_code [] running = Inr []"
| "waterfall_loop by_code (c # cs) running =
     (case (by_code c, running) of
        (Some line, Some r) \<Rightarrow>
          (case cl_amount line of
             None \<Rightarrow>
               bindr (waterfall_loop by_code cs None) (\<lambda>steps.
               Inr (wf_step c None None False (Note ''incomplete'' [] []) # steps))
           | Some a \<Rightarrow>
               bindr (quantize (ctx (- a))) (\<lambda>delta.
               bindr (quantize (dadd r delta)) (\<lambda>running.
               bindr (waterfall_loop by_code cs (Some running)) (\<lambda>steps.
               Inr (wf_step c (Some delta) (Some running) False (cl_formula line) # steps)))))
      | _ \<Rightarrow>
          bindr (waterfall_loop by_code cs None) (\<lambda>steps.
          Inr (wf_step c None None False (Note ''incomplete'' [] []) # steps)))"

text \<open>A dictionary built from the lines: of two lines with one code the later one wins.\<close>

definition lines_by_code :: "cost_line list \<Rightarrow> string \<Rightarrow> cost_line option" where
  "lines_by_code lines = map_of (rev (map (\<lambda>l. (cl_code l, l)) lines))"

definition build_waterfall ::
  "dec option \<Rightarrow> cost_line list \<Rightarrow> dec option \<Rightarrow> dec option \<Rightarrow> explanation \<Rightarrow> waterfall_step list res" where
  "build_waterfall revenue lines net fx_amt fx_note =
     bindr (waterfall_loop (lines_by_code lines) line_codes revenue) (\<lambda>steps.
     Inr ([wf_step ''REVENUE'' revenue revenue False (Note ''revenue'' [] [])] @ steps @
          [wf_step ''NET'' net net False (Note ''net'' [] []),
           wf_step ''FX_GAIN'' fx_amt net True fx_note]))"

section \<open>Lemmas\<close>

lemma combine_code_line:
  "res_all (\<lambda>l. cl_code l = c \<and> (cl_complete l \<longleftrightarrow> cl_amount l \<noteq> None) \<and> (\<forall>a. cl_amount l = Some a \<longrightarrow> micro a))
     (combine_code units c)"
  by (auto simp: combine_code_def split: prod.split dest: quantize_micro)

lemma combine_lines:
  assumes "combine units = Inr lines"
  shows "map cl_code lines = line_codes"
    and "\<forall>l\<in>set lines. (cl_complete l \<longleftrightarrow> cl_amount l \<noteq> None) \<and> (\<forall>a. cl_amount l = Some a \<longrightarrow> micro a)"
proof -
  have two: "list_all2 (\<lambda>c l. cl_code l = c \<and> (cl_complete l \<longleftrightarrow> cl_amount l \<noteq> None) \<and>
      (\<forall>a. cl_amount l = Some a \<longrightarrow> micro a)) line_codes lines"
    using assms unfolding combine_def mapr_Inr_list_all2
    by (rule list_all2_mono) (use combine_code_line in \<open>blast dest: res_allD\<close>)
  then show "map cl_code lines = line_codes"
    by (auto simp: list_all2_conv_all_nth list_eq_iff_nth_eq)
  from two show "\<forall>l\<in>set lines. (cl_complete l \<longleftrightarrow> cl_amount l \<noteq> None) \<and> (\<forall>a. cl_amount l = Some a \<longrightarrow> micro a)"
    by (auto dest!: list_all2_member)
qed

lemma lines_by_code_nth:
  assumes "map cl_code ls = cs" and "distinct cs"
  shows "map (lines_by_code ls) cs = map Some ls"
proof -
  have d: "distinct (map fst (rev (map (\<lambda>l. (cl_code l, l)) ls)))"
    using assms by (simp add: rev_map [symmetric] o_def)
  have "lines_by_code ls (cl_code l) = Some l" if "l \<in> set ls" for l
    unfolding lines_by_code_def using d that by (intro map_of_is_SomeI) auto
  then show ?thesis using assms(1) by (auto simp flip: assms(1))
qed

text \<open>Over complete lines the running amount goes down by exactly the amounts.\<close>

lemma waterfall_loop_exact:
  assumes "map by_code cs = map Some ls" and "\<forall>l\<in>set ls. \<exists>a. cl_amount l = Some a \<and> micro a"
    and "micro r" and "\<bar>r\<bar> + sum_list (map abs (amounts ls)) < 10 ^ 22"
  shows "\<exists>steps. waterfall_loop by_code cs (Some r) = Inr steps \<and> map wf_code steps = cs \<and>
    map wf_amount steps = map (\<lambda>a. Some (- a)) (amounts ls) \<and>
    wf_running (last (wf_step c0 None (Some r) m0 f0 # steps)) = Some (r - sum_list (amounts ls)) \<and>
    (\<forall>s\<in>set steps. \<not> wf_memo s)"
  using assms
proof (induction cs arbitrary: ls r c0 m0 f0)
  case (Cons c cs)
  from Cons.prems(1) obtain l ls' where ls: "ls = l # ls'" "by_code c = Some l" "map by_code cs = map Some ls'"
    by (auto simp: Cons_eq_map_conv)
  from Cons.prems(2) ls obtain a where a: "cl_amount l = Some a" "micro a" by auto
  have nn: "0 \<le> sum_list (map abs (amounts ls'))" by (induction ls') (auto split: option.split)
  have small: "\<bar>r\<bar> + \<bar>a\<bar> + sum_list (map abs (amounts ls')) < 10 ^ 22" using Cons.prems(4) ls a by simp
  have m: "micro (- a)" using a(2) by (rule micro_minus)
  have mr: "micro (r - a)"
    using Cons.prems(3) a(2) small nn by (auto simp: micro_iff intro: millionths_diff)
  have d: "dadd r (- a) = r - a" using mr by (simp add: dadd_def ctx_micro)
  have "\<bar>r - a\<bar> + sum_list (map abs (amounts ls')) < 10 ^ 22" using small by linarith
  from Cons.IH [OF ls(3) _ mr this, of c False "cl_formula l"] Cons.prems(2) ls(1)
  obtain steps where s: "waterfall_loop by_code cs (Some (r - a)) = Inr steps" "map wf_code steps = cs"
      "map wf_amount steps = map (\<lambda>a. Some (- a)) (amounts ls')"
      "wf_running (last (wf_step c None (Some (r - a)) False (cl_formula l) # steps)) =
         Some (r - a - sum_list (amounts ls'))" "\<forall>s\<in>set steps. \<not> wf_memo s"
    by auto
  have "waterfall_loop by_code (c # cs) (Some r) =
      Inr (wf_step c (Some (- a)) (Some (r - a)) False (cl_formula l) # steps)"
    using ls(2) a m mr d s(1) by (simp add: ctx_micro quantize_id)
  with s ls(1) a(1) show ?case
    by (cases "steps = []") (auto simp: wf_step_def algebra_simps)
qed (simp add: wf_step_def)

lemma waterfall_complete:
  assumes "map cl_code ls = line_codes" and "\<forall>l\<in>set ls. \<exists>a. cl_amount l = Some a \<and> micro a"
    and "micro r" and "\<bar>r\<bar> + sum_list (map abs (amounts ls)) < 10 ^ 22"
  shows "\<exists>steps. build_waterfall (Some r) ls net fx fn =
      Inr (wf_step ''REVENUE'' (Some r) (Some r) False (Note ''revenue'' [] []) # steps @
        [wf_step ''NET'' net net False (Note ''net'' [] []), wf_step ''FX_GAIN'' fx net True fn]) \<and>
    map wf_code steps = line_codes \<and> map wf_amount steps = map (\<lambda>a. Some (- a)) (amounts ls) \<and>
    wf_running (last steps) = Some (r - sum_list (amounts ls))"
proof -
  have "map (lines_by_code ls) line_codes = map Some ls"
    using assms(1) by (rule lines_by_code_nth) (simp add: line_codes_def)
  from waterfall_loop_exact [OF this assms(2-4), of "''REVENUE''" False "Note [] [] []"]
  obtain steps where s: "waterfall_loop (lines_by_code ls) line_codes (Some r) = Inr steps"
      "map wf_code steps = line_codes" "map wf_amount steps = map (\<lambda>a. Some (- a)) (amounts ls)"
      "wf_running (last (wf_step ''REVENUE'' None (Some r) False (Note [] [] []) # steps)) = Some (r - sum_list (amounts ls))"
    by blast
  from s(2) have "steps \<noteq> []" by (auto simp: line_codes_def)
  with s show ?thesis by (auto simp: build_waterfall_def)
qed

text \<open>What a roll-up returns, with its lines.\<close>

lemma rollup_money_parts:
  assumes "rollup_money units = Inr (rv, lines, cost, net, margin)"
  shows "micro rv" and "combine units = Inr lines" and "total_of lines = Inr cost"
    and "net = Some n \<Longrightarrow> \<exists>c. cost = Some c \<and> quantize (dsub rv c) = Inr n"
  using assms
  by (auto simp: rollup_money_def res_simps dest: quantize_micro split: option.splits if_splits)

lemma rollup_daily_fields:
  assumes "rollup_daily units rate book fx = Inr ru"
  obtains rv lines cost net margin where "rollup_money units = Inr (rv, lines, cost, net, margin)"
    and "ru_revenue ru = rv" and "ru_lines ru = lines"
    and "ru_net_profit ru \<noteq> None \<longrightarrow> ru_net_profit ru = net \<and> ru_cost_total ru = cost"
  using assms that
  by (auto simp: rollup_daily_def res_simps Let_def split: option.splits if_splits)

section \<open>An example day\<close>

definition demo_line :: "string \<times> dec \<Rightarrow> cost_line" where
  "demo_line x = \<lparr>cl_code = fst x, cl_amount = Some (snd x), cl_currency = ''SGD'', cl_formula = Note [] [] [],
     cl_source = Src_input, cl_complete = True\<rparr>"

definition demo_result :: lc_result where
  "demo_result = \<lparr>lc_lines = map demo_line (zip line_codes [20, 5, 0, 2, 1, 0, 2, 6, 2, 2, 5, 5]),
     lc_currency = ''SGD'', landed_cost = Some 30, net_profit = None, net_margin_percent = None,
     roi_percent = None, lc_complete = True, profit_complete = False\<rparr>"

definition demo_fx :: fx_gain where
  "demo_fx = \<lparr>fx_amount = Some 0, fx_currency = ''CNY'', fx_formula = Note [] [] [],
     fx_gain_source = Src_input, fx_complete = True\<rparr>"

lemma demo_line_with:
  "line_with demo_result ''PURCHASE'' = Inr (demo_line (''PURCHASE'', 20))"
  "line_with demo_result ''FIRST_MILE'' = Inr (demo_line (''FIRST_MILE'', 5))"
  "line_with demo_result ''DUTY'' = Inr (demo_line (''DUTY'', 0))"
  "line_with demo_result ''IMPORT_TAX'' = Inr (demo_line (''IMPORT_TAX'', 2))"
  "line_with demo_result ''BROKERAGE'' = Inr (demo_line (''BROKERAGE'', 1))"
  "line_with demo_result ''STORAGE'' = Inr (demo_line (''STORAGE'', 0))"
  "line_with demo_result ''FX_RESERVE'' = Inr (demo_line (''FX_RESERVE'', 2))"
  "line_with demo_result ''COMMISSION'' = Inr (demo_line (''COMMISSION'', 6))"
  "line_with demo_result ''PAYMENT'' = Inr (demo_line (''PAYMENT'', 2))"
  "line_with demo_result ''FULFILLMENT'' = Inr (demo_line (''FULFILLMENT'', 2))"
  "line_with demo_result ''ADS'' = Inr (demo_line (''ADS'', 5))"
  "line_with demo_result ''RETURN'' = Inr (demo_line (''RETURN'', 5))"
  by (simp_all add: line_with_def demo_result_def demo_line_def line_codes_def)

lemma demo_combine:
  "\<exists>ls. combine [(2, 100, demo_result)] = Inr ls \<and> amounts ls = [40, 10, 0, 4, 2, 0, 4, 12, 4, 4, 10, 10] \<and>
     total_of ls = Inr (Some 100)"
  by (simp add: combine_def combine_code_def line_codes_def demo_line_with)
    (simp add: demo_line_def money_text_def total_of_def map_filter_simps dec_eval)

lemma demo_rollup:
  "\<exists>ru. rollup_daily [(2, 100, demo_result)] (Some 7) ''CNY'' demo_fx = Inr ru \<and> ru_net_profit ru = Some 100 \<and>
     ru_revenue ru = 200 \<and> amounts (ru_lines ru) = [40, 10, 0, 4, 2, 0, 4, 12, 4, 4, 10, 10]"
proof -
  from demo_combine obtain ls where ls: "combine [(2, 100, demo_result)] = Inr ls"
      "amounts ls = [40, 10, 0, 4, 2, 0, 4, 12, 4, 4, 10, 10]" "total_of ls = Inr (Some 100)"
    by (elim exE conjE)
  have m: "rollup_money [(2, 100, demo_result)] = Inr (200, ls, Some 100, Some 100, Some 50)"
    by (simp add: rollup_money_def ls dec_eval)
  show ?thesis
    by (simp add: rollup_daily_def m in_book_def dec_eval ls)
qed

section \<open>Properties\<close>

text \<open>the waterfall of a day arrives at its net profit: for a roll-up with a net profit, while the
  amounts stay below ten to the 22, the steps start at the revenue, take off the twelve cost lines
  in order and end exactly at the net profit of the roll-up; exchange gain is a memo line that
  leaves it unchanged.\<close>

theorem waterfall_reaches_net:
  assumes "rollup_daily units rate book fx = Inr ru" and "ru_net_profit ru = Some n"
    and "\<bar>ru_revenue ru\<bar> + sum_list (map abs (amounts (ru_lines ru))) < 10 ^ 22"
  shows "\<exists>steps. build_waterfall (Some (ru_revenue ru)) (ru_lines ru) (Some n) (ru_fx_gain ru) (ru_fx_formula ru) =
      Inr (wf_step ''REVENUE'' (Some (ru_revenue ru)) (Some (ru_revenue ru)) False (Note ''revenue'' [] []) # steps @
        [wf_step ''NET'' (Some n) (Some n) False (Note ''net'' [] []),
         wf_step ''FX_GAIN'' (ru_fx_gain ru) (Some n) True (ru_fx_formula ru)]) \<and>
    map wf_code steps = line_codes \<and> wf_running (last steps) = Some n"
proof -
  from assms(1) obtain rv lines cost net margin where
      m: "rollup_money units = Inr (rv, lines, cost, net, margin)"
    and f: "ru_revenue ru = rv" "ru_lines ru = lines"
      "ru_net_profit ru \<noteq> None \<longrightarrow> ru_net_profit ru = net \<and> ru_cost_total ru = cost"
    by (rule rollup_daily_fields)
  note p = rollup_money_parts [OF m]
  from f(3) assms(2) p(4) [of n] obtain c where c: "cost = Some c" "quantize (dsub rv c) = Inr n" by auto
  note lines = combine_lines [OF p(2)]
  from total_of_None [OF p(3)] c(1) have full: "\<forall>l\<in>set lines. \<exists>a. cl_amount l = Some a \<and> micro a"
    using lines(2) by auto
  have b: "\<bar>rv\<bar> + sum_list (map abs (amounts lines)) < 10 ^ 22" using assms(3) f by simp
  have "c = sum_list (amounts lines)"
    using p(3) lines(2) b unfolding c(1) by (intro total_of_exact) auto
  moreover have "micro (rv - sum_list (amounts lines))"
  proof -
    have "millionths (sum_list (amounts lines))"
      using full by (intro millionths_sum_list) (force simp: set_amounts dest: micro_millionths)
    moreover have "\<bar>rv - sum_list (amounts lines)\<bar> < 10 ^ 22"
      using b abs_sum_list_le [of "amounts lines"] by linarith
    ultimately show ?thesis using p(1) by (simp add: micro_iff millionths_diff)
  qed
  ultimately have "n = rv - sum_list (amounts lines)"
    using c(2) by (simp add: dsub_def ctx_micro quantize_id)
  with waterfall_complete [OF lines(1) full p(1) b, of "Some n" "ru_fx_gain ru" "ru_fx_formula ru"] f
  show ?thesis by auto
qed

theorem waterfall_reaches_net_witness:
  "\<exists>ru (steps :: waterfall_step list). rollup_daily [(2, 100, demo_result)] (Some 7) ''CNY'' demo_fx = Inr ru \<and>
     map wf_code steps = line_codes \<and> wf_running (last steps) = Some 100"
proof -
  from demo_rollup obtain ru where r: "rollup_daily [(2, 100, demo_result)] (Some 7) ''CNY'' demo_fx = Inr ru"
    and n: "ru_net_profit ru = Some 100"
    and a: "ru_revenue ru = 200" "amounts (ru_lines ru) = [40, 10, 0, 4, 2, 0, 4, 12, 4, 4, 10, 10]"
    by (elim exE conjE)
  have "\<bar>ru_revenue ru\<bar> + sum_list (map abs (amounts (ru_lines ru))) < 10 ^ 22" by (simp add: a)
  from waterfall_reaches_net [OF r n this] obtain steps :: "waterfall_step list" where
      s: "map wf_code steps = line_codes" "wf_running (last steps) = Some 100"
    by (elim exE conjE) (rule that; assumption)
  show ?thesis by (rule exI [of _ ru], rule exI [of _ steps], intro conjI r s)
qed

text \<open>reporting periods partition the calendar: a period contains the day it was computed for, and
  every day of the period has the same period.\<close>

theorem period_bounds_partition:
  assumes "date_ok d" and "period_bounds d grain = Inr (a, b)"
  shows "a \<le> d \<and> d \<le> b \<and> (\<forall>e. a \<le> e \<and> e \<le> b \<longrightarrow> period_bounds e grain = Inr (a, b))"
proof -
  consider "grain = ''day''" | "grain = ''week''" | "grain = ''month''"
    using assms(2) by (auto simp: period_bounds_def split: if_splits)
  then show ?thesis
  proof cases
    case 1
    with assms(2) show ?thesis by (auto simp: period_bounds_def)
  next
    case 2
    from assms(2) 2 have a: "a = d - weekday d" "date_ok a" "b = a + 6" "date_ok b"
      by (auto simp: period_bounds_def date_add_def res_simps split: if_splits)
    have week: "e - weekday e = a" if "a \<le> e" "e \<le> b" for e
    proof -
      have "d + 6 - (d + 6) mod 7 = 7 * ((d + 6) div 7)" by (rule minus_mod_eq_mult_div)
      then have "e + 6 = (e - a) + 7 * ((d + 6) div 7)" by (simp add: a(1) weekday_def)
      then have "weekday e = (e - a) mod 7" unfolding weekday_def by (metis mod_mult_self2)
      also have "\<dots> = e - a" using that a(3) by (intro mod_pos_pos_trivial) auto
      finally show ?thesis by simp
    qed
    have "period_bounds e grain = Inr (a, b)" if "a \<le> e" "e \<le> b" for e
      using 2 week [OF that] a(2,4) unfolding a(3) by (simp add: period_bounds_def date_add_def)
    moreover have "a \<le> d" "d \<le> b" using weekday_bounds [of d] unfolding a(1,3) by simp_all
    ultimately show ?thesis by blast
  next
    case 3
    obtain y m k where ymd: "ymd_of d = (y, m, k)" by (metis prod_cases3)
    have d1: "1 \<le> d" using assms(1) by (simp add: date_ok_def)
    note p = ymd_of_props [OF d1 ymd]
    let ?first = "days_before_year y + days_before_month y m + 1"
    let ?stop = "days_before_year y + days_before_month y m + days_in_month y m"
    from assms(2) 3 ymd have y: "1 \<le> y" "y \<le> 9999" and a: "a = ?first"
      and stop: "month_last a = Inr b"
      by (auto simp: period_bounds_def month_start_def mk_date_def res_simps split: if_splits)
    have "0 \<le> days_before_month y m"
      using days_before_month_mono [of 1 m y] days_in_month_bounds [of y 1] p by (cases "m = 1") auto
    moreover have "0 \<le> days_before_year y"
      using days_before_year_mono [of 1 y] y by (cases "y = 1") (auto simp: days_before_year_def)
    ultimately have f1: "1 \<le> ?first" by simp
    have in_month: "ymd_of e = (y, m, e - days_before_year y - days_before_month y m)"
      if "?first \<le> e" "e \<le> ?stop" for e
      using that p f1 by (intro ymd_of_unique) auto
    have ymd_a: "ymd_of a = (y, m, 1)"
      using in_month [of ?first] days_in_month_bounds [of y m] by (simp add: a)
    have b: "b = ?stop"
    proof (cases "m = 12")
      case True
      with stop ymd_a days_of_year [of y] show ?thesis
        by (auto simp: month_last_def mk_date_def date_add_def res_simps days_before_year_step days_in_month_def
            split: if_splits)
    next
      case False
      with stop ymd_a p days_before_month_Suc [of m y] show ?thesis
        by (auto simp: month_last_def mk_date_def date_add_def res_simps add.commute split: if_splits)
    qed
    have same: "period_bounds e grain = Inr (a, b)" if "a \<le> e" "e \<le> b" for e
    proof -
      have "month_start e = Inr a"
        using in_month [of e] that y p(1,2) days_in_month_bounds [of y m]
        by (simp add: a b month_start_def mk_date_def)
      with 3 stop show ?thesis by (simp add: period_bounds_def)
    qed
    have "a \<le> d" "d \<le> b" using p by (auto simp: a b)
    with same show ?thesis by blast
  qed
qed

theorem period_bounds_partition_witness:
  "period_bounds 738926 ''month'' = Inr (738917, 738945) \<and> period_bounds 738945 ''month'' = Inr (738917, 738945)"
proof -
  have p: "period_bounds 738926 ''month'' = Inr (738917, 738945)" by code_simp
  have "date_ok 738926" by (simp add: date_ok_def max_ordinal_def)
  from period_bounds_partition [OF this p] p show ?thesis by simp
qed

end
