(* ===== verification/Pricing.thy ===== *)
theory Pricing imports LandedCost begin

text \<open>
  \<^verbatim>\<open>app/engines/pricing.py\<close>: from a target net margin back to a selling price.  Three probe prices split
  the twelve lines of \<^theory_text>\<open>LandedCost\<close> into a fixed part and a part in proportion to the price; the price is
  solved for and then matched to the last digit by computing the landed cost again.
\<close>

record price_point =
  pp_target :: dec
  pp_price :: "dec option"
  pp_margin :: "dec option"
  pp_reachable :: bool
  pp_formula :: explanation

record pricing_result =
  suggested_price :: "dec option"
  break_even_price :: "dec option"
  break_even_quantity :: "dec option"
  pr_reachable :: bool
  pr_formula :: explanation
  quantity_formula :: explanation
  pr_currency :: string
  price_curve :: "price_point list"
  verified :: "lc_result option"
  gaps :: "string list"

definition at_price ::
  "lc_input \<Rightarrow> tax_fact list \<Rightarrow> fee_fact list \<Rightarrow> string list \<Rightarrow> dec \<Rightarrow> lc_result res" where
  "at_price data taxes fees off price =
     compute_landed_cost (data\<lparr>selling_price := Some price\<rparr>) taxes fees off"

text \<open>The margins of the curve.  The loop adds five until the end is passed; its fuel is one round per
  step, and a loop that does not end in it (a target beyond all digits of a Decimal) is reported as
  \<open>RuntimeError\<close>, standing for a call that does not return.\<close>

fun curve_loop :: "nat \<Rightarrow> dec \<Rightarrow> dec \<Rightarrow> dec list option" where
  "curve_loop 0 stop current = None"
| "curve_loop (Suc fuel) stop current =
     (if current \<le> stop then map_option ((#) current) (curve_loop fuel stop (dadd current 5))
      else Some [])"

definition curve_percents :: "dec \<Rightarrow> dec list res" where
  "curve_percents target =
     (let stop = dadd target 10 in
      case curve_loop (Suc (nat (\<lfloor>stop / 5\<rfloor> + 1))) stop 0 of
        None \<Rightarrow> Inl RuntimeError
      | Some points \<Rightarrow>
          let points = (if target \<notin> set points then points @ [target] else points);
              points = (if stop \<notin> set points then points @ [stop] else points)
          in Inr (sort points))"

definition probe_prices :: "dec list" where
  "probe_prices = [1, 2, 4]"

definition slope_tolerance :: dec where
  "slope_tolerance = 2 / 1000000"

definition line_of :: "lc_result \<Rightarrow> string \<Rightarrow> cost_line res" where
  "line_of result c =
     (case find (\<lambda>l. cl_code l = c) (lc_lines result) of None \<Rightarrow> Inl StopIteration | Some l \<Rightarrow> Inr l)"

text \<open>The amounts of one line at the three probe prices; \<open>amount or Decimal("0")\<close>.\<close>

definition amount_at :: "string \<Rightarrow> lc_result \<Rightarrow> dec res" where
  "amount_at c run = bindr (line_of run c) (\<lambda>l. Inr (or_zero (cl_amount l)))"

definition gap_at :: "string \<Rightarrow> lc_result \<Rightarrow> bool res" where
  "gap_at c run = bindr (line_of run c) (\<lambda>l. Inr (\<not> cl_complete l \<or> cl_amount l = None))"

fun any_gap :: "string \<Rightarrow> lc_result list \<Rightarrow> bool res" where
  "any_gap c [] = Inr False"
| "any_gap c (run # runs) = bindr (gap_at c run) (\<lambda>g. if g then Inr True else any_gap c runs)"

fun gap_codes :: "lc_result list \<Rightarrow> string list \<Rightarrow> string list res" where
  "gap_codes runs [] = Inr []"
| "gap_codes runs (c # cs) =
     bindr (any_gap c runs) (\<lambda>g. bindr (gap_codes runs cs) (\<lambda>gs. Inr (if g then c # gs else gs)))"

datatype decomposition =
    Linear dec dec
  | Gaps "string list"

definition slope :: "dec \<Rightarrow> dec \<Rightarrow> dec \<Rightarrow> dec \<Rightarrow> dec res" where
  "slope a0 a1 p0 p1 = ddiv (dsub a1 a0) (dsub p1 p0)"

fun decompose_loop :: "lc_result list \<Rightarrow> string list \<Rightarrow> dec \<Rightarrow> dec \<Rightarrow> decomposition res" where
  "decompose_loop runs [] fixed variable = Inr (Linear fixed variable)"
| "decompose_loop runs (c # cs) fixed variable =
     bindr (mapr (amount_at c) runs) (\<lambda>as.
     bindr (slope (as ! 0) (as ! 1) (probe_prices ! 0) (probe_prices ! 1)) (\<lambda>slope_ab.
     bindr (slope (as ! 1) (as ! 2) (probe_prices ! 1) (probe_prices ! 2)) (\<lambda>slope_bc.
     if slope_tolerance < \<bar>dsub slope_ab slope_bc\<bar> then Inr (Gaps [''NON_LINEAR''])
     else decompose_loop runs cs (dadd fixed (dsub (as ! 0) (dmul slope_ab (probe_prices ! 0))))
            (dadd variable slope_ab))))"

definition decompose ::
  "lc_input \<Rightarrow> tax_fact list \<Rightarrow> fee_fact list \<Rightarrow> string list \<Rightarrow> (decomposition \<times> lc_result) res" where
  "decompose data taxes fees off =
     bindr (mapr (at_price data taxes fees off) probe_prices) (\<lambda>runs.
     bindr (gap_codes runs line_codes) (\<lambda>missing.
     if missing \<noteq> [] then Inr (Gaps missing, runs ! 0)
     else bindr (decompose_loop runs line_codes 0 0) (\<lambda>d. Inr (d, runs ! 0))))"

text \<open>Among the rounded price and its two neighbours, the first whose margin is closest to the target.\<close>

definition margin_gap :: "dec \<Rightarrow> lc_result \<Rightarrow> dec option" where
  "margin_gap target r = map_option (\<lambda>m. \<bar>dsub m target\<bar>) (net_margin_percent r)"

fun match_loop ::
  "(dec \<Rightarrow> lc_result res) \<Rightarrow> dec \<Rightarrow> dec list \<Rightarrow> dec \<times> lc_result \<times> dec option \<Rightarrow> (dec \<times> lc_result) res" where
  "match_loop run target [] (best_price, best, best_gap) = Inr (best_price, best)"
| "match_loop run target (candidate # cs) (best_price, best, best_gap) =
     (if candidate \<le> 0 then match_loop run target cs (best_price, best, best_gap)
      else
        bindr (run candidate) (\<lambda>checked.
        case margin_gap target checked of
          None \<Rightarrow> match_loop run target cs (best_price, best, best_gap)
        | Some gap \<Rightarrow>
            if best_gap = None \<or> gap < the best_gap
            then match_loop run target cs (candidate, checked, Some gap)
            else match_loop run target cs (best_price, best, best_gap)))"

definition match_margin :: "(dec \<Rightarrow> lc_result res) \<Rightarrow> dec \<Rightarrow> dec \<Rightarrow> (dec \<times> lc_result) res" where
  "match_margin run price target_percent =
     bindr (quantize target_percent) (\<lambda>target.
     bindr (run price) (\<lambda>best.
     bindr (quantize (dsub price (1 / 1000000))) (\<lambda>below.
     bindr (quantize (dadd price (1 / 1000000))) (\<lambda>above.
     match_loop run target [below, price, above] (price, best, margin_gap target best)))))"

definition unreachable_point :: "dec \<Rightarrow> explanation \<Rightarrow> price_point" where
  "unreachable_point target formula =
     \<lparr>pp_target = target, pp_price = None, pp_margin = None, pp_reachable = False, pp_formula = formula\<rparr>"

definition quote :: "(dec \<Rightarrow> lc_result res) \<Rightarrow> dec \<Rightarrow> dec \<Rightarrow> dec \<Rightarrow> price_point res" where
  "quote run fixed variable target_percent =
     bindr (ddiv target_percent 100) (\<lambda>margin.
     if fixed \<le> 0 then
       bindr (quantize (dmul (dsub 1 variable) 100)) (\<lambda>constant.
       bindr (money_text constant) (\<lambda>shown.
       Inr (unreachable_point target_percent (Note ''no fixed cost'' [shown] []))))
     else
       let denominator = dsub (dsub 1 variable) margin in
       if denominator \<le> 0 then
         bindr (mapr money_text [target_percent, variable]) (\<lambda>vs.
         Inr (unreachable_point target_percent (Note ''no price reaches'' vs [])))
       else
         bindr (ddiv fixed denominator) (\<lambda>d.
         bindr (quantize d) (\<lambda>price0.
         bindr (match_margin run price0 target_percent) (\<lambda>(price, checked).
         bindr (mapr money_text [fixed, variable, margin, price]) (\<lambda>vs.
         Inr \<lparr>pp_target = target_percent, pp_price = Some price, pp_margin = net_margin_percent checked,
              pp_reachable = profit_complete checked, pp_formula = Note ''price'' vs []\<rparr>)))))"

definition quantity_of ::
  "(dec \<Rightarrow> lc_result res) \<Rightarrow> dec option \<Rightarrow> dec option \<Rightarrow> dec option \<Rightarrow> (dec option \<times> explanation) res" where
  "quantity_of run own_price suggested period_fixed_cost =
     (case period_fixed_cost of
        None \<Rightarrow> Inr (None, Note ''no fixed cost given'' [] [])
      | Some period \<Rightarrow>
          let reference = (case own_price of
              Some p \<Rightarrow> if 0 < p then Some p else suggested
            | None \<Rightarrow> suggested) in
          case reference of
            None \<Rightarrow> Inr (None, Note ''no usable price'' [] [])
          | Some price \<Rightarrow>
              if price \<le> 0 then Inr (None, Note ''no usable price'' [] [])
              else
                bindr (run price) (\<lambda>unit.
                case net_profit unit of
                  None \<Rightarrow> Inr (None, Note ''unit profit not positive'' [] [])
                | Some n \<Rightarrow>
                    if n \<le> 0 then Inr (None, Note ''unit profit not positive'' [] [])
                    else
                      bindr (ddiv period n) (\<lambda>d.
                      bindr (quantize d) (\<lambda>quantity.
                      bindr (mapr money_text [period, n, quantity]) (\<lambda>vs.
                      Inr (Some quantity, Note ''break-even quantity'' vs []))))))"

definition suggested_point :: "dec \<Rightarrow> price_point list \<Rightarrow> price_point" where
  "suggested_point target curve =
     (case find (\<lambda>p. pp_target p = target) curve of Some p \<Rightarrow> p | None \<Rightarrow> last curve)"

definition suggest_prices ::
  "lc_input \<Rightarrow> tax_fact list \<Rightarrow> fee_fact list \<Rightarrow> dec \<Rightarrow> dec option \<Rightarrow> string list \<Rightarrow> pricing_result res" where
  "suggest_prices data taxes fees target_margin_percent period_fixed_cost off =
     bindr (decompose data taxes fees off) (\<lambda>(parts, sample).
     case parts of
       Gaps missing \<Rightarrow>
         Inr \<lparr>suggested_price = None, break_even_price = None, break_even_quantity = None,
              pr_reachable = False, pr_formula = Note ''incomplete'' [] [],
              quantity_formula = Note ''incomplete'' [] [], pr_currency = selling_currency data,
              price_curve = [], verified = Some sample, gaps = missing\<rparr>
     | Linear fixed variable \<Rightarrow>
         let run = at_price data taxes fees off in
         bindr (curve_percents target_margin_percent) (\<lambda>points.
         bindr (mapr (quote run fixed variable) points) (\<lambda>curve.
         let suggested = suggested_point target_margin_percent curve in
         bindr (quote run fixed variable 0) (\<lambda>break_even.
         bindr (quantity_of run (selling_price data) (pp_price suggested) period_fixed_cost)
           (\<lambda>(quantity, quantity_note).
         bindr (case pp_price suggested of
                  None \<Rightarrow> Inr None
                | Some p \<Rightarrow> bindr (run p) (\<lambda>v. Inr (Some v))) (\<lambda>checked.
         Inr \<lparr>suggested_price = pp_price suggested, break_even_price = pp_price break_even,
              break_even_quantity = quantity, pr_reachable = pp_reachable suggested,
              pr_formula = pp_formula suggested, quantity_formula = quantity_note,
              pr_currency = selling_currency data, price_curve = curve, verified = checked,
              gaps = []\<rparr>))))))"

section \<open>Properties\<close>

lemma margin_gap_Some: "margin_gap t r = Some g \<longleftrightarrow> (\<exists>m. net_margin_percent r = Some m \<and> g = \<bar>dsub m t\<bar>)"
  by (auto simp: margin_gap_def)

definition no_worse :: "dec \<Rightarrow> lc_result \<Rightarrow> lc_result \<Rightarrow> bool" where
  "no_worse t r v \<longleftrightarrow> (\<forall>g. margin_gap t v = Some g \<longrightarrow> (\<exists>g'. margin_gap t r = Some g' \<and> g' \<le> g))"

lemma no_worse_refl: "no_worse t r r"
  by (auto simp: no_worse_def)

lemma no_worse_trans: "no_worse t a b \<Longrightarrow> no_worse t b c \<Longrightarrow> no_worse t a c"
  unfolding no_worse_def by (meson order_trans)

lemma no_worse_total: "no_worse t a b \<or> no_worse t b a"
  by (cases "margin_gap t a"; cases "margin_gap t b") (auto simp: no_worse_def)

text \<open>The loop keeps the best candidate seen so far.\<close>

lemma match_loop_best:
  assumes "match_loop run t cs (p0, r0, margin_gap t r0) = Inr (p, r)" and "run p0 = Inr r0"
  shows "run p = Inr r \<and> (p = p0 \<or> p \<in> set cs) \<and> no_worse t r r0 \<and>
    (\<forall>c\<in>set cs. 0 < c \<longrightarrow> (\<exists>v. run c = Inr v \<and> no_worse t r v))"
  using assms
proof (induction cs arbitrary: p0 r0)
  case (Cons c cs)
  show ?case
  proof (cases "c \<le> 0")
    case True
    with Cons.prems(1) have "match_loop run t cs (p0, r0, margin_gap t r0) = Inr (p, r)" by simp
    from Cons.IH [OF this Cons.prems(2)] True show ?thesis by auto
  next
    case False
    with Cons.prems(1) obtain v where v: "run c = Inr v" by (auto simp: res_simps)
    show ?thesis
    proof (cases "\<exists>g. margin_gap t v = Some g \<and> (margin_gap t r0 = None \<or> g < the (margin_gap t r0))")
      case True
      with Cons.prems(1) False v have "match_loop run t cs (c, v, margin_gap t v) = Inr (p, r)" by auto
      note ih = Cons.IH [OF this v]
      moreover have "no_worse t v r0" using True by (auto simp: no_worse_def)
      then have "no_worse t r r0" using ih no_worse_trans by blast
      ultimately show ?thesis using v by auto
    next
      case worse: False
      with Cons.prems(1) False v have m: "match_loop run t cs (p0, r0, margin_gap t r0) = Inr (p, r)"
        by (auto split: option.splits)
      note ih = Cons.IH [OF this Cons.prems(2)]
      moreover have "no_worse t r0 v" using worse by (auto simp: no_worse_def not_less)
      then have "no_worse t r v" using ih no_worse_trans by blast
      ultimately show ?thesis using v by auto
    qed
  qed
qed (simp add: no_worse_refl)

lemma match_margin_parts:
  assumes "match_margin run price target_percent = Inr (p, r)"
  obtains t best below above where "quantize target_percent = Inr t" "run price = Inr best"
    "quantize (dsub price (1 / 1000000)) = Inr below" "quantize (dadd price (1 / 1000000)) = Inr above"
    "match_loop run t [below, price, above] (price, best, margin_gap t best) = Inr (p, r)"
  using assms that by (auto simp: match_margin_def res_simps)

lemma match_margin_run:
  assumes "match_margin run price target_percent = Inr (p, r)" shows "run p = Inr r"
  using assms by (rule match_margin_parts) (use match_loop_best in blast)

text \<open>the price that is matched to a target margin is the best of its neighbourhood: the returned
  result is the landed cost computed at the returned price, and no positive price among the rounded
  one and its two neighbours at one millionth has a margin closer to the target.\<close>

theorem match_margin_best:
  assumes "match_margin run price target_percent = Inr (p, r)"
  shows "run p = Inr r \<and> (\<exists>t below above. quantize target_percent = Inr t \<and>
    quantize (dsub price (1 / 1000000)) = Inr below \<and> quantize (dadd price (1 / 1000000)) = Inr above \<and>
    p \<in> {below, price, above} \<and>
    (\<forall>c\<in>{below, price, above}. 0 < c \<longrightarrow> (\<exists>v. run c = Inr v \<and>
       (\<forall>m. net_margin_percent v = Some m \<longrightarrow>
          (\<exists>m'. net_margin_percent r = Some m' \<and> \<bar>dsub m' t\<bar> \<le> \<bar>dsub m t\<bar>)))))"
proof -
  from assms obtain t best below above where q: "quantize target_percent = Inr t" "run price = Inr best"
      "quantize (dsub price (1 / 1000000)) = Inr below" "quantize (dadd price (1 / 1000000)) = Inr above"
    and m: "match_loop run t [below, price, above] (price, best, margin_gap t best) = Inr (p, r)"
    by (rule match_margin_parts)
  note b = match_loop_best [OF m q(2)]
  have n: "no_worse t r v \<longleftrightarrow> (\<forall>k. net_margin_percent v = Some k \<longrightarrow>
      (\<exists>k'. net_margin_percent r = Some k' \<and> \<bar>dsub k' t\<bar> \<le> \<bar>dsub k t\<bar>))" for v
    unfolding no_worse_def margin_gap_Some by blast
  from b have "p \<in> {below, price, above}" "\<forall>c\<in>{below, price, above}. 0 < c \<longrightarrow> (\<exists>v. run c = Inr v \<and> no_worse t r v)"
    by auto
  with b q show ?thesis unfolding n by blast
qed

lemma multiples_below: "(k < nat (\<lfloor>stop / 5\<rfloor> + 1)) = (5 * of_nat k \<le> (stop :: rat))"
proof -
  have "(5 * of_nat k \<le> stop) = (of_int (int k) \<le> stop / 5)" by auto
  also have "\<dots> = (int k \<le> \<lfloor>stop / 5\<rfloor>)" by (simp only: le_floor_iff)
  finally show ?thesis by (simp add: zless_nat_eq_int_zless)
qed

lemma curve_loop_exact:
  assumes "k \<le> n" and "n - k < fuel" and "n = nat (\<lfloor>stop / 5\<rfloor> + 1)" and "stop < 10 ^ 27"
  shows "curve_loop fuel stop (5 * of_nat k) = Some (map (\<lambda>i. 5 * of_nat i) [k..<n])"
  using assms
proof (induction fuel arbitrary: k)
  case (Suc fuel)
  show ?case
  proof (cases "k < n")
    case True
    then have le: "5 * of_nat k \<le> stop" unfolding Suc.prems(3) multiples_below .
    have "ctx (of_int (5 * int k + 5)) = of_int (5 * int k + 5)"
    proof -
      have "(of_int (5 * int k + 5) :: rat) < of_int (10 ^ 28)" using le Suc.prems(4) by simp
      then have "5 * int k + 5 < 10 ^ 28" by (simp only: of_int_less_iff)
      then show ?thesis unfolding ctx_def by (intro round_sig_int) auto
    qed
    then have "dadd (5 * of_nat k) 5 = 5 * of_nat (Suc k)" by (simp add: dadd_def algebra_simps)
    moreover have "curve_loop fuel stop (5 * of_nat (Suc k)) = Some (map (\<lambda>i. 5 * of_nat i) [Suc k..<n])"
      using True Suc.prems by (intro Suc.IH) auto
    ultimately show ?thesis using le True by (simp add: upt_conv_Cons)
  next
    case False
    then have "\<not> 5 * of_nat k \<le> stop" unfolding Suc.prems(3) multiples_below .
    with False Suc.prems(1) show ?thesis by simp
  qed
qed simp

lemma set_map_upt:
  fixes f :: "nat \<Rightarrow> rat"
  assumes "\<And>i. (i < n) = (f i \<le> s)"
  shows "set (map f [0..<n]) = {p. \<exists>i. p = f i \<and> p \<le> s}"
proof -
  have "set (map f [0..<n]) = f ` {i. i < n}" by auto
  also have "\<dots> = {p. \<exists>i. p = f i \<and> p \<le> s}" unfolding assms by blast
  finally show ?thesis .
qed

lemma curve_percents_of_loop:
  assumes "curve_loop (Suc (nat (\<lfloor>dadd target 10 / 5\<rfloor> + 1))) (dadd target 10) 0 = Some ps"
  shows "\<exists>points. curve_percents target = Inr points \<and> sorted points \<and>
    set points = set ps \<union> {target, dadd target 10}"
  using assms by (auto simp: curve_percents_def Let_def simp del: curve_loop.simps)

text \<open>the curve of a target margin is computed and complete: for every target below ten to the 26
  it is sorted and holds exactly the multiples of five from zero up to ten points beyond the target,
  the target itself and that end point.\<close>

theorem curve_percents_complete:
  assumes "target < 10 ^ 26"
  shows "\<exists>points. curve_percents target = Inr points \<and> sorted points \<and>
    set points = {p. \<exists>i. p = 5 * of_nat i \<and> p \<le> dadd target 10} \<union> {target, dadd target 10}"
proof -
  let ?stop = "dadd target 10"
  let ?n = "nat (\<lfloor>?stop / 5\<rfloor> + 1)"
  have "?stop \<le> ctx (5 * 10 ^ 26)" unfolding dadd_def using assms by (intro ctx_mono) simp
  also have "ctx (5 * 10 ^ 26) = 5 * 10 ^ 26"
    using round_sig_int [of 10 "5 * 10 ^ 26" 28] by (simp add: ctx_def)
  finally have "?stop < 10 ^ 27" by simp
  then have "curve_loop (Suc ?n) ?stop (5 * of_nat 0) = Some (map (\<lambda>i. 5 * of_nat i) [0..<?n])"
    by (intro curve_loop_exact [OF _ _ refl]) simp_all
  then have l: "curve_loop (Suc ?n) ?stop 0 = Some (map (\<lambda>i. 5 * of_nat i) [0..<?n])"
    by (simp del: curve_loop.simps)
  from curve_percents_of_loop [OF l] show ?thesis
    unfolding set_map_upt [of ?n "\<lambda>i. 5 * of_nat i" ?stop, OF multiples_below] .
qed

theorem curve_percents_complete_witness:
  "\<exists>points. curve_percents 12 = Inr points \<and> sorted points \<and> 20 \<in> set points \<and> 12 \<in> set points"
proof -
  have d: "dadd 12 10 = 22" by (simp add: dec_eval)
  have "(20 :: rat) = 5 * of_nat 4" by simp
  then have "\<exists>i. (20 :: rat) = 5 * of_nat i \<and> (20 :: rat) \<le> 22" by (intro exI [of _ 4]) simp
  moreover from curve_percents_complete [of 12] obtain points where "curve_percents 12 = Inr points" "sorted points"
      "set points = {p. \<exists>i. p = 5 * of_nat i \<and> p \<le> 22} \<union> {12, 22}"
    unfolding d by auto
  ultimately show ?thesis by (intro exI [of _ points]) simp
qed

lemma quote_price:
  assumes "quote run fixed variable t = Inr pp" and "pp_price pp = Some p"
  shows "\<exists>v. run p = Inr v \<and> pp_margin pp = net_margin_percent v \<and> pp_reachable pp = profit_complete v"
proof -
  have pos: "0 < fixed"
  proof (rule ccontr)
    assume "\<not> 0 < fixed"
    with assms show False by (auto simp: quote_def unreachable_point_def res_simps)
  qed
  obtain m where m: "ddiv t 100 = Inr m" by (simp add: ddiv_def)
  have den: "0 < dsub (dsub 1 variable) m"
  proof (rule ccontr)
    assume "\<not> 0 < dsub (dsub 1 variable) m"
    then have "dsub (dsub 1 variable) m \<le> 0" by simp
    with pos m have "quote run fixed variable t = bindr (mapr money_text [t, variable]) (\<lambda>vs.
         Inr (unreachable_point t (Note ''no price reaches'' vs [])))"
      by (simp add: quote_def Let_def del: mapr.simps)
    with assms show False by (auto simp: unreachable_point_def bindr_eq_Inr simp del: mapr.simps)
  qed
  from assms(1) pos m den obtain price0 v where "match_margin run price0 t = Inr (p, v)"
      "pp_margin pp = net_margin_percent v" "pp_reachable pp = profit_complete v"
    using assms(2) by (simp add: quote_def Let_def res_simps) force
  then show ?thesis using match_margin_run by blast
qed


text \<open>a suggested price is verified: whenever a price is suggested, the returned result is the
  landed cost computed at exactly that price, it is reachable exactly when the net profit of that
  result is complete, and the margin on the curve is the margin of that result.\<close>

theorem suggested_price_verified:
  assumes "suggest_prices data taxes fees target period off = Inr r" and "suggested_price r = Some p"
  shows "\<exists>v. verified r = Some v \<and> compute_landed_cost (data\<lparr>selling_price := Some p\<rparr>) taxes fees off = Inr v \<and>
    pr_reachable r = profit_complete v \<and>
    (\<exists>point\<in>set (price_curve r). pp_price point = Some p \<and> pp_margin point = net_margin_percent v)"
proof -
  let ?run = "at_price data taxes fees off"
  from assms(1) obtain parts sample where d: "decompose data taxes fees off = Inr (parts, sample)"
    by (auto simp: suggest_prices_def res_simps)
  show ?thesis
  proof (cases parts)
    case (Gaps missing)
    with assms d show ?thesis by (auto simp: suggest_prices_def)
  next
    case (Linear fixed variable)
    with assms d obtain points where curve: "mapr (quote ?run fixed variable) points = Inr (price_curve r)"
      and points: "curve_percents target = Inr points"
      and sp: "pp_price (suggested_point target (price_curve r)) = Some p"
        "pr_reachable r = pp_reachable (suggested_point target (price_curve r))"
      and v: "\<exists>v. ?run p = Inr v \<and> verified r = Some v"
      by (auto simp: suggest_prices_def Let_def res_simps)
    have "points \<noteq> []"
    proof -
      from points obtain ps where "points = sort ps" "target \<in> set ps"
        by (auto simp: curve_percents_def Let_def simp del: curve_loop.simps split: option.splits if_splits)
      then show ?thesis by (metis empty_iff set_empty set_sort)
    qed
    then have "price_curve r \<noteq> []" using mapr_Inr_length [OF curve] by auto
    then have mem: "suggested_point target (price_curve r) \<in> set (price_curve r)"
      by (auto simp: suggested_point_def find_Some_iff split: option.split)
    from mapr_Inr_set [OF curve mem] obtain t
      where "quote ?run fixed variable t = Inr (suggested_point target (price_curve r))" by blast
    from quote_price [OF this sp(1)] v sp mem show ?thesis by (auto simp: at_price_def)
  qed
qed

section \<open>An example\<close>

definition demo_off :: "string list" where
  "demo_off = [''PURCHASE'', ''FIRST_MILE'', ''DUTY'', ''IMPORT_TAX'', ''STORAGE'', ''FX_RESERVE'',
     ''COMMISSION'', ''PAYMENT'', ''FULFILLMENT'', ''ADS'', ''RETURN'']"

definition demo_fixed :: "fee_fact list" where
  "demo_fixed = [demo_fee ''BROKERAGE'' ''FIXED'' 24]"

definition demo_off_line :: "string \<Rightarrow> cost_line" where
  "demo_off_line c = \<lparr>cl_code = c, cl_amount = Some 0, cl_currency = ''SGD'',
     cl_formula = Note ''switched off'' [] [], cl_source = Src_tenant, cl_complete = True\<rparr>"

definition demo_fixed_lines :: "cost_line list" where
  "demo_fixed_lines = map demo_off_line [''PURCHASE'', ''FIRST_MILE'', ''DUTY'', ''IMPORT_TAX''] @
     [\<lparr>cl_code = ''BROKERAGE'', cl_amount = Some 24, cl_currency = ''SGD'',
       cl_formula = Note ''brokerage'' [] [Note [] [24] []], cl_source = Src_join [Src_text ''card''],
       cl_complete = True\<rparr>] @
     map demo_off_line [''STORAGE'', ''FX_RESERVE'', ''COMMISSION'', ''PAYMENT'', ''FULFILLMENT'', ''ADS'', ''RETURN'']"

definition demo_priced :: "dec \<Rightarrow> dec \<Rightarrow> lc_result" where
  "demo_priced n m = \<lparr>lc_lines = demo_fixed_lines, lc_currency = ''SGD'', landed_cost = Some 24,
     net_profit = Some n, net_margin_percent = Some m, roi_percent = None, lc_complete = True,
     profit_complete = True\<rparr>"

lemma demo_fixed_compute:
  "compute_lines (demo_input\<lparr>selling_price := Some p\<rparr>) [] demo_fixed demo_off = Inr demo_fixed_lines"
  by (simp add: compute_lines_def demo_input_def demo_fixed_def demo_fee_def demo_off_def demo_fixed_lines_def
   demo_off_line_def lc_eval pick_fees_def purchase_line_def duty_line_def
   import_tax_line_def brokerage_line_def storage_line_def first_mile_line_def chargeable_line_def
   fx_reserve_line_def price_lines_def rate_of_price_def fulfillment_line_def return_loss_line_def gate_def)

lemma demo_at_price:
  assumes "0 < p" and "quantize (dsub (dsub p 24) 0) = Inr n" and "ddiv n p = Inr d" and "quantize (dmul d 100) = Inr m"
  shows "at_price demo_input [] demo_fixed demo_off p = Inr (demo_priced n m)"
  using assms
  by (simp add: at_price_def compute_landed_cost_def demo_fixed_compute)
   (simp add: demo_fixed_lines_def demo_off_line_def landed_codes_def deduction_codes_def total_of_def profit_of_def
   invested_def map_filter_simps dec_eval demo_input_def demo_priced_def)

lemma demo_prices:
  "at_price demo_input [] demo_fixed demo_off 1 = Inr (demo_priced (- 23) (- 2300))"
  "at_price demo_input [] demo_fixed demo_off 2 = Inr (demo_priced (- 22) (- 1100))"
  "at_price demo_input [] demo_fixed demo_off 4 = Inr (demo_priced (- 20) (- 500))"
  "at_price demo_input [] demo_fixed demo_off 15 = Inr (demo_priced (- 9) (- 60))"
  "at_price demo_input [] demo_fixed demo_off 16 = Inr (demo_priced (- 8) (- 50))"
  "at_price demo_input [] demo_fixed demo_off 24 = Inr (demo_priced 0 0)"
  by (rule demo_at_price, simp, simp add: dec_eval, simp add: dec_eval, simp add: dec_eval)+

text \<open>At other prices the example is defined, whatever its margin.\<close>

lemma ctx_abs_le: "\<bar>ctx x\<bar> \<le> 10 * \<bar>x\<bar>"
  using ctx_le [of x] ctx_le [of "- x"] ctx_nonneg [of x] ctx_nonneg [of "- x"]
  by (cases "0 \<le> x") (auto simp: ctx_minus)

lemma demo_defined:
  assumes "1 \<le> p" and "p \<le> 100"
  shows "\<exists>n m. at_price demo_input [] demo_fixed demo_off p = Inr (demo_priced n m)"
proof -
  have "\<bar>p - 24\<bar> \<le> 100" using assms by (simp add: abs_le_iff)
  then have a: "\<bar>dsub (dsub p 24) 0\<bar> \<le> 10000"
    using ctx_abs_le [of "p - 24"] by (simp add: dsub_def)
  then obtain n where n: "quantize (dsub (dsub p 24) 0) = Inr n" using quantize_defined by fastforce
  from quantize_close [OF n] a have "\<bar>n\<bar> \<le> 10001" by linarith
  moreover have "\<bar>n\<bar> / p \<le> \<bar>n\<bar> / 1" using assms by (intro divide_left_mono) auto
  ultimately have "\<bar>n / p\<bar> \<le> 10001" using assms by (simp add: abs_divide)
  then have d: "\<bar>ctx (n / p)\<bar> \<le> 100010" using ctx_abs_le [of "n / p"] by linarith
  then have "\<bar>dmul (ctx (n / p)) 100\<bar> \<le> 100010000" using ctx_abs_le [of "ctx (n / p) * 100"]
    by (simp add: dmul_def abs_mult)
  then obtain m where "quantize (dmul (ctx (n / p)) 100) = Inr m" using quantize_defined by fastforce
  then show ?thesis using demo_at_price [OF _ n, of "ctx (n / p)" m] assms by (auto simp: ddiv_def)
qed

lemma match_margin_exact:
  assumes "run p = Inr v" and "net_margin_percent v = Some t" and "micro t" and "micro p"
    and "run (p - 1 / 1000000) = Inr b" and "run (p + 1 / 1000000) = Inr a"
    and "micro (p - 1 / 1000000)" and "micro (p + 1 / 1000000)"
  shows "match_margin run p t = Inr (p, v)"
proof -
  have zero: "margin_gap t v = Some 0" using assms(2) by (simp add: margin_gap_def dsub_def)
  have keep: "match_loop run t (c # cs) (p, v, Some 0) = match_loop run t cs (p, v, Some 0)" if "run c = Inr x" for c cs x
    using that by (auto simp: margin_gap_def split: option.split)
  have "match_loop run t [p - 1 / 1000000, p, p + 1 / 1000000] (p, v, Some 0) = Inr (p, v)"
    by (simp only: keep [OF assms(5)] keep [OF assms(1)] keep [OF assms(6)]) simp
  with zero show ?thesis
    using assms by (simp add: match_margin_def quantize_id dsub_def dadd_def ctx_micro del: match_loop.simps)
qed

lemma demo_exact:
  assumes "at_price demo_input [] demo_fixed demo_off p = Inr (demo_priced n t)" and "micro t" and "micro p"
    and "micro (p - 1 / 1000000)" and "micro (p + 1 / 1000000)" and "2 \<le> p" and "p \<le> 99"
  shows "match_margin (at_price demo_input [] demo_fixed demo_off) p t = Inr (p, demo_priced n t)"
proof -
  let ?run = "at_price demo_input [] demo_fixed demo_off"
  from demo_defined [of "p - 1 / 1000000"] demo_defined [of "p + 1 / 1000000"] assms(6,7)
  obtain b a where "?run (p - 1 / 1000000) = Inr b" "?run (p + 1 / 1000000) = Inr a" by fastforce
  with assms show ?thesis by (intro match_margin_exact) (simp_all add: demo_priced_def)
qed

lemma demo_match:
  "match_margin (at_price demo_input [] demo_fixed demo_off) 15 (- 60) = Inr (15, demo_priced (- 9) (- 60))"
  "match_margin (at_price demo_input [] demo_fixed demo_off) 16 (- 50) = Inr (16, demo_priced (- 8) (- 50))"
  "match_margin (at_price demo_input [] demo_fixed demo_off) 24 0 = Inr (24, demo_priced 0 0)"
  by (rule demo_exact; (rule demo_prices | rule micro_eval)?; simp)+

lemma demo_quotes:
  "\<exists>f. quote (at_price demo_input [] demo_fixed demo_off) 24 0 (- 60) = Inr \<lparr>pp_target = - 60, pp_price = Some 15,
     pp_margin = Some (- 60), pp_reachable = True, pp_formula = f\<rparr>"
  "\<exists>f. quote (at_price demo_input [] demo_fixed demo_off) 24 0 (- 50) = Inr \<lparr>pp_target = - 50, pp_price = Some 16,
     pp_margin = Some (- 50), pp_reachable = True, pp_formula = f\<rparr>"
  "\<exists>f. quote (at_price demo_input [] demo_fixed demo_off) 24 0 0 = Inr \<lparr>pp_target = 0, pp_price = Some 24,
     pp_margin = Some 0, pp_reachable = True, pp_formula = f\<rparr>"
  by (simp_all add: quote_def Let_def dec_eval money_text_def demo_match demo_priced_def)

lemma demo_amount_at:
  "amount_at ''PURCHASE'' (demo_priced n m) = Inr 0"
  "amount_at ''FIRST_MILE'' (demo_priced n m) = Inr 0"
  "amount_at ''DUTY'' (demo_priced n m) = Inr 0"
  "amount_at ''IMPORT_TAX'' (demo_priced n m) = Inr 0"
  "amount_at ''BROKERAGE'' (demo_priced n m) = Inr 24"
  "amount_at ''STORAGE'' (demo_priced n m) = Inr 0"
  "amount_at ''FX_RESERVE'' (demo_priced n m) = Inr 0"
  "amount_at ''COMMISSION'' (demo_priced n m) = Inr 0"
  "amount_at ''PAYMENT'' (demo_priced n m) = Inr 0"
  "amount_at ''FULFILLMENT'' (demo_priced n m) = Inr 0"
  "amount_at ''ADS'' (demo_priced n m) = Inr 0"
  "amount_at ''RETURN'' (demo_priced n m) = Inr 0"
  by (simp_all add: amount_at_def line_of_def demo_priced_def demo_fixed_lines_def demo_off_line_def or_zero_def)

lemma demo_slopes:
  "slope 0 0 (probe_prices ! 0) (probe_prices ! 1) = Inr 0" "slope 0 0 (probe_prices ! 1) (probe_prices ! 2) = Inr 0"
  "slope 24 24 (probe_prices ! 0) (probe_prices ! 1) = Inr 0"
  "slope 24 24 (probe_prices ! 1) (probe_prices ! 2) = Inr 0"
  by (simp_all add: slope_def probe_prices_def dec_eval)

lemma demo_decompose_step:
  assumes "amount_at c r1 = Inr a" "amount_at c r2 = Inr a" "amount_at c r3 = Inr a" and "a = 0 \<or> a = 24"
    and "f + a \<in> {0, 24}"
  shows "decompose_loop [r1, r2, r3] (c # cs) f 0 = decompose_loop [r1, r2, r3] cs (f + a) 0"
proof -
  have "dadd f (dsub a (dmul 0 (probe_prices ! 0))) = f + a" "dadd 0 0 = 0" "dsub 0 0 = 0"
    using assms(4,5) by (auto simp: dec_eval)
  with assms demo_slopes show ?thesis by (auto simp: slope_tolerance_def)
qed

lemma demo_decompose:
  "decompose demo_input [] demo_fixed demo_off = Inr (Linear 24 0, demo_priced (- 23) (- 2300))"
proof -
  have "mapr (at_price demo_input [] demo_fixed demo_off) probe_prices =
      Inr [demo_priced (- 23) (- 2300), demo_priced (- 22) (- 1100), demo_priced (- 20) (- 500)]"
    by (simp add: probe_prices_def demo_prices)
  moreover have "gap_codes [demo_priced (- 23) (- 2300), demo_priced (- 22) (- 1100), demo_priced (- 20) (- 500)] line_codes = Inr []"
    by (simp add: line_codes_def gap_at_def line_of_def demo_priced_def demo_fixed_lines_def demo_off_line_def)
  moreover have "decompose_loop [demo_priced (- 23) (- 2300), demo_priced (- 22) (- 1100), demo_priced (- 20) (- 500)]
      line_codes 0 0 = Inr (Linear 24 0)"
    unfolding line_codes_def
    by (simp add: demo_decompose_step [where a = 0] demo_decompose_step [where a = 24] demo_amount_at
      del: decompose_loop.simps(2))
  ultimately show ?thesis by (simp add: decompose_def)
qed

lemma demo_suggest:
  "\<exists>r. suggest_prices demo_input [] demo_fixed (- 60) None demo_off = Inr r \<and> suggested_price r = Some 15"
proof -
  have "curve_percents (- 60) = Inr [- 60, - 50]"
    by (simp add: curve_percents_def Let_def dec_eval)
  moreover obtain f g h where
    "quote (at_price demo_input [] demo_fixed demo_off) 24 0 (- 60) = Inr \<lparr>pp_target = - 60, pp_price = Some 15,
       pp_margin = Some (- 60), pp_reachable = True, pp_formula = f\<rparr>"
    "quote (at_price demo_input [] demo_fixed demo_off) 24 0 (- 50) = Inr \<lparr>pp_target = - 50, pp_price = Some 16,
       pp_margin = Some (- 50), pp_reachable = True, pp_formula = g\<rparr>"
    "quote (at_price demo_input [] demo_fixed demo_off) 24 0 0 = Inr \<lparr>pp_target = 0, pp_price = Some 24,
       pp_margin = Some 0, pp_reachable = True, pp_formula = h\<rparr>"
    using demo_quotes by (elim exE)
  ultimately show ?thesis
    by (simp add: suggest_prices_def demo_decompose suggested_point_def quantity_of_def demo_prices Let_def)
qed

theorem suggested_price_verified_witness:
  "\<exists>r v. suggest_prices demo_input [] demo_fixed (- 60) None demo_off = Inr r \<and> suggested_price r = Some 15 \<and>
     verified r = Some v \<and> compute_landed_cost (demo_input\<lparr>selling_price := Some 15\<rparr>) [] demo_fixed demo_off = Inr v"
proof -
  from demo_suggest obtain r where r: "suggest_prices demo_input [] demo_fixed (- 60) None demo_off = Inr r"
      "suggested_price r = Some 15"
    by (elim exE conjE)
  from suggested_price_verified [OF r] r show ?thesis by blast
qed


theorem match_margin_best_witness:
  "match_margin (at_price demo_input [] demo_fixed demo_off) 15 (- 60) = Inr (15, demo_priced (- 9) (- 60)) \<and>
   at_price demo_input [] demo_fixed demo_off 15 = Inr (demo_priced (- 9) (- 60))"
proof -
  have "match_margin (at_price demo_input [] demo_fixed demo_off) 15 (- 60) = Inr (15, demo_priced (- 9) (- 60))"
    by (rule demo_match)
  from match_margin_best [OF this] this show ?thesis by blast
qed

end
