(* ===== verification/PyText.thy ===== *)
theory PyText imports Prelude begin

text \<open>
  The text functions of Python's standard library that the sync engine uses: \<open>str\<close> of an integer
  and \<open>int\<close> of a text (sign, decimal digits, single underscores between digits; surrounding
  white space is dropped, and the interpreter's limit of 4300 digits is not modelled),
  \<open>split\<close> and \<open>join\<close> with a one-character separator.
\<close>

section \<open>Numbers\<close>

definition digit_char :: "nat \<Rightarrow> char" where
  "digit_char d = char_of (48 + d)"

definition char_digit :: "char \<Rightarrow> nat" where
  "char_digit c = of_char c - 48"

lemma digit_char_props:
  assumes "d < 10"
  shows "is_digit (digit_char d)" and "char_digit (digit_char d) = d"
    and "\<not> is_space (digit_char d)"
  using assms by (simp_all add: digit_char_def char_digit_def is_digit_def is_space_def)

fun digits :: "nat \<Rightarrow> string" where
  "digits n = (if n < 10 then [digit_char n] else digits (n div 10) @ [digit_char (n mod 10)])"

declare digits.simps [simp del]

definition str_int :: "int \<Rightarrow> string" where
  "str_int n = (if n < 0 then CHR ''-'' # digits (nat (- n)) else digits (nat n))"

lemma digits_all: "\<forall>c\<in>set (digits n). is_digit c \<and> \<not> is_space c"
proof (induction n rule: digits.induct)
  case (1 n)
  then show ?case
    using digit_char_props [of n] digit_char_props [of "n mod 10"] by (auto simp: digits.simps [of n])
qed

lemma digits_not_Nil [simp]: "digits n \<noteq> []"
  by (simp add: digits.simps [of n])

text \<open>\<open>read_digits acc after_digit s\<close>: the rest of a literal, after a digit or not.\<close>

fun read_digits :: "nat \<Rightarrow> bool \<Rightarrow> string \<Rightarrow> nat option" where
  "read_digits acc after_digit [] = (if after_digit then Some acc else None)"
| "read_digits acc after_digit (c # s) =
     (if is_digit c then read_digits (acc * 10 + char_digit c) True s
      else if c = CHR ''_'' \<and> after_digit then read_digits acc False s
      else None)"

definition py_int :: "string \<Rightarrow> int res" where
  "py_int s =
     (let t = strip s;
          (neg, body) = (case t of [] \<Rightarrow> (False, t)
             | c # r \<Rightarrow> if c = CHR ''-'' then (True, r) else if c = CHR ''+'' then (False, r)
                       else (False, t)) in
      case read_digits 0 False body of
        None \<Rightarrow> Inl ValueError
      | Some n \<Rightarrow> Inr (if neg then - int n else int n))"

fun digits_value :: "nat \<Rightarrow> string \<Rightarrow> nat" where
  "digits_value acc [] = acc"
| "digits_value acc (c # s) = digits_value (acc * 10 + char_digit c) s"

lemma read_digits_all:
  "\<forall>c\<in>set s. is_digit c \<Longrightarrow> s \<noteq> [] \<or> b \<Longrightarrow> read_digits acc b s = Some (digits_value acc s)"
  by (induction acc b s rule: read_digits.induct) auto

lemma digits_value_append: "digits_value acc (s @ t) = digits_value (digits_value acc s) t"
  by (induction acc s rule: digits_value.induct) auto

lemma digits_value_digits: "digits_value 0 (digits n) = n"
proof (induction n rule: digits.induct)
  case (1 n)
  then show ?case
    using digit_char_props [of n] digit_char_props [of "n mod 10"]
    by (auto simp: digits.simps [of n] digits_value_append)
qed

lemma read_digits_digits: "read_digits 0 False (digits n) = Some n"
  using read_digits_all [of "digits n" False 0] digits_all [of n] digits_value_digits [of n] by simp

lemma strip_id:
  assumes "\<forall>c\<in>set s. \<not> is_space c"
  shows "strip s = s"
proof -
  have d: "dropWhile is_space t = t" if "\<forall>c\<in>set t. \<not> is_space c" for t
    using that by (cases t) auto
  show ?thesis using d [of s] d [of "rev s"] assms by (simp add: strip_def)
qed

lemma str_int_not_space: "\<forall>c\<in>set (str_int n). \<not> is_space c"
  using digits_all by (auto simp: str_int_def is_space_def)

lemma strip_str_int [simp]: "strip (str_int n) = str_int n"
  by (rule strip_id [OF str_int_not_space])

lemma str_int_not_Nil [simp]: "str_int n \<noteq> []"
  by (simp add: str_int_def)

lemma digits_hd: "\<exists>c r. digits n = c # r \<and> is_digit c"
  using digits_all [of n] by (cases "digits n") auto

lemma str_int_roundtrip: "py_int (str_int n) = Inr n"
proof (cases "n < 0")
  case True
  then have "strip (CHR ''-'' # digits (nat (- n))) = CHR ''-'' # digits (nat (- n))"
    using strip_str_int [of n] by (simp add: str_int_def)
  with True show ?thesis by (simp add: py_int_def str_int_def read_digits_digits)
next
  case False
  obtain c r where c: "digits (nat n) = c # r" "is_digit c" using digits_hd by blast
  then have "c \<noteq> CHR ''-''" "c \<noteq> CHR ''+''" by (auto simp: is_digit_def)
  moreover have "strip (digits (nat n)) = digits (nat n)"
    using False strip_str_int [of n] by (simp add: str_int_def)
  ultimately show ?thesis
    using False c read_digits_digits [of "nat n"] by (simp add: py_int_def str_int_def)
qed

lemma str_int_inject: "str_int m = str_int n \<longleftrightarrow> m = n"
  by (metis str_int_roundtrip sum.inject(2))

lemma str_int_chars: "c \<in> set (str_int n) \<Longrightarrow> is_digit c \<or> c = CHR ''-''"
  using digits_all by (auto simp: str_int_def split: if_splits)

section \<open>Split and join\<close>

fun split_on :: "char \<Rightarrow> string \<Rightarrow> string list" where
  "split_on sep [] = [[]]"
| "split_on sep (c # s) =
     (if c = sep then [] # split_on sep s
      else (case split_on sep s of [] \<Rightarrow> [[c]] | p # ps \<Rightarrow> (c # p) # ps))"

fun join_on :: "char \<Rightarrow> string list \<Rightarrow> string" where
  "join_on sep [] = []"
| "join_on sep [p] = p"
| "join_on sep (p # q # ps) = p @ sep # join_on sep (q # ps)"

lemma split_on_not_Nil [simp]: "split_on sep s \<noteq> []"
  by (induction s) (auto split: list.splits)

lemma split_on_piece: "sep \<notin> set p \<Longrightarrow> split_on sep p = [p]"
  by (induction p) auto

lemma split_on_append:
  "sep \<notin> set p \<Longrightarrow> split_on sep (p @ sep # s) = p # split_on sep s"
  by (induction p) auto

lemma split_join:
  "ps \<noteq> [] \<Longrightarrow> (\<And>p. p \<in> set ps \<Longrightarrow> sep \<notin> set p) \<Longrightarrow> split_on sep (join_on sep ps) = ps"
proof (induction sep ps rule: join_on.induct)
  case (3 sep p q ps)
  then show ?case by (simp add: split_on_append)
qed (auto simp: split_on_piece)

lemma join_split: "join_on sep (split_on sep s) = s"
proof (induction s)
  case (Cons c s)
  obtain p ps where s: "split_on sep s = p # ps" by (meson split_on_not_Nil neq_Nil_conv)
  with Cons show ?case by (cases ps) auto
qed simp

text \<open>The text before the first separator and the rest are determined by their concatenation.\<close>

lemma append_sep_inject:
  assumes "sep \<notin> set p" "sep \<notin> set q"
  shows "p @ sep # s = q @ sep # t \<longleftrightarrow> p = q \<and> s = t"
  using assms
proof (induction p arbitrary: q)
  case Nil
  then show ?case by (cases q) auto
next
  case (Cons c p)
  then show ?case by (cases q) auto
qed

end
