(* ===== verification/Queues.thy ===== *)
theory Queues imports PyText begin

text \<open>
  The task queues (\<open>sync_engine/queues.py\<close>): worker pools with the queues they listen to, and the
  router that chooses a queue from a task's name and the platform among its arguments.
\<close>

definition platforms :: "string list" where
  "platforms = [''amazon'', ''shopee'', ''lazada'', ''tiktok'']"

record worker_pool =
  pool_name :: string
  pool_queues :: "string list"
  pool_concurrency :: int

definition queue_arg :: "worker_pool \<Rightarrow> string" where
  "queue_arg pool = join_on CHR '','' (pool_queues pool)"

definition worker_pools :: "worker_pool list" where
  "worker_pools =
     [\<lparr>pool_name = ''high'', pool_queues = [''high''], pool_concurrency = 8\<rparr>,
      \<lparr>pool_name = ''sync'',
       pool_queues = [''sync'', ''sync.amazon'', ''sync.shopee'', ''sync.lazada'', ''sync.tiktok''],
       pool_concurrency = 4\<rparr>,
      \<lparr>pool_name = ''batch'', pool_queues = [''batch''], pool_concurrency = 4\<rparr>,
      \<lparr>pool_name = ''report'', pool_queues = [''report''], pool_concurrency = 2\<rparr>]"

definition declared_queues :: "string list" where
  "declared_queues = concat (map pool_queues worker_pools) @ [''dlq'']"

definition task_queue :: "string \<Rightarrow> string option \<Rightarrow> string" where
  "task_queue task_name platform =
     (if starts_with task_name ''sync.manual.'' then ''high''
      else if starts_with task_name ''sync.'' then
        (case platform of
           None \<Rightarrow> ''sync''
         | Some p \<Rightarrow> if p \<in> set platforms then ''sync.'' @ p else ''sync'')
      else if starts_with task_name ''batch.'' then ''batch''
      else if starts_with task_name ''report.'' then ''report''
      else ''sync'')"

definition local_dev_queues :: string where
  "local_dev_queues = join_on CHR '','' (concat (map pool_queues worker_pools))"

text \<open>\<open>kwargs\<close> is \<open>None\<close> when it is not a dict; a platform that is not text is ignored.\<close>

definition route_for_task :: "string \<Rightarrow> mapping option \<Rightarrow> string" where
  "route_for_task task kwargs =
     task_queue task
       (case kwargs of
          None \<Rightarrow> None
        | Some d \<Rightarrow> (case obj_get d ''platform'' of OStr s \<Rightarrow> Some s | OOther b \<Rightarrow> None))"

definition pools_of :: "string \<Rightarrow> string list" where
  "pools_of queue = map pool_name (filter (\<lambda>pool. queue \<in> set (pool_queues pool)) worker_pools)"

definition expected_pool :: "string \<Rightarrow> string" where
  "expected_pool task =
     (if starts_with task ''sync.manual.'' then ''high''
      else if starts_with task ''batch.'' then ''batch''
      else if starts_with task ''report.'' then ''report''
      else ''sync'')"

lemma starts_with_exclusive:
  "starts_with t ''sync.'' \<Longrightarrow> \<not> starts_with t ''batch.'' \<and> \<not> starts_with t ''report.''"
  "starts_with t ''sync.manual.'' \<Longrightarrow> starts_with t ''sync.''"
  by (auto simp: starts_with_iff)

lemma task_queue_pool: "pools_of (task_queue task platform) = [expected_pool task]"
  using starts_with_exclusive [of task]
  by (auto simp: task_queue_def expected_pool_def pools_of_def worker_pools_def platforms_def
      split: option.splits)

lemma local_dev_queues_split:
  "split_on CHR '','' local_dev_queues = concat (map pool_queues worker_pools)"
  unfolding local_dev_queues_def
  by (rule split_join) (auto simp: worker_pools_def)

lemma declared_queues_split: "declared_queues = split_on CHR '','' local_dev_queues @ [''dlq'']"
  by (simp add: declared_queues_def local_dev_queues_split)

lemma pools_of_local: "pools_of q \<noteq> [] \<Longrightarrow> q \<in> set (split_on CHR '','' local_dev_queues)"
  by (auto simp: pools_of_def local_dev_queues_split filter_empty_conv)

lemma platform_isolated:
  assumes "task_queue task (Some p) = ''sync.'' @ q" and "q \<in> set platforms"
  shows "p = q"
  using assms
  by (auto simp: task_queue_def platforms_def split: if_splits)

text \<open>Whatever a task's name and arguments, the router puts it on a queue that exactly one
  worker pool serves (manual sync on the fast pool, batch and report tasks on theirs, everything
  else on the sync pool), that the local worker listens to, and that is never the dead-letter
  queue, which nothing consumes; and a task on a platform's queue carries that platform.\<close>

theorem every_task_is_served:
  "pools_of (route_for_task task kwargs) = [expected_pool task] \<and>
   route_for_task task kwargs \<in> set (split_on CHR '','' local_dev_queues) \<and>
   route_for_task task kwargs \<noteq> ''dlq'' \<and>
   (\<forall>d q. kwargs = Some d \<longrightarrow> q \<in> set platforms \<longrightarrow> route_for_task task kwargs = ''sync.'' @ q \<longrightarrow>
      obj_get d ''platform'' = OStr q)"
proof (intro conjI allI impI)
  show p: "pools_of (route_for_task task kwargs) = [expected_pool task]"
    by (simp add: route_for_task_def task_queue_pool)
  then show "route_for_task task kwargs \<in> set (split_on CHR '','' local_dev_queues)"
    by (intro pools_of_local) simp
  show "route_for_task task kwargs \<noteq> ''dlq''"
    using p by (auto simp: pools_of_def worker_pools_def)
  show "obj_get d ''platform'' = OStr q"
    if "kwargs = Some d" "q \<in> set platforms" "route_for_task task kwargs = ''sync.'' @ q" for d q
  proof (cases "obj_get d ''platform''")
    case (OStr s)
    with that platform_isolated [of task s q] show ?thesis by (simp add: route_for_task_def)
  next
    case (OOther b)
    with that show ?thesis
      by (auto simp: route_for_task_def task_queue_def split: if_splits)
  qed
qed

lemma every_task_is_served_witness:
  "pools_of (route_for_task ''sync.orders'' (Some [(''platform'', OStr ''shopee'')])) = [''sync''] \<and>
   obj_get [(''platform'', OStr ''shopee'')] ''platform'' = OStr ''shopee''"
proof -
  let ?d = "[(''platform'', OStr ''shopee'')]"
  have "route_for_task ''sync.orders'' (Some ?d) = ''sync.'' @ ''shopee''" "''shopee'' \<in> set platforms"
    "expected_pool ''sync.orders'' = ''sync''"
    by (simp_all add: route_for_task_def obj_get_def task_queue_def starts_with_def platforms_def
        expected_pool_def)
  then show ?thesis using every_task_is_served [of "''sync.orders''" "Some ?d"] by auto
qed

end
