(* ===== verification/Policy.thy ===== *)
theory Policy imports PyTime PyText begin

text \<open>
  The tunables of the sync engine (\<open>sync_engine/policy.py\<close>): the record \<open>SyncPolicy\<close> with the
  checks of its constructor, and its construction from the settings, whose backoff steps are a
  comma-separated text.  Fractions are floats; a setting that is not a number (\<open>nan\<close>) is not
  modelled.
\<close>

record sync_policy =
  slowdown_ratio :: float64
  penalty_floor :: float64
  recover_after_successes :: int
  backoff_seconds :: "int list"
  jitter_ratio :: float64
  circuit_failure_ratio :: float64
  circuit_min_samples :: int
  circuit_window :: int
  circuit_open_seconds :: int
  bloom_bit_size :: int
  bloom_hash_count :: int
  beat_lock_ttl_seconds :: int
  state_ttl_seconds :: int
  order_overlap_seconds :: int
  order_initial_lookback_seconds :: int
  order_interval_seconds :: int
  order_max_pages :: int
  daily_counter_ttl_seconds :: int

definition default_policy :: sync_policy where
  "default_policy = \<lparr>slowdown_ratio = 1/2, penalty_floor = 1/4, recover_after_successes = 20,
     backoff_seconds = [1, 4, 16], jitter_ratio = fl (1/5), circuit_failure_ratio = 1/2,
     circuit_min_samples = 4, circuit_window = 20, circuit_open_seconds = 300,
     bloom_bit_size = 1048576, bloom_hash_count = 7, beat_lock_ttl_seconds = 240,
     state_ttl_seconds = 3600, order_overlap_seconds = 300,
     order_initial_lookback_seconds = 86400, order_interval_seconds = 60, order_max_pages = 20,
     daily_counter_ttl_seconds = 172800\<rparr>"

text \<open>
  The conditions under which \<open>__post_init__\<close> raises, in its order; every check raises the same
  exception.
\<close>

definition post_checks :: "sync_policy \<Rightarrow> bool list" where
  "post_checks p =
     [\<not> (0 < slowdown_ratio p \<and> slowdown_ratio p \<le> 1),
      \<not> (0 < penalty_floor p \<and> penalty_floor p \<le> 1),
      recover_after_successes p < 1,
      backoff_seconds p = [] \<or> list_ex (\<lambda>step. step \<le> 0) (backoff_seconds p),
      \<not> (0 \<le> jitter_ratio p \<and> jitter_ratio p \<le> 1),
      \<not> (0 < circuit_failure_ratio p \<and> circuit_failure_ratio p < 1),
      circuit_min_samples p < 1,
      circuit_window p < circuit_min_samples p,
      circuit_open_seconds p < 1,
      bloom_hash_count p < 1 \<or> bloom_bit_size p < bloom_hash_count p,
      beat_lock_ttl_seconds p < 1 \<or> state_ttl_seconds p < 1,
      order_overlap_seconds p < 0,
      order_initial_lookback_seconds p < 1,
      order_interval_seconds p < 1,
      order_max_pages p < 1,
      daily_counter_ttl_seconds p < 86400]"

definition post_init :: "sync_policy \<Rightarrow> sync_policy res" where
  "post_init p = (if list_ex id (post_checks p) then Inl ValueError else Inr p)"

definition parse_backoff :: "string \<Rightarrow> int list res" where
  "parse_backoff raw =
     bindr (mapr (\<lambda>piece. py_int (strip piece)) (filter (\<lambda>piece. strip piece \<noteq> []) (split_on CHR '','' raw)))
       (\<lambda>parts. if parts = [] then Inl ValueError else Inr parts)"

text \<open>
  The settings carry the same fields under the prefix \<open>sync_\<close>, the backoff steps as text: a
  policy record and that text.
\<close>

definition policy_from_settings :: "sync_policy \<Rightarrow> string \<Rightarrow> sync_policy res" where
  "policy_from_settings settings raw_backoff =
     bindr (parse_backoff raw_backoff) (\<lambda>steps. post_init (settings\<lparr>backoff_seconds := steps\<rparr>))"

section \<open>What a constructed policy guarantees\<close>

definition policy_ok :: "sync_policy \<Rightarrow> bool" where
  "policy_ok p \<longleftrightarrow> post_init p = Inr p"

lemma policy_from_settings_ok: "policy_from_settings settings raw = Inr p \<Longrightarrow> policy_ok p"
  by (auto simp: policy_from_settings_def policy_ok_def post_init_def res_simps split: if_splits)

lemma post_init_defaults: "post_init default_policy = Inr default_policy"
proof -
  have "0 \<le> fl (1/5)" "fl (1/5) \<le> 1"
    using fl_mono [of 0 "1/5"] fl_mono [of "1/5" 1] fl_of_int [of 1] by simp_all
  then show ?thesis by (simp add: post_init_def post_checks_def default_policy_def)
qed

lemma default_policy_ok: "policy_ok default_policy"
  by (simp add: policy_ok_def post_init_defaults)

lemma policy_okD:
  assumes "policy_ok p"
  shows "0 < slowdown_ratio p" "slowdown_ratio p \<le> 1" "0 < penalty_floor p" "penalty_floor p \<le> 1"
    and "backoff_seconds p \<noteq> []" "\<And>step. step \<in> set (backoff_seconds p) \<Longrightarrow> 0 < step"
    and "0 \<le> jitter_ratio p" "jitter_ratio p \<le> 1"
    and "0 < circuit_failure_ratio p" "circuit_failure_ratio p < 1"
    and "1 \<le> circuit_min_samples p" "circuit_min_samples p \<le> circuit_window p"
    and "1 \<le> circuit_open_seconds p" "1 \<le> bloom_hash_count p" "bloom_hash_count p \<le> bloom_bit_size p"
    and "1 \<le> beat_lock_ttl_seconds p" "0 \<le> order_overlap_seconds p"
    and "1 \<le> order_initial_lookback_seconds p" "1 \<le> order_max_pages p"
  using assms by (auto simp: policy_ok_def post_init_def post_checks_def list_ex_iff [of _ "backoff_seconds p"]
      not_le not_less split: if_splits)

text \<open>The backoff text of a list of steps reads back as these steps.\<close>

lemma parse_backoff_join:
  assumes "steps \<noteq> []"
  shows "parse_backoff (join_on CHR '','' (map str_int steps)) = Inr steps"
proof -
  have c: "CHR '','' \<notin> set (str_int n)" for n
    using str_int_chars [of "CHR '',''" n] by (auto simp: is_digit_def)
  have "split_on CHR '','' (join_on CHR '','' (map str_int steps)) = map str_int steps"
    using assms c by (intro split_join) auto
  moreover have "mapr (\<lambda>piece. py_int (strip piece)) (map str_int steps) = Inr steps"
    by (induction steps) (simp_all add: str_int_roundtrip)
  ultimately show ?thesis using assms by (simp add: parse_backoff_def filter_id_conv)
qed

end
