(* ===== verification/Idempotency.thy ===== *)
theory Idempotency imports Policy "HOL-Library.Word" begin

unbundle bit_operations_syntax

text \<open>
  The three guards against ingesting an order twice (\<open>sync_engine/idempotency.py\<close>): the
  idempotency key, the decision to insert, update or skip by source timestamp (with the upsert of
  \<open>repositories/order.py\<close> that applies it to the row of a key), and the Bloom filter.

  A bit store is \<open>bit_ops\<close> (the protocol \<open>BitStore\<close>): \<open>memory_bits\<close> is \<open>MemoryBitStore\<close>, a byte
  array as a list of \<^typ>\<open>8 word\<close>; \<open>redis_bits\<close> is \<open>RedisBitStore\<close> over a Redis client's
  \<open>SETBIT\<close> and \<open>GETBIT\<close> pipelines, which are a parameter.  The SHA-256 digest of a key is a
  parameter too: a function from texts to byte lists.
\<close>

section \<open>The key\<close>

datatype shop_ref = ShopNumber int | ShopText string

fun str_shop :: "shop_ref \<Rightarrow> string" where
  "str_shop (ShopNumber n) = str_int n"
| "str_shop (ShopText s) = s"

definition order_idempotency_key :: "string \<Rightarrow> shop_ref \<Rightarrow> string \<Rightarrow> string res" where
  "order_idempotency_key platform shop_id platform_order_id =
     (let platform_norm = lower (strip platform); shop = strip (str_shop shop_id);
          order_id = strip platform_order_id in
      if platform_norm = [] \<or> shop = [] \<or> order_id = [] then Inl ValueError
      else Inr (platform_norm @ CHR '':'' # shop @ CHR '':'' # order_id))"

section \<open>The write decision\<close>

datatype write_action = INSERT | UPDATE | SKIP

definition decide_write :: "datetime option \<Rightarrow> datetime \<Rightarrow> write_action" where
  "decide_write stored_updated_at incoming_updated_at =
     (case stored_updated_at of
        None \<Rightarrow> INSERT
      | Some stored \<Rightarrow>
          if micros (as_utc incoming_updated_at) > micros (as_utc stored) then UPDATE else SKIP)"

text \<open>
  The row of one idempotency key: the timestamp it was written with and what was written.
  \<open>upsert\<close> is the decision applied to it, as \<open>SalesOrderRepository.upsert\<close> does; the row
  becomes the incoming one, with its timestamp in UTC, on INSERT and UPDATE.
\<close>

type_synonym 'p stored_row = "(datetime \<times> 'p) option"

definition upsert :: "'p stored_row \<Rightarrow> datetime \<times> 'p \<Rightarrow> 'p stored_row \<times> write_action" where
  "upsert existing order =
     (let action = decide_write (map_option fst existing) (fst order) in
      if action = SKIP then (existing, SKIP)
      else (Some (as_utc (fst order), snd order), action))"



section \<open>Bit stores\<close>

record 's bit_ops =
  bits_enable :: "'s \<Rightarrow> nat list \<Rightarrow> 's \<times> unit res"
  bits_read :: "'s \<Rightarrow> nat list \<Rightarrow> bool list res"

type_synonym byte_array = "8 word list"

definition memory_bits_init :: "nat \<Rightarrow> byte_array" where
  "memory_bits_init bit_size = replicate ((bit_size + 7) div 8) 0"

fun memory_enable :: "byte_array \<Rightarrow> nat list \<Rightarrow> byte_array \<times> unit res" where
  "memory_enable bits [] = (bits, Inr ())"
| "memory_enable bits (index # indexes) =
     (if index div 8 < length bits
      then memory_enable
             (bits[index div 8 := (bits ! (index div 8)) OR push_bit (index mod 8) 1]) indexes
      else (bits, Inl IndexError))"

definition memory_read :: "byte_array \<Rightarrow> nat list \<Rightarrow> bool list res" where
  "memory_read bits indexes =
     mapr (\<lambda>index. if index div 8 < length bits
                    then Inr ((bits ! (index div 8)) AND push_bit (index mod 8) 1 \<noteq> 0)
                    else Inl IndexError) indexes"

definition memory_bits :: "byte_array bit_ops" where
  "memory_bits = \<lparr>bits_enable = memory_enable, bits_read = memory_read\<rparr>"

text \<open>A Redis pipeline of \<open>SETBIT\<close> (write) or \<open>GETBIT\<close> commands answers with integers, or fails.\<close>

record 's redis_bit_client =
  pipe_setbit :: "'s \<Rightarrow> nat list \<Rightarrow> 's \<times> (unit + int list)"
  pipe_getbit :: "'s \<Rightarrow> nat list \<Rightarrow> unit + int list"

definition redis_pipeline_error :: "unit + int list \<Rightarrow> int list res" where
  "redis_pipeline_error r = (case r of Inl _ \<Rightarrow> Inl StoreUnavailable | Inr items \<Rightarrow> Inr items)"

definition redis_bits :: "'s redis_bit_client \<Rightarrow> 's bit_ops" where
  "redis_bits client =
     \<lparr>bits_enable = (\<lambda>s indexes. let (s', r) = pipe_setbit client s indexes in
                        (s', bindr (redis_pipeline_error r) (\<lambda>_. Inr ()))),
      bits_read = (\<lambda>s indexes. bindr (redis_pipeline_error (pipe_getbit client s indexes))
                        (\<lambda>values. Inr (map (\<lambda>item. item \<noteq> 0) values)))\<rparr>"

section \<open>The Bloom filter\<close>

type_synonym sha256 = "string \<Rightarrow> nat list"

definition from_bytes_big :: "nat list \<Rightarrow> nat" where
  "from_bytes_big bytes = foldl (\<lambda>acc b. acc * 256 + b) 0 bytes"

definition bloom_indexes :: "sha256 \<Rightarrow> string \<Rightarrow> nat \<Rightarrow> nat \<Rightarrow> nat list" where
  "bloom_indexes sha key bit_size hash_count =
     (let digest = sha key;
          first = from_bytes_big (take 8 digest);
          second = (let v = from_bytes_big (take 8 (drop 8 digest)) in if v = 0 then 1 else v) in
      map (\<lambda>i. (first + i * second) mod bit_size) [0..<hash_count])"

record 's bloom_filter =
  bloom_ops :: "'s bit_ops"
  bloom_size :: nat
  bloom_hashes :: nat

definition bloom_add :: "sha256 \<Rightarrow> 's bloom_filter \<Rightarrow> 's \<Rightarrow> string \<Rightarrow> 's \<times> unit res" where
  "bloom_add sha b s key =
     bits_enable (bloom_ops b) s (bloom_indexes sha key (bloom_size b) (bloom_hashes b))"

definition might_contain :: "sha256 \<Rightarrow> 's bloom_filter \<Rightarrow> 's \<Rightarrow> string \<Rightarrow> bool res" where
  "might_contain sha b s key =
     bindr (bits_read (bloom_ops b) s (bloom_indexes sha key (bloom_size b) (bloom_hashes b)))
       (\<lambda>bits. Inr (list_all id bits))"

datatype dedup_verdict = PROBABLY_NEW | PROBABLY_SEEN

definition dedup_hint :: "sha256 \<Rightarrow> 's bloom_filter \<Rightarrow> 's \<Rightarrow> string \<Rightarrow> dedup_verdict res" where
  "dedup_hint sha b s key =
     bindr (might_contain sha b s key) (\<lambda>seen. Inr (if seen then PROBABLY_SEEN else PROBABLY_NEW))"

definition remember :: "sha256 \<Rightarrow> 's bloom_filter \<Rightarrow> 's \<Rightarrow> string \<Rightarrow> 's \<times> unit res" where
  "remember sha b s key = bloom_add sha b s key"

text \<open>The filter that \<open>get_bloom\<close> assembles in the test environment.\<close>

definition policy_bloom :: "sync_policy \<Rightarrow> byte_array bloom_filter \<times> byte_array" where
  "policy_bloom policy =
     (\<lparr>bloom_ops = memory_bits, bloom_size = nat (bloom_bit_size policy),
       bloom_hashes = nat (bloom_hash_count policy)\<rparr>,
      memory_bits_init (nat (bloom_bit_size policy)))"

definition remember_all :: "sha256 \<Rightarrow> 's bloom_filter \<Rightarrow> 's \<Rightarrow> string list \<Rightarrow> 's" where
  "remember_all sha b s keys = foldl (\<lambda>st key. fst (remember sha b st key)) s keys"


section \<open>Keys identify orders\<close>

lemma order_idempotency_key_Inr:
  "order_idempotency_key platform shop_id oid = Inr key \<longleftrightarrow>
     strip platform \<noteq> [] \<and> strip (str_shop shop_id) \<noteq> [] \<and> strip oid \<noteq> [] \<and>
     key = lower (strip platform) @ CHR '':'' # strip (str_shop shop_id) @ CHR '':'' # strip oid"
  by (auto simp: order_idempotency_key_def Let_def lower_def)

lemma str_int_no_colon: "CHR '':'' \<notin> set (str_int n)"
  using str_int_chars [of "CHR '':''" n] by (auto simp: is_digit_def)

section \<open>Upserts\<close>

definition later_key :: "datetime \<times> 'p \<Rightarrow> int" where
  "later_key order = micros (fst order)"

definition stored_form :: "datetime \<times> 'p \<Rightarrow> datetime \<times> 'p" where
  "stored_form order = (as_utc (fst order), snd order)"




lemma upsert_replay: "upsert (fst (upsert row ord)) ord = (fst (upsert row ord), SKIP)"
  by (auto simp: upsert_def decide_write_def Let_def split: option.splits)







text \<open>
  A worker that found a row decides on what it read; nothing checks that the row is still the same when it is
  written, so an update decided on a stale row replaces a newer one.
\<close>

definition update_blind :: "datetime \<times> 'p \<Rightarrow> datetime \<times> 'p \<Rightarrow> 'p stored_row \<Rightarrow> 'p stored_row" where
  "update_blind seen ord row = (if decide_write (Some (fst seen)) (fst ord) = SKIP then row else fst (upsert (Some seen) ord))"

lemma stale_update_wins:
  assumes "later_key seen < later_key older" and "later_key older < later_key newer"
  shows "update_blind seen older (update_blind seen newer (Some seen)) = Some (stored_form older)"
  using assms by (simp add: update_blind_def upsert_def decide_write_def stored_form_def later_key_def)

section \<open>The contract of a bit store\<close>

locale bit_store =
  fixes enable :: "'s \<Rightarrow> nat list \<Rightarrow> 's \<times> unit res"
    and read :: "'s \<Rightarrow> nat list \<Rightarrow> bool list res"
    and holds :: "nat \<Rightarrow> 's \<Rightarrow> bool"
    and on :: "'s \<Rightarrow> nat set"
  assumes enable_law: "holds cap s \<Longrightarrow> \<forall>i\<in>set is. i < cap \<Longrightarrow>
      \<exists>s'. enable s is = (s', Inr ()) \<and> holds cap s' \<and> on s' = on s \<union> set is"
    and read_law: "holds cap s \<Longrightarrow> \<forall>i\<in>set is. i < cap \<Longrightarrow>
      read s is = Inr (map (\<lambda>i. i \<in> on s) is)"
begin

lemma remember_law:
  assumes "bits_enable (bloom_ops b) = enable" and "holds (bloom_size b) s" and "0 < bloom_size b"
  shows "\<exists>s'. remember sha b s key = (s', Inr ()) \<and> holds (bloom_size b) s' \<and>
    on s' = on s \<union> set (bloom_indexes sha key (bloom_size b) (bloom_hashes b))"
  unfolding remember_def bloom_add_def assms(1)
  by (rule enable_law [OF assms(2)]) (use assms(3) in \<open>auto simp: bloom_indexes_def Let_def\<close>)

lemma remember_all_law:
  assumes "bits_enable (bloom_ops b) = enable" and "holds (bloom_size b) s" and "0 < bloom_size b"
  shows "holds (bloom_size b) (remember_all sha b s keys) \<and>
    on (remember_all sha b s keys) =
      on s \<union> (\<Union>key\<in>set keys. set (bloom_indexes sha key (bloom_size b) (bloom_hashes b)))"
proof (induction keys rule: rev_induct)
  case Nil
  then show ?case using assms(2) by (simp add: remember_all_def)
next
  case (snoc key keys)
  then have h: "holds (bloom_size b) (remember_all sha b s keys)" by simp
  from remember_law [OF assms(1) h assms(3), of sha key] snoc show ?case
    by (auto simp: remember_all_def)
qed

lemma dedup_hint_law:
  assumes "bits_read (bloom_ops b) = read" and "holds (bloom_size b) s" and "0 < bloom_size b"
  shows "dedup_hint sha b s key =
    Inr (if set (bloom_indexes sha key (bloom_size b) (bloom_hashes b)) \<subseteq> on s
         then PROBABLY_SEEN else PROBABLY_NEW)"
proof -
  have "read s (bloom_indexes sha key (bloom_size b) (bloom_hashes b)) =
      Inr (map (\<lambda>i. i \<in> on s) (bloom_indexes sha key (bloom_size b) (bloom_hashes b)))"
    by (rule read_law [OF assms(2)]) (use assms(3) in \<open>auto simp: bloom_indexes_def Let_def\<close>)
  then show ?thesis
    by (auto simp: dedup_hint_def might_contain_def assms(1) list_all_iff)
qed

end

section \<open>The byte array is a bit store\<close>

definition bits_on :: "byte_array \<Rightarrow> nat set" where
  "bits_on bits = {i. i div 8 < length bits \<and> bit (bits ! (i div 8)) (i mod 8)}"

definition bits_cover :: "nat \<Rightarrow> byte_array \<Rightarrow> bool" where
  "bits_cover cap bits \<longleftrightarrow> cap \<le> 8 * length bits"

lemma bits_on_enable_one:
  assumes "i div 8 < length bits"
  shows "bits_on (bits[i div 8 := (bits ! (i div 8)) OR push_bit (i mod 8) 1]) = insert i (bits_on bits)"
proof -
  have j: "bit ((bits ! (i div 8)) OR push_bit (i mod 8) 1) (j mod 8) \<longleftrightarrow>
      bit (bits ! (i div 8)) (j mod 8) \<or> j mod 8 = i mod 8" for j
    by (auto simp: bit_or_iff bit_exp_iff)
  have same: "j = i" if "j div 8 = i div 8" "j mod 8 = i mod 8" for j
    using that by (metis div_mult_mod_eq)
  show ?thesis
    unfolding bits_on_def using assms j same by (auto simp: nth_list_update split: if_splits)
qed

lemma memory_enable_law:
  "bits_cover cap bits \<Longrightarrow> \<forall>i\<in>set is. i < cap \<Longrightarrow>
     \<exists>bits'. memory_enable bits is = (bits', Inr ()) \<and> bits_cover cap bits' \<and>
             bits_on bits' = bits_on bits \<union> set is"
proof (induction "is" arbitrary: bits)
  case (Cons i "is")
  have i: "i div 8 < length bits" using Cons.prems by (auto simp: bits_cover_def)
  let ?bits = "bits[i div 8 := (bits ! (i div 8)) OR push_bit (i mod 8) 1]"
  have "bits_cover cap ?bits" using Cons.prems(1) by (simp add: bits_cover_def)
  from Cons.IH [OF this] Cons.prems(2) bits_on_enable_one [OF i] i show ?case by auto
qed simp

lemma bit_test: "w AND 2 ^ n \<noteq> 0 \<longleftrightarrow> bit w n" if "n < 8" for w :: "8 word"
proof -
  have "bit (w AND 2 ^ n) m \<longleftrightarrow> bit w n \<and> m = n" for m
    using that by (auto simp: bit_and_iff bit_exp_iff)
  then show ?thesis by (metis bit_0_eq bit_word_eqI bot_apply bot_bool_def)
qed

lemma memory_read_law:
  assumes "bits_cover cap bits" and "\<forall>i\<in>set is. i < cap"
  shows "memory_read bits is = Inr (map (\<lambda>i. i \<in> bits_on bits) is)"
  unfolding memory_read_def
proof (rule mapr_total)
  fix i assume "i \<in> set is"
  with assms have "i div 8 < length bits" by (auto simp: bits_cover_def)
  then show "(if i div 8 < length bits
      then Inr (bits ! (i div 8) AND push_bit (i mod 8) 1 \<noteq> 0) else Inl IndexError) =
      Inr (i \<in> bits_on bits)"
    by (simp add: bits_on_def bit_test)
qed

interpretation memory_bit_store: bit_store memory_enable memory_read bits_cover bits_on
  by unfold_locales (blast intro: memory_enable_law, blast intro: memory_read_law)

lemma bits_on_init [simp]: "bits_on (memory_bits_init n) = {}"
  by (auto simp: bits_on_def memory_bits_init_def)

lemma bits_cover_init: "bits_cover n (memory_bits_init n)"
  by (simp add: bits_cover_def memory_bits_init_def)


section \<open>Properties\<close>

text \<open>The key is computed exactly when platform, shop and order number are not blank (it
  raises \<open>ValueError\<close> otherwise); spelling of the platform and surrounding blanks do not matter, so
  polling and webhooks agree; and two orders share a key only when they are the same order: for
  platform codes without a colon and numeric shop identifiers, equal keys give equal platforms,
  shops and order numbers (order numbers may contain colons).\<close>

theorem idempotency_key_identifies:
  assumes "CHR '':'' \<notin> set p1" and "CHR '':'' \<notin> set p2"
    and "order_idempotency_key p1 (ShopNumber n1) o1 = Inr key"
  shows "order_idempotency_key p2 (ShopNumber n2) o2 = Inr key \<longleftrightarrow>
    strip p2 \<noteq> [] \<and> strip o2 \<noteq> [] \<and>
    lower (strip p1) = lower (strip p2) \<and> n1 = n2 \<and> strip o1 = strip o2"
proof -
  have colon: "CHR '':'' \<notin> set (lower (strip p))" if "CHR '':'' \<notin> set p" for p
  proof
    assume "CHR '':'' \<in> set (lower (strip p))"
    then obtain c where c: "c \<in> set (strip p)" "lower_char c = CHR '':''" by (auto simp: lower_def)
    have "set (strip p) \<subseteq> set p" by (auto simp: strip_def dest!: set_dropWhileD)
    with c(1) that have ne: "c \<noteq> CHR '':''" by auto
    have "of_char (char_of (n + 32) :: char) = n + 32" if "n \<le> 90" for n :: nat
      using that by (simp add: take_bit_eq_mod)
    from this [of "of_char c"] have "of_char (lower_char c) = (58::nat) \<Longrightarrow> of_char c = (58::nat)"
      by (auto simp: lower_char_def Let_def split: if_splits)
    with c(2) have "of_char c = (of_char CHR '':'' :: nat)" by simp
    then show False using ne by (simp only: of_char_eq_iff)
  qed
  from assms(3) have k: "key = lower (strip p1) @ CHR '':'' # str_int n1 @ CHR '':'' # strip o1"
    by (simp add: order_idempotency_key_Inr)
  show ?thesis
    unfolding order_idempotency_key_Inr k
    using append_sep_inject [OF colon [OF assms(1)] colon [OF assms(2)]]
      append_sep_inject [OF str_int_no_colon [of n1] str_int_no_colon [of n2]]
    by (auto simp: str_int_inject)
qed

lemma idempotency_key_identifies_witness:
  "order_idempotency_key ''Shopee '' (ShopNumber 7) ''A:1'' = Inr ''shopee:7:A:1'' \<and>
   order_idempotency_key '' shopee'' (ShopNumber 7) '' A:1'' = Inr ''shopee:7:A:1'' \<and>
   order_idempotency_key ''shopee'' (ShopNumber 71) ''A:1'' \<noteq> Inr ''shopee:7:A:1''"
proof -
  note ev = order_idempotency_key_def str_int_def digits.simps digit_char_def lower_def lower_char_def
    strip_def is_space_def
  have 1: "order_idempotency_key ''Shopee '' (ShopNumber 7) ''A:1'' = Inr ''shopee:7:A:1''"
    by code_simp
  then show ?thesis
    using idempotency_key_identifies [OF _ _ 1, of "'' shopee''" 7 "'' A:1''"]
      idempotency_key_identifies [OF _ _ 1, of "''shopee''" 71 "''A:1''"]
    by (simp add: ev)
qed




text \<open>C26: The Bloom filter of a valid policy has no false negatives, whatever the hash function:
  after any keys have been remembered, a key is reported as seen exactly when all its bits have
  been set by remembered keys, in particular when it is one of them; an empty filter has seen
  nothing; and neither operation raises an exception.\<close>

theorem bloom_no_false_negative:
  assumes "policy_ok policy" and "policy_bloom policy = (b, s0)"
  shows "dedup_hint sha b (remember_all sha b s0 keys) key =
      Inr (if set (bloom_indexes sha key (bloom_size b) (bloom_hashes b)) \<subseteq>
              (\<Union>k\<in>set keys. set (bloom_indexes sha k (bloom_size b) (bloom_hashes b)))
           then PROBABLY_SEEN else PROBABLY_NEW) \<and>
    (key \<in> set keys \<longrightarrow> dedup_hint sha b (remember_all sha b s0 keys) key = Inr PROBABLY_SEEN) \<and>
    dedup_hint sha b s0 key = Inr PROBABLY_NEW \<and>
    snd (remember sha b (remember_all sha b s0 keys) key) = Inr ()"
proof -
  from policy_okD [OF assms(1)] have pos: "0 < bloom_size b" "0 < bloom_hashes b"
    using assms(2) by (auto simp: policy_bloom_def)
  from assms(2) have ops: "bits_enable (bloom_ops b) = memory_enable"
    "bits_read (bloom_ops b) = memory_read" and s0: "bits_cover (bloom_size b) s0" "bits_on s0 = {}"
    by (auto simp: policy_bloom_def memory_bits_def bits_cover_init)
  from memory_bit_store.remember_all_law [OF ops(1) s0(1) pos(1), of sha keys] s0(2)
  have h: "bits_cover (bloom_size b) (remember_all sha b s0 keys)"
    and o: "bits_on (remember_all sha b s0 keys) =
      (\<Union>k\<in>set keys. set (bloom_indexes sha k (bloom_size b) (bloom_hashes b)))" by auto
  have "set (bloom_indexes sha key (bloom_size b) (bloom_hashes b)) \<noteq> {}"
    using pos(2) by (simp add: bloom_indexes_def Let_def)
  then have empty: "dedup_hint sha b s0 key = Inr PROBABLY_NEW"
    using memory_bit_store.dedup_hint_law [OF ops(2) s0(1) pos(1)] s0(2) by simp
  note seen = memory_bit_store.dedup_hint_law [OF ops(2) h pos(1), of sha key]
  from memory_bit_store.remember_law [OF ops(1) h pos(1), of sha key]
  have "snd (remember sha b (remember_all sha b s0 keys) key) = Inr ()" by auto
  with empty seen show ?thesis unfolding o by auto
qed

lemma bloom_no_false_negative_witness:
  "\<exists>b s0. policy_bloom default_policy = (b, s0) \<and>
     dedup_hint (\<lambda>k. map of_char k) b
       (remember_all (\<lambda>k. map of_char k) b s0 [''shopee:7:A1'', ''shopee:7:A2'']) ''shopee:7:A1'' =
       Inr PROBABLY_SEEN"
proof -
  obtain b s0 where b: "policy_bloom default_policy = (b, s0)" by fastforce
  with bloom_no_false_negative [OF default_policy_ok b,
      of "\<lambda>k. map of_char k" "[''shopee:7:A1'', ''shopee:7:A2'']" "''shopee:7:A1''"]
  show ?thesis by auto
qed

end
