(* ===== verification/Locks.thy ===== *)
theory Locks imports Policy begin

text \<open>
  The lock that keeps the scheduled scans from running twice (\<open>sync_engine/locks.py\<close>, and
  \<open>run_beat_singleton\<close> of \<open>sync_engine/runtime.py\<close>).  \<open>lock_ops\<close> are the two operations of a lock
  store; an operation may fail with a connection error (\<open>Inl ()\<close>).  \<open>memory_locks\<close> is
  \<open>MemoryLockStore\<close>; \<open>redis_locks\<close> is \<open>RedisLockStore\<close> over a Redis client's \<open>SET NX EX\<close>, \<open>GET\<close>
  and \<open>DEL\<close>, which are a parameter, with the release script of the code.  The clock (UTC, in
  microseconds) and the random token are arguments.
\<close>

section \<open>Lock stores\<close>

type_synonym instant = int

record 's lock_ops =
  lock_acquire :: "'s \<Rightarrow> instant \<Rightarrow> string \<Rightarrow> string \<Rightarrow> int \<Rightarrow> 's \<times> (unit + bool)"
  lock_release :: "'s \<Rightarrow> string \<Rightarrow> string \<Rightarrow> 's \<times> (unit + unit)"

record lock_hold =
  hold_token :: string
  expires_at :: instant

type_synonym held = "string \<Rightarrow> lock_hold option"

definition memory_acquire :: "held \<Rightarrow> instant \<Rightarrow> string \<Rightarrow> string \<Rightarrow> int \<Rightarrow> held \<times> (unit + bool)" where
  "memory_acquire held now lock_name token ttl_seconds =
     (case held lock_name of
        Some current \<Rightarrow>
          if expires_at current > now then (held, Inr False)
          else (held(lock_name \<mapsto> \<lparr>hold_token = token, expires_at = now + seconds ttl_seconds\<rparr>), Inr True)
      | None \<Rightarrow>
          (held(lock_name \<mapsto> \<lparr>hold_token = token, expires_at = now + seconds ttl_seconds\<rparr>), Inr True))"

definition memory_release :: "held \<Rightarrow> string \<Rightarrow> string \<Rightarrow> held \<times> (unit + unit)" where
  "memory_release held lock_name token =
     (case held lock_name of
        Some current \<Rightarrow> if hold_token current = token then (held(lock_name := None), Inr ())
                        else (held, Inr ())
      | None \<Rightarrow> (held, Inr ()))"

definition memory_locks :: "held lock_ops" where
  "memory_locks = \<lparr>lock_acquire = memory_acquire, lock_release = memory_release\<rparr>"

record 's redis_lock_client =
  redis_set_nx :: "'s \<Rightarrow> string \<Rightarrow> string \<Rightarrow> int \<Rightarrow> 's \<times> (unit + bool)"
  redis_call_get :: "'s \<Rightarrow> string \<Rightarrow> string option"
  redis_call_del :: "'s \<Rightarrow> string \<Rightarrow> 's \<times> int"
  redis_run_script :: "'s \<Rightarrow> ('s \<Rightarrow> 's \<times> int) \<Rightarrow> 's \<times> (unit + int)"

definition lock_key :: "string \<Rightarrow> string" where
  "lock_key lock_name = ''lock:'' @ lock_name"

text \<open>The Lua script of the release, as the server runs it.\<close>

definition release_script :: "'s redis_lock_client \<Rightarrow> string \<Rightarrow> string \<Rightarrow> 's \<Rightarrow> 's \<times> int" where
  "release_script client key arg s =
     (if redis_call_get client s key = Some arg then redis_call_del client s key else (s, 0))"

definition redis_locks :: "'s redis_lock_client \<Rightarrow> 's lock_ops" where
  "redis_locks client =
     \<lparr>lock_acquire = (\<lambda>s now lock_name token ttl_seconds.
         redis_set_nx client s (lock_key lock_name) token ttl_seconds),
      lock_release = (\<lambda>s lock_name token.
         let (s', r) = redis_run_script client s (release_script client (lock_key lock_name) token)
         in (s', case r of Inl e \<Rightarrow> Inl e | Inr _ \<Rightarrow> Inr ()))\<rparr>"

section \<open>The beat lock\<close>

datatype lock_status = ACQUIRED | HELD

record lock_outcome =
  outcome_status :: lock_status
  outcome_token :: "string option"

definition beat_acquire ::
  "'s lock_ops \<Rightarrow> 's \<Rightarrow> instant \<Rightarrow> string \<Rightarrow> string \<Rightarrow> int \<Rightarrow> 's \<times> lock_outcome res" where
  "beat_acquire ops s now fresh_token lock_name ttl_seconds =
     (case lock_acquire ops s now lock_name fresh_token ttl_seconds of
        (s', Inl _) \<Rightarrow> (s', Inl StoreUnavailable)
      | (s', Inr got) \<Rightarrow>
          (s', Inr (if got then \<lparr>outcome_status = ACQUIRED, outcome_token = Some fresh_token\<rparr>
                    else \<lparr>outcome_status = HELD, outcome_token = None\<rparr>)))"

definition beat_release :: "'s lock_ops \<Rightarrow> 's \<Rightarrow> string \<Rightarrow> string \<Rightarrow> 's \<times> unit res" where
  "beat_release ops s lock_name token =
     (case lock_release ops s lock_name token of
        (s', Inl _) \<Rightarrow> (s', Inl StoreUnavailable)
      | (s', Inr _) \<Rightarrow> (s', Inr ()))"

text \<open>
  \<open>run_beat_singleton\<close>: the body works on the lock store (where other workers may act while it
  runs) and on a world of its own; the lock is released whether or not it raises, and an
  unavailable store neither prevents the body nor masks its outcome.
\<close>

datatype 'r beat_result = Skipped | Ran 'r

definition run_beat_singleton ::
  "'s lock_ops \<Rightarrow> sync_policy \<Rightarrow> int option \<Rightarrow> instant \<Rightarrow> string \<Rightarrow> string \<Rightarrow>
     ('s \<times> 'w \<Rightarrow> ('s \<times> 'w) \<times> 'r res) \<Rightarrow> 's \<times> 'w \<Rightarrow> ('s \<times> 'w) \<times> 'r beat_result res" where
  "run_beat_singleton ops policy ttl_seconds now fresh_token lock_name body sw =
     (let ttl = (case ttl_seconds of None \<Rightarrow> beat_lock_ttl_seconds policy | Some n \<Rightarrow> n) in
      case beat_acquire ops (fst sw) now fresh_token lock_name ttl of
        (s1, Inl e) \<Rightarrow>
          if e = StoreUnavailable
          then (let (sw2, r) = body (s1, snd sw) in (sw2, bindr r (\<lambda>x. Inr (Ran x))))
          else ((s1, snd sw), Inl e)
      | (s1, Inr out) \<Rightarrow>
          if outcome_status out = HELD then ((s1, snd sw), Inr Skipped)
          else (let ((s2, w2), r) = body (s1, snd sw);
                    s3 = (case outcome_token out of
                            None \<Rightarrow> s2 | Some token \<Rightarrow> fst (beat_release ops s2 lock_name token)) in
                ((s3, w2), bindr r (\<lambda>x. Inr (Ran x)))))"

section \<open>The contract of a lock store\<close>

text \<open>
  \<open>owner s n t\<close>: the token that holds lock \<open>n\<close> at time \<open>t\<close>, when nothing else happens until then.
\<close>

datatype lock_event = Acquire instant string string int | Release string string

fun lock_step :: "'s lock_ops \<Rightarrow> 's \<Rightarrow> lock_event \<Rightarrow> 's" where
  "lock_step ops s (Acquire now n token ttl) = fst (lock_acquire ops s now n token ttl)"
| "lock_step ops s (Release n token) = fst (lock_release ops s n token)"

definition lock_run :: "'s lock_ops \<Rightarrow> 's \<Rightarrow> lock_event list \<Rightarrow> 's" where
  "lock_run ops s evs = foldl (lock_step ops) s evs"

fun no_release_until :: "string \<Rightarrow> string \<Rightarrow> instant \<Rightarrow> lock_event \<Rightarrow> bool" where
  "no_release_until n tok t (Acquire now m token ttl) = (now \<le> t)"
| "no_release_until n tok t (Release m token) = (m \<noteq> n \<or> token \<noteq> tok)"

locale lock_store =
  fixes ops :: "'s lock_ops" and owner :: "'s \<Rightarrow> string \<Rightarrow> instant \<Rightarrow> string option"
  assumes owner_earlier: "owner s n t = Some tok \<Longrightarrow> t' \<le> t \<Longrightarrow> owner s n t' = Some tok"
    and acquire_free: "owner s n now = None \<Longrightarrow>
      \<exists>s'. lock_acquire ops s now n tok ttl = (s', Inr True) \<and>
        (\<forall>t. owner s' n t = (if t < now + seconds ttl then Some tok else None)) \<and>
        (\<forall>m t. m \<noteq> n \<longrightarrow> owner s' m t = owner s m t)"
    and acquire_held: "owner s n now = Some other \<Longrightarrow>
      lock_acquire ops s now n tok ttl = (s, Inr False)"
    and release_own: "\<exists>s'. lock_release ops s n tok = (s', Inr ()) \<and>
      (\<forall>t. owner s' n t = (if owner s n t = Some tok then None else owner s n t)) \<and>
      (\<forall>m t. m \<noteq> n \<longrightarrow> owner s' m t = owner s m t)"
begin

lemma step_keeps_owner:
  assumes own: "owner s n t = Some tok" and ev: "no_release_until n tok t ev"
  shows "owner (lock_step ops s ev) n t = Some tok"
proof (cases ev)
  case (Acquire now m token ttl)
  show ?thesis
  proof (cases "owner s m now")
    case None
    with Acquire ev owner_earlier [OF own, of now] have "m \<noteq> n" by auto
    with acquire_free [OF None, of token ttl] own Acquire show ?thesis by auto
  next
    case (Some other)
    with acquire_held [OF Some] own Acquire show ?thesis by simp
  qed
next
  case (Release m token)
  with release_own [of s m token] own ev show ?thesis by (cases "m = n") auto
qed

lemma run_keeps_owner:
  "owner s n t = Some tok \<Longrightarrow> list_all (no_release_until n tok t) evs \<Longrightarrow>
     owner (lock_run ops s evs) n t = Some tok"
  by (induction evs arbitrary: s) (auto simp: lock_run_def step_keeps_owner)

lemma beat_excluded:
  assumes "owner s n t = Some tok" and "list_all (no_release_until n tok t) evs" and "now \<le> t"
  shows "run_beat_singleton ops policy ttl now other n body (lock_run ops s evs, w) =
    ((lock_run ops s evs, w), Inr Skipped)"
proof -
  have "owner (lock_run ops s evs) n now = Some tok"
    by (rule owner_earlier [OF run_keeps_owner [OF assms(1,2)] assms(3)])
  from acquire_held [OF this] show ?thesis
    by (simp add: run_beat_singleton_def beat_acquire_def Let_def)
qed

lemma beat_runs:
  assumes "owner s n now = None" and "ttl_used = (case ttl of None \<Rightarrow> beat_lock_ttl_seconds policy | Some k \<Rightarrow> k)"
  shows "\<exists>s1. (\<forall>t. owner s1 n t = (if t < now + seconds ttl_used then Some tok else None)) \<and>
    (\<forall>s2 w2 r. body (s1, w) = ((s2, w2), r) \<longrightarrow>
      (\<exists>s3. run_beat_singleton ops policy ttl now tok n body (s, w) =
               ((s3, w2), bindr r (\<lambda>x. Inr (Ran x))) \<and>
             (\<forall>t. owner s3 n t \<noteq> Some tok) \<and>
             (\<forall>m t. m \<noteq> n \<longrightarrow> owner s3 m t = owner s2 m t)))"
proof -
  obtain s1 where s1: "lock_acquire ops s now n tok ttl_used = (s1, Inr True)"
      "\<forall>t. owner s1 n t = (if t < now + seconds ttl_used then Some tok else None)"
    using acquire_free [OF assms(1)] by metis
  have "\<exists>s3. run_beat_singleton ops policy ttl now tok n body (s, w) =
            ((s3, w2), bindr r (\<lambda>x. Inr (Ran x))) \<and>
          (\<forall>t. owner s3 n t \<noteq> Some tok) \<and> (\<forall>m t. m \<noteq> n \<longrightarrow> owner s3 m t = owner s2 m t)"
    if b: "body (s1, w) = ((s2, w2), r)" for s2 w2 r
  proof -
    obtain s3 where s3: "lock_release ops s2 n tok = (s3, Inr ())"
        "\<forall>t. owner s3 n t = (if owner s2 n t = Some tok then None else owner s2 n t)"
        "\<forall>m t. m \<noteq> n \<longrightarrow> owner s3 m t = owner s2 m t"
      using release_own [of s2 n tok] by blast
    then show ?thesis
      using s1(1) b assms(2)
      by (intro exI [of _ s3])
        (simp add: run_beat_singleton_def beat_acquire_def beat_release_def Let_def)
  qed
  with s1(2) show ?thesis by blast
qed

end

section \<open>The in-process lock store\<close>

definition memory_owner :: "held \<Rightarrow> string \<Rightarrow> instant \<Rightarrow> string option" where
  "memory_owner held n t =
     (case held n of None \<Rightarrow> None
      | Some h \<Rightarrow> if expires_at h > t then Some (hold_token h) else None)"

interpretation memory_lock: lock_store memory_locks memory_owner
proof unfold_locales
  fix s :: held and n :: string and tok :: string
  show "\<exists>s'. lock_release memory_locks s n tok = (s', Inr ()) \<and>
      (\<forall>t. memory_owner s' n t = (if memory_owner s n t = Some tok then None else memory_owner s n t)) \<and>
      (\<forall>m t. m \<noteq> n \<longrightarrow> memory_owner s' m t = memory_owner s m t)"
    by (cases "s n") (auto simp: memory_locks_def memory_release_def memory_owner_def)
qed (auto simp: memory_locks_def memory_acquire_def memory_owner_def split: option.splits if_splits)

text \<open>The outcome of a singleton run on any store, lawful or not: an unavailable store does not stop
  the body, a held lock does, and the body's result or exception is passed on.\<close>

lemma beat_outcome:
  assumes "beat_acquire ops s now tok n (case ttl of None \<Rightarrow> beat_lock_ttl_seconds policy | Some k \<Rightarrow> k) =
    (s1, r)"
  shows "r = Inl StoreUnavailable \<Longrightarrow>
      snd (run_beat_singleton ops policy ttl now tok n body (s, w)) =
      bindr (snd (body (s1, w))) (\<lambda>x. Inr (Ran x))"
    and "r = Inr out \<Longrightarrow> outcome_status out = HELD \<Longrightarrow>
      run_beat_singleton ops policy ttl now tok n body (s, w) = ((s1, w), Inr Skipped)"
    and "r = Inr out \<Longrightarrow> outcome_status out \<noteq> HELD \<Longrightarrow>
      snd (run_beat_singleton ops policy ttl now tok n body (s, w)) =
      bindr (snd (body (s1, w))) (\<lambda>x. Inr (Ran x))"
  using assms by (auto simp: run_beat_singleton_def Let_def split: prod.splits)

section \<open>Properties\<close>

text \<open>C25: Once a worker has taken a beat lock, then until its time to live has passed and whatever
  other workers do to the locks meanwhile (acquiring with any token, releasing with any token but
  the holder's), a singleton run of the same name is skipped: its body is not run and locks and
  world stay as they are.  The holder's own release frees the lock.\<close>

theorem beat_singleton_exclusive:
  assumes "memory_acquire held now n tok ttl = (held1, Inr True)"
    and "list_all (no_release_until n tok t) evs"
    and "now' \<le> t" and "t < now + seconds ttl"
  shows "run_beat_singleton memory_locks policy ttl' now' other n body (lock_run memory_locks held1 evs, w) =
      ((lock_run memory_locks held1 evs, w), Inr Skipped) \<and>
    fst (memory_release (lock_run memory_locks held1 evs) n tok) n = None"
proof -
  have own: "memory_owner held1 n t = Some tok"
    using assms(1,4) by (auto simp: memory_acquire_def memory_owner_def split: option.splits if_splits)
  from memory_lock.run_keeps_owner [OF this assms(2)]
  have "memory_owner (lock_run memory_locks held1 evs) n t = Some tok" .
  then have "fst (memory_release (lock_run memory_locks held1 evs) n tok) n = None"
    by (auto simp: memory_owner_def memory_release_def split: option.splits if_splits)
  with memory_lock.beat_excluded [OF own assms(2,3)] show ?thesis by simp
qed

lemma beat_singleton_exclusive_witness:
  "\<exists>held1. memory_acquire Map.empty 0 ''beat:scan'' ''t1'' 240 = (held1, Inr True) \<and>
     snd (run_beat_singleton memory_locks default_policy None 30000000 ''t3'' ''beat:scan''
       (\<lambda>sw. (sw, Inr (1::int)))
       (lock_run memory_locks held1
          [Acquire 5 ''beat:scan'' ''t2'' 240, Release ''beat:scan'' ''t2''], ())) = Inr Skipped"
proof -
  obtain held1 where a: "memory_acquire Map.empty 0 ''beat:scan'' ''t1'' 240 = (held1, Inr True)"
    by (simp add: memory_acquire_def)
  have e: "list_all (no_release_until ''beat:scan'' ''t1'' 30000000)
      [Acquire 5 ''beat:scan'' ''t2'' 240, Release ''beat:scan'' ''t2'']" by simp
  have "snd (run_beat_singleton memory_locks default_policy None 30000000 ''t3'' ''beat:scan''
       (\<lambda>sw. (sw, Inr (1::int)))
       (lock_run memory_locks held1
          [Acquire 5 ''beat:scan'' ''t2'' 240, Release ''beat:scan'' ''t2''], ())) = Inr Skipped"
    using beat_singleton_exclusive [OF a e, where now' = 30000000 and policy = default_policy and
        ttl' = None and other = "''t3''" and body = "\<lambda>sw. (sw, Inr (1::int))" and w = "()"]
    by (simp add: seconds_def)
  with a show ?thesis by blast
qed

end
