(* ===== verification/Cursor.thy ===== *)
theory Cursor imports PyTime Machines begin

text \<open>
  The order cursor of a shop (\<open>sync_engine/cursor.py\<close>, the cursor row of \<open>repositories/order.py\<close>
  and the choice of a window in \<open>services/order_sync.py\<close>): the window to pull, the paging loop
  with its page limit, the checkpoint to store, and the row that stores it.  Instants are UTC, in
  microseconds; a value that enters from outside is a \<^typ>\<open>datetime\<close> and read with \<open>as_utc\<close>.
\<close>

section \<open>Windows and checkpoints\<close>

record sync_window =
  win_since :: int
  win_until :: int
  win_cursor :: "string option"
  win_advance :: bool

record checkpoint =
  cp_cursor_at :: "int option"
  cp_resume_cursor :: "string option"
  cp_resume_since :: "int option"
  cp_resume_until :: "int option"

definition order_sync_window ::
  "datetime option \<Rightarrow> datetime \<Rightarrow> int \<Rightarrow> int \<Rightarrow> int \<times> int" where
  "order_sync_window cursor_at now overlap initial_lookback =
     (let until = micros (as_utc now);
          since = (case cursor_at of None \<Rightarrow> until - initial_lookback
                   | Some c \<Rightarrow> micros (as_utc c) - overlap);
          since' = (if since \<ge> until
                    then until - (if overlap > 0 then overlap else seconds 1) else since) in
      (since', until))"

text \<open>The truth value of an optional text: \<open>None\<close> and the empty text are false.\<close>

definition some_text :: "string option \<Rightarrow> bool" where
  "some_text c \<longleftrightarrow> c \<noteq> None \<and> c \<noteq> Some []"

definition is_order_sync_due :: "datetime option \<Rightarrow> string option \<Rightarrow> datetime \<Rightarrow> int \<Rightarrow> bool" where
  "is_order_sync_due cursor_at resume_cursor now interval =
     (if some_text resume_cursor then True
      else (case cursor_at of None \<Rightarrow> True
            | Some c \<Rightarrow> micros (as_utc c) + interval \<le> micros (as_utc now)))"

definition shop_sync_message :: "int \<Rightarrow> int \<Rightarrow> string \<Rightarrow> string \<Rightarrow> (string \<times> (int + string)) list" where
  "shop_sync_message shop_id tenant platform trigger =
     [(''shop_id'', Inl shop_id), (''tenant_id'', Inl tenant), (''platform'', Inr platform),
      (''trigger'', Inr trigger)]"

definition checkpoint_for ::
  "bool \<Rightarrow> bool \<Rightarrow> int \<Rightarrow> int \<Rightarrow> string option \<Rightarrow> int \<Rightarrow> checkpoint option" where
  "checkpoint_for is_complete errored failed until resume_cursor since =
     (if errored \<or> failed \<noteq> 0 then None
      else if is_complete then
        Some \<lparr>cp_cursor_at = Some until, cp_resume_cursor = None, cp_resume_since = None,
              cp_resume_until = None\<rparr>
      else if some_text resume_cursor then
        Some \<lparr>cp_cursor_at = None, cp_resume_cursor = resume_cursor, cp_resume_since = Some since,
              cp_resume_until = Some until\<rparr>
      else None)"

section \<open>Paging\<close>

record 'o page_result =
  page_items :: "'o list"
  next_cursor :: "string option"

record ('o, 'e) pull_result =
  pull_orders :: "'o list"
  pull_complete :: bool
  pull_resume :: "string option"
  pull_pages :: nat
  pull_error :: "'e option"

text \<open>
  A platform is asked for a page by its cursor; it has a state of its own, and it may raise.  The
  loop counts down the pages that are left.
\<close>

type_synonym ('s, 'o, 'e) page_fetch = "'s \<Rightarrow> string option \<Rightarrow> 's \<times> ('e + 'o page_result)"

fun pull_loop ::
  "nat \<Rightarrow> ('s, 'o, 'e) page_fetch \<Rightarrow> 's \<Rightarrow> string option \<Rightarrow> string list \<Rightarrow> 'o list \<Rightarrow> nat \<Rightarrow>
     's \<times> ('o, 'e) pull_result" where
  "pull_loop 0 fetch s cursor seen collected pages =
     (s, \<lparr>pull_orders = collected, pull_complete = False, pull_resume = cursor, pull_pages = pages,
          pull_error = None\<rparr>)"
| "pull_loop (Suc left) fetch s cursor seen collected pages =
     (case fetch s cursor of
        (s', Inl e) \<Rightarrow>
          (s', \<lparr>pull_orders = collected, pull_complete = False, pull_resume = None, pull_pages = pages,
                pull_error = Some e\<rparr>)
      | (s', Inr page) \<Rightarrow>
          (let collected' = collected @ page_items page; pages' = pages + 1; nxt = next_cursor page in
           if \<not> some_text nxt then
             (s', \<lparr>pull_orders = collected', pull_complete = True, pull_resume = None,
                   pull_pages = pages', pull_error = None\<rparr>)
           else if the nxt \<in> set seen then
             (s', \<lparr>pull_orders = collected', pull_complete = False, pull_resume = None,
                   pull_pages = pages', pull_error = None\<rparr>)
           else pull_loop left fetch s' nxt (the nxt # seen) collected' pages'))"

definition pull_order_pages ::
  "('s, 'o, 'e) page_fetch \<Rightarrow> 's \<Rightarrow> string option \<Rightarrow> int \<Rightarrow> ('s \<times> ('o, 'e) pull_result) res" where
  "pull_order_pages fetch s start_cursor max_pages =
     (if max_pages < 1 then Inl ValueError
      else Inr (pull_loop (nat max_pages) fetch s start_cursor
                  (if some_text start_cursor then [the start_cursor] else []) [] 0))"

section \<open>The cursor row\<close>

record cursor_row =
  row_cursor_at :: "int option"
  row_resume_cursor :: "string option"
  row_resume_since :: "int option"
  row_resume_until :: "int option"

definition save_cursor :: "cursor_row option \<Rightarrow> checkpoint \<Rightarrow> cursor_row" where
  "save_cursor row cp =
     (case row of
        None \<Rightarrow> \<lparr>row_cursor_at = cp_cursor_at cp, row_resume_cursor = cp_resume_cursor cp,
                 row_resume_since = cp_resume_since cp, row_resume_until = cp_resume_until cp\<rparr>
      | Some r \<Rightarrow>
          \<lparr>row_cursor_at =
             (case cp_cursor_at cp of
                None \<Rightarrow> row_cursor_at r
              | Some c \<Rightarrow> (case row_cursor_at r of
                            None \<Rightarrow> Some c | Some old \<Rightarrow> if c > old then Some c else Some old)),
           row_resume_cursor = cp_resume_cursor cp, row_resume_since = cp_resume_since cp,
           row_resume_until = cp_resume_until cp\<rparr>)"

text \<open>
  \<open>OrderSyncService._window\<close>: an unfinished window is taken up again, otherwise the window
  follows from the high-water mark; an explicit range never advances the cursor.  An empty range
  raises the application's parameter error.
\<close>

definition service_window ::
  "cursor_row option \<Rightarrow> int option \<Rightarrow> int option \<Rightarrow> int \<Rightarrow> int \<Rightarrow> int \<Rightarrow> sync_window res" where
  "service_window stored since until now overlap lookback =
     (if since = None \<and> until = None then
        (case stored of
           Some r \<Rightarrow>
             (case (row_resume_cursor r, row_resume_since r, row_resume_until r) of
                (Some (c # cs), Some rs, Some ru) \<Rightarrow>
                  Inr \<lparr>win_since = rs, win_until = ru, win_cursor = Some (c # cs), win_advance = True\<rparr>
              | _ \<Rightarrow>
                  (let (start, end_at) = order_sync_window (map_option Aware (row_cursor_at r)) (Aware now)
                                           overlap lookback in
                   Inr \<lparr>win_since = start, win_until = end_at, win_cursor = None, win_advance = True\<rparr>))
         | None \<Rightarrow>
             (let (start, end_at) = order_sync_window None (Aware now) overlap lookback in
              Inr \<lparr>win_since = start, win_until = end_at, win_cursor = None, win_advance = True\<rparr>))
      else
        (let end_at = (case until of Some u \<Rightarrow> u | None \<Rightarrow> now);
             start = (case since of Some x \<Rightarrow> x | None \<Rightarrow> end_at - lookback) in
         if start \<ge> end_at then Inl (AppError ''ParamInvalidError'')
         else Inr \<lparr>win_since = start, win_until = end_at, win_cursor = None, win_advance = False\<rparr>))"

text \<open>The end of a run: the checkpoint is stored when the window advances and nothing raised.\<close>

definition after_run ::
  "cursor_row option \<Rightarrow> sync_window \<Rightarrow> ('o, 'e) pull_result \<Rightarrow> int \<Rightarrow> cursor_row option" where
  "after_run stored w batch failed =
     (if win_advance w \<and> pull_error batch = None then
        (case checkpoint_for (pull_complete batch) False failed (win_until w) (pull_resume batch)
                (win_since w) of
           None \<Rightarrow> stored
         | Some cp \<Rightarrow> Some (save_cursor stored cp))
      else stored)"

section \<open>Paging: what a pull returns\<close>

text \<open>The cursors a pull asks for, in order.\<close>

fun asked :: "nat \<Rightarrow> ('s, 'o, 'e) page_fetch \<Rightarrow> 's \<Rightarrow> string option \<Rightarrow> string list \<Rightarrow> string option list" where
  "asked 0 fetch s cursor seen = []"
| "asked (Suc left) fetch s cursor seen =
     (case fetch s cursor of
        (s', Inl e) \<Rightarrow> [cursor]
      | (s', Inr page) \<Rightarrow>
          (let nxt = next_cursor page in
           if \<not> some_text nxt \<or> the nxt \<in> set seen then [cursor]
           else cursor # asked left fetch s' nxt (the nxt # seen)))"

lemma asked_first: "set (asked n fetch s cursor seen) \<subseteq> insert cursor (set (tl (asked n fetch s cursor seen)))"
proof (cases n)
  case (Suc m)
  obtain s' r where "fetch s cursor = (s', r)" by fastforce
  then show ?thesis by (cases r) (auto simp: Suc Let_def)
qed simp

lemma asked_fresh:
  "c \<in> set (tl (asked n fetch s cursor seen)) \<Longrightarrow> some_text c \<and> the c \<notin> set seen"
proof (induction n fetch s cursor seen rule: asked.induct)
  case (2 left fetch s cursor seen)
  show ?case
  proof (cases "fetch s cursor")
    case (Pair s' r)
    show ?thesis
    proof (cases r)
      case (Inl e)
      with 2(2) Pair show ?thesis by simp
    next
      case (Inr page)
      show ?thesis
      proof (cases "\<not> some_text (next_cursor page) \<or> the (next_cursor page) \<in> set seen")
        case False
        let ?rest = "asked left fetch s' (next_cursor page) (the (next_cursor page) # seen)"
        have "c \<in> set ?rest" using 2(2) Pair Inr False by (simp add: Let_def)
        moreover note asked_first [of left fetch s' "next_cursor page" "the (next_cursor page) # seen"]
        ultimately consider "c = next_cursor page" | "c \<in> set (tl ?rest)" by blast
        then show ?thesis
        proof cases
          case 1
          with False show ?thesis by simp
        next
          case 2
          from "2.IH" [OF Pair [symmetric] Inr refl False 2] show ?thesis by simp
        qed
      qed (use 2(2) Pair Inr in \<open>simp add: Let_def\<close>)
    qed
  qed
qed simp


lemma asked_distinct:
  "(some_text cursor \<Longrightarrow> the cursor \<in> set seen) \<Longrightarrow> distinct (asked n fetch s cursor seen)"
proof (induction n fetch s cursor seen rule: asked.induct)
  case (2 left fetch s cursor seen)
  obtain s' r where f: "fetch s cursor = (s', r)" by fastforce
  show ?case
  proof (cases r)
    case (Inr page)
    show ?thesis
    proof (cases "\<not> some_text (next_cursor page) \<or> the (next_cursor page) \<in> set seen")
      case False
      let ?seen = "the (next_cursor page) # seen"
      let ?rest = "asked left fetch s' (next_cursor page) ?seen"
      have "distinct ?rest" using "2.IH" [OF f [symmetric] Inr refl False] by simp
      moreover have "cursor \<notin> set ?rest"
      proof
        assume "cursor \<in> set ?rest"
        moreover note asked_first [of left fetch s' "next_cursor page" "the (next_cursor page) # seen"]
        ultimately consider "cursor = next_cursor page" | "cursor \<in> set (tl ?rest)" by blast
        then show False
        proof cases
          case 1
          with False 2(2) show False by auto
        next
          case 2
          from asked_fresh [OF 2] have "some_text cursor" "the cursor \<notin> set seen" by auto
          with "2.prems" show False by simp
        qed
      qed
      ultimately show ?thesis using f Inr False by (simp add: Let_def)
    qed (use f Inr in \<open>simp add: Let_def\<close>)
  qed (use f in simp)
qed simp

lemma pull_loop_pages:
  "pull_pages (snd (pull_loop n fetch s cursor seen collected pages)) \<le> pages + length (asked n fetch s cursor seen)"
proof (induction n fetch s cursor seen collected pages rule: pull_loop.induct)
  case (2 left fetch s cursor seen collected pages)
  obtain s' r where f: "fetch s cursor = (s', r)" by fastforce
  show ?case
  proof (cases r)
    case (Inr page)
    show ?thesis
    proof (cases "some_text (next_cursor page) \<and> the (next_cursor page) \<notin> set seen")
      case True
      with "2.IH" [OF f [symmetric] Inr refl refl refl] f Inr show ?thesis by (simp add: Let_def)
    qed (use f Inr in \<open>auto simp: Let_def\<close>)
  qed (use f in simp)
qed simp

lemma asked_length: "length (asked n fetch s cursor seen) \<le> n"
  by (induction n fetch s cursor seen rule: asked.induct) (auto split: sum.splits prod.splits simp: Let_def)

text \<open>The same platform, keeping a log of the cursors it is asked for.\<close>

definition logged ::
  "('s, 'o, 'e) page_fetch \<Rightarrow> ('s \<times> string option list, 'o, 'e) page_fetch" where
  "logged fetch sl c = (let (s', r) = fetch (fst sl) c in ((s', snd sl @ [c]), r))"

lemma asked_logged: "asked n (logged fetch) (s, trail) cursor seen = asked n fetch s cursor seen"
proof (induction n arbitrary: s trail cursor seen)
  case (Suc n)
  obtain s' r where f: "fetch s cursor = (s', r)" by fastforce
  with Suc.IH show ?case by (cases r) (simp_all add: logged_def Let_def)
qed simp

lemma pull_loop_log:
  "snd (fst (pull_loop n (logged fetch) (s, trail) cursor seen collected pages)) =
     trail @ asked n fetch s cursor seen"
proof (induction n arbitrary: s trail cursor seen collected pages)
  case (Suc n)
  obtain s' r where f: "fetch s cursor = (s', r)" by fastforce
  with Suc.IH show ?case by (cases r) (simp_all add: logged_def Let_def)
qed simp

text \<open>What has been collected is only carried along.\<close>

definition carry :: "'o list \<Rightarrow> nat \<Rightarrow> 's \<times> ('o, 'e) pull_result \<Rightarrow> 's \<times> ('o, 'e) pull_result" where
  "carry collected pages sb =
     (fst sb, (snd sb)\<lparr>pull_orders := collected @ pull_orders (snd sb),
                       pull_pages := pages + pull_pages (snd sb)\<rparr>)"

lemma pull_loop_carry:
  "pull_loop n fetch s cursor seen (collected @ extra) (pages + k) =
     carry collected pages (pull_loop n fetch s cursor seen extra k)"
proof (induction n arbitrary: s cursor seen extra k)
  case (Suc n)
  obtain s' r where f: "fetch s cursor = (s', r)" by fastforce
  show ?case
  proof (cases r)
    case (Inl e)
    with f show ?thesis by (simp add: carry_def)
  next
    case (Inr page)
    with f Suc [of s' "next_cursor page" "the (next_cursor page) # seen" "extra @ page_items page" "Suc k"]
    show ?thesis by (simp add: Let_def carry_def)
  qed
qed (simp add: carry_def)

definition stuck :: "('o, 'e) pull_result \<Rightarrow> bool" where
  "stuck b \<longleftrightarrow> \<not> pull_complete b \<and> pull_resume b = None \<and> pull_error b = None"

lemma pull_loop_less_seen:
  "set seen \<subseteq> set seen' \<Longrightarrow> \<not> stuck (snd (pull_loop n fetch s cursor seen' collected pages)) \<Longrightarrow>
     pull_loop n fetch s cursor seen collected pages = pull_loop n fetch s cursor seen' collected pages"
proof (induction n arbitrary: s cursor seen seen' collected pages)
  case (Suc n)
  obtain s' r where f: "fetch s cursor = (s', r)" by fastforce
  show ?case
  proof (cases r)
    case (Inr page)
    show ?thesis
    proof (cases "some_text (next_cursor page) \<and> the (next_cursor page) \<notin> set seen'")
      case True
      let ?nxt = "next_cursor page"
      have "pull_loop n fetch s' ?nxt (the ?nxt # seen) (collected @ page_items page) (pages + 1) =
          pull_loop n fetch s' ?nxt (the ?nxt # seen') (collected @ page_items page) (pages + 1)"
        by (rule Suc.IH) (use Suc.prems f Inr True in \<open>auto simp: Let_def\<close>)
      with f Inr True Suc.prems(1) show ?thesis by (auto simp: Let_def)
    next
      case False
      with f Inr Suc.prems(2) show ?thesis by (auto simp: Let_def stuck_def split: if_splits)
    qed
  qed (use f in simp)
qed simp

text \<open>A longer pull is a shorter one followed by one from its resume cursor.\<close>

lemma pull_loop_split:
  assumes "pull_loop m fetch s cursor seen collected pages = (s1, b1)"
    and "\<not> pull_complete b1" "pull_error b1 = None" "\<not> stuck b1"
  shows "\<exists>seen1. (some_text (pull_resume b1) \<longrightarrow> set seen \<subseteq> set seen1 \<and>
      (the (pull_resume b1) \<in> set seen1 \<or> m = 0)) \<and>
    pull_loop (m + n) fetch s cursor seen collected pages =
      pull_loop n fetch s1 (pull_resume b1) seen1 (pull_orders b1) (pull_pages b1)"
  using assms
proof (induction m arbitrary: s cursor seen collected pages)
  case 0
  then show ?case by auto
next
  case (Suc m)
  obtain s' r where f: "fetch s cursor = (s', r)" by fastforce
  show ?case
  proof (cases r)
    case (Inl e)
    with f Suc.prems show ?thesis by auto
  next
    case (Inr page)
    let ?nxt = "next_cursor page"
    have go: "some_text ?nxt \<and> the ?nxt \<notin> set seen"
      using f Inr Suc.prems by (auto simp: Let_def stuck_def split: if_splits)
    then have one: "pull_loop m fetch s' ?nxt (the ?nxt # seen) (collected @ page_items page) (pages + 1) = (s1, b1)"
      using f Inr Suc.prems(1) by (simp add: Let_def)
    from Suc.IH [OF one Suc.prems(2-4)] obtain seen1 where seen1:
      "some_text (pull_resume b1) \<longrightarrow> set (the ?nxt # seen) \<subseteq> set seen1 \<and>
        (the (pull_resume b1) \<in> set seen1 \<or> m = 0)"
      "pull_loop (m + n) fetch s' ?nxt (the ?nxt # seen) (collected @ page_items page) (pages + 1) =
        pull_loop n fetch s1 (pull_resume b1) seen1 (pull_orders b1) (pull_pages b1)" by auto
    moreover have "m = 0 \<Longrightarrow> pull_resume b1 = ?nxt" using one by auto
    ultimately show ?thesis
      using f Inr go by (intro exI [of _ seen1]) (auto simp: Let_def)
  qed
qed


section \<open>The windows of a shop cover its time line\<close>

text \<open>
  The rounds of automatic sync: each round takes the window that the row asks for, pulls, and
  stores the checkpoint.  Beside the row, the windows that were pulled completely and ingested
  without failure are recorded, in order.
\<close>

type_synonym ('o, 'e) sync_round = "int \<times> ('o, 'e) pull_result \<times> int"

definition round_step ::
  "int \<Rightarrow> int \<Rightarrow> cursor_row option \<times> (int \<times> int) list \<Rightarrow> ('o, 'e) sync_round \<Rightarrow>
     cursor_row option \<times> (int \<times> int) list" where
  "round_step overlap lookback st rnd =
     (let (row, spans) = st; (now, batch, failed) = rnd in
      case service_window row None None now overlap lookback of
        Inl _ \<Rightarrow> st
      | Inr w \<Rightarrow>
          (after_run row w batch failed,
           if pull_error batch = None \<and> failed = 0 \<and> pull_complete batch
           then spans @ [(win_since w, win_until w)] else spans))"

definition covered :: "(int \<times> int) list \<Rightarrow> int \<Rightarrow> bool" where
  "covered spans x \<longleftrightarrow> list_ex (\<lambda>(a, b). a \<le> x \<and> x \<le> b) spans"

definition row_inv :: "cursor_row option \<times> (int \<times> int) list \<Rightarrow> bool" where
  "row_inv st =
     (case fst st of
        None \<Rightarrow> snd st = []
      | Some r \<Rightarrow>
          (case row_cursor_at r of
             None \<Rightarrow> snd st = []
           | Some t \<Rightarrow> snd st \<noteq> [] \<and> (\<forall>x. fst (hd (snd st)) \<le> x \<and> x \<le> t \<longrightarrow> covered (snd st) x) \<and>
               (\<forall>rs. row_resume_since r = Some rs \<longrightarrow> rs \<le> t)))"

lemma window_reaches_back:
  assumes "0 \<le> overlap" and "order_sync_window (Some (Aware t)) now overlap lookback = (since, until)"
  shows "since \<le> t"
  using assms by (auto simp: order_sync_window_def Let_def seconds_def split: if_splits)

lemma service_window_since:
  assumes "0 \<le> overlap" and "service_window row None None now overlap lookback = Inr w"
    and "row = Some r" "row_cursor_at r = Some t" "\<forall>rs. row_resume_since r = Some rs \<longrightarrow> rs \<le> t"
  shows "win_since w \<le> t"
  using assms window_reaches_back [OF assms(1), of t "Aware now" lookback]
  by (auto simp: service_window_def split: option.splits list.splits prod.splits)

lemma service_window_advances:
  "service_window row None None now overlap lookback = Inr w \<Longrightarrow> win_advance w"
  by (auto simp: service_window_def split: option.splits list.splits prod.splits)

lemma covered_append:
  "covered (spans @ [(a, b)]) x \<longleftrightarrow> covered spans x \<or> a \<le> x \<and> x \<le> b"
  by (auto simp: covered_def)

lemma round_inv:
  assumes overlap: "0 \<le> overlap" and inv: "row_inv (row, spans)"
  shows "row_inv (round_step overlap lookback (row, spans) (now, batch, failed))"
proof (cases "service_window row None None now overlap lookback")
  case (Inl e)
  with inv show ?thesis by (simp add: round_step_def)
next
  case (Inr w)
  note adv = service_window_advances [OF Inr]
  have since: "win_since w \<le> t"
    if "row = Some r" "row_cursor_at r = Some t" for r t
    using that inv by (intro service_window_since [OF overlap Inr that]) (simp add: row_inv_def)
  show ?thesis
  proof (cases "pull_error batch = None \<and> failed = 0 \<and> pull_complete batch")
    case True
    let ?row = "save_cursor row \<lparr>cp_cursor_at = Some (win_until w), cp_resume_cursor = None,
        cp_resume_since = None, cp_resume_until = None\<rparr>"
    from True adv Inr have step: "round_step overlap lookback (row, spans) (now, batch, failed) =
        (Some ?row, spans @ [(win_since w, win_until w)])"
      by (simp add: round_step_def after_run_def checkpoint_for_def)
    show ?thesis
    proof (cases "\<exists>r t. row = Some r \<and> row_cursor_at r = Some t")
      case True
      then obtain r t where r: "row = Some r" "row_cursor_at r = Some t" by blast
      with inv have s: "spans \<noteq> []" "\<forall>x. fst (hd spans) \<le> x \<and> x \<le> t \<longrightarrow> covered spans x"
        by (simp_all add: row_inv_def)
      from since [OF r] s r show ?thesis
        unfolding step by (auto simp: row_inv_def save_cursor_def covered_append)
    next
      case False
      with inv have "spans = []" by (auto simp: row_inv_def split: option.splits)
      with False show ?thesis
        unfolding step by (auto simp: row_inv_def save_cursor_def covered_def split: option.splits)
    qed
  next
    case False
    then have step: "round_step overlap lookback (row, spans) (now, batch, failed) =
        (after_run row w batch failed, spans)"
      using Inr by (simp add: round_step_def)
    show ?thesis
    proof (cases "pull_error batch = None \<and> failed = 0 \<and> some_text (pull_resume batch)")
      case True
      with False adv have "after_run row w batch failed = Some (save_cursor row
          \<lparr>cp_cursor_at = None, cp_resume_cursor = pull_resume batch,
           cp_resume_since = Some (win_since w), cp_resume_until = Some (win_until w)\<rparr>)"
        by (simp add: after_run_def checkpoint_for_def)
      with inv since show ?thesis
        unfolding step by (auto simp: row_inv_def save_cursor_def split: option.splits)
    next
      case not: False
      with False have "after_run row w batch failed = row"
        by (auto simp: after_run_def checkpoint_for_def)
      with inv show ?thesis unfolding step by simp
    qed
  qed
qed

interpretation cursor_rounds:
  invariant_machine "\<lambda>st rnd. Some (round_step overlap lookback st rnd)" "\<lambda>st. 0 \<le> overlap \<longrightarrow> row_inv st"
  for overlap lookback
proof unfold_locales
  fix s t and rnd :: "('o, 'e) sync_round"
  assume "0 \<le> overlap \<longrightarrow> row_inv s" and "Some (round_step overlap lookback s rnd) = Some t"
  moreover obtain row spans now batch failed where "s = (row, spans)" "rnd = (now, batch, failed)"
    by (metis prod.exhaust)
  ultimately show "0 \<le> overlap \<longrightarrow> row_inv t" using round_inv [of overlap row spans lookback] by auto
qed

section \<open>Properties\<close>

text \<open>A pull ends within its page limit and asks the platform for no cursor twice, however the
  platform answers (also when its cursors loop): the log of the cursors it asked for has no
  duplicates and at most as many entries as the limit, which bounds the pages counted; only a
  limit below one is refused.\<close>

theorem pull_asks_once:
  "case pull_order_pages (logged fetch) (s, []) start_cursor max_pages of
     Inl e \<Rightarrow> e = ValueError \<and> max_pages < 1
   | Inr ((s', trail), b) \<Rightarrow>
       1 \<le> max_pages \<and> distinct trail \<and> int (length trail) \<le> max_pages \<and> pull_pages b \<le> length trail"
proof (cases "max_pages < 1")
  case False
  let ?seen = "if some_text start_cursor then [the start_cursor] else []"
  let ?asked = "asked (nat max_pages) fetch s start_cursor ?seen"
  obtain s' trail b where run: "pull_loop (nat max_pages) (logged fetch) (s, []) start_cursor ?seen [] 0 =
      ((s', trail), b)" by (metis prod.exhaust)
  then have trail: "trail = ?asked"
    using pull_loop_log [of "nat max_pages" fetch s "[]" start_cursor ?seen "[]" 0] by simp
  have "distinct ?asked" by (rule asked_distinct) simp
  moreover have "length ?asked \<le> nat max_pages" by (rule asked_length)
  moreover have "pull_pages b \<le> length ?asked"
    using pull_loop_pages [of "nat max_pages" "logged fetch" "(s, [])" start_cursor ?seen "[]" 0]
    by (simp add: run asked_logged)
  ultimately show ?thesis using False run trail by (simp add: pull_order_pages_def)
qed (simp add: pull_order_pages_def)

text \<open>Stopping at the page limit loses nothing: when a pull stopped with a cursor to resume
  from, a second pull from that cursor returns exactly what one pull with both limits together
  would have returned after the first part (its orders, completeness, next cursor, error and
  platform state), unless that long pull gave up because the platform repeated a cursor.\<close>

theorem resume_loses_nothing:
  assumes first: "pull_order_pages fetch s start_cursor (int m) = Inr (s1, b1)"
    and "\<not> pull_complete b1" "pull_error b1 = None" "some_text (pull_resume b1)"
    and long: "pull_order_pages fetch s start_cursor (int (m + n)) = Inr (s2, b2)"
    and "\<not> stuck b2" and "1 \<le> n"
  shows "\<exists>b. pull_order_pages fetch s1 (pull_resume b1) (int n) = Inr (s2, b) \<and>
    pull_orders b2 = pull_orders b1 @ pull_orders b \<and> pull_pages b2 = pull_pages b1 + pull_pages b \<and>
    pull_complete b2 = pull_complete b \<and> pull_resume b2 = pull_resume b \<and> pull_error b2 = pull_error b"
proof -
  let ?seen = "if some_text start_cursor then [the start_cursor] else []"
  from first have m: "0 < m" and one: "pull_loop m fetch s start_cursor ?seen [] 0 = (s1, b1)"
    by (auto simp: pull_order_pages_def split: if_splits)
  from long have two: "pull_loop (m + n) fetch s start_cursor ?seen [] 0 = (s2, b2)"
    by (auto simp: pull_order_pages_def nat_add_distrib split: if_splits)
  have "\<not> stuck b1" using assms(4) by (auto simp: stuck_def some_text_def)
  from pull_loop_split [OF one assms(2,3) this, of n] obtain seen1 where
    s1: "the (pull_resume b1) \<in> set seen1" and
    eq: "pull_loop n fetch s1 (pull_resume b1) seen1 (pull_orders b1) (pull_pages b1) = (s2, b2)"
    using assms(4) m two by auto
  have "pull_loop n fetch s1 (pull_resume b1) [the (pull_resume b1)] (pull_orders b1) (pull_pages b1) = (s2, b2)"
    using pull_loop_less_seen [of "[the (pull_resume b1)]" seen1 n fetch s1 "pull_resume b1"
        "pull_orders b1" "pull_pages b1"] s1 eq assms(6) by simp
  moreover obtain s3 b where b: "pull_loop n fetch s1 (pull_resume b1) [the (pull_resume b1)] [] 0 = (s3, b)"
    by fastforce
  ultimately have "carry (pull_orders b1) (pull_pages b1) (s3, b) = (s2, b2)"
    using pull_loop_carry [of n fetch s1 "pull_resume b1" "[the (pull_resume b1)]" "pull_orders b1" "[]"
        "pull_pages b1" 0] by simp
  with b assms(4,7) show ?thesis by (auto simp: carry_def pull_order_pages_def)
qed

definition three_pages :: "(unit, int, unit) page_fetch" where
  "three_pages s c = ((), Inr (if c = None then \<lparr>page_items = [1, 2], next_cursor = Some ''b''\<rparr>
     else if c = Some ''b'' then \<lparr>page_items = [3], next_cursor = Some ''c''\<rparr>
     else \<lparr>page_items = [4], next_cursor = None\<rparr>))"

lemma resume_loses_nothing_witness:
  "\<exists>b1 b. pull_order_pages three_pages () None 1 = Inr ((), b1) \<and> pull_resume b1 = Some ''b'' \<and>
     pull_order_pages three_pages () (Some ''b'') 2 = Inr ((), b) \<and>
     pull_orders b1 @ pull_orders b = [1, 2, 3, 4]"
proof -
  let ?b1 = "\<lparr>pull_orders = [1, 2], pull_complete = False, pull_resume = Some ''b'', pull_pages = 1,
      pull_error = None\<rparr> :: (int, unit) pull_result"
  let ?b2 = "\<lparr>pull_orders = [1, 2, 3, 4], pull_complete = True, pull_resume = None, pull_pages = 3,
      pull_error = None\<rparr> :: (int, unit) pull_result"
  have 1: "pull_order_pages three_pages () None (int 1) = Inr ((), ?b1)"
    by (simp add: pull_order_pages_def three_pages_def some_text_def)
  have 2: "pull_order_pages three_pages () None (int (1 + 2)) = Inr ((), ?b2)"
    by (simp add: pull_order_pages_def three_pages_def some_text_def numeral_eq_Suc)
  from resume_loses_nothing [OF 1 _ _ _ 2] 1 show ?thesis
    by (auto simp: some_text_def stuck_def)
qed

text \<open>C22: Automatic sync never leaves a gap behind the high-water mark: after any rounds, with any
  clock readings, page limits, errors and failed writes, every instant from the start of the
  first completed window up to the stored high-water mark lies in a window that was pulled to its
  end and ingested without failure.\<close>

theorem high_water_mark_has_no_gap:
  assumes "0 \<le> overlap"
    and "run_machine (\<lambda>st rnd. Some (round_step overlap lookback st rnd)) (None, []) rounds =
      Some (Some row, spans)"
    and "row_cursor_at row = Some t"
    and "fst (hd spans) \<le> x" and "x \<le> t"
  shows "spans \<noteq> [] \<and> covered spans x"
  using cursor_rounds.run_inv [of overlap "(None, [])" lookback rounds "(Some row, spans)"] assms
  by (simp add: row_inv_def)

lemma high_water_mark_has_no_gap_witness:
  "\<exists>row spans. run_machine (\<lambda>st rnd. Some (round_step 300 1000 st rnd)) (None, [])
       [(5000, \<lparr>pull_orders = [], pull_complete = False, pull_resume = Some ''p2'', pull_pages = 1,
                pull_error = None\<rparr> :: (int, unit) pull_result, 0),
        (6000, \<lparr>pull_orders = [], pull_complete = True, pull_resume = None, pull_pages = 1,
                pull_error = None\<rparr>, 0),
        (7000, \<lparr>pull_orders = [], pull_complete = True, pull_resume = None, pull_pages = 1,
                pull_error = None\<rparr>, 0)] = Some (Some row, spans) \<and>
     row_cursor_at row = Some 7000 \<and> spans = [(4000, 5000), (4700, 7000)] \<and> covered spans 5500"
proof -
  let ?rounds = "[(5000, \<lparr>pull_orders = [], pull_complete = False, pull_resume = Some ''p2'', pull_pages = 1,
                pull_error = None\<rparr> :: (int, unit) pull_result, 0),
        (6000, \<lparr>pull_orders = [], pull_complete = True, pull_resume = None, pull_pages = 1,
                pull_error = None\<rparr>, 0),
        (7000, \<lparr>pull_orders = [], pull_complete = True, pull_resume = None, pull_pages = 1,
                pull_error = None\<rparr>, 0)]"
  let ?row = "\<lparr>row_cursor_at = Some 7000, row_resume_cursor = None, row_resume_since = None,
      row_resume_until = None\<rparr>"
  have run: "run_machine (\<lambda>st rnd. Some (round_step 300 1000 st rnd)) (None, []) ?rounds =
      Some (Some ?row, [(4000, 5000), (4700, 7000)])"
    by (simp add: round_step_def service_window_def order_sync_window_def after_run_def checkpoint_for_def
        save_cursor_def some_text_def Let_def)
  from high_water_mark_has_no_gap [OF _ run, of 7000 5500] run show ?thesis by simp
qed

end
