(* ===== verification/StateStore.thy ===== *)
theory StateStore imports Prelude begin

text \<open>
  Optimistic concurrency on a key-value store (\<open>sync_engine/state_store.py\<close>).  The token
  buckets and the circuit breakers keep their state as text under a key: \<open>update\<close> reads the
  text, computes the new state in the process and writes it back with a compare-and-set, at most
  eight times.

  \<open>json_kv\<close> is the protocol \<open>JsonKv\<close>; \<open>memory_kv\<close> is \<open>MemoryJsonKv\<close>, and \<open>redis_kv\<close> is
  \<open>RedisJsonKv\<close> over the operations of a Redis client, which are a parameter.  The stored text is
  of a type \<open>'v\<close>; \<open>encode\<close> and \<open>decode\<close> are the codec a store is built with.  Every \<open>await\<close> of
  \<open>update\<close> is a point where another coroutine or worker process may run: \<open>worker_step\<close> cuts the
  loop there, and a system of workers interleaves these steps in any order.
\<close>

section \<open>Key-value stores\<close>

record ('s, 'v) json_kv =
  kv_get :: "'s \<Rightarrow> string \<Rightarrow> 'v option res"
  kv_cas :: "'s \<Rightarrow> string \<Rightarrow> 'v option \<Rightarrow> 'v \<Rightarrow> int \<Rightarrow> 's \<times> bool res"

definition memory_get :: "(string \<Rightarrow> 'v option) \<Rightarrow> string \<Rightarrow> 'v option res" where
  "memory_get values k = Inr (values k)"

definition memory_compare_set ::
  "(string \<Rightarrow> 'v option) \<Rightarrow> string \<Rightarrow> 'v option \<Rightarrow> 'v \<Rightarrow> int \<Rightarrow> (string \<Rightarrow> 'v option) \<times> bool res" where
  "memory_compare_set values k expected v ttl =
     (if values k \<noteq> expected then (values, Inr False) else (values(k \<mapsto> v), Inr True))"

definition memory_kv :: "(string \<Rightarrow> 'v option, 'v) json_kv" where
  "memory_kv = \<lparr>kv_get = memory_get, kv_cas = memory_compare_set\<rparr>"

text \<open>
  The exceptions of a Redis client the code tells apart, and the client's operations: \<open>GET\<close>,
  \<open>WATCH\<close>, and \<open>EXEC\<close> of a transaction with one \<open>SET\<close>.  A connection may break before or after
  the server has run a transaction, so \<open>EXEC\<close> returns a state in both cases.
\<close>

datatype redis_exc = WatchError | ConnectionLost

record ('s, 'v) redis_client =
  r_get :: "'s \<Rightarrow> string \<Rightarrow> redis_exc + 'v option"
  r_watch :: "'s \<Rightarrow> string \<Rightarrow> redis_exc + 's"
  r_exec_set :: "'s \<Rightarrow> string \<Rightarrow> 'v \<Rightarrow> int \<Rightarrow> 's \<times> (redis_exc + unit)"

definition redis_get :: "('s, 'v) redis_client \<Rightarrow> 's \<Rightarrow> string \<Rightarrow> 'v option res" where
  "redis_get client s k =
     (case r_get client s k of Inl _ \<Rightarrow> Inl StoreUnavailable | Inr v \<Rightarrow> Inr v)"

definition redis_failure :: "redis_exc \<Rightarrow> bool res" where
  "redis_failure e = (if e = WatchError then Inr False else Inl StoreUnavailable)"

definition redis_compare_set ::
  "('s, 'v) redis_client \<Rightarrow> 's \<Rightarrow> string \<Rightarrow> 'v option \<Rightarrow> 'v \<Rightarrow> int \<Rightarrow> 's \<times> bool res" where
  "redis_compare_set client s k expected v ttl =
     (case r_watch client s k of
        Inl e \<Rightarrow> (s, redis_failure e)
      | Inr s1 \<Rightarrow>
          (case r_get client s1 k of
             Inl e \<Rightarrow> (s1, redis_failure e)
           | Inr current \<Rightarrow>
               if current \<noteq> expected then (s1, Inr False)
               else (case r_exec_set client s1 k v ttl of
                       (s2, Inl e) \<Rightarrow> (s2, redis_failure e)
                     | (s2, Inr _) \<Rightarrow> (s2, Inr True))))"

definition redis_kv :: "('s, 'v) redis_client \<Rightarrow> ('s, 'v) json_kv" where
  "redis_kv client = \<lparr>kv_get = redis_get client, kv_cas = redis_compare_set client\<rparr>"

section \<open>The state store\<close>

record ('s, 'v, 'a) state_store =
  store_kv :: "('s, 'v) json_kv"
  store_ttl :: int
  store_encode :: "'a \<Rightarrow> 'v"
  store_decode :: "'v \<Rightarrow> 'a res"

definition max_attempts :: nat where
  "max_attempts = 8"

text \<open>\<open>except (ValueError, KeyError, TypeError)\<close>: a corrupt text reads as no state.\<close>

definition corrupt :: "py_error \<Rightarrow> bool" where
  "corrupt e \<longleftrightarrow> e = ValueError \<or> e = KeyError \<or> e = TypeError"

definition load_state :: "('s, 'v, 'a) state_store \<Rightarrow> 'v option \<Rightarrow> 'a option res" where
  "load_state st raw =
     (case raw of
        None \<Rightarrow> Inr None
      | Some v \<Rightarrow> (case store_decode st v of
                   Inl e \<Rightarrow> if corrupt e then Inr None else Inl e
                 | Inr a \<Rightarrow> Inr (Some a)))"

definition read_state :: "('s, 'v, 'a) state_store \<Rightarrow> 's \<Rightarrow> string \<Rightarrow> 'a option res" where
  "read_state st s k = bindr (kv_get (store_kv st) s k) (load_state st)"

text \<open>
  The mutators of the code also append to a list that the caller reads the last entry of; here a
  mutator returns that entry beside the new state.
\<close>

type_synonym ('a, 'h) mutator = "'a option \<Rightarrow> 'a \<times> 'h"

fun update_loop ::
  "nat \<Rightarrow> ('s, 'v, 'a) state_store \<Rightarrow> 's \<Rightarrow> string \<Rightarrow> ('a, 'h) mutator \<Rightarrow> 's \<times> ('a \<times> 'h) res" where
  "update_loop 0 st s k mutate = (s, Inl StoreUnavailable)"
| "update_loop (Suc n) st s k mutate =
     (case bindr (kv_get (store_kv st) s k)
             (\<lambda>raw. bindr (load_state st raw) (\<lambda>a. Inr (raw, mutate a))) of
        Inl e \<Rightarrow> (s, Inl e)
      | Inr (raw, new, h) \<Rightarrow>
          (case kv_cas (store_kv st) s k raw (store_encode st new) (store_ttl st) of
             (s', Inl e) \<Rightarrow> (s', Inl e)
           | (s', Inr ok) \<Rightarrow> if ok then (s', Inr (new, h)) else update_loop n st s' k mutate))"

definition update_state ::
  "('s, 'v, 'a) state_store \<Rightarrow> 's \<Rightarrow> string \<Rightarrow> ('a, 'h) mutator \<Rightarrow> 's \<times> ('a \<times> 'h) res" where
  "update_state st s k mutate = update_loop max_attempts st s k mutate"

section \<open>Workers that interleave\<close>

text \<open>
  The same loop cut at its two \<open>await\<close>s.  \<open>Reading n\<close>: about to read, with \<open>n\<close> attempts left.
  \<open>Writing n raw new h\<close>: has read \<open>raw\<close> and computed \<open>new\<close>, about to write, with \<open>n\<close> attempts
  left after this one.
\<close>

datatype ('v, 'a, 'h) phase =
    Reading nat
  | Writing nat "'v option" 'a 'h
  | Returned 'a 'h
  | Raised py_error

fun worker_step ::
  "('s, 'v, 'a) state_store \<Rightarrow> string \<Rightarrow> ('a, 'h) mutator \<Rightarrow> 's \<Rightarrow> ('v, 'a, 'h) phase \<Rightarrow>
     's \<times> ('v, 'a, 'h) phase" where
  "worker_step st k mutate s (Reading 0) = (s, Raised StoreUnavailable)"
| "worker_step st k mutate s (Reading (Suc n)) =
     (case bindr (kv_get (store_kv st) s k)
             (\<lambda>raw. bindr (load_state st raw) (\<lambda>a. Inr (raw, mutate a))) of
        Inl e \<Rightarrow> (s, Raised e)
      | Inr (raw, new, h) \<Rightarrow> (s, Writing n raw new h))"
| "worker_step st k mutate s (Writing n raw new h) =
     (case kv_cas (store_kv st) s k raw (store_encode st new) (store_ttl st) of
        (s', Inl e) \<Rightarrow> (s', Raised e)
      | (s', Inr ok) \<Rightarrow> (s', if ok then Returned new h else Reading n))"
| "worker_step st k mutate s (Returned a h) = (s, Returned a h)"
| "worker_step st k mutate s (Raised e) = (s, Raised e)"

text \<open>
  A system: the store, the phase of each worker, and the workers in the order in which their
  writes succeeded (a ghost field: no step reads it).
\<close>

record ('s, 'v, 'a, 'h) system =
  sys_store :: 's
  sys_phase :: "nat \<Rightarrow> ('v, 'a, 'h) phase"
  sys_done :: "nat list"

definition starting :: "'s \<Rightarrow> ('s, 'v, 'a, 'h) system" where
  "starting s = \<lparr>sys_store = s, sys_phase = (\<lambda>_. Reading max_attempts), sys_done = []\<rparr>"

fun is_returned :: "('v, 'a, 'h) phase \<Rightarrow> bool" where
  "is_returned (Returned _ _) = True"
| "is_returned _ = False"

definition system_step ::
  "('s, 'v, 'a) state_store \<Rightarrow> string \<Rightarrow> (nat \<Rightarrow> ('a, 'h) mutator) \<Rightarrow>
     ('s, 'v, 'a, 'h) system \<Rightarrow> nat \<Rightarrow> ('s, 'v, 'a, 'h) system" where
  "system_step st k mutators y i =
     (let (s', p') = worker_step st k (mutators i) (sys_store y) (sys_phase y i) in
      \<lparr>sys_store = s', sys_phase = (sys_phase y)(i := p'),
       sys_done = (if is_returned p' \<and> \<not> is_returned (sys_phase y i)
                   then sys_done y @ [i] else sys_done y)\<rparr>)"

definition run_system ::
  "('s, 'v, 'a) state_store \<Rightarrow> string \<Rightarrow> (nat \<Rightarrow> ('a, 'h) mutator) \<Rightarrow>
     ('s, 'v, 'a, 'h) system \<Rightarrow> nat list \<Rightarrow> ('s, 'v, 'a, 'h) system" where
  "run_system st k mutators y is = foldl (system_step st k mutators) y is"

text \<open>The specification: the mutators run one after the other, each on what the last one left.\<close>

definition atomically :: "(nat \<Rightarrow> ('a, 'h) mutator) \<Rightarrow> 'a option \<Rightarrow> nat list \<Rightarrow> 'a option" where
  "atomically mutators a0 is = foldl (\<lambda>a i. Some (fst (mutators i a))) a0 is"

lemma atomically_Nil [simp]: "atomically mutators a0 [] = a0"
  by (simp add: atomically_def)

lemma atomically_snoc [simp]:
  "atomically mutators a0 (is @ [i]) = Some (fst (mutators i (atomically mutators a0 is)))"
  by (simp add: atomically_def)


section \<open>The contract of a key-value store, and its providers\<close>

locale json_kv_laws =
  fixes get :: "'s \<Rightarrow> string \<Rightarrow> 'v option res"
    and cas :: "'s \<Rightarrow> string \<Rightarrow> 'v option \<Rightarrow> 'v \<Rightarrow> int \<Rightarrow> 's \<times> bool res"
  assumes get_total: "\<exists>v. get s k = Inr v"
    and cas_hit: "get s k = Inr e \<Longrightarrow>
      \<exists>s'. cas s k e v t = (s', Inr True) \<and> get s' k = Inr (Some v) \<and>
           (\<forall>k'. k' \<noteq> k \<longrightarrow> get s' k' = get s k')"
    and cas_miss: "get s k = Inr c \<Longrightarrow> c \<noteq> e \<Longrightarrow>
      \<exists>s'. cas s k e v t = (s', Inr False) \<and> (\<forall>k'. get s' k' = get s k')"

interpretation memory_store: json_kv_laws memory_get memory_compare_set
  by unfold_locales (auto simp: memory_get_def memory_compare_set_def)

lemma redis_only_unavailable:
  "snd (redis_compare_set client s k e v t) = Inl err \<Longrightarrow> err = StoreUnavailable"
  by (auto simp: redis_compare_set_def redis_failure_def split: sum.splits if_splits prod.splits)

lemma redis_watch_conflict:
  assumes "r_watch client s k = Inr s1" and "r_get client s1 k = Inr e"
    and "r_exec_set client s1 k v t = (s2, Inl WatchError)"
  shows "redis_compare_set client s k e v t = (s2, Inr False)"
  using assms by (simp add: redis_compare_set_def redis_failure_def)

section \<open>Workers on a lawful store\<close>

text \<open>
  What a client of the store must provide: its codec reads back what it writes on the states it
  calls good, and its mutators turn good states (or none) into good states.
\<close>

definition raw_after ::
  "('s, 'v, 'a) state_store \<Rightarrow> (nat \<Rightarrow> ('a, 'h) mutator) \<Rightarrow> 'v option \<Rightarrow> 'a option \<Rightarrow> nat list \<Rightarrow>
     'v option" where
  "raw_after st mutators raw0 a0 is =
     (if is = [] then raw0 else map_option (store_encode st) (atomically mutators a0 is))"

fun phase_inv ::
  "('s, 'v, 'a) state_store \<Rightarrow> (nat \<Rightarrow> ('a, 'h) mutator) \<Rightarrow> 'v option \<Rightarrow> 'a option \<Rightarrow> nat list \<Rightarrow>
     nat \<Rightarrow> ('v, 'a, 'h) phase \<Rightarrow> bool" where
  "phase_inv st mutators raw0 a0 is i (Reading n) \<longleftrightarrow> i \<notin> set is \<and> max_attempts \<le> n + length is"
| "phase_inv st mutators raw0 a0 is i (Writing n raw new h) \<longleftrightarrow>
     i \<notin> set is \<and>
     (\<exists>xs ys. is = xs @ ys \<and> max_attempts \<le> Suc n + length xs \<and>
        raw = raw_after st mutators raw0 a0 xs \<and>
        (new, h) = mutators i (atomically mutators a0 xs))"
| "phase_inv st mutators raw0 a0 is i (Returned a h) \<longleftrightarrow>
     (\<exists>xs ys. is = xs @ i # ys \<and> (a, h) = mutators i (atomically mutators a0 xs))"
| "phase_inv st mutators raw0 a0 is i (Raised e) \<longleftrightarrow>
     i \<notin> set is \<and> e = StoreUnavailable \<and> max_attempts \<le> length is"

definition system_inv ::
  "('s, 'v, 'a) state_store \<Rightarrow> string \<Rightarrow> (nat \<Rightarrow> ('a, 'h) mutator) \<Rightarrow> 'v option \<Rightarrow> 'a option \<Rightarrow>
     ('s, 'v, 'a, 'h) system \<Rightarrow> bool" where
  "system_inv st k mutators raw0 a0 y \<longleftrightarrow>
     kv_get (store_kv st) (sys_store y) k = Inr (raw_after st mutators raw0 a0 (sys_done y)) \<and>
     distinct (sys_done y) \<and>
     (\<forall>i. phase_inv st mutators raw0 a0 (sys_done y) i (sys_phase y i))"

lemma phase_inv_snoc:
  "phase_inv st mutators raw0 a0 is j p \<Longrightarrow> j \<noteq> i \<Longrightarrow>
     phase_inv st mutators raw0 a0 (is @ [i]) j p"
proof (induction st mutators raw0 a0 "is" j p rule: phase_inv.induct)
  case (2 st mutators raw0 a0 "is" i' n raw new h)
  then obtain xs ys where "is = xs @ ys" "max_attempts \<le> Suc n + length xs"
      "raw = raw_after st mutators raw0 a0 xs" "(new, h) = mutators i' (atomically mutators a0 xs)"
    by auto
  moreover have "i' \<notin> set is" using 2 by simp
  ultimately show ?case using 2(2)
    by (simp only: phase_inv.simps) (intro conjI exI [of _ xs] exI [of _ "ys @ [i]"]; simp)
next
  case (3 st mutators raw0 a0 "is" i' a h)
  then obtain xs ys where "is = xs @ i' # ys" "(a, h) = mutators i' (atomically mutators a0 xs)"
    by auto
  then show ?case
    by (simp only: phase_inv.simps) (intro conjI exI [of _ xs] exI [of _ "ys @ [i]"]; simp)
qed auto

locale state_workers = json_kv_laws "kv_get (store_kv st)" "kv_cas (store_kv st)"
  for st :: "('s, 'v, 'a) state_store" +
  fixes mutators :: "nat \<Rightarrow> ('a, 'h) mutator" and good :: "'a \<Rightarrow> bool"
  assumes codec: "good a \<Longrightarrow> store_decode st (store_encode st a) = Inr a"
    and keeps_good: "pred_option good prev \<Longrightarrow> good (fst (mutators i prev))"
begin

lemma atomically_good: "pred_option good a0 \<Longrightarrow> pred_option good (atomically mutators a0 is)"
  by (induction "is" rule: rev_induct) (auto intro: keeps_good)

lemma load_raw_after:
  assumes "pred_option good a0" and "load_state st raw0 = Inr a0"
  shows "load_state st (raw_after st mutators raw0 a0 is) = Inr (atomically mutators a0 is)"
proof (cases "is" rule: rev_cases)
  case (snoc js j)
  have "good (fst (mutators j (atomically mutators a0 js)))"
    using assms(1) by (intro keeps_good atomically_good)
  then show ?thesis by (simp add: snoc raw_after_def load_state_def codec)
qed (simp add: raw_after_def assms)

lemma step_inv:
  assumes good: "pred_option good a0" and load: "load_state st raw0 = Inr a0"
    and inv: "system_inv st k mutators raw0 a0 y"
  shows "system_inv st k mutators raw0 a0 (system_step st k mutators y i)"
proof -
  let ?is = "sys_done y" and ?s = "sys_store y"
  let ?raw = "raw_after st mutators raw0 a0"
  from inv have store: "kv_get (store_kv st) ?s k = Inr (?raw ?is)" and dist: "distinct ?is"
    and ph: "\<And>j. phase_inv st mutators raw0 a0 ?is j (sys_phase y j)"
    by (simp_all add: system_inv_def)
  note defs = system_inv_def system_step_def
  show ?thesis
  proof (cases "sys_phase y i")
    case (Reading n)
    show ?thesis
    proof (cases n)
      case 0
      then show ?thesis using store dist ph Reading ph [of i] by (simp add: defs)
    next
      case (Suc m)
      obtain new h where "mutators i (atomically mutators a0 ?is) = (new, h)" by fastforce
      moreover have "phase_inv st mutators raw0 a0 ?is i (Writing m (?raw ?is) new h)"
        using ph [of i] calculation unfolding Reading Suc phase_inv.simps
        by (intro conjI exI [of _ ?is] exI [of _ "[]"]; simp)
      ultimately show ?thesis
        using store dist ph by (simp add: defs Reading Suc load_raw_after [OF good load])
    qed
  next
    case (Writing n raw new h)
    with ph [of i] obtain xs ys where w: "?is = xs @ ys" "max_attempts \<le> Suc n + length xs"
        "raw = ?raw xs" "(new, h) = mutators i (atomically mutators a0 xs)" "i \<notin> set ?is"
      by auto
    show ?thesis
    proof (cases "raw = ?raw ?is")
      case True
      obtain s' where s': "kv_cas (store_kv st) ?s k raw (store_encode st new) (store_ttl st) = (s', Inr True)"
          "kv_get (store_kv st) s' k = Inr (Some (store_encode st new))"
        using cas_hit [of ?s k raw] store True by metis
      have same: "atomically mutators a0 xs = atomically mutators a0 ?is"
        using load_raw_after [OF good load, of xs] load_raw_after [OF good load, of ?is] True w(3)
        by simp
      have "phase_inv st mutators raw0 a0 (?is @ [i]) i (Returned new h)"
        using w(4) same by auto
      moreover have "phase_inv st mutators raw0 a0 (?is @ [i]) j (sys_phase y j)" if "j \<noteq> i" for j
        using ph that by (intro phase_inv_snoc)
      moreover have "?raw (?is @ [i]) = Some (store_encode st new)"
        using w(4) same by (simp add: raw_after_def) (metis fst_conv)
      ultimately show ?thesis
        using s' w(5) dist by (simp add: defs Writing del: phase_inv.simps)
    next
      case False
      obtain s' where s': "kv_cas (store_kv st) ?s k raw (store_encode st new) (store_ttl st) = (s', Inr False)"
          "kv_get (store_kv st) s' k = Inr (?raw ?is)"
        using cas_miss [of ?s k "?raw ?is" raw] store False by metis
      from False w(1,3) have "ys \<noteq> []" by auto
      then have "max_attempts \<le> n + length ?is" using w(1,2) by (cases ys) auto
      then show ?thesis using s' w(5) dist ph by (simp add: defs Writing)
    qed
  next
    case (Returned a h)
    then show ?thesis using store dist ph [of i] ph by (simp add: defs)
  next
    case (Raised e)
    then show ?thesis using store dist ph [of i] ph by (simp add: defs)
  qed
qed

lemma run_inv:
  assumes good: "pred_option good a0" and load: "load_state st raw0 = Inr a0"
    and s: "kv_get (store_kv st) s k = Inr raw0"
  shows "system_inv st k mutators raw0 a0 (run_system st k mutators (starting s) is)"
proof (induction "is" rule: rev_induct)
  case Nil
  then show ?case using s by (simp add: run_system_def starting_def system_inv_def raw_after_def)
next
  case (snoc i "is")
  then show ?case using step_inv [OF good load, of k] by (simp add: run_system_def)
qed

text \<open>The text in the store is that of the mutators run one after the other.\<close>

lemma run_content:
  assumes "pred_option good a0" and "load_state st raw0 = Inr a0"
    and "kv_get (store_kv st) s k = Inr raw0" and "y = run_system st k mutators (starting s) is"
  shows "read_state st (sys_store y) k = Inr (atomically mutators a0 (sys_done y))"
proof -
  have "system_inv st k mutators raw0 a0 y" using run_inv assms by simp
  then show ?thesis
    using load_raw_after [OF assms(1,2)] by (simp add: system_inv_def read_state_def)
qed

lemma run_results:
  assumes "pred_option good a0" and "load_state st raw0 = Inr a0"
    and "kv_get (store_kv st) s k = Inr raw0" and "y = run_system st k mutators (starting s) is"
    and "sys_phase y i = Returned a h"
  shows "\<exists>xs ys. sys_done y = xs @ i # ys \<and> (a, h) = mutators i (atomically mutators a0 xs)"
proof -
  have "system_inv st k mutators raw0 a0 y" using run_inv assms by simp
  then have "phase_inv st mutators raw0 a0 (sys_done y) i (sys_phase y i)"
    unfolding system_inv_def by blast
  then show ?thesis unfolding assms(5) by simp
qed

end


section \<open>Progress\<close>

fun steps_left :: "('v, 'a, 'h) phase \<Rightarrow> nat" where
  "steps_left (Reading n) = 2 * n + 1"
| "steps_left (Writing n raw new h) = 2 * n + 2"
| "steps_left (Returned a h) = 0"
| "steps_left (Raised e) = 0"

lemma worker_step_left:
  "steps_left (snd (worker_step st k mutate s p)) \<le> steps_left p - 1"
  by (induction st k mutate s p rule: worker_step.induct)
    (auto split: sum.splits prod.splits if_splits)

lemma run_steps_left:
  "steps_left (sys_phase (run_system st k mutators y is) i) \<le>
     steps_left (sys_phase y i) - count_list is i"
proof (induction "is" arbitrary: y)
  case (Cons j js)
  have "steps_left (sys_phase (system_step st k mutators y j) i) \<le>
      steps_left (sys_phase y i) - (if i = j then 1 else 0)"
    using worker_step_left [of st k "mutators j" "sys_store y" "sys_phase y j"]
    by (auto simp: system_step_def split: prod.splits)
  with Cons.IH [of "system_step st k mutators y j"] show ?case
    by (auto simp: run_system_def)
qed (simp add: run_system_def)

lemma run_unscheduled:
  "i \<notin> set is \<Longrightarrow>
     sys_phase (run_system st k mutators y is) i = sys_phase y i"
  by (induction "is" arbitrary: y) (auto simp: run_system_def system_step_def split: prod.splits)

lemma run_done:
  "set (sys_done (run_system st k mutators y is)) \<subseteq> set (sys_done y) \<union> set is"
proof (induction "is" arbitrary: y)
  case (Cons j js)
  have "set (sys_done (system_step st k mutators y j)) \<subseteq> insert j (set (sys_done y))"
    by (auto simp: system_step_def split: prod.splits)
  with Cons.IH [of "system_step st k mutators y j"] show ?case by (auto simp: run_system_def)
qed (simp add: run_system_def)

lemma no_steps_left: "steps_left p = 0 \<Longrightarrow> (\<exists>a h. p = Returned a h) \<or> (\<exists>e. p = Raised e)"
  by (cases p) auto

context state_workers begin

lemma no_starvation:
  assumes "pred_option good a0" and "load_state st raw0 = Inr a0"
    and "kv_get (store_kv st) s k = Inr raw0" and y: "y = run_system st k mutators (starting s) is"
    and few: "card (set is) \<le> max_attempts"
  shows "sys_phase y i \<noteq> Raised e"
proof
  assume r: "sys_phase y i = Raised e"
  have "system_inv st k mutators raw0 a0 y" using run_inv assms by simp
  then have "phase_inv st mutators raw0 a0 (sys_done y) i (sys_phase y i)"
    and dist: "distinct (sys_done y)"
    unfolding system_inv_def by blast+
  with r have i: "i \<notin> set (sys_done y)" and len: "max_attempts \<le> length (sys_done y)" by simp_all
  have "i \<in> set is"
    using r run_unscheduled [of i "is" st k mutators "starting s"]
    by (auto simp: y starting_def)
  with i have "set (sys_done y) \<subset> set is"
    using run_done [of st k mutators "starting s" "is"] by (auto simp: y starting_def)
  then have "card (set (sys_done y)) < card (set is)" by (intro psubset_card_mono) auto
  with dist len few show False by (simp add: distinct_card)
qed

lemma all_return:
  assumes "pred_option good a0" and "load_state st raw0 = Inr a0"
    and "kv_get (store_kv st) s k = Inr raw0" and "y = run_system st k mutators (starting s) is"
    and "card (set is) \<le> max_attempts" and often: "2 * max_attempts + 1 \<le> count_list is i"
  shows "\<exists>a h. sys_phase y i = Returned a h"
proof -
  have "steps_left (sys_phase y i) = 0"
    using run_steps_left [of st k mutators "starting s" "is" i] often
    by (simp add: assms(4) starting_def)
  with no_starvation [OF assms(1-5)] no_steps_left show ?thesis by blast
qed

end

section \<open>The in-process store\<close>

text \<open>
  Every store over \<^const>\<open>memory_kv\<close> whose codec reads back the good states is lawful; the daily
  counters, buckets and circuits of the other theories are instances.
\<close>

lemma memory_workers:
  assumes "store_kv st = memory_kv"
    and "\<And>a. good a \<Longrightarrow> store_decode st (store_encode st a) = Inr a"
    and "\<And>prev i. pred_option good prev \<Longrightarrow> good (fst (mutators i prev))"
  shows "state_workers st mutators good"
  using assms
  by unfold_locales (auto simp: memory_kv_def memory_get_def memory_compare_set_def)

lemma memory_kv_get [simp]: "kv_get memory_kv s k = Inr (s k)"
  by (simp add: memory_kv_def memory_get_def)

text \<open>Without interference the first attempt succeeds.\<close>

lemma update_memory:
  assumes "store_kv st = memory_kv" and "load_state st (s k) = Inr a0"
  shows "update_state st s k mutate =
    (s(k \<mapsto> store_encode st (fst (mutate a0))), Inr (mutate a0))"
  using assms
  by (simp add: update_state_def max_attempts_def numeral_eq_Suc memory_kv_def memory_get_def
      memory_compare_set_def split: prod.splits)

definition counter_store :: "(string \<Rightarrow> int option, int, int) state_store" where
  "counter_store = \<lparr>store_kv = memory_kv, store_ttl = 60, store_encode = id, store_decode = Inr\<rparr>"

definition count_one :: "nat \<Rightarrow> (int, unit) mutator" where
  "count_one i = (\<lambda>a. (case a of None \<Rightarrow> 1 | Some n \<Rightarrow> n + 1, ()))"

interpretation counters: state_workers counter_store count_one "\<lambda>_. True"
  by unfold_locales
    (auto simp: counter_store_def memory_kv_def memory_get_def memory_compare_set_def)

section \<open>Properties\<close>

text \<open>C17: Several workers run \<open>update\<close> on one key of a shared store, interleaved in any order at
  their awaits, each with its own mutator.  Whatever the schedule, the store ends up holding what
  the successful mutators produce when run one after the other in the order of their writes, each
  worker appears in that order at most once, and a worker that returned got the state and the
  result that its mutator gives on what the workers before it left: no update is lost and none is
  applied twice.\<close>

theorem concurrent_updates_atomic:
  assumes "store_kv st = memory_kv"
    and "\<And>a. good a \<Longrightarrow> store_decode st (store_encode st a) = Inr a"
    and "\<And>prev i. pred_option good prev \<Longrightarrow> good (fst (mutators i prev))"
    and "load_state st (s k) = Inr a0" and "pred_option good a0"
  shows "read_state st (sys_store (run_system st k mutators (starting s) is)) k =
      Inr (atomically mutators a0 (sys_done (run_system st k mutators (starting s) is))) \<and>
    distinct (sys_done (run_system st k mutators (starting s) is)) \<and>
    (\<forall>i a h. sys_phase (run_system st k mutators (starting s) is) i = Returned a h \<longrightarrow>
       (\<exists>xs ys. sys_done (run_system st k mutators (starting s) is) = xs @ i # ys \<and>
          (a, h) = mutators i (atomically mutators a0 xs)))"
proof -
  have w: "state_workers st mutators good"
    by (rule memory_workers) (use assms in auto)
  have g: "kv_get (store_kv st) s k = Inr (s k)" by (simp add: assms(1))
  let ?y = "run_system st k mutators (starting s) is"
  have "distinct (sys_done ?y)"
    using state_workers.run_inv [OF w assms(5,4) g] by (simp add: system_inv_def)
  with state_workers.run_content [OF w assms(5,4) g refl]
    state_workers.run_results [OF w assms(5,4) g refl]
  show ?thesis by (intro conjI allI impI)
qed

text \<open>Two workers that read the same empty counter: the second write is refused and recomputed.\<close>

lemma concurrent_updates_atomic_witness:
  "read_state counter_store
     (sys_store (run_system counter_store ''k'' count_one (starting Map.empty) [0, 1, 0, 1, 1, 1]))
     ''k'' = Inr (Some 2) \<and>
   distinct (sys_done (run_system counter_store ''k'' count_one (starting Map.empty) [0, 1, 0, 1, 1, 1]))"
proof -
  have d: "sys_done (run_system counter_store ''k'' count_one (starting Map.empty) [0, 1, 0, 1, 1, 1]) = [0, 1]"
    by (simp add: run_system_def system_step_def starting_def counter_store_def count_one_def
        max_attempts_def memory_kv_def memory_get_def memory_compare_set_def load_state_def numeral_eq_Suc)
  have "atomically count_one None [0, 1] = Some 2"
    by (simp add: atomically_def count_one_def)
  with concurrent_updates_atomic
    [of counter_store "\<lambda>_. True" count_one Map.empty "''k''" None "[0, 1, 0, 1, 1, 1]"] d
  show ?thesis by (simp add: counter_store_def load_state_def)
qed

text \<open>C18: At most eight workers update a key at the same time: none of them ever raises
  \<open>StoreUnavailable\<close> for write conflicts, and each one that is scheduled seventeen times (two steps
  for each of its eight attempts, and one more) has returned.  An attempt fails only when another
  worker has succeeded in between, so the eight attempts are enough.\<close>

theorem eight_workers_all_return:
  assumes "store_kv st = memory_kv"
    and "\<And>a. good a \<Longrightarrow> store_decode st (store_encode st a) = Inr a"
    and "\<And>prev i. pred_option good prev \<Longrightarrow> good (fst (mutators i prev))"
    and "load_state st (s k) = Inr a0" and "pred_option good a0"
    and "card (set is) \<le> 8"
  shows "sys_phase (run_system st k mutators (starting s) is) i \<noteq> Raised e \<and>
    (17 \<le> count_list is i \<longrightarrow>
       (\<exists>a h. sys_phase (run_system st k mutators (starting s) is) i = Returned a h))"
proof -
  have w: "state_workers st mutators good"
    by (rule memory_workers) (use assms in auto)
  have g: "kv_get (store_kv st) s k = Inr (s k)" by (simp add: assms(1))
  have few: "card (set is) \<le> max_attempts" using assms(6) by (simp add: max_attempts_def)
  from state_workers.no_starvation [OF w assms(5,4) g refl few]
    state_workers.all_return [OF w assms(5,4) g refl few, of i]
  show ?thesis by (simp add: max_attempts_def)
qed

lemma eight_workers_all_return_witness:
  "sys_phase (run_system counter_store ''k'' count_one (starting Map.empty)
     (concat (replicate 17 [0, 1, 2]))) 2 \<noteq> Raised StoreUnavailable \<and>
   (\<exists>a h. sys_phase (run_system counter_store ''k'' count_one (starting Map.empty)
     (concat (replicate 17 [0, 1, 2]))) 2 = Returned a h)"
proof -
  have "set (concat (replicate 17 [0, 1, 2])) = {0, 1, 2::nat}" by simp
  moreover have "count_list (concat (replicate 17 [0, 1, 2::nat])) 2 = 17"
    by (simp add: numeral_eq_Suc)
  ultimately show ?thesis
    using eight_workers_all_return [of counter_store "\<lambda>_. True" count_one Map.empty "''k''" None
      "concat (replicate 17 [0, 1, 2])" 2 StoreUnavailable]
    by (simp add: counter_store_def load_state_def del: concat_replicate_trivial)
qed

end
