(* ===== verification/PyJson.thy ===== *)
theory PyJson imports PyTime PyText begin

text \<open>
  What the state codecs of the sync engine use of the standard library: JSON values, the
  conversions \<open>bool\<close>, \<open>int\<close>, \<open>float\<close> and \<open>str\<close> of what \<open>json.loads\<close> returns, and ISO 8601
  timestamps.

  A stored text is represented by the value \<open>json.loads\<close> gives for it (\<open>Text\<close>), or is
  \<open>Malformed\<close>; a text that \<open>json.dumps\<close> wrote with sorted keys and fixed separators is determined
  by its value, so comparing values compares texts.  \<open>isoformat\<close> of a UTC timestamp is written out,
  and \<open>fromisoformat\<close> reads that format; the other formats it reads, the text of floats and of
  composite values, and floats given as text are a parameter (\<open>text_readers\<close>): the codecs never
  write them.  Infinities and NaN are not values of the model.
\<close>

section \<open>JSON values\<close>

datatype json =
    JNull
  | JBool bool
  | JInt int
  | JFloat float64
  | JStr string
  | JArr "json list"
  | JObj "(string \<times> json) list"

datatype json_text = Text json | Malformed string

record text_readers =
  other_iso :: "string \<Rightarrow> datetime res"
  float_text :: "string \<Rightarrow> float64 res"
  other_str :: "json \<Rightarrow> string"

definition json_loads :: "json_text \<Rightarrow> json res" where
  "json_loads raw = (case raw of Text v \<Rightarrow> Inr v | Malformed _ \<Rightarrow> Inl ValueError)"

text \<open>\<open>data.get(key, default)\<close> and \<open>data[key]\<close>; a list, a number or a text has no \<open>get\<close>, and takes no text subscript.\<close>

definition json_get :: "json \<Rightarrow> string \<Rightarrow> json \<Rightarrow> json res" where
  "json_get data key dflt =
     (case data of
        JObj d \<Rightarrow> Inr (case map_of d key of None \<Rightarrow> dflt | Some v \<Rightarrow> v)
      | _ \<Rightarrow> Inl AttributeError)"

definition json_item :: "json \<Rightarrow> string \<Rightarrow> json res" where
  "json_item data key =
     (case data of
        JObj d \<Rightarrow> (case map_of d key of None \<Rightarrow> Inl KeyError | Some v \<Rightarrow> Inr v)
      | _ \<Rightarrow> Inl TypeError)"

fun json_truthy :: "json \<Rightarrow> bool" where
  "json_truthy JNull = False"
| "json_truthy (JBool b) = b"
| "json_truthy (JInt n) = (n \<noteq> 0)"
| "json_truthy (JFloat x) = (x \<noteq> 0)"
| "json_truthy (JStr s) = (s \<noteq> [])"
| "json_truthy (JArr xs) = (xs \<noteq> [])"
| "json_truthy (JObj d) = (d \<noteq> [])"

definition trunc_int :: "rat \<Rightarrow> int" where
  "trunc_int x = (if x < 0 then - \<lfloor>- x\<rfloor> else \<lfloor>x\<rfloor>)"

fun json_int :: "json \<Rightarrow> int res" where
  "json_int (JBool b) = Inr (if b then 1 else 0)"
| "json_int (JInt n) = Inr n"
| "json_int (JFloat x) = Inr (trunc_int x)"
| "json_int (JStr s) = py_int s"
| "json_int _ = Inl TypeError"

fun json_float :: "text_readers \<Rightarrow> json \<Rightarrow> float64 res" where
  "json_float rd (JBool b) = Inr (if b then 1 else 0)"
| "json_float rd (JInt n) = Inr (fl (of_int n))"
| "json_float rd (JFloat x) = Inr x"
| "json_float rd (JStr s) = float_text rd s"
| "json_float rd _ = Inl TypeError"

fun json_str :: "text_readers \<Rightarrow> json \<Rightarrow> string" where
  "json_str rd JNull = ''None''"
| "json_str rd (JBool b) = (if b then ''True'' else ''False'')"
| "json_str rd (JInt n) = str_int n"
| "json_str rd (JStr s) = s"
| "json_str rd v = other_str rd v"

text \<open>\<open>for item in value\<close>: a list, the characters of a text, the keys of an object.\<close>

fun json_iter :: "json \<Rightarrow> json list res" where
  "json_iter (JArr xs) = Inr xs"
| "json_iter (JStr s) = Inr (map (\<lambda>c. JStr [c]) s)"
| "json_iter (JObj d) = Inr (map (\<lambda>(k, v). JStr k) d)"
| "json_iter _ = Inl TypeError"

section \<open>ISO timestamps\<close>

text \<open>The instant 0 is 1970-01-01T00:00:00 UTC, whose ordinal is 719163.\<close>

definition epoch_ordinal :: int where
  "epoch_ordinal = 719163"

definition day_micros :: int where
  "day_micros = 86400000000"

definition utc_date :: "int \<Rightarrow> date" where
  "utc_date t = epoch_ordinal + t div day_micros"

fun pad :: "nat \<Rightarrow> nat \<Rightarrow> string" where
  "pad 0 n = []"
| "pad (Suc w) n = pad w (n div 10) @ [digit_char (n mod 10)]"

definition iso_date :: "date \<Rightarrow> string" where
  "iso_date day = (let (y, m, d) = ymd_of day in
     pad 4 (nat y) @ CHR ''-'' # pad 2 (nat m) @ CHR ''-'' # pad 2 (nat d))"

definition iso_clock :: "nat \<Rightarrow> string" where
  "iso_clock s = pad 2 (s div 3600) @ CHR '':'' # pad 2 (s div 60 mod 60) @ CHR '':'' # pad 2 (s mod 60)"

definition isoformat_utc :: "int \<Rightarrow> string" where
  "isoformat_utc t =
     (let r = nat (t mod day_micros); us = r mod 1000000 in
      iso_date (utc_date t) @ CHR ''T'' # iso_clock (r div 1000000)
      @ (if us = 0 then [] else CHR ''.'' # pad 6 us) @ ''+00:00'')"

definition read_num :: "nat \<Rightarrow> string \<Rightarrow> (nat \<times> string) option" where
  "read_num w s =
     (if w \<le> length s \<and> list_all is_digit (take w s)
      then Some (digits_value 0 (take w s), drop w s) else None)"

definition read_char :: "char \<Rightarrow> string \<Rightarrow> string option" where
  "read_char c s = (case s of [] \<Rightarrow> None | x # r \<Rightarrow> if x = c then Some r else None)"

definition read_date :: "string \<Rightarrow> (date \<times> string) option" where
  "read_date s0 =
     Option.bind (read_num 4 s0) (\<lambda>(y, s1). Option.bind (read_char CHR ''-'' s1) (\<lambda>s2.
     Option.bind (read_num 2 s2) (\<lambda>(m, s3). Option.bind (read_char CHR ''-'' s3) (\<lambda>s4.
     Option.bind (read_num 2 s4) (\<lambda>(d, s5).
       case mk_date (int y) (int m) (int d) of Inl _ \<Rightarrow> None | Inr day \<Rightarrow> Some (day, s5))))))"

definition read_clock :: "string \<Rightarrow> (nat \<times> string) option" where
  "read_clock s0 =
     Option.bind (read_num 2 s0) (\<lambda>(h, s1). Option.bind (read_char CHR '':'' s1) (\<lambda>s2.
     Option.bind (read_num 2 s2) (\<lambda>(mi, s3). Option.bind (read_char CHR '':'' s3) (\<lambda>s4.
     Option.bind (read_num 2 s4) (\<lambda>(s, s5).
       if h < 24 \<and> mi < 60 \<and> s < 60 then Some (h * 3600 + mi * 60 + s, s5) else None)))))"

definition read_fraction :: "string \<Rightarrow> (nat \<times> string) option" where
  "read_fraction s0 =
     (case read_char CHR ''.'' s0 of None \<Rightarrow> Some (0, s0) | Some s1 \<Rightarrow> read_num 6 s1)"

definition read_iso_utc :: "string \<Rightarrow> int option" where
  "read_iso_utc s0 =
     Option.bind (read_date s0) (\<lambda>(day, s1). Option.bind (read_char CHR ''T'' s1) (\<lambda>s2.
     Option.bind (read_clock s2) (\<lambda>(clock, s3).
     Option.bind (read_fraction s3) (\<lambda>(us, s4).
       if s4 = ''+00:00''
       then Some ((day - epoch_ordinal) * day_micros + int clock * 1000000 + int us) else None))))"

definition fromisoformat :: "text_readers \<Rightarrow> string \<Rightarrow> datetime res" where
  "fromisoformat rd s =
     (case read_iso_utc s of Some t \<Rightarrow> Inr (Aware t) | None \<Rightarrow> other_iso rd s)"

section \<open>A timestamp reads back\<close>

lemma length_pad [simp]: "length (pad w n) = w"
  by (induction w n rule: pad.induct) auto

lemma pad_digits: "\<forall>c\<in>set (pad w n). is_digit c"
  by (induction w n rule: pad.induct) (auto simp: digit_char_props)

lemma pad_value: "n < 10 ^ w \<Longrightarrow> digits_value 0 (pad w n) = n"
proof (induction w n rule: pad.induct)
  case (2 w n)
  then have "n div 10 < 10 ^ w" by (simp add: less_mult_imp_div_less mult.commute)
  with 2 show ?case by (simp add: digits_value_append digit_char_props)
qed simp

lemma read_num_pad [simp]: "n < 10 ^ w \<Longrightarrow> read_num w (pad w n @ s) = Some (n, s)"
  using pad_digits [of w n] by (simp add: read_num_def pad_value list_all_iff)

lemma read_char_Cons [simp]: "read_char c (x # s) = (if x = c then Some s else None)"
  by (simp add: read_char_def)

lemma ymd_of_year:
  assumes "date_ok day" and "ymd_of day = (y, m, d)"
  shows "1 \<le> y \<and> y \<le> 9999"
proof -
  have day: "1 \<le> day" "day \<le> max_ordinal" using assms(1) by (auto simp: date_ok_def)
  have "y = year_of day" using assms(2) by (auto simp: ymd_of_def Let_def)
  with year_of_bounds [OF day(1)] have b: "days_before_year y < day" "day \<le> days_before_year (y + 1)"
    by simp_all
  have "\<not> 9999 < y"
  proof
    assume "9999 < y"
    from days_before_year_mono [OF this] b(1) day(2) show False
      by (simp add: days_before_year_def max_ordinal_def)
  qed
  moreover have "\<not> y < 1"
  proof
    assume "y < 1"
    then have "days_before_year (y + 1) \<le> 0"
      using days_before_year_mono [of y 1] by (simp add: days_before_year_def)
    with b(2) day(1) show False by simp
  qed
  ultimately show ?thesis by simp
qed

lemma read_iso_date: "date_ok day \<Longrightarrow> read_date (iso_date day @ s) = Some (day, s)"
proof -
  assume ok: "date_ok day"
  obtain y m d where q: "ymd_of day = (y, m, d)" by (metis prod_cases3)
  have "1 \<le> day" using ok by (simp add: date_ok_def)
  note p = ymd_of_props [OF this q] and y = ymd_of_year [OF ok q]
  have "d \<le> 31" using p(4) days_in_month_bounds [of y m] by linarith
  then have n: "nat y < 10000" "nat m < 100" "nat d < 100" using y p by auto
  have "mk_date y m d = Inr day" using y p by (simp add: mk_date_def)
  with n y p(1-3) show ?thesis by (simp add: iso_date_def q read_date_def)
qed

lemma read_iso_clock: "n < 86400 \<Longrightarrow> read_clock (iso_clock n @ s) = Some (n, s)"
proof -
  assume n: "n < 86400"
  have "n div 3600 * 3600 + n div 60 mod 60 * 60 + n mod 60 = n"
  proof -
    have "n div 60 div 60 = n div 3600" by (simp add: div_mult2_eq [symmetric])
    then show ?thesis using div_mult_mod_eq [of n 60] div_mult_mod_eq [of "n div 60" 60] by linarith
  qed
  moreover have "n div 3600 < 24" using n by (simp add: less_mult_imp_div_less)
  moreover have "n div 60 mod 60 < 100" "n mod 60 < 100" by (simp_all add: less_trans [of _ 60])
  ultimately show ?thesis by (simp add: iso_clock_def read_clock_def)
qed

lemma isoformat_roundtrip:
  assumes "date_ok (utc_date t)"
  shows "fromisoformat rd (isoformat_utc t) = Inr (Aware t)"
proof -
  define r where "r = nat (t mod day_micros)"
  have r: "int r = t mod day_micros" by (simp add: r_def day_micros_def)
  then have "r < 86400 * 1000000"
    using pos_mod_bound [of day_micros t] by (simp add: day_micros_def)
  then have clock: "r div 1000000 < 86400" by (rule less_mult_imp_div_less)
  have us: "r mod 1000000 < 10 ^ 6" by simp
  have "int r = int (r div 1000000) * 1000000 + int (r mod 1000000)"
    by (metis div_mult_mod_eq of_nat_add of_nat_mult of_nat_numeral)
  then have total: "(utc_date t - epoch_ordinal) * day_micros + int (r div 1000000) * 1000000
      + int (r mod 1000000) = t"
    using r div_mult_mod_eq [of t day_micros] by (simp add: utc_date_def)
  have frac: "read_fraction ((if r mod 1000000 = 0 then [] else CHR ''.'' # pad 6 (r mod 1000000))
      @ ''+00:00'') = Some (r mod 1000000, ''+00:00'')"
    using read_num_pad [OF us, of "''+00:00''"] by (simp add: read_fraction_def)
  have "read_iso_utc (isoformat_utc t) = Some t"
    using total
    by (simp add: isoformat_utc_def Let_def r_def [symmetric] read_iso_utc_def
        read_iso_date [OF assms] read_iso_clock [OF clock] frac)
  then show ?thesis by (simp add: fromisoformat_def)
qed

lemma isoformat_not_Nil [simp]: "isoformat_utc t \<noteq> []"
  by (simp add: isoformat_utc_def Let_def)

end
