(* ===== verification/Resilience.thy ===== *)
theory Resilience imports StateStore Policy PyJson Machines begin

text \<open>
  Retries, circuit breakers and dead letters (\<open>sync_engine/resilience.py\<close>).  \<open>plan_retry\<close> turns an
  adapter's decision into the next action; \<open>admit\<close> and \<open>observe\<close> are the circuit breaker of a
  platform, whose state a \<open>JsonStateStore\<close> keeps as text; the dead-letter queue keeps what could
  not be processed.  The draw of the random generator is an argument (a float in [0, 1)), and the
  clock is an argument too: instants are UTC, in microseconds.
\<close>

section \<open>Retries\<close>

datatype retry_decision = D_RETRY | D_RETRY_AFTER | D_REFRESH_TOKEN | D_FAIL_FAST | D_DEAD_LETTER

datatype retry_action = A_RETRY | A_DEAD_LETTER | A_FAIL | A_REFRESH

record retry_plan =
  plan_action :: retry_action
  delay_seconds :: float64
  plan_attempt :: nat
  plan_refreshed :: bool

definition counts_as_outage :: "retry_decision \<Rightarrow> bool" where
  "counts_as_outage decision \<longleftrightarrow> decision = D_RETRY"

text \<open>\<open>rng.uniform(a, b)\<close> is \<open>a + (b - a) * rng.random()\<close>.\<close>

definition uniform :: "float64 \<Rightarrow> float64 \<Rightarrow> float64 \<Rightarrow> float64" where
  "uniform draw a b = fl (a + fl (fl (b - a) * draw))"

definition retry_delay :: "int \<Rightarrow> sync_policy \<Rightarrow> float64 \<Rightarrow> float64" where
  "retry_delay step policy draw =
     (let spread = fl (of_int step * jitter_ratio policy) in
      fl (of_int step + uniform draw (- spread) spread))"

definition mk_plan :: "retry_action \<Rightarrow> float64 \<Rightarrow> nat \<Rightarrow> bool \<Rightarrow> retry_plan" where
  "mk_plan a d n r = \<lparr>plan_action = a, delay_seconds = d, plan_attempt = n, plan_refreshed = r\<rparr>"

definition plan_retry ::
  "retry_decision \<Rightarrow> nat \<Rightarrow> bool \<Rightarrow> sync_policy \<Rightarrow> float64 option \<Rightarrow> float64 \<Rightarrow> retry_plan" where
  "plan_retry decision retry_attempt refresh_attempted policy retry_after_seconds draw =
     (if decision = D_DEAD_LETTER then mk_plan A_DEAD_LETTER 0 retry_attempt refresh_attempted
      else if decision = D_FAIL_FAST then mk_plan A_FAIL 0 retry_attempt refresh_attempted
      else if decision = D_RETRY_AFTER then
        mk_plan A_RETRY
          (case retry_after_seconds of
             None \<Rightarrow> fl (of_int (backoff_seconds policy ! 0))
           | Some x \<Rightarrow> if x < 0 then fl (of_int (backoff_seconds policy ! 0)) else x)
          retry_attempt refresh_attempted
      else if decision = D_REFRESH_TOKEN then
        (if refresh_attempted then mk_plan A_FAIL 0 retry_attempt True
         else mk_plan A_REFRESH 0 retry_attempt True)
      else if length (backoff_seconds policy) \<le> retry_attempt
        then mk_plan A_DEAD_LETTER 0 retry_attempt refresh_attempted
      else mk_plan A_RETRY (retry_delay (backoff_seconds policy ! retry_attempt) policy draw)
             (retry_attempt + 1) refresh_attempted)"

text \<open>
  A task that meets one decision after the other and goes on as long as the plan says retry or
  refresh: the plans it gets.
\<close>

definition goes_on :: "retry_plan \<Rightarrow> bool" where
  "goes_on plan \<longleftrightarrow> plan_action plan = A_RETRY \<or> plan_action plan = A_REFRESH"

fun retry_run ::
  "sync_policy \<Rightarrow> nat \<Rightarrow> bool \<Rightarrow> (retry_decision \<times> float64 option \<times> float64) list \<Rightarrow> retry_plan list" where
  "retry_run policy n refreshed [] = []"
| "retry_run policy n refreshed ((decision, after_seconds, draw) # ds) =
     (let plan = plan_retry decision n refreshed policy after_seconds draw in
      plan # (if goes_on plan
              then retry_run policy (plan_attempt plan) (plan_refreshed plan) ds else []))"

section \<open>The circuit breaker\<close>

datatype circuit_phase = CLOSED | OPEN | HALF_OPEN

record circuit_state =
  c_phase :: circuit_phase
  outcomes :: "bool list"
  opened_at :: "int option"
  probe_in_flight :: bool

definition fresh_circuit :: circuit_state where
  "fresh_circuit = \<lparr>c_phase = CLOSED, outcomes = [], opened_at = None, probe_in_flight = False\<rparr>"

definition admit :: "circuit_state \<Rightarrow> int \<Rightarrow> sync_policy \<Rightarrow> circuit_state \<times> bool" where
  "admit state now policy =
     (if c_phase state = CLOSED then (state, True)
      else if c_phase state = OPEN then
        (case opened_at state of
           None \<Rightarrow> (state, False)
         | Some t0 \<Rightarrow>
             if total_seconds (now - t0) \<ge> of_int (circuit_open_seconds policy)
             then (\<lparr>c_phase = HALF_OPEN, outcomes = outcomes state, opened_at = opened_at state,
                    probe_in_flight = True\<rparr>, True)
             else (state, False))
      else if probe_in_flight state then (state, False)
      else (\<lparr>c_phase = HALF_OPEN, outcomes = outcomes state, opened_at = opened_at state,
             probe_in_flight = True\<rparr>, True))"

text \<open>\<open>xs[-n:]\<close>\<close>

definition slice_last :: "int \<Rightarrow> 'a list \<Rightarrow> 'a list" where
  "slice_last n xs = (if n \<le> 0 then drop (nat (- n)) xs else drop (length xs - nat n) xs)"

definition failure_rate :: "bool list \<Rightarrow> float64" where
  "failure_rate bs = fl (of_nat (length (filter id bs)) / of_nat (length bs))"

definition observe :: "circuit_state \<Rightarrow> bool \<Rightarrow> int \<Rightarrow> sync_policy \<Rightarrow> circuit_state" where
  "observe state failed now policy =
     (if c_phase state = HALF_OPEN then
        (if failed then \<lparr>c_phase = OPEN, outcomes = outcomes state, opened_at = Some now,
                         probe_in_flight = False\<rparr>
         else fresh_circuit)
      else if c_phase state = OPEN then state
      else
        (let window = slice_last (circuit_window policy) (outcomes state @ [failed]) in
         if int (length window) \<ge> circuit_min_samples policy \<and>
            failure_rate window > circuit_failure_ratio policy
         then \<lparr>c_phase = OPEN, outcomes = window, opened_at = Some now, probe_in_flight = False\<rparr>
         else \<lparr>c_phase = CLOSED, outcomes = window, opened_at = None, probe_in_flight = False\<rparr>))"

fun phase_text :: "circuit_phase \<Rightarrow> string" where
  "phase_text CLOSED = ''closed''"
| "phase_text OPEN = ''open''"
| "phase_text HALF_OPEN = ''half_open''"

definition phase_of :: "string \<Rightarrow> circuit_phase res" where
  "phase_of s = (if s = ''closed'' then Inr CLOSED else if s = ''open'' then Inr OPEN
     else if s = ''half_open'' then Inr HALF_OPEN else Inl ValueError)"

text \<open>The keys in the order \<open>sort_keys\<close> gives them.\<close>

definition encode_circuit :: "circuit_state \<Rightarrow> json_text" where
  "encode_circuit state = Text (JObj
     [(''opened_at'', case opened_at state of None \<Rightarrow> JNull | Some t \<Rightarrow> JStr (isoformat_utc t)),
      (''outcomes'', JArr (map (\<lambda>item. JInt (if item then 1 else 0)) (outcomes state))),
      (''phase'', JStr (phase_text (c_phase state))),
      (''probe_in_flight'', JBool (probe_in_flight state))])"

definition decode_circuit :: "text_readers \<Rightarrow> json_text \<Rightarrow> circuit_state res" where
  "decode_circuit rd raw =
     bindr (json_loads raw) (\<lambda>data.
     bindr (json_get data ''opened_at'' JNull) (\<lambda>opened_raw.
     bindr (if json_truthy opened_raw
            then bindr (fromisoformat rd (json_str rd opened_raw))
                   (\<lambda>opened. Inr (Some (micros (as_utc opened))))
            else Inr None) (\<lambda>opened.
     bindr (json_get data ''phase'' (JStr ''closed'')) (\<lambda>phase_raw.
     bindr (phase_of (json_str rd phase_raw)) (\<lambda>ph.
     bindr (json_get data ''outcomes'' (JArr [])) (\<lambda>outcomes_raw.
     bindr (json_iter outcomes_raw) (\<lambda>items.
     bindr (json_get data ''probe_in_flight'' (JBool False)) (\<lambda>probe_raw.
       Inr \<lparr>c_phase = ph, outcomes = map json_truthy items, opened_at = opened,
            probe_in_flight = json_truthy probe_raw\<rparr>))))))))"

text \<open>The breaker over a state store; the caller sees what the last mutator call appended.\<close>

type_synonym 's circuit_store = "('s, json_text, circuit_state) state_store"

definition breaker_key :: "string \<Rightarrow> string" where
  "breaker_key platform = ''cb:'' @ lower (strip platform)"

definition or_fresh :: "circuit_state option \<Rightarrow> circuit_state" where
  "or_fresh state = (case state of None \<Rightarrow> fresh_circuit | Some c \<Rightarrow> c)"

definition breaker_allow ::
  "'s circuit_store \<Rightarrow> sync_policy \<Rightarrow> int \<Rightarrow> 's \<Rightarrow> string \<Rightarrow> 's \<times> bool res" where
  "breaker_allow st policy now s platform =
     (let (s', r) = update_state st s (breaker_key platform)
                      (\<lambda>state. admit (or_fresh state) now policy) in
      (s', bindr r (\<lambda>(_, allowed). Inr allowed)))"

definition breaker_record ::
  "'s circuit_store \<Rightarrow> sync_policy \<Rightarrow> int \<Rightarrow> 's \<Rightarrow> string \<Rightarrow> bool \<Rightarrow> 's \<times> circuit_phase res" where
  "breaker_record st policy now s platform failed =
     (let (s', r) = update_state st s (breaker_key platform)
                      (\<lambda>state. let c = observe (or_fresh state) failed now policy in (c, c_phase c)) in
      (s', bindr r (\<lambda>(_, ph). Inr ph)))"

section \<open>Dead letters\<close>

record dead_letter =
  task_name :: string
  tenant_id :: int
  letter_kwargs :: "(string \<times> json) list"
  error :: string
  failed_at :: string

definition make_dead_letter ::
  "string \<Rightarrow> int \<Rightarrow> (string \<times> json) list \<Rightarrow> string \<Rightarrow> int option \<Rightarrow> int \<Rightarrow> dead_letter" where
  "make_dead_letter task tenant kwargs err failed_at_opt now =
     \<lparr>task_name = task, tenant_id = tenant, letter_kwargs = kwargs, error = err,
      failed_at = isoformat_utc (case failed_at_opt of Some t \<Rightarrow> t | None \<Rightarrow> now)\<rparr>"

text \<open>\<open>sort_keys=True\<close> sorts the keys of nested objects too.\<close>

fun sort_keys :: "json \<Rightarrow> json" where
  "sort_keys (JArr xs) = JArr (map sort_keys xs)"
| "sort_keys (JObj d) = JObj (sort_on fst (map (\<lambda>e. (fst e, sort_keys (snd e))) d))"
| "sort_keys v = v"

definition dump_dead_letter :: "dead_letter \<Rightarrow> json_text" where
  "dump_dead_letter item = Text (JObj
     [(''error'', JStr (error item)), (''failed_at'', JStr (failed_at item)),
      (''kwargs'', sort_keys (JObj (letter_kwargs item))), (''task_name'', JStr (task_name item)),
      (''tenant_id'', JInt (tenant_id item))])"

definition load_dead_letter :: "text_readers \<Rightarrow> json_text \<Rightarrow> dead_letter res" where
  "load_dead_letter rd raw =
     bindr (json_loads raw) (\<lambda>data.
     bindr (json_item data ''kwargs'') (\<lambda>kwargs.
     case kwargs of
       JObj d \<Rightarrow>
         bindr (json_item data ''task_name'') (\<lambda>task.
         bindr (json_item data ''tenant_id'') (\<lambda>tenant_raw.
         bindr (json_int tenant_raw) (\<lambda>tenant.
         bindr (json_item data ''error'') (\<lambda>err.
         bindr (json_item data ''failed_at'') (\<lambda>failed.
           Inr \<lparr>task_name = json_str rd task, tenant_id = tenant, letter_kwargs = d,
                error = json_str rd err, failed_at = json_str rd failed\<rparr>)))))
     | _ \<Rightarrow> Inl TypeError))"

record 's letter_list =
  letters_push :: "'s \<Rightarrow> dead_letter \<Rightarrow> 's \<times> unit res"
  letters_pop :: "'s \<Rightarrow> 's \<times> dead_letter option res"
  letters_size :: "'s \<Rightarrow> int res"

definition memory_push :: "dead_letter list \<Rightarrow> dead_letter \<Rightarrow> dead_letter list \<times> unit res" where
  "memory_push items item = (items @ [item], Inr ())"

definition memory_pop :: "dead_letter list \<Rightarrow> dead_letter list \<times> dead_letter option res" where
  "memory_pop items = (case items of [] \<Rightarrow> ([], Inr None) | x # xs \<Rightarrow> (xs, Inr (Some x)))"

definition memory_size :: "dead_letter list \<Rightarrow> int res" where
  "memory_size items = Inr (int (length items))"

definition memory_letters :: "dead_letter list letter_list" where
  "memory_letters =
     \<lparr>letters_push = memory_push, letters_pop = memory_pop, letters_size = memory_size\<rparr>"

text \<open>The operations of a Redis list: \<open>RPUSH\<close>, \<open>LPOP\<close>, \<open>LLEN\<close>; each may fail.\<close>

record 's redis_list_client =
  redis_rpush :: "'s \<Rightarrow> json_text \<Rightarrow> 's \<times> (unit + unit)"
  redis_lpop :: "'s \<Rightarrow> 's \<times> (unit + json_text option)"
  redis_llen :: "'s \<Rightarrow> unit + int"

definition redis_letters :: "text_readers \<Rightarrow> 's redis_list_client \<Rightarrow> 's letter_list" where
  "redis_letters rd client =
     \<lparr>letters_push = (\<lambda>s item.
        case redis_rpush client s (dump_dead_letter item) of
          (s', Inl _) \<Rightarrow> (s', Inl StoreUnavailable) | (s', Inr _) \<Rightarrow> (s', Inr ())),
      letters_pop = (\<lambda>s.
        case redis_lpop client s of
          (s', Inl _) \<Rightarrow> (s', Inl StoreUnavailable)
        | (s', Inr None) \<Rightarrow> (s', Inr None)
        | (s', Inr (Some raw)) \<Rightarrow> (s', bindr (load_dead_letter rd raw) (\<lambda>item. Inr (Some item)))),
      letters_size = (\<lambda>s.
        case redis_llen client s of Inl _ \<Rightarrow> Inl StoreUnavailable | Inr n \<Rightarrow> Inr n)\<rparr>"

definition dlq_push :: "'s letter_list \<Rightarrow> 's \<Rightarrow> dead_letter \<Rightarrow> 's \<times> unit res" where
  "dlq_push letters s item = letters_push letters s item"

definition replay_next :: "'s letter_list \<Rightarrow> 's \<Rightarrow> 's \<times> dead_letter option res" where
  "replay_next letters s = letters_pop letters s"

definition dlq_size :: "'s letter_list \<Rightarrow> 's \<Rightarrow> int res" where
  "dlq_size letters s = letters_size letters s"


section \<open>Retries end, and wait within bounds\<close>

lemma fl_half_range:
  assumes "fl s = s" and "0 \<le> s" and "0 \<le> draw" and "draw < 1"
  shows "- s \<le> uniform draw (- s) s \<and> uniform draw (- s) s \<le> s"
proof -
  have two: "fl (s - (- s)) = 2 * s"
    using fl_scale [of s] assms(1) by simp
  have p: "0 \<le> 2 * s * draw" "2 * s * draw \<le> 2 * s"
    using assms by (simp_all add: mult_left_le)
  then have f: "0 \<le> fl (2 * s * draw)" "fl (2 * s * draw) \<le> 2 * s"
    using fl_nonneg fl_mono [OF p(2)] two by simp_all
  have "fl (- s) = - s" using round_sig_minus [of 2 53 s] assms(1) by (simp add: fl_def [symmetric])
  with fl_mono [of "- s" "- s + fl (2 * s * draw)"] fl_mono [of "- s + fl (2 * s * draw)" s] f assms(1)
  show ?thesis unfolding uniform_def two by simp
qed

lemma retry_delay_bounds:
  assumes "policy_ok policy" and "0 < step" and "step < 2 ^ 52" and "0 \<le> draw" and "draw < 1"
  shows "0 \<le> retry_delay step policy draw \<and> retry_delay step policy draw \<le> 2 * of_int step"
proof -
  let ?spread = "fl (of_int step * jitter_ratio policy)"
  note p = policy_okD [OF assms(1)]
  have j: "0 \<le> of_int step * jitter_ratio policy" "of_int step * jitter_ratio policy \<le> of_int step"
    using p(7,8) assms(2) by (simp_all add: mult_left_le)
  have step: "fl (of_int step) = of_int step" using assms(2,3) by (intro fl_of_int) simp
  have s: "0 \<le> ?spread" "?spread \<le> of_int step"
    using fl_nonneg [OF j(1)] fl_mono [OF j(2)] step by simp_all
  from fl_half_range [OF fl_idem s(1) assms(4,5)] s
  have u: "0 \<le> of_int step + uniform draw (- ?spread) ?spread"
    "of_int step + uniform draw (- ?spread) ?spread \<le> 2 * of_int step" by linarith+
  have "fl (2 * of_int step) = 2 * of_int step"
    using fl_of_int [of "2 * step"] assms(2,3) by simp
  with fl_nonneg [OF u(1)] fl_mono [OF u(2)] show ?thesis by (simp add: retry_delay_def Let_def)
qed

text \<open>How many plans a run may still get, besides those that answer a platform's "retry after".\<close>

definition retries_left :: "sync_policy \<Rightarrow> nat \<Rightarrow> bool \<Rightarrow> nat" where
  "retries_left policy n refreshed =
     (length (backoff_seconds policy) - n) + (if refreshed then 0 else 1) + 1"

definition waits_told :: "(retry_decision \<times> 'x \<times> 'y) list \<Rightarrow> nat" where
  "waits_told ds = length (filter (\<lambda>d. fst d = D_RETRY_AFTER) ds)"

lemma plan_retry_progress:
  "goes_on (plan_retry decision n refreshed policy after_seconds draw) \<Longrightarrow> decision \<noteq> D_RETRY_AFTER \<Longrightarrow>
   retries_left policy (plan_attempt (plan_retry decision n refreshed policy after_seconds draw))
     (plan_refreshed (plan_retry decision n refreshed policy after_seconds draw)) <
   retries_left policy n refreshed"
  by (cases decision) (auto simp: plan_retry_def mk_plan_def goes_on_def retries_left_def split: if_splits)

lemma plan_retry_told:
  "retries_left policy (plan_attempt (plan_retry D_RETRY_AFTER n refreshed policy after_seconds draw))
     (plan_refreshed (plan_retry D_RETRY_AFTER n refreshed policy after_seconds draw)) =
   retries_left policy n refreshed"
  by (simp add: plan_retry_def mk_plan_def)

lemma retries_left_pos: "0 < retries_left policy n refreshed"
  by (simp add: retries_left_def)

lemma retry_run_length:
  "length (retry_run policy n refreshed ds) \<le> retries_left policy n refreshed + waits_told ds"
proof (induction policy n refreshed ds rule: retry_run.induct)
  case (2 policy n refreshed decision after_seconds draw ds)
  let ?plan = "plan_retry decision n refreshed policy after_seconds draw"
  show ?case
  proof (cases "goes_on ?plan")
    case True
    with 2(1) [OF refl True] plan_retry_progress [OF True] show ?thesis
      by (cases "decision = D_RETRY_AFTER") (auto simp: Let_def waits_told_def plan_retry_told)
  next
    case False
    with retries_left_pos [of policy n refreshed] show ?thesis by (simp add: Let_def)
  qed
qed simp

lemma retry_run_stops:
  "length (retry_run policy n refreshed ds) < length ds \<Longrightarrow>
     retry_run policy n refreshed ds \<noteq> [] \<and> \<not> goes_on (last (retry_run policy n refreshed ds))"
proof (induction policy n refreshed ds rule: retry_run.induct)
  case (2 policy n refreshed decision after_seconds draw ds)
  let ?plan = "plan_retry decision n refreshed policy after_seconds draw"
  show ?case
  proof (cases "goes_on ?plan")
    case True
    with 2(1) [OF refl True] 2(2) show ?thesis by (auto simp: Let_def)
  qed (simp add: Let_def)
qed simp


section \<open>The circuit as a machine\<close>

datatype circuit_event = Ask int | Report bool int

fun circuit_step :: "sync_policy \<Rightarrow> circuit_state \<Rightarrow> circuit_event \<Rightarrow> circuit_state" where
  "circuit_step policy st (Ask now) = fst (admit st now policy)"
| "circuit_step policy st (Report failed now) = observe st failed now policy"

text \<open>
  The invariant: a closed circuit has neither an opening time nor a probe, and its window never
  exceeds the failure threshold; an open one has an opening time; a half-open one has its probe in
  flight; the window is bounded.
\<close>

definition tolerable :: "sync_policy \<Rightarrow> bool list \<Rightarrow> bool" where
  "tolerable policy bs \<longleftrightarrow>
     int (length bs) < circuit_min_samples policy \<or> failure_rate bs \<le> circuit_failure_ratio policy"

definition circuit_inv :: "sync_policy \<Rightarrow> circuit_state \<Rightarrow> bool" where
  "circuit_inv policy st \<longleftrightarrow>
     (c_phase st = CLOSED \<longrightarrow>
        opened_at st = None \<and> \<not> probe_in_flight st \<and> tolerable policy (outcomes st)) \<and>
     (c_phase st = OPEN \<longrightarrow> opened_at st \<noteq> None \<and> \<not> probe_in_flight st) \<and>
     (c_phase st = HALF_OPEN \<longrightarrow> opened_at st \<noteq> None \<and> probe_in_flight st) \<and>
     int (length (outcomes st)) \<le> max 1 (circuit_window policy)"

lemma slice_last_length: "1 \<le> n \<Longrightarrow> int (length (slice_last n xs)) \<le> n"
  by (simp add: slice_last_def)

lemma tolerable_iff:
  "tolerable policy bs \<longleftrightarrow> \<not> (int (length bs) \<ge> circuit_min_samples policy \<and>
     failure_rate bs > circuit_failure_ratio policy)"
  by (auto simp: tolerable_def)

lemma admit_inv: "circuit_inv policy st \<Longrightarrow> circuit_inv policy (fst (admit st now policy))"
  by (cases "c_phase st") (auto simp: circuit_inv_def admit_def split: option.splits)

lemma observe_inv:
  assumes "policy_ok policy" and "circuit_inv policy st"
  shows "circuit_inv policy (observe st failed now policy)"
proof (cases "c_phase st")
  case CLOSED
  note p = policy_okD(11,12) [OF assms(1)]
  have "int (length (slice_last (circuit_window policy) (outcomes st @ [failed]))) \<le> circuit_window policy"
    using p by (intro slice_last_length) simp
  with CLOSED p show ?thesis by (simp add: observe_def circuit_inv_def Let_def tolerable_iff)
next
  case OPEN
  with assms(2) show ?thesis by (simp add: observe_def)
next
  case HALF_OPEN
  with assms policy_okD(11,12) [OF assms(1)] show ?thesis
    by (simp add: observe_def circuit_inv_def fresh_circuit_def tolerable_def)
qed

interpretation circuit_machine:
  invariant_machine "\<lambda>st ev. Some (circuit_step policy st ev)" "\<lambda>st. policy_ok policy \<longrightarrow> circuit_inv policy st"
  for policy
proof unfold_locales
  fix s t and ev :: circuit_event
  assume "policy_ok policy \<longrightarrow> circuit_inv policy s" "Some (circuit_step policy s ev) = Some t"
  then show "policy_ok policy \<longrightarrow> circuit_inv policy t"
    by (cases ev) (auto simp: admit_inv observe_inv)
qed

lemma fresh_inv: "policy_ok policy \<Longrightarrow> circuit_inv policy fresh_circuit"
  using policy_okD(11) [of policy] by (simp add: circuit_inv_def fresh_circuit_def tolerable_def)

section \<open>The codec of the circuit\<close>

definition circuit_storable :: "circuit_state \<Rightarrow> bool" where
  "circuit_storable st \<longleftrightarrow> pred_option (\<lambda>t. date_ok (utc_date t)) (opened_at st)"

lemma json_loads_Text [simp]: "json_loads (Text v) = Inr v"
  by (simp add: json_loads_def)

lemma phase_of_text [simp]: "phase_of (phase_text p) = Inr p"
  by (cases p) (simp_all add: phase_of_def)

lemma decode_encode_circuit:
  assumes "circuit_storable st"
  shows "decode_circuit rd (encode_circuit st) = Inr st"
proof -
  have o: "map (json_truthy \<circ> (\<lambda>item. JInt (if item then 1 else 0))) bs = bs" for bs
    by (induction bs) auto
  show ?thesis
  proof (cases "opened_at st")
    case None
    then show ?thesis by (simp add: decode_circuit_def encode_circuit_def json_get_def o)
  next
    case (Some t)
    with assms have "fromisoformat rd (isoformat_utc t) = Inr (Aware t)"
      by (intro isoformat_roundtrip) (simp add: circuit_storable_def)
    with Some show ?thesis by (simp add: decode_circuit_def encode_circuit_def json_get_def o)
  qed
qed

text \<open>A stored text that is JSON but not an object raises an exception that the store does not treat as corrupt.\<close>

lemma decode_circuit_list: "decode_circuit rd (Text (JArr xs)) = Inl AttributeError"
  by (simp add: decode_circuit_def json_get_def)

text \<open>The store of circuits under test settings, in the memory of one process, which keeps a value for ever;
  over Redis a value goes with its time to live (\<open>Expiry\<close>, and \<open>circuits_on\<close> in \<open>OrderSync\<close>).\<close>

definition circuit_memory_store ::
  "text_readers \<Rightarrow> int \<Rightarrow> (string \<Rightarrow> json_text option) circuit_store" where
  "circuit_memory_store rd ttl =
     \<lparr>store_kv = memory_kv, store_ttl = ttl, store_encode = encode_circuit,
      store_decode = decode_circuit rd\<rparr>"

lemma or_fresh_storable: "pred_option circuit_storable prev \<Longrightarrow> circuit_storable (or_fresh prev)"
  by (cases prev) (simp_all add: or_fresh_def circuit_storable_def fresh_circuit_def)

lemma admit_storable: "circuit_storable st \<Longrightarrow> circuit_storable (fst (admit st now policy))"
  by (auto simp: admit_def circuit_storable_def split: option.splits)

definition ask_mutator :: "sync_policy \<Rightarrow> (nat \<Rightarrow> int) \<Rightarrow> nat \<Rightarrow> (circuit_state, bool) mutator" where
  "ask_mutator policy clock i = (\<lambda>state. admit (or_fresh state) (clock i) policy)"

interpretation asking:
  state_workers "circuit_memory_store rd ttl" "ask_mutator policy clock" circuit_storable
  for rd ttl policy clock
  by (rule memory_workers)
    (auto simp: circuit_memory_store_def decode_encode_circuit ask_mutator_def
      intro!: admit_storable or_fresh_storable)

text \<open>Once a probe has been let through, no later question is.\<close>

definition probing :: "circuit_state option \<Rightarrow> bool" where
  "probing state \<longleftrightarrow> c_phase (or_fresh state) = HALF_OPEN \<and> probe_in_flight (or_fresh state)"

lemma probing_blocks:
  "probing state \<Longrightarrow> snd (ask_mutator policy clock i state) = False \<and>
     probing (Some (fst (ask_mutator policy clock i state)))"
  by (simp add: probing_def ask_mutator_def admit_def or_fresh_def)

lemma probing_stays: "probing state \<Longrightarrow> probing (atomically (ask_mutator policy clock) state is)"
proof (induction "is" rule: rev_induct)
  case (snoc i "is")
  then show ?case using probing_blocks [of "atomically (ask_mutator policy clock) state is" policy clock i]
    by simp
qed simp

definition not_closed :: "circuit_state option \<Rightarrow> bool" where
  "not_closed state \<longleftrightarrow> c_phase (or_fresh state) \<noteq> CLOSED"

lemma ask_not_closed:
  assumes "not_closed state"
  shows "not_closed (Some (fst (ask_mutator policy clock i state)))"
    and "snd (ask_mutator policy clock i state) \<Longrightarrow> probing (Some (fst (ask_mutator policy clock i state)))"
  using assms by (auto simp: not_closed_def probing_def ask_mutator_def admit_def or_fresh_def split: option.splits)

lemma asks_not_closed: "not_closed state \<Longrightarrow> not_closed (atomically (ask_mutator policy clock) state is)"
  by (induction "is" rule: rev_induct) (auto intro: ask_not_closed(1))

lemma atomically_append: "atomically m a (xs @ ys) = atomically m (atomically m a xs) ys"
  by (simp add: atomically_def)

lemma later_refused:
  assumes "not_closed state" and "snd (ask_mutator policy clock i (atomically (ask_mutator policy clock) state xs))"
  shows "snd (ask_mutator policy clock j
    (atomically (ask_mutator policy clock) state (xs @ i # ys))) = False"
proof -
  let ?s = "atomically (ask_mutator policy clock) state xs"
  have "probing (Some (fst (ask_mutator policy clock i ?s)))"
    using assms by (intro ask_not_closed(2) asks_not_closed)
  moreover have "atomically (ask_mutator policy clock) state (xs @ i # ys) =
      atomically (ask_mutator policy clock) (Some (fst (ask_mutator policy clock i ?s))) ys"
    by (simp add: atomically_def)
  ultimately show ?thesis using probing_stays probing_blocks by metis
qed


lemma append_cons_cases:
  "xs @ i # ys = xs' @ j # ys' \<Longrightarrow>
     i = j \<or> (\<exists>zs. xs' = xs @ i # zs) \<or> (\<exists>zs. xs = xs' @ j # zs)"
proof (induction xs arbitrary: xs')
  case Nil
  then show ?case by (cases xs') auto
next
  case (Cons x xs)
  then show ?case by (cases xs') auto
qed

section \<open>The dead-letter queue\<close>

text \<open>The contract of a letter list: letters come out once, in the order they went in.\<close>

fun push_all :: "'s letter_list \<Rightarrow> 's \<Rightarrow> dead_letter list \<Rightarrow> 's" where
  "push_all letters s [] = s"
| "push_all letters s (item # items) = push_all letters (fst (dlq_push letters s item)) items"

fun replay :: "'s letter_list \<Rightarrow> 's \<Rightarrow> nat \<Rightarrow> dead_letter option res list" where
  "replay letters s 0 = []"
| "replay letters s (Suc n) =
     (let (s', r) = replay_next letters s in r # replay letters s' n)"

locale letter_queue =
  fixes letters :: "'s letter_list" and pending :: "'s \<Rightarrow> dead_letter list"
  assumes push_law: "\<exists>s'. letters_push letters s item = (s', Inr ()) \<and> pending s' = pending s @ [item]"
    and pop_empty: "pending s = [] \<Longrightarrow> \<exists>s'. letters_pop letters s = (s', Inr None) \<and> pending s' = []"
    and pop_first: "pending s = item # rest \<Longrightarrow>
      \<exists>s'. letters_pop letters s = (s', Inr (Some item)) \<and> pending s' = rest"
    and size_law: "letters_size letters s = Inr (int (length (pending s)))"
begin

lemma pending_push_all: "pending (push_all letters s items) = pending s @ items"
proof (induction items arbitrary: s)
  case (Cons item items)
  obtain s' where "letters_push letters s item = (s', Inr ())" "pending s' = pending s @ [item]"
    using push_law by blast
  with Cons show ?case by (simp add: dlq_push_def)
qed simp

lemma replay_pending:
  "replay letters s (length (pending s) + n) =
     map (\<lambda>item. Inr (Some item)) (pending s) @ replicate n (Inr None)"
proof (induction "pending s" arbitrary: s)
  case Nil
  have "replay letters t n = replicate n (Inr None)" if "pending t = []" for t
    using that
  proof (induction n arbitrary: t)
    case (Suc n)
    obtain t' where "letters_pop letters t = (t', Inr None)" "pending t' = []"
      using pop_empty [OF Suc.prems] by blast
    with Suc.IH show ?case by (simp add: replay_next_def)
  qed simp
  from this [OF Nil [symmetric]] show ?case by (simp add: Nil [symmetric])
next
  case (Cons item rest)
  obtain s' where s': "letters_pop letters s = (s', Inr (Some item))" "pending s' = rest"
    using pop_first [OF Cons(2) [symmetric]] by blast
  from Cons(1) [OF s'(2) [symmetric]] show ?case
    by (simp add: Cons(2) [symmetric] s' replay_next_def)
qed

end

interpretation memory_queue: letter_queue memory_letters id
  by unfold_locales (auto simp: memory_letters_def memory_push_def memory_pop_def memory_size_def)

section \<open>A dead letter reads back\<close>

lemma map_of_map_snd: "map_of (map (\<lambda>e. (fst e, f (snd e))) d) k = map_option f (map_of d k)"
  by (induction d) auto

lemma map_of_sort_on:
  assumes "distinct (map fst d)"
  shows "map_of (sort_on fst d) = map_of d"
proof -
  have "set (sort_on fst d) = set d" by simp
  moreover have "mset (map fst (sort_on fst d)) = mset (map fst d)" by simp
  then have "distinct (map fst (sort_on fst d))" using assms by (metis mset_eq_imp_distinct_iff)
  ultimately show ?thesis using assms map_of_inject_set by metis
qed

lemma load_dump_dead_letter:
  "load_dead_letter rd (dump_dead_letter item) =
     Inr (item\<lparr>letter_kwargs := sort_on fst (map (\<lambda>e. (fst e, sort_keys (snd e))) (letter_kwargs item))\<rparr>)"
  by (simp add: load_dead_letter_def dump_dead_letter_def json_item_def)

lemma load_dump_kwargs:
  assumes "distinct (map fst (letter_kwargs item))"
  shows "map_of (sort_on fst (map (\<lambda>e. (fst e, sort_keys (snd e))) (letter_kwargs item))) =
      map_option sort_keys \<circ> map_of (letter_kwargs item)"
proof -
  have "distinct (map fst (map (\<lambda>e. (fst e, sort_keys (snd e))) (letter_kwargs item)))"
    using assms by (simp add: comp_def)
  from map_of_sort_on [OF this] show ?thesis by (simp add: fun_eq_iff map_of_map_snd)
qed

lemma redis_push_pop:
  assumes "redis_rpush client s (dump_dead_letter item) = (s1, Inr ())"
    and "redis_lpop client s2 = (s3, Inr (Some (dump_dead_letter item)))"
  shows "snd (letters_push (redis_letters rd client) s item) = Inr () \<and>
    (\<exists>item'. letters_pop (redis_letters rd client) s2 = (s3, Inr (Some item')) \<and>
       load_dead_letter rd (dump_dead_letter item) = Inr item')"
  using assms by (simp add: redis_letters_def load_dump_dead_letter)

section \<open>Properties\<close>

text \<open>A task that keeps failing stops: whatever decisions the adapter returns and whatever the
  generator draws, a task is answered at most one time per backoff step, once for a token refresh
  and once more, besides the times the platform itself said when to come back; and a run that was
  given more decisions than that ended in a dead letter or a failure.\<close>

theorem retries_end:
  "length (retry_run policy 0 False ds) \<le> length (backoff_seconds policy) + 2 + waits_told ds \<and>
   (length (backoff_seconds policy) + 2 + waits_told ds < length ds \<longrightarrow>
      retry_run policy 0 False ds \<noteq> [] \<and>
      (plan_action (last (retry_run policy 0 False ds)) = A_DEAD_LETTER \<or>
       plan_action (last (retry_run policy 0 False ds)) = A_FAIL))"
proof -
  have len: "length (retry_run policy 0 False ds) \<le> length (backoff_seconds policy) + 2 + waits_told ds"
    using retry_run_length [of policy 0 False ds] by (simp add: retries_left_def)
  have "plan_action p = A_DEAD_LETTER \<or> plan_action p = A_FAIL" if "\<not> goes_on p" for p
    using that by (cases "plan_action p") (auto simp: goes_on_def)
  with len retry_run_stops [of policy 0 False ds] show ?thesis by auto
qed

lemma retries_end_witness:
  "length (retry_run default_policy 0 False (replicate 6 (D_RETRY, None, 1/2))) \<le> 5 \<and>
   (plan_action (last (retry_run default_policy 0 False (replicate 6 (D_RETRY, None, 1/2)))) = A_DEAD_LETTER \<or>
    plan_action (last (retry_run default_policy 0 False (replicate 6 (D_RETRY, None, 1/2)))) = A_FAIL)"
  using retries_end [of default_policy "replicate 6 (D_RETRY, None, 1/2)"]
  by (simp add: waits_told_def default_policy_def)

text \<open>C19: In every state a platform's circuit reaches, under any questions and reports: a closed
  circuit lets calls through, and its window of recent outcomes has a failure rate at most the
  threshold; an open one refuses, unchanged, until the configured time since it opened has passed
  and then lets one probe through; while a probe is in flight every question is refused and
  changes nothing; and the probe's success gives a fresh circuit, its failure an open one.\<close>

theorem circuit_protects:
  assumes "policy_ok policy"
    and "run_machine (\<lambda>st ev. Some (circuit_step policy st ev)) fresh_circuit evs = Some st"
  shows "(c_phase st = CLOSED \<longrightarrow> admit st now policy = (st, True) \<and> tolerable policy (outcomes st)) \<and>
    (c_phase st = OPEN \<longrightarrow> (\<exists>t0. opened_at st = Some t0 \<and>
       admit st now policy =
         (if total_seconds (now - t0) \<ge> of_int (circuit_open_seconds policy)
          then (st\<lparr>c_phase := HALF_OPEN, probe_in_flight := True\<rparr>, True) else (st, False)))) \<and>
    (c_phase st = HALF_OPEN \<longrightarrow> admit st now policy = (st, False) \<and>
       observe st False now policy = fresh_circuit \<and>
       observe st True now policy =
         st\<lparr>c_phase := OPEN, opened_at := Some now, probe_in_flight := False\<rparr>)"
proof -
  have "circuit_inv policy st"
    using circuit_machine.run_inv [of policy fresh_circuit evs st] fresh_inv assms by simp
  then show ?thesis
    by (cases st; cases "c_phase st")
      (auto simp: circuit_inv_def admit_def observe_def fresh_circuit_def)
qed

lemma circuit_protects_witness:
  "run_machine (\<lambda>st ev. Some (circuit_step default_policy st ev)) fresh_circuit
     [Ask 0, Report True 1, Report True 2, Report True 3, Report True 4] =
     Some \<lparr>c_phase = OPEN, outcomes = [True, True, True, True], opened_at = Some 4,
       probe_in_flight = False\<rparr> \<and>
   snd (admit \<lparr>c_phase = OPEN, outcomes = [True, True, True, True], opened_at = Some 4,
       probe_in_flight = False\<rparr> 5 default_policy) = False"
proof -
  let ?st = "\<lparr>c_phase = OPEN, outcomes = [True, True, True, True], opened_at = Some 4,
       probe_in_flight = False\<rparr>"
  have one: "fl 1 = 1" using fl_of_int [of 1] by simp
  have run: "run_machine (\<lambda>st ev. Some (circuit_step default_policy st ev)) fresh_circuit
     [Ask 0, Report True 1, Report True 2, Report True 3, Report True 4] = Some ?st"
    by (simp add: fresh_circuit_def admit_def observe_def slice_last_def failure_rate_def one
        default_policy_def Let_def)
  have "total_seconds 1 \<le> 1" using fl_mono [of "1 / 1000000" 1] one by (simp add: total_seconds_def)
  with circuit_protects [OF default_policy_ok run, of 5] run show ?thesis
    by (auto simp: default_policy_def)
qed

text \<open>C20: When several workers ask the breaker of a platform that is not closed, with their steps on
  the shared store interleaved in any way and each reading its own clock, at most one of them is
  let through to probe the platform.\<close>

theorem one_probe_at_a_time:
  assumes "s (breaker_key platform) = Some (encode_circuit c)"
    and "circuit_storable c" and "c_phase c \<noteq> CLOSED"
    and y: "y = run_system (circuit_memory_store rd ttl) (breaker_key platform)
      (ask_mutator policy clock) (starting s) is"
    and i: "sys_phase y i = Returned a True" and j: "sys_phase y j = Returned b True"
  shows "i = j"
proof -
  have load: "load_state (circuit_memory_store rd ttl) (Some (encode_circuit c)) = Inr (Some c)"
    using decode_encode_circuit [OF assms(2)] by (simp add: load_state_def circuit_memory_store_def)
  have get: "kv_get (store_kv (circuit_memory_store rd ttl)) s (breaker_key platform) =
      Inr (Some (encode_circuit c))"
    using assms(1) by (simp add: circuit_memory_store_def)
  have nc: "not_closed (Some c)" using assms(3) by (simp add: not_closed_def or_fresh_def)
  have good: "pred_option circuit_storable (Some c)" using assms(2) by simp
  note res = asking.run_results [OF good load get y]
  have "distinct (sys_done y)"
    using asking.run_inv [OF good load get] by (simp add: y system_inv_def)
  from res [OF i] res [OF j] obtain xs ys xs' ys' where
    i': "sys_done y = xs @ i # ys" "snd (ask_mutator policy clock i (atomically (ask_mutator policy clock) (Some c) xs))"
    and j': "sys_done y = xs' @ j # ys'" "snd (ask_mutator policy clock j (atomically (ask_mutator policy clock) (Some c) xs'))"
    by (metis snd_conv)
  from append_cons_cases [of xs i ys xs' j ys'] i'(1) j'(1)
  consider "i = j" | zs where "xs' = xs @ i # zs" | zs where "xs = xs' @ j # zs" by metis
  then show ?thesis
  proof cases
    case 2
    with later_refused [OF nc i'(2), of j zs] j'(2) show ?thesis by simp
  next
    case 3
    with later_refused [OF nc j'(2), of i zs] i'(2) show ?thesis by simp
  qed simp
qed

definition plain_readers :: text_readers where
  "plain_readers = \<lparr>other_iso = (\<lambda>_. Inl ValueError), float_text = (\<lambda>_. Inl ValueError),
     other_str = (\<lambda>_. '''')\<rparr>"

lemma one_probe_at_a_time_witness:
  "\<exists>y. y = run_system (circuit_memory_store plain_readers 60) (breaker_key ''shopee'')
         (ask_mutator default_policy (\<lambda>_. 300000000))
         (starting [breaker_key ''shopee'' \<mapsto>
            encode_circuit \<lparr>c_phase = OPEN, outcomes = [True], opened_at = Some 0, probe_in_flight = False\<rparr>])
         [0, 1, 0, 1, 1, 1] \<and>
       (\<exists>a. sys_phase y 0 = Returned a True) \<and> \<not> (\<exists>b. sys_phase y 1 = Returned b True)"
proof -
  let ?c = "\<lparr>c_phase = OPEN, outcomes = [True], opened_at = Some 0, probe_in_flight = False\<rparr>"
  let ?p = "\<lparr>c_phase = HALF_OPEN, outcomes = [True], opened_at = Some 0, probe_in_flight = True\<rparr>"
  let ?k = "breaker_key ''shopee''"
  let ?s = "[?k \<mapsto> encode_circuit ?c]"
  let ?m = "ask_mutator default_policy (\<lambda>_. 300000000)"
  let ?st = "circuit_memory_store plain_readers 60"
  obtain y where y: "y = run_system ?st ?k ?m (starting ?s) [0, 1, 0, 1, 1, 1]" by blast
  have ok: "circuit_storable ?c" "circuit_storable ?p"
    by (simp_all add: circuit_storable_def date_ok_def utc_date_def epoch_ordinal_def day_micros_def
        max_ordinal_def)
  have "fl 300 = 300" using fl_of_int [of 300] by simp
  then have ask: "?m i (Some ?c) = (?p, True)" for i
    by (simp add: ask_mutator_def admit_def or_fresh_def total_seconds_def default_policy_def)
  have ask2: "?m i (Some ?p) = (?p, False)" for i
    by (simp add: ask_mutator_def admit_def or_fresh_def)
  have load: "load_state ?st (Some (encode_circuit ?c)) = Inr (Some ?c)"
      "load_state ?st (Some (encode_circuit ?p)) = Inr (Some ?p)"
    using ok by (simp_all add: load_state_def circuit_memory_store_def decode_encode_circuit)
  have diff: "encode_circuit ?p \<noteq> encode_circuit ?c" by (simp add: encode_circuit_def)
  have kv: "store_kv ?st = memory_kv" "store_encode ?st = encode_circuit"
    by (simp_all add: circuit_memory_store_def)
  have "sys_phase y 0 = Returned ?p True"
    unfolding y using diff
    by (simp add: run_system_def system_step_def starting_def max_attempts_def numeral_eq_Suc kv load ask ask2
        memory_kv_def memory_get_def memory_compare_set_def)
  moreover have "\<not> sys_phase y 1 = Returned b True" for b
    using one_probe_at_a_time [of ?s "''shopee''" ?c y plain_readers 60 default_policy "\<lambda>_. 300000000"
        "[0, 1, 0, 1, 1, 1]" 0 ?p 1 b] calculation ok(1) y by auto
  ultimately show ?thesis using y by blast
qed

end
