(* ===== verification/RateLimit.thy ===== *)
theory RateLimit imports Resilience begin

text \<open>
  The token buckets (\<open>adapters/ratelimit.py\<close>): one bucket per platform and shop (or per platform,
  when the quota counts per application), with a multiplier that platform throttling lowers and
  success raises again, and an optional quota per UTC day.  Token counts, rates and multipliers
  are floats, every operation rounded; instants are UTC, in microseconds.  The buckets and the
  daily counters live in the same key-value store.
\<close>

section \<open>The bucket\<close>

record rate_limit_spec =
  qps :: int
  burst :: int
  dimension :: string
  daily_quota :: "int option"

record bucket_state =
  tokens :: float64
  updated_at :: int
  penalty :: float64
  consecutive_429 :: int
  consecutive_ok :: int

record limit_decision =
  slot_allowed :: bool
  decision_wait :: float64
  decision_penalty :: float64

definition app_dimensions :: "string list" where
  "app_dimensions = [''app'', ''per_app'']"

definition bucket_key :: "string \<Rightarrow> string \<Rightarrow> rate_limit_spec \<Rightarrow> string" where
  "bucket_key platform shop_id spec =
     (let scope = (if dimension spec \<in> set app_dimensions then ''app'' else shop_id) in
      ''rl:'' @ lower (strip platform) @ CHR '':'' # scope)"

definition capacity :: "int \<Rightarrow> float64 \<Rightarrow> float64" where
  "capacity b p = max 1 (fl (fl (of_int b) * p))"

definition fresh_bucket :: "int \<Rightarrow> int \<Rightarrow> float64 \<Rightarrow> bucket_state" where
  "fresh_bucket now b p =
     \<lparr>tokens = capacity b p, updated_at = now, penalty = p, consecutive_429 = 0, consecutive_ok = 0\<rparr>"

definition apply_acquire ::
  "bucket_state option \<Rightarrow> int \<Rightarrow> float64 \<Rightarrow> int \<Rightarrow> bool \<times> float64 \<times> bucket_state" where
  "apply_acquire state now rate_qps b =
     (let pen = (case state of None \<Rightarrow> 1 | Some st \<Rightarrow> penalty st);
          rate = fl (rate_qps * pen);
          cap = capacity b pen;
          (toks, streak_429, streak_ok) =
            (case state of
               None \<Rightarrow> (cap, 0, 0)
             | Some st \<Rightarrow>
                 (let elapsed = total_seconds (now - updated_at st) in
                  (min cap (fl (tokens st + fl (max 0 elapsed * rate))),
                   consecutive_429 st, consecutive_ok st))) in
      if rate \<le> 0 \<or> toks < 1 then
        (False, (if rate \<le> 0 then 1 else fl (fl (1 - toks) / rate)),
         \<lparr>tokens = max 0 toks, updated_at = now, penalty = pen,
          consecutive_429 = streak_429, consecutive_ok = streak_ok\<rparr>)
      else
        (True, 0,
         \<lparr>tokens = fl (toks - 1), updated_at = now, penalty = pen,
          consecutive_429 = streak_429, consecutive_ok = streak_ok\<rparr>))"

definition or_fresh_bucket :: "bucket_state option \<Rightarrow> int \<Rightarrow> int \<Rightarrow> bucket_state" where
  "or_fresh_bucket state now b = (case state of Some st \<Rightarrow> st | None \<Rightarrow> fresh_bucket now b 1)"

definition apply_throttle ::
  "bucket_state option \<Rightarrow> int \<Rightarrow> int \<Rightarrow> sync_policy \<Rightarrow> bucket_state" where
  "apply_throttle state now b policy =
     (let base = or_fresh_bucket state now b;
          pen = max (penalty_floor policy) (fl (penalty base * slowdown_ratio policy)) in
      \<lparr>tokens = min (tokens base) (capacity b pen), updated_at = updated_at base, penalty = pen,
       consecutive_429 = consecutive_429 base + 1, consecutive_ok = 0\<rparr>)"

definition apply_success ::
  "bucket_state option \<Rightarrow> int \<Rightarrow> int \<Rightarrow> sync_policy \<Rightarrow> bucket_state" where
  "apply_success state now b policy =
     (let base = or_fresh_bucket state now b;
          streak = consecutive_ok base + 1;
          (pen, streak_ok) =
            (if recover_after_successes policy \<le> streak \<and> penalty base < 1
             then (min 1 (fl (penalty base / slowdown_ratio policy)), 0)
             else (penalty base, streak)) in
      \<lparr>tokens = min (tokens base) (capacity b pen), updated_at = updated_at base, penalty = pen,
       consecutive_429 = 0, consecutive_ok = streak_ok\<rparr>)"

definition encode_bucket :: "bucket_state \<Rightarrow> json_text" where
  "encode_bucket state = Text (JObj
     [(''consecutive_429'', JInt (consecutive_429 state)),
      (''consecutive_ok'', JInt (consecutive_ok state)),
      (''penalty'', JFloat (penalty state)),
      (''tokens'', JFloat (tokens state)),
      (''updated_at'', JStr (isoformat_utc (updated_at state)))])"

definition decode_bucket :: "text_readers \<Rightarrow> json_text \<Rightarrow> bucket_state res" where
  "decode_bucket rd raw =
     bindr (json_loads raw) (\<lambda>data.
     bindr (json_item data ''updated_at'') (\<lambda>updated_raw.
     bindr (fromisoformat rd (json_str rd updated_raw)) (\<lambda>updated.
     bindr (bindr (json_item data ''tokens'') (json_float rd)) (\<lambda>toks.
     bindr (bindr (json_get data ''penalty'' (JInt 1)) (json_float rd)) (\<lambda>pen.
     bindr (bindr (json_get data ''consecutive_429'' (JInt 0)) json_int) (\<lambda>c429.
     bindr (bindr (json_get data ''consecutive_ok'' (JInt 0)) json_int) (\<lambda>cok.
       Inr \<lparr>tokens = toks, updated_at = micros (as_utc updated), penalty = pen,
            consecutive_429 = c429, consecutive_ok = cok\<rparr>)))))))"

section \<open>Daily counters\<close>

record day_count = used_count :: int

definition compact_date :: "date \<Rightarrow> string" where
  "compact_date day = (let (y, m, d) = ymd_of day in pad 4 (nat y) @ pad 2 (nat m) @ pad 2 (nat d))"

definition day_key :: "string \<Rightarrow> string \<Rightarrow> rate_limit_spec \<Rightarrow> int \<Rightarrow> string" where
  "day_key platform shop_id spec now =
     bucket_key platform shop_id spec @ '':day:'' @ compact_date (utc_date now)"

definition seconds_until_next_utc_day :: "int \<Rightarrow> float64" where
  "seconds_until_next_utc_day now =
     (let nxt = (now div day_micros) * day_micros + day_micros in
      max 1 (total_seconds (nxt - now)))"

definition encode_day :: "day_count \<Rightarrow> json_text" where
  "encode_day state = Text (JObj [(''count'', JInt (used_count state))])"

definition decode_day :: "json_text \<Rightarrow> day_count res" where
  "decode_day raw =
     bindr (json_loads raw) (\<lambda>data.
       case data of
         JObj d \<Rightarrow> (case map_of d ''count'' of
                      None \<Rightarrow> Inl ValueError
                    | Some v \<Rightarrow> bindr (json_int v) (\<lambda>n. Inr \<lparr>used_count = n\<rparr>))
       | _ \<Rightarrow> Inl ValueError)"

section \<open>The limiter\<close>

record 's token_bucket_limiter =
  limiter_store :: "('s, json_text, bucket_state) state_store"
  limiter_policy :: sync_policy
  limiter_day_store :: "('s, json_text, day_count) state_store option"

text \<open>The points of a call at which the clock is read: each is a reading of its own.\<close>

datatype reading = AtBlock | AtWait | AtToken | AtCount

type_synonym clock = "reading \<Rightarrow> int"

definition refused :: "float64 \<Rightarrow> float64 \<Rightarrow> limit_decision" where
  "refused wait pen = \<lparr>slot_allowed = False, decision_wait = wait, decision_penalty = pen\<rparr>"

definition take_token ::
  "'s token_bucket_limiter \<Rightarrow> int \<Rightarrow> 's \<Rightarrow> string \<Rightarrow> string \<Rightarrow> rate_limit_spec \<Rightarrow>
     's \<times> limit_decision res" where
  "take_token limiter now s platform shop_id spec =
     (let (s', r) = update_state (limiter_store limiter) s (bucket_key platform shop_id spec)
            (\<lambda>state. let (ok, wait, new) = apply_acquire state now (fl (of_int (qps spec))) (burst spec) in
               (new, \<lparr>slot_allowed = ok, decision_wait = wait, decision_penalty = penalty new\<rparr>)) in
      case r of
        Inl e \<Rightarrow> (s', if e = StoreUnavailable then Inr (refused 1 1) else Inl e)
      | Inr (_, decision) \<Rightarrow> (s', Inr decision))"

definition used_today :: "day_count option \<Rightarrow> int" where
  "used_today state = (case state of None \<Rightarrow> 0 | Some c \<Rightarrow> if used_count c < 0 then 0 else used_count c)"

definition daily_block ::
  "'s token_bucket_limiter \<Rightarrow> clock \<Rightarrow> 's \<Rightarrow> string \<Rightarrow> string \<Rightarrow> rate_limit_spec \<Rightarrow>
     limit_decision option res" where
  "daily_block limiter clock s platform shop_id spec =
     (case daily_quota spec of
        None \<Rightarrow> Inr None
      | Some quota \<Rightarrow>
          (case limiter_day_store limiter of
             None \<Rightarrow> Inr (Some (refused 1 1))
           | Some days \<Rightarrow>
               (case read_state days s (day_key platform shop_id spec (clock AtBlock)) of
                  Inl e \<Rightarrow> if e = StoreUnavailable then Inr (Some (refused 1 1)) else Inl e
                | Inr current \<Rightarrow>
                    if used_today current \<ge> quota
                    then Inr (Some (refused (seconds_until_next_utc_day (clock AtWait)) 1)) else Inr None)))"

definition count_daily ::
  "'s token_bucket_limiter \<Rightarrow> int \<Rightarrow> 's \<Rightarrow> string \<Rightarrow> string \<Rightarrow> rate_limit_spec \<Rightarrow> 's \<times> unit res" where
  "count_daily limiter now s platform shop_id spec =
     (case limiter_day_store limiter of
        None \<Rightarrow> (s, Inl StoreUnavailable)
      | Some days \<Rightarrow>
          (let (s', r) = update_state days s (day_key platform shop_id spec now)
                 (\<lambda>state. (\<lparr>used_count = used_today state + 1\<rparr>, ())) in
           (s', bindr r (\<lambda>_. Inr ()))))"

definition try_acquire ::
  "'s token_bucket_limiter \<Rightarrow> clock \<Rightarrow> 's \<Rightarrow> string \<Rightarrow> string \<Rightarrow> rate_limit_spec \<Rightarrow>
     's \<times> limit_decision res" where
  "try_acquire limiter clock s platform shop_id spec =
     (case (if daily_quota spec = None then Inr None else daily_block limiter clock s platform shop_id spec) of
        Inl e \<Rightarrow> (s, Inl e)
      | Inr (Some blocked) \<Rightarrow> (s, Inr blocked)
      | Inr None \<Rightarrow>
          (case take_token limiter (clock AtToken) s platform shop_id spec of
             (s1, Inl e) \<Rightarrow> (s1, Inl e)
           | (s1, Inr decision) \<Rightarrow>
               if slot_allowed decision \<and> daily_quota spec \<noteq> None then
                 (case count_daily limiter (clock AtCount) s1 platform shop_id spec of
                    (s2, Inl e) \<Rightarrow>
                      (s2, if e = StoreUnavailable then Inr (refused 1 (decision_penalty decision))
                           else Inl e)
                  | (s2, Inr _) \<Rightarrow> (s2, Inr decision))
               else (s1, Inr decision)))"

definition record_throttled ::
  "'s token_bucket_limiter \<Rightarrow> int \<Rightarrow> 's \<Rightarrow> string \<Rightarrow> string \<Rightarrow> rate_limit_spec \<Rightarrow> 's \<times> float64 res" where
  "record_throttled limiter now s platform shop_id spec =
     (let (s', r) = update_state (limiter_store limiter) s (bucket_key platform shop_id spec)
            (\<lambda>state. (apply_throttle state now (burst spec) (limiter_policy limiter), ())) in
      (s', bindr r (\<lambda>(new, _). Inr (penalty new))))"

definition record_success ::
  "'s token_bucket_limiter \<Rightarrow> int \<Rightarrow> 's \<Rightarrow> string \<Rightarrow> string \<Rightarrow> rate_limit_spec \<Rightarrow> 's \<times> float64 res" where
  "record_success limiter now s platform shop_id spec =
     (let (s', r) = update_state (limiter_store limiter) s (bucket_key platform shop_id spec)
            (\<lambda>state. (apply_success state now (burst spec) (limiter_policy limiter), ())) in
      (s', bindr r (\<lambda>(new, _). Inr (penalty new))))"


section \<open>Bounds\<close>

definition bucket_inv :: "sync_policy \<Rightarrow> int \<Rightarrow> bucket_state \<Rightarrow> bool" where
  "bucket_inv policy b st \<longleftrightarrow>
     penalty_floor policy \<le> penalty st \<and> penalty st \<le> 1 \<and>
     0 \<le> tokens st \<and> tokens st \<le> capacity b (penalty st)"

text \<open>The policy's fractions are floats: rounding leaves them as they are.\<close>

definition float_policy :: "sync_policy \<Rightarrow> bool" where
  "float_policy policy \<longleftrightarrow> policy_ok policy \<and> fl (penalty_floor policy) = penalty_floor policy"

lemma fl_1 [simp]: "fl 1 = 1"
  using fl_of_int [of 1] by simp

lemma capacity_ge_1: "1 \<le> capacity b p"
  by (simp add: capacity_def)

lemma fl_capacity [simp]: "fl (capacity b p) = capacity b p"
  by (simp add: capacity_def max_def)

lemma fresh_bucket_inv:
  "policy_ok policy \<Longrightarrow> bucket_inv policy b (fresh_bucket now b 1)"
  using policy_okD(4) [of policy] capacity_ge_1 [of b 1]
  by (simp add: bucket_inv_def fresh_bucket_def order_trans [of 0 1])

lemma or_fresh_bucket_inv:
  "policy_ok policy \<Longrightarrow> pred_option (bucket_inv policy b) state \<Longrightarrow>
     bucket_inv policy b (or_fresh_bucket state now b)"
  by (cases state) (simp_all add: or_fresh_bucket_def fresh_bucket_inv)

lemma fl_grant:
  assumes "1 \<le> toks" and "toks \<le> capacity b p"
  shows "0 \<le> fl (toks - 1) \<and> fl (toks - 1) \<le> capacity b p"
proof -
  have "fl (toks - 1) \<le> fl (capacity b p)" using assms by (intro fl_mono) simp
  with fl_nonneg [of "toks - 1"] assms show ?thesis by simp
qed

lemma acquire_inv:
  assumes ok: "policy_ok policy" and inv: "pred_option (bucket_inv policy b) state"
    and acq: "apply_acquire state now q b = (granted, wait, new)"
  shows "bucket_inv policy b new"
proof -
  define pen where "pen = (case state of None \<Rightarrow> 1 | Some st \<Rightarrow> penalty st)"
  define toks where "toks = (case state of None \<Rightarrow> capacity b pen | Some st \<Rightarrow>
      min (capacity b pen) (fl (tokens st + fl (max 0 (total_seconds (now - updated_at st)) * fl (q * pen)))))"
  have pen: "penalty_floor policy \<le> pen" "pen \<le> 1"
    using inv policy_okD(4) [OF ok] by (auto simp: pen_def bucket_inv_def split: option.splits)
  have toks: "toks \<le> capacity b pen" by (simp add: toks_def split: option.splits)
  from acq have new: "penalty new = pen"
    "tokens new = (if fl (q * pen) \<le> 0 \<or> toks < 1 then max 0 toks else fl (toks - 1))"
    by (auto simp: apply_acquire_def Let_def pen_def toks_def split: option.splits if_splits)
  show ?thesis
    using pen toks new capacity_ge_1 [of b pen] fl_grant [of toks b pen]
    by (auto simp: bucket_inv_def)
qed

lemma acquire_keeps:
  "policy_ok policy \<Longrightarrow> pred_option (bucket_inv policy b) state \<Longrightarrow>
     bucket_inv policy b (snd (snd (apply_acquire state now q b)))"
  using acquire_inv by (metis prod.collapse)

lemma throttle_inv:
  assumes ok: "policy_ok policy" and inv: "pred_option (bucket_inv policy b) state"
  shows "bucket_inv policy b (apply_throttle state now b policy)"
proof -
  let ?base = "or_fresh_bucket state now b"
  note base = or_fresh_bucket_inv [OF ok inv, of now] and p = policy_okD [OF ok]
  have "penalty ?base * slowdown_ratio policy \<le> 1"
    using base p by (intro mult_le_one) (auto simp: bucket_inv_def)
  then have "fl (penalty ?base * slowdown_ratio policy) \<le> 1" using fl_mono by fastforce
  then show ?thesis
    using base p capacity_ge_1 [of b] order_trans [OF zero_le_one capacity_ge_1]
    by (auto simp: bucket_inv_def apply_throttle_def Let_def)
qed

lemma success_inv:
  assumes pol: "float_policy policy" and inv: "pred_option (bucket_inv policy b) state"
  shows "bucket_inv policy b (apply_success state now b policy)"
proof -
  let ?base = "or_fresh_bucket state now b"
  have ok: "policy_ok policy" using pol by (simp add: float_policy_def)
  note base = or_fresh_bucket_inv [OF ok inv, of now] and p = policy_okD [OF ok]
  have "penalty ?base \<le> penalty ?base / slowdown_ratio policy"
    using base p by (simp add: bucket_inv_def field_simps mult_left_le)
  then have "penalty_floor policy \<le> fl (penalty ?base / slowdown_ratio policy)"
    using base pol fl_mono [of "penalty_floor policy" "penalty ?base / slowdown_ratio policy"]
    by (simp add: bucket_inv_def float_policy_def)
  then show ?thesis
    using base p order_trans [OF zero_le_one capacity_ge_1]
    by (auto simp: bucket_inv_def apply_success_def Let_def)
qed

datatype bucket_event = Acquired int float64 | Throttled int | Succeeded int

fun bucket_step :: "sync_policy \<Rightarrow> int \<Rightarrow> bucket_state option \<Rightarrow> bucket_event \<Rightarrow> bucket_state" where
  "bucket_step policy b state (Acquired now q) = snd (snd (apply_acquire state now q b))"
| "bucket_step policy b state (Throttled now) = apply_throttle state now b policy"
| "bucket_step policy b state (Succeeded now) = apply_success state now b policy"

interpretation bucket_machine:
  invariant_machine "\<lambda>state ev. Some (Some (bucket_step policy b state ev))"
    "\<lambda>state. float_policy policy \<longrightarrow> pred_option (bucket_inv policy b) state"
  for policy b
proof unfold_locales
  fix s t and ev :: bucket_event
  assume "float_policy policy \<longrightarrow> pred_option (bucket_inv policy b) s"
    and "Some (Some (bucket_step policy b s ev)) = Some t"
  then show "float_policy policy \<longrightarrow> pred_option (bucket_inv policy b) t"
    using acquire_keeps [of policy b s] throttle_inv [of policy b s] success_inv [of policy b s]
    by (cases ev) (auto simp: float_policy_def)
qed

section \<open>A burst\<close>

fun acquire_times :: "bucket_state option \<Rightarrow> int \<Rightarrow> float64 \<Rightarrow> int \<Rightarrow> nat \<Rightarrow> bool list" where
  "acquire_times state now q b 0 = []"
| "acquire_times state now q b (Suc k) =
     (let (granted, wait, new) = apply_acquire state now q b in
      granted # acquire_times (Some new) now q b k)"

lemma total_seconds_0 [simp]: "total_seconds 0 = 0"
  by (simp add: total_seconds_def)

lemma acquire_times_tokens:
  assumes "0 < q" "fl q = q" "1 \<le> b" "b < 2 ^ 53" and "int n \<le> b"
    and "tokens st = of_nat n" "updated_at st = now" "penalty st = 1"
  shows "acquire_times (Some st) now q b k = replicate (min k n) True @ replicate (k - n) False"
  using assms(5-8)
proof (induction k arbitrary: n st)
  case (Suc k)
  have b: "fl (of_int b) = of_int b" using assms(3,4) by (intro fl_of_int) simp
  then have cap: "capacity b 1 = of_int b" using assms(3) by (simp add: capacity_def)
  have n: "fl (of_nat m) = of_nat m" if "m \<le> n" for m
    using fl_of_int [of "int m"] that Suc.prems(1) assms(4) by simp
  have le: "(of_nat n :: rat) \<le> of_int b" using Suc.prems(1) by (metis of_int_le_iff of_int_of_nat_eq)
  show ?case
  proof (cases n)
    case 0
    with Suc.prems Suc.IH [of 0] le cap assms(1,2) show ?thesis
      by (simp add: apply_acquire_def Let_def)
  next
    case (Suc m)
    have m: "(of_nat n :: rat) - 1 = of_nat m" by (simp add: Suc)
    from Suc.prems have "int m \<le> b" using Suc by simp
    show ?thesis
      using Suc.prems Suc.IH [of m] le cap assms(1,2) n [of n] n [of m] m Suc \<open>int m \<le> b\<close>
      by (simp add: apply_acquire_def Let_def min_def)
  qed
qed simp


section \<open>Codecs and stores\<close>

lemma decode_encode_bucket:
  assumes "date_ok (utc_date (updated_at st))"
  shows "decode_bucket rd (encode_bucket st) = Inr st"
  using isoformat_roundtrip [OF assms]
  by (simp add: decode_bucket_def encode_bucket_def json_item_def json_get_def)

lemma decode_encode_day [simp]: "decode_day (encode_day c) = Inr c"
  by (simp add: decode_day_def encode_day_def)

type_synonym memory = "string \<Rightarrow> json_text option"

definition bucket_memory_store :: "text_readers \<Rightarrow> int \<Rightarrow> (memory, json_text, bucket_state) state_store" where
  "bucket_memory_store rd ttl =
     \<lparr>store_kv = memory_kv, store_ttl = ttl, store_encode = encode_bucket, store_decode = decode_bucket rd\<rparr>"

definition day_memory_store :: "int \<Rightarrow> (memory, json_text, day_count) state_store" where
  "day_memory_store ttl =
     \<lparr>store_kv = memory_kv, store_ttl = ttl, store_encode = encode_day, store_decode = decode_day\<rparr>"

text \<open>The limiter that \<open>get_rate_limiter\<close> assembles in the test environment.\<close>

definition memory_limiter :: "text_readers \<Rightarrow> sync_policy \<Rightarrow> memory token_bucket_limiter" where
  "memory_limiter rd policy =
     \<lparr>limiter_store = bucket_memory_store rd (state_ttl_seconds policy), limiter_policy = policy,
      limiter_day_store = Some (day_memory_store (daily_counter_ttl_seconds policy))\<rparr>"

definition count_mutator :: "nat \<Rightarrow> (day_count, unit) mutator" where
  "count_mutator i = (\<lambda>state. (\<lparr>used_count = used_today state + 1\<rparr>, ()))"

interpretation counting: state_workers "day_memory_store ttl" count_mutator "\<lambda>_. True" for ttl
  by (rule memory_workers) (auto simp: day_memory_store_def)

lemma counts_add_up:
  "used_today (atomically count_mutator a0 is) = used_today a0 + int (length is)"
proof (induction "is" rule: rev_induct)
  case (snoc i "is")
  then show ?case by (cases a0) (auto simp: count_mutator_def used_today_def)
qed simp

lemma update_memory_error:
  assumes "store_kv st = memory_kv" and "load_state st (s k) = Inl e"
  shows "update_state st s k mutate = (s, Inl e)"
  using assms by (simp add: update_state_def max_attempts_def numeral_eq_Suc memory_kv_def memory_get_def)

section \<open>The daily quota\<close>

lemma bucket_key_not_day: "bucket_key platform shop_id spec \<noteq> day_key platform shop_id spec now"
  by (simp add: day_key_def)

lemma take_token_other:
  "store_kv (limiter_store limiter) = memory_kv \<Longrightarrow> k \<noteq> bucket_key platform shop_id spec \<Longrightarrow>
     fst (take_token limiter now s platform shop_id spec) k = s k"
  by (cases "load_state (limiter_store limiter) (s (bucket_key platform shop_id spec))")
    (auto simp: take_token_def update_memory update_memory_error Let_def split: prod.splits)

definition day_used :: "memory \<Rightarrow> int \<Rightarrow> string \<Rightarrow> int" where
  "day_used s ttl key = (case read_state (day_memory_store ttl) s key of Inr c \<Rightarrow> used_today c | Inl _ \<Rightarrow> 0)"

definition day_readable :: "memory \<Rightarrow> int \<Rightarrow> string \<Rightarrow> bool" where
  "day_readable s ttl key \<longleftrightarrow> (\<exists>c. read_state (day_memory_store ttl) s key = Inr c)"

definition was_granted :: "limit_decision res \<Rightarrow> bool" where
  "was_granted r = (case r of Inr d \<Rightarrow> slot_allowed d | Inl _ \<Rightarrow> False)"

lemma read_day_memory: "read_state (day_memory_store ttl) s key = load_state (day_memory_store ttl) (s key)"
  by (simp add: read_state_def day_memory_store_def)

lemma load_day_Some: "load_state (day_memory_store ttl) (Some (encode_day c)) = Inr (Some c)"
  by (simp add: load_state_def day_memory_store_def)

lemma try_acquire_day:
  assumes lim: "limiter = memory_limiter rd policy" and q: "daily_quota spec = Some quota"
    and key: "key = day_key platform shop_id spec (clock AtBlock)"
      "day_key platform shop_id spec (clock AtCount) = key"
    and ttl: "ttl = daily_counter_ttl_seconds policy"
    and readable: "day_readable s ttl key"
    and run: "try_acquire limiter clock s platform shop_id spec = (s', r)"
  shows "day_readable s' ttl key \<and>
    day_used s' ttl key = day_used s ttl key + (if was_granted r then 1 else 0) \<and>
    (was_granted r \<longrightarrow> day_used s ttl key < quota)"
proof -
  let ?days = "day_memory_store ttl"
  obtain cur where cur: "load_state ?days (s key) = Inr cur"
    using readable by (auto simp: day_readable_def read_day_memory)
  then have used: "day_used s ttl key = used_today cur" by (simp add: day_used_def read_day_memory)
  show ?thesis
  proof (cases "used_today cur \<ge> quota")
    case True
    then have "s' = s" "\<not> was_granted r"
      using run cur lim q key(1) ttl
      by (auto simp: try_acquire_def daily_block_def memory_limiter_def read_day_memory refused_def
          was_granted_def)
    with readable used show ?thesis by simp
  next
    case False
    obtain s1 r1 where take: "take_token limiter (clock AtToken) s platform shop_id spec = (s1, r1)"
      by fastforce
    have same: "s1 key = s key"
      using take_token_other [of limiter key platform shop_id spec "clock AtToken" s] take
        bucket_key_not_day [of platform shop_id spec "clock AtBlock"] lim key(1)
      by (auto simp: memory_limiter_def bucket_memory_store_def)
    have used_count: "count_daily limiter (clock AtCount) s1 platform shop_id spec =
        (s1(key \<mapsto> encode_day \<lparr>used_count = used_today cur + 1\<rparr>), Inr ())"
      using update_memory [of ?days s1 key cur "\<lambda>state. (\<lparr>used_count = used_today state + 1\<rparr>, ())"] cur same lim key ttl
      by (simp add: count_daily_def memory_limiter_def day_memory_store_def)
    have "(s', r) = (case r1 of Inl e \<Rightarrow> (s1, Inl e)
        | Inr d \<Rightarrow> if slot_allowed d then (s1(key \<mapsto> encode_day \<lparr>used_count = used_today cur + 1\<rparr>), Inr d)
                  else (s1, Inr d))"
      using run take used_count cur False lim q key(1) ttl
      by (auto simp: try_acquire_def daily_block_def memory_limiter_def read_day_memory split: sum.splits)
    moreover have "used_today (Some \<lparr>used_count = used_today cur + 1\<rparr>) = used_today cur + 1"
      by (auto simp: used_today_def split: option.splits)
    moreover have "load_state ?days (s1 key) = Inr cur" using cur same by simp
    ultimately show ?thesis
      using used False
      by (cases r1) (simp_all add: day_readable_def day_used_def read_day_memory was_granted_def load_day_Some
          split: if_splits)
  qed
qed

fun acquire_calls ::
  "'s token_bucket_limiter \<Rightarrow> string \<Rightarrow> string \<Rightarrow> rate_limit_spec \<Rightarrow> 's \<Rightarrow> clock list \<Rightarrow>
     limit_decision res list" where
  "acquire_calls limiter platform shop_id spec s [] = []"
| "acquire_calls limiter platform shop_id spec s (clock # clocks) =
     (let (s', r) = try_acquire limiter clock s platform shop_id spec in
      r # acquire_calls limiter platform shop_id spec s' clocks)"

definition grants :: "limit_decision res list \<Rightarrow> int" where
  "grants rs = int (length (filter was_granted rs))"

lemma acquire_calls_quota:
  assumes "daily_quota spec = Some quota" and "day_readable s (daily_counter_ttl_seconds policy) key"
    and "list_all (\<lambda>clock. day_key platform shop_id spec (clock AtBlock) = key \<and>
      day_key platform shop_id spec (clock AtCount) = key) clocks"
  shows "grants (acquire_calls (memory_limiter rd policy) platform shop_id spec s clocks) \<le>
    max 0 (quota - day_used s (daily_counter_ttl_seconds policy) key)"
  using assms(2,3)
proof (induction clocks arbitrary: s)
  case (Cons clock clocks)
  obtain s' r where run: "try_acquire (memory_limiter rd policy) clock s platform shop_id spec = (s', r)"
    by fastforce
  have "day_readable s' (daily_counter_ttl_seconds policy) key \<and>
    day_used s' (daily_counter_ttl_seconds policy) key =
      day_used s (daily_counter_ttl_seconds policy) key + (if was_granted r then 1 else 0) \<and>
    (was_granted r \<longrightarrow> day_used s (daily_counter_ttl_seconds policy) key < quota)"
    by (rule try_acquire_day [OF refl assms(1) _ _ refl Cons.prems(1) run]) (use Cons.prems in auto)
  with Cons.IH [of s'] Cons.prems(2) run show ?case
    by (auto simp: grants_def split: if_splits)
qed (simp add: grants_def)

section \<open>Properties\<close>

text \<open>C23: Through any sequence of acquisitions, platform throttles and successes, at any times, a
  bucket's multiplier stays between the policy's floor and 1 and its tokens between 0 and the
  bucket's capacity at that multiplier (which is at least 1, so a throttled bucket never starves).\<close>

theorem bucket_stays_in_bounds:
  assumes "float_policy policy"
    and "run_machine (\<lambda>state ev. Some (Some (bucket_step policy b state ev))) None evs = Some (Some st)"
  shows "penalty_floor policy \<le> penalty st \<and> penalty st \<le> 1 \<and>
    0 \<le> tokens st \<and> tokens st \<le> capacity b (penalty st) \<and> 1 \<le> capacity b (penalty st)"
  using bucket_machine.run_inv [of policy b None evs "Some st"] assms capacity_ge_1 [of b "penalty st"]
  by (simp add: bucket_inv_def)

lemma default_float_policy: "float_policy default_policy"
proof -
  have "fl (1 / 4 :: rat) = 1 / 4"
    using fl_scale [of "1/4"] fl_scale [of "1/2"] by simp
  then show ?thesis by (simp add: float_policy_def default_policy_ok) (simp add: default_policy_def)
qed

lemma bucket_stays_in_bounds_witness:
  "\<exists>st. run_machine (\<lambda>state ev. Some (Some (bucket_step default_policy 5 state ev))) None
      [Throttled 0, Throttled 1, Throttled 2] = Some (Some st) \<and>
    1 / 4 \<le> penalty st \<and> tokens st \<le> capacity 5 (penalty st)"
proof -
  obtain st where run: "run_machine (\<lambda>state ev. Some (Some (bucket_step default_policy 5 state ev))) None
      [Throttled 0, Throttled 1, Throttled 2] = Some (Some st)" by simp
  from bucket_stays_in_bounds [OF default_float_policy run] run show ?thesis
    by (simp add: default_policy_def)
qed

text \<open>A fresh bucket with burst \<open>b\<close> grants exactly \<open>b\<close> requests made at the same instant and
  refuses every further one: no burst above the quota, and none of the quota lost.\<close>

theorem burst_is_exact:
  assumes "0 < q" "fl q = q" "1 \<le> b" "b < 2 ^ 53"
  shows "acquire_times None now q b k = replicate (min k (nat b)) True @ replicate (k - nat b) False"
proof (cases k)
  case (Suc k')
  have b: "fl (of_int b) = of_int b" "fl (of_int b - 1) = of_nat (nat b - 1)"
    using fl_of_int [of b] fl_of_int [of "b - 1"] assms(3,4) by (simp_all add: of_nat_nat)
  then have cap: "capacity b 1 = of_int b" using assms(3) by (simp add: capacity_def)
  have "acquire_times (Some \<lparr>tokens = of_nat (nat b - 1), updated_at = now, penalty = 1,
      consecutive_429 = 0, consecutive_ok = 0\<rparr>) now q b k' =
      replicate (min k' (nat b - 1)) True @ replicate (k' - (nat b - 1)) False"
    by (rule acquire_times_tokens) (use assms in auto)
  moreover have "\<not> (of_int b :: rat) < 1" using assms(3) by simp
  ultimately have "acquire_times None now q b k =
      True # replicate (min k' (nat b - 1)) True @ replicate (k' - (nat b - 1)) False"
    using b cap assms(1,2) by (simp add: Suc apply_acquire_def Let_def)
  moreover obtain m where "nat b = Suc m" using assms(3) by (cases "nat b") auto
  ultimately show ?thesis by (simp add: Suc)
qed simp

lemma burst_is_exact_witness:
  "acquire_times None 0 10 3 5 = [True, True, True, False, False]"
  using burst_is_exact [of 10 3 0 5] fl_of_int [of 10] by (simp add: numeral_eq_Suc)

text \<open>Under a quota per UTC day, calls made one after the other on that day are granted at most
  as often as the quota minus what the day's counter already holds, whatever the bucket does and
  however the clock moves within the day.\<close>

theorem daily_quota_respected:
  assumes "daily_quota spec = Some quota"
    and "read_state (day_memory_store (daily_counter_ttl_seconds policy)) s key = Inr cur"
    and "list_all (\<lambda>clock. day_key platform shop_id spec (clock AtBlock) = key \<and>
      day_key platform shop_id spec (clock AtCount) = key) clocks"
  shows "grants (acquire_calls (memory_limiter rd policy) platform shop_id spec s clocks) \<le>
    max 0 (quota - used_today cur)"
proof -
  have "day_readable s (daily_counter_ttl_seconds policy) key"
    "day_used s (daily_counter_ttl_seconds policy) key = used_today cur"
    using assms(2) by (auto simp: day_readable_def day_used_def)
  with acquire_calls_quota [OF assms(1) _ assms(3), of s policy rd] show ?thesis by simp
qed

lemma daily_quota_respected_witness:
  "grants (acquire_calls (memory_limiter plain_readers default_policy) ''shopee'' ''7''
     \<lparr>qps = 10, burst = 20, dimension = ''shop'', daily_quota = Some 2\<rparr> Map.empty
     (replicate 5 (\<lambda>_. 1700000000000000))) \<le> 2"
  using daily_quota_respected
    [of "\<lparr>qps = 10, burst = 20, dimension = ''shop'', daily_quota = Some 2\<rparr>" 2 default_policy Map.empty
      "day_key ''shopee'' ''7'' \<lparr>qps = 10, burst = 20, dimension = ''shop'', daily_quota = Some 2\<rparr> 1700000000000000"
      None "''shopee''" "''7''" "replicate 5 (\<lambda>_. 1700000000000000)" plain_readers]
  by (simp add: read_day_memory load_state_def used_today_def list_all_iff)

text \<open>C24: What the state stores write, they read back: a circuit and a bucket exactly (for
  timestamps in the years 1 to 9999), a daily counter always, and a dead letter with every field
  as it was and its arguments equal as a dict (the objects in them with sorted keys).\<close>

theorem state_codecs_roundtrip:
  assumes "circuit_storable st" and "date_ok (utc_date (updated_at bucket))"
    and "distinct (map fst (letter_kwargs item))"
  shows "decode_circuit rd (encode_circuit st) = Inr st \<and>
    decode_bucket rd (encode_bucket bucket) = Inr bucket \<and>
    decode_day (encode_day c) = Inr c \<and>
    (\<exists>item'. load_dead_letter rd (dump_dead_letter item) = Inr item' \<and>
       task_name item' = task_name item \<and> tenant_id item' = tenant_id item \<and>
       error item' = error item \<and> failed_at item' = failed_at item \<and>
       map_of (letter_kwargs item') = map_option sort_keys \<circ> map_of (letter_kwargs item))"
  using decode_encode_circuit [OF assms(1)] decode_encode_bucket [OF assms(2)]
    load_dump_kwargs [OF assms(3)]
  by (simp add: load_dump_dead_letter)

lemma state_codecs_roundtrip_witness:
  "decode_circuit plain_readers (encode_circuit
     \<lparr>c_phase = OPEN, outcomes = [True, False], opened_at = Some 1700000000123456, probe_in_flight = False\<rparr>) =
   Inr \<lparr>c_phase = OPEN, outcomes = [True, False], opened_at = Some 1700000000123456, probe_in_flight = False\<rparr> \<and>
   decode_bucket plain_readers (encode_bucket
     \<lparr>tokens = 5/2, updated_at = 1700000000000000, penalty = 1/2, consecutive_429 = 1, consecutive_ok = 0\<rparr>) =
   Inr \<lparr>tokens = 5/2, updated_at = 1700000000000000, penalty = 1/2, consecutive_429 = 1, consecutive_ok = 0\<rparr>"
  using state_codecs_roundtrip
    [of "\<lparr>c_phase = OPEN, outcomes = [True, False], opened_at = Some 1700000000123456, probe_in_flight = False\<rparr>"
      "\<lparr>tokens = 5/2, updated_at = 1700000000000000, penalty = 1/2, consecutive_429 = 1, consecutive_ok = 0\<rparr>"
      "\<lparr>task_name = ''sync.shop_orders'', tenant_id = 7, letter_kwargs = [(''shop_id'', JInt 3)],
        error = ''boom'', failed_at = ''2026-01-01T00:00:00+00:00''\<rparr>" plain_readers "\<lparr>used_count = 3\<rparr>"]
  by (simp add: circuit_storable_def date_ok_def utc_date_def epoch_ordinal_def day_micros_def
      max_ordinal_def)

end
