(* ===== verification/Expiry.thy ===== *)
theory Expiry imports StateStore PyTime begin

text \<open>
  Stored states and their time to live.  \<open>RedisJsonKv\<close> writes with \<open>SET EX\<close>, so a state that is not written
  again is gone after \<open>store_ttl\<close> seconds; \<open>MemoryJsonKv\<close> ignores the time.  \<open>ttl_store\<close> is what both promise:
  a state can be read until its time is over, and a write starts the time anew.
\<close>

text \<open>\<open>tick now s\<close> is the store as it is found at \<open>now\<close>; \<open>holds s k v t\<close> says that \<open>v\<close> is kept under \<open>k\<close> until \<open>t\<close>.\<close>

locale ttl_store =
  fixes kv :: "('s, 'v) json_kv" and tick :: "int \<Rightarrow> 's \<Rightarrow> 's" and holds :: "'s \<Rightarrow> string \<Rightarrow> 'v \<Rightarrow> int \<Rightarrow> bool"
  assumes get_held: "holds s k v t \<Longrightarrow> now < t \<Longrightarrow> kv_get kv (tick now s) k = Inr (Some v)"
    and cas_held: "holds s k v t \<Longrightarrow> now < t \<Longrightarrow> kv_cas kv (tick now s) k (Some v) v' ttl = (s', r) \<Longrightarrow>
      r = Inr True \<and> holds s' k v' (now + seconds ttl)"
begin

lemma update_held:
  assumes "store_kv st = kv" and "holds s k v t" and "now < t" and "load_state st (Some v) = Inr (Some a)"
  shows "\<exists>s'. update_state st (tick now s) k m = (s', Inr (m (Some a))) \<and>
    holds s' k (store_encode st (fst (m (Some a)))) (now + seconds (store_ttl st))"
proof -
  obtain s' r where c: "kv_cas kv (tick now s) k (Some v) (store_encode st (fst (m (Some a)))) (store_ttl st) = (s', r)" by fastforce
  from cas_held [OF assms(2,3) this] have r: "r = Inr True" and h: "holds s' k (store_encode st (fst (m (Some a)))) (now + seconds (store_ttl st))"
    by simp_all
  obtain b h' where m: "m (Some a) = (b, h')" by fastforce
  have "update_state st (tick now s) k m = (s', Inr (m (Some a)))"
    using c r get_held [OF assms(2,3)] assms(1,4) m by (simp add: update_state_def max_attempts_def numeral_eq_Suc)
  with h show ?thesis by blast
qed

end

interpretation memory_ttl: ttl_store memory_kv "\<lambda>now s. s" "\<lambda>s k v t. s k = Some v"
  by unfold_locales (auto simp: memory_kv_def memory_get_def memory_compare_set_def)

section \<open>A Redis server that answers\<close>

text \<open>Keys with the instant of their expiry, and the clock of the server; the client reads it without a failure
  and nobody else writes during a transaction.\<close>

record 'v expiring_keys =
  srv_now :: int
  srv_keys :: "string \<Rightarrow> ('v \<times> int) option"

definition live_value :: "'v expiring_keys \<Rightarrow> string \<Rightarrow> 'v option" where
  "live_value s k = (case srv_keys s k of None \<Rightarrow> None | Some (v, expiry) \<Rightarrow> if srv_now s < expiry then Some v else None)"

definition expiring_client :: "('v expiring_keys, 'v) redis_client" where
  "expiring_client =
     \<lparr>r_get = (\<lambda>s k. Inr (live_value s k)), r_watch = (\<lambda>s k. Inr s),
      r_exec_set = (\<lambda>s k v ttl. (s\<lparr>srv_keys := (srv_keys s)(k \<mapsto> (v, srv_now s + seconds ttl))\<rparr>, Inr ()))\<rparr>"

interpretation redis_ttl: ttl_store "redis_kv expiring_client" "\<lambda>now s. s\<lparr>srv_now := now\<rparr>"
  "\<lambda>s k v t. \<exists>expiry\<ge>t. srv_keys s k = Some (v, expiry)"
  by unfold_locales
    (auto simp: redis_kv_def expiring_client_def redis_get_def redis_compare_set_def live_value_def)

end
