(* ===== verification/OrderSync.thy ===== *)
theory OrderSync imports Cursor RateLimit Idempotency OrderStatus Expiry begin

text \<open>
  The order synchronisation of a shop, where the parts of the sync engine meet
  (\<open>services/order_sync.py\<close>, with the error classification of \<open>adapters/errors.py\<close>, the outcome of
  \<open>services/shop_health.py\<close> and the retry of \<open>tasks/sync.py\<close>): the circuit breaker admits the run,
  the rate limiter each page, the platform answers, its answers are recorded, and the orders are
  ingested one by one.

  The platform's adapter and the ingestion of one order are parameters with a state of their own;
  time passes while the platform answers.  The database, the audit of API calls and the log are
  not modelled.
\<close>

section \<open>Adapter errors\<close>

record adapter_error =
  http_status :: "int option"
  decision :: retry_decision
  retry_after_seconds :: "int option"

definition retryable :: "adapter_error \<Rightarrow> bool" where
  "retryable e \<longleftrightarrow> decision e \<in> set [D_RETRY, D_RETRY_AFTER, D_REFRESH_TOKEN]"

definition classify_platform_error :: "int option \<Rightarrow> int option \<Rightarrow> retry_decision" where
  "classify_platform_error http retry_after =
     (if http = Some 429 then D_RETRY_AFTER
      else if http = Some 401 \<or> http = Some 403 then D_REFRESH_TOKEN
      else if (case http of Some h \<Rightarrow> h \<ge> 500 | None \<Rightarrow> False) then D_RETRY
      else if http = None then D_RETRY
      else if retry_after \<noteq> None then D_RETRY_AFTER
      else D_FAIL_FAST)"

datatype sync_error = AdapterFailed adapter_error | OtherError py_error

definition adapter_failure :: "int option \<Rightarrow> retry_decision \<Rightarrow> int option \<Rightarrow> sync_error" where
  "adapter_failure http d after_seconds =
     AdapterFailed \<lparr>http_status = http, decision = d, retry_after_seconds = after_seconds\<rparr>"

section \<open>Pulling the pages\<close>

record ('s, 'a) sync_world =
  w_limits :: 's
  w_circuits :: 's
  w_platform :: 'a
  w_now :: int

text \<open>What stays fixed during a run: the stores, the policy, and the shop with its quota.\<close>

record 's sync_setup =
  su_limiter :: "'s token_bucket_limiter"
  su_breaker :: "'s circuit_store"
  su_policy :: sync_policy
  su_platform :: string
  su_shop :: string
  su_spec :: rate_limit_spec

type_synonym ('a, 'o) adapter = "'a \<Rightarrow> string option \<Rightarrow> 'a \<times> int \<times> (sync_error + 'o page_result)"

text \<open>A failed page is reported, and the error goes on unless the report itself fails.\<close>

definition report_failure ::
  "'s sync_setup \<Rightarrow> ('s, 'a) sync_world \<Rightarrow> adapter_error \<Rightarrow> ('s, 'a) sync_world \<times> sync_error" where
  "report_failure su w exc =
     (if http_status exc = Some 429 \<or> decision exc = D_RETRY_AFTER then
        (let (l', r) = record_throttled (su_limiter su) (w_now w) (w_limits w) (su_platform su)
                         (su_shop su) (su_spec su) in
         (w\<lparr>w_limits := l'\<rparr>, case r of Inl e \<Rightarrow> OtherError e | Inr _ \<Rightarrow> AdapterFailed exc))
      else if counts_as_outage (decision exc) then
        (let (c', r) = breaker_record (su_breaker su) (su_policy su) (w_now w) (w_circuits w)
                         (su_platform su) True in
         (w\<lparr>w_circuits := c'\<rparr>, case r of Inl e \<Rightarrow> OtherError e | Inr _ \<Rightarrow> AdapterFailed exc))
      else (w, AdapterFailed exc))"

definition report_page ::
  "'s sync_setup \<Rightarrow> ('s, 'a) sync_world \<Rightarrow> 'o page_result \<Rightarrow>
     ('s, 'a) sync_world \<times> (sync_error + 'o page_result)" where
  "report_page su w page =
     (case record_success (su_limiter su) (w_now w) (w_limits w) (su_platform su) (su_shop su)
             (su_spec su) of
        (l', Inl e) \<Rightarrow> (w\<lparr>w_limits := l'\<rparr>, Inl (OtherError e))
      | (l', Inr _) \<Rightarrow>
          (case breaker_record (su_breaker su) (su_policy su) (w_now w) (w_circuits w)
                  (su_platform su) False of
             (c', Inl e) \<Rightarrow> (w\<lparr>w_limits := l', w_circuits := c'\<rparr>, Inl (OtherError e))
           | (c', Inr _) \<Rightarrow> (w\<lparr>w_limits := l', w_circuits := c'\<rparr>, Inr page)))"

definition fetch_page ::
  "'s sync_setup \<Rightarrow> ('a, 'o) adapter \<Rightarrow> (('s, 'a) sync_world, 'o, sync_error) page_fetch" where
  "fetch_page su adapter w cursor =
     (case try_acquire (su_limiter su) (\<lambda>_. w_now w) (w_limits w) (su_platform su) (su_shop su)
             (su_spec su) of
        (l1, Inl e) \<Rightarrow>
          (w\<lparr>w_limits := l1\<rparr>,
           Inl (if e = StoreUnavailable then adapter_failure None D_RETRY None else OtherError e))
      | (l1, Inr slot) \<Rightarrow>
          (let w1 = w\<lparr>w_limits := l1\<rparr> in
           if \<not> slot_allowed slot then
             (w1, Inl (adapter_failure (Some 429) D_RETRY_AFTER
                         (Some (max 1 (trunc_int (decision_wait slot))))))
           else
             (let (a, now, reply) = adapter (w_platform w1) cursor;
                  w2 = w1\<lparr>w_platform := a, w_now := now\<rparr> in
              case reply of
                Inl (AdapterFailed exc) \<Rightarrow>
                  (let (w3, err) = report_failure su w2 exc in (w3, Inl err))
              | Inl (OtherError e) \<Rightarrow> (w2, Inl (OtherError e))
              | Inr page \<Rightarrow> report_page su w2 page)))"

definition no_pages :: "sync_error \<Rightarrow> ('o, sync_error) pull_result" where
  "no_pages err = \<lparr>pull_orders = [], pull_complete = False, pull_resume = None, pull_pages = 0,
     pull_error = Some err\<rparr>"

definition sync_fetch ::
  "'s sync_setup \<Rightarrow> ('a, 'o) adapter \<Rightarrow> ('s, 'a) sync_world \<Rightarrow> string option \<Rightarrow>
     (('s, 'a) sync_world \<times> ('o, sync_error) pull_result) res" where
  "sync_fetch su adapter w start_cursor =
     (case breaker_allow (su_breaker su) (su_policy su) (w_now w) (w_circuits w) (su_platform su) of
        (c', Inl e) \<Rightarrow>
          if e = StoreUnavailable
          then Inr (w\<lparr>w_circuits := c'\<rparr>, no_pages (adapter_failure None D_RETRY None))
          else Inl e
      | (c', Inr ok) \<Rightarrow>
          if \<not> ok then Inr (w\<lparr>w_circuits := c'\<rparr>, no_pages (adapter_failure None D_FAIL_FAST None))
          else pull_order_pages (fetch_page su adapter) (w\<lparr>w_circuits := c'\<rparr>) start_cursor
                 (order_max_pages (su_policy su)))"

section \<open>Ingesting the orders\<close>

record sync_counts =
  n_inserted :: int
  n_updated :: int
  n_skipped :: int
  n_failed :: int
  n_rejected :: int
  n_unmapped :: int

definition no_counts :: sync_counts where
  "no_counts = \<lparr>n_inserted = 0, n_updated = 0, n_skipped = 0, n_failed = 0, n_rejected = 0, n_unmapped = 0\<rparr>"

type_synonym ('d, 'o) ingest = "'d \<Rightarrow> 'o \<Rightarrow> 'd \<times> (write_action \<times> status_decision option) res"

definition count_ingest :: "sync_counts \<Rightarrow> (write_action \<times> status_decision option) res \<Rightarrow> sync_counts" where
  "count_ingest n r =
     (case r of
        Inl _ \<Rightarrow> n\<lparr>n_failed := n_failed n + 1\<rparr>
      | Inr (action, decision_opt) \<Rightarrow>
          (let n1 = (if action = INSERT then n\<lparr>n_inserted := n_inserted n + 1\<rparr>
                     else if action = UPDATE then n\<lparr>n_updated := n_updated n + 1\<rparr>
                     else n\<lparr>n_skipped := n_skipped n + 1\<rparr>) in
           (case decision_opt of
              None \<Rightarrow> n1
            | Some dec \<Rightarrow>
                n1\<lparr>n_rejected := n_rejected n1 + (if kind dec = D_REJECT then 1 else 0),
                   n_unmapped := n_unmapped n1 + (if unmapped dec then 1 else 0)\<rparr>)))"

text \<open>
  The Bloom filter is asked before and fed after an order that was written; an unavailable store
  is only logged, and an order that fails does not stop the others.  \<open>key_of\<close> is the
  order's idempotency key; when it cannot be computed the whole ingestion raises.
\<close>

definition forgive :: "'x res \<Rightarrow> unit res" where
  "forgive r = (case r of Inl e \<Rightarrow> if e = StoreUnavailable then Inr () else Inl e | Inr _ \<Rightarrow> Inr ())"

definition ingest_one ::
  "('o \<Rightarrow> string res) \<Rightarrow> ('b \<Rightarrow> string \<Rightarrow> dedup_verdict res) \<Rightarrow> ('b \<Rightarrow> string \<Rightarrow> 'b \<times> unit res) \<Rightarrow>
     ('d, 'o) ingest \<Rightarrow> 'd \<times> 'b \<Rightarrow> sync_counts \<Rightarrow> 'o \<Rightarrow> ('d \<times> 'b) \<times> sync_counts res" where
  "ingest_one key_of hint feed ingest db n ord =
     (case bindr (key_of ord) (\<lambda>key. bindr (forgive (hint (snd db) key)) (\<lambda>_. Inr key)) of
        Inl e \<Rightarrow> (db, Inl e)
      | Inr key \<Rightarrow>
          (let (d1, r) = ingest (fst db) ord; n1 = count_ingest n r in
           case r of
             Inl _ \<Rightarrow> ((d1, snd db), Inr n1)
           | Inr (action, _) \<Rightarrow>
               if action = SKIP then ((d1, snd db), Inr n1)
               else (let (b1, fed) = feed (snd db) key in
                     ((d1, b1), bindr (forgive fed) (\<lambda>_. Inr n1)))))"

fun ingest_all ::
  "('o \<Rightarrow> string res) \<Rightarrow> ('b \<Rightarrow> string \<Rightarrow> dedup_verdict res) \<Rightarrow> ('b \<Rightarrow> string \<Rightarrow> 'b \<times> unit res) \<Rightarrow>
     ('d, 'o) ingest \<Rightarrow> 'd \<times> 'b \<Rightarrow> sync_counts \<Rightarrow> 'o list \<Rightarrow> ('d \<times> 'b) \<times> sync_counts res" where
  "ingest_all key_of hint feed ingest db n [] = (db, Inr n)"
| "ingest_all key_of hint feed ingest db n (ord # orders) =
     (case ingest_one key_of hint feed ingest db n ord of
        (db1, Inl e) \<Rightarrow> (db1, Inl e)
      | (db1, Inr n1) \<Rightarrow> ingest_all key_of hint feed ingest db1 n1 orders)"

section \<open>The run\<close>

datatype sync_status = RUNNING | SUCCESS | FAILED | PARTIAL

definition resolve_sync_status :: "int \<Rightarrow> int \<Rightarrow> bool \<Rightarrow> sync_status" where
  "resolve_sync_status failed landed errored =
     (if \<not> errored \<and> failed = 0 then SUCCESS
      else if landed > 0 then PARTIAL
      else FAILED)"

record sync_outcome =
  out_status :: sync_status
  out_decision :: "retry_decision option"
  out_retry_after :: "int option"
  out_counts :: sync_counts
  out_pulled :: nat
  out_pages :: nat

text \<open>What the end of \<open>run\<close> makes of a batch and its ingestion.\<close>

definition run_outcome :: "('o, sync_error) pull_result \<Rightarrow> sync_counts \<Rightarrow> sync_outcome" where
  "run_outcome batch counts =
     \<lparr>out_status = resolve_sync_status (n_failed counts)
        (n_inserted counts + n_updated counts + n_skipped counts) (pull_error batch \<noteq> None),
      out_decision = (case pull_error batch of
          None \<Rightarrow> None
        | Some (AdapterFailed exc) \<Rightarrow> Some (decision exc)
        | Some (OtherError _) \<Rightarrow> Some D_RETRY),
      out_retry_after = (case pull_error batch of
          Some (AdapterFailed exc) \<Rightarrow> retry_after_seconds exc | _ \<Rightarrow> None),
      out_counts = counts, out_pulled = length (pull_orders batch), out_pages = pull_pages batch\<rparr>"

text \<open>\<open>_fail\<close>: a shop without credentials fails without asking the platform.\<close>

definition run_failed :: "retry_decision \<Rightarrow> sync_outcome" where
  "run_failed d = \<lparr>out_status = FAILED, out_decision = Some d, out_retry_after = None,
     out_counts = no_counts, out_pulled = 0, out_pages = 0\<rparr>"

datatype run_result = RunSkipped | RunDone sync_outcome

record ('s, 'a, 'd, 'b) sync_db =
  db_row :: "cursor_row option"
  db_world :: "('s, 'a) sync_world"
  db_orders :: "'d \<times> 'b"

definition sync_run ::
  "'s sync_setup \<Rightarrow> (int \<Rightarrow> int \<Rightarrow> ('a, 'o) adapter) \<Rightarrow> ('o \<Rightarrow> string res) \<Rightarrow>
     ('b \<Rightarrow> string \<Rightarrow> dedup_verdict res) \<Rightarrow> ('b \<Rightarrow> string \<Rightarrow> 'b \<times> unit res) \<Rightarrow> ('d, 'o) ingest \<Rightarrow>
     bool \<Rightarrow> bool \<Rightarrow> int option \<Rightarrow> int option \<Rightarrow> ('s, 'a, 'd, 'b) sync_db \<Rightarrow>
     ('s, 'a, 'd, 'b) sync_db \<times> run_result res" where
  "sync_run su adapter key_of hint feed ingest active has_credential since until db =
     (if \<not> active then (db, Inr RunSkipped)
      else
        (case service_window (db_row db) since until (w_now (db_world db))
                (seconds (order_overlap_seconds (su_policy su)))
                (seconds (order_initial_lookback_seconds (su_policy su))) of
           Inl e \<Rightarrow> (db, Inl e)
         | Inr w \<Rightarrow>
             if \<not> has_credential then (db, Inr (RunDone (run_failed D_FAIL_FAST)))
             else
               (case sync_fetch su (adapter (win_since w) (win_until w)) (db_world db) (win_cursor w) of
                  Inl e \<Rightarrow> (db, Inl e)
                | Inr (world, batch) \<Rightarrow>
                    (case ingest_all key_of hint feed ingest (db_orders db) no_counts (pull_orders batch) of
                       (ob, Inl e) \<Rightarrow> (db\<lparr>db_world := world, db_orders := ob\<rparr>, Inl e)
                     | (ob, Inr counts) \<Rightarrow>
                         (\<lparr>db_row = after_run (db_row db) w batch (n_failed counts),
                           db_world = world, db_orders = ob\<rparr>,
                          Inr (RunDone (run_outcome batch counts)))))))"

section \<open>The task around a run\<close>

text \<open>
  What becomes of a failed task: requeued with a delay, parked in the dead-letter queue, or
  nothing.  The task framework refuses a retry beyond its own limit (\<open>exhausted\<close>).
\<close>

datatype task_fate = Requeued float64 | Parked | Dropped

definition retry_or_dead_letter ::
  "retry_decision \<Rightarrow> nat \<Rightarrow> sync_policy \<Rightarrow> float64 option \<Rightarrow> float64 \<Rightarrow> bool \<Rightarrow> task_fate" where
  "retry_or_dead_letter dec retries policy after_seconds draw exhausted =
     (let plan = plan_retry dec retries False policy after_seconds draw in
      if plan_action plan = A_DEAD_LETTER then Parked
      else if plan_action plan \<noteq> A_RETRY then Dropped
      else if exhausted then Parked else Requeued (delay_seconds plan))"

definition sync_shop_orders_fate ::
  "sync_outcome \<Rightarrow> nat \<Rightarrow> sync_policy \<Rightarrow> float64 \<Rightarrow> bool \<Rightarrow> task_fate option" where
  "sync_shop_orders_fate out retries policy draw exhausted =
     (if out_decision out = Some D_RETRY
      then Some (retry_or_dead_letter D_RETRY retries policy
                   (map_option of_int (out_retry_after out)) draw exhausted)
      else None)"

definition retry_webhook :: "nat \<Rightarrow> sync_policy \<Rightarrow> float64 \<Rightarrow> bool \<Rightarrow> task_fate" where
  "retry_webhook retries policy draw exhausted =
     (let plan = plan_retry D_RETRY retries False policy None draw in
      if plan_action plan \<noteq> A_RETRY then Parked
      else if exhausted then Parked else Requeued (delay_seconds plan))"

text \<open>The inventory push of \<open>tasks/inventory.py\<close> parks failures too.\<close>

definition retry_or_dead ::
  "retry_decision option \<Rightarrow> nat \<Rightarrow> sync_policy \<Rightarrow> float64 option \<Rightarrow> float64 \<Rightarrow> bool \<Rightarrow> task_fate" where
  "retry_or_dead parsed retries policy after_seconds draw exhausted =
     (let dec = (case parsed of None \<Rightarrow> D_RETRY | Some d \<Rightarrow> d);
          plan = plan_retry dec retries False policy after_seconds draw in
      if plan_action plan = A_DEAD_LETTER \<or> plan_action plan = A_FAIL then Parked
      else if exhausted then Parked else Requeued (delay_seconds plan))"


section \<open>Every pulled order is counted\<close>

definition counted :: "sync_counts \<Rightarrow> int" where
  "counted n = n_inserted n + n_updated n + n_skipped n + n_failed n"

lemma count_ingest_one: "counted (count_ingest n r) = counted n + 1"
  by (auto simp: counted_def count_ingest_def Let_def split: sum.splits option.splits)

lemma count_ingest_failed: "n_failed n \<le> n_failed (count_ingest n r)"
  by (auto simp: count_ingest_def Let_def split: sum.splits option.splits)

lemma ingest_one_counts:
  "ingest_one key_of hint feed ingest db n ord = (db', Inr n') \<Longrightarrow>
     counted n' = counted n + 1 \<and> n_failed n \<le> n_failed n'"
  by (auto simp: ingest_one_def Let_def count_ingest_one count_ingest_failed res_simps
      split: sum.splits prod.splits if_splits)

lemma ingest_all_counts:
  "ingest_all key_of hint feed ingest db n orders = (db', Inr n') \<Longrightarrow>
     counted n' = counted n + int (length orders) \<and> n_failed n \<le> n_failed n'"
proof (induction key_of hint feed ingest db n orders rule: ingest_all.induct)
  case (2 key_of hint feed ingest db n ord orders)
  obtain db1 r where one: "ingest_one key_of hint feed ingest db n ord = (db1, r)" by fastforce
  with 2(2) obtain n1 where n1: "r = Inr n1" by (cases r) auto
  with one have one: "ingest_one key_of hint feed ingest db n ord = (db1, Inr n1)" by simp
  with 2(2) have "ingest_all key_of hint feed ingest db1 n1 orders = (db', Inr n')" by simp
  with 2(1) [OF one [symmetric] refl] ingest_one_counts [OF one] show ?case
    by (cases db1) fastforce
qed simp

lemma no_counts_counted [simp]: "counted no_counts = 0" "n_failed no_counts = 0"
  by (simp_all add: counted_def no_counts_def)

lemma after_run_kept:
  "pull_error batch \<noteq> None \<or> failed \<noteq> 0 \<Longrightarrow> after_run row w batch failed = row"
  by (auto simp: after_run_def checkpoint_for_def)

section \<open>A probe that is throttled\<close>

text \<open>A store of circuits over a key-value store, as the runtime builds it.\<close>

definition circuits_on :: "('s, json_text) json_kv \<Rightarrow> text_readers \<Rightarrow> int \<Rightarrow> 's circuit_store" where
  "circuits_on kv rd ttl = \<lparr>store_kv = kv, store_ttl = ttl, store_encode = encode_circuit, store_decode = decode_circuit rd\<rparr>"

lemma circuits_on_simps [simp]:
  "store_kv (circuits_on kv rd ttl) = kv" "store_ttl (circuits_on kv rd ttl) = ttl"
  "store_encode (circuits_on kv rd ttl) = encode_circuit" "store_decode (circuits_on kv rd ttl) = decode_circuit rd"
  by (simp_all add: circuits_on_def)

lemma circuits_on_memory: "circuits_on memory_kv rd ttl = circuit_memory_store rd ttl"
  by (simp add: circuits_on_def circuit_memory_store_def)

lemma load_circuit: "circuit_storable c \<Longrightarrow> load_state (circuits_on kv rd ttl) (Some (encode_circuit c)) = Inr (Some c)"
  by (simp add: load_state_def decode_encode_circuit)

text \<open>Runs of shops of the same platform, each with its own adapter, at later times; \<open>tick\<close> ages the store.\<close>

fun later_fetches ::
  "(int \<Rightarrow> 's \<Rightarrow> 's) \<Rightarrow> ('a, 'o) adapter list \<Rightarrow> ('s sync_setup \<times> int \<times> string option) list \<Rightarrow> ('s, 'a) sync_world \<Rightarrow>
     (('s, 'a) sync_world \<times> ('o, sync_error) pull_result) res list" where
  "later_fetches tick (adapter # adapters) ((su, now, cursor) # rest) w =
     (let r = sync_fetch su adapter (w\<lparr>w_now := now, w_circuits := tick now (w_circuits w)\<rparr>) cursor in
      r # (case r of Inl _ \<Rightarrow> [] | Inr (w', _) \<Rightarrow> later_fetches tick adapters rest w'))"
| "later_fetches tick _ _ w = []"

text \<open>Each run comes before the state of the one before it has expired.\<close>

fun within_ttl :: "int \<Rightarrow> int \<Rightarrow> ('x \<times> int \<times> 'y) list \<Rightarrow> bool" where
  "within_ttl ttl since [] = True"
| "within_ttl ttl since ((su, now, cursor) # rest) = (now < since + seconds ttl \<and> within_ttl ttl now rest)"

definition probe_blocked :: "('s \<Rightarrow> string \<Rightarrow> json_text \<Rightarrow> int \<Rightarrow> bool) \<Rightarrow> string \<Rightarrow> int \<Rightarrow> 's \<Rightarrow> bool" where
  "probe_blocked holds platform t s \<longleftrightarrow>
     (\<exists>c. holds s (breaker_key platform) (encode_circuit c) t \<and> circuit_storable c \<and> c_phase c = HALF_OPEN \<and> probe_in_flight c)"

text \<open>Circuits in a store that keeps a state for its time to live.\<close>

locale circuit_ttl = ttl_store kv tick holds
  for kv :: "('s, json_text) json_kv" and tick :: "int \<Rightarrow> 's \<Rightarrow> 's" and holds :: "'s \<Rightarrow> string \<Rightarrow> json_text \<Rightarrow> int \<Rightarrow> bool"
begin

lemma allow_held:
  assumes "holds s (breaker_key platform) (encode_circuit c) t" and "now < t" and "circuit_storable c"
  shows "\<exists>s'. breaker_allow (circuits_on kv rd ttl) policy now (tick now s) platform = (s', Inr (snd (admit c now policy))) \<and>
    holds s' (breaker_key platform) (encode_circuit (fst (admit c now policy))) (now + seconds ttl)"
  using update_held [of "circuits_on kv rd ttl", OF _ assms(1,2) load_circuit [OF assms(3)], of "\<lambda>state. admit (or_fresh state) now policy"]
  by (auto simp: breaker_allow_def or_fresh_def split: prod.splits)

lemma blocked_fetch:
  assumes "su_breaker su = circuits_on kv rd ttl" and "probe_blocked holds (su_platform su) t s" and "now < t"
  shows "\<exists>s'. sync_fetch su adapter (w\<lparr>w_now := now, w_circuits := tick now s\<rparr>) cursor =
      Inr (w\<lparr>w_now := now, w_circuits := s'\<rparr>, no_pages (adapter_failure None D_FAIL_FAST None)) \<and>
    probe_blocked holds (su_platform su) (now + seconds ttl) s'"
proof -
  from assms(2) obtain c where c: "holds s (breaker_key (su_platform su)) (encode_circuit c) t" "circuit_storable c"
    "c_phase c = HALF_OPEN" "probe_in_flight c" by (auto simp: probe_blocked_def)
  then have "admit c now (su_policy su) = (c, False)" by (simp add: admit_def)
  with allow_held [OF c(1) assms(3) c(2), of rd ttl "su_policy su"] c assms(1)
  show ?thesis by (auto simp: sync_fetch_def probe_blocked_def)
qed

lemma blocked_while_kept:
  assumes "probe_blocked holds platform (since + seconds ttl) (w_circuits w)" and "within_ttl ttl since runs"
    and "list_all (\<lambda>(su, now, cursor). su_breaker su = circuits_on kv rd ttl \<and> su_platform su = platform) runs"
  shows "list_all (\<lambda>r. \<exists>w'. r = Inr (w', no_pages (adapter_failure None D_FAIL_FAST None)))
    (later_fetches tick adapters runs w)"
  using assms
proof (induction runs arbitrary: since adapters w)
  case (Cons run runs)
  obtain su now cursor where run: "run = (su, now, cursor)" by (cases run)
  show ?case
  proof (cases adapters)
    case (Cons adapter rest)
    from blocked_fetch [of su rd ttl "since + seconds ttl" "w_circuits w" now adapter w cursor] Cons.prems run obtain s' where
      f: "sync_fetch su adapter (w\<lparr>w_now := now, w_circuits := tick now (w_circuits w)\<rparr>) cursor =
        Inr (w\<lparr>w_now := now, w_circuits := s'\<rparr>, no_pages (adapter_failure None D_FAIL_FAST None))"
      and b: "probe_blocked holds platform (now + seconds ttl) s'" by auto
    from Cons.IH [of now "w\<lparr>w_now := now, w_circuits := s'\<rparr>" rest] b Cons.prems run
    show ?thesis by (simp add: Cons f)
  qed simp
qed simp

end

interpretation redis_circuits: circuit_ttl "redis_kv expiring_client" "\<lambda>now s. s\<lparr>srv_now := now\<rparr>"
  "\<lambda>s k v t. \<exists>expiry\<ge>t. srv_keys s k = Some (v, expiry)" ..

interpretation memory_circuits: circuit_ttl memory_kv "\<lambda>now s. s" "\<lambda>s k v t. s k = Some v" ..

text \<open>A page that is refused before the platform was asked leaves the circuits alone.\<close>

lemma throttled_page:
  assumes "\<exists>l slot. try_acquire (su_limiter su) (\<lambda>_. w_now w) (w_limits w) (su_platform su) (su_shop su)
      (su_spec su) = (l, Inr slot) \<and> \<not> slot_allowed slot"
  shows "\<exists>w' err. fetch_page su adapter w cursor = (w', Inl err) \<and> w_circuits w' = w_circuits w"
  using assms by (auto simp: fetch_page_def Let_def)

text \<open>So does one that the platform answers with 429.\<close>

lemma rejected_page:
  assumes "try_acquire (su_limiter su) (\<lambda>_. w_now w) (w_limits w) (su_platform su) (su_shop su)
      (su_spec su) = (l, Inr slot)" and "slot_allowed slot"
    and "adapter (w_platform w) cursor = (a, now, Inl (AdapterFailed exc))" and "http_status exc = Some 429"
  shows "\<exists>w' err. fetch_page su adapter w cursor = (w', Inl err) \<and> w_circuits w' = w_circuits w"
  using assms by (auto simp: fetch_page_def report_failure_def Let_def split: prod.splits)

lemma failed_first_page:
  assumes "fetch w cursor = (w', Inl err)" and "1 \<le> n"
  shows "pull_order_pages fetch w cursor n = Inr (w', no_pages err)"
proof -
  obtain m where "nat n = Suc m" using assms(2) by (cases "nat n") auto
  with assms show ?thesis by (simp add: pull_order_pages_def no_pages_def)
qed


section \<open>Properties\<close>

text \<open>A run that ends accounts for every order it pulled: each is counted once, as inserted,
  updated, skipped or failed; the run is a success exactly when nothing was raised and no order
  failed; and when something was raised or an order failed, the shop's cursor row is left as it
  was, so the same window is pulled again.\<close>

theorem sync_run_accounts:
  assumes "sync_run su adapter key_of hint feed ingest active has_credential since until db =
    (db', Inr (RunDone out))"
  shows "n_inserted (out_counts out) + n_updated (out_counts out) + n_skipped (out_counts out) +
      n_failed (out_counts out) = int (out_pulled out) \<and>
    (out_status out = SUCCESS \<longleftrightarrow> out_decision out = None \<and> n_failed (out_counts out) = 0) \<and>
    (out_decision out \<noteq> None \<or> n_failed (out_counts out) \<noteq> 0 \<longrightarrow> db_row db' = db_row db)"
proof (cases has_credential)
  case False
  with assms have "out = run_failed D_FAIL_FAST \<and> db' = db"
    by (auto simp: sync_run_def split: sum.splits if_splits)
  then show ?thesis by (simp add: run_failed_def no_counts_def)
next
  case True
  with assms obtain w world batch ob counts where
    i: "ingest_all key_of hint feed ingest (db_orders db) no_counts (pull_orders batch) = (ob, Inr counts)"
    and out: "out = run_outcome batch counts"
    and row: "db_row db' = after_run (db_row db) w batch (n_failed counts)"
    by (auto simp: sync_run_def split: sum.splits prod.splits if_splits)
  have c: "counted counts = int (length (pull_orders batch))"
    using ingest_all_counts [OF i] by simp
  have d: "out_decision out = None \<longleftrightarrow> pull_error batch = None"
    by (simp add: out run_outcome_def split: option.splits sync_error.splits)
  have s: "out_status out = SUCCESS \<longleftrightarrow> pull_error batch = None \<and> n_failed counts = 0"
    by (simp add: out run_outcome_def resolve_sync_status_def)
  show ?thesis
    using c d s row after_run_kept [of batch "n_failed counts"]
    by (auto simp: out run_outcome_def counted_def)
qed

definition quota_zero :: rate_limit_spec where
  "quota_zero = \<lparr>qps = 10, burst = 20, dimension = ''shop'', daily_quota = Some 0\<rparr>"

definition test_setup :: "memory sync_setup" where
  "test_setup = \<lparr>su_limiter = memory_limiter plain_readers default_policy,
     su_breaker = circuit_memory_store plain_readers 3600, su_policy = default_policy,
     su_platform = ''shopee'', su_shop = ''7'', su_spec = quota_zero\<rparr>"

text \<open>With a daily quota of zero every page is refused.\<close>

lemma quota_zero_refused:
  "\<exists>slot. try_acquire (su_limiter test_setup) clock Map.empty (su_platform test_setup) (su_shop test_setup)
     (su_spec test_setup) = (Map.empty, Inr slot) \<and> \<not> slot_allowed slot"
  by (simp add: test_setup_def quota_zero_def try_acquire_def daily_block_def memory_limiter_def read_day_memory
      load_state_def used_today_def refused_def)

lemma sync_run_accounts_witness:
  "\<exists>db' out. sync_run test_setup (\<lambda>_ _ a _. (a, 0, Inl (OtherError RuntimeError))) (\<lambda>ord. Inr ord)
       (\<lambda>b k. Inr PROBABLY_NEW) (\<lambda>b k. (b, Inr ())) (\<lambda>d ord. (d, Inr (INSERT, None))) True True None None
       \<lparr>db_row = None, db_world = \<lparr>w_limits = Map.empty, w_circuits = Map.empty, w_platform = (),
          w_now = 1700000000000000\<rparr>, db_orders = ((), ())\<rparr> = (db', Inr (RunDone out)) \<and>
     out_pulled out = 0 \<and> out_status out \<noteq> SUCCESS \<and> db_row db' = None"
proof -
  let ?db = "\<lparr>db_row = None, db_world = \<lparr>w_limits = Map.empty, w_circuits = Map.empty, w_platform = (),
          w_now = 1700000000000000\<rparr>, db_orders = ((), ())\<rparr> :: (memory, unit, unit, unit) sync_db"
  let ?adapter = "\<lambda>_ _ a _. (a, 0, Inl (OtherError RuntimeError)) :: unit \<times> int \<times> (sync_error + string page_result)"
  obtain s' where allow: "breaker_allow (su_breaker test_setup) (su_policy test_setup) (w_now (db_world ?db))
      Map.empty (su_platform test_setup) = (s', Inr True)"
    using update_memory [of "circuit_memory_store plain_readers 3600" Map.empty "breaker_key ''shopee''" None
        "\<lambda>state. admit (or_fresh state) 1700000000000000 default_policy"]
    by (simp add: test_setup_def breaker_allow_def circuit_memory_store_def load_state_def admit_def
        or_fresh_def fresh_circuit_def)
  obtain w1 err where page: "fetch_page test_setup (?adapter 0 0) ((db_world ?db)\<lparr>w_circuits := s'\<rparr>) None = (w1, Inl err)"
    using throttled_page [of test_setup "(db_world ?db)\<lparr>w_circuits := s'\<rparr>"] quota_zero_refused by fastforce
  have fetch: "sync_fetch test_setup (?adapter x y) (db_world ?db) None = Inr (w1, no_pages err)" for x y
    using allow failed_first_page [where fetch = "fetch_page test_setup (?adapter 0 0)", OF page, of 20]
    by (simp add: sync_fetch_def) (simp add: test_setup_def default_policy_def)
  let ?out = "run_outcome (no_pages err :: (string, sync_error) pull_result) no_counts"
  obtain db' where run: "sync_run test_setup ?adapter (\<lambda>ord. Inr ord)
       (\<lambda>b k. Inr PROBABLY_NEW) (\<lambda>b k. (b, Inr ())) (\<lambda>d ord. (d, Inr (INSERT, None))) True True None None ?db =
       (db', Inr (RunDone ?out))"
    using fetch
    by (simp add: sync_run_def service_window_def order_sync_window_def Let_def no_pages_def)
  have "out_decision ?out \<noteq> None"
    by (simp add: run_outcome_def no_pages_def split: sync_error.splits)
  with sync_run_accounts [OF run] run show ?thesis
    by (intro exI [of _ db'] exI [of _ ?out]) (auto simp: run_outcome_def no_pages_def resolve_sync_status_def)
qed

text \<open>C21: A half-open circuit can lock out a platform: when the one probe it lets through is refused
  by the shop's rate limit, or answered with 429, nothing reports back to the circuit, and from then on
  every run of every shop of that platform is refused before a page is asked for, whatever the platform
  would answer, as long as each run comes within the time to live of the circuit's state after the one before
  it; and a refused run writes the state again, so its time starts anew.  This holds of every store of circuits
  that keeps a state for its time to live, Redis among them.\<close>

theorem throttled_probe_locks_platform:
  assumes store: "circuit_ttl kv tick holds" and on: "su_breaker su = circuits_on kv rd ttl" "1 \<le> order_max_pages (su_policy su)"
    and circuit: "w_circuits w = tick (w_now w) s" "holds s (breaker_key (su_platform su)) (encode_circuit c) t" "w_now w < t"
      "circuit_storable c" "c_phase c = OPEN" "opened_at c = Some t0"
      "total_seconds (w_now w - t0) \<ge> of_int (circuit_open_seconds (su_policy su))"
    and slot: "try_acquire (su_limiter su) (\<lambda>_. w_now w) (w_limits w) (su_platform su) (su_shop su)
      (su_spec su) = (l, Inr slot)"
    and throttled: "\<not> slot_allowed slot \<or> (\<exists>a now exc. adapter (w_platform w) cursor =
      (a, now, Inl (AdapterFailed exc)) \<and> http_status exc = Some 429)"
    and later: "list_all (\<lambda>(su', now, cursor). su_breaker su' = circuits_on kv rd ttl \<and>
      su_platform su' = su_platform su) runs" "within_ttl ttl (w_now w) runs"
  shows "\<exists>w1 err. sync_fetch su adapter w cursor = Inr (w1, no_pages err) \<and>
    list_all (\<lambda>r. \<exists>w'. r = Inr (w', no_pages (adapter_failure None D_FAIL_FAST None)))
      (later_fetches tick adapters runs w1)"
proof -
  let ?p = "\<lparr>c_phase = HALF_OPEN, outcomes = outcomes c, opened_at = opened_at c, probe_in_flight = True\<rparr>"
  have adm: "admit c (w_now w) (su_policy su) = (?p, True)" using circuit by (simp add: admit_def)
  have p: "circuit_storable ?p" using circuit(4) by (simp add: circuit_storable_def)
  from circuit_ttl.allow_held [OF store circuit(2,3,4), of rd ttl "su_policy su"] obtain s' where
    allow: "breaker_allow (su_breaker su) (su_policy su) (w_now w) (w_circuits w) (su_platform su) = (s', Inr True)"
    and kept: "holds s' (breaker_key (su_platform su)) (encode_circuit ?p) (w_now w + seconds ttl)"
    by (auto simp: on(1) circuit(1) adm)
  let ?w = "w\<lparr>w_circuits := s'\<rparr>"
  have "\<exists>w1 err. fetch_page su adapter ?w cursor = (w1, Inl err) \<and> w_circuits w1 = w_circuits ?w"
  proof (cases "slot_allowed slot")
    case True
    with throttled obtain a now exc where "adapter (w_platform w) cursor = (a, now, Inl (AdapterFailed exc))"
      "http_status exc = Some 429" by blast
    then show ?thesis using rejected_page [of su ?w l slot adapter cursor a now exc] slot True by simp
  qed (use throttled_page [of su ?w adapter cursor] slot in auto)
  then obtain w1 err where w1: "fetch_page su adapter ?w cursor = (w1, Inl err)" "w_circuits w1 = s'" by auto
  have "sync_fetch su adapter w cursor = Inr (w1, no_pages err)"
    using allow failed_first_page [where fetch = "fetch_page su adapter", OF w1(1) on(2)]
    by (simp add: sync_fetch_def)
  moreover have "probe_blocked holds (su_platform su) (w_now w + seconds ttl) (w_circuits w1)"
    using p kept by (auto simp: probe_blocked_def w1(2))
  ultimately show ?thesis using circuit_ttl.blocked_while_kept [OF store _ later(2,1), of w1 adapters] by blast
qed

text \<open>A run over Redis whose circuit has been open for a quarter of an hour, and two later runs half an hour apart: the
  second comes after the state would have expired had it not been written again.\<close>

definition redis_limiter :: "json_text expiring_keys token_bucket_limiter" where
  "redis_limiter =
     \<lparr>limiter_store = \<lparr>store_kv = redis_kv expiring_client, store_ttl = 3600, store_encode = encode_bucket,
        store_decode = decode_bucket plain_readers\<rparr>,
      limiter_policy = default_policy,
      limiter_day_store = Some \<lparr>store_kv = redis_kv expiring_client, store_ttl = 172800, store_encode = encode_day,
        store_decode = decode_day\<rparr>\<rparr>"

definition redis_setup :: "json_text expiring_keys sync_setup" where
  "redis_setup = \<lparr>su_limiter = redis_limiter, su_breaker = circuits_on (redis_kv expiring_client) plain_readers 3600,
     su_policy = default_policy, su_platform = ''shopee'', su_shop = ''7'', su_spec = quota_zero\<rparr>"

definition open_circuit :: circuit_state where
  "open_circuit = \<lparr>c_phase = OPEN, outcomes = [True], opened_at = Some 1699999000000000, probe_in_flight = False\<rparr>"

definition redis_keys_open :: "json_text expiring_keys" where
  "redis_keys_open = \<lparr>srv_now = 1699999000000000,
     srv_keys = [breaker_key ''shopee'' \<mapsto> (encode_circuit open_circuit, 1700002600000000)]\<rparr>"

definition redis_world :: "(json_text expiring_keys, unit) sync_world" where
  "redis_world = \<lparr>w_limits = \<lparr>srv_now = 1700000000000000, srv_keys = Map.empty\<rparr>,
     w_circuits = redis_keys_open\<lparr>srv_now := 1700000000000000\<rparr>, w_platform = (), w_now = 1700000000000000\<rparr>"

lemma redis_refused:
  "\<exists>slot. try_acquire redis_limiter clock (w_limits redis_world) ''shopee'' ''7'' quota_zero = (w_limits redis_world, Inr slot) \<and>
     \<not> slot_allowed slot"
  by (simp add: redis_limiter_def redis_world_def quota_zero_def try_acquire_def daily_block_def read_state_def redis_kv_def
      redis_get_def expiring_client_def live_value_def load_state_def used_today_def refused_def)

theorem throttled_probe_locks_platform_witness:
  "\<exists>w1 err. sync_fetch redis_setup (\<lambda>a _. (a, 0, Inr \<lparr>page_items = [1 :: int], next_cursor = None\<rparr>)) redis_world None =
       Inr (w1, no_pages err) \<and>
     list_all (\<lambda>r. \<exists>w'. r = Inr (w', no_pages (adapter_failure None D_FAIL_FAST None)))
       (later_fetches (\<lambda>now s. s\<lparr>srv_now := now\<rparr>) (replicate 2 (\<lambda>a _. (a, 0, Inr \<lparr>page_items = [2 :: int], next_cursor = None\<rparr>)))
          [(redis_setup, 1700001800000000, None), (redis_setup, 1700003600000000 - 1, None)] w1)"
proof -
  obtain slot where slot: "try_acquire (su_limiter redis_setup) (\<lambda>_. w_now redis_world) (w_limits redis_world)
      (su_platform redis_setup) (su_shop redis_setup) (su_spec redis_setup) = (w_limits redis_world, Inr slot)"
    "\<not> slot_allowed slot"
    using redis_refused [of "\<lambda>_. w_now redis_world"] by (auto simp: redis_setup_def)
  have ok: "circuit_storable open_circuit"
    by (simp add: open_circuit_def circuit_storable_def date_ok_def utc_date_def epoch_ordinal_def day_micros_def max_ordinal_def)
  have "total_seconds 1000000000 = 1000" using fl_of_int [of 1000] by (simp add: total_seconds_def)
  then have "total_seconds (w_now redis_world - 1699999000000000) \<ge> of_int (circuit_open_seconds (su_policy redis_setup))"
    by (simp add: redis_setup_def redis_world_def default_policy_def)
  note locks = throttled_probe_locks_platform [OF redis_circuits.circuit_ttl_axioms, where su = redis_setup and rd = plain_readers
      and ttl = 3600 and w = redis_world and s = redis_keys_open and c = open_circuit and t = 1700002600000000
      and ?t0.0 = 1699999000000000 and slot = slot, OF _ _ _ _ _ ok _ _ this slot(1)]
  show ?thesis
    using slot(2) by (intro locks) (simp_all add: redis_setup_def redis_world_def redis_keys_open_def open_circuit_def
      default_policy_def seconds_def)
qed

end
