(* ===== verification/Settlement.thy ===== *)
theory Settlement imports Decimal Prelude begin

text \<open>
  Matching settlement lines with orders (\<open>engines/settlement.py\<close>): every line is matched by its
  platform order number, the lines of an order are compared with its total when all of them are in
  the order's currency, and nothing is converted.  Notes are a datatype; the dictionary of orders
  is a map, and the dictionary of groups an insertion-ordered association list.
\<close>

section \<open>Definitions\<close>

record order_ref =
  ref_order_id :: int
  ref_total :: dec
  ref_currency :: string

record settlement_line =
  sl_order :: string
  sl_fee_type :: string
  sl_amount :: dec
  sl_currency :: string

datatype match_status = MATCHED | UNMATCHED

record matched_line =
  ml_order :: string
  ml_fee_type :: string
  ml_amount :: dec
  ml_currency :: string
  ml_order_id :: "int option"
  ml_status :: match_status

datatype gap_note = NOTE_UNMATCHED | NOTE_CURRENCY | NOTE_COMPARED

record order_gap =
  gap_order :: string
  gap_order_id :: "int option"
  gap_order_amount :: "dec option"
  gap_order_currency :: "string option"
  gap_amount :: "dec option"
  gap_currency :: "string option"
  gap_deviation :: "dec option"
  gap_note :: gap_note

text \<open>The one currency of the lines, when there is one.\<close>

definition sole_currency :: "settlement_line list \<Rightarrow> string option" where
  "sole_currency lines =
     (case uniq (map sl_currency lines) of [c] \<Rightarrow> Some c | _ \<Rightarrow> None)"

text \<open>The amount is computed only when the currency is not the empty text.\<close>

definition settled_amount :: "settlement_line list \<Rightarrow> dec option res" where
  "settled_amount lines =
     (case sole_currency lines of
        None \<Rightarrow> Inr None
      | Some c \<Rightarrow> if c = [] then Inr None
                  else bindr (quantize (dsum (map sl_amount lines))) (\<lambda>a. Inr (Some a)))"

definition settle_gap :: "string \<Rightarrow> settlement_line list \<Rightarrow> order_ref option \<Rightarrow> order_gap res" where
  "settle_gap platform_order_id lines order =
     bindr (settled_amount lines) (\<lambda>amount.
     let cur = sole_currency lines in
     case order of
       None \<Rightarrow>
         Inr \<lparr>gap_order = platform_order_id, gap_order_id = None, gap_order_amount = None,
              gap_order_currency = None, gap_amount = amount, gap_currency = cur,
              gap_deviation = None, gap_note = NOTE_UNMATCHED\<rparr>
     | Some ref \<Rightarrow>
         if cur \<noteq> Some (ref_currency ref) then
           bindr (quantize (ref_total ref)) (\<lambda>total.
           Inr \<lparr>gap_order = platform_order_id, gap_order_id = Some (ref_order_id ref),
                gap_order_amount = Some total, gap_order_currency = Some (ref_currency ref),
                gap_amount = amount, gap_currency = cur, gap_deviation = None,
                gap_note = NOTE_CURRENCY\<rparr>)
         else
           (case amount of
              None \<Rightarrow> Inl AssertionError
            | Some settled \<Rightarrow>
                bindr (quantize (ref_total ref)) (\<lambda>total.
                bindr (quantize (dsub settled (ref_total ref))) (\<lambda>dev.
                Inr \<lparr>gap_order = platform_order_id, gap_order_id = Some (ref_order_id ref),
                     gap_order_amount = Some total, gap_order_currency = Some (ref_currency ref),
                     gap_amount = amount, gap_currency = cur, gap_deviation = Some dev,
                     gap_note = NOTE_COMPARED\<rparr>))))"

definition match_line :: "(string \<rightharpoonup> order_ref) \<Rightarrow> settlement_line \<Rightarrow> matched_line res" where
  "match_line orders line =
     bindr (quantize (sl_amount line)) (\<lambda>amount.
     Inr \<lparr>ml_order = sl_order line, ml_fee_type = sl_fee_type line, ml_amount = amount,
          ml_currency = sl_currency line,
          ml_order_id = map_option ref_order_id (orders (sl_order line)),
          ml_status = (if orders (sl_order line) = None then UNMATCHED else MATCHED)\<rparr>)"

definition hit_count :: "(string \<rightharpoonup> order_ref) \<Rightarrow> settlement_line list \<Rightarrow> nat" where
  "hit_count orders lines = length (filter (\<lambda>l. orders (sl_order l) \<noteq> None) lines)"

definition reconcile ::
  "settlement_line list \<Rightarrow> (string \<rightharpoonup> order_ref) \<Rightarrow> (matched_line list \<times> order_gap list \<times> dec) res" where
  "reconcile lines orders =
     bindr (mapr (match_line orders) lines) (\<lambda>matched.
     bindr (mapr (\<lambda>(pid, group). settle_gap pid group (orders pid)) (group_on sl_order lines)) (\<lambda>gaps.
     bindr (if lines = [] then Inr 0
            else bindr (ddiv (of_nat (hit_count orders lines)) (of_nat (length lines))) quantize) (\<lambda>rate.
     Inr (matched, gaps, rate))))"

definition header_amount :: "settlement_line list \<Rightarrow> string \<Rightarrow> dec res" where
  "header_amount lines currency =
     quantize (dsum (map sl_amount (filter (\<lambda>l. sl_currency l = currency) lines)))"

section \<open>One order's gap\<close>

lemma uniq_same: "xs \<noteq> [] \<Longrightarrow> \<forall>x\<in>set xs. x = c \<Longrightarrow> uniq xs = [c]"
proof -
  assume a: "xs \<noteq> []" "\<forall>x\<in>set xs. x = c"
  then have "set xs = {c}" by (cases xs) auto
  then have "set (uniq xs) = {c}" "distinct (uniq xs)" by simp_all
  then obtain y ys where "uniq xs = y # ys" by (cases "uniq xs") auto
  with \<open>set (uniq xs) = {c}\<close> \<open>distinct (uniq xs)\<close> show "uniq xs = [c]" by (cases ys) auto
qed

lemma sole_currency_same:
  "lines \<noteq> [] \<Longrightarrow> \<forall>l\<in>set lines. sl_currency l = c \<Longrightarrow> sole_currency lines = Some c"
  using uniq_same [of "map sl_currency lines" c] by (simp add: sole_currency_def)

text \<open>What can be added up exactly: amounts of whole millionths, not too large.\<close>

definition exact_lines :: "settlement_line list \<Rightarrow> bool" where
  "exact_lines lines \<longleftrightarrow>
     (\<forall>l\<in>set lines. millionths (sl_amount l)) \<and> (\<Sum>l\<leftarrow>lines. \<bar>sl_amount l\<bar>) < 10 ^ 22"

lemma exact_sum:
  assumes "exact_lines lines"
  shows "dsum (map sl_amount lines) = (\<Sum>l\<leftarrow>lines. sl_amount l)"
    and "quantize (\<Sum>l\<leftarrow>lines. sl_amount l) = Inr (\<Sum>l\<leftarrow>lines. sl_amount l)"
proof -
  show "dsum (map sl_amount lines) = (\<Sum>l\<leftarrow>lines. sl_amount l)"
    by (rule dsum_exact) (use assms in \<open>auto simp: exact_lines_def comp_def\<close>)
  have "\<bar>\<Sum>l\<leftarrow>lines. sl_amount l\<bar> < 10 ^ 22"
    using assms abs_sum_list_le [of "map sl_amount lines"] by (simp add: exact_lines_def comp_def)
  moreover have "millionths (\<Sum>l\<leftarrow>lines. sl_amount l)"
    using assms by (intro millionths_sum_list) (auto simp: exact_lines_def)
  ultimately show "quantize (\<Sum>l\<leftarrow>lines. sl_amount l) = Inr (\<Sum>l\<leftarrow>lines. sl_amount l)"
    by (intro quantize_id) (simp add: micro_iff)
qed

lemma filter_abs_sum_le: "(\<Sum>l\<leftarrow>filter P lines. \<bar>f l\<bar>) \<le> (\<Sum>l\<leftarrow>lines. \<bar>f l\<bar> :: rat)"
  by (induction lines) auto

lemma exact_filter: "exact_lines lines \<Longrightarrow> exact_lines (filter P lines)"
  using filter_abs_sum_le [of sl_amount P lines] by (auto simp: exact_lines_def)

lemma settled_amount_exact:
  assumes "exact_lines lines" "lines \<noteq> []" "\<forall>l\<in>set lines. sl_currency l = c" "c \<noteq> []"
  shows "settled_amount lines = Inr (Some (\<Sum>l\<leftarrow>lines. sl_amount l))"
  using exact_sum [OF assms(1)] sole_currency_same [OF assms(2,3)] assms(4)
  by (simp add: settled_amount_def)

lemma settle_gap_amount:
  "settle_gap pid lines order = Inr g \<Longrightarrow>
     settled_amount lines = Inr (gap_amount g) \<and> gap_order g = pid"
proof -
  assume g: "settle_gap pid lines order = Inr g"
  then obtain amount where a: "settled_amount lines = Inr amount"
    by (auto simp: settle_gap_def res_simps)
  show ?thesis
  proof (cases order)
    case None
    with g a show ?thesis by (auto simp: settle_gap_def)
  next
    case (Some ref)
    with g a show ?thesis
      by (cases "sole_currency lines \<noteq> Some (ref_currency ref)"; cases amount)
        (auto simp: settle_gap_def res_simps)
  qed
qed

lemma settle_gap_compared:
  assumes "settle_gap pid lines (Some ref) = Inr g" and "exact_lines lines" "lines \<noteq> []"
    and "\<forall>l\<in>set lines. sl_currency l = ref_currency ref" "ref_currency ref \<noteq> []"
    and "micro (ref_total ref)" "\<bar>(\<Sum>l\<leftarrow>lines. sl_amount l) - ref_total ref\<bar> < 10 ^ 22"
  shows "gap_note g = NOTE_COMPARED \<and> gap_order_amount g = Some (ref_total ref) \<and>
    gap_deviation g = Some ((\<Sum>l\<leftarrow>lines. sl_amount l) - ref_total ref)"
proof -
  have m: "millionths (\<Sum>l\<leftarrow>lines. sl_amount l)" "millionths (ref_total ref)"
    using assms(2,6) by (auto simp: exact_lines_def micro_iff intro!: millionths_sum_list)
  have "dsub (\<Sum>l\<leftarrow>lines. sl_amount l) (ref_total ref) = (\<Sum>l\<leftarrow>lines. sl_amount l) - ref_total ref"
    by (rule dsub_exact) (use m assms(7) in auto)
  moreover have "quantize ((\<Sum>l\<leftarrow>lines. sl_amount l) - ref_total ref) =
      Inr ((\<Sum>l\<leftarrow>lines. sl_amount l) - ref_total ref)"
    using m assms(7) by (intro quantize_id) (simp add: micro_iff millionths_diff)
  ultimately show ?thesis
    using assms(1) settled_amount_exact [OF assms(2-5)] sole_currency_same [OF assms(3,4)]
      quantize_id [OF assms(6)]
    by (auto simp: settle_gap_def Let_def res_simps)
qed

text \<open>A currency that is the empty text is compared as equal but has no amount: the assertion fails.\<close>

lemma settle_gap_empty_currency:
  assumes "lines \<noteq> []" "\<forall>l\<in>set lines. sl_currency l = []" "ref_currency ref = []"
  shows "settle_gap pid lines (Some ref) = Inl AssertionError"
  using sole_currency_same [OF assms(1,2)] assms(3)
  by (simp add: settle_gap_def settled_amount_def)


section \<open>Properties\<close>

lemma settle_gap_order: "settle_gap pid lines order = Inr g \<Longrightarrow> gap_order g = pid"
  using settle_gap_amount by blast

lemma settle_gap_currency: "settle_gap pid lines order = Inr g \<Longrightarrow> gap_currency g = sole_currency lines"
  by (cases order; cases "settled_amount lines") (auto simp: settle_gap_def res_simps Let_def split: if_splits option.splits)

lemma sole_currency_iff: "lines \<noteq> [] \<Longrightarrow> sole_currency lines = Some c \<longleftrightarrow> (\<forall>l\<in>set lines. sl_currency l = c)"
proof
  assume "sole_currency lines = Some c"
  then have "uniq (map sl_currency lines) = [c]" by (auto simp: sole_currency_def split: list.splits)
  then have "set (map sl_currency lines) = {c}" by (metis list.set(1,2) set_uniq)
  then show "\<forall>l\<in>set lines. sl_currency l = c" by auto
qed (rule sole_currency_same)

lemma reconcile_gaps:
  assumes "reconcile lines orders = Inr (matched, gaps, rate)"
  shows "list_all2 (\<lambda>e g. settle_gap (fst e) (snd e) (orders (fst e)) = Inr g) (group_on sl_order lines) gaps"
  using assms by (auto simp: reconcile_def res_simps mapr_Inr_list_all2 case_prod_beta)

lemma gaps_orders:
  "list_all2 (\<lambda>e g. settle_gap (fst e) (snd e) (orders (fst e)) = Inr g) es gaps \<Longrightarrow>
     map gap_order gaps = map fst es"
  by (induction rule: list_all2_induct) (auto dest: settle_gap_order)

text \<open>The lines of an order, and what a matched line keeps of its line.\<close>

definition order_lines :: "settlement_line list \<Rightarrow> string \<Rightarrow> settlement_line list" where
  "order_lines lines pid = filter (\<lambda>l. sl_order l = pid) lines"

definition line_kept :: "(string \<rightharpoonup> order_ref) \<Rightarrow> settlement_line \<Rightarrow> matched_line \<Rightarrow> bool" where
  "line_kept orders l m \<longleftrightarrow> ml_order m = sl_order l \<and> ml_fee_type m = sl_fee_type l \<and> ml_amount m = sl_amount l \<and>
     ml_currency m = sl_currency l \<and> ml_order_id m = map_option ref_order_id (orders (sl_order l)) \<and>
     (ml_status m = MATCHED \<longleftrightarrow> orders (sl_order l) \<noteq> None)"

text \<open>What the gap of an order says of its lines and of the order.\<close>

definition gap_right :: "(string \<rightharpoonup> order_ref) \<Rightarrow> settlement_line list \<Rightarrow> order_gap \<Rightarrow> bool" where
  "gap_right orders lines g \<longleftrightarrow>
     (let own = order_lines lines (gap_order g); money = (\<Sum>l\<leftarrow>own. sl_amount l) in
      (\<forall>c. gap_currency g = Some c \<longleftrightarrow> (\<forall>l\<in>set own. sl_currency l = c)) \<and>
      gap_amount g = (if gap_currency g = None \<or> gap_currency g = Some [] then None else Some money) \<and>
      (case orders (gap_order g) of
         None \<Rightarrow> gap_note g = NOTE_UNMATCHED \<and> gap_order_id g = None \<and> gap_deviation g = None
       | Some ref \<Rightarrow> gap_order_id g = Some (ref_order_id ref) \<and>
           (if gap_currency g \<noteq> Some (ref_currency ref) then gap_note g = NOTE_CURRENCY \<and> gap_deviation g = None
            else micro (ref_total ref) \<longrightarrow> \<bar>money - ref_total ref\<bar> < 10 ^ 22 \<longrightarrow>
              gap_note g = NOTE_COMPARED \<and> gap_deviation g = Some (money - ref_total ref))))"

text \<open>The money of a currency that the gaps account for, and that of orders with several currencies.\<close>

definition settled_in :: "string \<Rightarrow> order_gap list \<Rightarrow> dec" where
  "settled_in c gaps = (\<Sum>g\<leftarrow>filter (\<lambda>g. gap_currency g = Some c) gaps. the (gap_amount g))"

definition several_currencies :: "settlement_line list \<Rightarrow> string \<Rightarrow> bool" where
  "several_currencies lines pid \<longleftrightarrow> (\<exists>l\<in>set (order_lines lines pid). \<exists>k\<in>set (order_lines lines pid). sl_currency l \<noteq> sl_currency k)"

definition unsettled_in :: "string \<Rightarrow> settlement_line list \<Rightarrow> dec" where
  "unsettled_in c lines = (\<Sum>l\<leftarrow>filter (\<lambda>l. sl_currency l = c \<and> several_currencies lines (sl_order l)) lines. sl_amount l)"

lemma several_iff:
  assumes "order_lines lines pid \<noteq> []"
  shows "several_currencies lines pid \<longleftrightarrow> sole_currency (order_lines lines pid) = None"
proof
  assume "several_currencies lines pid"
  then show "sole_currency (order_lines lines pid) = None"
    unfolding several_currencies_def using sole_currency_iff [OF assms] by (metis not_Some_eq)
next
  assume none: "sole_currency (order_lines lines pid) = None"
  from assms obtain l ls where l: "order_lines lines pid = l # ls" by (cases "order_lines lines pid") auto
  from none sole_currency_iff [OF assms, of "sl_currency l"]
  obtain k where "k \<in> set (order_lines lines pid)" "sl_currency k \<noteq> sl_currency l" by auto
  then show "several_currencies lines pid" using l by (auto simp: several_currencies_def)
qed

lemma settle_gap_right:
  assumes g: "settle_gap pid (order_lines lines pid) (orders pid) = Inr g" and exact: "exact_lines lines"
    and own: "order_lines lines pid \<noteq> []"
  shows "gap_right orders lines g"
proof -
  let ?own = "order_lines lines pid"
  have k: "gap_order g = pid" and cur: "gap_currency g = sole_currency ?own" and amt: "settled_amount ?own = Inr (gap_amount g)"
    using settle_gap_amount [OF g] settle_gap_currency [OF g] by simp_all
  have ex: "exact_lines ?own" unfolding order_lines_def by (rule exact_filter [OF exact])
  have currency: "gap_currency g = Some c \<longleftrightarrow> (\<forall>l\<in>set ?own. sl_currency l = c)" for c
    unfolding cur by (rule sole_currency_iff [OF own])
  have amount: "gap_amount g = (if gap_currency g = None \<or> gap_currency g = Some [] then None else Some (\<Sum>l\<leftarrow>?own. sl_amount l))"
    using amt exact_sum [OF ex] unfolding cur settled_amount_def by (auto split: option.splits if_splits)
  show ?thesis
  proof (cases "orders pid")
    case None
    with g have "gap_note g = NOTE_UNMATCHED" "gap_order_id g = None" "gap_deviation g = None"
      by (auto simp: settle_gap_def res_simps)
    with None k currency amount show ?thesis by (simp add: gap_right_def Let_def)
  next
    case (Some ref)
    show ?thesis
    proof (cases "sole_currency ?own = Some (ref_currency ref)")
      case False
      with g Some have "gap_note g = NOTE_CURRENCY" "gap_deviation g = None" "gap_order_id g = Some (ref_order_id ref)"
        by (auto simp: settle_gap_def res_simps)
      with Some False k currency amount cur show ?thesis by (simp add: gap_right_def Let_def)
    next
      case True
      obtain money where money: "settled_amount ?own = Inr (Some money)"
        using g Some True amt by (cases "gap_amount g") (auto simp: settle_gap_def)
      have full: "ref_currency ref \<noteq> []" using money True by (auto simp: settled_amount_def)
      have id: "gap_order_id g = Some (ref_order_id ref)" using g Some True money by (auto simp: settle_gap_def Let_def res_simps)
      have same: "\<forall>l\<in>set ?own. sl_currency l = ref_currency ref" using True sole_currency_iff [OF own] by blast
      have "gap_note g = NOTE_COMPARED \<and> gap_deviation g = Some ((\<Sum>l\<leftarrow>?own. sl_amount l) - ref_total ref)"
        if "micro (ref_total ref)" "\<bar>(\<Sum>l\<leftarrow>?own. sl_amount l) - ref_total ref\<bar> < 10 ^ 22"
        using settle_gap_compared [OF g [unfolded Some] ex own same full that] by blast
      with True cur have "if gap_currency g \<noteq> Some (ref_currency ref) then gap_note g = NOTE_CURRENCY \<and> gap_deviation g = None
          else micro (ref_total ref) \<longrightarrow> \<bar>(\<Sum>l\<leftarrow>?own. sl_amount l) - ref_total ref\<bar> < 10 ^ 22 \<longrightarrow>
            gap_note g = NOTE_COMPARED \<and> gap_deviation g = Some ((\<Sum>l\<leftarrow>?own. sl_amount l) - ref_total ref)" by simp
      with id currency amount show ?thesis unfolding gap_right_def Let_def k Some option.case by blast
    qed
  qed
qed

lemma lines_kept:
  assumes "mapr (match_line orders) lines = Inr matched" and "exact_lines lines"
  shows "list_all2 (line_kept orders) lines matched"
proof -
  have micro_line: "quantize (sl_amount l) = Inr (sl_amount l)" if "l \<in> set lines" for l
  proof -
    have "\<bar>sl_amount l\<bar> \<le> (\<Sum>l\<leftarrow>lines. \<bar>sl_amount l\<bar>)"
      using that by (intro member_le_sum_list) (auto simp: image_iff)
    with that assms(2) show ?thesis by (intro quantize_id) (auto simp: exact_lines_def micro_iff)
  qed
  have "list_all2 (\<lambda>l m. match_line orders l = Inr m) lines matched" using assms(1) by (simp add: mapr_Inr_list_all2)
  then show ?thesis
  proof (rule list.rel_mono_strong)
    fix l m
    assume "l \<in> set lines" and "match_line orders l = Inr m"
    with micro_line show "line_kept orders l m"
      by (cases "orders (sl_order l)") (auto simp: match_line_def res_simps line_kept_def)
  qed
qed

lemma matched_hits: "list_all2 (line_kept orders) lines matched \<Longrightarrow>
    hit_count orders lines = length (filter (\<lambda>m. ml_status m = MATCHED) matched)"
  by (induction rule: list_all2_induct) (auto simp: hit_count_def line_kept_def)

lemma gaps_right:
  assumes rec: "reconcile lines orders = Inr (matched, gaps, rate)" and exact: "exact_lines lines"
  shows "list_all2 (\<lambda>e g. snd e = order_lines lines (fst e) \<and> gap_order g = fst e \<and> gap_right orders lines g) (group_on sl_order lines) gaps"
  using reconcile_gaps [OF rec]
proof (rule list.rel_mono_strong)
  fix e g
  assume "e \<in> set (group_on sl_order lines)" and g: "settle_gap (fst e) (snd e) (orders (fst e)) = Inr g"
  then have "(fst e, snd e) \<in> set (group_on sl_order lines)" by simp
  from group_on_entry [OF this] have own: "snd e = order_lines lines (fst e)" "snd e \<noteq> []" by (simp_all add: order_lines_def)
  with settle_gap_right [of "fst e" lines orders g] g exact settle_gap_order [OF g]
  show "snd e = order_lines lines (fst e) \<and> gap_order g = fst e \<and> gap_right orders lines g" by simp
qed

lemma own_lines: "l \<in> set lines \<Longrightarrow> l \<in> set (order_lines lines (sl_order l))"
  by (simp add: order_lines_def)

text \<open>The settled part of a currency is the money of the orders whose lines are all in it.\<close>

lemma settled_part:
  assumes gaps: "list_all2 (\<lambda>e g. snd e = order_lines lines (fst e) \<and> gap_order g = fst e \<and> gap_right orders lines g) (group_on sl_order lines) gaps"
    and c: "c \<noteq> []"
  shows "settled_in c gaps = (\<Sum>l\<leftarrow>lines. if sole_currency (order_lines lines (sl_order l)) = Some c then sl_amount l else 0)"
proof -
  let ?f = "\<lambda>l. if sole_currency (order_lines lines (sl_order l)) = Some c then sl_amount l else 0"
  have one: "(if gap_currency g = Some c then the (gap_amount g) else 0) = (\<Sum>l\<leftarrow>filter (\<lambda>l. sl_order l = fst e) lines. ?f l)"
    if "snd e = order_lines lines (fst e)" "gap_order g = fst e" "gap_right orders lines g" "snd e \<noteq> []" for e g
  proof -
    have cur: "gap_currency g = Some c \<longleftrightarrow> sole_currency (order_lines lines (fst e)) = Some c"
      using that sole_currency_iff [of "order_lines lines (fst e)" c] by (simp add: gap_right_def Let_def)
    have "(\<Sum>l\<leftarrow>filter (\<lambda>l. sl_order l = fst e) lines. ?f l) =
        (\<Sum>l\<leftarrow>order_lines lines (fst e). if sole_currency (order_lines lines (fst e)) = Some c then sl_amount l else 0)"
      unfolding order_lines_def by (intro arg_cong [where f = sum_list] map_cong refl) auto
    moreover have "the (gap_amount g) = (\<Sum>l\<leftarrow>order_lines lines (fst e). sl_amount l)" if "gap_currency g = Some c"
      using that \<open>gap_right orders lines g\<close> \<open>gap_order g = fst e\<close> c by (simp add: gap_right_def Let_def)
    ultimately show ?thesis using cur by (cases "gap_currency g = Some c") simp_all
  qed
  have "settled_in c gaps = (\<Sum>g\<leftarrow>gaps. if gap_currency g = Some c then the (gap_amount g) else 0)"
    by (simp add: settled_in_def sum_list_map_filter')
  also have "\<dots> = (\<Sum>e\<leftarrow>group_on sl_order lines. \<Sum>l\<leftarrow>filter (\<lambda>l. sl_order l = fst e) lines. ?f l)"
  proof -
    have "list_all2 (\<lambda>e g. (if gap_currency g = Some c then the (gap_amount g) else 0) =
        (\<Sum>l\<leftarrow>filter (\<lambda>l. sl_order l = fst e) lines. ?f l)) (group_on sl_order lines) gaps"
      using gaps
    proof (rule list.rel_mono_strong)
      fix e g
      assume "e \<in> set (group_on sl_order lines)"
        and eg: "snd e = order_lines lines (fst e) \<and> gap_order g = fst e \<and> gap_right orders lines g"
      then have "snd e \<noteq> []" by (metis group_on_entry(2) prod.collapse)
      with eg one
      show "(if gap_currency g = Some c then the (gap_amount g) else 0) = (\<Sum>l\<leftarrow>filter (\<lambda>l. sl_order l = fst e) lines. ?f l)"
        by blast
    qed
    then show ?thesis by (induction rule: list_all2_induct) simp_all
  qed
  also have "\<dots> = (\<Sum>k\<leftarrow>map fst (group_on sl_order lines). \<Sum>l\<leftarrow>filter (\<lambda>l. sl_order l = k) lines. ?f l)"
    by (simp add: comp_def)
  also have "\<dots> = (\<Sum>l\<leftarrow>lines. ?f l)"
    by (rule sum_list_partition [where key = sl_order])
      (use keys_group_on [of sl_order lines] in \<open>auto simp: distinct_group_on\<close>)
  finally show ?thesis .
qed

lemma header_split:
  assumes exact: "exact_lines lines" and settled: "settled_in c gaps =
    (\<Sum>l\<leftarrow>lines. if sole_currency (order_lines lines (sl_order l)) = Some c then sl_amount l else 0)"
  shows "header_amount lines c = Inr (settled_in c gaps + unsettled_in c lines)"
proof -
  note sum = exact_sum [OF exact_filter [OF exact, of "\<lambda>l. sl_currency l = c"]]
  have split: "(if sl_currency l = c then sl_amount l else 0) =
      (if sole_currency (order_lines lines (sl_order l)) = Some c then sl_amount l else 0) +
      (if sl_currency l = c \<and> several_currencies lines (sl_order l) then sl_amount l else 0)" if "l \<in> set lines" for l
  proof -
    let ?own = "order_lines lines (sl_order l)"
    have l: "l \<in> set ?own" "?own \<noteq> []" using own_lines [OF that] by auto
    note sole = sole_currency_iff [OF l(2)] and several = several_iff [OF l(2)]
    show ?thesis
    proof (cases "sole_currency ?own")
      case None
      with several show ?thesis by simp
    next
      case (Some d)
      then have "sl_currency l = d" using sole l(1) by blast
      with Some several show ?thesis by simp
    qed
  qed
  have "(\<Sum>l\<leftarrow>filter (\<lambda>l. sl_currency l = c) lines. sl_amount l) = (\<Sum>l\<leftarrow>lines. if sl_currency l = c then sl_amount l else 0)"
    by (simp add: sum_list_map_filter')
  also have "\<dots> = (\<Sum>l\<leftarrow>lines. (if sole_currency (order_lines lines (sl_order l)) = Some c then sl_amount l else 0) +
      (if sl_currency l = c \<and> several_currencies lines (sl_order l) then sl_amount l else 0))"
    by (intro arg_cong [where f = sum_list] map_cong refl split)
  also have "\<dots> = settled_in c gaps + unsettled_in c lines"
    by (simp add: sum_list_addf settled unsettled_in_def sum_list_map_filter')
  finally show ?thesis using sum by (simp add: header_amount_def)
qed

text \<open>C16: Reconciling a settlement of exact amounts (whole millionths, in all below ten to the 22), in any
  currencies, loses no line and no money: every line comes back once, in order, with its amount, its order
  and its status; there is one gap per platform order, and it says which order it is, its one currency if it
  has one, the exact sum of its lines, and what that differs from the order's total when the currencies
  agree; for each currency the header amount is what the gaps in that currency add up to plus the lines in
  it of orders with several currencies; and the rate is matched lines by all lines.\<close>

theorem reconcile_keeps_money:
  assumes rec: "reconcile lines orders = Inr (matched, gaps, rate)" and exact: "exact_lines lines"
  shows "list_all2 (line_kept orders) lines matched \<and>
    distinct (map gap_order gaps) \<and> set (map gap_order gaps) = sl_order ` set lines \<and>
    list_all (gap_right orders lines) gaps \<and>
    (\<forall>c. c \<noteq> [] \<longrightarrow> header_amount lines c = Inr (settled_in c gaps + unsettled_in c lines)) \<and>
    (if lines = [] then rate = 0
     else bindr (ddiv (of_nat (length (filter (\<lambda>m. ml_status m = MATCHED) matched))) (of_nat (length matched))) quantize = Inr rate)"
proof (intro conjI allI impI)
  have m: "mapr (match_line orders) lines = Inr matched" using rec by (auto simp: reconcile_def res_simps)
  show kept: "list_all2 (line_kept orders) lines matched" by (rule lines_kept [OF m exact])
  have "map gap_order gaps = map fst (group_on sl_order lines)" by (rule gaps_orders [OF reconcile_gaps [OF rec]])
  then show "distinct (map gap_order gaps)" "set (map gap_order gaps) = sl_order ` set lines"
    using keys_group_on [of sl_order lines] by (simp_all add: distinct_group_on)
  note gaps = gaps_right [OF rec exact]
  from list_all2_member [OF gaps] show "list_all (gap_right orders lines) gaps" by (auto simp: list_all_iff)
  fix c :: string
  assume "c \<noteq> []"
  from header_split [OF exact settled_part [OF gaps this]]
  show "header_amount lines c = Inr (settled_in c gaps + unsettled_in c lines)" .
next
  have m: "mapr (match_line orders) lines = Inr matched" using rec by (auto simp: reconcile_def res_simps)
  note kept = lines_kept [OF m exact]
  show "if lines = [] then rate = 0
     else bindr (ddiv (of_nat (length (filter (\<lambda>m. ml_status m = MATCHED) matched))) (of_nat (length matched))) quantize = Inr rate"
    using rec list_all2_lengthD [OF kept] matched_hits [OF kept] by (auto simp: reconcile_def res_simps)
qed

definition demo_settlement :: "settlement_line list" where
  "demo_settlement =
     [\<lparr>sl_order = ''A1'', sl_fee_type = ''sale'', sl_amount = 25/2, sl_currency = ''USD''\<rparr>,
      \<lparr>sl_order = ''B2'', sl_fee_type = ''sale'', sl_amount = 20, sl_currency = ''USD''\<rparr>,
      \<lparr>sl_order = ''A1'', sl_fee_type = ''fee'', sl_amount = - 3/2, sl_currency = ''USD''\<rparr>]"

definition demo_orders :: "string \<rightharpoonup> order_ref" where
  "demo_orders = [''A1'' \<mapsto> \<lparr>ref_order_id = 1, ref_total = 12, ref_currency = ''USD''\<rparr>]"

lemma demo_settlement_exact: "exact_lines demo_settlement"
proof -
  have "millionths (25/2)" "millionths 20" "millionths (- 3/2)"
    unfolding millionths_def by (rule exI [of _ 12500000], simp) (rule exI [of _ 20000000], simp,
        rule exI [of _ "-1500000"], simp)
  then show ?thesis by (simp add: exact_lines_def demo_settlement_def)
qed

lemma reconcile_keeps_money_witness:
  "\<exists>matched gaps rate. reconcile demo_settlement demo_orders = Inr (matched, gaps, rate) \<and>
     settled_in ''USD'' gaps + unsettled_in ''USD'' demo_settlement = 31 \<and> map ml_order matched = [''A1'', ''B2'', ''A1''] \<and>
     map gap_deviation gaps = [Some (- 1), None]"
proof -
  have g: "group_on sl_order demo_settlement =
      [(''A1'', [demo_settlement ! 0, demo_settlement ! 2]), (''B2'', [demo_settlement ! 1])]"
    by (simp add: group_on_def group_step_def dict_get_def demo_settlement_def)
  have q: "quantize (25/2) = Inr (25/2)" "quantize 20 = Inr 20" "quantize (- (3/2)) = Inr (- (3/2))"
      "quantize 12 = Inr 12" "quantize 11 = Inr 11" "quantize (- 1) = Inr (- 1)" "quantize 31 = Inr 31"
    "dsum [25/2, - (3/2)] = 11" "dsum [20] = 20" "dsub 11 12 = - 1" "dsum [25/2, 20, - (3/2)] = 31"
    by (simp_all add: dec_eval dsum_def)
  have r: "ddiv 2 3 = Inr (ctx (2/3))" by (simp add: ddiv_def)
  obtain rate where rate: "quantize (ctx (2/3)) = Inr rate"
  proof -
    have "\<bar>ctx (2/3)\<bar> < 10 ^ 22 - 1"
      using ctx_le [of "2/3"] ctx_nonneg [of "2/3"] by simp
    then show ?thesis using quantize_defined that by blast
  qed
  have hits: "hit_count demo_orders demo_settlement = 2" "length demo_settlement = 3" "demo_settlement \<noteq> []"
    by (simp_all add: hit_count_def demo_settlement_def demo_orders_def)
  obtain matched gaps where rec: "reconcile demo_settlement demo_orders = Inr (matched, gaps, rate)"
    and dev: "map gap_deviation gaps = [Some (- 1), None]"
  proof -
    have m: "mapr (match_line demo_orders) demo_settlement \<noteq> Inl e" for e
      by (simp add: demo_settlement_def match_line_def q)
    then obtain matched where "mapr (match_line demo_orders) demo_settlement = Inr matched"
      by (cases "mapr (match_line demo_orders) demo_settlement") auto
    moreover obtain gaps where "mapr (\<lambda>(pid, group). settle_gap pid group (demo_orders pid))
        (group_on sl_order demo_settlement) = Inr gaps" "map gap_deviation gaps = [Some (- 1), None]"
      unfolding g
      by (simp add: settle_gap_def settled_amount_def sole_currency_def uniq_def demo_settlement_def
          demo_orders_def q)
    ultimately show ?thesis using that by (simp add: reconcile_def hits r rate)
  qed
  have "header_amount demo_settlement ''USD'' = Inr 31"
    by (simp add: header_amount_def demo_settlement_def q)
  moreover note reconcile_keeps_money [OF rec demo_settlement_exact]
  moreover from this have "map ml_order matched = map sl_order demo_settlement"
    by (auto simp: list_all2_conv_all_nth line_kept_def intro: nth_equalityI)
  ultimately show ?thesis using rec dev by (auto simp: demo_settlement_def)
qed

end
