(* ===== verification/CustomerService.thy ===== *)
theory CustomerService imports PyTime Machines begin

text \<open>
  Customer service (\<open>engines/cs.py\<close>): the service level of a message, the deadline to answer it,
  reply templates, language codes, and the states of a ticket.  Statuses and actions enter as
  text, as in the code; the two regular expressions are written out as scanners.  White space is
  that of ASCII, and the texts of exceptions are left out.
\<close>

section \<open>Service levels\<close>

datatype sla = SLA_OK | SLA_WARN | SLA_OVERDUE

definition sla_level :: "datetime \<Rightarrow> datetime \<Rightarrow> int \<Rightarrow> sla res" where
  "sla_level deadline now warn =
     (if is_naive deadline \<or> is_naive now then Inl ValueError
      else if warn < 0 then Inl ValueError
      else if micros now \<ge> micros deadline then Inr SLA_OVERDUE
      else if micros deadline - micros now \<le> warn then Inr SLA_WARN
      else Inr SLA_OK)"

definition resolve_deadline :: "datetime \<Rightarrow> datetime option \<Rightarrow> int \<Rightarrow> datetime res" where
  "resolve_deadline received supplied reply_hours =
     (if is_naive received then Inl ValueError
      else (case supplied of
              Some d \<Rightarrow> if is_naive d then Inl ValueError else Inr d
            | None \<Rightarrow> if reply_hours \<le> 0 then Inl ValueError
                      else Inr (dt_add received (hours reply_hours))))"

section \<open>Templates\<close>

definition template_variables :: "string list" where
  "template_variables = [''order_no'', ''tracking_no'', ''buyer_name'']"

definition key_char :: "char \<Rightarrow> bool" where
  "key_char c \<longleftrightarrow> (let n = of_char c :: nat in 97 \<le> n \<and> n \<le> 122) \<or> c = CHR ''_''"

text \<open>
  The pattern of a token at the start of a text: two opening braces, white space, a key of at
  least one letter or underscore, white space, two closing braces.  Returns the matched text, the
  key, and the rest.  No backtracking is needed, as the three classes do not overlap.
\<close>

definition match_token :: "string \<Rightarrow> (string \<times> string \<times> string) option" where
  "match_token s =
     (if \<not> starts_with s ''{{'' then None
      else
        (let s1 = drop 2 s; s2 = dropWhile is_space s1; key = takeWhile key_char s2;
             s3 = dropWhile is_space (dropWhile key_char s2) in
         if key = [] \<or> \<not> starts_with s3 ''}}'' then None
         else (let rest = drop 2 s3 in Some (take (length s - length rest) s, key, rest))))"

lemma starts_with_length: "starts_with s p \<Longrightarrow> length p \<le> length s"
  by (auto simp: starts_with_iff)

lemma match_token_props:
  assumes "match_token s = Some (tok, key, rest)"
  shows "s = tok @ rest \<and> length rest + 4 < length s \<and> length key + length rest \<le> length s"
proof -
  define s2 where "s2 = dropWhile is_space (drop 2 s)"
  define s3 where "s3 = dropWhile is_space (dropWhile key_char s2)"
  from assms have st: "starts_with s ''{{''" "starts_with s3 ''}}''" and key: "key = takeWhile key_char s2" "key \<noteq> []"
    and r: "rest = drop 2 s3" "tok = take (length s - length rest) s"
    by (auto simp: match_token_def Let_def s2_def s3_def split: if_splits)
  from st(1) obtain u where u: "s = ''{{'' @ u" by (auto simp: starts_with_iff)
  then have "s2 = dropWhile is_space u" by (simp add: s2_def)
  then obtain w where w: "u = w @ s2" by (metis takeWhile_dropWhile_id)
  have "s2 = key @ dropWhile key_char s2" by (simp add: key(1))
  moreover obtain w' where "dropWhile key_char s2 = w' @ s3" by (metis s3_def takeWhile_dropWhile_id)
  moreover from st(2) r(1) have "s3 = ''}}'' @ rest" by (auto simp: starts_with_iff)
  ultimately have "s = ''{{'' @ w @ key @ w' @ ''}}'' @ rest" using u w by simp
  moreover define p where "p = ''{{'' @ w @ key @ w' @ ''}}''"
  ultimately have p: "s = p @ rest" "length p = 4 + length w + length key + length w'" by simp_all
  with r(2) key(2) show ?thesis by (cases key) auto
qed

lemma match_token_shorter: "match_token s = Some (tok, key, rest) \<Longrightarrow> length rest < length s"
  using match_token_props by fastforce

text \<open>
  \<open>_TOKEN.sub(replace, body)\<close> with the keys that have no value, in the order met: known keys are
  replaced by their stripped value, everything else stays.
\<close>

definition replacement :: "(string \<rightharpoonup> string) \<Rightarrow> string \<Rightarrow> string \<Rightarrow> string \<times> string list" where
  "replacement variables tok key =
     (if key \<notin> set template_variables then (tok, [])
      else (let value = strip (case variables key of None \<Rightarrow> [] | Some v \<Rightarrow> v) in
            if value = [] then (tok, [key]) else (value, [])))"

function render_loop :: "(string \<rightharpoonup> string) \<Rightarrow> string \<Rightarrow> string \<times> string list" where
  "render_loop variables s =
     (case match_token s of
        Some (tok, key, rest) \<Rightarrow>
          (let (out, missing) = replacement variables tok key; (text, more) = render_loop variables rest in
           (out @ text, missing @ more))
      | None \<Rightarrow>
          (case s of
             [] \<Rightarrow> ([], [])
           | c # r \<Rightarrow> (let (text, more) = render_loop variables r in (c # text, more))))"
  by pat_completeness auto
termination
  by (relation "measure (\<lambda>(variables, s). length s)") (auto dest: match_token_shorter)

declare render_loop.simps [simp del]

definition render_template :: "string \<Rightarrow> (string \<rightharpoonup> string) \<Rightarrow> string \<times> string list" where
  "render_template body variables =
     (let (text, missing) = render_loop variables body in (text, uniq missing))"

section \<open>Language codes\<close>

definition is_letter :: "char \<Rightarrow> bool" where
  "is_letter c = (let n = of_char c :: nat in 65 \<le> n \<and> n \<le> 90 \<or> 97 \<le> n \<and> n \<le> 122)"

text \<open>\<open>^[A-Za-z]{2,3}(-[A-Za-z0-9]{2,8})?$\<close> on a whole text.\<close>

definition lang_ok :: "string \<Rightarrow> bool" where
  "lang_ok s =
     (let head = takeWhile (\<lambda>c. c \<noteq> CHR ''-'') s; rest = dropWhile (\<lambda>c. c \<noteq> CHR ''-'') s in
      list_all is_letter head \<and> 2 \<le> length head \<and> length head \<le> 3 \<and>
      (case rest of
         [] \<Rightarrow> True
       | _ # sub \<Rightarrow> list_all (\<lambda>c. is_letter c \<or> is_digit c) sub \<and> 2 \<le> length sub \<and> length sub \<le> 8))"

definition clean_lang :: "string \<Rightarrow> string res" where
  "clean_lang value =
     (let cleaned = strip value in if lang_ok cleaned then Inr cleaned else Inl ValueError)"

section \<open>Tickets and messages\<close>

definition ticket_statuses :: "string list" where
  "ticket_statuses = [''OPEN'', ''ASSIGNED'', ''IN_PROGRESS'', ''CLOSED'']"

definition message_statuses :: "string list" where
  "message_statuses = [''UNREAD'', ''READ'']"

definition next_ticket_status :: "string \<Rightarrow> string \<Rightarrow> string res" where
  "next_ticket_status current action =
     (if current \<notin> set ticket_statuses then Inl ValueError
      else if current = ''CLOSED'' then Inl ValueError
      else if action = ''ASSIGN'' then Inr ''ASSIGNED''
      else if action = ''NOTE'' then
        (if current = ''OPEN'' \<or> current = ''ASSIGNED'' then Inr ''IN_PROGRESS'' else Inr current)
      else if action = ''CLOSE'' then Inr ''CLOSED''
      else Inl ValueError)"

definition mark_message_read :: "string \<Rightarrow> string res" where
  "mark_message_read current =
     (if current \<notin> set message_statuses then Inl ValueError else Inr ''READ'')"

definition ticket_step :: "string \<Rightarrow> string \<Rightarrow> string option" where
  "ticket_step current action =
     (case next_ticket_status current action of Inl _ \<Rightarrow> None | Inr s \<Rightarrow> Some s)"

text \<open>A ticket never goes back to open, and a closed one takes no further action.\<close>

definition ticket_rank :: "string \<Rightarrow> nat" where
  "ticket_rank s = (if s = ''CLOSED'' then 2 else if s = ''OPEN'' then 0 else 1)"

interpretation ticket_flow: monotone_machine ticket_step ticket_rank
  by unfold_locales
    (auto simp: ticket_step_def next_ticket_status_def ticket_rank_def ticket_statuses_def
      split: sum.splits if_splits)

interpretation ticket_known: invariant_machine ticket_step "\<lambda>s. s \<in> set ticket_statuses"
  by unfold_locales
    (auto simp: ticket_step_def next_ticket_status_def ticket_statuses_def split: sum.splits if_splits)

lemma closed_is_final: "run_machine ticket_step ''CLOSED'' actions = Some s \<Longrightarrow> actions = []"
  by (cases actions) (auto simp: ticket_step_def next_ticket_status_def ticket_statuses_def)

lemma closed_history:
  "run_machine ticket_step s (before @ [''CLOSE''] @ later) = Some t \<Longrightarrow> later = [] \<and> t = ''CLOSED''"
proof -
  assume r: "run_machine ticket_step s (before @ [''CLOSE''] @ later) = Some t"
  then obtain u where u: "run_machine ticket_step s before = Some u" "run_machine ticket_step u ([''CLOSE''] @ later) = Some t"
    unfolding run_machine_append by (auto split: option.splits)
  then obtain v where v: "ticket_step u ''CLOSE'' = Some v" "run_machine ticket_step v later = Some t"
    by (auto split: option.splits)
  then have "v = ''CLOSED''"
    by (auto simp: ticket_step_def next_ticket_status_def split: sum.splits if_splits)
  with v(2) closed_is_final show ?thesis by fastforce
qed

section \<open>Levels and deadlines\<close>

fun sla_rank :: "sla \<Rightarrow> nat" where
  "sla_rank SLA_OK = 0" | "sla_rank SLA_WARN = 1" | "sla_rank SLA_OVERDUE = 2"

text \<open>As time passes a level only rises, and it is overdue exactly from the deadline on.\<close>

lemma sla_level_monotone:
  assumes "sla_level deadline now warn = Inr a" and "sla_level deadline now' warn = Inr b"
    and "micros now \<le> micros now'"
  shows "sla_rank a \<le> sla_rank b"
  using assms by (auto simp: sla_level_def split: if_splits)

lemma resolve_deadline_aware:
  "resolve_deadline received supplied h = Inr d \<Longrightarrow> \<not> is_naive d \<and> (supplied = None \<longrightarrow> micros received < micros d)"
  by (auto simp: resolve_deadline_def hours_def split: option.splits if_splits)

section \<open>Rendering\<close>

text \<open>A text without an opening pair of braces is left alone.\<close>

lemma render_plain:
  "(\<And>u v. s \<noteq> u @ ''{{'' @ v) \<Longrightarrow> render_loop variables s = (s, [])"
proof (induction s)
  case Nil
  then show ?case by (simp add: render_loop.simps [of _ "[]"] match_token_def starts_with_def)
next
  case (Cons c s)
  have "\<not> starts_with (c # s) ''{{''" using Cons.prems [of "[]"] by (auto simp: starts_with_iff)
  then have m: "match_token (c # s) = None" by (simp add: match_token_def)
  have "s \<noteq> u @ ''{{'' @ v" for u v using Cons.prems [of "c # u" v] by simp
  then have "render_loop variables s = (s, [])" by (rule Cons.IH)
  then show ?case by (simp add: render_loop.simps [of variables "c # s"] m)
qed

text \<open>Nothing missing is reported but known variables without a value.\<close>

lemma render_missing:
  "k \<in> set (snd (render_loop variables s)) \<Longrightarrow>
     k \<in> set template_variables \<and> strip (case variables k of None \<Rightarrow> [] | Some v \<Rightarrow> v) = []"
proof (induction variables s rule: render_loop.induct)
  case (1 variables s)
  show ?case
  proof (cases "match_token s")
    case None
    show ?thesis
    proof (cases s)
      case Nil
      with 1(3) None show ?thesis by (simp add: render_loop.simps [of variables "[]"])
    next
      case (Cons c r)
      from 1(3) None have "k \<in> set (snd (render_loop variables r))"
        by (simp add: Cons render_loop.simps [of variables "c # r"] split: prod.splits)
      from 1(1) [OF None Cons this] show ?thesis .
    qed
  next
    case (Some m)
    obtain tok key rest where m: "m = (tok, key, rest)" by (metis prod_cases3)
    obtain out missing where rep: "replacement variables tok key = (out, missing)" by fastforce
    obtain out_rest extra where r: "render_loop variables rest = (out_rest, extra)" by fastforce
    from 1(3) Some m rep r have "k \<in> set missing \<or> k \<in> set extra"
      by (simp add: render_loop.simps [of variables s])
    then show ?thesis
    proof
      assume "k \<in> set missing"
      with rep show ?thesis by (auto simp: replacement_def Let_def split: if_splits)
    next
      assume "k \<in> set extra"
      with 1(2) [OF Some m [symmetric] refl rep [symmetric] refl] r show ?thesis by simp
    qed
  qed
qed

lemma render_template_missing:
  assumes "render_template body variables = (text, missing)" and "k \<in> set missing"
  shows "k \<in> set template_variables \<and> strip (case variables k of None \<Rightarrow> [] | Some v \<Rightarrow> v) = []"
  using assms render_missing [of k variables body] by (auto simp: render_template_def split: prod.splits)

end
