(* ===== verification/Compliance.thy ===== *)
theory Compliance imports Decimal PyTime Prelude begin

text \<open>
  Compliance of listings (\<open>engines/compliance.py\<close> over \<open>services/compliance_windows.py\<close>):
  reminder windows of tax rates and certificates, overlap of validity ranges, the conversion of
  percentages, what blocks the publication of one item, and the check-up of the catalogue.  Dates
  are ordinals; a set of texts is a list whose order and duplicates do not matter (the code sorts
  it before it iterates); a formatted fraction is the number it prints.
\<close>

section \<open>Windows\<close>

definition tax_lead_days :: int where "tax_lead_days = 7"
definition cert_soon_days :: int where "cert_soon_days = 7"
definition cert_mid_days :: int where "cert_mid_days = 30"
definition cert_far_days :: int where "cert_far_days = 60"

definition percent_to_fraction :: "dec \<Rightarrow> dec res" where
  "percent_to_fraction percent =
     (if percent < 0 then Inl (AppError ''ParamInvalidError'')
      else bindr (ddiv percent 100) (\<lambda>x. bindr (quantize x) (\<lambda>fraction.
        if fraction > 10 then Inl (AppError ''ParamInvalidError'') else Inr fraction)))"

definition format_fraction :: "dec \<Rightarrow> dec res" where
  "format_fraction value = quantize value"

definition fraction_to_percent :: "dec \<Rightarrow> dec res" where
  "fraction_to_percent value = quantize (dmul value 100)"

definition ranges_overlap :: "date \<Rightarrow> date option \<Rightarrow> date \<Rightarrow> date option \<Rightarrow> bool" where
  "ranges_overlap start_a end_a start_b end_b \<longleftrightarrow>
     (case end_b of None \<Rightarrow> True | Some e \<Rightarrow> start_a < e) \<and>
     (case end_a of None \<Rightarrow> True | Some e \<Rightarrow> start_b < e)"

definition tax_window :: "date \<Rightarrow> date \<Rightarrow> string option" where
  "tax_window effective_from today =
     (let days = effective_from - today in
      if 0 \<le> days \<and> days \<le> tax_lead_days then Some ''D7'' else None)"

definition cert_window :: "date \<Rightarrow> date \<Rightarrow> string option" where
  "cert_window expires_on today =
     (let days = expires_on - today in
      if days < 0 then Some ''EXPIRED''
      else if days \<le> cert_soon_days then Some ''D7''
      else if days \<le> cert_mid_days then Some ''D30''
      else if days \<le> cert_far_days then Some ''D60''
      else None)"

definition tax_horizon :: "date \<Rightarrow> date res" where
  "tax_horizon today = date_add today tax_lead_days"

definition cert_horizon :: "date \<Rightarrow> date res" where
  "cert_horizon today = date_add today cert_far_days"

definition in_order :: "string list \<Rightarrow> string list" where
  "in_order xs = sort (uniq xs)"

datatype gap_reason = GAP_MISSING | GAP_EXPIRED

definition cert_gaps :: "string list \<Rightarrow> (string \<rightharpoonup> date) \<Rightarrow> date \<Rightarrow> (string \<times> gap_reason) list" where
  "cert_gaps required held_until today =
     List.map_filter
       (\<lambda>cert_type. case held_until cert_type of
          None \<Rightarrow> Some (cert_type, GAP_MISSING)
        | Some expires_on \<Rightarrow> if expires_on < today then Some (cert_type, GAP_EXPIRED) else None)
       (in_order required)"

section \<open>Findings\<close>

datatype level = LEVEL_L1 | LEVEL_L2
datatype finding_code = HS_MISSING | CERT_MISSING | CERT_EXPIRED | CERT_EXPIRING

record publish_finding =
  pf_level :: level
  pf_code :: finding_code
  pf_market :: "string option"
  pf_cert_type :: "string option"
  pf_days_left :: "int option"
  pf_spu :: "int option"
  pf_sku :: "int option"

record spu_fact =
  spu_id :: int
  category_code :: "string option"
  hs_markets :: "string list"

record sku_fact =
  sku_id :: int
  sku_spu_id :: int

record cert_fact =
  cert_sku_id :: int
  cert_market :: string
  cert_kind :: string
  expires_on :: date

record rule_fact =
  rule_market :: string
  rule_category :: string
  rule_cert :: string

definition warn_windows :: "string list" where
  "warn_windows = [''D7'', ''D30'', ''D60'']"

definition warns :: "string option \<Rightarrow> bool" where
  "warns window = (case window of None \<Rightarrow> False | Some w \<Rightarrow> w \<in> set warn_windows)"

definition gap_finding :: "string \<Rightarrow> int option \<Rightarrow> int option \<Rightarrow> string \<times> gap_reason \<Rightarrow> publish_finding" where
  "gap_finding market spu sku gap =
     \<lparr>pf_level = LEVEL_L1, pf_code = (if snd gap = GAP_EXPIRED then CERT_EXPIRED else CERT_MISSING),
      pf_market = Some market, pf_cert_type = Some (fst gap), pf_days_left = None,
      pf_spu = spu, pf_sku = sku\<rparr>"

definition expiring_finding :: "string \<Rightarrow> int option \<Rightarrow> int option \<Rightarrow> string \<Rightarrow> int \<Rightarrow> publish_finding" where
  "expiring_finding market spu sku cert_type days =
     \<lparr>pf_level = LEVEL_L2, pf_code = CERT_EXPIRING, pf_market = Some market,
      pf_cert_type = Some cert_type, pf_days_left = Some days, pf_spu = spu, pf_sku = sku\<rparr>"

definition cert_findings ::
  "string \<Rightarrow> string list \<Rightarrow> (string \<rightharpoonup> date) \<Rightarrow> date \<Rightarrow> int option \<Rightarrow> int option \<Rightarrow> publish_finding list" where
  "cert_findings market required held_until today spu sku =
     map (gap_finding market spu sku) (cert_gaps required held_until today)
     @ List.map_filter
         (\<lambda>cert_type. case held_until cert_type of
            None \<Rightarrow> None
          | Some e \<Rightarrow>
              if warns (cert_window e today) \<and> e - today \<le> cert_far_days
              then Some (expiring_finding market spu sku cert_type (e - today)) else None)
         (in_order required)"

definition hs_finding :: "string option \<Rightarrow> int option \<Rightarrow> publish_finding" where
  "hs_finding market spu =
     \<lparr>pf_level = LEVEL_L1, pf_code = HS_MISSING, pf_market = market, pf_cert_type = None,
      pf_days_left = None, pf_spu = spu, pf_sku = None\<rparr>"

definition publish_findings ::
  "string \<Rightarrow> bool \<Rightarrow> string list \<Rightarrow> (string \<rightharpoonup> date) \<Rightarrow> date \<Rightarrow> publish_finding list" where
  "publish_findings market hs_bound required held_until today =
     (if hs_bound then [] else [hs_finding (Some market) None])
     @ cert_findings market required held_until today None None"

text \<open>The latest certificate per item, market and kind, in the order of first appearance.\<close>

type_synonym held_certs = "((int \<times> string \<times> string) \<times> date) list"

definition latest_step :: "held_certs \<Rightarrow> cert_fact \<Rightarrow> held_certs" where
  "latest_step held cert =
     (let key = (cert_sku_id cert, cert_market cert, cert_kind cert) in
      case map_of held key of
        None \<Rightarrow> dict_put key (expires_on cert) held
      | Some current \<Rightarrow> if expires_on cert > current then dict_put key (expires_on cert) held else held)"

definition latest_certs :: "cert_fact list \<Rightarrow> held_certs" where
  "latest_certs certs = foldl latest_step [] certs"

definition required_for :: "rule_fact list \<Rightarrow> string \<Rightarrow> string \<Rightarrow> string list" where
  "required_for rules market category =
     map rule_cert (filter (\<lambda>r. rule_market r = market \<and> rule_category r = category) rules)"

definition category_markets :: "rule_fact list \<Rightarrow> string \<Rightarrow> string list" where
  "category_markets rules category =
     in_order (map rule_market (filter (\<lambda>r. rule_category r = category) rules))"

definition sku_findings ::
  "rule_fact list \<Rightarrow> held_certs \<Rightarrow> date \<Rightarrow> spu_fact \<Rightarrow> string \<Rightarrow> sku_fact \<Rightarrow> publish_finding list" where
  "sku_findings rules held today spu category sku =
     concat (map (\<lambda>market.
       cert_findings market (required_for rules market category)
         (\<lambda>cert_type. map_of held (sku_id sku, market, cert_type)) today
         (Some (spu_id spu)) (Some (sku_id sku)))
       (category_markets rules category))"

definition spu_findings ::
  "sku_fact list \<Rightarrow> rule_fact list \<Rightarrow> held_certs \<Rightarrow> date \<Rightarrow> spu_fact \<Rightarrow> publish_finding list" where
  "spu_findings skus rules held today spu =
     (if hs_markets spu = [] then [hs_finding None (Some (spu_id spu))] else [])
     @ (case category_code spu of
          None \<Rightarrow> []
        | Some category \<Rightarrow>
            if category = [] then []
            else concat (map (sku_findings rules held today spu category)
                   (filter (\<lambda>s. sku_spu_id s = spu_id spu) skus)))"

definition covers :: "publish_finding list \<Rightarrow> int \<times> string \<times> string \<Rightarrow> finding_code \<Rightarrow> bool" where
  "covers findings key code \<longleftrightarrow>
     (case key of (sku, market, cert_type) \<Rightarrow>
        list_ex (\<lambda>f. pf_sku f = Some sku \<and> pf_market f = Some market \<and>
          pf_cert_type f = Some cert_type \<and> pf_code f = code) findings)"

definition held_finding ::
  "(int \<rightharpoonup> int) \<Rightarrow> publish_finding list \<Rightarrow> date \<Rightarrow> (int \<times> string \<times> string) \<times> date \<Rightarrow> publish_finding option" where
  "held_finding sku_spu found today entry =
     (case entry of ((sku, market, cert_type), e) \<Rightarrow>
        case sku_spu sku of
          None \<Rightarrow> None
        | Some spu \<Rightarrow>
            (let window = cert_window e today in
             if window = Some ''EXPIRED'' then
               (if covers found (sku, market, cert_type) CERT_EXPIRED then None
                else Some (gap_finding market (Some spu) (Some sku) (cert_type, GAP_EXPIRED)))
             else if warns window then
               (if covers found (sku, market, cert_type) CERT_EXPIRING then None
                else Some (expiring_finding market (Some spu) (Some sku) cert_type (e - today)))
             else None))"

definition catalog_findings ::
  "spu_fact list \<Rightarrow> sku_fact list \<Rightarrow> cert_fact list \<Rightarrow> rule_fact list \<Rightarrow> date \<Rightarrow> publish_finding list" where
  "catalog_findings spus skus certs rules today =
     (let held = latest_certs certs;
          sku_spu = map_of (rev (map (\<lambda>s. (sku_id s, sku_spu_id s)) skus));
          found = concat (map (spu_findings skus rules held today) spus) in
      found @ List.map_filter (held_finding sku_spu found today) held)"

section \<open>Windows: facts\<close>

lemma overlap_iff:
  assumes "case end_a of None \<Rightarrow> True | Some e \<Rightarrow> start_a < e"
    and "case end_b of None \<Rightarrow> True | Some e \<Rightarrow> start_b < e"
  shows "ranges_overlap start_a end_a start_b end_b \<longleftrightarrow>
    (\<exists>d. start_a \<le> d \<and> (case end_a of None \<Rightarrow> True | Some e \<Rightarrow> d < e) \<and>
         start_b \<le> d \<and> (case end_b of None \<Rightarrow> True | Some e \<Rightarrow> d < e))"
  (is "_ \<longleftrightarrow> (\<exists>d. ?both d)")
proof
  assume "ranges_overlap start_a end_a start_b end_b"
  then have "?both (max start_a start_b)"
    using assms by (auto simp: ranges_overlap_def split: option.splits)
  then show "\<exists>d. ?both d" ..
qed (auto simp: ranges_overlap_def split: option.splits)

lemma cert_window_cases:
  "cert_window e today = Some ''EXPIRED'' \<longleftrightarrow> e < today"
  "warns (cert_window e today) \<longleftrightarrow> today \<le> e \<and> e \<le> today + 60"
  by (auto simp: cert_window_def warns_def warn_windows_def Let_def cert_soon_days_def
      cert_mid_days_def cert_far_days_def)

lemma set_in_order [simp]: "set (in_order xs) = set xs"
  by (simp add: in_order_def)

lemma percent_range:
  assumes "percent_to_fraction p = Inr f"
  shows "0 \<le> f \<and> f \<le> 10 \<and> micro f"
proof -
  have p: "0 \<le> p" and q: "quantize (ctx (p / 100)) = Inr f" and le: "f \<le> 10"
    using assms by (auto simp: percent_to_fraction_def ddiv_def res_simps split: if_splits)
  have "0 \<le> ctx (p / 100)" using p by (simp add: ctx_nonneg)
  from quantize_nonneg [OF q this] show ?thesis using le quantize_micro [OF q] by simp
qed

section \<open>What blocks a publication\<close>

lemma set_map_filter: "set (List.map_filter f xs) = {y. \<exists>x\<in>set xs. f x = Some y}"
  by (induction xs) (auto simp: List.map_filter_simps split: option.splits)

lemma gaps_iff:
  "(t, r) \<in> set (cert_gaps required held today) \<longleftrightarrow>
     t \<in> set required \<and> (case held t of None \<Rightarrow> r = GAP_MISSING | Some e \<Rightarrow> e < today \<and> r = GAP_EXPIRED)"
proof -
  have "(case held x of None \<Rightarrow> Some (x, GAP_MISSING)
        | Some e \<Rightarrow> if e < today then Some (x, GAP_EXPIRED) else None) = Some (t, r) \<longleftrightarrow>
      x = t \<and> (case held t of None \<Rightarrow> r = GAP_MISSING | Some e \<Rightarrow> e < today \<and> r = GAP_EXPIRED)" for x
    by (cases "held x") auto
  then show ?thesis unfolding cert_gaps_def set_map_filter set_in_order mem_Collect_eq by simp
qed

lemma gap_ex:
  "(\<exists>t r. (t, r) \<in> set (cert_gaps required held today)) \<longleftrightarrow>
     (\<exists>t\<in>set required. case held t of None \<Rightarrow> True | Some e \<Rightarrow> e < today)"
proof -
  have "(\<exists>r. (t, r) \<in> set (cert_gaps required held today)) \<longleftrightarrow>
      t \<in> set required \<and> (case held t of None \<Rightarrow> True | Some e \<Rightarrow> e < today)" for t
    unfolding gaps_iff by (cases "held t") simp_all
  then show ?thesis by blast
qed

lemma publish_level:
  assumes "f \<in> set (cert_findings market required held today spu sku)" and "pf_level f = LEVEL_L1"
  shows "f \<in> gap_finding market spu sku ` set (cert_gaps required held today)"
proof (rule ccontr)
  assume "\<not> ?thesis"
  with assms(1) obtain t where "(case held t of None \<Rightarrow> None
      | Some e \<Rightarrow> if warns (cert_window e today) \<and> e - today \<le> cert_far_days
          then Some (expiring_finding market spu sku t (e - today)) else None) = Some f"
    unfolding cert_findings_def set_append Un_iff set_map_filter list.set_map by blast
  then obtain d where "f = expiring_finding market spu sku t d"
    by (cases "held t") (auto split: if_splits)
  with assms(2) show False by (simp add: expiring_finding_def)
qed

text \<open>
  A publication is blocked exactly when the customs code is not bound or a required certificate
  is missing or expired; a certificate that is valid for at most 60 more days only warns.
\<close>

theorem publish_blocked_iff:
  "(\<exists>f\<in>set (publish_findings market hs_bound required held today). pf_level f = LEVEL_L1) \<longleftrightarrow>
     \<not> hs_bound \<or> (\<exists>t\<in>set required. case held t of None \<Rightarrow> True | Some e \<Rightarrow> e < today)"
proof -
  let ?cert = "cert_findings market required held today None None"
  have "(\<exists>f\<in>set ?cert. pf_level f = LEVEL_L1) \<longleftrightarrow> (\<exists>t r. (t, r) \<in> set (cert_gaps required held today))"
    (is "?l \<longleftrightarrow> ?r")
  proof
    show "?l \<Longrightarrow> ?r" using publish_level by fast
    assume ?r
    then obtain t r where "gap_finding market None None (t, r) \<in> set ?cert"
      by (auto simp: cert_findings_def)
    then show ?l by (rule rev_bexI) (simp add: gap_finding_def)
  qed
  also note gap_ex
  finally show ?thesis by (auto simp: publish_findings_def hs_finding_def)
qed

section \<open>The latest certificates\<close>

lemma latest_step_map:
  "map_of (latest_step held cert) key =
     (if key = (cert_sku_id cert, cert_market cert, cert_kind cert)
      then Some (case map_of held key of None \<Rightarrow> expires_on cert | Some d \<Rightarrow> max d (expires_on cert))
      else map_of held key)"
  by (auto simp: latest_step_def Let_def max_def split: option.splits)

lemma latest_step_distinct: "distinct (map fst held) \<Longrightarrow> distinct (map fst (latest_step held cert))"
  by (auto simp: latest_step_def Let_def distinct_dict_put split: option.splits)

lemma latest_certs_distinct: "distinct (map fst (latest_certs certs))"
proof -
  have "distinct (map fst (foldl latest_step held certs))" if "distinct (map fst held)" for held
    using that by (induction certs arbitrary: held) (auto simp: latest_step_distinct)
  then show ?thesis by (simp add: latest_certs_def)
qed

text \<open>A certificate is held at the latest date of its key.\<close>

lemma latest_certs_snoc: "latest_certs (certs @ [c]) = latest_step (latest_certs certs) c"
  by (simp add: latest_certs_def)

lemma latest_certs_none:
  "map_of (latest_certs certs) key = None \<longleftrightarrow>
     (\<forall>c\<in>set certs. key \<noteq> (cert_sku_id c, cert_market c, cert_kind c))"
proof (induction certs rule: rev_induct)
  case Nil
  show ?case by (simp add: latest_certs_def)
next
  case (snoc c certs)
  then show ?case unfolding latest_certs_snoc latest_step_map by auto
qed

lemma latest_certs_max:
  "map_of (latest_certs certs) key = Some d \<Longrightarrow>
     (\<exists>c\<in>set certs. key = (cert_sku_id c, cert_market c, cert_kind c) \<and> expires_on c = d) \<and>
     (\<forall>c\<in>set certs. key = (cert_sku_id c, cert_market c, cert_kind c) \<longrightarrow> expires_on c \<le> d)"
proof (induction certs arbitrary: d rule: rev_induct)
  case Nil
  then show ?case by (simp add: latest_certs_def)
next
  case (snoc c certs)
  show ?case
  proof (cases "map_of (latest_certs certs) key")
    case None
    with snoc.prems have "key = (cert_sku_id c, cert_market c, cert_kind c)" "expires_on c = d"
      by (auto simp: latest_certs_snoc latest_step_map split: if_splits)
    then show ?thesis using None unfolding latest_certs_none by auto
  next
    case (Some d0)
    from snoc.IH [OF this] snoc.prems Some show ?thesis
      by (auto simp: latest_certs_snoc latest_step_map max_def split: if_splits)
  qed
qed

text \<open>Every held certificate of a known item that has expired appears in the check-up.\<close>

theorem catalog_lists_expired:
  assumes "((sku, market, cert_type), e) \<in> set (latest_certs certs)" and "e < today"
    and "sku \<in> sku_id ` set skus"
  shows "\<exists>f\<in>set (catalog_findings spus skus certs rules today).
    pf_code f = CERT_EXPIRED \<and> pf_sku f = Some sku \<and> pf_market f = Some market \<and>
    pf_cert_type f = Some cert_type"
proof -
  let ?held = "latest_certs certs"
  let ?map = "map_of (rev (map (\<lambda>s. (sku_id s, sku_spu_id s)) skus))"
  let ?found = "concat (map (spu_findings skus rules ?held today) spus)"
  have "sku \<in> fst ` set (rev (map (\<lambda>s. (sku_id s, sku_spu_id s)) skus))"
    using assms(3) by force
  then have "?map sku \<noteq> None" unfolding map_of_eq_None_iff by simp
  then obtain spu where spu: "?map sku = Some spu" by blast
  show ?thesis
  proof (cases "covers ?found (sku, market, cert_type) CERT_EXPIRED")
    case True
    then have "\<exists>f\<in>set ?found. pf_code f = CERT_EXPIRED \<and> pf_sku f = Some sku \<and> pf_market f = Some market \<and>
        pf_cert_type f = Some cert_type"
      unfolding covers_def prod.case list_ex_iff by fast
    then show ?thesis unfolding catalog_findings_def Let_def set_append by blast
  next
    case False
    let ?f = "gap_finding market (Some spu) (Some sku) (cert_type, GAP_EXPIRED)"
    have "held_finding ?map ?found today ((sku, market, cert_type), e) = Some ?f"
      using False spu assms(2) cert_window_cases(1) [of e today] by (simp add: held_finding_def Let_def)
    then have "?f \<in> set (catalog_findings spus skus certs rules today)"
      using assms(1) by (auto simp: catalog_findings_def Let_def set_map_filter)
    then show ?thesis by (rule rev_bexI) (simp add: gap_finding_def)
  qed
qed

end
