(* ===== verification/StockBook.thy ===== *)
theory StockBook imports Stock Machines begin

text \<open>
  The stock books of \<^verbatim>\<open>app/services/inventory.py\<close> over \<^verbatim>\<open>app/repositories/inventory.py\<close> and the
  tables of \<^verbatim>\<open>app/models/inventory.py\<close>: rows, the guarded update with its version check, the loop
  that retries it, the draw over several warehouses, and the journal.

  The state is the tables of one tenant.  Columns that no decision reads (audit columns, creation
  times) are left out.  \<open>rivals\<close> are the writes that other transactions commit while a request
  runs: before each guarded update of the request the next batch lands, so the interleaving is
  explicit.  A stale read of the session is the same thing seen later, as the version of the row
  then differs.  Rivals go through the same guarded update, as every write of a balance does.
\<close>

section \<open>Rows\<close>

record warehouse =
  wh_id :: int
  wh_name :: string
  wh_type :: string
  wh_country :: string
  wh_address :: string
  wh_code :: "string option"
  wh_default :: bool
  wh_deleted :: bool

record balance =
  bal_id :: int
  bal_sku :: int
  bal_warehouse :: int
  bal_available :: int
  bal_occupied :: int
  bal_in_transit :: int
  bal_defective :: int
  bal_safe_stock :: int
  bal_version :: int

record stock_flow =
  flow_balance :: int
  flow_sku :: int
  flow_warehouse :: int
  flow_kind :: string
  flow_quantity :: int
  flow_ref_type :: string
  flow_ref :: "int option"
  flow_before :: int
  flow_after :: int

record hold =
  hold_order :: int
  hold_item :: int
  hold_sku :: int
  hold_quantity :: int
  hold_short :: int
  hold_allocs :: "allocation list"
  hold_status :: string

record order_item =
  oi_id :: int
  oi_order :: int
  oi_sku :: "int option"
  oi_quantity :: int

record transfer =
  tr_id :: int
  tr_from :: int
  tr_to :: int
  tr_status :: string
  tr_lines :: "(int \<times> int) list"

record taking_line =
  tl_sku :: int
  tl_book :: int
  tl_counted :: "int option"

record taking =
  tk_id :: int
  tk_warehouse :: int
  tk_status :: string
  tk_lines :: "taking_line list"
  tk_summary :: "(string \<times> int) list"

record change =
  d_available :: int
  d_occupied :: int
  d_defective :: int
  d_in_transit :: int

record stock_db =
  skus :: "int list"
  warehouses :: "warehouse list"
  balances :: "balance list"
  flows :: "stock_flow list"
  holds :: "hold list"
  order_items :: "order_item list"
  transfers :: "transfer list"
  takings :: "taking list"
  next_id :: int
  rivals :: "(int \<times> change) list list"

definition no_change :: change where
  "no_change = \<lparr>d_available = 0, d_occupied = 0, d_defective = 0, d_in_transit = 0\<rparr>"

text \<open>The four quantities of a balance, and the attribute of a name.\<close>

datatype bucket = Available | Occupied | In_transit | Defective

fun qty :: "bucket \<Rightarrow> balance \<Rightarrow> int" where
  "qty Available b = bal_available b"
| "qty Occupied b = bal_occupied b"
| "qty In_transit b = bal_in_transit b"
| "qty Defective b = bal_defective b"

fun delta :: "bucket \<Rightarrow> change \<Rightarrow> int" where
  "delta Available c = d_available c"
| "delta Occupied c = d_occupied c"
| "delta In_transit c = d_in_transit c"
| "delta Defective c = d_defective c"

section \<open>The guarded update\<close>

definition find_balance :: "int \<Rightarrow> stock_db \<Rightarrow> balance option" where
  "find_balance ident db = find (\<lambda>b. bal_id b = ident) (balances db)"

definition change_fits :: "change \<Rightarrow> balance \<Rightarrow> bool" where
  "change_fits c b \<longleftrightarrow>
     0 \<le> bal_available b + d_available c \<and> 0 \<le> bal_occupied b + d_occupied c \<and>
     0 \<le> bal_defective b + d_defective c \<and> 0 \<le> bal_in_transit b + d_in_transit c \<and>
     bal_occupied b + d_occupied c \<le> bal_available b + d_available c"

definition changed :: "change \<Rightarrow> balance \<Rightarrow> balance" where
  "changed c b =
     b\<lparr>bal_available := bal_available b + d_available c, bal_occupied := bal_occupied b + d_occupied c,
       bal_defective := bal_defective b + d_defective c,
       bal_in_transit := bal_in_transit b + d_in_transit c, bal_version := bal_version b + 1\<rparr>"

definition put_balance :: "balance \<Rightarrow> stock_db \<Rightarrow> stock_db" where
  "put_balance b db = db\<lparr>balances := map (\<lambda>x. if bal_id x = bal_id b then b else x) (balances db)\<rparr>"

datatype apply_outcome = ST_applied | ST_conflict | ST_insufficient | ST_missing

definition apply_change :: "int \<Rightarrow> int \<Rightarrow> change \<Rightarrow> stock_db \<Rightarrow> apply_outcome \<times> stock_db" where
  "apply_change ident seen c db =
     (case find_balance ident db of
        None \<Rightarrow> (ST_missing, db)
      | Some b \<Rightarrow>
          if bal_version b = seen \<and> change_fits c b then (ST_applied, put_balance (changed c b) db)
          else if bal_version b \<noteq> seen then (ST_conflict, db)
          else (ST_insufficient, db))"

text \<open>A write of another transaction, at the version it finds; and the batch that lands next.\<close>

definition rival_write :: "stock_db \<Rightarrow> int \<times> change \<Rightarrow> stock_db" where
  "rival_write db w =
     (case find_balance (fst w) db of
        None \<Rightarrow> db
      | Some b \<Rightarrow> snd (apply_change (fst w) (bal_version b) (snd w) db))"

definition let_in :: "stock_db \<Rightarrow> stock_db" where
  "let_in db =
     (case rivals db of [] \<Rightarrow> db | batch # later \<Rightarrow> foldl rival_write (db\<lparr>rivals := later\<rparr>) batch)"

definition apply_once ::
  "balance \<Rightarrow> change \<Rightarrow> stock_db \<Rightarrow> apply_outcome \<times> balance option \<times> stock_db" where
  "apply_once row c db =
     (let (status, db) = apply_change (bal_id row) (bal_version row) c (let_in db) in
      (status,
       if status = ST_applied \<or> status = ST_conflict then find_balance (bal_id row) db else None,
       db))"

section \<open>Committing one change\<close>

definition append_flow ::
  "balance \<Rightarrow> string \<Rightarrow> int \<Rightarrow> int \<Rightarrow> int \<Rightarrow> string \<Rightarrow> int option \<Rightarrow> stock_db \<Rightarrow> stock_db" where
  "append_flow row kind quantity before_qty after_qty ref_type ref db =
     db\<lparr>flows := flows db @
       [\<lparr>flow_balance = bal_id row, flow_sku = bal_sku row, flow_warehouse = bal_warehouse row,
         flow_kind = kind, flow_quantity = quantity, flow_ref_type = ref_type, flow_ref = ref,
         flow_before = before_qty, flow_after = after_qty\<rparr>]\<rparr>"

record movement =
  mv_kind :: string
  mv_quantity :: int
  mv_bucket :: bucket
  mv_ref_type :: string
  mv_ref :: "int option"
  mv_change :: change

definition version_retries :: nat where "version_retries = 5"

fun commit_loop :: "nat \<Rightarrow> balance \<Rightarrow> movement \<Rightarrow> stock_db \<Rightarrow> (balance \<times> stock_db) res" where
  "commit_loop 0 current m db = Inl (AppError ''InventoryConflictError'')"
| "commit_loop (Suc n) current m db =
     (let before_qty = qty (mv_bucket m) current in
      case apply_once current (mv_change m) db of
        (status, fresh, db) \<Rightarrow>
          (case (status, fresh) of
             (ST_applied, Some row) \<Rightarrow>
               Inr (row, append_flow row (mv_kind m) (mv_quantity m) before_qty (qty (mv_bucket m) row)
                           (mv_ref_type m) (mv_ref m) db)
           | (ST_conflict, Some row) \<Rightarrow> commit_loop n row m db
           | (ST_insufficient, _) \<Rightarrow> Inl (AppError ''InventoryInsufficientError'')
           | _ \<Rightarrow> Inl (AppError ''NotFoundError'')))"

definition commit_change :: "balance \<Rightarrow> movement \<Rightarrow> stock_db \<Rightarrow> (balance \<times> stock_db) res" where
  "commit_change row m db = commit_loop version_retries row m db"

text \<open>The balance of an item in a warehouse; a missing one is created empty.\<close>

definition get_pair :: "int \<Rightarrow> int \<Rightarrow> stock_db \<Rightarrow> balance option" where
  "get_pair sku wh db = find (\<lambda>b. bal_sku b = sku \<and> bal_warehouse b = wh) (balances db)"

definition get_warehouse :: "int \<Rightarrow> stock_db \<Rightarrow> warehouse option" where
  "get_warehouse ident db = find (\<lambda>w. wh_id w = ident \<and> \<not> wh_deleted w) (warehouses db)"

definition default_safe_stock :: int where "default_safe_stock = 2"

definition new_balance :: "int \<Rightarrow> int \<Rightarrow> int \<Rightarrow> balance" where
  "new_balance ident sku wh =
     \<lparr>bal_id = ident, bal_sku = sku, bal_warehouse = wh, bal_available = 0, bal_occupied = 0,
      bal_in_transit = 0, bal_defective = 0, bal_safe_stock = default_safe_stock, bal_version = 0\<rparr>"

definition ensure :: "int \<Rightarrow> int \<Rightarrow> stock_db \<Rightarrow> (balance \<times> stock_db) res" where
  "ensure sku wh db =
     (if sku \<notin> set (skus db) then Inl (AppError ''NotFoundError'')
      else if get_warehouse wh db = None then Inl (AppError ''NotFoundError'')
      else case get_pair sku wh db of
        Some found \<Rightarrow> Inr (found, db)
      | None \<Rightarrow>
          let row = new_balance (next_id db) sku wh in
          Inr (row, db\<lparr>balances := balances db @ [row], next_id := next_id db + 1\<rparr>))"

section \<open>Drawing from several warehouses\<close>

datatype draw_mode = Reserve | Outbound

definition list_for_sku :: "int \<Rightarrow> stock_db \<Rightarrow> (balance \<times> warehouse) list" where
  "list_for_sku sku db =
     concat (map (\<lambda>w. map (\<lambda>b. (b, w)) (filter (\<lambda>b. bal_sku b = sku \<and> bal_warehouse b = wh_id w) (balances db)))
       (sort_key (\<lambda>w. (if wh_default w then 0 else 1 :: int, wh_id w))
         (filter (\<lambda>w. \<not> wh_deleted w) (warehouses db))))"

definition bin_of :: "balance \<times> warehouse \<Rightarrow> bin_view" where
  "bin_of p =
     \<lparr>bin_warehouse = bal_warehouse (fst p), bin_available = bal_available (fst p),
      bin_occupied = bal_occupied (fst p), bin_default = wh_default (snd p), bin_type = wh_type (snd p)\<rparr>"

fun draw_change :: "draw_mode \<Rightarrow> int \<Rightarrow> change" where
  "draw_change Reserve n = no_change\<lparr>d_occupied := n\<rparr>"
| "draw_change Outbound n = no_change\<lparr>d_available := - n\<rparr>"

fun draw_bucket :: "draw_mode \<Rightarrow> bucket" where
  "draw_bucket Reserve = Occupied"
| "draw_bucket Outbound = Available"

fun draw_kind :: "draw_mode \<Rightarrow> string" where
  "draw_kind Reserve = ''RESERVE''"
| "draw_kind Outbound = ''SHIP''"

text \<open>
  The planned pieces one after the other, until a guarded update is refused.  The row of a piece is
  an object of the session, and the successful update refreshes that object before the journal
  row is written; so both quantities of the journal row are read from the refreshed object.
\<close>

fun take_planned ::
  "draw_mode \<Rightarrow> string \<Rightarrow> int option \<Rightarrow> (balance \<times> warehouse) list \<Rightarrow> allocation list \<Rightarrow> stock_db
     \<Rightarrow> (allocation list \<times> bool \<times> stock_db) res" where
  "take_planned mode ref_type ref pairs [] db = Inr ([], False, db)"
| "take_planned mode ref_type ref pairs (a # planned) db =
     (case find (\<lambda>p. bal_warehouse (fst p) = alloc_warehouse a) pairs of
        None \<Rightarrow> Inl StopIteration
      | Some p \<Rightarrow>
          (case apply_once (fst p) (draw_change mode (alloc_quantity a)) db of
             (ST_applied, Some row, db) \<Rightarrow>
               bindr (take_planned mode ref_type ref pairs planned
                 (append_flow row (draw_kind mode) (alloc_quantity a) (qty (draw_bucket mode) row)
                    (qty (draw_bucket mode) row) ref_type ref db)) (\<lambda>(taken, conflict, db).
               Inr (a # taken, conflict, db))
           | (_, _, db) \<Rightarrow> Inr ([], True, db)))"

definition pieces :: "allocation list \<Rightarrow> int" where
  "pieces allocs = (\<Sum>a\<leftarrow>allocs. alloc_quantity a)"

fun draw_loop ::
  "nat \<Rightarrow> draw_mode \<Rightarrow> string \<Rightarrow> int option \<Rightarrow> int \<Rightarrow> int \<Rightarrow> stock_db
     \<Rightarrow> (allocation list \<times> int \<times> stock_db) res" where
  "draw_loop 0 mode ref_type ref sku left db = Inr ([], left, db)"
| "draw_loop (Suc n) mode ref_type ref sku left db =
     (if left = 0 then Inr ([], left, db)
      else
        let pairs = list_for_sku sku db in
        bindr (plan_allocations (map bin_of pairs) left) (\<lambda>(planned, _).
        if planned = [] then Inr ([], left, db)
        else
          bindr (take_planned mode ref_type ref pairs planned db) (\<lambda>(taken, conflict, db).
          if \<not> conflict then Inr (taken, left - pieces taken, db)
          else
            bindr (draw_loop n mode ref_type ref sku (left - pieces taken) db) (\<lambda>(rest_taken, left, db).
            Inr (taken @ rest_taken, left, db)))))"

definition draw ::
  "draw_mode \<Rightarrow> string \<Rightarrow> int option \<Rightarrow> int \<Rightarrow> int \<Rightarrow> stock_db \<Rightarrow> (allocation list \<times> int \<times> stock_db) res" where
  "draw mode ref_type ref sku quantity db = draw_loop version_retries mode ref_type ref sku quantity db"

end
