(* ===== verification/StockLaws.thy ===== *)
theory StockLaws imports StockBook begin

text \<open>
  What the operations of the stock books do, as movements: \<open>moved e db db'\<close> says that \<open>db'\<close> is \<open>db\<close>
  with the quantities changed by the effect \<open>e\<close>, nothing but balances, journal and identifiers
  touched, and every balance still sound.  Movements compose by adding their effects, so a handler
  is accounted for by the sum of its writes, whatever lands in between.
\<close>

section \<open>Movements\<close>

definition sound_balance :: "balance \<Rightarrow> bool" where
  "sound_balance b \<longleftrightarrow> 0 \<le> bal_occupied b \<and> bal_occupied b \<le> bal_available b \<and>
     0 \<le> bal_in_transit b \<and> 0 \<le> bal_defective b"

definition wf_book :: "stock_db \<Rightarrow> bool" where
  "wf_book db \<longleftrightarrow> distinct (map bal_id (balances db)) \<and>
     (\<forall>b\<in>set (balances db). bal_id b < next_id db \<and> sound_balance b)"

definition stock_at :: "bucket \<Rightarrow> int \<Rightarrow> int \<Rightarrow> stock_db \<Rightarrow> int" where
  "stock_at k s w db =
     (\<Sum>b\<leftarrow>balances db. if bal_sku b = s \<and> bal_warehouse b = w then qty k b else 0)"

definition same_row :: "balance \<Rightarrow> balance \<Rightarrow> bool" where
  "same_row b b' \<longleftrightarrow> bal_id b = bal_id b' \<and> bal_sku b = bal_sku b' \<and> bal_warehouse b = bal_warehouse b'"

definition row_of :: "balance \<Rightarrow> stock_db \<Rightarrow> bool" where
  "row_of b db \<longleftrightarrow> (\<exists>x\<in>set (balances db). same_row b x)"

definition has_row :: "int \<Rightarrow> int \<Rightarrow> stock_db \<Rightarrow> bool" where
  "has_row s w db \<longleftrightarrow> (\<exists>b\<in>set (balances db). bal_sku b = s \<and> bal_warehouse b = w)"

text \<open>Rivals that neither reserve nor ship nor transfer: receipts, adjustments, stocktaking.\<close>

definition plain_rivals :: "stock_db \<Rightarrow> bool" where
  "plain_rivals db \<longleftrightarrow>
     (\<forall>batch\<in>set (rivals db). \<forall>w\<in>set batch. d_occupied (snd w) = 0 \<and> d_in_transit (snd w) = 0)"

definition same_docs :: "stock_db \<Rightarrow> stock_db \<Rightarrow> bool" where
  "same_docs db db' \<longleftrightarrow> skus db' = skus db \<and> warehouses db' = warehouses db \<and> holds db' = holds db \<and>
     order_items db' = order_items db \<and> transfers db' = transfers db \<and> takings db' = takings db"

definition keeps :: "stock_db \<Rightarrow> stock_db \<Rightarrow> bool" where
  "keeps db db' \<longleftrightarrow> same_docs db db' \<and> next_id db \<le> next_id db' \<and>
     (wf_book db \<longrightarrow> wf_book db' \<and> (\<forall>b. row_of b db \<longrightarrow> row_of b db')) \<and>
     (plain_rivals db \<longrightarrow> plain_rivals db') \<and> (rivals db = [] \<longrightarrow> rivals db' = [])"

type_synonym effect = "bucket \<Rightarrow> int \<Rightarrow> int \<Rightarrow> int"

definition nothing :: effect where
  "nothing = (\<lambda>k s w. 0)"

definition at_pair :: "int \<Rightarrow> int \<Rightarrow> change \<Rightarrow> effect" where
  "at_pair s w c = (\<lambda>k s' w'. if s' = s \<and> w' = w then delta k c else 0)"

definition followed_by :: "effect \<Rightarrow> effect \<Rightarrow> effect" where
  "followed_by e f = (\<lambda>k s w. e k s w + f k s w)"

text \<open>Without rivals every quantity moves by the effect; with plain rivals the occupied stock and the
  stock in transit still do.\<close>

definition moved :: "effect \<Rightarrow> stock_db \<Rightarrow> stock_db \<Rightarrow> bool" where
  "moved e db db' \<longleftrightarrow> keeps db db' \<and>
     (wf_book db \<longrightarrow> plain_rivals db \<longrightarrow>
       (\<forall>k s w. k = Occupied \<or> k = In_transit \<or> rivals db = [] \<longrightarrow>
          stock_at k s w db' = stock_at k s w db + e k s w))"

lemma keeps_refl: "keeps db db"
  by (simp add: keeps_def same_docs_def)

lemma keeps_trans: "keeps db db' \<Longrightarrow> keeps db' db'' \<Longrightarrow> keeps db db''"
  by (auto simp: keeps_def same_docs_def)

lemma moved_keeps: "moved e db db' \<Longrightarrow> keeps db db'"
  by (simp add: moved_def)

lemma movedD:
  "moved e db db' \<Longrightarrow> wf_book db \<Longrightarrow> plain_rivals db \<Longrightarrow>
     k = Occupied \<or> k = In_transit \<or> rivals db = [] \<Longrightarrow> stock_at k s w db' = stock_at k s w db + e k s w"
  unfolding moved_def by blast

lemma moved_refl [simp, intro]: "moved nothing db db"
  by (simp add: moved_def keeps_refl nothing_def)

lemma moved_trans:
  assumes "moved e db db'" and "moved f db' db''"
  shows "moved (followed_by e f) db db''"
  unfolding moved_def
proof (intro conjI impI allI)
  show "keeps db db''" using assms by (auto simp: moved_def intro: keeps_trans)
  fix k s w
  assume *: "wf_book db" "plain_rivals db" "k = Occupied \<or> k = In_transit \<or> rivals db = []"
  then have "wf_book db'" "plain_rivals db'" "k = Occupied \<or> k = In_transit \<or> rivals db' = []"
    using moved_keeps [OF assms(1)] by (auto simp: keeps_def)
  from movedD [OF assms(2) this] have "stock_at k s w db'' = stock_at k s w db' + f k s w" .
  also have "stock_at k s w db' = stock_at k s w db + e k s w" by (rule movedD [OF assms(1) *])
  finally show "stock_at k s w db'' = stock_at k s w db + followed_by e f k s w"
    by (simp add: followed_by_def)
qed

lemma followed_by_nothing [simp]: "followed_by e nothing = e" "followed_by nothing e = e"
  by (simp_all add: followed_by_def nothing_def)

lemma followed_by_apply: "followed_by e f k s w = e k s w + f k s w"
  by (simp add: followed_by_def)

lemma nothing_apply: "nothing k s w = 0"
  by (simp add: nothing_def)

lemma moved_cong: "moved e db db' \<Longrightarrow> (\<And>k s w. e k s w = f k s w) \<Longrightarrow> moved f db db'"
  by (simp add: moved_def)

lemma delta_no_change [simp]: "delta k no_change = 0"
  by (cases k) (simp_all add: no_change_def)

section \<open>One guarded update\<close>

lemma find_balance_SomeD:
  "find_balance i db = Some b \<Longrightarrow> b \<in> set (balances db) \<and> bal_id b = i"
  by (auto simp: find_balance_def find_Some_iff)

lemma qty_changed [simp]: "qty k (changed c b) = qty k b + delta k c"
  by (cases k) (simp_all add: changed_def)

lemma changed_simps [simp]:
  "bal_id (changed c b) = bal_id b" "bal_sku (changed c b) = bal_sku b"
  "bal_warehouse (changed c b) = bal_warehouse b" "bal_version (changed c b) = bal_version b + 1"
  by (simp_all add: changed_def)

lemma sound_changed: "change_fits c b \<Longrightarrow> sound_balance (changed c b)"
  by (auto simp: change_fits_def changed_def sound_balance_def)

lemma put_balance_simps [simp]:
  "balances (put_balance b db) = map (\<lambda>x. if bal_id x = bal_id b then b else x) (balances db)"
  "next_id (put_balance b db) = next_id db" "rivals (put_balance b db) = rivals db"
  "same_docs db (put_balance b db)"
  by (simp_all add: put_balance_def same_docs_def)

lemma same_id: "wf_book db \<Longrightarrow> b \<in> set (balances db) \<Longrightarrow> x \<in> set (balances db) \<Longrightarrow> bal_id x = bal_id b \<Longrightarrow> x = b"
  unfolding wf_book_def by (meson inj_on_def distinct_map)

lemma stock_at_put:
  assumes "wf_book db" and "b \<in> set (balances db)"
  shows "stock_at k s w (put_balance (changed c b) db) =
    stock_at k s w db + at_pair (bal_sku b) (bal_warehouse b) c k s w"
proof -
  let ?g = "\<lambda>b. if bal_sku b = s \<and> bal_warehouse b = w then qty k b else 0"
  have eq: "map (\<lambda>x. if bal_id x = bal_id b then changed c b else x) (balances db) =
      map (\<lambda>x. if bal_id x = bal_id b then changed c x else x) (balances db)"
    using same_id [OF assms] by (intro map_cong) auto
  have "stock_at k s w (put_balance (changed c b) db) =
      (\<Sum>x\<leftarrow>balances db. ?g (if bal_id x = bal_id b then changed c x else x))"
    by (simp only: stock_at_def put_balance_simps changed_simps eq map_map comp_def)
  also have "\<dots> = stock_at k s w db + (?g (changed c b) - ?g b)"
    using assms unfolding stock_at_def wf_book_def by (intro sum_list_map_replace) auto
  finally show ?thesis by (simp add: at_pair_def)
qed

lemma wf_put:
  assumes "wf_book db" and "b \<in> set (balances db)" and "change_fits c b"
  shows "wf_book (put_balance (changed c b) db)"
proof -
  have ids: "map bal_id (balances (put_balance (changed c b) db)) = map bal_id (balances db)"
    by (auto simp: comp_def)
  show ?thesis unfolding wf_book_def ids put_balance_simps(2)
    using assms sound_changed [OF assms(3)] by (auto simp: wf_book_def)
qed

lemma row_of_put:
  assumes "find_balance i db = Some b" and "wf_book db" and "row_of x db"
  shows "row_of x (put_balance (changed c b) db)"
proof -
  obtain y where y: "y \<in> set (balances db)" "same_row x y" using assms(3) by (auto simp: row_of_def)
  let ?z = "if bal_id y = bal_id (changed c b) then changed c b else y"
  have "?z \<in> set (balances (put_balance (changed c b) db))" using y(1) by simp
  moreover have "same_row x ?z"
    using y same_id [OF assms(2), of b y] find_balance_SomeD [OF assms(1)] by (auto simp: same_row_def)
  ultimately show ?thesis unfolding row_of_def by blast
qed


lemma put_balance_moved:
  assumes "find_balance i db = Some b" and "change_fits c b"
  shows "moved (at_pair (bal_sku b) (bal_warehouse b) c) db (put_balance (changed c b) db)"
proof -
  from find_balance_SomeD [OF assms(1)] have b: "b \<in> set (balances db)" by simp
  show ?thesis
    unfolding moved_def keeps_def
    using wf_put [OF _ b assms(2)] row_of_put [OF assms(1), where c = c] stock_at_put [OF _ b]
    by (auto simp: plain_rivals_def)
qed

lemma apply_change_moved:
  assumes "apply_change i seen c db = (status, db')"
  shows "(\<exists>b. status = ST_applied \<and> find_balance i db = Some b \<and> bal_version b = seen \<and> change_fits c b \<and>
            db' = put_balance (changed c b) db) \<or> status \<noteq> ST_applied \<and> db' = db"
  using assms by (auto simp: apply_change_def split: option.splits if_splits)

subsection \<open>Rivals\<close>

lemma rival_write_keeps:
  assumes "rival_write db w = db'"
  shows "same_docs db db' \<and> next_id db' = next_id db \<and> rivals db' = rivals db \<and>
    (wf_book db \<longrightarrow> wf_book db' \<and> (\<forall>b. row_of b db \<longrightarrow> row_of b db') \<and>
      (d_occupied (snd w) = 0 \<longrightarrow> (\<forall>s wh. stock_at Occupied s wh db' = stock_at Occupied s wh db)) \<and>
      (d_in_transit (snd w) = 0 \<longrightarrow> (\<forall>s wh. stock_at In_transit s wh db' = stock_at In_transit s wh db)))"
proof (cases "find_balance (fst w) db")
  case None
  then show ?thesis using assms by (auto simp: rival_write_def same_docs_def)
next
  case (Some b)
  then have "db' = snd (apply_change (fst w) (bal_version b) (snd w) db)"
    using assms by (simp add: rival_write_def)
  then have "db' = put_balance (changed (snd w) b) db \<and> change_fits (snd w) b \<or> db' = db"
    using apply_change_moved [of "fst w" "bal_version b" "snd w" db] Some
    by (cases "apply_change (fst w) (bal_version b) (snd w) db") auto
  then show ?thesis
  proof (elim disjE conjE)
    assume db': "db' = put_balance (changed (snd w) b) db" and fits: "change_fits (snd w) b"
    from find_balance_SomeD [OF Some] have b: "b \<in> set (balances db)" by simp
    show ?thesis
      unfolding db' using wf_put [OF _ b fits] row_of_put [OF Some, where c = "snd w"]
        stock_at_put [OF _ b, where c = "snd w"]
      by (auto simp: at_pair_def)
  next
    assume "db' = db"
    then show ?thesis by (simp add: same_docs_def)
  qed
qed

lemma rivals_land:
  assumes "foldl rival_write db batch = db'"
  shows "same_docs db db' \<and> next_id db' = next_id db \<and> rivals db' = rivals db \<and>
    (wf_book db \<longrightarrow> wf_book db' \<and> (\<forall>b. row_of b db \<longrightarrow> row_of b db') \<and>
      ((\<forall>w\<in>set batch. d_occupied (snd w) = 0 \<and> d_in_transit (snd w) = 0) \<longrightarrow>
        (\<forall>k s wh. k = Occupied \<or> k = In_transit \<longrightarrow> stock_at k s wh db' = stock_at k s wh db)))"
  using assms
proof (induction batch arbitrary: db)
  case Nil
  then show ?case by (simp add: same_docs_def)
next
  case (Cons w batch)
  from Cons.IH [of "rival_write db w"] Cons.prems rival_write_keeps [of db w "rival_write db w"]
  show ?case by (auto simp: same_docs_def)
qed

lemma let_in_moved: "moved nothing db (let_in db)"
proof (cases "rivals db")
  case Nil
  then show ?thesis by (simp add: let_in_def moved_refl)
next
  case (Cons batch later)
  let ?db = "db\<lparr>rivals := later\<rparr>"
  have r: "let_in db = foldl rival_write ?db batch" using Cons by (simp add: let_in_def)
  note land = rivals_land [OF r [symmetric]]
  have same: "same_docs ?db db' \<longleftrightarrow> same_docs db db'" "wf_book ?db \<longleftrightarrow> wf_book db"
      "row_of b ?db \<longleftrightarrow> row_of b db" "stock_at k s w ?db = stock_at k s w db" for db' b k s w
    by (simp_all add: same_docs_def wf_book_def row_of_def stock_at_def)
  have plain: "plain_rivals db \<longleftrightarrow> (\<forall>w\<in>set batch. d_occupied (snd w) = 0 \<and> d_in_transit (snd w) = 0) \<and>
      (\<forall>b\<in>set later. \<forall>w\<in>set b. d_occupied (snd w) = 0 \<and> d_in_transit (snd w) = 0)"
    using Cons by (simp add: plain_rivals_def)
  show ?thesis
    unfolding moved_def keeps_def plain using land Cons unfolding same
    by (auto simp: plain_rivals_def nothing_apply)
qed


section \<open>Writes of a request\<close>

lemma same_row_refl [simp]: "same_row b b"
  by (simp add: same_row_def)

lemma found_same_row:
  assumes "wf_book db" and "row_of row db" and "find_balance (bal_id row) db = Some b"
  shows "same_row row b"
proof -
  obtain x where x: "x \<in> set (balances db)" "same_row row x" using assms(2) by (auto simp: row_of_def)
  with find_balance_SomeD [OF assms(3)] same_id [OF assms(1), of b x] show ?thesis
    by (auto simp: same_row_def)
qed

lemma row_of_found: "b \<in> set (balances db) \<Longrightarrow> row_of b db"
  unfolding row_of_def by (rule bexI [where x = b]) simp_all

lemma find_put_same:
  "find_balance i db = Some b \<Longrightarrow> find_balance i (put_balance (changed c b) db) = Some (changed c b)"
  unfolding find_balance_def put_balance_simps
  by (induction "balances db" arbitrary: db) (auto simp: find_Some_iff split: if_splits)

lemma apply_once_moved:
  assumes once: "apply_once row c db = (status, fresh, db')" and row: "row_of row db"
  shows "moved (if status = ST_applied then at_pair (bal_sku row) (bal_warehouse row) c else nothing) db db' \<and>
    (status = ST_applied \<or> status = ST_conflict \<longrightarrow> fresh = find_balance (bal_id row) db') \<and>
    (status = ST_applied \<longrightarrow> fresh \<noteq> None)"
proof -
  let ?mid = "let_in db"
  obtain db1 where ch: "apply_change (bal_id row) (bal_version row) c ?mid = (status, db1)"
    and f: "fresh = (if status = ST_applied \<or> status = ST_conflict then find_balance (bal_id row) db1 else None)"
    and db': "db' = db1"
    using once by (auto simp: apply_once_def split: prod.splits)
  note mid = let_in_moved [of db]
  from apply_change_moved [OF ch] show ?thesis
  proof (elim disjE exE conjE)
    fix b assume b: "status = ST_applied" "find_balance (bal_id row) ?mid = Some b" "change_fits c b"
      "db1 = put_balance (changed c b) ?mid"
    have step: "moved (at_pair (bal_sku b) (bal_warehouse b) c) ?mid db1"
      unfolding b(4) by (rule put_balance_moved [OF b(2,3)])
    have "moved (at_pair (bal_sku row) (bal_warehouse row) c) db db1"
    proof (cases "wf_book db")
      case True
      with row mid have "wf_book ?mid" "row_of row ?mid" by (auto simp: moved_def keeps_def)
      from found_same_row [OF this b(2)] moved_trans [OF mid step] show ?thesis
        by (simp add: same_row_def)
    next
      case False
      with moved_trans [OF mid step] show ?thesis by (simp add: moved_def)
    qed
    then show ?thesis using b(1) f find_put_same [OF b(2), of c] by (simp add: b(4) db')
  next
    assume "status \<noteq> ST_applied" "db1 = ?mid"
    then show ?thesis using mid f by (auto simp: db')
  qed
qed

lemma append_flow_simps [simp]:
  "balances (append_flow b k q x y rt r db) = balances db" "next_id (append_flow b k q x y rt r db) = next_id db"
  "rivals (append_flow b k q x y rt r db) = rivals db" "same_docs db (append_flow b k q x y rt r db)"
  by (simp_all add: append_flow_def same_docs_def)

lemma append_flow_moved: "moved nothing db (append_flow b k q x y rt r db)"
  by (auto simp: moved_def keeps_def stock_at_def wf_book_def row_of_def plain_rivals_def nothing_apply)

lemma keeps_row: "keeps db db' \<Longrightarrow> wf_book db \<Longrightarrow> row_of b db \<Longrightarrow> row_of b db'"
  by (simp add: keeps_def)

lemma keeps_wf: "keeps db db' \<Longrightarrow> wf_book db \<Longrightarrow> wf_book db'"
  by (simp add: keeps_def)

lemma commit_loop_moved:
  "commit_loop n row m db = Inr (row', db') \<Longrightarrow> wf_book db \<Longrightarrow> row_of row db \<Longrightarrow>
     moved (at_pair (bal_sku row) (bal_warehouse row) (mv_change m)) db db' \<and> row_of row' db' \<and> same_row row row'"
proof (induction n arbitrary: row db)
  case (Suc n)
  obtain status fresh db1 where once: "apply_once row (mv_change m) db = (status, fresh, db1)"
    by (cases "apply_once row (mv_change m) db") auto
  note step = apply_once_moved [OF once Suc.prems(3)]
  have wf1: "wf_book db1" and row1: "row_of row db1"
    using step moved_keeps keeps_wf keeps_row Suc.prems(2,3) by blast+
  from Suc.prems(1) consider b where "status = ST_applied" "fresh = Some b" "row' = b"
      "db' = append_flow b (mv_kind m) (mv_quantity m) (qty (mv_bucket m) row) (qty (mv_bucket m) b)
               (mv_ref_type m) (mv_ref m) db1"
    | b where "status = ST_conflict" "fresh = Some b" "commit_loop n b m db1 = Inr (row', db')"
    by (auto simp: once Let_def split: apply_outcome.splits option.splits)
  then show ?case
  proof cases
    case 1
    with step have b: "find_balance (bal_id row) db1 = Some b" by simp
    have same: "same_row row b" by (rule found_same_row [OF wf1 row1 b])
    have "row_of b db'" using find_balance_SomeD [OF b] row_of_found [of b db1] 1(4) by (simp add: row_of_def)
    with step moved_trans [OF _ append_flow_moved] 1 same show ?thesis by (metis followed_by_nothing(1))
  next
    case 2
    with step have b: "find_balance (bal_id row) db1 = Some b" and m: "moved nothing db db1" by simp_all
    have same: "same_row row b" by (rule found_same_row [OF wf1 row1 b])
    have "row_of b db1" using find_balance_SomeD [OF b] row_of_found by blast
    from Suc.IH [OF 2(3) wf1 this] moved_trans [OF m] same show ?thesis
      by (fastforce simp: same_row_def)
  qed
qed simp

lemmas commit_change_moved = commit_loop_moved [where n = version_retries, folded commit_change_def]

lemma get_pair_SomeD:
  "get_pair s w db = Some b \<Longrightarrow> b \<in> set (balances db) \<and> bal_sku b = s \<and> bal_warehouse b = w"
  by (auto simp: get_pair_def find_Some_iff)

lemma get_pair_None: "get_pair s w db = None \<longleftrightarrow> \<not> has_row s w db"
  by (auto simp: get_pair_def has_row_def find_None_iff)

lemma ensure_moved:
  assumes "ensure s w db = Inr (b, db')"
  shows "moved nothing db db' \<and> row_of b db' \<and> bal_sku b = s \<and> bal_warehouse b = w"
proof (cases "get_pair s w db")
  case (Some found)
  with assms have "b = found" "db' = db" by (auto simp: ensure_def split: if_splits)
  with get_pair_SomeD [OF Some] show ?thesis by (auto intro: row_of_found)
next
  case None
  let ?b = "new_balance (next_id db) s w"
  from None assms have b: "b = ?b" and db': "db' = db\<lparr>balances := balances db @ [?b], next_id := next_id db + 1\<rparr>"
    by (auto simp: ensure_def Let_def split: if_splits)
  have z: "qty k ?b = 0" for k by (cases k) (simp_all add: new_balance_def)
  have s: "sound_balance ?b" by (simp add: new_balance_def sound_balance_def)
  have i: "bal_id ?b = next_id db" by (simp add: new_balance_def)
  have "wf_book db \<Longrightarrow> wf_book db'"
    using s i unfolding wf_book_def db' by fastforce
  then have "moved nothing db db'"
    using z unfolding moved_def keeps_def db'
    by (auto simp: same_docs_def row_of_def plain_rivals_def stock_at_def nothing_apply)
  moreover have "row_of b db'" by (rule row_of_found) (simp add: b db')
  ultimately show ?thesis by (simp add: b new_balance_def)
qed


section \<open>Drawing\<close>

definition drawn :: "draw_mode \<Rightarrow> int \<Rightarrow> allocation list \<Rightarrow> effect" where
  "drawn mode sku allocs = (\<lambda>k s w. if s = sku
     then \<Sum>a\<leftarrow>allocs. if alloc_warehouse a = w then delta k (draw_change mode (alloc_quantity a)) else 0
     else 0)"

lemma drawn_Nil [simp]: "drawn mode sku [] = nothing"
  by (intro ext) (simp add: drawn_def nothing_def)

lemma drawn_Cons:
  "drawn mode sku (a # as) =
     followed_by (at_pair sku (alloc_warehouse a) (draw_change mode (alloc_quantity a))) (drawn mode sku as)"
  by (auto simp: drawn_def followed_by_def at_pair_def fun_eq_iff)

lemma drawn_append: "drawn mode sku (as @ bs) = followed_by (drawn mode sku as) (drawn mode sku bs)"
  by (auto simp: drawn_def followed_by_def fun_eq_iff)

lemma has_row_keeps: "keeps db db' \<Longrightarrow> wf_book db \<Longrightarrow> has_row s w db \<Longrightarrow> has_row s w db'"
proof -
  assume k: "keeps db db'" "wf_book db" and "has_row s w db"
  then obtain b where "b \<in> set (balances db)" "bal_sku b = s" "bal_warehouse b = w" by (auto simp: has_row_def)
  moreover from keeps_row [OF k row_of_found] this(1) have "row_of b db'" .
  ultimately show ?thesis unfolding has_row_def row_of_def same_row_def by metis
qed

lemma row_of_has_row: "row_of b db \<Longrightarrow> has_row (bal_sku b) (bal_warehouse b) db"
  by (auto simp: row_of_def has_row_def same_row_def)

lemma list_for_sku_rows:
  "p \<in> set (list_for_sku sku db) \<Longrightarrow>
     row_of (fst p) db \<and> bal_sku (fst p) = sku \<and> bal_warehouse (fst p) = wh_id (snd p) \<and>
     fst p \<in> set (balances db) \<and> snd p \<in> set (warehouses db) \<and> \<not> wh_deleted (snd p)"
  by (auto simp: list_for_sku_def intro: row_of_found)

lemma take_planned_moved:
  "take_planned mode rt r pairs planned db = Inr (taken, conflict, db') \<Longrightarrow> wf_book db \<Longrightarrow>
     \<forall>p\<in>set pairs. row_of (fst p) db \<and> bal_sku (fst p) = sku \<Longrightarrow>
     moved (drawn mode sku taken) db db' \<and> (\<exists>rest. planned = taken @ rest) \<and>
     (\<not> conflict \<longrightarrow> taken = planned) \<and> (\<forall>a\<in>set taken. has_row sku (alloc_warehouse a) db')"
proof (induction planned arbitrary: db taken)
  case Nil
  then show ?case by (auto intro: moved_refl)
next
  case (Cons a planned)
  from Cons.prems(1) obtain p where p: "find (\<lambda>p. bal_warehouse (fst p) = alloc_warehouse a) pairs = Some p"
    by (auto split: option.splits)
  then have pp: "p \<in> set pairs" "bal_warehouse (fst p) = alloc_warehouse a" by (auto simp: find_Some_iff)
  with Cons.prems(3) have row: "row_of (fst p) db" "bal_sku (fst p) = sku" by auto
  let ?c = "draw_change mode (alloc_quantity a)"
  obtain status fresh db1 where once: "apply_once (fst p) ?c db = (status, fresh, db1)"
    by (cases "apply_once (fst p) ?c db") auto
  note step = apply_once_moved [OF once row(1)]
  show ?case
  proof (cases "status = ST_applied")
    case False
    with Cons.prems(1) have "taken = []" "conflict" "db' = db1"
      by (auto simp: p once split: apply_outcome.splits)
    with step False show ?thesis by simp
  next
    case True
    then obtain b where b: "fresh = Some b" using step by auto
    let ?db2 = "append_flow b (draw_kind mode) (alloc_quantity a) (qty (draw_bucket mode) b)
        (qty (draw_bucket mode) b) rt r db1"
    from Cons.prems(1) True b obtain taken' where t: "taken = a # taken'"
        "take_planned mode rt r pairs planned ?db2 = Inr (taken', conflict, db')"
      by (auto simp: p once res_simps)
    have m: "moved (at_pair sku (alloc_warehouse a) ?c) db ?db2"
      using moved_trans [OF _ append_flow_moved] step True row(2) pp(2) by (metis followed_by_nothing(1))
    note k = moved_keeps [OF m]
    have wf2: "wf_book ?db2" by (rule keeps_wf [OF k Cons.prems(2)])
    have rows2: "\<forall>p\<in>set pairs. row_of (fst p) ?db2 \<and> bal_sku (fst p) = sku"
      using Cons.prems(3) keeps_row [OF k Cons.prems(2)] by blast
    note IH = Cons.IH [OF t(2) wf2 rows2]
    have "row_of (fst p) db'" using IH keeps_row [OF moved_keeps wf2] rows2 pp(1) by blast
    then have "has_row sku (alloc_warehouse a) db'" using row_of_has_row row(2) pp(2) by metis
    with IH moved_trans [OF m] show ?thesis by (auto simp: t(1) drawn_Cons)
  qed
qed

lemma pieces_append [simp]: "pieces (as @ bs) = pieces as + pieces bs"
  by (simp add: pieces_def)

lemma plan_allocations_props:
  assumes "plan_allocations bins left = Inr (planned, rest)"
  shows "0 \<le> left \<and> pieces planned + rest = left \<and> 0 \<le> rest \<and>
    (\<forall>a\<in>set planned. 0 < alloc_quantity a \<and>
       (\<exists>b\<in>set bins. \<not> bin_skipped b \<and> alloc_warehouse a = bin_warehouse b \<and> alloc_quantity a \<le> bin_free b))"
proof -
  from assms have left: "0 \<le> left" and "alloc_loop (sort_on bin_key bins) left = (planned, rest)"
    by (auto simp: plan_allocations_def split: if_splits)
  from alloc_loop_props [OF this] left show ?thesis by (simp add: pieces_def)
qed

lemma pieces_prefix_le:
  assumes "\<forall>a\<in>set (as @ bs). 0 < alloc_quantity a"
  shows "pieces as \<le> pieces (as @ bs)"
proof -
  have "0 \<le> pieces bs" unfolding pieces_def using assms by (intro sum_list_nonneg) (auto intro: less_imp_le)
  then show ?thesis by simp
qed

lemma draw_loop_moved:
  "draw_loop n mode rt r sku left db = Inr (taken, left', db') \<Longrightarrow> wf_book db \<Longrightarrow> 0 \<le> left \<Longrightarrow>
     moved (drawn mode sku taken) db db' \<and> pieces taken + left' = left \<and> 0 \<le> left' \<and>
     (\<forall>a\<in>set taken. 0 < alloc_quantity a \<and> has_row sku (alloc_warehouse a) db')"
proof (induction n arbitrary: left db taken)
  case 0
  then show ?case by (auto simp: pieces_def intro: moved_refl)
next
  case (Suc n)
  let ?pairs = "list_for_sku sku db"
  show ?case
  proof (cases "left = 0")
    case True
    with Suc.prems show ?thesis by (auto simp: pieces_def intro: moved_refl)
  next
    case False
    with Suc.prems(1) obtain planned rest where plan: "plan_allocations (map bin_of ?pairs) left = Inr (planned, rest)"
      by (auto simp: Let_def res_simps)
    note props = plan_allocations_props [OF plan]
    show ?thesis
    proof (cases "planned = []")
      case True
      with Suc.prems plan False show ?thesis by (auto simp: pieces_def intro: moved_refl)
    next
      case ne: False
      with Suc.prems(1) plan False obtain got conflict db1 where
          take: "take_planned mode rt r ?pairs planned db = Inr (got, conflict, db1)"
        and next_step: "(if \<not> conflict then Inr (got, left - pieces got, db1)
            else bindr (draw_loop n mode rt r sku (left - pieces got) db1) (\<lambda>(rest_taken, left, db).
              Inr (got @ rest_taken, left, db))) = Inr (taken, left', db')"
        by (auto simp: Let_def res_simps split: prod.splits)
      have rows: "\<forall>p\<in>set ?pairs. row_of (fst p) db \<and> bal_sku (fst p) = sku"
        using list_for_sku_rows by blast
      note t = take_planned_moved [OF take Suc.prems(2) rows]
      then obtain tail where tail: "planned = got @ tail" by blast
      with props have pos: "\<forall>a\<in>set got. 0 < alloc_quantity a" and le: "pieces got \<le> left"
        using pieces_prefix_le [of got tail] by auto
      have wf1: "wf_book db1" using t moved_keeps keeps_wf Suc.prems(2) by blast
      show ?thesis
      proof (cases conflict)
        case False
        with next_step t pos le show ?thesis by auto
      next
        case True
        with next_step obtain rest_taken where r: "taken = got @ rest_taken"
            "draw_loop n mode rt r sku (left - pieces got) db1 = Inr (rest_taken, left', db')"
          by (auto simp: res_simps)
        have "0 \<le> left - pieces got" using le by simp
        note IH = Suc.IH [OF r(2) wf1 this]
        have "has_row sku (alloc_warehouse a) db'" if "a \<in> set got" for a
          using t that IH moved_keeps has_row_keeps [OF _ wf1] by blast
        with t IH pos moved_trans [of "drawn mode sku got" db db1] show ?thesis
          by (auto simp: r(1) drawn_append)
      qed
    qed
  qed
qed

lemmas draw_moved = draw_loop_moved [where n = version_retries, folded draw_def]

end
