(* ===== verification/StockDesk.thy ===== *)
theory StockDesk imports StockLaws begin

text \<open>
  The handlers of \<^verbatim>\<open>app/services/inventory.py\<close> that change stock: adjustments, reservation, release
  and shipment of orders, returns, transfers, stocktaking and warehouses, each as the code has it,
  over the books of the component before.  A handler returns the new tables or the exception it
  raises; a request that raises is rolled back, and what rivals wrote meanwhile stays.  The views
  returned to the caller are left out except for the lookups they make, which may raise.
\<close>

section \<open>Adjustments\<close>

definition adjust_deltas :: "string \<Rightarrow> int \<Rightarrow> change \<times> string \<times> bucket" where
  "adjust_deltas kind quantity =
     (if kind = ''INBOUND'' then (no_change\<lparr>d_available := quantity\<rparr>, ''INBOUND'', Available)
      else if kind = ''OUTBOUND'' then (no_change\<lparr>d_available := - quantity\<rparr>, ''OUTBOUND'', Available)
      else if kind = ''TO_DEFECTIVE''
      then (no_change\<lparr>d_available := - quantity, d_defective := quantity\<rparr>, ''ADJUST'', Available)
      else (no_change\<lparr>d_available := quantity\<rparr>, ''ADJUST'', Available))"

definition adjust :: "int \<Rightarrow> int \<Rightarrow> string \<Rightarrow> int \<Rightarrow> string \<Rightarrow> int option \<Rightarrow> stock_db \<Rightarrow> stock_db res" where
  "adjust sku wh kind quantity ref_type ref db =
     (if kind \<noteq> ''ADJUST'' \<and> quantity \<le> 0 then Inl (AppError ''ParamInvalidError'')
      else if kind = ''ADJUST'' \<and> quantity = 0 then Inl (AppError ''ParamInvalidError'')
      else
        bindr (ensure sku wh db) (\<lambda>(row, db).
        case adjust_deltas kind quantity of
          (deltas, kind_of_flow, before_name) \<Rightarrow>
            bindr (commit_change row
              \<lparr>mv_kind = kind_of_flow, mv_quantity = \<bar>quantity\<bar>, mv_bucket = before_name,
               mv_ref_type = (if ref_type = [] then ''ADJUST'' else ref_type), mv_ref = ref,
               mv_change = deltas\<rparr> db) (\<lambda>(_, db). Inr db)))"

definition post_stock :: "int \<Rightarrow> int \<Rightarrow> int \<Rightarrow> int \<Rightarrow> string \<Rightarrow> int option \<Rightarrow> stock_db \<Rightarrow> stock_db res" where
  "post_stock sku wh available_part transit_part ref_type ref db =
     (if available_part = 0 \<and> transit_part = 0 then Inr db
      else
        bindr (ensure sku wh db) (\<lambda>(row, db).
        bindr (if available_part \<noteq> 0 then commit_change row
                 \<lparr>mv_kind = (if available_part > 0 then ''INBOUND'' else ''OUTBOUND''),
                  mv_quantity = \<bar>available_part\<bar>, mv_bucket = Available, mv_ref_type = ref_type,
                  mv_ref = ref, mv_change = no_change\<lparr>d_available := available_part\<rparr>\<rparr> db
               else Inr (row, db)) (\<lambda>(row, db).
        bindr (if transit_part \<noteq> 0 then commit_change row
                 \<lparr>mv_kind = ''ADJUST'', mv_quantity = \<bar>transit_part\<bar>, mv_bucket = In_transit,
                  mv_ref_type = ref_type, mv_ref = ref,
                  mv_change = no_change\<lparr>d_in_transit := transit_part\<rparr>\<rparr> db
               else Inr (row, db)) (\<lambda>(_, db). Inr db))))"

text \<open>The schema allows a safety level from 0 to 1000000.\<close>

definition set_safe_stock :: "int \<Rightarrow> int \<Rightarrow> stock_db \<Rightarrow> stock_db res" where
  "set_safe_stock ident safe db =
     (if safe < 0 \<or> 1000000 < safe then Inl ValueError
      else case find_balance ident db of
        None \<Rightarrow> Inl (AppError ''NotFoundError'')
      | Some row \<Rightarrow> Inr (put_balance (row\<lparr>bal_safe_stock := safe\<rparr>) db))"

section \<open>Reservation, release and shipment of an order\<close>

definition list_items :: "int \<Rightarrow> stock_db \<Rightarrow> order_item list" where
  "list_items order db = sort_key oi_id (filter (\<lambda>i. oi_order i = order) (order_items db))"

definition get_for_item :: "int \<Rightarrow> stock_db \<Rightarrow> hold option" where
  "get_for_item item db = find (\<lambda>h. hold_item h = item) (holds db)"

definition open_or_done :: "string list" where
  "open_or_done = [''OPEN'', ''RELEASED'', ''SHIPPED'']"

definition read_allocs :: "allocation list \<Rightarrow> allocation list" where
  "read_allocs raw = filter (\<lambda>a. 0 < alloc_quantity a) raw"

definition set_hold :: "int \<Rightarrow> (hold \<Rightarrow> hold) \<Rightarrow> stock_db \<Rightarrow> stock_db" where
  "set_hold item f db = db\<lparr>holds := map (\<lambda>h. if hold_item h = item then f h else h) (holds db)\<rparr>"

text \<open>The unique index on the order item.\<close>

definition add_hold :: "hold \<Rightarrow> stock_db \<Rightarrow> stock_db res" where
  "add_hold h db =
     (if get_for_item (hold_item h) db \<noteq> None then Inl IntegrityError
      else Inr (db\<lparr>holds := holds db @ [h]\<rparr>))"

definition reserve_item :: "order_item \<Rightarrow> stock_db \<Rightarrow> stock_db res" where
  "reserve_item item db =
     (case oi_sku item of
        None \<Rightarrow> Inr db
      | Some sku \<Rightarrow>
          if \<not> should_reserve_line (oi_sku item) (oi_quantity item) then Inr db
          else
            let existing = get_for_item (oi_id item) db in
            if \<exists>h\<in>set_option existing. hold_status h \<in> set open_or_done then Inr db
            else
              bindr (draw Reserve ''ORDER'' (Some (oi_order item)) sku (oi_quantity item) db)
                (\<lambda>(taken, short, db).
              let status = (if taken \<noteq> [] then ''OPEN'' else ''SHORT'') in
              case existing of
                None \<Rightarrow>
                  add_hold \<lparr>hold_order = oi_order item, hold_item = oi_id item, hold_sku = sku,
                     hold_quantity = pieces taken, hold_short = short, hold_allocs = taken,
                     hold_status = status\<rparr> db
              | Some _ \<Rightarrow>
                  Inr (set_hold (oi_id item)
                    (\<lambda>h. h\<lparr>hold_quantity := pieces taken, hold_short := short, hold_allocs := taken,
                            hold_status := status\<rparr>) db)))"

definition reserve_order :: "int \<Rightarrow> stock_db \<Rightarrow> stock_db res" where
  "reserve_order order db = each reserve_item (list_items order db) db"

definition release_alloc :: "hold \<Rightarrow> allocation \<Rightarrow> stock_db \<Rightarrow> stock_db res" where
  "release_alloc h a db =
     (case get_pair (hold_sku h) (alloc_warehouse a) db of
        None \<Rightarrow> Inr db
      | Some row \<Rightarrow>
          bindr (commit_change row
            \<lparr>mv_kind = ''RELEASE'', mv_quantity = alloc_quantity a, mv_bucket = Occupied,
             mv_ref_type = ''ORDER'', mv_ref = Some (hold_order h),
             mv_change = no_change\<lparr>d_occupied := - alloc_quantity a\<rparr>\<rparr> db) (\<lambda>(_, db). Inr db))"

definition release_hold :: "hold \<Rightarrow> stock_db \<Rightarrow> stock_db res" where
  "release_hold h db =
     (if hold_status h \<noteq> ''OPEN'' then Inr db
      else
        bindr (each (release_alloc h) (read_allocs (hold_allocs h)) db) (\<lambda>db.
        Inr (set_hold (hold_item h) (\<lambda>h. h\<lparr>hold_status := ''RELEASED''\<rparr>) db)))"

definition release_order :: "int \<Rightarrow> stock_db \<Rightarrow> stock_db res" where
  "release_order order db = each release_hold (filter (\<lambda>h. hold_order h = order) (holds db)) db"

definition ship_alloc :: "int \<Rightarrow> int \<Rightarrow> allocation \<Rightarrow> stock_db \<Rightarrow> stock_db res" where
  "ship_alloc sku order a db =
     (case get_pair sku (alloc_warehouse a) db of
        None \<Rightarrow> Inl (AppError ''NotFoundError'')
      | Some row \<Rightarrow>
          bindr (commit_change row
            \<lparr>mv_kind = ''SHIP'', mv_quantity = alloc_quantity a, mv_bucket = Available,
             mv_ref_type = ''ORDER'', mv_ref = Some order,
             mv_change = no_change\<lparr>d_available := - alloc_quantity a, d_occupied := - alloc_quantity a\<rparr>\<rparr> db)
            (\<lambda>(_, db). Inr db))"

definition ship_item :: "order_item \<Rightarrow> stock_db \<Rightarrow> stock_db res" where
  "ship_item item db =
     (case oi_sku item of
        None \<Rightarrow> Inr db
      | Some sku \<Rightarrow>
          if \<not> should_reserve_line (oi_sku item) (oi_quantity item) then Inr db
          else
            let found = get_for_item (oi_id item) db;
                status = (case found of None \<Rightarrow> '''' | Some h \<Rightarrow> hold_status h);
                shipped = set_hold (oi_id item) (\<lambda>h. h\<lparr>hold_status := ''SHIPPED''\<rparr>) in
            if status = ''SHIPPED'' then Inr db
            else if status = ''OPEN'' then
              bindr (each (ship_alloc sku (oi_order item))
                      (read_allocs (case found of None \<Rightarrow> [] | Some h \<Rightarrow> hold_allocs h)) db) (\<lambda>db.
              Inr (shipped db))
            else if status = ''SHORT'' then Inr (shipped db)
            else
              bindr (draw Outbound ''ORDER'' (Some (oi_order item)) sku (oi_quantity item) db)
                (\<lambda>(taken, _, db).
              add_hold \<lparr>hold_order = oi_order item, hold_item = oi_id item, hold_sku = sku,
                 hold_quantity = pieces taken, hold_short = oi_quantity item - pieces taken,
                 hold_allocs = taken, hold_status = ''SHIPPED''\<rparr> db))"

definition ship_order :: "int \<Rightarrow> stock_db \<Rightarrow> stock_db res" where
  "ship_order order db = each ship_item (list_items order db) db"

section \<open>Returns\<close>

record return_order =
  ro_id :: int
  ro_order :: int
  ro_restock_status :: string
  ro_sellable :: bool

definition get_default :: "stock_db \<Rightarrow> warehouse option" where
  "get_default db = find (\<lambda>w. wh_default w \<and> \<not> wh_deleted w) (warehouses db)"

definition first_fulfillment :: "stock_db \<Rightarrow> warehouse option" where
  "first_fulfillment db =
     (case sort_key (\<lambda>w. (if wh_default w then 0 else 1 :: int, wh_id w))
             (filter (\<lambda>w. \<not> wh_deleted w \<and> wh_type w \<noteq> ''PLATFORM'') (warehouses db)) of
        [] \<Rightarrow> None
      | w # _ \<Rightarrow> Some w)"

definition return_targets :: "order_item \<Rightarrow> stock_db \<Rightarrow> allocation list res" where
  "return_targets item db =
     (let allocs = (case get_for_item (oi_id item) db of None \<Rightarrow> [] | Some h \<Rightarrow> read_allocs (hold_allocs h)) in
      if allocs \<noteq> [] then Inr allocs
      else
        case (case get_default db of Some w \<Rightarrow> Some w | None \<Rightarrow> first_fulfillment db) of
          None \<Rightarrow> Inl (AppError ''ParamInvalidError'')
        | Some w \<Rightarrow> Inr [\<lparr>alloc_warehouse = wh_id w, alloc_quantity = oi_quantity item\<rparr>])"

definition return_alloc :: "return_order \<Rightarrow> int \<Rightarrow> allocation \<Rightarrow> stock_db \<Rightarrow> stock_db res" where
  "return_alloc row sku a db =
     bindr (ensure sku (alloc_warehouse a) db) (\<lambda>(balance, db).
     bindr (commit_change balance
       (if restock_bucket (ro_sellable row) = ''available''
        then \<lparr>mv_kind = ''RETURN_IN'', mv_quantity = alloc_quantity a, mv_bucket = Available,
              mv_ref_type = ''RETURN'', mv_ref = Some (ro_id row),
              mv_change = no_change\<lparr>d_available := alloc_quantity a\<rparr>\<rparr>
        else \<lparr>mv_kind = ''RETURN_IN'', mv_quantity = alloc_quantity a, mv_bucket = Defective,
              mv_ref_type = ''RETURN'', mv_ref = Some (ro_id row),
              mv_change = no_change\<lparr>d_defective := alloc_quantity a\<rparr>\<rparr>) db) (\<lambda>(_, db). Inr db))"

definition return_item :: "return_order \<Rightarrow> order_item \<Rightarrow> stock_db \<Rightarrow> stock_db res" where
  "return_item row item db =
     (case oi_sku item of
        None \<Rightarrow> Inr db
      | Some sku \<Rightarrow>
          if \<not> should_reserve_line (oi_sku item) (oi_quantity item) then Inr db
          else bindr (return_targets item db) (\<lambda>targets. each (return_alloc row sku) targets db))"

definition receive_return :: "return_order \<Rightarrow> stock_db \<Rightarrow> (return_order \<times> stock_db) res" where
  "receive_return row db =
     (if ro_restock_status row \<noteq> ''DEFERRED'' then Inr (row, db)
      else
        bindr (each (return_item row) (list_items (ro_order row) db) db) (\<lambda>db.
        Inr (row\<lparr>ro_restock_status := mark_posted (ro_restock_status row)\<rparr>, db)))"

end
