(* ===== verification/StockDocs.thy ===== *)
theory StockDocs imports StockDesk begin

text \<open>
  Transfers between warehouses, stocktaking and the warehouses themselves
  (\<^verbatim>\<open>app/services/inventory.py\<close>), and the requests the service answers.  A document changes its
  status by an update that checks the old status.
\<close>

section \<open>Transfers\<close>

definition get_transfer :: "int \<Rightarrow> stock_db \<Rightarrow> transfer option" where
  "get_transfer ident db = find (\<lambda>t. tr_id t = ident) (transfers db)"

definition transfer_transition :: "int \<Rightarrow> string \<Rightarrow> string \<Rightarrow> stock_db \<Rightarrow> bool \<times> stock_db" where
  "transfer_transition ident from_status to_status db =
     (list_ex (\<lambda>t. tr_id t = ident \<and> tr_status t = from_status) (transfers db),
      db\<lparr>transfers := map (\<lambda>t. if tr_id t = ident \<and> tr_status t = from_status
                             then t\<lparr>tr_status := to_status\<rparr> else t) (transfers db)\<rparr>)"

text \<open>The lookups of the view: both warehouses and every item must still be there.\<close>

definition transfer_view :: "transfer \<Rightarrow> stock_db \<Rightarrow> stock_db res" where
  "transfer_view t db =
     (if get_warehouse (tr_from t) db = None \<or> get_warehouse (tr_to t) db = None \<or>
         list_ex (\<lambda>l. fst l \<notin> set (skus db)) (tr_lines t)
      then Inl (AppError ''NotFoundError'') else Inr db)"

text \<open>The schema wants 1 to 100 lines with distinct items and quantities from 1 to 1000000.\<close>

definition valid_transfer_lines :: "(int \<times> int) list \<Rightarrow> bool" where
  "valid_transfer_lines lines \<longleftrightarrow> 1 \<le> length lines \<and> length lines \<le> 100 \<and> distinct (map fst lines) \<and>
     list_all (\<lambda>l. 1 \<le> snd l \<and> snd l \<le> 1000000) lines"

definition create_transfer :: "int \<Rightarrow> int \<Rightarrow> (int \<times> int) list \<Rightarrow> stock_db \<Rightarrow> stock_db res" where
  "create_transfer from_wh to_wh lines db =
     (if \<not> valid_transfer_lines lines then Inl ValueError
      else if from_wh = to_wh then Inl (AppError ''TransferWarehouseError'')
      else if get_warehouse from_wh db = None \<or> get_warehouse to_wh db = None
        \<or> list_ex (\<lambda>l. fst l \<notin> set (skus db)) lines
      then Inl (AppError ''NotFoundError'')
      else
        let t = \<lparr>tr_id = next_id db, tr_from = from_wh, tr_to = to_wh, tr_status = ''DRAFT'', tr_lines = lines\<rparr>
        in transfer_view t (db\<lparr>transfers := transfers db @ [t], next_id := next_id db + 1\<rparr>))"

definition bucket_named :: "string \<Rightarrow> bucket" where
  "bucket_named s = (if s = ''in_transit'' then In_transit else Available)"

definition move_leg :: "balance \<Rightarrow> stock_move \<Rightarrow> int \<Rightarrow> int \<Rightarrow> stock_db \<Rightarrow> stock_db res" where
  "move_leg row move quantity ref db =
     bindr (commit_change row
       \<lparr>mv_kind = flow_type move, mv_quantity = quantity, mv_bucket = bucket_named (bucket move),
        mv_ref_type = ''TRANSFER'', mv_ref = Some ref,
        mv_change = no_change\<lparr>d_available := available_delta move, d_in_transit := in_transit_delta move\<rparr>\<rparr> db)
       (\<lambda>(_, db). Inr db)"

definition ship_transfer_line :: "transfer \<Rightarrow> int \<times> int \<Rightarrow> stock_db \<Rightarrow> stock_db res" where
  "ship_transfer_line t line db =
     bindr (ship_moves (snd line)) (\<lambda>(source_move, dest_move).
     bindr (ensure (fst line) (tr_from t) db) (\<lambda>(source, db).
     bindr (ensure (fst line) (tr_to t) db) (\<lambda>(dest, db).
     bindr (move_leg source source_move (snd line) (tr_id t) db) (\<lambda>db.
     move_leg dest dest_move (snd line) (tr_id t) db))))"

definition ship_transfer :: "int \<Rightarrow> stock_db \<Rightarrow> stock_db res" where
  "ship_transfer ident db =
     (case get_transfer ident db of
        None \<Rightarrow> Inl (AppError ''NotFoundError'')
      | Some t \<Rightarrow>
          if tr_status t \<noteq> ''DRAFT'' then Inl (AppError ''TransferStateError'')
          else case transfer_transition ident ''DRAFT'' ''IN_TRANSIT'' db of
            (done_, db) \<Rightarrow>
              if \<not> done_ then Inl (AppError ''TransferStateError'')
              else bindr (each (ship_transfer_line t) (tr_lines t) db) (transfer_view t))"

definition receive_line :: "transfer \<Rightarrow> int \<times> int \<Rightarrow> stock_db \<Rightarrow> stock_db res" where
  "receive_line t line db =
     bindr (ensure (fst line) (tr_to t) db) (\<lambda>(dest, db).
     bindr (receive_move (snd line)) (\<lambda>move.
     move_leg dest move (snd line) (tr_id t) db))"

definition receive_transfer :: "int \<Rightarrow> stock_db \<Rightarrow> stock_db res" where
  "receive_transfer ident db =
     (case get_transfer ident db of
        None \<Rightarrow> Inl (AppError ''NotFoundError'')
      | Some t \<Rightarrow>
          if tr_status t \<noteq> ''IN_TRANSIT'' then Inl (AppError ''TransferStateError'')
          else case transfer_transition ident ''IN_TRANSIT'' ''RECEIVED'' db of
            (done_, db) \<Rightarrow>
              if \<not> done_ then Inl (AppError ''TransferStateError'')
              else bindr (each (receive_line t) (tr_lines t) db) (transfer_view t))"

definition cancel_line :: "transfer \<Rightarrow> int \<times> int \<Rightarrow> stock_db \<Rightarrow> stock_db res" where
  "cancel_line t line db =
     bindr (cancel_transit_moves (snd line)) (\<lambda>(dest_move, source_move).
     bindr (ensure (fst line) (tr_to t) db) (\<lambda>(dest, db).
     bindr (ensure (fst line) (tr_from t) db) (\<lambda>(source, db).
     bindr (move_leg dest dest_move (snd line) (tr_id t) db) (\<lambda>db.
     move_leg source source_move (snd line) (tr_id t) db))))"

definition cancel_transfer :: "int \<Rightarrow> stock_db \<Rightarrow> stock_db res" where
  "cancel_transfer ident db =
     (case get_transfer ident db of
        None \<Rightarrow> Inl (AppError ''NotFoundError'')
      | Some t \<Rightarrow>
          if tr_status t = ''DRAFT'' then
            (case transfer_transition ident ''DRAFT'' ''CANCELLED'' db of
               (done_, db) \<Rightarrow>
                 if \<not> done_ then Inl (AppError ''TransferStateError'') else transfer_view t db)
          else if tr_status t \<noteq> ''IN_TRANSIT'' then Inl (AppError ''TransferStateError'')
          else case transfer_transition ident ''IN_TRANSIT'' ''CANCELLED'' db of
            (done_, db) \<Rightarrow>
              if \<not> done_ then Inl (AppError ''TransferStateError'')
              else bindr (each (cancel_line t) (tr_lines t) db) (transfer_view t))"

section \<open>Stocktaking\<close>

definition get_taking :: "int \<Rightarrow> stock_db \<Rightarrow> taking option" where
  "get_taking ident db = find (\<lambda>k. tk_id k = ident) (takings db)"

definition set_taking :: "int \<Rightarrow> (taking \<Rightarrow> taking) \<Rightarrow> stock_db \<Rightarrow> stock_db" where
  "set_taking ident f db = db\<lparr>takings := map (\<lambda>k. if tk_id k = ident then f k else k) (takings db)\<rparr>"

definition taking_transition :: "int \<Rightarrow> string \<Rightarrow> string \<Rightarrow> stock_db \<Rightarrow> bool \<times> stock_db" where
  "taking_transition ident from_status to_status db =
     (list_ex (\<lambda>k. tk_id k = ident \<and> tk_status k = from_status) (takings db),
      db\<lparr>takings := map (\<lambda>k. if tk_id k = ident \<and> tk_status k = from_status
                           then k\<lparr>tk_status := to_status\<rparr> else k) (takings db)\<rparr>)"

definition taking_view :: "taking \<Rightarrow> stock_db \<Rightarrow> stock_db res" where
  "taking_view k db =
     (if get_warehouse (tk_warehouse k) db = None \<or> list_ex (\<lambda>l. tl_sku l \<notin> set (skus db)) (tk_lines k)
      then Inl (AppError ''NotFoundError'') else Inr db)"

definition create_taking :: "int \<Rightarrow> stock_db \<Rightarrow> stock_db res" where
  "create_taking wh db =
     (if get_warehouse wh db = None then Inl (AppError ''NotFoundError'')
      else
        let rows = filter (\<lambda>b. bal_warehouse b = wh) (balances db) in
        if rows = [] then Inl (AppError ''ParamInvalidError'')
        else
          let k = \<lparr>tk_id = next_id db, tk_warehouse = wh, tk_status = ''DRAFT'',
                   tk_lines = map (\<lambda>b. \<lparr>tl_sku = bal_sku b, tl_book = bal_available b, tl_counted = None\<rparr>) rows,
                   tk_summary = []\<rparr>
          in taking_view k (db\<lparr>takings := takings db @ [k], next_id := next_id db + 1\<rparr>))"

text \<open>The schema wants 1 to 500 lines with distinct items and counts from 0 to 1000000.\<close>

definition valid_counts :: "(int \<times> int) list \<Rightarrow> bool" where
  "valid_counts lines \<longleftrightarrow> 1 \<le> length lines \<and> length lines \<le> 500 \<and> distinct (map fst lines) \<and>
     list_all (\<lambda>l. 0 \<le> snd l \<and> snd l \<le> 1000000) lines"

definition record_line :: "int \<times> int \<Rightarrow> taking \<Rightarrow> taking res" where
  "record_line line k =
     (if list_ex (\<lambda>l. tl_sku l = fst line) (tk_lines k)
      then Inr (k\<lparr>tk_lines := map (\<lambda>l. if tl_sku l = fst line then l\<lparr>tl_counted := Some (snd line)\<rparr> else l)
                   (tk_lines k)\<rparr>)
      else Inl (AppError ''StockTakingStateError''))"

definition record_counts :: "int \<Rightarrow> (int \<times> int) list \<Rightarrow> stock_db \<Rightarrow> stock_db res" where
  "record_counts ident lines db =
     (if \<not> valid_counts lines then Inl ValueError
      else case get_taking ident db of
        None \<Rightarrow> Inl (AppError ''NotFoundError'')
      | Some k \<Rightarrow>
          if tk_status k \<noteq> ''DRAFT'' then Inl (AppError ''StockTakingStateError'')
          else
            bindr (each record_line lines k) (\<lambda>k.
            taking_view k (set_taking ident (\<lambda>_. k) db)))"

text \<open>The differences line by line, with the gains and losses so far.\<close>

fun plan_taking :: "int \<Rightarrow> taking_line list \<Rightarrow> stock_db \<Rightarrow> ((int \<times> int) list \<times> int \<times> int) res" where
  "plan_taking wh [] db = Inr ([], 0, 0)"
| "plan_taking wh (l # ls) db =
     (case tl_counted l of
        None \<Rightarrow> Inl (AppError ''StockTakingStateError'')
      | Some counted \<Rightarrow>
          let d = taking_delta (tl_book l) counted in
          (case get_pair (tl_sku l) wh db of
             None \<Rightarrow> Inl (AppError ''NotFoundError'')
           | Some row \<Rightarrow>
               if \<not> taking_fits (bal_available row) (bal_occupied row) d
               then Inl (AppError ''InventoryInsufficientError'')
               else
                 bindr (plan_taking wh ls db) (\<lambda>(planned, gain, loss).
                 Inr ((tl_sku l, d) # planned, gain + max d 0, loss + max (- d) 0))))"

definition post_line :: "taking \<Rightarrow> int \<times> int \<Rightarrow> stock_db \<Rightarrow> stock_db res" where
  "post_line k line db =
     (if snd line = 0 then Inr db
      else adjust (fst line) (tk_warehouse k) ''ADJUST'' (snd line) ''STOCK_TAKING'' (Some (tk_id k)) db)"

definition post_taking :: "int \<Rightarrow> stock_db \<Rightarrow> stock_db res" where
  "post_taking ident db =
     (case get_taking ident db of
        None \<Rightarrow> Inl (AppError ''NotFoundError'')
      | Some k \<Rightarrow>
          if tk_status k \<noteq> ''DRAFT'' then Inl (AppError ''StockTakingStateError'')
          else if list_ex (\<lambda>l. tl_counted l = None) (tk_lines k)
          then Inl (AppError ''StockTakingStateError'')
          else
            bindr (plan_taking (tk_warehouse k) (tk_lines k) db) (\<lambda>(planned, gain, loss).
            case taking_transition ident ''DRAFT'' ''POSTED'' db of
              (done_, db) \<Rightarrow>
                if \<not> done_ then Inl (AppError ''StockTakingStateError'')
                else
                  bindr (each (post_line k) planned db) (\<lambda>db.
                  taking_view k (set_taking ident
                    (\<lambda>k. k\<lparr>tk_summary := [(''lines'', int (length (tk_lines k))), (''gain_qty'', gain), (''loss_qty'', loss)]\<rparr>)
                    db))))"

definition cancel_taking :: "int \<Rightarrow> stock_db \<Rightarrow> stock_db res" where
  "cancel_taking ident db =
     (case get_taking ident db of
        None \<Rightarrow> Inl (AppError ''NotFoundError'')
      | Some k \<Rightarrow>
          if tk_status k \<noteq> ''DRAFT'' then Inl (AppError ''StockTakingStateError'')
          else case taking_transition ident ''DRAFT'' ''CANCELLED'' db of
            (done_, db) \<Rightarrow>
              if \<not> done_ then Inl (AppError ''StockTakingStateError'') else taking_view k db)"

section \<open>Warehouses\<close>

definition clear_default :: "int option \<Rightarrow> stock_db \<Rightarrow> stock_db" where
  "clear_default except db =
     db\<lparr>warehouses := map (\<lambda>w. if wh_default w \<and> \<not> wh_deleted w \<and> Some (wh_id w) \<noteq> except
                             then w\<lparr>wh_default := False\<rparr> else w) (warehouses db)\<rparr>"

text \<open>The two partial unique indexes of the table.\<close>

definition save_warehouses :: "warehouse list \<Rightarrow> stock_db \<Rightarrow> stock_db res" where
  "save_warehouses ws db =
     (let open_ones = filter (\<lambda>w. \<not> wh_deleted w) ws in
      if \<not> distinct (map wh_code (filter (\<lambda>w. wh_code w \<noteq> None) open_ones))
      then Inl (AppError ''WAREHOUSE_CODE_DUPLICATED'')
      else if 1 < length (filter wh_default open_ones) then Inl (AppError ''OPERATION_CONFLICT'')
      else Inr (db\<lparr>warehouses := ws\<rparr>))"

definition create_warehouse :: "warehouse \<Rightarrow> stock_db \<Rightarrow> stock_db res" where
  "create_warehouse payload db =
     (let db = (if wh_default payload then clear_default None db else db) in
      save_warehouses (warehouses db @ [payload\<lparr>wh_id := next_id db, wh_deleted := False\<rparr>])
        (db\<lparr>next_id := next_id db + 1\<rparr>))"

record warehouse_patch =
  wp_name :: "string option"
  wp_type :: "string option"
  wp_country :: "string option"
  wp_address :: "string option"
  wp_code :: "string option option"
  wp_default :: "bool option"

definition or_kept :: "'a option \<Rightarrow> 'a \<Rightarrow> 'a" where
  "or_kept new old = (case new of None \<Rightarrow> old | Some v \<Rightarrow> v)"

definition patched :: "warehouse_patch \<Rightarrow> warehouse \<Rightarrow> warehouse" where
  "patched p w =
     w\<lparr>wh_name := or_kept (wp_name p) (wh_name w), wh_type := or_kept (wp_type p) (wh_type w),
       wh_country := or_kept (wp_country p) (wh_country w), wh_address := or_kept (wp_address p) (wh_address w),
       wh_code := or_kept (wp_code p) (wh_code w), wh_default := or_kept (wp_default p) (wh_default w)\<rparr>"

definition update_warehouse :: "int \<Rightarrow> warehouse_patch \<Rightarrow> stock_db \<Rightarrow> stock_db res" where
  "update_warehouse ident p db =
     (if get_warehouse ident db = None then Inl (AppError ''NotFoundError'')
      else
        let db = (if wp_default p = Some True then clear_default (Some ident) db else db) in
        save_warehouses
          (map (\<lambda>w. if wh_id w = ident \<and> \<not> wh_deleted w then patched p w else w) (warehouses db)) db)"

definition delete_warehouse :: "int \<Rightarrow> stock_db \<Rightarrow> stock_db res" where
  "delete_warehouse ident db =
     (if get_warehouse ident db = None then Inl (AppError ''NotFoundError'')
      else if list_ex (\<lambda>b. bal_warehouse b = ident \<and>
          (bal_available b \<noteq> 0 \<or> bal_occupied b \<noteq> 0 \<or> bal_in_transit b \<noteq> 0 \<or> bal_defective b \<noteq> 0)) (balances db)
      then Inl (AppError ''ParamInvalidError'')
      else Inr (db\<lparr>warehouses :=
        map (\<lambda>w. if wh_id w = ident \<and> \<not> wh_deleted w then w\<lparr>wh_deleted := True\<rparr> else w) (warehouses db)\<rparr>))"

section \<open>Order lines\<close>

text \<open>What a synchronisation does to the lines of an order: all of them are replaced by new rows.
  The code never fills in their item; the parameter is what a matching step would put there.\<close>

fun new_lines :: "int \<Rightarrow> int \<Rightarrow> (int option \<times> int) list \<Rightarrow> order_item list" where
  "new_lines ident order [] = []"
| "new_lines ident order (l # ls) =
     \<lparr>oi_id = ident, oi_order = order, oi_sku = fst l, oi_quantity = snd l\<rparr> # new_lines (ident + 1) order ls"

definition replace_items :: "int \<Rightarrow> (int option \<times> int) list \<Rightarrow> stock_db \<Rightarrow> stock_db" where
  "replace_items order lines db =
     db\<lparr>order_items := filter (\<lambda>i. oi_order i \<noteq> order) (order_items db) @ new_lines (next_id db) order lines,
        next_id := next_id db + int (length lines)\<rparr>"

section \<open>Requests\<close>

datatype stock_request =
    Rq_adjust int int string int string "int option"
  | Rq_post int int int int string "int option"
  | Rq_safe_stock int int
  | Rq_reserve int
  | Rq_release int
  | Rq_ship int
  | Rq_return return_order
  | Rq_create_transfer int int "(int \<times> int) list"
  | Rq_ship_transfer int
  | Rq_receive_transfer int
  | Rq_cancel_transfer int
  | Rq_create_taking int
  | Rq_record_counts int "(int \<times> int) list"
  | Rq_post_taking int
  | Rq_cancel_taking int
  | Rq_create_warehouse warehouse
  | Rq_update_warehouse int warehouse_patch
  | Rq_delete_warehouse int
  | Rq_replace_items int "(int option \<times> int) list"

fun handle_stock :: "stock_request \<Rightarrow> stock_db \<Rightarrow> stock_db res" where
  "handle_stock (Rq_adjust s w kind q rt r) db = adjust s w kind q rt r db"
| "handle_stock (Rq_post s w a t rt r) db = post_stock s w a t rt r db"
| "handle_stock (Rq_safe_stock i v) db = set_safe_stock i v db"
| "handle_stock (Rq_reserve order) db = reserve_order order db"
| "handle_stock (Rq_release order) db = release_order order db"
| "handle_stock (Rq_ship order) db = ship_order order db"
| "handle_stock (Rq_return row) db = bindr (receive_return row db) (\<lambda>(_, db). Inr db)"
| "handle_stock (Rq_create_transfer a b lines) db = create_transfer a b lines db"
| "handle_stock (Rq_ship_transfer i) db = ship_transfer i db"
| "handle_stock (Rq_receive_transfer i) db = receive_transfer i db"
| "handle_stock (Rq_cancel_transfer i) db = cancel_transfer i db"
| "handle_stock (Rq_create_taking w) db = create_taking w db"
| "handle_stock (Rq_record_counts i lines) db = record_counts i lines db"
| "handle_stock (Rq_post_taking i) db = post_taking i db"
| "handle_stock (Rq_cancel_taking i) db = cancel_taking i db"
| "handle_stock (Rq_create_warehouse w) db = create_warehouse w db"
| "handle_stock (Rq_update_warehouse i p) db = update_warehouse i p db"
| "handle_stock (Rq_delete_warehouse i) db = delete_warehouse i db"
| "handle_stock (Rq_replace_items order lines) db = Inr (replace_items order lines db)"

text \<open>
  A request with the rivals that land while it runs.  When it raises, its own writes are rolled
  back and theirs stay.
\<close>

definition all_land :: "stock_db \<Rightarrow> (int \<times> change) list list \<Rightarrow> stock_db" where
  "all_land db batches = foldl rival_write db (concat batches)"

definition serve_stock :: "stock_db \<Rightarrow> stock_request \<times> (int \<times> change) list list \<Rightarrow> stock_db option" where
  "serve_stock db rq =
     Some (case handle_stock (fst rq) (db\<lparr>rivals := snd rq\<rparr>) of
             Inr db' \<Rightarrow> db'\<lparr>rivals := []\<rparr>
           | Inl _ \<Rightarrow> all_land (db\<lparr>rivals := []\<rparr>) (snd rq))"

end
