(* ===== verification/StockInvariant.thy ===== *)
theory StockInvariant imports StockDocs begin

text \<open>
  The invariants of the stock desk: whatever requests are served and whatever lands in between, every
  balance is sound, the occupied stock of an item in a warehouse is exactly what the open holds
  claim there, and the stock in transit is what shipped transfers still owe plus what purchasing
  posted.
\<close>

section \<open>Claims and debts\<close>

definition pieces_at :: "int \<Rightarrow> allocation list \<Rightarrow> int" where
  "pieces_at w allocs = (\<Sum>a\<leftarrow>allocs. if alloc_warehouse a = w then alloc_quantity a else 0)"

definition claim :: "int \<Rightarrow> int \<Rightarrow> hold \<Rightarrow> int" where
  "claim s w h = (if hold_status h = ''OPEN'' \<and> hold_sku h = s then pieces_at w (hold_allocs h) else 0)"

definition held :: "int \<Rightarrow> int \<Rightarrow> stock_db \<Rightarrow> int" where
  "held s w db = (\<Sum>h\<leftarrow>holds db. claim s w h)"

definition debt :: "int \<Rightarrow> int \<Rightarrow> transfer \<Rightarrow> int" where
  "debt s w t = (if tr_status t = ''IN_TRANSIT'' \<and> tr_to t = w
     then \<Sum>l\<leftarrow>tr_lines t. if fst l = s then snd l else 0 else 0)"

definition owed :: "int \<Rightarrow> int \<Rightarrow> stock_db \<Rightarrow> int" where
  "owed s w db = (\<Sum>t\<leftarrow>transfers db. debt s w t)"

definition holds_ok :: "stock_db \<Rightarrow> bool" where
  "holds_ok db \<longleftrightarrow> distinct (map hold_item (holds db)) \<and>
     (\<forall>h\<in>set (holds db). hold_item h < next_id db \<and>
        (\<forall>a\<in>set (hold_allocs h). 0 < alloc_quantity a \<and>
           (hold_status h = ''OPEN'' \<longrightarrow> has_row (hold_sku h) (alloc_warehouse a) db)))"

definition lines_ok :: "stock_db \<Rightarrow> bool" where
  "lines_ok db \<longleftrightarrow> distinct (map oi_id (order_items db)) \<and>
     (\<forall>i\<in>set (order_items db). oi_id i < next_id db \<and>
        (\<forall>h\<in>set (holds db). hold_item h = oi_id i \<longrightarrow> oi_sku i = Some (hold_sku h)))"

definition transfers_ok :: "stock_db \<Rightarrow> bool" where
  "transfers_ok db \<longleftrightarrow> distinct (map tr_id (transfers db)) \<and> (\<forall>t\<in>set (transfers db). tr_id t < next_id db)"

definition desk_ok :: "stock_db \<Rightarrow> bool" where
  "desk_ok db \<longleftrightarrow> wf_book db \<and> holds_ok db \<and> lines_ok db \<and> transfers_ok db"

definition occupied_gap :: "int \<Rightarrow> int \<Rightarrow> stock_db \<Rightarrow> int" where
  "occupied_gap s w db = stock_at Occupied s w db - held s w db"

definition transit_gap :: "int \<Rightarrow> int \<Rightarrow> stock_db \<Rightarrow> int" where
  "transit_gap s w db = stock_at In_transit s w db - owed s w db"

text \<open>A step that keeps the desk in order and, while the rivals are plain, shifts the two gaps by
  known amounts.\<close>

type_synonym shift = "int \<Rightarrow> int \<Rightarrow> int"

definition shifted :: "shift \<Rightarrow> shift \<Rightarrow> stock_db \<Rightarrow> stock_db \<Rightarrow> bool" where
  "shifted eo et db db' \<longleftrightarrow> (desk_ok db \<longrightarrow> desk_ok db' \<and>
     (plain_rivals db \<longrightarrow> plain_rivals db' \<and>
       (\<forall>s w. occupied_gap s w db' = occupied_gap s w db + eo s w \<and>
              transit_gap s w db' = transit_gap s w db + et s w)))"

abbreviation no_shift :: shift where "no_shift \<equiv> (\<lambda>s w. 0)"

lemma shifted_refl [simp, intro]: "shifted no_shift no_shift db db"
  by (simp add: shifted_def)

lemma shifted_trans:
  assumes "shifted eo et db db'" and "shifted fo ft db' db''"
    and "\<And>s w. go s w = eo s w + fo s w" and "\<And>s w. gt s w = et s w + ft s w"
  shows "shifted go gt db db''"
  using assms by (auto simp: shifted_def)

lemma shifted_still: "shifted no_shift no_shift db db' \<Longrightarrow> shifted fo ft db' db'' \<Longrightarrow> shifted fo ft db db''"
  by (erule (1) shifted_trans) simp_all

lemma desk_okD: "desk_ok db \<Longrightarrow> wf_book db"
  by (simp add: desk_ok_def)

lemma keeps_desk_ok:
  assumes "keeps db db'" and "desk_ok db"
  shows "desk_ok db'"
proof -
  from assms have wf: "wf_book db" and docs: "same_docs db db'" and n: "next_id db \<le> next_id db'"
    by (auto simp: desk_ok_def keeps_def)
  have rows: "has_row s w db'" if "has_row s w db" for s w
    by (rule has_row_keeps [OF assms(1) wf that])
  have "holds_ok db'"
    using assms(2) docs n rows unfolding desk_ok_def holds_ok_def same_docs_def by fastforce
  moreover have "lines_ok db'"
    using assms(2) docs n unfolding desk_ok_def lines_ok_def same_docs_def by fastforce
  moreover have "transfers_ok db'"
    using assms(2) docs n unfolding desk_ok_def transfers_ok_def same_docs_def by fastforce
  ultimately show ?thesis using assms by (simp add: desk_ok_def keeps_def)
qed

lemma moved_shifted:
  assumes "moved e db db'"
  shows "shifted (e Occupied) (e In_transit) db db'"
  unfolding shifted_def
proof (intro impI conjI allI)
  assume ok: "desk_ok db"
  note k = moved_keeps [OF assms]
  show "desk_ok db'" by (rule keeps_desk_ok [OF k ok])
  from k have docs: "same_docs db db'" by (simp add: keeps_def)
  assume plain: "plain_rivals db"
  then show "plain_rivals db'" using k by (simp add: keeps_def)
  from ok have "wf_book db" by (simp add: desk_ok_def)
  note d = movedD [OF assms this plain]
  fix s w
  show "occupied_gap s w db' = occupied_gap s w db + e Occupied s w"
    using d [of Occupied s w] docs by (simp add: occupied_gap_def held_def same_docs_def)
  show "transit_gap s w db' = transit_gap s w db + e In_transit s w"
    using d [of In_transit s w] docs by (simp add: transit_gap_def owed_def same_docs_def)
qed

section \<open>Loops\<close>

text \<open>A loop whose steps are movements moves by the sum of their effects.\<close>

definition summed :: "('a \<Rightarrow> effect) \<Rightarrow> 'a list \<Rightarrow> effect" where
  "summed e xs = (\<lambda>k s w. \<Sum>x\<leftarrow>xs. e x k s w)"

lemma summed_Cons: "summed e (x # xs) = followed_by (e x) (summed e xs)"
  by (simp add: summed_def followed_by_def)

lemma summed_Nil: "summed e [] = nothing"
  by (simp add: summed_def nothing_def)

lemma each_moved:
  assumes "each f xs db = Inr db'" and "wf_book db0" and "keeps db0 db"
    and step: "\<And>x db db'. x \<in> set xs \<Longrightarrow> wf_book db \<Longrightarrow> keeps db0 db \<Longrightarrow> f x db = Inr db' \<Longrightarrow> moved (e x) db db'"
  shows "moved (summed e xs) db db'"
  using assms
proof (induction xs arbitrary: db)
  case Nil
  then show ?case by (simp add: summed_Nil)
next
  case (Cons x xs)
  from Cons.prems(1) obtain db1 where x: "f x db = Inr db1" "each f xs db1 = Inr db'" by (auto simp: res_simps)
  have "wf_book db" by (rule keeps_wf [OF Cons.prems(3,2)])
  from Cons.prems(4) [OF list.set_intros(1) this Cons.prems(3) x(1)] have m: "moved (e x) db db1" .
  have "keeps db0 db1" by (rule keeps_trans [OF Cons.prems(3) moved_keeps [OF m]])
  from Cons.IH [OF x(2) Cons.prems(2) this Cons.prems(4) [OF list.set_intros(2)]]
  show ?case unfolding summed_Cons by (rule moved_trans [OF m])
qed

text \<open>A loop whose steps shift nothing shifts nothing, with a fact that stays true along the way.\<close>

lemma each_shifted:
  assumes "each f xs db = Inr db'" and "P db"
    and step: "\<And>x db db'. x \<in> set xs \<Longrightarrow> P db \<Longrightarrow> desk_ok db \<Longrightarrow> f x db = Inr db' \<Longrightarrow>
      shifted no_shift no_shift db db' \<and> P db'"
  shows "shifted no_shift no_shift db db'"
proof -
  have "desk_ok db \<longrightarrow> P db' \<and> shifted no_shift no_shift db db'"
    using assms
  proof (induction xs arbitrary: db)
    case (Cons x xs)
    from Cons.prems(1) obtain db1 where x: "f x db = Inr db1" "each f xs db1 = Inr db'" by (auto simp: res_simps)
    show ?case
    proof
      assume ok: "desk_ok db"
      from Cons.prems(3) [OF list.set_intros(1) Cons.prems(2) ok x(1)]
      have s: "shifted no_shift no_shift db db1" "P db1" by simp_all
      with ok have "desk_ok db1" by (simp add: shifted_def)
      with Cons.IH [OF x(2) s(2) Cons.prems(3) [OF list.set_intros(2)]] s(1)
      show "P db' \<and> shifted no_shift no_shift db db'" by (auto intro: shifted_still)
    qed
  qed simp
  then show ?thesis by (auto simp: shifted_def)
qed

section \<open>Adjustments and purchasing\<close>

lemma shiftedI: "(desk_ok db \<Longrightarrow> shifted eo et db db') \<Longrightarrow> shifted eo et db db'"
  by (auto simp: shifted_def)

lemma shifted_cong:
  "shifted eo et db db' \<Longrightarrow> (\<And>s w. eo s w = fo s w) \<Longrightarrow> (\<And>s w. et s w = ft s w) \<Longrightarrow> shifted fo ft db db'"
  by (simp add: shifted_def)

lemma shifted_at:
  assumes "moved (at_pair s w c) db db'"
  shows "shifted (\<lambda>s' w'. if s' = s \<and> w' = w then d_occupied c else 0)
    (\<lambda>s' w'. if s' = s \<and> w' = w then d_in_transit c else 0) db db'"
  by (rule shifted_cong [OF moved_shifted [OF assms]]) (simp_all add: at_pair_def)

lemma no_change_simps [simp]:
  "d_available no_change = 0" "d_occupied no_change = 0" "d_defective no_change = 0" "d_in_transit no_change = 0"
  by (simp_all add: no_change_def)

lemma commit_if_moved:
  assumes "(if b then commit_change row m db else Inr (row, db)) = Inr (row', db')"
    and "wf_book db" and "row_of row db"
  shows "moved (if b then at_pair (bal_sku row) (bal_warehouse row) (mv_change m) else nothing) db db' \<and>
    row_of row' db' \<and> same_row row row'"
  using assms commit_change_moved [of row m db row' db'] by (cases b) auto

lemma adjust_shifted:
  assumes "adjust s w kind q rt r db = Inr db'"
  shows "shifted no_shift no_shift db db'"
proof (rule shiftedI)
  assume ok: "desk_ok db"
  obtain c k n where d: "adjust_deltas kind q = (c, k, n)" by (cases "adjust_deltas kind q") auto
  have c: "d_occupied c = 0" "d_in_transit c = 0" using d by (auto simp: adjust_deltas_def split: if_splits)
  from assms obtain row db1 where e: "ensure s w db = Inr (row, db1)"
    by (auto simp: adjust_def res_simps split: if_splits)
  with assms d obtain m row' where m: "commit_change row m db1 = Inr (row', db')" "mv_change m = c"
    by (auto simp: adjust_def res_simps split: if_splits)
  note em = ensure_moved [OF e]
  have "wf_book db1" using em moved_keeps keeps_wf desk_okD [OF ok] by blast
  from commit_change_moved [OF m(1) this] em have "moved (at_pair s w c) db1 db'" by (simp add: m(2))
  with em have "moved (at_pair s w c) db db'" using moved_trans [of nothing db db1] by fastforce
  from shifted_cong [OF shifted_at [OF this]] c show "shifted no_shift no_shift db db'" by simp
qed

lemma post_stock_shifted:
  assumes "post_stock s w a t rt r db = Inr db'"
  shows "shifted no_shift (\<lambda>s' w'. if s' = s \<and> w' = w then t else 0) db db'"
proof (rule shiftedI)
  assume ok: "desk_ok db"
  show "shifted no_shift (\<lambda>s' w'. if s' = s \<and> w' = w then t else 0) db db'"
  proof (cases "a = 0 \<and> t = 0")
    case True
    with assms show ?thesis by (simp add: post_stock_def shifted_def)
  next
    case False
    let ?ma = "\<lparr>mv_kind = (if a > 0 then ''INBOUND'' else ''OUTBOUND''), mv_quantity = \<bar>a\<bar>, mv_bucket = Available,
        mv_ref_type = rt, mv_ref = r, mv_change = no_change\<lparr>d_available := a\<rparr>\<rparr>"
    let ?mt = "\<lparr>mv_kind = ''ADJUST'', mv_quantity = \<bar>t\<bar>, mv_bucket = In_transit, mv_ref_type = rt, mv_ref = r,
        mv_change = no_change\<lparr>d_in_transit := t\<rparr>\<rparr>"
    from assms False obtain row db1 row2 db2 row3 where
      e: "ensure s w db = Inr (row, db1)"
      and c1: "(if a \<noteq> 0 then commit_change row ?ma db1 else Inr (row, db1)) = Inr (row2, db2)"
      and c2: "(if t \<noteq> 0 then commit_change row2 ?mt db2 else Inr (row2, db2)) = Inr (row3, db')"
      unfolding post_stock_def bindr_eq_Inr if_not_P [OF False] split_paired_Ex prod.case by blast
    note em = ensure_moved [OF e]
    have wf1: "wf_book db1" using em moved_keeps keeps_wf desk_okD [OF ok] by blast
    note m1 = commit_if_moved [OF c1 wf1 em [THEN conjunct2, THEN conjunct1]]
    have wf2: "wf_book db2" using m1 moved_keeps keeps_wf wf1 by blast
    note m2 = commit_if_moved [OF c2 wf2 m1 [THEN conjunct2, THEN conjunct1]]
    have r: "bal_sku row = s" "bal_warehouse row = w" using em by auto
    have r2: "bal_sku row2 = s" "bal_warehouse row2 = w" using m1 r by (auto simp: same_row_def)
    have "moved (followed_by (if a \<noteq> 0 then at_pair s w (mv_change ?ma) else nothing)
        (if t \<noteq> 0 then at_pair s w (mv_change ?mt) else nothing)) db db'"
      using moved_trans [OF moved_trans [OF em [THEN conjunct1] m1 [THEN conjunct1]] m2 [THEN conjunct1]]
      unfolding r r2 followed_by_nothing .
    from shifted_cong [OF moved_shifted [OF this]] show ?thesis
      by (simp add: followed_by_def at_pair_def nothing_def)
  qed
qed

lemma set_safe_stock_shifted:
  assumes "set_safe_stock i v db = Inr db'"
  shows "shifted no_shift no_shift db db'"
proof (rule shiftedI)
  assume "desk_ok db"
  then have wf: "wf_book db" by (rule desk_okD)
  from assms obtain b where b: "find_balance i db = Some b" and db': "db' = put_balance (b\<lparr>bal_safe_stock := v\<rparr>) db"
    by (auto simp: set_safe_stock_def split: if_splits option.splits)
  from find_balance_SomeD [OF b] have mem: "b \<in> set (balances db)" by simp
  let ?f = "\<lambda>x. if bal_id x = bal_id b then b\<lparr>bal_safe_stock := v\<rparr> else x"
  have same: "qty k (?f x) = qty k x \<and> same_row x (?f x) \<and> (sound_balance x \<longrightarrow> sound_balance (?f x))"
    if "x \<in> set (balances db)" for x k
    using same_id [OF wf mem that] by (cases k) (auto simp: same_row_def sound_balance_def)
  have bs: "balances db' = map ?f (balances db)" by (simp add: db')
  have ids: "map bal_id (balances db') = map bal_id (balances db)"
    unfolding bs map_map comp_def using same by (intro map_cong refl) (simp add: same_row_def)
  have "bal_id x < next_id db' \<and> sound_balance x" if x: "x \<in> set (balances db')" for x
  proof -
    from x obtain y where y: "y \<in> set (balances db)" "x = ?f y" unfolding bs by auto
    with same [OF y(1)] wf show ?thesis unfolding wf_book_def same_row_def db' put_balance_simps by metis
  qed
  then have "wf_book db'" using wf unfolding wf_book_def ids by blast
  moreover have "row_of x db'" if x: "row_of x db" for x
  proof -
    from x obtain y where y: "y \<in> set (balances db)" "same_row x y" by (auto simp: row_of_def)
    then have "same_row x (?f y)" using same [OF y(1)] unfolding same_row_def by metis
    moreover have "?f y \<in> set (balances db')" unfolding bs list.set_map by (rule imageI [OF y(1)])
    ultimately show ?thesis unfolding row_of_def by blast
  qed
  moreover have "stock_at k s w db' = stock_at k s w db" for k s w
  proof -
    have "(if bal_sku (?f x) = s \<and> bal_warehouse (?f x) = w then qty k (?f x) else 0) =
        (if bal_sku x = s \<and> bal_warehouse x = w then qty k x else 0)" if "x \<in> set (balances db)" for x
      using same [OF that, of k] unfolding same_row_def by presburger
    then show ?thesis
      unfolding stock_at_def bs map_map comp_def by (intro arg_cong [where f = sum_list] map_cong refl)
  qed
  ultimately have "moved nothing db db'"
    by (auto simp: moved_def keeps_def db' plain_rivals_def nothing_apply)
  from shifted_cong [OF moved_shifted [OF this]] show "shifted no_shift no_shift db db'"
    by (simp add: nothing_def)
qed

section \<open>Holds\<close>

lemma get_for_item_SomeD: "get_for_item i db = Some h \<Longrightarrow> h \<in> set (holds db) \<and> hold_item h = i"
  by (auto simp: get_for_item_def find_Some_iff)

text \<open>What a hold must satisfy to be stored.\<close>

definition hold_fits :: "stock_db \<Rightarrow> hold \<Rightarrow> bool" where
  "hold_fits db h \<longleftrightarrow> hold_item h < next_id db \<and>
     (\<forall>a\<in>set (hold_allocs h). 0 < alloc_quantity a \<and>
        (hold_status h = ''OPEN'' \<longrightarrow> has_row (hold_sku h) (alloc_warehouse a) db)) \<and>
     (\<forall>i\<in>set (order_items db). hold_item h = oi_id i \<longrightarrow> oi_sku i = Some (hold_sku h))"

lemma desk_ok_holds: "desk_ok db \<Longrightarrow> distinct (map hold_item (holds db)) \<and> (\<forall>h\<in>set (holds db). hold_fits db h)"
  by (auto simp: desk_ok_def holds_ok_def lines_ok_def hold_fits_def)

lemma desk_ok_holdsI:
  assumes "desk_ok db" and "distinct (map hold_item hs)" and "\<forall>h\<in>set hs. hold_fits db h"
  shows "desk_ok (db\<lparr>holds := hs\<rparr>)"
  using assms unfolding desk_ok_def holds_ok_def lines_ok_def transfers_ok_def hold_fits_def wf_book_def
    plain_rivals_def has_row_def by simp

lemma holds_gaps:
  "occupied_gap s w (db\<lparr>holds := hs\<rparr>) = occupied_gap s w db + held s w db - (\<Sum>h\<leftarrow>hs. claim s w h)"
  "transit_gap s w (db\<lparr>holds := hs\<rparr>) = transit_gap s w db"
  by (simp_all add: occupied_gap_def transit_gap_def stock_at_def held_def owed_def)

lemma add_hold_shifted:
  assumes "add_hold h db = Inr db'" and "hold_fits db h"
  shows "shifted (\<lambda>s w. - claim s w h) no_shift db db' \<and> order_items db' = order_items db"
proof -
  from assms(1) have db': "db' = db\<lparr>holds := holds db @ [h]\<rparr>" and free: "get_for_item (hold_item h) db = None"
    by (auto simp: add_hold_def split: if_splits)
  have "desk_ok db'" if ok: "desk_ok db"
    unfolding db' using desk_ok_holds [OF ok] assms(2) free
    by (intro desk_ok_holdsI [OF ok]) (auto simp: get_for_item_def find_None_iff)
  then show ?thesis by (simp add: shifted_def db' holds_gaps held_def plain_rivals_def)
qed

lemma set_hold_shifted:
  assumes "get_for_item i db = Some h" and "hold_item (f h) = i" and "hold_fits db (f h)"
  shows "shifted (\<lambda>s w. claim s w h - claim s w (f h)) no_shift db (set_hold i f db) \<and>
    order_items (set_hold i f db) = order_items db"
proof -
  from get_for_item_SomeD [OF assms(1)] have h: "h \<in> set (holds db)" "hold_item h = i" by auto
  let ?hs = "map (\<lambda>x. if hold_item x = i then f x else x) (holds db)"
  have eq: "?hs = map (\<lambda>x. if hold_item x = i then f h else x) (holds db)" if "distinct (map hold_item (holds db))"
    using that h by (intro map_cong refl) (auto simp: distinct_map inj_on_def)
  have "desk_ok (db\<lparr>holds := ?hs\<rparr>) \<and> (\<forall>s w. (\<Sum>x\<leftarrow>?hs. claim s w x) = held s w db + claim s w (f h) - claim s w h)"
    if ok: "desk_ok db"
  proof
    from desk_ok_holds [OF ok] have d: "distinct (map hold_item (holds db))" and fits: "\<forall>x\<in>set (holds db). hold_fits db x"
      by auto
    have ids: "map hold_item ?hs = map hold_item (holds db)"
      unfolding eq [OF d] using assms(2) by (auto simp: comp_def)
    show "desk_ok (db\<lparr>holds := ?hs\<rparr>)"
    proof (rule desk_ok_holdsI [OF ok])
      show "distinct (map hold_item ?hs)" unfolding ids by (rule d)
      show "\<forall>x\<in>set ?hs. hold_fits db x" unfolding eq [OF d] using fits assms(3) by auto
    qed
    have "(\<Sum>x\<leftarrow>?hs. claim s w x) = held s w db + (claim s w (f h) - claim s w h)" for s w
      unfolding held_def h(2) [symmetric] map_map comp_def
      by (rule sum_list_map_replace [where k = hold_item and f = f and g = "claim s w", OF d h(1)])
    then show "\<forall>s w. (\<Sum>x\<leftarrow>?hs. claim s w x) = held s w db + claim s w (f h) - claim s w h" by simp
  qed
  then show ?thesis by (simp add: shifted_def set_hold_def holds_gaps plain_rivals_def)
qed

section \<open>Orders\<close>

lemma drawn_Reserve: "drawn Reserve sku as Occupied s w = (if s = sku then pieces_at w as else 0)"
  "drawn Reserve sku as In_transit s w = 0"
  by (simp_all add: drawn_def pieces_at_def cong: if_cong)

lemma drawn_Outbound: "drawn Outbound sku as Occupied s w = 0" "drawn Outbound sku as In_transit s w = 0"
  by (simp_all add: drawn_def cong: if_cong)

lemma docs_of_moved: "moved e db db' \<Longrightarrow> same_docs db db' \<and> next_id db \<le> next_id db'"
  by (simp add: moved_def keeps_def)

lemma fitting_hold:
  assumes "desk_ok db" and "i \<in> set (order_items db)" and "oi_sku i = Some sku" and "moved e db db1"
    and "\<forall>a\<in>set taken. 0 < alloc_quantity a \<and> has_row sku (alloc_warehouse a) db1"
    and "hold_item h = oi_id i" and "hold_sku h = sku" and "hold_allocs h = taken"
  shows "hold_fits db1 h"
proof -
  from assms(1) have l: "lines_ok db" by (simp add: desk_ok_def)
  have docs: "order_items db1 = order_items db" "next_id db \<le> next_id db1"
    using docs_of_moved [OF assms(4)] by (auto simp: same_docs_def)
  have "x = i" if "x \<in> set (order_items db)" "oi_id x = oi_id i" for x
    using l that assms(2) unfolding lines_ok_def by (meson distinct_map inj_onD)
  then have "\<forall>x\<in>set (order_items db1). hold_item h = oi_id x \<longrightarrow> oi_sku x = Some (hold_sku h)"
    using docs assms(3,6,7) by metis
  moreover have "hold_item h < next_id db1" using l assms(2,6) docs(2) unfolding lines_ok_def by force
  ultimately show ?thesis unfolding hold_fits_def assms(7,8) using assms(5) by blast
qed

lemma reserve_item_shifted:
  assumes "reserve_item i db = Inr db'" and ok: "desk_ok db" and i: "i \<in> set (order_items db)"
  shows "shifted no_shift no_shift db db' \<and> order_items db' = order_items db"
proof -
  let ?old = "get_for_item (oi_id i) db"
  consider "db' = db" | sku taken short db1 where "oi_sku i = Some sku"
      "\<not> (\<exists>h\<in>set_option ?old. hold_status h \<in> set open_or_done)" "0 < oi_quantity i"
      "draw Reserve ''ORDER'' (Some (oi_order i)) sku (oi_quantity i) db = Inr (taken, short, db1)"
      "(case ?old of None \<Rightarrow> add_hold \<lparr>hold_order = oi_order i, hold_item = oi_id i, hold_sku = sku,
             hold_quantity = pieces taken, hold_short = short, hold_allocs = taken,
             hold_status = (if taken \<noteq> [] then ''OPEN'' else ''SHORT'')\<rparr> db1
         | Some _ \<Rightarrow> Inr (set_hold (oi_id i) (\<lambda>h. h\<lparr>hold_quantity := pieces taken, hold_short := short,
             hold_allocs := taken, hold_status := (if taken \<noteq> [] then ''OPEN'' else ''SHORT'')\<rparr>) db1)) = Inr db'"
    using assms(1)
    by (auto simp: reserve_item_def should_reserve_line_def Let_def res_simps split: option.splits if_splits)
  then show ?thesis
  proof cases
    case 2
    from draw_moved [OF 2(4) desk_okD [OF ok]] 2(3)
    have m: "moved (drawn Reserve sku taken) db db1"
      and t: "\<forall>a\<in>set taken. 0 < alloc_quantity a \<and> has_row sku (alloc_warehouse a) db1" by auto
    have docs: "order_items db1 = order_items db" "holds db1 = holds db"
      using docs_of_moved [OF m] by (auto simp: same_docs_def)
    have s1: "shifted (\<lambda>s w. if s = sku then pieces_at w taken else 0) no_shift db db1"
      by (rule shifted_cong [OF moved_shifted [OF m]]) (simp_all add: drawn_Reserve)
    note fits = fitting_hold [OF ok i 2(1) m t]
    have old1: "get_for_item (oi_id i) db1 = ?old" by (simp add: get_for_item_def docs)
    have empty: "pieces_at w [] = 0" for w by (simp add: pieces_at_def)
    show ?thesis
    proof (cases ?old)
      case None
      let ?h = "\<lparr>hold_order = oi_order i, hold_item = oi_id i, hold_sku = sku, hold_quantity = pieces taken,
        hold_short = short, hold_allocs = taken, hold_status = (if taken \<noteq> [] then ''OPEN'' else ''SHORT'')\<rparr>"
      from 2(5) None have "add_hold ?h db1 = Inr db'" by simp
      from add_hold_shifted [OF this fits] have
        s2: "shifted (\<lambda>s w. - claim s w ?h) no_shift db1 db' \<and> order_items db' = order_items db1" by simp
      have "claim s w ?h = (if s = sku then pieces_at w taken else 0)" for s w
        using empty by (simp add: claim_def)
      then show ?thesis using shifted_trans [OF s1 s2 [THEN conjunct1]] s2 docs by simp
    next
      case (Some h)
      let ?f = "\<lambda>h. h\<lparr>hold_quantity := pieces taken, hold_short := short, hold_allocs := taken,
        hold_status := (if taken \<noteq> [] then ''OPEN'' else ''SHORT'')\<rparr>"
      from 2(5) Some have db': "db' = set_hold (oi_id i) ?f db1" by simp
      from get_for_item_SomeD [OF Some] have hm: "h \<in> set (holds db)" "hold_item h = oi_id i" by auto
      have hs: "hold_sku h = sku"
        using ok hm i 2(1) unfolding desk_ok_def lines_ok_def by fastforce
      have "hold_fits db1 (?f h)" by (rule fits) (simp_all add: hm hs)
      from set_hold_shifted [where f = ?f, OF Some [folded old1] _ this]
      have s2: "shifted (\<lambda>s w. claim s w h - claim s w (?f h)) no_shift db1 db' \<and> order_items db' = order_items db1"
        by (simp add: db' hm)
      have "claim s w (?f h) = (if s = sku then pieces_at w taken else 0)" "claim s w h = 0" for s w
        using 2(2) empty Some hs by (auto simp: claim_def open_or_done_def)
      then show ?thesis using shifted_trans [OF s1 s2 [THEN conjunct1]] s2 docs by simp
    qed
  qed simp
qed

lemma list_items_mem: "i \<in> set (list_items order db) \<Longrightarrow> i \<in> set (order_items db)"
  by (simp add: list_items_def)

lemma reserve_order_shifted:
  assumes "reserve_order order db = Inr db'"
  shows "shifted no_shift no_shift db db'"
  by (rule each_shifted [where P = "\<lambda>x. order_items x = order_items db",
        OF assms [unfolded reserve_order_def] refl])
    (use reserve_item_shifted list_items_mem in metis)

lemma commit_pair:
  assumes "get_pair s w db = Some row" and "commit_change row m db = Inr (row', db')" and "wf_book db"
  shows "moved (at_pair s w (mv_change m)) db db'"
  using commit_change_moved [OF assms(2,3)] get_pair_SomeD [OF assms(1)] row_of_found by fastforce

lemma summed_at_pair:
  assumes "\<And>a. d_occupied (c a) = - alloc_quantity a" and "\<And>a. d_in_transit (c a) = 0"
  shows "summed (\<lambda>a. at_pair sku (alloc_warehouse a) (c a)) as Occupied s w =
      (if s = sku then - pieces_at w as else 0)"
    and "summed (\<lambda>a. at_pair sku (alloc_warehouse a) (c a)) as In_transit s w = 0"
proof -
  have "(\<Sum>a\<leftarrow>as. if w = alloc_warehouse a then - alloc_quantity a else 0) = - pieces_at w as"
    unfolding pieces_at_def by (induction as) auto
  then show "summed (\<lambda>a. at_pair sku (alloc_warehouse a) (c a)) as Occupied s w =
      (if s = sku then - pieces_at w as else 0)"
    by (simp add: summed_def at_pair_def assms cong: if_cong)
  show "summed (\<lambda>a. at_pair sku (alloc_warehouse a) (c a)) as In_transit s w = 0"
    by (simp add: summed_def at_pair_def assms cong: if_cong)
qed

lemma read_allocs_id: "hold_fits db h \<Longrightarrow> read_allocs (hold_allocs h) = hold_allocs h"
  by (simp add: read_allocs_def hold_fits_def filter_id_conv)

text \<open>A loop that takes every piece of an open hold out of the occupied stock.\<close>

lemma taken_back:
  assumes "each f as db = Inr db1" and ok: "desk_ok db" and h: "h \<in> set (holds db)" "hold_status h = ''OPEN''"
    and as: "as = hold_allocs h"
    and step: "\<And>a row db db'. a \<in> set as \<Longrightarrow> f a db = Inr db' \<Longrightarrow>
      get_pair (hold_sku h) (alloc_warehouse a) db = Some row \<Longrightarrow>
      \<exists>m row'. commit_change row m db = Inr (row', db') \<and> mv_change m = c a"
    and c: "\<And>a. d_occupied (c a) = - alloc_quantity a" "\<And>a. d_in_transit (c a) = 0"
  shows "shifted (\<lambda>s w. - claim s w h) no_shift db db1 \<and> keeps db db1"
proof -
  have fits: "hold_fits db h" using desk_ok_holds [OF ok] h(1) by blast
  note wf = desk_okD [OF ok]
  have "moved (at_pair (hold_sku h) (alloc_warehouse a) (c a)) x x'"
    if a: "a \<in> set as" and x: "wf_book x" "keeps db x" "f a x = Inr x'" for a x x'
  proof -
    have "has_row (hold_sku h) (alloc_warehouse a) db" using fits h(2) a as by (simp add: hold_fits_def)
    from has_row_keeps [OF x(2) wf this] obtain row where row: "get_pair (hold_sku h) (alloc_warehouse a) x = Some row"
      using get_pair_None by blast
    from step [OF a x(3) row] obtain m row' where "commit_change row m x = Inr (row', x')" "mv_change m = c a" by blast
    with commit_pair [OF row this(1) x(1)] show ?thesis by simp
  qed
  from each_moved [OF assms(1) wf keeps_refl this]
  have m: "moved (summed (\<lambda>a. at_pair (hold_sku h) (alloc_warehouse a) (c a)) as) db db1" .
  have "shifted (\<lambda>s w. - claim s w h) no_shift db db1"
    by (rule shifted_cong [OF moved_shifted [OF m]]) (use h(2) as in \<open>simp_all add: summed_at_pair c claim_def\<close>)
  with moved_keeps [OF m] show ?thesis by simp
qed

text \<open>The status of an open hold is then closed, and the books meet again.\<close>

lemma close_hold:
  assumes s: "shifted (\<lambda>s w. - claim s w h) no_shift db db1" "keeps db db1" and ok: "desk_ok db"
    and h: "h \<in> set (holds db)" and v: "v \<noteq> ''OPEN''"
  shows "shifted no_shift no_shift db (set_hold (hold_item h) (\<lambda>h. h\<lparr>hold_status := v\<rparr>) db1) \<and>
    order_items (set_hold (hold_item h) (\<lambda>h. h\<lparr>hold_status := v\<rparr>) db1) = order_items db"
proof -
  let ?f = "\<lambda>h. h\<lparr>hold_status := v\<rparr>"
  from s(2) have docs: "holds db1 = holds db" "order_items db1 = order_items db"
    by (simp_all add: keeps_def same_docs_def)
  have ok1: "desk_ok db1" using s(1) ok by (simp add: shifted_def)
  note d1 = desk_ok_holds [OF ok1]
  have found: "get_for_item (hold_item h) db1 = Some h"
  proof (cases "get_for_item (hold_item h) db1")
    case None
    then show ?thesis using h docs by (auto simp: get_for_item_def find_None_iff)
  next
    case (Some x)
    from get_for_item_SomeD [OF Some] d1 h docs show ?thesis
      unfolding Some by (auto simp: distinct_map dest: inj_onD)
  qed
  have "hold_fits db1 (?f h)" using d1 h docs v by (simp add: hold_fits_def)
  from set_hold_shifted [where f = ?f, OF found _ this]
  have s2: "shifted (\<lambda>s w. claim s w h - claim s w (?f h)) no_shift db1 (set_hold (hold_item h) ?f db1) \<and>
      order_items (set_hold (hold_item h) ?f db1) = order_items db" by (simp add: docs)
  have "claim s w (?f h) = 0" for s w using v by (simp add: claim_def)
  then show ?thesis using shifted_trans [OF s(1) s2 [THEN conjunct1]] s2 by simp
qed

lemma release_hold_shifted:
  assumes r: "release_hold h db = Inr db'" and ok: "desk_ok db" and h: "h \<in> set (holds db)"
  shows "shifted no_shift no_shift db db'"
proof (cases "hold_status h = ''OPEN''")
  case False
  with r show ?thesis by (simp add: release_hold_def)
next
  case True
  have fits: "hold_fits db h" using desk_ok_holds [OF ok] h by blast
  from r True obtain db1 where e: "each (release_alloc h) (hold_allocs h) db = Inr db1"
    and db': "db' = set_hold (hold_item h) (\<lambda>h. h\<lparr>hold_status := ''RELEASED''\<rparr>) db1"
    by (auto simp: release_hold_def res_simps read_allocs_id [OF fits])
  have "shifted (\<lambda>s w. - claim s w h) no_shift db db1 \<and> keeps db db1"
    by (rule taken_back [OF e ok h True refl, where c = "\<lambda>a. no_change\<lparr>d_occupied := - alloc_quantity a\<rparr>"])
      (auto simp: release_alloc_def res_simps)
  with close_hold [of h db db1 "''RELEASED''"] ok h show ?thesis by (simp add: db')
qed

lemma release_hold_others:
  assumes r: "release_hold h db = Inr db'" and ok: "desk_ok db" and h: "h \<in> set (holds db)"
    and x: "x \<in> set (holds db)" "hold_item x \<noteq> hold_item h"
  shows "x \<in> set (holds db')"
proof (cases "hold_status h = ''OPEN''")
  case False
  with r x show ?thesis by (simp add: release_hold_def)
next
  case True
  have fits: "hold_fits db h" using desk_ok_holds [OF ok] h by blast
  from r True obtain db1 where e: "each (release_alloc h) (hold_allocs h) db = Inr db1"
    and db': "db' = set_hold (hold_item h) (\<lambda>h. h\<lparr>hold_status := ''RELEASED''\<rparr>) db1"
    by (auto simp: release_hold_def res_simps read_allocs_id [OF fits])
  have "shifted (\<lambda>s w. - claim s w h) no_shift db db1 \<and> keeps db db1"
    by (rule taken_back [OF e ok h True refl, where c = "\<lambda>a. no_change\<lparr>d_occupied := - alloc_quantity a\<rparr>"])
      (auto simp: release_alloc_def res_simps)
  then have "x \<in> set (holds db1)" using x by (simp add: keeps_def same_docs_def)
  with x(2) show ?thesis by (force simp: db' set_hold_def)
qed

lemma release_order_shifted:
  assumes "release_order order db = Inr db'"
  shows "shifted no_shift no_shift db db'"
proof -
  have loop: "shifted no_shift no_shift db db'"
    if "each release_hold hs db = Inr db'" "desk_ok db" "distinct (map hold_item hs)" "set hs \<subseteq> set (holds db)" for hs db
    using that
  proof (induction hs arbitrary: db)
    case (Cons h hs)
    from Cons.prems(1) obtain db1 where r: "release_hold h db = Inr db1" "each release_hold hs db1 = Inr db'"
      by (auto simp: res_simps)
    have h: "h \<in> set (holds db)" using Cons.prems(4) by simp
    note s = release_hold_shifted [OF r(1) Cons.prems(2) h]
    have ok1: "desk_ok db1" using s Cons.prems(2) by (simp add: shifted_def)
    have sub: "set hs \<subseteq> set (holds db1)"
    proof
      fix x assume x: "x \<in> set hs"
      then have "x \<in> set (holds db)" "hold_item x \<in> hold_item ` set hs" using Cons.prems(4) by auto
      moreover have "hold_item h \<notin> hold_item ` set hs" using Cons.prems(3) by simp
      ultimately have "hold_item x \<noteq> hold_item h" "x \<in> set (holds db)" by auto
      with release_hold_others [OF r(1) Cons.prems(2) h] show "x \<in> set (holds db1)" by blast
    qed
    have "distinct (map hold_item hs)" using Cons.prems(3) by simp
    from shifted_still [OF s Cons.IH [OF r(2) ok1 this sub]] show ?case .
  qed simp
  show ?thesis
  proof (rule shiftedI)
    assume ok: "desk_ok db"
    show "shifted no_shift no_shift db db'"
      by (rule loop [OF assms [unfolded release_order_def] ok])
        (use desk_ok_holds [OF ok] in \<open>auto simp: distinct_map inj_on_def\<close>)
  qed
qed

lemma ship_item_shifted:
  assumes r: "ship_item i db = Inr db'" and ok: "desk_ok db" and i: "i \<in> set (order_items db)"
  shows "shifted no_shift no_shift db db' \<and> order_items db' = order_items db"
proof -
  let ?found = "get_for_item (oi_id i) db" and ?f = "\<lambda>h. h\<lparr>hold_status := ''SHIPPED''\<rparr>"
  consider "db' = db"
    | sku h db1 where "oi_sku i = Some sku" "?found = Some h" "hold_status h = ''OPEN''"
        "each (ship_alloc sku (oi_order i)) (read_allocs (hold_allocs h)) db = Inr db1"
        "db' = set_hold (oi_id i) ?f db1"
    | h where "?found = Some h" "hold_status h = ''SHORT''" "db' = set_hold (oi_id i) ?f db"
    | sku taken short db1 where "oi_sku i = Some sku" "0 < oi_quantity i"
        "draw Outbound ''ORDER'' (Some (oi_order i)) sku (oi_quantity i) db = Inr (taken, short, db1)"
        "add_hold \<lparr>hold_order = oi_order i, hold_item = oi_id i, hold_sku = sku, hold_quantity = pieces taken,
           hold_short = oi_quantity i - pieces taken, hold_allocs = taken, hold_status = ''SHIPPED''\<rparr> db1 = Inr db'"
  proof (cases "oi_sku i = None \<or> \<not> 0 < oi_quantity i")
    case True
    with r that(1) show thesis by (auto simp: ship_item_def should_reserve_line_def split: option.splits)
  next
    case False
    then obtain sku where sku: "oi_sku i = Some sku" and q: "0 < oi_quantity i" by auto
    note r = r [unfolded ship_item_def sku option.case should_reserve_line_def Let_def]
    show thesis
    proof (cases ?found)
      case None
      with r q that(4) [OF sku q] show thesis by (auto simp: res_simps)
    next
      case (Some h)
      consider "hold_status h = ''SHIPPED''" | "hold_status h = ''OPEN''" | "hold_status h = ''SHORT''"
        | "hold_status h \<notin> {''SHIPPED'', ''OPEN'', ''SHORT''}" by blast
      then show thesis
      proof cases
        case 1
        with r q Some that(1) show thesis by simp
      next
        case 2
        with r q Some that(2) [OF sku Some 2] show thesis by (auto simp: res_simps)
      next
        case 3
        with r q Some that(3) [OF Some 3] show thesis by simp
      next
        case 4
        with r q Some that(4) [OF sku q] show thesis by (auto simp: res_simps)
      qed
    qed
  qed
  then show ?thesis
  proof cases
    case 2
    from get_for_item_SomeD [OF 2(2)] have h: "h \<in> set (holds db)" "hold_item h = oi_id i" by auto
    have fits: "hold_fits db h" using desk_ok_holds [OF ok] h by blast
    have sku: "hold_sku h = sku" using ok h i 2(1) unfolding desk_ok_def lines_ok_def by fastforce
    have e: "each (ship_alloc sku (oi_order i)) (hold_allocs h) db = Inr db1"
      using 2(4) by (simp add: read_allocs_id [OF fits])
    have "shifted (\<lambda>s w. - claim s w h) no_shift db db1 \<and> keeps db db1"
      by (rule taken_back [OF e ok h(1) 2(3) refl,
            where c = "\<lambda>a. no_change\<lparr>d_available := - alloc_quantity a, d_occupied := - alloc_quantity a\<rparr>"])
        (auto simp: ship_alloc_def res_simps sku split: option.splits)
    with close_hold [of h db db1 "''SHIPPED''"] ok h show ?thesis by (simp add: 2(5))
  next
    case 3
    from get_for_item_SomeD [OF 3(1)] have h: "h \<in> set (holds db)" "hold_item h = oi_id i" by auto
    have "claim s w h = 0" for s w using 3(2) by (simp add: claim_def)
    with close_hold [of h db db "''SHIPPED''"] ok h show ?thesis by (simp add: 3(3) keeps_refl)
  next
    case 4
    from draw_moved [OF 4(3) desk_okD [OF ok]] 4(2)
    have m: "moved (drawn Outbound sku taken) db db1"
      and t: "\<forall>a\<in>set taken. 0 < alloc_quantity a \<and> has_row sku (alloc_warehouse a) db1" by auto
    have docs: "order_items db1 = order_items db" using docs_of_moved [OF m] by (auto simp: same_docs_def)
    have s1: "shifted no_shift no_shift db db1"
      by (rule shifted_cong [OF moved_shifted [OF m]]) (simp_all add: drawn_Outbound)
    have "hold_fits db1 \<lparr>hold_order = oi_order i, hold_item = oi_id i, hold_sku = sku, hold_quantity = pieces taken,
           hold_short = oi_quantity i - pieces taken, hold_allocs = taken, hold_status = ''SHIPPED''\<rparr>"
      by (rule fitting_hold [OF ok i 4(1) m t]) simp_all
    from add_hold_shifted [OF 4(4) this] shifted_still [OF s1] docs show ?thesis by (simp add: claim_def)
  qed simp
qed

lemma ship_order_shifted:
  assumes "ship_order order db = Inr db'"
  shows "shifted no_shift no_shift db db'"
  by (rule each_shifted [where P = "\<lambda>x. order_items x = order_items db",
        OF assms [unfolded ship_order_def] refl])
    (use ship_item_shifted list_items_mem in metis)

lemma return_alloc_shifted:
  assumes "return_alloc row sku a db = Inr db'"
  shows "shifted no_shift no_shift db db'"
proof (rule shiftedI)
  assume ok: "desk_ok db"
  from assms obtain b db1 m b' where e: "ensure sku (alloc_warehouse a) db = Inr (b, db1)"
    and c: "commit_change b m db1 = Inr (b', db')" and m: "d_occupied (mv_change m) = 0" "d_in_transit (mv_change m) = 0"
    by (auto simp: return_alloc_def res_simps split: if_splits)
  note em = ensure_moved [OF e]
  have "wf_book db1" using em moved_keeps keeps_wf desk_okD [OF ok] by blast
  from commit_change_moved [OF c this] em
  have "moved (at_pair sku (alloc_warehouse a) (mv_change m)) db1 db'" by simp
  from moved_trans [OF em [THEN conjunct1] this]
  have "moved (at_pair sku (alloc_warehouse a) (mv_change m)) db db'" by simp
  from shifted_cong [OF shifted_at [OF this]] m show "shifted no_shift no_shift db db'" by simp
qed

lemma receive_return_shifted:
  assumes "receive_return row db = Inr (row', db')"
  shows "shifted no_shift no_shift db db'"
proof -
  have item: "shifted no_shift no_shift x x'" if "return_item row i x = Inr x'" for i x x'
    using that each_shifted [where P = "\<lambda>_. True"] return_alloc_shifted
    by (fastforce simp: return_item_def res_simps split: option.splits if_splits)
  from assms show ?thesis
    using each_shifted [where P = "\<lambda>_. True" and f = "return_item row"] item
    by (fastforce simp: receive_return_def res_simps split: if_splits)
qed

section \<open>Transfers\<close>

lemma transfers_gaps:
  "occupied_gap s w (db\<lparr>transfers := ts\<rparr>) = occupied_gap s w db"
  "transit_gap s w (db\<lparr>transfers := ts\<rparr>) = transit_gap s w db + owed s w db - (\<Sum>t\<leftarrow>ts. debt s w t)"
  by (simp_all add: occupied_gap_def transit_gap_def stock_at_def held_def owed_def)

lemma desk_ok_transfersI:
  assumes "desk_ok db" and "distinct (map tr_id ts)" and "\<forall>t\<in>set ts. tr_id t < next_id db"
  shows "desk_ok (db\<lparr>transfers := ts\<rparr>)"
  using assms unfolding desk_ok_def holds_ok_def lines_ok_def transfers_ok_def wf_book_def plain_rivals_def
    has_row_def by simp

lemma transition_shifted:
  assumes found: "get_transfer i db = Some t" and st: "tr_status t = a"
    and tr: "transfer_transition i a b db = (d, db')" and ok: "desk_ok db"
  shows "d \<and> shifted no_shift (\<lambda>s w. debt s w t - debt s w (t\<lparr>tr_status := b\<rparr>)) db db' \<and> wf_book db'"
proof -
  from found have t: "t \<in> set (transfers db)" "tr_id t = i" by (auto simp: get_transfer_def find_Some_iff)
  from ok have dist: "distinct (map tr_id (transfers db))" and lt: "\<forall>t\<in>set (transfers db). tr_id t < next_id db"
    by (auto simp: desk_ok_def transfers_ok_def)
  let ?ts = "map (\<lambda>x. if tr_id x = i \<and> tr_status x = a then x\<lparr>tr_status := b\<rparr> else x) (transfers db)"
  have db': "db' = db\<lparr>transfers := ?ts\<rparr>" and d: d
    using tr t st by (auto simp: transfer_transition_def list_ex_iff)
  have eq: "?ts = map (\<lambda>x. if tr_id x = tr_id t then x\<lparr>tr_status := b\<rparr> else x) (transfers db)"
    using dist t st by (intro map_cong refl) (auto simp: distinct_map inj_on_def)
  have ids: "map tr_id ?ts = map tr_id (transfers db)" by (auto simp: comp_def)
  have ok': "desk_ok db'" unfolding db'
  proof (rule desk_ok_transfersI [OF ok])
    show "distinct (map tr_id ?ts)" unfolding ids by (rule dist)
  qed (use lt in auto)
  have "(\<Sum>x\<leftarrow>?ts. debt s w x) = owed s w db + (debt s w (t\<lparr>tr_status := b\<rparr>) - debt s w t)" for s w
    unfolding eq owed_def map_map comp_def
    by (rule sum_list_map_replace [where k = tr_id and f = "\<lambda>x. x\<lparr>tr_status := b\<rparr>" and g = "debt s w", OF dist t(1)])
  then have "shifted no_shift (\<lambda>s w. debt s w t - debt s w (t\<lparr>tr_status := b\<rparr>)) db db'"
    using ok' by (simp add: shifted_def db' transfers_gaps plain_rivals_def)
  with d ok' show ?thesis by (simp add: desk_okD)
qed

definition leg :: "int \<Rightarrow> int \<Rightarrow> change" where
  "leg a t = no_change\<lparr>d_available := a, d_in_transit := t\<rparr>"

lemma move_leg_moved:
  assumes "move_leg row move q ref db = Inr db'" and "wf_book db" and "row_of row db"
  shows "moved (at_pair (bal_sku row) (bal_warehouse row) (leg (available_delta move) (in_transit_delta move))) db db'"
proof -
  from assms(1) obtain row' where "commit_change row
       \<lparr>mv_kind = flow_type move, mv_quantity = q, mv_bucket = bucket_named (bucket move),
        mv_ref_type = ''TRANSFER'', mv_ref = Some ref,
        mv_change = no_change\<lparr>d_available := available_delta move, d_in_transit := in_transit_delta move\<rparr>\<rparr> db
      = Inr (row', db')" by (auto simp: move_leg_def res_simps)
  from commit_change_moved [OF this assms(2,3)] show ?thesis by (simp add: leg_def)
qed

lemma transfer_line_moved:
  assumes e1: "ensure s w1 db = Inr (r1, db1)" and e2: "ensure s w2 db1 = Inr (r2, db2)" and wf: "wf_book db"
    and l1: "move_leg ra ma q ref db2 = Inr db3" and l2: "move_leg rb mb q ref db3 = Inr db'"
    and r: "(ra, rb) = (r1, r2)"
  shows "moved (followed_by (at_pair s w1 (leg (available_delta ma) (in_transit_delta ma)))
    (at_pair s w2 (leg (available_delta mb) (in_transit_delta mb)))) db db'"
proof -
  note m1 = ensure_moved [OF e1] and m2 = ensure_moved [OF e2]
  have wf1: "wf_book db1" using m1 moved_keeps keeps_wf wf by blast
  have wf2: "wf_book db2" using m2 moved_keeps keeps_wf wf1 by blast
  have row: "row_of r1 db2" using m1 m2 moved_keeps keeps_row wf1 by blast
  have g1: "moved (at_pair s w1 (leg (available_delta ma) (in_transit_delta ma))) db2 db3"
    using move_leg_moved [OF l1 wf2] row r m1 by simp
  have wf3: "wf_book db3" by (rule keeps_wf [OF moved_keeps [OF g1] wf2])
  have "row_of r2 db3" using m2 keeps_row [OF moved_keeps [OF g1] wf2] by blast
  then have g2: "moved (at_pair s w2 (leg (available_delta mb) (in_transit_delta mb))) db3 db'"
    using move_leg_moved [OF l2 wf3] r m2 by simp
  have "moved nothing db db2" using moved_trans [OF m1 [THEN conjunct1] m2 [THEN conjunct1]] by simp
  from moved_trans [OF this moved_trans [OF g1 g2]] show ?thesis by simp
qed

lemma positive_Inr: "positive q = Inr u \<longleftrightarrow> 0 < q"
  by (auto simp: positive_def)

text \<open>The line of a transfer puts its quantity on the way, takes it in, or takes it back.\<close>

definition on_the_way :: "int \<Rightarrow> transfer \<Rightarrow> (int \<times> int) list \<Rightarrow> shift" where
  "on_the_way sign t lines = (\<lambda>s w. if w = tr_to t then \<Sum>l\<leftarrow>lines. if fst l = s then sign * snd l else 0 else 0)"

lemma on_the_way_debt:
  assumes "tr_status t = ''IN_TRANSIT''"
  shows "on_the_way 1 t (tr_lines t) s w = debt s w t" "on_the_way (-1) t (tr_lines t) s w = - debt s w t"
proof -
  have "(\<Sum>l\<leftarrow>ls. if fst l = s then - snd l else 0) = - (\<Sum>l\<leftarrow>ls. if fst l = s then snd l else 0)"
    for ls :: "(int \<times> int) list" by (induction ls) auto
  then show "on_the_way 1 t (tr_lines t) s w = debt s w t" "on_the_way (-1) t (tr_lines t) s w = - debt s w t"
    using assms by (auto simp: on_the_way_def debt_def cong: if_cong)
qed

lemma ship_transfer_line_moved:
  assumes "ship_transfer_line t l db = Inr db'" and "wf_book db"
  shows "moved (followed_by (at_pair (fst l) (tr_from t) (leg (- snd l) 0))
    (at_pair (fst l) (tr_to t) (leg 0 (snd l)))) db db'"
proof -
  from assms(1) obtain r1 db1 r2 db2 db3 ma mb where e: "ensure (fst l) (tr_from t) db = Inr (r1, db1)"
    "ensure (fst l) (tr_to t) db1 = Inr (r2, db2)"
    and g: "move_leg r1 ma (snd l) (tr_id t) db2 = Inr db3" "move_leg r2 mb (snd l) (tr_id t) db3 = Inr db'"
    and m: "available_delta ma = - snd l" "in_transit_delta ma = 0" "available_delta mb = 0" "in_transit_delta mb = snd l"
    by (auto simp: ship_transfer_line_def ship_moves_def res_simps)
  from transfer_line_moved [OF e(1,2) assms(2) g refl] show ?thesis by (simp only: m)
qed

lemma cancel_line_moved:
  assumes "cancel_line t l db = Inr db'" and "wf_book db"
  shows "moved (followed_by (at_pair (fst l) (tr_to t) (leg 0 (- snd l)))
    (at_pair (fst l) (tr_from t) (leg (snd l) 0))) db db'"
proof -
  from assms(1) obtain r1 db1 r2 db2 db3 ma mb where e: "ensure (fst l) (tr_to t) db = Inr (r1, db1)"
    "ensure (fst l) (tr_from t) db1 = Inr (r2, db2)"
    and g: "move_leg r1 ma (snd l) (tr_id t) db2 = Inr db3" "move_leg r2 mb (snd l) (tr_id t) db3 = Inr db'"
    and m: "available_delta ma = 0" "in_transit_delta ma = - snd l" "available_delta mb = snd l" "in_transit_delta mb = 0"
    by (auto simp: cancel_line_def cancel_transit_moves_def res_simps)
  from transfer_line_moved [OF e(1,2) assms(2) g refl] show ?thesis by (simp only: m)
qed

lemma receive_line_moved:
  assumes "receive_line t l db = Inr db'" and "wf_book db"
  shows "moved (at_pair (fst l) (tr_to t) (leg (snd l) (- snd l))) db db'"
proof -
  from assms(1) obtain r db1 m where e: "ensure (fst l) (tr_to t) db = Inr (r, db1)"
    and g: "move_leg r m (snd l) (tr_id t) db1 = Inr db'"
    and m: "available_delta m = snd l" "in_transit_delta m = - snd l"
    by (auto simp: receive_line_def receive_move_def res_simps)
  note em = ensure_moved [OF e]
  have "wf_book db1" using em moved_keeps keeps_wf assms(2) by blast
  from move_leg_moved [OF g this] em moved_trans [OF em [THEN conjunct1]] show ?thesis
    unfolding m by fastforce
qed

text \<open>The lines of a transfer as one step.\<close>

lemma transfer_lines_shifted:
  assumes e: "each f lines db = Inr db'" and wf: "wf_book db"
    and step: "\<And>l x x'. f l x = Inr x' \<Longrightarrow> wf_book x \<Longrightarrow> moved (eff l) x x'"
    and occ: "\<And>l s w. eff l Occupied s w = 0"
    and tra: "\<And>l s w. eff l In_transit s w = (if s = fst l \<and> w = tr_to t then sign * snd l else 0)"
  shows "shifted no_shift (on_the_way sign t lines) db db'"
proof -
  have "moved (summed eff lines) db db'"
    by (rule each_moved [OF e wf keeps_refl]) (rule step)
  from moved_shifted [OF this] show ?thesis
  proof (rule shifted_cong)
    fix s w
    show "summed eff lines Occupied s w = 0" by (simp add: summed_def occ)
    show "summed eff lines In_transit s w = on_the_way sign t lines s w"
      unfolding summed_def on_the_way_def tra by (induction lines) auto
  qed
qed

lemma leg_effects:
  "at_pair s w (leg a t) Occupied s' w' = 0"
  "at_pair s w (leg a t) In_transit s' w' = (if s' = s \<and> w' = w then t else 0)"
  by (simp_all add: at_pair_def leg_def)

lemma transfer_view_same: "transfer_view t db = Inr db' \<Longrightarrow> db' = db"
  by (auto simp: transfer_view_def split: if_splits)

lemma debt_status: "debt s w (t\<lparr>tr_status := b\<rparr>) =
    (if b = ''IN_TRANSIT'' then on_the_way 1 t (tr_lines t) s w else 0)"
  by (simp add: debt_def on_the_way_def cong: if_cong)

lemma debt_off: "tr_status t \<noteq> ''IN_TRANSIT'' \<Longrightarrow> debt s w t = 0"
  by (simp add: debt_def)

lemma ship_transfer_shifted:
  assumes "ship_transfer i db = Inr db'"
  shows "shifted no_shift no_shift db db'"
proof (rule shiftedI)
  assume ok: "desk_ok db"
  from assms obtain t d db1 where t: "get_transfer i db = Some t" "tr_status t = ''DRAFT''"
    "transfer_transition i ''DRAFT'' ''IN_TRANSIT'' db = (d, db1)" and e: "each (ship_transfer_line t) (tr_lines t) db1 = Inr db'"
    by (auto simp: ship_transfer_def res_simps dest: transfer_view_same split: option.splits if_splits prod.splits)
  note tr = transition_shifted [OF t ok]
  have wf: "wf_book db1" using tr by simp
  have lines: "shifted no_shift (on_the_way 1 t (tr_lines t)) db1 db'"
    by (rule transfer_lines_shifted [where sign = 1 and eff = "\<lambda>l. followed_by (at_pair (fst l) (tr_from t) (leg (- snd l) 0)) (at_pair (fst l) (tr_to t) (leg 0 (snd l)))",
          OF e wf ship_transfer_line_moved])
      (auto simp: followed_by_apply leg_effects)
  from tr have first: "shifted no_shift (\<lambda>s w. debt s w t - debt s w (t\<lparr>tr_status := ''IN_TRANSIT''\<rparr>)) db db1" by blast
  show "shifted no_shift no_shift db db'"
    by (rule shifted_trans [OF first lines]) (simp_all add: debt_status debt_off t(2))
qed

lemma receive_transfer_shifted:
  assumes "receive_transfer i db = Inr db'"
  shows "shifted no_shift no_shift db db'"
proof (rule shiftedI)
  assume ok: "desk_ok db"
  from assms obtain t d db1 where t: "get_transfer i db = Some t" "tr_status t = ''IN_TRANSIT''"
    "transfer_transition i ''IN_TRANSIT'' ''RECEIVED'' db = (d, db1)" and e: "each (receive_line t) (tr_lines t) db1 = Inr db'"
    by (auto simp: receive_transfer_def res_simps dest: transfer_view_same split: option.splits if_splits prod.splits)
  note tr = transition_shifted [OF t ok]
  have wf: "wf_book db1" using tr by simp
  have lines: "shifted no_shift (on_the_way (-1) t (tr_lines t)) db1 db'"
    by (rule transfer_lines_shifted [where sign = "-1" and eff = "\<lambda>l. at_pair (fst l) (tr_to t) (leg (snd l) (- snd l))",
          OF e wf receive_line_moved]) (auto simp: leg_effects)
  from tr have first: "shifted no_shift (\<lambda>s w. debt s w t - debt s w (t\<lparr>tr_status := ''RECEIVED''\<rparr>)) db db1" by blast
  show "shifted no_shift no_shift db db'"
    by (rule shifted_trans [OF first lines]) (simp_all add: debt_status on_the_way_debt t(2))
qed

lemma cancel_transfer_shifted:
  assumes "cancel_transfer i db = Inr db'"
  shows "shifted no_shift no_shift db db'"
proof (rule shiftedI)
  assume ok: "desk_ok db"
  from assms obtain t where t: "get_transfer i db = Some t" by (auto simp: cancel_transfer_def split: option.splits)
  show "shifted no_shift no_shift db db'"
  proof (cases "tr_status t = ''DRAFT''")
    case True
    from assms True t obtain d where "transfer_transition i ''DRAFT'' ''CANCELLED'' db = (d, db')"
      by (auto simp: cancel_transfer_def dest: transfer_view_same split: prod.splits if_splits)
    from transition_shifted [OF t True this ok]
    have "shifted no_shift (\<lambda>s w. debt s w t - debt s w (t\<lparr>tr_status := ''CANCELLED''\<rparr>)) db db'" by blast
    then show ?thesis by (rule shifted_cong) (simp_all add: debt_status debt_off True)
  next
    case False
    from assms False t obtain d db1 where st: "tr_status t = ''IN_TRANSIT''"
      "transfer_transition i ''IN_TRANSIT'' ''CANCELLED'' db = (d, db1)" and e: "each (cancel_line t) (tr_lines t) db1 = Inr db'"
      by (auto simp: cancel_transfer_def res_simps dest: transfer_view_same split: if_splits prod.splits)
    note tr = transition_shifted [OF t st(1,2) ok]
    have wf: "wf_book db1" using tr by simp
    have lines: "shifted no_shift (on_the_way (-1) t (tr_lines t)) db1 db'"
      by (rule transfer_lines_shifted [where sign = "-1" and eff = "\<lambda>l. followed_by (at_pair (fst l) (tr_to t) (leg 0 (- snd l))) (at_pair (fst l) (tr_from t) (leg (snd l) 0))",
          OF e wf cancel_line_moved])
        (auto simp: followed_by_apply leg_effects)
    from tr have first: "shifted no_shift (\<lambda>s w. debt s w t - debt s w (t\<lparr>tr_status := ''CANCELLED''\<rparr>)) db db1" by blast
    show ?thesis by (rule shifted_trans [OF first lines]) (simp_all add: debt_status on_the_way_debt st(1))
  qed
qed

lemma create_transfer_shifted:
  assumes "create_transfer a b lines db = Inr db'"
  shows "shifted no_shift no_shift db db'"
proof -
  let ?t = "\<lparr>tr_id = next_id db, tr_from = a, tr_to = b, tr_status = ''DRAFT'', tr_lines = lines\<rparr>"
  from assms have db': "db' = db\<lparr>transfers := transfers db @ [?t], next_id := next_id db + 1\<rparr>"
    by (auto simp: create_transfer_def Let_def dest: transfer_view_same split: if_splits)
  have "desk_ok db'" if ok: "desk_ok db"
    using ok unfolding db' desk_ok_def holds_ok_def lines_ok_def transfers_ok_def wf_book_def plain_rivals_def has_row_def
    by force
  then show ?thesis
    by (simp add: shifted_def db' occupied_gap_def transit_gap_def stock_at_def held_def owed_def debt_def
        plain_rivals_def)
qed

section \<open>Stocktaking, warehouses and order lines\<close>

lemmas gap_defs = shifted_def occupied_gap_def transit_gap_def stock_at_def held_def owed_def
lemmas desk_defs = desk_ok_def holds_ok_def lines_ok_def transfers_ok_def wf_book_def plain_rivals_def has_row_def

lemma takings_shifted: "shifted no_shift no_shift db (db\<lparr>takings := ks\<rparr>)"
  by (simp add: gap_defs desk_defs)

lemma warehouses_shifted: "shifted no_shift no_shift db (db\<lparr>warehouses := ws\<rparr>)"
  by (simp add: gap_defs desk_defs)

lemma next_id_shifted: "next_id db \<le> n \<Longrightarrow> shifted no_shift no_shift db (db\<lparr>next_id := n\<rparr>)"
  by (auto simp: gap_defs desk_defs intro: less_le_trans)

lemma set_taking_shifted: "shifted no_shift no_shift db (set_taking i f db)"
  unfolding set_taking_def by (rule takings_shifted)

lemma taking_transition_shifted:
  "taking_transition i a b db = (d, db') \<Longrightarrow> shifted no_shift no_shift db db'"
  by (auto simp: taking_transition_def takings_shifted)

lemma taking_view_same: "taking_view k db = Inr db' \<Longrightarrow> db' = db"
  by (auto simp: taking_view_def split: if_splits)

lemma create_taking_shifted:
  assumes "create_taking w db = Inr db'"
  shows "shifted no_shift no_shift db db'"
proof -
  from assms obtain ks where "db' = db\<lparr>takings := ks\<rparr>\<lparr>next_id := next_id db + 1\<rparr>"
    by (auto simp: create_taking_def Let_def dest: taking_view_same split: if_splits)
  moreover have "shifted no_shift no_shift (db\<lparr>takings := ks\<rparr>) (db\<lparr>takings := ks\<rparr>\<lparr>next_id := next_id db + 1\<rparr>)"
    by (rule next_id_shifted) simp
  from shifted_still [OF takings_shifted this]
  have "shifted no_shift no_shift db (db\<lparr>takings := ks\<rparr>\<lparr>next_id := next_id db + 1\<rparr>)" .
  ultimately show ?thesis by simp
qed

lemma record_counts_shifted:
  assumes "record_counts i lines db = Inr db'"
  shows "shifted no_shift no_shift db db'"
proof -
  from assms obtain k where "db' = set_taking i (\<lambda>_. k) db"
    by (auto simp: record_counts_def res_simps dest: taking_view_same split: option.splits if_splits)
  then show ?thesis by (simp add: set_taking_shifted)
qed

lemma post_line_shifted:
  assumes "post_line k l db = Inr db'"
  shows "shifted no_shift no_shift db db'"
  using assms adjust_shifted by (auto simp: post_line_def split: if_splits)

lemma post_taking_shifted:
  assumes "post_taking i db = Inr db'"
  shows "shifted no_shift no_shift db db'"
proof -
  obtain d db1 where tr: "taking_transition i ''DRAFT'' ''POSTED'' db = (d, db1)"
    by (cases "taking_transition i ''DRAFT'' ''POSTED'' db") auto
  with assms obtain k planned db2 f where e: "each (post_line k) planned db1 = Inr db2"
    and db': "db' = set_taking i f db2"
    by (auto simp: post_taking_def res_simps dest: taking_view_same split: option.splits if_splits prod.splits)
  have "shifted no_shift no_shift db1 db2"
    by (rule each_shifted [where P = "\<lambda>_. True", OF e TrueI]) (simp add: post_line_shifted)
  from shifted_still [OF taking_transition_shifted [OF tr] shifted_still [OF this set_taking_shifted]]
  show ?thesis by (simp add: db')
qed

lemma cancel_taking_shifted:
  assumes "cancel_taking i db = Inr db'"
  shows "shifted no_shift no_shift db db'"
proof -
  from assms obtain d where "taking_transition i ''DRAFT'' ''CANCELLED'' db = (d, db')"
    by (auto simp: cancel_taking_def dest: taking_view_same split: option.splits if_splits prod.splits)
  then show ?thesis by (rule taking_transition_shifted)
qed

lemma save_warehouses_Inr: "save_warehouses ws db = Inr db' \<Longrightarrow> db' = db\<lparr>warehouses := ws\<rparr>"
  by (auto simp: save_warehouses_def Let_def split: if_splits)

lemma clear_default_shifted: "shifted no_shift no_shift db (clear_default e db)"
  unfolding clear_default_def by (rule warehouses_shifted)

lemma create_warehouse_shifted:
  assumes "create_warehouse p db = Inr db'"
  shows "shifted no_shift no_shift db db'"
proof -
  let ?db = "if wh_default p then clear_default None db else db"
  from assms obtain ws where "db' = ?db\<lparr>next_id := next_id ?db + 1\<rparr>\<lparr>warehouses := ws\<rparr>"
    unfolding create_warehouse_def Let_def by (blast dest: save_warehouses_Inr)
  moreover have "shifted no_shift no_shift db ?db" by (simp add: clear_default_shifted)
  from shifted_still [OF this shifted_still [OF next_id_shifted warehouses_shifted]]
  have "shifted no_shift no_shift db (?db\<lparr>next_id := next_id ?db + 1\<rparr>\<lparr>warehouses := ws\<rparr>)" by simp
  ultimately show ?thesis by simp
qed

lemma update_warehouse_shifted:
  assumes "update_warehouse i p db = Inr db'"
  shows "shifted no_shift no_shift db db'"
proof -
  let ?db = "if wp_default p = Some True then clear_default (Some i) db else db"
  from assms obtain ws where "db' = ?db\<lparr>warehouses := ws\<rparr>"
    unfolding update_warehouse_def Let_def by (auto dest: save_warehouses_Inr split: if_splits)
  moreover have "shifted no_shift no_shift db ?db" by (simp add: clear_default_shifted)
  from shifted_still [OF this warehouses_shifted] have "shifted no_shift no_shift db (?db\<lparr>warehouses := ws\<rparr>)" .
  ultimately show ?thesis by simp
qed

lemma delete_warehouse_shifted:
  assumes "delete_warehouse i db = Inr db'"
  shows "shifted no_shift no_shift db db'"
  using assms by (auto simp: delete_warehouse_def warehouses_shifted split: if_splits)

lemma new_lines_ids: "map oi_id (new_lines n order ls) = map (\<lambda>k. n + int k) [0..<length ls]"
proof (induction ls arbitrary: n)
  case (Cons l ls)
  have "map (\<lambda>k. n + 1 + int k) [0..<length ls] = map (\<lambda>k. n + int k) [1..<Suc (length ls)]"
    by (simp add: map_Suc_upt [symmetric] comp_def algebra_simps del: upt_Suc)
  with Cons.IH [of "n + 1"] show ?case by (simp add: upt_conv_Cons del: upt_Suc)
qed simp

lemma replace_items_shifted: "shifted no_shift no_shift db (replace_items order lines db)"
proof -
  let ?ls = "new_lines (next_id db) order lines"
  have ids: "set (map oi_id ?ls) = {next_id db ..< next_id db + int (length lines)}"
  proof -
    have "x \<in> (\<lambda>k. next_id db + int k) ` {0..<length lines}"
      if "next_id db \<le> x" "x < next_id db + int (length lines)" for x
      using that by (intro image_eqI [where x = "nat (x - next_id db)"]) auto
    then show ?thesis unfolding new_lines_ids by auto
  qed
  have dist: "distinct (map oi_id ?ls)" unfolding new_lines_ids by (simp add: distinct_map inj_on_def)
  have "desk_ok (replace_items order lines db)" if ok: "desk_ok db"
  proof -
    have old: "oi_id i < next_id db" if "i \<in> set (order_items db)" for i
      using ok that by (auto simp: desk_ok_def lines_ok_def)
    have held: "hold_item h < next_id db" if "h \<in> set (holds db)" for h
      using ok that by (auto simp: desk_ok_def holds_ok_def)
    have new: "next_id db \<le> oi_id i \<and> oi_id i < next_id db + int (length lines)" if "i \<in> set ?ls" for i
      using ids that by (auto simp: set_eq_iff)
    have "lines_ok (replace_items order lines db)"
      unfolding lines_ok_def replace_items_def
      using ok dist old held new by (fastforce simp: desk_ok_def lines_ok_def distinct_map inj_on_def)
    then show ?thesis
      using ok by (fastforce simp: desk_ok_def holds_ok_def transfers_ok_def wf_book_def plain_rivals_def has_row_def
          replace_items_def)
  qed
  then show ?thesis
    by (simp add: shifted_def replace_items_def occupied_gap_def transit_gap_def stock_at_def held_def owed_def
        plain_rivals_def)
qed

end
