(* ===== verification/StockService.thy ===== *)
theory StockService imports StockInvariant begin

text \<open>
  What the stock service promises over any history of requests, with the writes of other
  transactions landing between any two of its own.
\<close>

section \<open>Serving requests\<close>

fun posted :: "stock_request \<Rightarrow> shift" where
  "posted (Rq_post s w a t rt r) = (\<lambda>s' w'. if s' = s \<and> w' = w then t else 0)"
| "posted _ = no_shift"

lemma handle_stock_shifted:
  assumes "handle_stock rq db = Inr db'"
  shows "shifted no_shift (posted rq) db db'"
  using assms
  by (cases rq) (auto simp: res_simps intro: adjust_shifted post_stock_shifted set_safe_stock_shifted
      reserve_order_shifted release_order_shifted ship_order_shifted receive_return_shifted
      create_transfer_shifted ship_transfer_shifted receive_transfer_shifted cancel_transfer_shifted
      create_taking_shifted record_counts_shifted post_taking_shifted cancel_taking_shifted
      create_warehouse_shifted update_warehouse_shifted delete_warehouse_shifted replace_items_shifted)

definition plain_batches :: "(int \<times> change) list list \<Rightarrow> bool" where
  "plain_batches batches =
     list_all (list_all (\<lambda>w. d_occupied (snd w) = 0 \<and> d_in_transit (snd w) = 0)) batches"

lemma plain_rivals_set [simp]: "plain_rivals (db\<lparr>rivals := bs\<rparr>) \<longleftrightarrow> plain_batches bs"
  by (simp add: plain_rivals_def plain_batches_def list_all_iff)

lemma desk_ok_rivals [simp]: "desk_ok (db\<lparr>rivals := bs\<rparr>) \<longleftrightarrow> desk_ok db"
  by (simp add: desk_defs)

lemma gaps_rivals [simp]:
  "occupied_gap s w (db\<lparr>rivals := bs\<rparr>) = occupied_gap s w db"
  "transit_gap s w (db\<lparr>rivals := bs\<rparr>) = transit_gap s w db"
  by (simp_all add: gap_defs)

lemma all_land_ok:
  assumes "desk_ok db"
  shows "desk_ok (all_land db bs) \<and> (plain_batches bs \<longrightarrow> (\<forall>s w.
    occupied_gap s w (all_land db bs) = occupied_gap s w db \<and>
    transit_gap s w (all_land db bs) = transit_gap s w db))"
proof -
  note land = rivals_land [OF all_land_def [symmetric], of db bs]
  have wf: "wf_book db" by (rule desk_okD [OF assms])
  have "keeps db (all_land db bs)"
    using land by (auto simp: keeps_def plain_rivals_def)
  from keeps_desk_ok [OF this assms] have "desk_ok (all_land db bs)" .
  moreover have "plain_batches bs \<longleftrightarrow> (\<forall>w\<in>set (concat bs). d_occupied (snd w) = 0 \<and> d_in_transit (snd w) = 0)"
    by (auto simp: plain_batches_def list_all_iff)
  ultimately show ?thesis
    using land wf by (simp add: occupied_gap_def transit_gap_def held_def owed_def same_docs_def)
qed

lemma serve_stock_step:
  assumes "serve_stock db rq = Some db'" and ok: "desk_ok db"
  shows "desk_ok db' \<and> (plain_batches (snd rq) \<longrightarrow> (\<forall>s w.
    occupied_gap s w db' = occupied_gap s w db \<and>
    transit_gap s w db' = transit_gap s w db +
      (case handle_stock (fst rq) (db\<lparr>rivals := snd rq\<rparr>) of Inl _ \<Rightarrow> 0 | Inr _ \<Rightarrow> posted (fst rq) s w)))"
proof (cases "handle_stock (fst rq) (db\<lparr>rivals := snd rq\<rparr>)")
  case (Inl e)
  with assms(1) have "db' = all_land (db\<lparr>rivals := []\<rparr>) (snd rq)" by (simp add: serve_stock_def)
  with all_land_ok [of "db\<lparr>rivals := []\<rparr>" "snd rq"] ok Inl show ?thesis by simp
next
  case (Inr db1)
  with assms(1) have "db' = db1\<lparr>rivals := []\<rparr>" by (simp add: serve_stock_def)
  with handle_stock_shifted [OF Inr] ok Inr show ?thesis by (simp add: shifted_def)
qed

text \<open>Histories in which the rivals only receive, adjust and count stock.\<close>

definition serve_plainly :: "stock_db \<Rightarrow> stock_request \<times> (int \<times> change) list list \<Rightarrow> stock_db option" where
  "serve_plainly db rq = (if plain_batches (snd rq) then serve_stock db rq else None)"

interpretation stock_desk: invariant_machine serve_stock desk_ok
  by unfold_locales (simp add: serve_stock_step)

definition books_meet :: "stock_db \<Rightarrow> bool" where
  "books_meet db \<longleftrightarrow> desk_ok db \<and> (\<forall>s w. stock_at Occupied s w db = held s w db)"

interpretation plain_desk: invariant_machine serve_plainly books_meet
  by unfold_locales
    (use serve_stock_step in \<open>fastforce simp: serve_plainly_def books_meet_def occupied_gap_def split: if_splits\<close>)

text \<open>What purchasing has posted to the stock in transit over a history: the requests that were
  not refused.\<close>

fun posted_by :: "stock_db \<Rightarrow> (stock_request \<times> (int \<times> change) list list) list \<Rightarrow> shift" where
  "posted_by db [] = no_shift"
| "posted_by db (rq # rqs) = (\<lambda>s w.
     (case handle_stock (fst rq) (db\<lparr>rivals := snd rq\<rparr>) of Inl _ \<Rightarrow> 0 | Inr _ \<Rightarrow> posted (fst rq) s w) +
     (case serve_stock db rq of None \<Rightarrow> 0 | Some db' \<Rightarrow> posted_by db' rqs s w))"

lemma run_transit:
  "run_machine serve_plainly db history = Some db' \<Longrightarrow> desk_ok db \<Longrightarrow>
     transit_gap s w db' = transit_gap s w db + posted_by db history s w"
proof (induction history arbitrary: db)
  case (Cons rq history)
  then obtain db1 where step: "serve_plainly db rq = Some db1" and run: "run_machine serve_plainly db1 history = Some db'"
    by (auto split: option.splits)
  then have s: "serve_stock db rq = Some db1" "plain_batches (snd rq)" by (auto simp: serve_plainly_def split: if_splits)
  note st = serve_stock_step [OF s(1) Cons.prems(2)]
  from Cons.IH [OF run] st have "transit_gap s w db' = transit_gap s w db1 + posted_by db1 history s w" by blast
  with st s show ?case by simp
qed simp

section \<open>A small warehouse\<close>

definition demo_warehouse :: "int \<Rightarrow> bool \<Rightarrow> warehouse" where
  "demo_warehouse i d =
     \<lparr>wh_id = i, wh_name = ''W'', wh_type = ''LOCAL'', wh_country = ''DE'', wh_address = '''',
      wh_code = None, wh_default = d, wh_deleted = False\<rparr>"

definition demo_stock_db :: stock_db where
  "demo_stock_db =
     \<lparr>skus = [7], warehouses = [demo_warehouse 1 True, demo_warehouse 2 False], balances = [], flows = [],
      holds = [], order_items = [], transfers = [], takings = [], next_id = 10, rivals = []\<rparr>"

definition demo_stock_history :: "(stock_request \<times> (int \<times> change) list list) list" where
  "demo_stock_history =
     [(Rq_adjust 7 1 ''INBOUND'' 10 '''' None, []), (Rq_adjust 7 2 ''INBOUND'' 5 '''' None, []),
      (Rq_replace_items 100 [(Some 7, 12), (None, 3)], []),
      (Rq_reserve 100, [[(10, no_change\<lparr>d_available := 1\<rparr>)]]),
      (Rq_create_transfer 2 1 [(7, 3)], []), (Rq_ship_transfer 14, []), (Rq_post 7 1 0 6 ''PURCHASE'' None, []),
      (Rq_adjust 7 1 ''OUTBOUND'' 100 '''' None, [])]"

lemma demo_stock_ok: "books_meet demo_stock_db"
  by (simp add: books_meet_def desk_defs demo_stock_db_def stock_at_def held_def)

lemma demo_stock_run:
  "map_option (\<lambda>db. (map (\<lambda>b. (bal_available b, bal_occupied b, bal_in_transit b)) (balances db), map hold_allocs (holds db)))
     (run_machine serve_plainly demo_stock_db demo_stock_history) =
   Some ([(11, 11, 9), (2, 1, 0)],
     [[\<lparr>alloc_warehouse = 1, alloc_quantity = 11\<rparr>, \<lparr>alloc_warehouse = 2, alloc_quantity = 1\<rparr>]])"
  by code_simp

lemma demo_stock_run_any:
  "map_option (\<lambda>db. length (balances db)) (run_machine serve_stock demo_stock_db demo_stock_history) = Some 2"
  by code_simp

section \<open>What the service promises\<close>

text \<open>C3: No history of requests, whatever other transactions write in between, makes a balance
  unsound: the reserved part never exceeds the stock on hand, and stock, stock in transit and
  defective stock are never negative.\<close>

theorem stock_never_negative:
  assumes "run_machine serve_stock db0 history = Some db" and "desk_ok db0"
  shows "\<forall>b\<in>set (balances db). 0 \<le> bal_occupied b \<and> bal_occupied b \<le> bal_available b \<and>
    0 \<le> bal_in_transit b \<and> 0 \<le> bal_defective b"
  using stock_desk.run_inv [OF assms(2,1)]
  by (simp add: desk_ok_def wf_book_def sound_balance_def)

theorem stock_never_negative_witness:
  "\<exists>db. run_machine serve_stock demo_stock_db demo_stock_history = Some db \<and> length (balances db) = 2 \<and>
     list_all (\<lambda>b. 0 \<le> bal_occupied b \<and> bal_occupied b \<le> bal_available b \<and>
       0 \<le> bal_in_transit b \<and> 0 \<le> bal_defective b) (balances db)"
proof -
  obtain db where db: "run_machine serve_stock demo_stock_db demo_stock_history = Some db" "length (balances db) = 2"
    using demo_stock_run_any by auto
  from stock_never_negative [OF db(1)] demo_stock_ok db show ?thesis
    by (simp add: books_meet_def list_all_iff)
qed

text \<open>C1: The occupied stock of an item in a warehouse is, after any history of reservations,
  releases, shipments, returns, transfers, stocktaking and replaced order lines, exactly what the
  open holds claim there: nothing stays reserved without a hold and no hold lacks its stock.\<close>

theorem occupied_is_held:
  assumes "run_machine serve_plainly db0 history = Some db" and "books_meet db0"
  shows "stock_at Occupied s w db = held s w db"
  using plain_desk.run_inv [OF assms(2,1)] by (simp add: books_meet_def)

theorem occupied_is_held_witness:
  "\<exists>db. run_machine serve_plainly demo_stock_db demo_stock_history = Some db \<and>
     stock_at Occupied 7 1 db = held 7 1 db \<and> stock_at Occupied 7 2 db = held 7 2 db \<and>
     map (\<lambda>b. (bal_available b, bal_occupied b, bal_in_transit b)) (balances db) = [(11, 11, 9), (2, 1, 0)]"
proof -
  obtain db where db: "run_machine serve_plainly demo_stock_db demo_stock_history = Some db"
    "map (\<lambda>b. (bal_available b, bal_occupied b, bal_in_transit b)) (balances db) = [(11, 11, 9), (2, 1, 0)]"
    using demo_stock_run by auto
  then show ?thesis by (intro exI [of _ db]) (simp add: occupied_is_held [OF db(1) demo_stock_ok])
qed

text \<open>C2: The stock in transit to a warehouse is what the transfers under way still owe it, plus
  what purchasing has posted: shipping a transfer adds its lines, receiving or cancelling it takes
  exactly them away again, and a refused request changes nothing.\<close>

theorem transit_is_owed:
  assumes "run_machine serve_plainly db0 history = Some db" and "desk_ok db0"
    and "stock_at In_transit s w db0 = owed s w db0"
  shows "stock_at In_transit s w db = owed s w db + posted_by db0 history s w"
  using run_transit [OF assms(1,2), of s w] assms(3) by (simp add: transit_gap_def)

theorem transit_is_owed_witness:
  "\<exists>db. run_machine serve_plainly demo_stock_db demo_stock_history = Some db \<and>
     stock_at In_transit 7 1 db = owed 7 1 db + posted_by demo_stock_db demo_stock_history 7 1 \<and>
     map (\<lambda>b. (bal_available b, bal_occupied b, bal_in_transit b)) (balances db) = [(11, 11, 9), (2, 1, 0)]"
proof -
  obtain db where db: "run_machine serve_plainly demo_stock_db demo_stock_history = Some db"
    "map (\<lambda>b. (bal_available b, bal_occupied b, bal_in_transit b)) (balances db) = [(11, 11, 9), (2, 1, 0)]"
    using demo_stock_run by auto
  have "stock_at In_transit 7 1 demo_stock_db = owed 7 1 demo_stock_db"
    by (simp add: demo_stock_db_def stock_at_def owed_def)
  from transit_is_owed [OF db(1) _ this] demo_stock_ok db show ?thesis
    by (auto simp: books_meet_def)
qed

end
