(* ===== verification/OrderBook.thy ===== *)
theory OrderBook imports OrderStatus OrderDesk OrderPrivacy Idempotency StockDocs begin

text \<open>
  The orders of one tenant and how a report of a market place is written into them:
  \<^verbatim>\<open>app/services/order_status.py\<close> over \<^verbatim>\<open>app/repositories/order.py\<close> and
  \<^verbatim>\<open>app/repositories/status_mapping.py\<close>, with the stock tables of \<open>StockBook\<close> beside them.

  The callers differ in what an exception does.  The sync run (\<^verbatim>\<open>services/order_sync.py\<close>) catches it
  and goes on in the same transaction, so what \<open>ingest_order\<close> wrote before stays: it returns the
  tables it leaves together with its result.  A webhook rolls back.  Of an inventory operation that
  raises, \<open>*_left\<close> gives the tables it leaves behind.  The branch of \<open>upsert\<close> for a key that another
  worker inserts in between is \<open>upsert_raced\<close> of \<open>Idempotency\<close>.  Columns no decision reads are left
  out; ids of orders and returns come from one counter (\<open>serial\<close>), those of the stock tables from another.
\<close>

section \<open>Rows\<close>

type_synonym texts = "(string \<times> string) list"

record sales_order =
  so_id :: int
  so_shop :: int
  so_platform :: string
  so_number :: string
  so_key :: string
  so_platform_status :: string
  so_status :: string
  so_buyer :: "texts option"
  so_ship_to :: "texts option"
  so_currency :: string
  so_item_amount :: dec
  so_total :: dec
  so_updated_at :: "datetime option"
  so_paid_at :: "datetime option"
  so_shipped_at :: "datetime option"
  so_delivered_at :: "datetime option"
  so_review :: string

datatype log_remark = No_remark | Unmapped_remark | Ship_remark string | Return_approved | Refund_done

record status_log =
  sl_order :: int
  sl_from :: "string option"
  sl_to :: string
  sl_platform_status :: string
  sl_operator :: "int option"
  sl_source :: string
  sl_remark :: log_remark

record order_fee =
  fee_order :: int
  fee_kind :: string
  fee_money :: dec
  fee_cur :: string
  fee_origin :: string

record shipment_row =
  sh_order :: int
  sh_carrier :: string
  sh_tracking :: string
  sh_status :: string
  sh_reason :: "string option"
  sh_shipped_at :: "datetime option"
  sh_attempt :: int

record return_row =
  rr_id :: int
  rr_order :: int
  rr_reason :: string
  rr_status :: string
  rr_amount :: dec
  rr_currency :: string
  rr_restock :: bool
  rr_sellable :: bool
  rr_restock_status :: string

record address_log =
  al_order :: int
  al_before :: "texts option"
  al_after :: texts
  al_status :: string
  al_reason :: "string option"

record mapping_row =
  mr_platform :: string
  mr_status :: string
  mr_unified :: string

record order_db =
  orders :: "sales_order list"
  logs :: "status_log list"
  fees :: "order_fee list"
  shipments :: "shipment_row list"
  returns :: "return_row list"
  order_notes :: "(int \<times> string) list"
  address_logs :: "address_log list"
  rules :: "amount_rule list"
  mappings :: "mapping_row list"
  stock :: stock_db
  serial :: int

text \<open>What an adapter reports (\<open>UnifiedOrder\<close>), and the shop it was asked for.\<close>

record report_item =
  ri_quantity :: int
  ri_unit_price :: dec

record report_fee =
  rf_kind :: string
  rf_amount :: dec
  rf_currency :: string
  rf_source :: string

record report =
  rp_number :: string
  rp_status :: string
  rp_buyer_name :: "string option"
  rp_buyer_country :: "string option"
  rp_buyer_phone :: "string option"
  rp_state :: "string option"
  rp_city :: "string option"
  rp_line1 :: "string option"
  rp_postal :: "string option"
  rp_currency :: string
  rp_total :: dec
  rp_items :: "report_item list"
  rp_fees :: "report_fee list"
  rp_paid_at :: "datetime option"
  rp_updated_at :: datetime

record shop_info =
  shop_number :: int
  shop_platform :: string

section \<open>The mapping table\<close>

definition supported_platforms :: "string list" where
  "supported_platforms = [''amazon'', ''shopee'', ''lazada'', ''tiktok'']"

definition amazon_mapping :: texts where
  "amazon_mapping =
     [(''Pending'', ''PENDING''), (''PendingAvailability'', ''PENDING''), (''Unshipped'', ''PAID''),
      (''InvoiceUnconfirmed'', ''PAID''), (''PartiallyShipped'', ''SHIPPED''), (''Shipped'', ''SHIPPED''),
      (''Canceled'', ''CANCELLED''), (''Unfulfillable'', ''CANCELLED'')]"

definition shopee_mapping :: texts where
  "shopee_mapping =
     [(''UNPAID'', ''PENDING''), (''READY_TO_SHIP'', ''PAID''), (''PROCESSED'', ''PAID''),
      (''RETRY_SHIP'', ''PAID''), (''SHIPPED'', ''SHIPPED''), (''TO_CONFIRM_RECEIVE'', ''SHIPPED''),
      (''IN_CANCEL'', ''REFUNDING''), (''CANCELLED'', ''CANCELLED''), (''TO_RETURN'', ''RETURNED''),
      (''COMPLETED'', ''COMPLETED'')]"

definition lazada_mapping :: texts where
  "lazada_mapping =
     [(''unpaid'', ''PENDING''), (''pending'', ''PAID''), (''packed'', ''PAID''), (''repacked'', ''PAID''),
      (''ready_to_ship'', ''PAID''), (''shipped'', ''SHIPPED''), (''delivered'', ''DELIVERED''),
      (''confirmed'', ''COMPLETED''), (''canceled'', ''CANCELLED''), (''returned'', ''RETURNED''),
      (''failed'', ''CANCELLED''), (''shipped_back'', ''RETURNED''), (''shipped_back_success'', ''RETURNED'')]"

definition tiktok_mapping :: texts where
  "tiktok_mapping =
     [(''UNPAID'', ''PENDING''), (''ON_HOLD'', ''PENDING''), (''AWAITING_SHIPMENT'', ''PAID''),
      (''AWAITING_COLLECTION'', ''PAID''), (''IN_TRANSIT'', ''SHIPPED''), (''DELIVERED'', ''DELIVERED''),
      (''COMPLETED'', ''COMPLETED''), (''CANCELLED'', ''CANCELLED'')]"

definition adapter_mapping :: "string \<Rightarrow> texts res" where
  "adapter_mapping platform =
     (let key = lower platform in
      if key = ''amazon'' then Inr amazon_mapping
      else if key = ''shopee'' then Inr shopee_mapping
      else if key = ''lazada'' then Inr lazada_mapping
      else if key = ''tiktok'' then Inr tiktok_mapping
      else Inl (AppError ''PlatformUnsupportedError''))"

definition mapping_of :: "string \<Rightarrow> order_db \<Rightarrow> texts" where
  "mapping_of platform db =
     map (\<lambda>r. (mr_status r, mr_unified r)) (filter (\<lambda>r. mr_platform r = platform) (mappings db))"

definition has_mapping :: "string \<Rightarrow> string \<Rightarrow> order_db \<Rightarrow> bool" where
  "has_mapping platform st db =
     list_ex (\<lambda>r. mr_platform r = platform \<and> mr_status r = st) (mappings db)"

definition insert_missing :: "string \<Rightarrow> texts \<Rightarrow> order_db \<Rightarrow> order_db" where
  "insert_missing platform defaults db =
     foldl (\<lambda>db kv. if has_mapping platform (fst kv) db then db
                     else db\<lparr>mappings := mappings db @
                       [\<lparr>mr_platform = platform, mr_status = fst kv, mr_unified = snd kv\<rparr>]\<rparr>)
       db (sort defaults)"

text \<open>The table of a platform: stored rows over the adapter's defaults.  A service keeps it for the
  time of a request.\<close>

definition mapping_table :: "string \<Rightarrow> order_db \<Rightarrow> (texts \<times> order_db) res" where
  "mapping_table platform db =
     bindr (adapter_mapping platform) (\<lambda>all.
     let defaults = filter (\<lambda>kv. parse_unified (Some (snd kv)) \<noteq> None) all;
         db = insert_missing platform defaults db in
     Inr (merge_mapping defaults (mapping_of platform db), db))"

definition save_mapping :: "string \<Rightarrow> string \<Rightarrow> string \<Rightarrow> order_db \<Rightarrow> order_db res" where
  "save_mapping platform st unified db =
     (if platform \<notin> set supported_platforms then Inl (AppError ''PlatformUnsupportedError'')
      else if parse_unified (Some unified) = None then Inl (AppError ''ParamInvalidError'')
      else if has_mapping platform st db then
        Inr (db\<lparr>mappings := map (\<lambda>r. if mr_platform r = platform \<and> mr_status r = st
                                        then r\<lparr>mr_unified := unified\<rparr> else r) (mappings db)\<rparr>)
      else Inr (db\<lparr>mappings := mappings db @
             [\<lparr>mr_platform = platform, mr_status = st, mr_unified = unified\<rparr>]\<rparr>))"

section \<open>Writing a report into a row\<close>

text \<open>\<open>_money\<close> rounds to six places, half to even.\<close>

definition money :: "dec \<Rightarrow> dec res" where
  "money x =
     (let n = round_half_even (x * 10 ^ 6) in
      if \<bar>n\<bar> < 10 ^ 28 then Inr (of_int n / 10 ^ 6) else Inl InvalidOperation)"

definition given :: "string \<Rightarrow> string option \<Rightarrow> texts" where
  "given key v = (case v of None \<Rightarrow> [] | Some s \<Rightarrow> if s = [] then [] else [(key, s)])"

definition or_none :: "texts \<Rightarrow> texts option" where
  "or_none payload = (if payload = [] then None else Some payload)"

definition buyer_of :: "report \<Rightarrow> texts option" where
  "buyer_of r =
     or_none (given ''name'' (rp_buyer_name r) @ given ''country'' (rp_buyer_country r) @
       given ''phone'' (rp_buyer_phone r) @
       (if given ''phone'' (rp_buyer_phone r) = [] then []
        else given ''phone_last4'' (phone_last4 (rp_buyer_phone r))))"

definition ship_to_of :: "report \<Rightarrow> texts option" where
  "ship_to_of r =
     or_none (given ''country'' (rp_buyer_country r) @ given ''state'' (rp_state r) @
       given ''city'' (rp_city r) @ given ''line1'' (rp_line1 r) @
       given ''postal_code'' (rp_postal r) @ given ''phone'' (rp_buyer_phone r))"

definition line_amount :: "report \<Rightarrow> dec res" where
  "line_amount r =
     (if rp_items r = [] then money (rp_total r)
      else money (foldl (\<lambda>t i. dadd t (dmul (ri_unit_price i) (of_int (ri_quantity i)))) 0 (rp_items r)))"

definition paid_or_later :: "string list" where
  "paid_or_later = [''PAID'', ''SHIPPED'', ''DELIVERED'', ''COMPLETED'']"

definition shipped_or_later :: "string list" where
  "shipped_or_later = [''SHIPPED'', ''DELIVERED'', ''COMPLETED'']"

definition delivered_or_later :: "string list" where
  "delivered_or_later = [''DELIVERED'', ''COMPLETED'']"

definition unless_set :: "'a option \<Rightarrow> 'a \<Rightarrow> 'a option" where
  "unless_set old new = (case old of None \<Rightarrow> Some new | Some v \<Rightarrow> Some v)"

definition stamp :: "sales_order \<Rightarrow> string \<Rightarrow> report \<Rightarrow> sales_order" where
  "stamp row st r =
     (let moment = as_utc (rp_updated_at r);
          row = (if st \<in> set paid_or_later
                 then row\<lparr>so_paid_at := unless_set (so_paid_at row)
                        (case rp_paid_at r of Some p \<Rightarrow> as_utc p | None \<Rightarrow> moment)\<rparr> else row);
          row = (if st \<in> set shipped_or_later
                 then row\<lparr>so_shipped_at := unless_set (so_shipped_at row) moment\<rparr> else row) in
      if st \<in> set delivered_or_later
      then row\<lparr>so_delivered_at := unless_set (so_delivered_at row) moment\<rparr> else row)"

definition apply_status :: "sales_order \<Rightarrow> report \<Rightarrow> status_decision \<Rightarrow> sales_order res" where
  "apply_status row r dec =
     (let to = unified_value (to_status dec) in
      bindr (line_amount r) (\<lambda>items.
      bindr (money (rp_total r)) (\<lambda>total_money.
      let row = row\<lparr>so_platform_status := take 64 (if rp_status r = [] then to else rp_status r),
                     so_status := to, so_buyer := buyer_of r, so_ship_to := ship_to_of r,
                     so_currency := rp_currency r, so_item_amount := items, so_total := total_money,
                     so_updated_at := Some (as_utc (rp_updated_at r))\<rparr>;
          row = (case rp_paid_at r of None \<Rightarrow> row | Some p \<Rightarrow> row\<lparr>so_paid_at := Some (as_utc p)\<rparr>) in
      Inr (if kind dec = D_APPLY then stamp row to r else row))))"

definition new_order :: "shop_info \<Rightarrow> report \<Rightarrow> string \<Rightarrow> status_decision \<Rightarrow> int \<Rightarrow> sales_order res" where
  "new_order shop r key dec ident =
     apply_status
       \<lparr>so_id = ident, so_shop = shop_number shop, so_platform = shop_platform shop,
        so_number = rp_number r, so_key = key, so_platform_status = '''',
        so_status = unified_value (to_status dec), so_buyer = None, so_ship_to = None,
        so_currency = rp_currency r, so_item_amount = 0, so_total = 0, so_updated_at = None,
        so_paid_at = None, so_shipped_at = None, so_delivered_at = None, so_review = RV_AUTO_PASSED\<rparr> r dec"

text \<open>The lines and the fees of the order are replaced.  A line is written without an item.\<close>

definition replace_fees :: "sales_order \<Rightarrow> report \<Rightarrow> order_db \<Rightarrow> order_db res" where
  "replace_fees row r db =
     bindr (mapr (\<lambda>f. bindr (money (rf_amount f)) (\<lambda>m.
        Inr \<lparr>fee_order = so_id row, fee_kind = take 32 (rf_kind f), fee_money = m,
             fee_cur = take 3 (rf_currency f),
             fee_origin = take 32 (if rf_source f = [] then ''platform'' else rf_source f)\<rparr>)) (rp_fees r)) (\<lambda>rows.
     Inr (db\<lparr>fees := filter (\<lambda>f. fee_order f \<noteq> so_id row) (fees db) @ rows\<rparr>))"

definition replace_children :: "sales_order \<Rightarrow> report \<Rightarrow> order_db \<Rightarrow> order_db res" where
  "replace_children row r db =
     bindr (mapr (\<lambda>i. money (ri_unit_price i)) (rp_items r)) (\<lambda>_.
     replace_fees row r
       (db\<lparr>stock := replace_items (so_id row) (map (\<lambda>i. (None, ri_quantity i)) (rp_items r)) (stock db)\<rparr>))"

definition get_order :: "int \<Rightarrow> order_db \<Rightarrow> sales_order option" where
  "get_order ident db = find (\<lambda>o'. so_id o' = ident) (orders db)"

definition get_by_key :: "string \<Rightarrow> order_db \<Rightarrow> sales_order option" where
  "get_by_key key db = find (\<lambda>o'. so_key o' = key) (orders db)"

definition put_order :: "sales_order \<Rightarrow> order_db \<Rightarrow> order_db" where
  "put_order row db = db\<lparr>orders := map (\<lambda>o'. if so_id o' = so_id row then row else o') (orders db)\<rparr>"

definition fresh_id :: "order_db \<Rightarrow> int \<times> order_db" where
  "fresh_id db = (serial db, db\<lparr>serial := serial db + 1\<rparr>)"

definition upsert_order ::
  "shop_info \<Rightarrow> report \<Rightarrow> string \<Rightarrow> (string option \<Rightarrow> status_decision) \<Rightarrow> order_db
     \<Rightarrow> (write_action \<times> status_decision option \<times> order_db) res" where
  "upsert_order shop r key resolve db =
     (let existing = get_by_key key db;
          action = decide_write (case existing of None \<Rightarrow> None | Some row \<Rightarrow> so_updated_at row) (rp_updated_at r) in
      if action = SKIP then Inr (action, None, db)
      else
        (case existing of
           None \<Rightarrow>
             (let dec = resolve None; (ident, db) = fresh_id db in
              bindr (new_order shop r key dec ident) (\<lambda>row.
              bindr (replace_children row r (db\<lparr>orders := orders db @ [row]\<rparr>)) (\<lambda>db.
              Inr (INSERT, Some dec, db))))
         | Some row \<Rightarrow>
             (let dec = resolve (Some (so_status row)) in
              bindr (apply_status row r dec) (\<lambda>row.
              bindr (replace_children row r (put_order row db)) (\<lambda>db.
              Inr (UPDATE, Some dec, db))))))"

section \<open>What an inventory operation that raises leaves behind\<close>

fun each_left :: "('a \<Rightarrow> 's \<Rightarrow> 's res) \<Rightarrow> ('a \<Rightarrow> 's \<Rightarrow> 's) \<Rightarrow> 'a list \<Rightarrow> 's \<Rightarrow> 's" where
  "each_left f left [] s = s"
| "each_left f left (x # xs) s =
     (case f x s of Inl _ \<Rightarrow> left x s | Inr s' \<Rightarrow> each_left f left xs s')"

fun commit_left :: "nat \<Rightarrow> balance \<Rightarrow> movement \<Rightarrow> stock_db \<Rightarrow> stock_db" where
  "commit_left 0 current m db = db"
| "commit_left (Suc n) current m db =
     (case apply_once current (mv_change m) db of
        (ST_applied, Some row, db) \<Rightarrow>
          append_flow row (mv_kind m) (mv_quantity m) (qty (mv_bucket m) current) (qty (mv_bucket m) row)
            (mv_ref_type m) (mv_ref m) db
      | (ST_conflict, Some row, db) \<Rightarrow> commit_left n row m db
      | (_, _, db) \<Rightarrow> db)"

definition release_movement :: "hold \<Rightarrow> allocation \<Rightarrow> movement" where
  "release_movement h a =
     \<lparr>mv_kind = ''RELEASE'', mv_quantity = alloc_quantity a, mv_bucket = Occupied,
      mv_ref_type = ''ORDER'', mv_ref = Some (hold_order h),
      mv_change = no_change\<lparr>d_occupied := - alloc_quantity a\<rparr>\<rparr>"

definition ship_movement :: "int \<Rightarrow> allocation \<Rightarrow> movement" where
  "ship_movement order a =
     \<lparr>mv_kind = ''SHIP'', mv_quantity = alloc_quantity a, mv_bucket = Available,
      mv_ref_type = ''ORDER'', mv_ref = Some order,
      mv_change = no_change\<lparr>d_available := - alloc_quantity a, d_occupied := - alloc_quantity a\<rparr>\<rparr>"

definition pair_left :: "int \<Rightarrow> int \<Rightarrow> movement \<Rightarrow> stock_db \<Rightarrow> stock_db" where
  "pair_left sku wh m db =
     (case get_pair sku wh db of None \<Rightarrow> db | Some row \<Rightarrow> commit_left version_retries row m db)"

definition release_left :: "int \<Rightarrow> stock_db \<Rightarrow> stock_db" where
  "release_left order db =
     each_left release_hold
       (\<lambda>h. each_left (release_alloc h) (\<lambda>a. pair_left (hold_sku h) (alloc_warehouse a) (release_movement h a))
              (read_allocs (hold_allocs h)))
       (filter (\<lambda>h. hold_order h = order) (holds db)) db"

definition ship_left :: "int \<Rightarrow> stock_db \<Rightarrow> stock_db" where
  "ship_left order db =
     each_left ship_item
       (\<lambda>item db.
          case (oi_sku item, get_for_item (oi_id item) db) of
            (Some sku, Some h) \<Rightarrow>
              each_left (ship_alloc sku order)
                (\<lambda>a. pair_left sku (alloc_warehouse a) (ship_movement order a)) (read_allocs (hold_allocs h)) db
          | _ \<Rightarrow> db)
       (list_items order db) db"

definition kept :: "(stock_db \<Rightarrow> stock_db res) \<Rightarrow> (stock_db \<Rightarrow> stock_db) \<Rightarrow> stock_db \<Rightarrow> stock_db \<times> unit res" where
  "kept f left db = (case f db of Inl e \<Rightarrow> (left db, Inl e) | Inr db' \<Rightarrow> (db', Inr ()))"

section \<open>Ingesting a report\<close>

text \<open>Stock follows the status: reserve on payment, release on a cancellation before shipment,
  take out on shipment.  Reservations do not raise (\<open>reserve_order_total\<close>).\<close>

definition sync_inventory :: "int \<Rightarrow> status_decision \<Rightarrow> stock_db \<Rightarrow> stock_db \<times> unit res" where
  "sync_inventory order dec db =
     (let unpaid = [None, Some S_PENDING];
          shipped = [S_SHIPPED, S_DELIVERED, S_COMPLETED];
          ship = kept (ship_order order) (ship_left order);
          reserve = kept (reserve_order order) (\<lambda>db. db) in
      if to_status dec = S_CANCELLED \<and> from_status dec \<in> set [None, Some S_PENDING, Some S_PAID]
      then kept (release_order order) (release_left order) db
      else if to_status dec = S_PAID \<and> from_status dec \<in> set unpaid then reserve db
      else if to_status dec \<in> set shipped \<and> from_status dec \<in> set unpaid then
        (case reserve db of (db, Inl e) \<Rightarrow> (db, Inl e) | (db, Inr _) \<Rightarrow> ship db)
      else if to_status dec \<in> set shipped \<and> from_status dec = Some S_PAID then ship db
      else (db, Inr ()))"

definition source_value :: "change_source \<Rightarrow> string" where
  "source_value s = (case s of Src_SYSTEM \<Rightarrow> ''SYSTEM'' | Src_WEBHOOK \<Rightarrow> ''WEBHOOK'' | Src_MANUAL \<Rightarrow> ''MANUAL'')"

definition append_log ::
  "int \<Rightarrow> string option \<Rightarrow> string \<Rightarrow> string \<Rightarrow> int option \<Rightarrow> change_source \<Rightarrow> log_remark \<Rightarrow> order_db \<Rightarrow> order_db" where
  "append_log order from to platform_status operator source remark db =
     db\<lparr>logs := logs db @
       [\<lparr>sl_order = order, sl_from = from, sl_to = to, sl_platform_status = take 64 platform_status,
         sl_operator = operator, sl_source = source_value source, sl_remark = remark\<rparr>]\<rparr>"

definition apply_review :: "sales_order \<Rightarrow> order_db \<Rightarrow> order_db" where
  "apply_review row db =
     put_order (row\<lparr>so_review :=
       next_review_status (Some (so_review row)) (so_total row) (so_currency row) (rules db)\<rparr>) db"

definition after_upsert ::
  "change_source \<Rightarrow> int option \<Rightarrow> report \<Rightarrow> sales_order \<Rightarrow> status_decision \<Rightarrow> order_db \<Rightarrow> order_db \<times> unit res" where
  "after_upsert source operator r row dec db =
     (let applied = (kind dec = D_APPLY);
          db = (if applied
                then append_log (so_id row) (map_option unified_value (from_status dec))
                       (unified_value (to_status dec)) (rp_status r) operator source
                       (if unmapped dec then Unmapped_remark else No_remark) db
                else db);
          db = apply_review row db in
      if applied
      then (case sync_inventory (so_id row) dec (stock db) of (st, res) \<Rightarrow> (db\<lparr>stock := st\<rparr>, res))
      else (db, Inr ()))"

definition ingest_order ::
  "shop_info \<Rightarrow> change_source \<Rightarrow> int option \<Rightarrow> order_db \<Rightarrow> report
     \<Rightarrow> order_db \<times> (write_action \<times> status_decision option) res" where
  "ingest_order shop source operator db r =
     (case mapping_table (shop_platform shop) db of
        Inl e \<Rightarrow> (db, Inl e)
      | Inr (table, db) \<Rightarrow>
          (let target = resolve_target (rp_status r) (map_of table) in
           case order_idempotency_key (shop_platform shop) (ShopNumber (shop_number shop)) (rp_number r) of
             Inl e \<Rightarrow> (db, Inl e)
           | Inr key \<Rightarrow>
               (case upsert_order shop r key (\<lambda>current. decide_status (parse_unified current) target source) db of
                  Inl e \<Rightarrow> (db, Inl e)
                | Inr (action, decision, db) \<Rightarrow>
                    (case (if action = SKIP then None else get_by_key key db, decision) of
                       (Some row, Some dec) \<Rightarrow>
                         (case after_upsert source operator r row dec db of
                            (db, Inl e) \<Rightarrow> (db, Inl e)
                          | (db, Inr _) \<Rightarrow> (db, Inr (action, decision)))
                     | _ \<Rightarrow> (db, Inr (action, decision))))))"

end
