(* ===== verification/OrderLife.thy ===== *)
theory OrderLife imports OrderBook begin

text \<open>
  What people do with orders: \<^verbatim>\<open>app/services/order_desk.py\<close> (review, address, notes, returns) and
  \<^verbatim>\<open>app/services/order_ship.py\<close> (shipping in batches), over the rows of \<open>OrderBook\<close>.

  The market place is a parameter: whether a shop and its credentials are there and how the
  platform answers.  What it has been told is not undone by a rollback and is kept apart from the
  tables (\<open>told\<close>).  A request that raises is rolled back; \<open>roll_back\<close> takes the stock
  tables back to before, with what other transactions wrote meanwhile.
\<close>

section \<open>The market place\<close>

datatype reply = Accepted | Refused string | Crashed py_error

record market =
  shop_exists :: "int \<Rightarrow> bool"
  shop_credential :: "int \<Rightarrow> bool"
  send_address :: "sales_order \<Rightarrow> texts \<Rightarrow> reply"
  send_note :: "sales_order \<Rightarrow> string \<Rightarrow> reply"
  send_shipment :: "sales_order \<Rightarrow> string \<Rightarrow> string \<Rightarrow> reply"

text \<open>\<open>_push\<close>: the checks before the call, which raise errors of the application.\<close>

definition push :: "market \<Rightarrow> sales_order \<Rightarrow> reply \<Rightarrow> reply" where
  "push mk row answer =
     (if \<not> shop_exists mk (so_shop row) then Crashed (AppError ''NotFoundError'')
      else if \<not> shop_credential mk (so_shop row) then Crashed (AppError ''ORDER_PLATFORM_REJECTED'')
      else answer)"

section \<open>Review\<close>

definition is_alpha :: "char \<Rightarrow> bool" where
  "is_alpha c \<longleftrightarrow> (CHR ''A'' \<le> c \<and> c \<le> CHR ''Z'') \<or> (CHR ''a'' \<le> c \<and> c \<le> CHR ''z'')"

definition save_rule :: "string \<Rightarrow> dec \<Rightarrow> bool \<Rightarrow> order_db \<Rightarrow> order_db res" where
  "save_rule currency amount enabled db =
     (let code = upper (strip currency);
          rule = \<lparr>rule_currency = code, amount_gt = amount, rule_enabled = enabled\<rparr> in
      if length code \<noteq> 3 \<or> \<not> list_all is_alpha code then Inl (AppError ''ParamInvalidError'')
      else if amount < 0 then Inl (AppError ''ParamInvalidError'')
      else if list_ex (\<lambda>r. rule_currency r = code) (rules db)
      then Inr (db\<lparr>rules := map (\<lambda>r. if rule_currency r = code then rule else r) (rules db)\<rparr>)
      else Inr (db\<lparr>rules := rules db @ [rule]\<rparr>))"

definition decide_review :: "int \<Rightarrow> string \<Rightarrow> order_db \<Rightarrow> order_db res" where
  "decide_review ident decision db =
     (case get_order ident db of
        None \<Rightarrow> Inl (AppError ''NotFoundError'')
      | Some row \<Rightarrow>
          if so_review row \<noteq> RV_PENDING then Inl (AppError ''ORDER_STATE_INVALID'')
          else if decision = ''approve'' then Inr (put_order (row\<lparr>so_review := RV_APPROVED\<rparr>) db)
          else if decision = ''reject'' then Inr (put_order (row\<lparr>so_review := RV_REJECTED\<rparr>) db)
          else Inl (AppError ''ParamInvalidError''))"

section \<open>Address and notes\<close>

definition address_keys :: "string list" where
  "address_keys = [''name'', ''phone'', ''country'', ''state'', ''city'', ''line1'', ''postal_code'']"

definition clean_address :: "texts \<Rightarrow> texts" where
  "clean_address raw =
     map (\<lambda>kv. if fst kv = ''country'' then (fst kv, upper (snd kv)) else kv)
       (List.map_filter (\<lambda>key. case map_of raw key of
            None \<Rightarrow> None
          | Some v \<Rightarrow> if strip v = [] then None else Some (key, strip v)) address_keys)"

definition add_address_log :: "sales_order \<Rightarrow> texts \<Rightarrow> string \<Rightarrow> string option \<Rightarrow> order_db \<Rightarrow> order_db" where
  "add_address_log row after st reason db =
     db\<lparr>address_logs := address_logs db @
       [\<lparr>al_order = so_id row,
         al_before = (case so_ship_to row of None \<Rightarrow> None | Some t \<Rightarrow> if t = [] then None else Some t),
         al_after = after, al_status = st, al_reason = map_option (take 500) reason\<rparr>]\<rparr>"

text \<open>Both the tables and the result: a refused address is logged and then raised.\<close>

definition change_address :: "market \<Rightarrow> int \<Rightarrow> texts \<Rightarrow> order_db \<Rightarrow> order_db \<times> unit res" where
  "change_address mk ident address db =
     (case get_order ident db of
        None \<Rightarrow> (db, Inl (AppError ''NotFoundError''))
      | Some row \<Rightarrow>
          let after = clean_address address in
          if address_invalid (Some (map (\<lambda>kv. (fst kv, OStr (snd kv))) after))
          then (db, Inl (AppError ''ParamInvalidError''))
          else
            (case push mk row (send_address mk row after) of
               Crashed e \<Rightarrow> (db, Inl e)
             | Refused text \<Rightarrow>
                 (add_address_log row after ''FAILED'' (Some text) db, Inl (AppError ''ORDER_PLATFORM_REJECTED''))
             | Accepted \<Rightarrow>
                 (add_address_log row after ''SUCCEEDED'' None
                    (put_order (row\<lparr>so_ship_to := Some after\<rparr>) db), Inr ())))"

definition add_note :: "market \<Rightarrow> int \<Rightarrow> string \<Rightarrow> order_db \<Rightarrow> order_db res" where
  "add_note mk ident content db =
     (case get_order ident db of
        None \<Rightarrow> Inl (AppError ''NotFoundError'')
      | Some row \<Rightarrow>
          let text = strip content in
          if text = [] \<or> 500 < length text then Inl (AppError ''ParamInvalidError'')
          else
            (case push mk row (send_note mk row text) of
               Crashed e \<Rightarrow> Inl e
             | Refused _ \<Rightarrow> Inl (AppError ''ORDER_PLATFORM_REJECTED'')
             | Accepted \<Rightarrow> Inr (db\<lparr>order_notes := order_notes db @ [(so_id row, text)]\<rparr>)))"

section \<open>Returns\<close>

definition get_return :: "int \<Rightarrow> order_db \<Rightarrow> return_row option" where
  "get_return ident db = find (\<lambda>r. rr_id r = ident) (returns db)"

definition put_return :: "return_row \<Rightarrow> order_db \<Rightarrow> order_db" where
  "put_return row db = db\<lparr>returns := map (\<lambda>r. if rr_id r = rr_id row then row else r) (returns db)\<rparr>"

definition create_return :: "int \<Rightarrow> string \<Rightarrow> dec \<Rightarrow> bool \<Rightarrow> bool \<Rightarrow> order_db \<Rightarrow> order_db res" where
  "create_return ident reason amount restock sellable db =
     (case get_order ident db of
        None \<Rightarrow> Inl (AppError ''NotFoundError'')
      | Some row \<Rightarrow>
          let text = strip reason in
          if text = [] then Inl (AppError ''ParamInvalidError'')
          else if amount < 0 \<or> so_total row < amount then Inl (AppError ''ParamInvalidError'')
          else
            let (n, db) = fresh_id db in
            Inr (db\<lparr>returns := returns db @
              [\<lparr>rr_id = n, rr_order = so_id row, rr_reason = take 500 text, rr_status = RT_REQUESTED,
                rr_amount = amount, rr_currency = so_currency row, rr_restock = restock,
                rr_sellable = sellable, rr_restock_status = ''NONE''\<rparr>]\<rparr>))"

definition move_order ::
  "sales_order \<Rightarrow> unified_status \<Rightarrow> int \<Rightarrow> log_remark \<Rightarrow> order_db \<Rightarrow> order_db res" where
  "move_order row target user remark db =
     (let dec = decide_status (parse_unified (Some (so_status row))) (Some target) Src_MANUAL in
      if kind dec \<noteq> D_APPLY then Inl (AppError ''ORDER_STATE_INVALID'')
      else Inr (append_log (so_id row) (Some (so_status row)) (unified_value target) (so_platform_status row)
                  (Some user) Src_MANUAL remark
                  (put_order (row\<lparr>so_status := unified_value target\<rparr>) db)))"

definition restock_return :: "return_row \<Rightarrow> stock_db \<Rightarrow> (return_row \<times> stock_db) res" where
  "restock_return row db =
     (let row = row\<lparr>rr_restock_status := restock_after_refund (rr_restock row)\<rparr> in
      if \<not> rr_restock row then Inr (row, db)
      else
        bindr (receive_return \<lparr>ro_id = rr_id row, ro_order = rr_order row,
                 ro_restock_status = rr_restock_status row, ro_sellable = rr_sellable row\<rparr> db) (\<lambda>(ro, db).
        Inr (row\<lparr>rr_restock_status := ro_restock_status ro\<rparr>, db)))"

definition transition_return :: "int \<Rightarrow> string \<Rightarrow> int \<Rightarrow> order_db \<Rightarrow> order_db res" where
  "transition_return ident action user db =
     (case get_return ident db of
        None \<Rightarrow> Inl (AppError ''NotFoundError'')
      | Some row \<Rightarrow>
          (case decide_return (rr_status row) action of
             None \<Rightarrow> Inl (AppError ''RETURN_STATE_INVALID'')
           | Some nxt \<Rightarrow>
               (case get_order (rr_order row) db of
                  None \<Rightarrow> Inl (AppError ''NotFoundError'')
                | Some order \<Rightarrow>
                    if action = ''approve'' then
                      bindr (move_order order S_REFUNDING user Return_approved db) (\<lambda>db.
                      Inr (put_return (row\<lparr>rr_status := nxt\<rparr>) db))
                    else if action = ''refund'' then
                      bindr (move_order order S_REFUNDED user Refund_done db) (\<lambda>db.
                      bindr (restock_return row (stock db)) (\<lambda>(row, st).
                      Inr (put_return (row\<lparr>rr_status := nxt\<rparr>) (db\<lparr>stock := st\<rparr>))))
                    else Inr (put_return (row\<lparr>rr_status := nxt\<rparr>) db))))"

section \<open>Shipping\<close>

definition batch_ship_limit :: nat where "batch_ship_limit = 200"

definition tracking_prefix :: string where "tracking_prefix = ''CP''"

definition check_batch_size :: "nat \<Rightarrow> nat \<Rightarrow> unit res" where
  "check_batch_size n limit =
     (if n < 1 \<or> limit < n then Inl (AppError ''ParamInvalidError'') else Inr ())"

fun dedupe_loop :: "int list \<Rightarrow> int list \<Rightarrow> int list" where
  "dedupe_loop seen [] = []"
| "dedupe_loop seen (i # is) = (if i \<in> set seen then dedupe_loop seen is else i # dedupe_loop (i # seen) is)"

definition dedupe_ids :: "int list \<Rightarrow> int list" where
  "dedupe_ids ids = dedupe_loop [] ids"

datatype ship_reason = Refusal string | App_refusal string | Default_reason

datatype ship_message =
    Missing_order
  | Bad_status
  | Blocked ship_block
  | Ship_failed ship_reason
  | Told_platform

record ship_line =
  ln_order :: int
  ln_number :: string
  ln_ok :: bool
  ln_tracking :: "string option"
  ln_message :: ship_message

definition refuse_ship :: "string \<Rightarrow> ship_message option" where
  "refuse_ship st =
     (if kind (decide_status (parse_unified (Some st)) (Some S_SHIPPED) Src_MANUAL) = D_APPLY
      then None else Some Bad_status)"

definition ship_refusal :: "sales_order \<Rightarrow> ship_message option" where
  "ship_refusal row =
     (case refuse_ship (so_status row) of
        Some m \<Rightarrow> Some m
      | None \<Rightarrow> map_option Blocked (review_blocks_ship (so_review row)))"

definition make_tracking_no :: "int \<Rightarrow> int \<Rightarrow> string" where
  "make_tracking_no order attempt = take 64 (tracking_prefix @ str_int order @ ''A'' @ str_int attempt)"

definition get_shipment :: "int \<Rightarrow> order_db \<Rightarrow> shipment_row option" where
  "get_shipment order db = find (\<lambda>s. sh_order s = order) (shipments db)"

definition save_shipment :: "shipment_row \<Rightarrow> order_db \<Rightarrow> order_db" where
  "save_shipment row db =
     (let row = row\<lparr>sh_carrier := take 64 (sh_carrier row), sh_tracking := take 64 (sh_tracking row)\<rparr> in
      if get_shipment (sh_order row) db = None then db\<lparr>shipments := shipments db @ [row]\<rparr>
      else db\<lparr>shipments := map (\<lambda>s. if sh_order s = sh_order row then row else s) (shipments db)\<rparr>)"

definition reason_text :: "ship_reason \<Rightarrow> string" where
  "reason_text r = (case r of Refusal t \<Rightarrow> t | App_refusal c \<Rightarrow> c | Default_reason \<Rightarrow> '''')"

text \<open>\<open>_public_reason\<close>: the text of an adapter error or of an error of the application, of
  which the model keeps the class; other exceptions have a fixed text.\<close>

definition public_reason :: "string + py_error \<Rightarrow> ship_reason" where
  "public_reason exc =
     (case exc of
        Inl text \<Rightarrow> if strip text = [] then Default_reason else Refusal (take 200 (strip text))
      | Inr (AppError code) \<Rightarrow> App_refusal code
      | Inr _ \<Rightarrow> Default_reason)"

type_synonym told = "(int \<times> string \<times> string) list"

definition commit_success ::
  "sales_order \<Rightarrow> string \<Rightarrow> string \<Rightarrow> int \<Rightarrow> int \<Rightarrow> datetime \<Rightarrow> order_db \<Rightarrow> order_db \<times> unit res" where
  "commit_success row carrier tracking attempt user now db =
     (let db = put_order (row\<lparr>so_status := unified_value S_SHIPPED, so_shipped_at := Some now\<rparr>) db;
          db = append_log (so_id row) (Some (so_status row)) (unified_value S_SHIPPED) (so_platform_status row)
                 (Some user) Src_MANUAL (Ship_remark (take 500 (carrier @ '' '' @ tracking))) db;
          db = save_shipment
                 \<lparr>sh_order = so_id row, sh_carrier = carrier, sh_tracking = tracking, sh_status = ''SUCCEEDED'',
                  sh_reason = None, sh_shipped_at = Some now, sh_attempt = attempt\<rparr> db in
      case kept (ship_order (so_id row)) (ship_left (so_id row)) (stock db) of
        (st, r) \<Rightarrow> (db\<lparr>stock := st\<rparr>, r))"

definition commit_failure :: "sales_order \<Rightarrow> string \<Rightarrow> ship_reason \<Rightarrow> int \<Rightarrow> order_db \<Rightarrow> order_db" where
  "commit_failure row carrier reason attempt db =
     save_shipment
       \<lparr>sh_order = so_id row, sh_carrier = carrier, sh_tracking = '''', sh_status = ''FAILED'',
        sh_reason = Some (take 500 (reason_text reason)), sh_shipped_at = None, sh_attempt = attempt\<rparr> db"

text \<open>A rollback: the tables are what they were, and what other transactions wrote stays.\<close>

definition undo_stock :: "stock_db \<Rightarrow> stock_db \<Rightarrow> stock_db" where
  "undo_stock before left =
     all_land (before\<lparr>rivals := rivals left\<rparr>)
       (take (length (rivals before) - length (rivals left)) (rivals before))"

definition roll_back :: "order_db \<Rightarrow> order_db \<Rightarrow> order_db" where
  "roll_back before left = before\<lparr>stock := undo_stock (stock before) (stock left)\<rparr>"

text \<open>One order in a savepoint of its own.  The platform is told before the tables are written.\<close>

definition ship_one ::
  "market \<Rightarrow> string \<Rightarrow> int \<Rightarrow> datetime \<Rightarrow> order_db \<times> told \<Rightarrow> int \<Rightarrow> (order_db \<times> told) \<times> ship_line" where
  "ship_one mk carrier user now s ident =
     (case get_order ident (fst s) of
        None \<Rightarrow>
          (s, \<lparr>ln_order = ident, ln_number = '''', ln_ok = False, ln_tracking = None, ln_message = Missing_order\<rparr>)
      | Some row \<Rightarrow>
          (case ship_refusal row of
             Some m \<Rightarrow>
               (s, \<lparr>ln_order = ident, ln_number = so_number row, ln_ok = False, ln_tracking = None, ln_message = m\<rparr>)
           | None \<Rightarrow>
               let attempt = (case get_shipment ident (fst s) of None \<Rightarrow> 0 | Some sh \<Rightarrow> sh_attempt sh) + 1;
                   tracking = make_tracking_no ident attempt;
                   failed = (\<lambda>db reason told.
                     ((commit_failure row carrier reason attempt db, told),
                      \<lparr>ln_order = ident, ln_number = so_number row, ln_ok = False, ln_tracking = None,
                       ln_message = Ship_failed reason\<rparr>)) in
               (case (if \<not> shop_exists mk (so_shop row) \<or> \<not> shop_credential mk (so_shop row)
                      then Refused ''shop'' else send_shipment mk row carrier tracking) of
                  Refused text \<Rightarrow> failed (fst s) (public_reason (Inl text)) (snd s)
                | Crashed e \<Rightarrow> failed (fst s) (public_reason (Inr e)) (snd s)
                | Accepted \<Rightarrow>
                    let told = snd s @ [(ident, carrier, tracking)] in
                    (case commit_success row carrier tracking attempt user now (fst s) of
                       (left, Inl e) \<Rightarrow> failed (roll_back (fst s) left) (public_reason (Inr e)) told
                     | (db, Inr _) \<Rightarrow>
                         ((db, told),
                          \<lparr>ln_order = ident, ln_number = so_number row, ln_ok = True,
                           ln_tracking = Some tracking, ln_message = Told_platform\<rparr>)))))"

fun ship_batch ::
  "market \<Rightarrow> string \<Rightarrow> int \<Rightarrow> datetime \<Rightarrow> order_db \<times> told \<Rightarrow> int list \<Rightarrow> (order_db \<times> told) \<times> ship_line list" where
  "ship_batch mk carrier user now s [] = (s, [])"
| "ship_batch mk carrier user now s (i # is) =
     (case ship_one mk carrier user now s i of
        (s, line) \<Rightarrow> (case ship_batch mk carrier user now s is of (s, lines) \<Rightarrow> (s, line # lines)))"

definition batch_ship ::
  "market \<Rightarrow> int list \<Rightarrow> string \<Rightarrow> int \<Rightarrow> datetime \<Rightarrow> order_db \<times> told \<Rightarrow> ((order_db \<times> told) \<times> ship_line list) res" where
  "batch_ship mk order_ids carrier user now s =
     (let unique = dedupe_ids order_ids in
      bindr (check_batch_size (length unique) batch_ship_limit) (\<lambda>_.
      if strip carrier = [] then Inl (AppError ''ParamInvalidError'')
      else Inr (ship_batch mk (strip carrier) user now s unique)))"

section \<open>Requests\<close>

datatype order_request =
    Sync_report shop_info report
  | Webhook_report shop_info report
  | Save_mapping string string string
  | Save_rule string dec bool
  | Decide_review int string
  | Change_address int texts
  | Add_note int string
  | Create_return int string dec bool bool
  | Step_return int string
  | Batch_ship "int list" string
  | Stock_desk stock_request

record order_world =
  ow_db :: order_db
  ow_told :: told
  ow_caught :: nat

text \<open>What a request leaves and whether it raised.  A batch with failed lines is committed before
  the handler raises.\<close>

definition plainly :: "order_db \<Rightarrow> order_db res \<Rightarrow> order_db \<times> unit res" where
  "plainly db r = (case r of Inl e \<Rightarrow> (db, Inl e) | Inr db' \<Rightarrow> (db', Inr ()))"

fun handle_order ::
  "market \<Rightarrow> int \<Rightarrow> datetime \<Rightarrow> order_request \<Rightarrow> order_db \<times> told \<Rightarrow> (order_db \<times> told) \<times> unit res" where
  "handle_order mk user now (Sync_report shop r) s =
     (case ingest_order shop Src_SYSTEM None (fst s) r of (db, res) \<Rightarrow> ((db, snd s), bindr res (\<lambda>_. Inr ())))"
| "handle_order mk user now (Webhook_report shop r) s =
     (case ingest_order shop Src_WEBHOOK None (fst s) r of (db, res) \<Rightarrow> ((db, snd s), bindr res (\<lambda>_. Inr ())))"
| "handle_order mk user now (Save_mapping p st u) s =
     (case plainly (fst s) (save_mapping p st u (fst s)) of (db, res) \<Rightarrow> ((db, snd s), res))"
| "handle_order mk user now (Save_rule c a e) s =
     (case plainly (fst s) (save_rule c a e (fst s)) of (db, res) \<Rightarrow> ((db, snd s), res))"
| "handle_order mk user now (Decide_review i d) s =
     (case plainly (fst s) (decide_review i d (fst s)) of (db, res) \<Rightarrow> ((db, snd s), res))"
| "handle_order mk user now (Change_address i a) s =
     (case change_address mk i a (fst s) of (db, res) \<Rightarrow> ((db, snd s), res))"
| "handle_order mk user now (Add_note i t) s =
     (case plainly (fst s) (add_note mk i t (fst s)) of (db, res) \<Rightarrow> ((db, snd s), res))"
| "handle_order mk user now (Create_return i t a f g) s =
     (case plainly (fst s) (create_return i t a f g (fst s)) of (db, res) \<Rightarrow> ((db, snd s), res))"
| "handle_order mk user now (Step_return i a) s =
     (case plainly (fst s) (transition_return i a user (fst s)) of (db, res) \<Rightarrow> ((db, snd s), res))"
| "handle_order mk user now (Batch_ship ids c) s =
     (case batch_ship mk ids c user now s of Inl e \<Rightarrow> (s, Inl e) | Inr (s, _) \<Rightarrow> (s, Inr ()))"
| "handle_order mk user now (Stock_desk rq) s =
     (case handle_stock rq (stock (fst s)) of
        Inl e \<Rightarrow> (s, Inl e)
      | Inr st \<Rightarrow> (((fst s)\<lparr>stock := st\<rparr>, snd s), Inr ()))"

text \<open>A request is served by a user at a time, with the rivals that land while it runs.  The sync
  run catches what a report raises and keeps what it wrote.\<close>

definition keeps_on_error :: "order_request \<Rightarrow> bool" where
  "keeps_on_error rq = (case rq of Sync_report _ _ \<Rightarrow> True | _ \<Rightarrow> False)"

definition serve_order ::
  "market \<Rightarrow> order_world \<Rightarrow> (int \<times> datetime) \<times> order_request \<times> (int \<times> change) list list \<Rightarrow> order_world option" where
  "serve_order mk w rq =
     (case rq of ((user, now), request, batches) \<Rightarrow>
        (let db0 = (ow_db w)\<lparr>stock := (stock (ow_db w))\<lparr>rivals := batches\<rparr>\<rparr>;
             quiet = (\<lambda>db. db\<lparr>stock := (stock db)\<lparr>rivals := []\<rparr>\<rparr>) in
         case handle_order mk user now request (db0, ow_told w) of
           ((db, told), Inr _) \<Rightarrow> Some (w\<lparr>ow_db := quiet db, ow_told := told\<rparr>)
         | ((db, told), Inl _) \<Rightarrow>
             if keeps_on_error request
             then Some (w\<lparr>ow_db := quiet db, ow_told := told, ow_caught := ow_caught w + 1\<rparr>)
             else Some (w\<lparr>ow_db := (ow_db w)\<lparr>stock := all_land ((stock (ow_db w))\<lparr>rivals := []\<rparr>) batches\<rparr>,
                          ow_told := told\<rparr>)))"

end
