(* ===== verification/OrderInvariant.thy ===== *)
theory OrderInvariant imports OrderLife StockService begin

text \<open>
  What may happen to an order, as a step relation: \<open>order_step\<close> is the abstract specification of
  the handlers, which see only the rows of orders, returns and the status log.  Every request is
  a sequence of such steps (\<open>handle_order_steps\<close>), so what every step keeps holds after
  any history.
\<close>

section \<open>Steps of an order\<close>

definition review_codes :: "string list" where
  "review_codes = [RV_AUTO_PASSED, RV_PENDING, RV_APPROVED, RV_REJECTED]"

definition same_core :: "order_db \<Rightarrow> order_db \<Rightarrow> bool" where
  "same_core db db' \<longleftrightarrow> orders db' = orders db \<and> logs db' = logs db \<and> returns db' = returns db \<and> serial db' = serial db"

definition status_move ::
  "int \<Rightarrow> unified_status \<Rightarrow> unified_status \<Rightarrow> change_source \<Rightarrow> order_db \<Rightarrow> order_db \<Rightarrow> bool" where
  "status_move i c t source db db' \<longleftrightarrow>
     (\<exists>old row l. get_order i db = Some old \<and> so_id row = i \<and> so_key row = so_key old \<and>
        so_status old = unified_value c \<and> so_status row = unified_value t \<and> c \<noteq> t \<and> allowed c t source \<and>
        so_review row \<in> set review_codes \<and>
        orders db' = orders (put_order row db) \<and> logs db' = logs db @ [l] \<and>
        sl_order l = i \<and> sl_from l = Some (unified_value c) \<and> sl_to l = unified_value t \<and>
        sl_source l = source_value source \<and> returns db' = returns db \<and> serial db' = serial db)"

inductive order_step :: "order_db \<Rightarrow> order_db \<Rightarrow> bool" where
  aside: "same_core db db' \<Longrightarrow> order_step db db'"
| touch: "get_order (so_id row) db = Some old \<Longrightarrow> so_key row = so_key old \<Longrightarrow> so_status row = so_status old \<Longrightarrow>
     so_review row \<in> set review_codes \<Longrightarrow> same_core (put_order row db) db' \<Longrightarrow> order_step db db'"
| place: "so_id row = serial db \<Longrightarrow> so_key row \<notin> so_key ` set (orders db) \<Longrightarrow>
     so_status row = unified_value t \<Longrightarrow> so_review row \<in> set review_codes \<Longrightarrow>
     sl_order l = so_id row \<Longrightarrow> sl_from l = None \<Longrightarrow> sl_to l = unified_value t \<Longrightarrow>
     same_core (db\<lparr>orders := orders db @ [row], logs := logs db @ [l], serial := serial db + 1\<rparr>) db' \<Longrightarrow>
     order_step db db'"
| move: "status_move i c t source db db' \<Longrightarrow> order_step db db'"
| ask: "rr_id r = serial db \<Longrightarrow> get_order (rr_order r) db \<noteq> None \<Longrightarrow> rr_status r = RT_REQUESTED \<Longrightarrow>
     same_core (db\<lparr>returns := returns db @ [r], serial := serial db + 1\<rparr>) db' \<Longrightarrow> order_step db db'"
| approve: "status_move (rr_order r) c S_REFUNDING Src_MANUAL db mid \<Longrightarrow>
     get_return n db = Some r \<Longrightarrow> rr_status r = RT_REQUESTED \<Longrightarrow>
     same_core (put_return (r\<lparr>rr_status := RT_APPROVED\<rparr>) mid) db' \<Longrightarrow> order_step db db'"
| refund: "status_move (rr_order r) c S_REFUNDED Src_MANUAL db mid \<Longrightarrow>
     get_return n db = Some r \<Longrightarrow> rr_status r = RT_APPROVED \<Longrightarrow> rr_id r' = rr_id r \<Longrightarrow>
     rr_order r' = rr_order r \<Longrightarrow> rr_status r' = RT_REFUNDED \<Longrightarrow>
     same_core (put_return r' mid) db' \<Longrightarrow> order_step db db'"
| reject: "get_return n db = Some r \<Longrightarrow> rr_status r = RT_REQUESTED \<Longrightarrow>
     same_core (put_return (r\<lparr>rr_status := RT_REJECTED\<rparr>) db) db' \<Longrightarrow> order_step db db'"

abbreviation order_steps :: "order_db \<Rightarrow> order_db \<Rightarrow> bool" where
  "order_steps \<equiv> order_step\<^sup>*\<^sup>*"

section \<open>What every step keeps\<close>

text \<open>The status log of an order read from the beginning.\<close>

fun follows :: "string option \<Rightarrow> status_log list \<Rightarrow> string option option" where
  "follows current [] = Some current"
| "follows current (l # ls) = (if sl_from l = current then follows (Some (sl_to l)) ls else None)"

definition trail :: "int \<Rightarrow> order_db \<Rightarrow> status_log list" where
  "trail i db = filter (\<lambda>l. sl_order l = i) (logs db)"

definition legal :: "status_log \<Rightarrow> bool" where
  "legal l \<longleftrightarrow> (\<exists>t. sl_to l = unified_value t \<and>
     (sl_from l = None \<or> (\<exists>c source. sl_from l = Some (unified_value c) \<and> c \<noteq> t \<and> allowed c t source \<and>
        sl_source l = source_value source)))"

definition settled_return :: "return_row \<Rightarrow> bool" where
  "settled_return r \<longleftrightarrow> rr_status r = RT_APPROVED \<or> rr_status r = RT_REFUNDED"

definition return_codes :: "string list" where
  "return_codes = [RT_REQUESTED, RT_APPROVED, RT_REJECTED, RT_REFUNDED]"

definition order_typed :: "sales_order \<Rightarrow> bool" where
  "order_typed row \<longleftrightarrow> parse_unified (Some (so_status row)) \<noteq> None \<and> so_review row \<in> set review_codes"

definition ids_ok :: "order_db \<Rightarrow> bool" where
  "ids_ok db \<longleftrightarrow> distinct (map so_id (orders db)) \<and> distinct (map so_key (orders db)) \<and>
     distinct (map rr_id (returns db)) \<and> (\<forall>row\<in>set (orders db). so_id row < serial db) \<and>
     (\<forall>r\<in>set (returns db). rr_id r < serial db) \<and> (\<forall>l\<in>set (logs db). sl_order l < serial db)"

definition rows_ok :: "order_db \<Rightarrow> bool" where
  "rows_ok db \<longleftrightarrow> (\<forall>row\<in>set (orders db). order_typed row) \<and>
     (\<forall>r\<in>set (returns db). rr_status r \<in> set return_codes \<and> rr_order r \<in> so_id ` set (orders db))"

definition logs_ok :: "order_db \<Rightarrow> bool" where
  "logs_ok db \<longleftrightarrow> (\<forall>l\<in>set (logs db). legal l) \<and>
     (\<forall>row\<in>set (orders db). follows None (trail (so_id row) db) = Some (Some (so_status row)))"

definition after_refund :: "string list" where
  "after_refund = map unified_value [S_REFUNDING, S_REFUNDED, S_RETURNED]"

definition refunds_ok :: "order_db \<Rightarrow> bool" where
  "refunds_ok db \<longleftrightarrow> (\<forall>row\<in>set (orders db).
     let settled = filter (\<lambda>r. rr_order r = so_id row \<and> settled_return r) (returns db) in
     length settled \<le> 1 \<and> (settled \<noteq> [] \<longrightarrow> so_status row \<in> set after_refund))"

definition orders_ok :: "order_db \<Rightarrow> bool" where
  "orders_ok db \<longleftrightarrow> ids_ok db \<and> rows_ok db \<and> logs_ok db \<and> refunds_ok db"

lemma same_core_refl [simp]: "same_core db db"
  by (simp add: same_core_def)

lemma same_core_ok: "same_core db db' \<Longrightarrow> orders_ok db' \<longleftrightarrow> orders_ok db"
  by (simp add: same_core_def orders_ok_def ids_ok_def rows_ok_def logs_ok_def refunds_ok_def trail_def)

lemma follows_append: "follows c (as @ [l]) = (case follows c as of
    None \<Rightarrow> None | Some d \<Rightarrow> if sl_from l = d then Some (Some (sl_to l)) else None)"
  by (induction as arbitrary: c) auto

lemma put_order_simps [simp]:
  "orders (put_order row db) = map (\<lambda>o'. if so_id o' = so_id row then row else o') (orders db)"
  "logs (put_order row db) = logs db" "returns (put_order row db) = returns db"
  "serial (put_order row db) = serial db" "rules (put_order row db) = rules db" "stock (put_order row db) = stock db"
  "shipments (put_order row db) = shipments db" "mappings (put_order row db) = mappings db"
  by (simp_all add: put_order_def)

lemma put_return_simps [simp]:
  "orders (put_return r db) = orders db" "logs (put_return r db) = logs db"
  "returns (put_return r db) = map (\<lambda>x. if rr_id x = rr_id r then r else x) (returns db)"
  "serial (put_return r db) = serial db" "stock (put_return r db) = stock db"
  by (simp_all add: put_return_def)

lemma get_order_SomeD: "get_order i db = Some row \<Longrightarrow> row \<in> set (orders db) \<and> so_id row = i"
  unfolding get_order_def by (auto simp: find_Some_iff)

lemma get_return_SomeD: "get_return i db = Some r \<Longrightarrow> r \<in> set (returns db) \<and> rr_id r = i"
  unfolding get_return_def by (auto simp: find_Some_iff)

lemma ids_put: "so_id row = so_id old \<Longrightarrow> so_key row = so_key old \<Longrightarrow> get_order (so_id old) db = Some old \<Longrightarrow>
    ids_ok db \<Longrightarrow> map so_id (orders (put_order row db)) = map so_id (orders db) \<and>
      map so_key (orders (put_order row db)) = map so_key (orders db)"
  by (auto simp: ids_ok_def dest!: get_order_SomeD) (metis distinct_map inj_on_def)


lemma put_order_mem:
  assumes "get_order (so_id row) db = Some old"
  shows "x \<in> set (orders (put_order row db)) \<longleftrightarrow> x = row \<or> (x \<in> set (orders db) \<and> so_id x \<noteq> so_id row)"
  using get_order_SomeD [OF assms] by force

lemma same_id_order: "ids_ok db \<Longrightarrow> x \<in> set (orders db) \<Longrightarrow> y \<in> set (orders db) \<Longrightarrow> so_id x = so_id y \<Longrightarrow> x = y"
  by (auto simp: ids_ok_def distinct_map inj_on_def)

lemma same_id_return: "ids_ok db \<Longrightarrow> x \<in> set (returns db) \<Longrightarrow> y \<in> set (returns db) \<Longrightarrow> rr_id x = rr_id y \<Longrightarrow> x = y"
  by (auto simp: ids_ok_def distinct_map inj_on_def)

lemma ids_ok_maps:
  assumes "ids_ok db" and "map so_id (orders db') = map so_id (orders db) \<and> map so_key (orders db') = map so_key (orders db)"
    and "returns db' = returns db" and "serial db' = serial db" and "\<forall>l\<in>set (logs db'). sl_order l < serial db"
  shows "ids_ok db'"
proof -
  have all: "(\<forall>row\<in>set (orders x). so_id row < n) \<longleftrightarrow> (\<forall>i\<in>set (map so_id (orders x)). i < n)" for x n by simp
  from assms show ?thesis unfolding ids_ok_def all by (elim conjE) (simp only: simp_thms)
qed

text \<open>Changing a row without its status.\<close>

lemma touch_ok:
  assumes ok: "orders_ok db" and old: "get_order (so_id row) db = Some old"
    and same: "so_key row = so_key old" "so_status row = so_status old" and rv: "so_review row \<in> set review_codes"
  shows "orders_ok (put_order row db)"
proof -
  note o = get_order_SomeD [OF old] and mem = put_order_mem [OF old]
  from ok have ids: "ids_ok db" and rows: "rows_ok db" and logs: "logs_ok db" and ref: "refunds_ok db"
    by (simp_all add: orders_ok_def)
  have id: "so_id row = so_id old" using o by simp
  have "get_order (so_id old) db = Some old" using old o by simp
  note maps = ids_put [OF id same(1) this ids]
  have "so_id ` set (orders (put_order row db)) = so_id ` set (orders db)"
    using maps by (metis list.set_map)
  moreover have "order_typed row" using rows o rv by (auto simp: rows_ok_def order_typed_def same)
  ultimately have "rows_ok (put_order row db)" using rows unfolding rows_ok_def Ball_def mem by auto
  moreover have "ids_ok (put_order row db)"
    using ids by (intro ids_ok_maps [OF ids maps]) (auto simp: ids_ok_def)
  moreover have "logs_ok (put_order row db)"
    using logs o unfolding logs_ok_def Ball_def mem by (auto simp: trail_def same id)
  moreover have "refunds_ok (put_order row db)"
    using ref o unfolding refunds_ok_def Ball_def mem by (auto simp: same id Let_def)
  ultimately show ?thesis by (simp add: orders_ok_def)
qed

text \<open>A new order with its first log entry.\<close>

lemma place_ok:
  assumes ok: "orders_ok db" and id: "so_id row = serial db" and key: "so_key row \<notin> so_key ` set (orders db)"
    and st: "so_status row = unified_value t" and rv: "so_review row \<in> set review_codes"
    and l: "sl_order l = so_id row" "sl_from l = None" "sl_to l = unified_value t"
  shows "orders_ok (db\<lparr>orders := orders db @ [row], logs := logs db @ [l], serial := serial db + 1\<rparr>)"
proof -
  let ?db = "db\<lparr>orders := orders db @ [row], logs := logs db @ [l], serial := serial db + 1\<rparr>"
  from ok have ids: "ids_ok db" and rows: "rows_ok db" and logs: "logs_ok db" and ref: "refunds_ok db"
    by (simp_all add: orders_ok_def)
  have fresh: "so_id x \<noteq> serial db" if "x \<in> set (orders db)" for x using ids that by (auto simp: ids_ok_def)
  then have "ids_ok ?db" using ids key unfolding ids_ok_def by (fastforce simp: id l)
  moreover have "rows_ok ?db" using rows rv by (auto simp: rows_ok_def order_typed_def st)
  moreover have "trail (serial db) db = []" using ids by (auto simp: trail_def ids_ok_def filter_empty_conv)
  then have "logs_ok ?db" using logs fresh by (auto simp: logs_ok_def trail_def legal_def l id st)
  moreover have "filter (\<lambda>r. rr_order r = serial db \<and> settled_return r) (returns db) = []"
    using rows fresh by (force simp: rows_ok_def filter_empty_conv)
  then have "refunds_ok ?db" using ref by (auto simp: refunds_ok_def id)
  ultimately show ?thesis by (simp add: orders_ok_def)
qed

lemma after_refund_closed:
  "allowed c t source \<Longrightarrow> unified_value c \<in> set after_refund \<Longrightarrow> unified_value t \<in> set after_refund"
  by (cases c; cases t) (auto simp: after_refund_def allowed_def cancel_from_def refund_from_def return_from_def
      unified_value_inj split: if_splits)

lemma status_move_parts:
  assumes mv: "status_move i c t source db db'" and ok: "orders_ok db"
  shows "ids_ok db' \<and> rows_ok db' \<and> logs_ok db' \<and> refunds_ok db' \<and> returns db' = returns db \<and>
    (\<exists>old row. old \<in> set (orders db) \<and> so_id old = i \<and> so_status old = unified_value c \<and>
       so_id row = i \<and> so_status row = unified_value t \<and>
       (\<forall>x. x \<in> set (orders db') \<longleftrightarrow> x = row \<or> (x \<in> set (orders db) \<and> so_id x \<noteq> i)))"
proof -
  from mv obtain old row l where m: "get_order i db = Some old" "so_id row = i" "so_key row = so_key old"
      "so_status old = unified_value c" "so_status row = unified_value t" "c \<noteq> t" "allowed c t source"
      "so_review row \<in> set review_codes" "orders db' = orders (put_order row db)" "logs db' = logs db @ [l]"
      "sl_order l = i" "sl_from l = Some (unified_value c)" "sl_to l = unified_value t"
      "sl_source l = source_value source" "returns db' = returns db" "serial db' = serial db"
    by (auto simp: status_move_def)
  note o = get_order_SomeD [OF m(1)]
  have old: "get_order (so_id row) db = Some old" using m(1,2) by simp
  note mem = put_order_mem [OF old, folded m(9), unfolded m(2)]
  from ok have ids: "ids_ok db" and rows: "rows_ok db" and logs: "logs_ok db" and ref: "refunds_ok db"
    by (simp_all add: orders_ok_def)
  have id: "so_id row = so_id old" using o m(2) by simp
  have "get_order (so_id old) db = Some old" using m(1) o by simp
  note maps = ids_put [OF id m(3) this ids, folded m(9)]
  have idset: "so_id ` set (orders db') = so_id ` set (orders db)" using maps by (metis list.set_map)
  have "order_typed row" using m(8) by (simp add: order_typed_def m(5))
  then have r: "rows_ok db'" using rows idset unfolding rows_ok_def Ball_def mem m(15) by auto
  have "so_id old < serial db" using ids o by (auto simp: ids_ok_def)
  then have i: "ids_ok db'"
    using ids o by (intro ids_ok_maps [OF ids maps]) (auto simp: m(10,11,15,16) ids_ok_def)
  have leg: "legal l" unfolding legal_def using m(6,7,12,13,14) by blast
  have "follows None (trail i db) = Some (Some (unified_value c))" using logs o m(4) by (auto simp: logs_ok_def)
  then have "follows None (trail i db') = Some (Some (unified_value t))"
    by (simp add: trail_def m(10,11,12,13) follows_append)
  moreover have "trail j db' = trail j db" if "j \<noteq> i" for j using that by (simp add: trail_def m(10,11))
  ultimately have lg: "logs_ok db'" using logs leg unfolding logs_ok_def Ball_def mem by (auto simp: m(2,5,10))
  have "refunds_ok db'"
    using ref o after_refund_closed [OF m(7)] unfolding refunds_ok_def Ball_def mem m(15)
    by (auto simp: m(2,4,5) Let_def)
  with i r lg m o mem show ?thesis by blast
qed

text \<open>A return that changes its status.\<close>

lemma put_return_ok:
  assumes ids: "ids_ok db" and rows: "rows_ok db" and logs: "logs_ok db" and ref: "refunds_ok db"
    and r: "r \<in> set (returns db)" and same: "rr_id r' = rr_id r" "rr_order r' = rr_order r"
    and code: "rr_status r' \<in> set return_codes"
    and settles: "settled_return r' \<Longrightarrow> settled_return r \<or>
      (filter (\<lambda>x. rr_order x = rr_order r \<and> settled_return x) (returns db) = [] \<and>
       (\<forall>row\<in>set (orders db). so_id row = rr_order r \<longrightarrow> so_status row \<in> set after_refund))"
  shows "orders_ok (put_return r' db)"
proof -
  obtain as bs where rs: "returns db = as @ r # bs" using r by (meson split_list)
  have others: "rr_id x \<noteq> rr_id r" if "x \<in> set as \<union> set bs" for x
  proof -
    from ids have "distinct (map rr_id (as @ r # bs))" by (simp add: ids_ok_def rs)
    then have "rr_id r \<notin> rr_id ` (set as \<union> set bs)" by (auto simp del: Un_iff)
    with that show ?thesis by (metis imageI)
  qed
  then have new: "returns (put_return r' db) = as @ r' # bs"
    by (auto simp: rs same intro!: map_idI)
  have "ids_ok (put_return r' db)" using ids unfolding ids_ok_def new by (simp add: rs same)
  moreover have "rows_ok (put_return r' db)"
    using rows code unfolding rows_ok_def new by (simp add: rs same)
  moreover have "logs_ok (put_return r' db)" using logs by (simp add: logs_ok_def trail_def)
  moreover have "refunds_ok (put_return r' db)"
    unfolding refunds_ok_def Let_def new
  proof
    fix row assume row: "row \<in> set (orders (put_return r' db))"
    let ?S = "\<lambda>rs. filter (\<lambda>x. rr_order x = so_id row \<and> settled_return x) rs"
    from ref row have now: "length (?S (as @ r # bs)) \<le> 1" "?S (as @ r # bs) \<noteq> [] \<longrightarrow> so_status row \<in> set after_refund"
      unfolding refunds_ok_def Let_def by (simp_all add: rs)
    show "length (?S (as @ r' # bs)) \<le> 1 \<and> (?S (as @ r' # bs) \<noteq> [] \<longrightarrow> so_status row \<in> set after_refund)"
    proof (cases "so_id row = rr_order r \<and> settled_return r' \<and> \<not> settled_return r")
      case True
      with settles row show ?thesis by (simp add: rs same)
    next
      case False
      with now show ?thesis by (auto simp: same split: if_splits)
    qed
  qed
  ultimately show ?thesis by (simp add: orders_ok_def)
qed

lemma approve_from: "allowed c S_REFUNDING Src_MANUAL \<Longrightarrow> unified_value c \<notin> set after_refund"
  by (cases c) (auto simp: allowed_def after_refund_def)

lemma order_step_ok: "order_step db db' \<Longrightarrow> orders_ok db \<Longrightarrow> orders_ok db'"
proof (induction rule: order_step.induct)
  case (aside db db')
  then show ?case by (simp add: same_core_ok)
next
  case (touch row db old db')
  then show ?case using touch_ok same_core_ok by metis
next
  case (place row db t l db')
  then show ?case using place_ok [OF place.prems place.hyps(1-7)] same_core_ok by metis
next
  case (move i c t source db db')
  then show ?case using status_move_parts by (simp add: orders_ok_def)
next
  case (ask r db db')
  let ?db = "db\<lparr>returns := returns db @ [r], serial := serial db + 1\<rparr>"
  from ask.hyps(2) obtain row where row: "row \<in> set (orders db)" "so_id row = rr_order r"
    using get_order_SomeD by blast
  from ask.prems have ids: "ids_ok db" and rows: "rows_ok db" and ref: "refunds_ok db" and lg: "logs_ok db"
    by (simp_all add: orders_ok_def)
  have "ids_ok ?db" using ids unfolding ids_ok_def by (fastforce simp: ask.hyps(1))
  moreover have "rr_order r \<in> so_id ` set (orders db)" using row by force
  then have "rows_ok ?db" using rows by (simp add: rows_ok_def ask.hyps(3) return_codes_def)
  moreover have "logs_ok ?db" using lg by (auto simp: logs_ok_def trail_def)
  moreover have "refunds_ok ?db" using ref by (auto simp: refunds_ok_def settled_return_def ask.hyps(3))
  ultimately show ?case using same_core_ok [OF ask.hyps(4)] by (simp add: orders_ok_def)
next
  case (approve r c db mid n db')
  note p = status_move_parts [OF approve.hyps(1) approve.prems]
  note r = get_return_SomeD [OF approve.hyps(2)]
  from approve.hyps(1) have "unified_value c \<notin> set after_refund"
    using approve_from by (auto simp: status_move_def)
  with p approve.prems have "filter (\<lambda>x. rr_order x = rr_order r \<and> settled_return x) (returns db) = []"
    unfolding orders_ok_def refunds_ok_def Let_def by metis
  moreover have "\<forall>row\<in>set (orders mid). so_id row = rr_order r \<longrightarrow> so_status row \<in> set after_refund"
    using p by (auto simp: after_refund_def)
  ultimately have "orders_ok (put_return (r\<lparr>rr_status := RT_APPROVED\<rparr>) mid)"
    using p r by (intro put_return_ok [where r = r]) (simp_all add: return_codes_def)
  with same_core_ok [OF approve.hyps(4)] show ?case by simp
next
  case (refund r c db mid n r' db')
  note p = status_move_parts [OF refund.hyps(1) refund.prems]
  note r = get_return_SomeD [OF refund.hyps(2)]
  have "orders_ok (put_return r' mid)"
    using p r refund.hyps(3-6) by (intro put_return_ok [where r = r]) (simp_all add: return_codes_def settled_return_def)
  with same_core_ok [OF refund.hyps(7)] show ?case by simp
next
  case (reject n db r db')
  note r = get_return_SomeD [OF reject.hyps(1)]
  have "orders_ok (put_return (r\<lparr>rr_status := RT_REJECTED\<rparr>) db)"
    using reject.prems r by (intro put_return_ok [where r = r]) (simp_all add: orders_ok_def return_codes_def settled_return_def)
  with same_core_ok [OF reject.hyps(3)] show ?case by simp
qed

lemma order_steps_ok: "order_steps db db' \<Longrightarrow> orders_ok db \<Longrightarrow> orders_ok db'"
  by (induction rule: rtranclp_induct) (auto intro: order_step_ok)

end
