(* ===== verification/OrderRefine.thy ===== *)
theory OrderRefine imports OrderInvariant begin

text \<open>
  The handlers of \<open>OrderBook\<close> and \<open>OrderLife\<close> take only the steps of \<open>OrderInvariant\<close>: what a
  report writes, what people decide and what a batch ships are sequences of \<open>order_step\<close>, also
  when they raise halfway.
\<close>

section \<open>Reports\<close>

lemma insert_missing_core [simp]:
  "same_core db (insert_missing p defaults db)"
  "rules (insert_missing p defaults db) = rules db" "stock (insert_missing p defaults db) = stock db"
proof -
  have "same_core db (foldl (\<lambda>db kv. if has_mapping p (fst kv) db then db
      else db\<lparr>mappings := mappings db @ [\<lparr>mr_platform = p, mr_status = fst kv, mr_unified = snd kv\<rparr>]\<rparr>) db xs) \<and>
    rules (foldl (\<lambda>db kv. if has_mapping p (fst kv) db then db
      else db\<lparr>mappings := mappings db @ [\<lparr>mr_platform = p, mr_status = fst kv, mr_unified = snd kv\<rparr>]\<rparr>) db xs) = rules db \<and>
    stock (foldl (\<lambda>db kv. if has_mapping p (fst kv) db then db
      else db\<lparr>mappings := mappings db @ [\<lparr>mr_platform = p, mr_status = fst kv, mr_unified = snd kv\<rparr>]\<rparr>) db xs) = stock db"
    for xs
    by (induction xs arbitrary: db) (simp_all add: same_core_def)
  then show "same_core db (insert_missing p defaults db)"
    "rules (insert_missing p defaults db) = rules db" "stock (insert_missing p defaults db) = stock db"
    unfolding insert_missing_def by blast+
qed

lemma mapping_table_core:
  "mapping_table p db = Inr (table, db') \<Longrightarrow> same_core db db' \<and> stock db' = stock db \<and> rules db' = rules db"
  by (auto simp: mapping_table_def res_simps Let_def)

lemma stamp_simps [simp]:
  "so_id (stamp row st r) = so_id row" "so_key (stamp row st r) = so_key row"
  "so_status (stamp row st r) = so_status row" "so_review (stamp row st r) = so_review row"
  "so_updated_at (stamp row st r) = so_updated_at row"
  by (simp_all add: stamp_def Let_def)

lemma apply_status_row:
  "apply_status row r dec = Inr row' \<Longrightarrow> so_id row' = so_id row \<and> so_key row' = so_key row \<and>
     so_status row' = unified_value (to_status dec) \<and> so_review row' = so_review row \<and>
     so_updated_at row' = Some (as_utc (rp_updated_at r))"
  by (auto simp: apply_status_def res_simps Let_def split: option.splits if_splits)

lemma new_order_row:
  "new_order shop r key dec i = Inr row \<Longrightarrow> so_id row = i \<and> so_key row = key \<and>
     so_status row = unified_value (to_status dec) \<and> so_review row = RV_AUTO_PASSED \<and>
     so_updated_at row = Some (as_utc (rp_updated_at r))"
  unfolding new_order_def by (drule apply_status_row) simp

lemma replace_children_core:
  "replace_children row r db = Inr db' \<Longrightarrow> same_core db db' \<and> rules db' = rules db \<and>
     stock db' = replace_items (so_id row) (map (\<lambda>i. (None, ri_quantity i)) (rp_items r)) (stock db)"
  by (auto simp: replace_children_def replace_fees_def res_simps same_core_def)

lemma upsert_order_cases:
  assumes "upsert_order shop r key resolve db = Inr (action, decision, db')"
  obtains "action = SKIP" "decision = None" "db' = db"
  | row where "action = INSERT" "get_by_key key db = None" "decision = Some (resolve None)"
      "so_id row = serial db" "so_key row = key" "so_status row = unified_value (to_status (resolve None))"
      "so_review row = RV_AUTO_PASSED" "so_updated_at row = Some (as_utc (rp_updated_at r))"
      "same_core (db\<lparr>orders := orders db @ [row], serial := serial db + 1\<rparr>) db'"
      "stock db' = replace_items (so_id row) (map (\<lambda>i. (None, ri_quantity i)) (rp_items r)) (stock db)"
  | old row where "action = UPDATE" "get_by_key key db = Some old" "decision = Some (resolve (Some (so_status old)))"
      "so_id row = so_id old" "so_key row = so_key old"
      "so_status row = unified_value (to_status (resolve (Some (so_status old))))"
      "so_review row = so_review old" "so_updated_at row = Some (as_utc (rp_updated_at r))"
      "same_core (put_order row db) db'"
      "stock db' = replace_items (so_id row) (map (\<lambda>i. (None, ri_quantity i)) (rp_items r)) (stock db)"
proof (cases "get_by_key key db")
  case None
  from assms None obtain row where n: "new_order shop r key (resolve None) (serial db) = Inr row"
    and c: "replace_children row r (db\<lparr>serial := serial db + 1, orders := orders db @ [row]\<rparr>) = Inr db'"
    and a: "action = INSERT" "decision = Some (resolve None)"
    by (auto simp: upsert_order_def Let_def decide_write_def fresh_id_def res_simps)
  note nr = new_order_row [OF n]
  from replace_children_core [OF c] have
    "same_core (db\<lparr>orders := orders db @ [row], serial := serial db + 1\<rparr>) db'"
    "stock db' = replace_items (so_id row) (map (\<lambda>i. (None, ri_quantity i)) (rp_items r)) (stock db)"
    by (simp_all add: same_core_def)
  with that(2) nr a None show ?thesis by blast
next
  case (Some old)
  show ?thesis
  proof (cases "action = SKIP")
    case True
    with assms Some that(1) show ?thesis by (auto simp: upsert_order_def Let_def res_simps split: if_splits)
  next
    case False
    with assms Some obtain row where u: "apply_status old r (resolve (Some (so_status old))) = Inr row"
      and c: "replace_children row r (put_order row db) = Inr db'"
      and a: "action = UPDATE" "decision = Some (resolve (Some (so_status old)))"
      by (auto simp: upsert_order_def Let_def res_simps split: if_splits)
    note ur = apply_status_row [OF u] and cc = replace_children_core [OF c]
    with that(3) [of old row] a Some show ?thesis by simp
  qed
qed

lemma next_review_code: "c \<in> set review_codes \<Longrightarrow> next_review_status (Some c) t cur rs \<in> set review_codes"
  by (auto simp: next_review_status_def review_codes_def locked_review_def)

lemma get_by_key_SomeD: "get_by_key key db = Some row \<Longrightarrow> row \<in> set (orders db) \<and> so_key row = key"
  unfolding get_by_key_def by (auto simp: find_Some_iff)

lemma get_by_key_None: "get_by_key key db = None \<longleftrightarrow> key \<notin> so_key ` set (orders db)"
  unfolding get_by_key_def by (auto simp: find_None_iff)

lemma same_key_order: "ids_ok db \<Longrightarrow> x \<in> set (orders db) \<Longrightarrow> y \<in> set (orders db) \<Longrightarrow> so_key x = so_key y \<Longrightarrow> x = y"
  by (auto simp: ids_ok_def distinct_map inj_on_def)

lemma get_by_keyI:
  assumes "ids_ok db" and "row \<in> set (orders db)"
  shows "get_by_key (so_key row) db = Some row"
proof (cases "get_by_key (so_key row) db")
  case None
  with assms(2) show ?thesis by (simp add: get_by_key_None)
next
  case (Some x)
  from same_key_order [OF assms(1) _ assms(2)] get_by_key_SomeD [OF Some] Some show ?thesis by blast
qed

lemma get_orderI:
  assumes "ids_ok db" and "row \<in> set (orders db)"
  shows "get_order (so_id row) db = Some row"
proof (cases "get_order (so_id row) db")
  case None
  with assms(2) show ?thesis by (auto simp: get_order_def find_None_iff)
next
  case (Some x)
  from same_id_order [OF assms(1) _ assms(2)] get_order_SomeD [OF Some] Some show ?thesis by blast
qed

text \<open>What comes after the upsert, whatever the stock does.\<close>

lemma after_upsert_core:
  assumes "after_upsert source operator r row dec db = (db', res)"
  shows "same_core ((put_order (row\<lparr>so_review :=
      next_review_status (Some (so_review row)) (so_total row) (so_currency row) (rules db)\<rparr>) db)
      \<lparr>logs := logs db @ (if kind dec = D_APPLY then
         [\<lparr>sl_order = so_id row, sl_from = map_option unified_value (from_status dec),
           sl_to = unified_value (to_status dec), sl_platform_status = take 64 (rp_status r), sl_operator = operator,
           sl_source = source_value source,
           sl_remark = (if unmapped dec then Unmapped_remark else No_remark)\<rparr>] else [])\<rparr>) db' \<and>
    (if kind dec = D_APPLY then sync_inventory (so_id row) dec (stock db) = (stock db', res)
     else stock db' = stock db \<and> res = Inr ())"
  using assms
  by (auto simp: after_upsert_def Let_def apply_review_def append_log_def same_core_def put_order_def
      split: if_splits prod.splits)


lemma decide_unchanged:
  "kind (decide_status (Some c) target source) \<noteq> D_APPLY \<Longrightarrow> to_status (decide_status (Some c) target source) = c"
  by (auto simp: decide_status_def split: option.splits if_splits)

lemma decide_applied:
  assumes "kind (decide_status (Some c) target source) = D_APPLY"
  shows "from_status (decide_status (Some c) target source) = Some c \<and>
    c \<noteq> to_status (decide_status (Some c) target source) \<and>
    allowed c (to_status (decide_status (Some c) target source)) source"
  using assms by (auto simp: decide_status_def split: option.splits if_splits)

lemma decide_new:
  "kind (decide_status None target source) = D_APPLY \<and> from_status (decide_status None target source) = None"
  by (auto simp: decide_status_def split: option.splits)

lemma same_core_trans: "same_core a b \<Longrightarrow> same_core b c \<Longrightarrow> same_core a c"
  by (simp add: same_core_def)

lemma find_by_id_core: "same_core db db' \<Longrightarrow> get_order i db' = get_order i db \<and> get_by_key k db' = get_by_key k db"
  by (simp add: same_core_def get_order_def get_by_key_def)

lemma map_append_fresh:
  "\<forall>x\<in>set xs. so_id x \<noteq> so_id row \<Longrightarrow> so_id row' = so_id row \<Longrightarrow>
     map (\<lambda>x. if so_id x = so_id row' then row' else x) (xs @ [row]) = xs @ [row']"
  by (auto intro: map_idI)

lemma find_snoc: "\<forall>x\<in>set xs. \<not> P x \<Longrightarrow> P y \<Longrightarrow> find P (xs @ [y]) = Some y"
  by (induction xs) auto

lemma insert_report_steps:
  assumes ok: "orders_ok db" and new: "get_by_key key db = None"
    and row: "so_id row = serial db" "so_key row = key" "so_status row = unified_value (to_status dec)"
      "so_review row = RV_AUTO_PASSED"
    and dec: "dec = decide_status None target source"
    and up: "same_core (db\<lparr>orders := orders db @ [row], serial := serial db + 1\<rparr>) mid"
    and after: "after_upsert source operator r row dec mid = (db', res)"
  shows "order_step db db'"
proof -
  let ?row = "row\<lparr>so_review := next_review_status (Some (so_review row)) (so_total row) (so_currency row) (rules mid)\<rparr>"
  note d = decide_new [of target source, folded dec]
  have "\<forall>x\<in>set (orders db). so_id x \<noteq> so_id row" using ok by (auto simp: orders_ok_def ids_ok_def row)
  then have "orders (put_order ?row mid) = orders db @ [?row]"
    using up map_append_fresh [of "orders db" row ?row] by (simp add: same_core_def)
  with up after_upsert_core [OF after] d have "same_core (db\<lparr>orders := orders db @ [?row], logs := logs db @
      [\<lparr>sl_order = so_id row, sl_from = None, sl_to = unified_value (to_status dec),
        sl_platform_status = take 64 (rp_status r), sl_operator = operator, sl_source = source_value source,
        sl_remark = (if unmapped dec then Unmapped_remark else No_remark)\<rparr>], serial := serial db + 1\<rparr>) db'"
    by (simp add: same_core_def)
  moreover have "RV_AUTO_PASSED \<in> set review_codes" by (simp add: review_codes_def)
  then have "so_review ?row \<in> set review_codes" using next_review_code by (simp add: row)
  moreover have "so_key ?row \<notin> so_key ` set (orders db)" using new by (simp add: get_by_key_None row)
  ultimately show ?thesis by (intro place [where row = ?row]) (auto simp: row)
qed

lemma update_report_steps:
  assumes ok: "orders_ok db" and old: "get_by_key key db = Some old"
    and row: "so_id row = so_id old" "so_key row = so_key old" "so_status row = unified_value (to_status dec)"
      "so_review row = so_review old"
    and dec: "dec = decide_status (parse_unified (Some (so_status old))) target source"
    and up: "same_core (put_order row db) mid"
    and after: "after_upsert source operator r row dec mid = (db', res)"
  shows "order_step db db'"
proof -
  let ?row = "row\<lparr>so_review := next_review_status (Some (so_review row)) (so_total row) (so_currency row) (rules mid)\<rparr>"
  note o = get_by_key_SomeD [OF old]
  from ok o obtain c where c: "so_status old = unified_value c" and rv: "so_review old \<in> set review_codes"
    by (auto simp: orders_ok_def rows_ok_def order_typed_def parse_unified_Some)
  have get: "get_order (so_id old) db = Some old"
    using ok o by (intro get_orderI) (simp_all add: orders_ok_def)
  have rv': "so_review ?row \<in> set review_codes" using rv by (simp add: next_review_code row)
  have "orders (put_order ?row mid) = orders (put_order ?row db)"
    using up by (simp add: same_core_def comp_def cong: if_cong)
  note core = after_upsert_core [OF after] and this
  show ?thesis
  proof (cases "kind dec = D_APPLY")
    case True
    then have d: "from_status dec = Some c" "c \<noteq> to_status dec" "allowed c (to_status dec) source"
      using decide_applied [of c target source] by (simp_all add: dec c)
    let ?l = "\<lparr>sl_order = so_id row, sl_from = map_option unified_value (from_status dec),
        sl_to = unified_value (to_status dec), sl_platform_status = take 64 (rp_status r), sl_operator = operator,
        sl_source = source_value source, sl_remark = (if unmapped dec then Unmapped_remark else No_remark)\<rparr>"
    have "status_move (so_id old) c (to_status dec) source db db'"
      unfolding status_move_def using core True get up
      by (intro exI [of _ old] exI [of _ ?row] exI [of _ ?l]) (simp add: same_core_def row c d rv' [unfolded row, simplified])
    then show ?thesis by (rule move)
  next
    case False
    then have "to_status dec = c" using decide_unchanged [of c target source] by (simp add: dec c)
    with core False up get rv' show ?thesis
      by (intro touch [where row = ?row and old = old]) (simp_all add: same_core_def row c)
  qed
qed

text \<open>Ingesting a report: it stops before the row is touched, or one row is written.\<close>

lemma ingest_order_cases:
  assumes ids: "ids_ok db" and ingest: "ingest_order shop source operator db r = (db', res)"
  obtains (stopped) e where "same_core db db'" "stock db' = stock db" "res = Inl e"
  | (skipped) key old where "same_core db db'" "stock db' = stock db" "res = Inr (SKIP, None)"
      "order_idempotency_key (shop_platform shop) (ShopNumber (shop_number shop)) (rp_number r) = Inr key"
      "get_by_key key db = Some old" "decide_write (so_updated_at old) (rp_updated_at r) = SKIP"
  | (inserted) key db1 mid row target dec res' where "same_core db db1" "stock db1 = stock db"
      "order_idempotency_key (shop_platform shop) (ShopNumber (shop_number shop)) (rp_number r) = Inr key"
      "get_by_key key db1 = None" "so_id row = serial db1" "so_key row = key"
      "so_status row = unified_value (to_status dec)" "so_review row = RV_AUTO_PASSED"
      "so_updated_at row = Some (as_utc (rp_updated_at r))" "dec = decide_status None target source"
      "same_core (db1\<lparr>orders := orders db1 @ [row], serial := serial db1 + 1\<rparr>) mid"
      "stock mid = replace_items (so_id row) (map (\<lambda>i. (None, ri_quantity i)) (rp_items r)) (stock db1)"
      "after_upsert source operator r row dec mid = (db', res')" "res = bindr res' (\<lambda>_. Inr (INSERT, Some dec))"
  | (updated) key db1 mid old row target dec res' where "same_core db db1" "stock db1 = stock db"
      "order_idempotency_key (shop_platform shop) (ShopNumber (shop_number shop)) (rp_number r) = Inr key"
      "get_by_key key db1 = Some old" "so_id row = so_id old" "so_key row = so_key old"
      "so_status row = unified_value (to_status dec)" "so_review row = so_review old"
      "so_updated_at row = Some (as_utc (rp_updated_at r))"
      "dec = decide_status (parse_unified (Some (so_status old))) target source"
      "same_core (put_order row db1) mid"
      "stock mid = replace_items (so_id row) (map (\<lambda>i. (None, ri_quantity i)) (rp_items r)) (stock db1)"
      "after_upsert source operator r row dec mid = (db', res')" "res = bindr res' (\<lambda>_. Inr (UPDATE, Some dec))"
proof (cases "mapping_table (shop_platform shop) db")
  case (Inl e)
  with ingest stopped [of e] show thesis by (auto simp: ingest_order_def)
next
  case (Inr tm)
  then obtain table db1 where tab: "mapping_table (shop_platform shop) db = Inr (table, db1)" by (cases tm) auto
  note core = mapping_table_core [OF this]
  let ?target = "resolve_target (rp_status r) (map_of table)"
  let ?resolve = "\<lambda>current. decide_status (parse_unified current) ?target source"
  show thesis
  proof (cases "order_idempotency_key (shop_platform shop) (ShopNumber (shop_number shop)) (rp_number r)")
    case (Inl e)
    with ingest tab core stopped [of e] show thesis by (auto simp: ingest_order_def)
  next
    case key: (Inr key)
    show thesis
    proof (cases "upsert_order shop r key ?resolve db1")
      case (Inl e)
      with ingest tab key core stopped [of e] show thesis by (auto simp: ingest_order_def)
    next
      case (Inr adm)
      then obtain action decision mid where u: "upsert_order shop r key ?resolve db1 = Inr (action, decision, mid)"
        by (cases adm) auto
      note i = ingest [unfolded ingest_order_def, simplified tab key sum.case prod.case Let_def u]
      have ids1: "ids_ok db1" using ids core by (simp add: ids_ok_def same_core_def)
      from u show thesis
      proof (cases rule: upsert_order_cases)
        case 1
        with u obtain old where "get_by_key key db1 = Some old" "decide_write (so_updated_at old) (rp_updated_at r) = SKIP"
          by (cases "get_by_key key db1") (auto simp: upsert_order_def decide_write_def fresh_id_def Let_def res_simps split: if_splits)
        with 1 i skipped key core find_by_id_core [of db db1] show thesis by auto
      next
        case (2 row)
        have "get_by_key key mid = Some row"
          using 2 find_snoc [of "orders db1" "\<lambda>o'. so_key o' = key" row]
          by (auto simp: get_by_key_def same_core_def find_None_iff)
        with i 2 obtain res' where "after_upsert source operator r row (?resolve None) mid = (db', res')"
          "res = bindr res' (\<lambda>_. Inr (INSERT, Some (?resolve None)))"
          by (auto split: prod.splits sum.splits)
        moreover have "parse_unified None = None" by (simp add: parse_unified_def)
        ultimately show thesis using inserted [OF _ _ key 2(2,4-8) _ 2(9,10)] core by metis
      next
        case (3 old row)
        note o = get_by_key_SomeD [OF 3(2)]
        have get: "get_order (so_id old) db1 = Some old" using get_orderI [OF ids1] o by blast
        then have "get_order (so_id row) db1 = Some old" using 3(4) by simp
        note mem = put_order_mem [OF this]
        have "map so_key (orders mid) = map so_key (orders db1)"
          using ids_put [OF 3(4,5) get ids1] 3(9) by (simp add: same_core_def)
        then have "inj_on so_key (set (orders mid))" using ids1 by (metis distinct_map ids_ok_def)
        moreover have "orders mid = orders (put_order row db1)" using 3(9) by (simp only: same_core_def)
        then have "row \<in> set (orders mid)" using mem [of row] by (simp only: simp_thms)
        moreover have "so_key row = key" using o 3(5) by simp
        ultimately have "get_by_key key mid = Some row"
          using get_by_key_None [of key mid] get_by_key_SomeD [of key mid]
          by (cases "get_by_key key mid") (auto simp: inj_on_def)
        with i 3 obtain res' where "after_upsert source operator r row (?resolve (Some (so_status old))) mid = (db', res')"
          "res = bindr res' (\<lambda>_. Inr (UPDATE, Some (?resolve (Some (so_status old)))))"
          by (auto split: prod.splits sum.splits)
        with updated [OF _ _ key 3(2,4-8) refl 3(9,10)] core show thesis by blast
      qed
    qed
  qed
qed

lemma ingest_order_steps:
  assumes ok: "orders_ok db" and ingest: "ingest_order shop source operator db r = (db', res)"
  shows "order_steps db db'"
proof -
  have ids: "ids_ok db" using ok by (simp add: orders_ok_def)
  from ids ingest show ?thesis
  proof (cases rule: ingest_order_cases)
    case (inserted key db1 mid row target dec res')
    have "orders_ok db1" using inserted(1) ok same_core_ok by blast
    from insert_report_steps [OF this inserted(4-8,10,11,13)] aside [OF inserted(1)] show ?thesis by auto
  next
    case (updated key db1 mid old row target dec res')
    have "orders_ok db1" using updated(1) ok same_core_ok by blast
    from update_report_steps [OF this updated(4-8,10,11,13)] aside [OF updated(1)] show ?thesis by auto
  qed (auto intro: aside)
qed

section \<open>What people decide\<close>

lemma known_row:
  assumes "orders_ok db" and "get_order i db = Some row"
  obtains c where "so_status row = unified_value c" "so_review row \<in> set review_codes" "so_id row = i"
  using assms get_order_SomeD [OF assms(2)]
  by (auto simp: orders_ok_def rows_ok_def order_typed_def parse_unified_Some)

lemma plain_steps:
  "save_mapping p st u db = Inr db' \<Longrightarrow> same_core db db' \<and> stock db' = stock db"
  "save_rule c a e db = Inr db' \<Longrightarrow> same_core db db' \<and> stock db' = stock db"
  "add_note mk i t db = Inr db' \<Longrightarrow> same_core db db' \<and> stock db' = stock db"
  by (auto simp: save_mapping_def save_rule_def add_note_def same_core_def Let_def
      split: if_splits option.splits reply.splits)

lemma decide_review_step:
  assumes "orders_ok db" and "decide_review i d db = Inr db'"
  shows "order_step db db' \<and> stock db' = stock db"
proof -
  from assms(2) obtain row v where row: "get_order i db = Some row" and v: "v = RV_APPROVED \<or> v = RV_REJECTED"
    and db': "db' = put_order (row\<lparr>so_review := v\<rparr>) db"
    by (auto simp: decide_review_def split: option.splits if_splits)
  have "get_order (so_id (row\<lparr>so_review := v\<rparr>)) db = Some row" using row get_order_SomeD [OF row] by simp
  with v show ?thesis unfolding db'
    by (intro conjI touch [where row = "row\<lparr>so_review := v\<rparr>" and old = row]) (auto simp: review_codes_def)
qed

lemma add_address_log_core [simp]:
  "same_core db (add_address_log row after st reason db)" "stock (add_address_log row after st reason db) = stock db"
  by (simp_all add: add_address_log_def same_core_def)

lemma change_address_step:
  assumes ok: "orders_ok db" and ch: "change_address mk i a db = (db', res)"
  shows "order_step db db' \<and> stock db' = stock db"
proof (cases "get_order i db")
  case None
  with ch show ?thesis by (auto simp: change_address_def intro: aside)
next
  case (Some row)
  from known_row [OF ok Some] have row: "so_review row \<in> set review_codes" "so_id row = i" by metis+
  from ch Some consider "db' = db" | reason where "db' = add_address_log row (clean_address a) ''FAILED'' reason db"
    | "db' = add_address_log row (clean_address a) ''SUCCEEDED'' None
        (put_order (row\<lparr>so_ship_to := Some (clean_address a)\<rparr>) db)"
    by (auto simp: change_address_def Let_def split: if_splits reply.splits)
  then show ?thesis
  proof cases
    case 3
    show ?thesis unfolding 3
      by (intro conjI touch [where row = "row\<lparr>so_ship_to := Some (clean_address a)\<rparr>" and old = row])
        (simp_all add: row Some)
  qed (auto intro: aside)
qed

lemma create_return_step:
  assumes "create_return i reason amount f g db = Inr db'"
  shows "order_step db db' \<and> stock db' = stock db"
proof -
  from assms obtain row where row: "get_order i db = Some row" and db': "db' = db\<lparr>serial := serial db + 1,
      returns := returns db @ [\<lparr>rr_id = serial db, rr_order = so_id row, rr_reason = take 500 (strip reason),
        rr_status = RT_REQUESTED, rr_amount = amount, rr_currency = so_currency row, rr_restock = f,
        rr_sellable = g, rr_restock_status = ''NONE''\<rparr>]\<rparr>"
    by (auto simp: create_return_def fresh_id_def Let_def split: option.splits if_splits)
  show ?thesis unfolding db' using row get_order_SomeD [OF row]
    by (intro conjI ask [where r = "\<lparr>rr_id = serial db, rr_order = so_id row, rr_reason = take 500 (strip reason),
        rr_status = RT_REQUESTED, rr_amount = amount, rr_currency = so_currency row, rr_restock = f,
        rr_sellable = g, rr_restock_status = ''NONE''\<rparr>"]) (auto simp: same_core_def)
qed

lemma move_order_move:
  assumes ok: "orders_ok db" and row: "get_order i db = Some row" and mv: "move_order row t user rm db = Inr db'"
  shows "\<exists>c. status_move i c t Src_MANUAL db db' \<and> so_status row = unified_value c \<and> stock db' = stock db"
proof -
  from known_row [OF ok row] obtain c where c: "so_status row = unified_value c" "so_review row \<in> set review_codes" "so_id row = i" .
  from mv have a: "c \<noteq> t" "allowed c t Src_MANUAL" and db': "db' = append_log (so_id row) (Some (so_status row)) (unified_value t)
      (so_platform_status row) (Some user) Src_MANUAL rm (put_order (row\<lparr>so_status := unified_value t\<rparr>) db)"
    by (auto simp: move_order_def Let_def c decide_apply_iff split: if_splits)
  have "status_move i c t Src_MANUAL db db'"
    unfolding status_move_def using row c a
    by (intro exI [of _ row] exI [of _ "row\<lparr>so_status := unified_value t\<rparr>"]
        exI [of _ "\<lparr>sl_order = i, sl_from = Some (unified_value c), sl_to = unified_value t,
          sl_platform_status = take 64 (so_platform_status row), sl_operator = Some user,
          sl_source = source_value Src_MANUAL, sl_remark = rm\<rparr>"])
      (simp add: db' append_log_def)
  then show ?thesis using c by (auto simp: db' append_log_def)
qed

lemma restock_return_row:
  "restock_return row db = Inr (row', db') \<Longrightarrow> rr_id row' = rr_id row \<and> rr_order row' = rr_order row"
  by (auto simp: restock_return_def Let_def res_simps split: if_splits)

lemma transition_return_step:
  assumes ok: "orders_ok db" and tr: "transition_return n action user db = Inr db'"
  shows "order_step db db' \<and> (stock db' = stock db \<or>
    (\<exists>row row'. restock_return row (stock db) = Inr (row', stock db')))"
proof -
  from tr obtain r nxt row where r: "get_return n db = Some r" and nxt: "decide_return (rr_status r) action = Some nxt"
    and row: "get_order (rr_order r) db = Some row"
    by (auto simp: transition_return_def split: option.splits)
  note t = tr [unfolded transition_return_def, simplified r nxt row option.case]
  from nxt show ?thesis unfolding decide_return_Some
  proof (elim disjE conjE)
    assume a: "rr_status r = RT_REQUESTED" "action = ''approve''" "nxt = RT_APPROVED"
    with t obtain mid where mv: "move_order row S_REFUNDING user Return_approved db = Inr mid"
      and db': "db' = put_return (r\<lparr>rr_status := nxt\<rparr>) mid" by (auto simp: res_simps)
    from move_order_move [OF ok row mv] obtain c where "status_move (rr_order r) c S_REFUNDING Src_MANUAL db mid"
      and st: "stock mid = stock db" by blast
    from approve [OF this(1) r a(1), of db'] show ?thesis by (simp add: db' a(3) st)
  next
    assume a: "rr_status r = RT_REQUESTED" "action = ''reject''" "nxt = RT_REJECTED"
    with t have db': "db' = put_return (r\<lparr>rr_status := nxt\<rparr>) db" by simp
    from reject [OF r a(1), of db'] show ?thesis by (simp add: db' a(3))
  next
    assume a: "rr_status r = RT_APPROVED" "action = ''refund''" "nxt = RT_REFUNDED"
    with t obtain mid r' st where mv: "move_order row S_REFUNDED user Refund_done db = Inr mid"
      and rs: "restock_return r (stock mid) = Inr (r', st)"
      and db': "db' = put_return (r'\<lparr>rr_status := nxt\<rparr>) (mid\<lparr>stock := st\<rparr>)" by (auto simp: res_simps)
    from move_order_move [OF ok row mv] obtain c where m: "status_move (rr_order r) c S_REFUNDED Src_MANUAL db mid"
      and sto: "stock mid = stock db" by blast
    from refund [OF m r a(1), of "r'\<lparr>rr_status := nxt\<rparr>" db'] restock_return_row [OF rs]
    have "order_step db db'" by (simp add: db' a(3) same_core_def put_return_def)
    with rs show ?thesis by (auto simp: sto db')
  qed
qed

section \<open>Shipping\<close>

lemma append_log_stock [simp]: "stock (append_log i f t ps u src rm db) = stock db"
  by (simp add: append_log_def)

lemma save_shipment_core [simp]:
  "same_core db (save_shipment sh db)" "stock (save_shipment sh db) = stock db"
  by (simp_all add: save_shipment_def Let_def same_core_def)

lemma commit_success_move:
  assumes ok: "orders_ok db" and row: "get_order i db = Some row" and go: "ship_refusal row = None"
    and c: "commit_success row carrier tracking attempt user now db = (db', res)"
  shows "\<exists>c. status_move i c S_SHIPPED Src_MANUAL db db' \<and>
    kept (ship_order i) (ship_left i) (stock db) = (stock db', res)"
proof -
  from known_row [OF ok row] obtain c where k: "so_status row = unified_value c" "so_review row \<in> set review_codes" "so_id row = i" .
  from go have a: "c \<noteq> S_SHIPPED" "allowed c S_SHIPPED Src_MANUAL"
    by (auto simp: ship_refusal_def refuse_ship_def k decide_apply_iff split: option.splits if_splits)
  let ?row = "row\<lparr>so_status := unified_value S_SHIPPED, so_shipped_at := Some now\<rparr>"
  let ?l = "\<lparr>sl_order = so_id row, sl_from = Some (so_status row), sl_to = unified_value S_SHIPPED,
      sl_platform_status = take 64 (so_platform_status row), sl_operator = Some user,
      sl_source = source_value Src_MANUAL, sl_remark = Ship_remark (take 500 (carrier @ '' '' @ tracking))\<rparr>"
  from c have core: "same_core ((put_order ?row db)\<lparr>logs := logs db @ [?l]\<rparr>) db'"
    by (auto simp: commit_success_def Let_def append_log_def same_core_def save_shipment_def k(3) put_order_def
        split: prod.splits)
  from c have st: "kept (ship_order i) (ship_left i) (stock db) = (stock db', res)"
    by (auto simp: commit_success_def Let_def k(3) split: prod.splits)
  have "status_move i c S_SHIPPED Src_MANUAL db db'"
    unfolding status_move_def using row core a
    by (intro exI [of _ row] exI [of _ ?row] exI [of _ ?l]) (simp add: same_core_def k)
  with st show ?thesis by blast
qed

lemma failure_core [simp]:
  "same_core db (commit_failure row carrier reason attempt db)" "stock (commit_failure row carrier reason attempt db) = stock db"
  by (simp_all add: commit_failure_def)

lemma roll_back_core [simp]: "same_core db (roll_back db left)" "stock (roll_back db left) = undo_stock (stock db) (stock left)"
  by (simp_all add: roll_back_def same_core_def)

text \<open>What shipping one order comes to: nothing but a note of the failure, or all of it.\<close>

lemma ship_one_cases:
  assumes ok: "orders_ok db" and one: "ship_one mk carrier user now (db, told) i = ((db', told'), line)"
  obtains (refused) "db' = db" "told' = told" "\<not> ln_ok line"
  | (failed) "same_core db db'" "stock db' = stock db" "told' = told" "\<not> ln_ok line"
  | (undone) mid e where "same_core db db'" "\<not> ln_ok line" "told' = told @ [(i, carrier, make_tracking_no i
         ((case get_shipment i db of None \<Rightarrow> 0 | Some sh \<Rightarrow> sh_attempt sh) + 1))]"
      "kept (ship_order i) (ship_left i) (stock db) = (mid, Inl e)" "stock db' = undo_stock (stock db) mid"
  | (shipped) c where "status_move i c S_SHIPPED Src_MANUAL db db'" "ln_ok line" "ship_order i (stock db) = Inr (stock db')"
      "told' = told @ [(i, carrier, make_tracking_no i
         ((case get_shipment i db of None \<Rightarrow> 0 | Some sh \<Rightarrow> sh_attempt sh) + 1))]"
proof (cases "get_order i db")
  case None
  with one refused show ?thesis by (auto simp: ship_one_def)
next
  case (Some row)
  show ?thesis
  proof (cases "ship_refusal row")
    case (Some m)
    with one \<open>get_order i db = Some row\<close> refused show ?thesis by (auto simp: ship_one_def)
  next
    case None
    let ?attempt = "(case get_shipment i db of None \<Rightarrow> 0 | Some sh \<Rightarrow> sh_attempt sh) + 1"
    let ?tr = "make_tracking_no i ?attempt"
    let ?answer = "if \<not> shop_exists mk (so_shop row) \<or> \<not> shop_credential mk (so_shop row)
        then Refused ''shop'' else send_shipment mk row carrier ?tr"
    note o = one [unfolded ship_one_def, simplified fst_conv snd_conv Some option.case None Let_def]
    show ?thesis
    proof (cases ?answer)
      case Accepted
      obtain mid res where c: "commit_success row carrier ?tr ?attempt user now db = (mid, res)" by fastforce
      from commit_success_move [OF ok Some None c] obtain cs where
        m: "status_move i cs S_SHIPPED Src_MANUAL db mid" "kept (ship_order i) (ship_left i) (stock db) = (stock mid, res)" by blast
      show ?thesis
      proof (cases res)
        case (Inl e)
        with o Accepted c have "db' = commit_failure row carrier (public_reason (Inr e)) ?attempt (roll_back db mid)"
          "told' = told @ [(i, carrier, ?tr)]" "\<not> ln_ok line" by auto
        with undone [of "stock mid" e] m(2) Inl show ?thesis
          by (auto simp: intro!: same_core_trans [OF roll_back_core(1) failure_core(1)])
      next
        case (Inr u)
        with o Accepted c have "db' = mid" "told' = told @ [(i, carrier, ?tr)]" "ln_ok line" by auto
        moreover from m(2) Inr have "ship_order i (stock db) = Inr (stock mid)" by (auto simp: kept_def split: sum.splits)
        ultimately show ?thesis using shipped m(1) by blast
      qed
    next
      case (Refused why)
      with o have "db' = commit_failure row carrier (public_reason (Inl why)) ?attempt db" "told' = told" "\<not> ln_ok line" by auto
      with failed show ?thesis by simp
    next
      case (Crashed e)
      with o have "db' = commit_failure row carrier (public_reason (Inr e)) ?attempt db" "told' = told" "\<not> ln_ok line" by auto
      with failed show ?thesis by simp
    qed
  qed
qed

lemma ship_one_step:
  assumes ok: "orders_ok db" and one: "ship_one mk carrier user now (db, told) i = ((db', told'), line)"
  shows "order_step db db'"
  using ok one by (cases rule: ship_one_cases) (auto intro: aside move)

lemma ship_batch_steps:
  "ship_batch mk carrier user now (db, told) ids = ((db', told'), lines) \<Longrightarrow> orders_ok db \<Longrightarrow> order_steps db db'"
proof (induction ids arbitrary: db told lines)
  case (Cons i ids)
  obtain db1 told1 line where one: "ship_one mk carrier user now (db, told) i = ((db1, told1), line)" by (metis surj_pair)
  with Cons.prems(1) obtain lines' where rest: "ship_batch mk carrier user now (db1, told1) ids = ((db', told'), lines')"
    by (auto split: prod.splits)
  note st = ship_one_step [OF Cons.prems(2) one]
  from Cons.IH [OF rest] order_step_ok [OF st Cons.prems(2)] st show ?case by (meson converse_rtranclp_into_rtranclp)
qed simp

section \<open>Requests\<close>

lemma one_step: "order_step a b \<Longrightarrow> order_steps a b"
  by blast

lemma plainly_steps:
  "plainly db r = (db', res) \<Longrightarrow> (\<And>x. r = Inr x \<Longrightarrow> order_step db x) \<Longrightarrow> order_steps db db'"
  by (auto simp: plainly_def split: sum.splits)

theorem handle_order_steps:
  assumes ok: "orders_ok (fst s)" and h: "handle_order mk user now rq s = (s', res)"
  shows "order_steps (fst s) (fst s')"
proof (cases rq)
  case (Sync_report shop r)
  with h ingest_order_steps [OF ok] show ?thesis by (auto split: prod.splits)
next
  case (Webhook_report shop r)
  with h ingest_order_steps [OF ok] show ?thesis by (auto split: prod.splits)
next
  case (Save_mapping p st u)
  have "order_step (fst s) x" if "save_mapping p st u (fst s) = Inr x" for x
    using plain_steps(1) [OF that] by (blast intro: aside)
  with h Save_mapping show ?thesis by (auto split: prod.splits elim!: plainly_steps)
next
  case (Save_rule c a e)
  have "order_step (fst s) x" if "save_rule c a e (fst s) = Inr x" for x
    using plain_steps(2) [OF that] by (blast intro: aside)
  with h Save_rule show ?thesis by (auto split: prod.splits elim!: plainly_steps)
next
  case (Decide_review i d)
  with h decide_review_step [OF ok] show ?thesis by (auto split: prod.splits elim!: plainly_steps)
next
  case (Change_address i a)
  with h change_address_step [OF ok] show ?thesis by (auto split: prod.splits intro!: one_step)
next
  case (Add_note i t)
  have "order_step (fst s) x" if "add_note mk i t (fst s) = Inr x" for x
    using plain_steps(3) [OF that] by (blast intro: aside)
  with h Add_note show ?thesis by (auto split: prod.splits elim!: plainly_steps)
next
  case (Create_return i t a f g)
  with h create_return_step show ?thesis by (auto split: prod.splits elim!: plainly_steps)
next
  case (Step_return i a)
  with h transition_return_step [OF ok] show ?thesis by (auto split: prod.splits elim!: plainly_steps)
next
  case (Batch_ship ids c)
  with h ok ship_batch_steps [of mk "strip c" user now "fst s" "snd s" "dedupe_ids ids" "fst s'" "snd s'"]
  show ?thesis by (auto simp: batch_ship_def Let_def res_simps split: sum.splits if_splits prod.splits)
next
  case (Stock_desk rq')
  with h show ?thesis by (auto simp: same_core_def split: sum.splits intro!: one_step aside)
qed

end
