(* ===== verification/OrderService.thy ===== *)
theory OrderService imports OrderRefine begin

text \<open>
  What the order handlers promise over any history of requests, with the writes of other
  transactions in between: the rows of orders, returns and the status log stay consistent, and
  the stock books meet as long as the sync run has not swallowed an exception.
\<close>

section \<open>What a failed inventory operation leaves\<close>

definition fine :: "stock_db \<Rightarrow> stock_db \<Rightarrow> bool" where
  "fine db db' \<longleftrightarrow> (desk_ok db \<longrightarrow> desk_ok db' \<and> (plain_rivals db \<longrightarrow> plain_rivals db'))"

lemma fine_refl [simp]: "fine db db"
  by (simp add: fine_def)

lemma fine_trans: "fine a b \<Longrightarrow> fine b c \<Longrightarrow> fine a c"
  by (simp add: fine_def)

lemma shifted_fine: "shifted eo et db db' \<Longrightarrow> fine db db'"
  by (simp add: shifted_def fine_def)

lemma keeps_fine: "(desk_ok db \<Longrightarrow> keeps db db') \<Longrightarrow> fine db db'"
  using keeps_desk_ok [of db db'] by (auto simp: fine_def keeps_def)

lemma each_left_rule:
  assumes "P s" and "\<And>x s t. x \<in> set xs \<Longrightarrow> P s \<Longrightarrow> f x s = Inr t \<Longrightarrow> P t"
    and "\<And>x s. x \<in> set xs \<Longrightarrow> P s \<Longrightarrow> P (left x s)"
  shows "P (each_left f left xs s)"
  using assms
proof (induction xs arbitrary: s)
  case (Cons x xs)
  show ?case
  proof (cases "f x s")
    case (Inl e)
    with Cons.prems show ?thesis by simp
  next
    case (Inr t)
    have "P t" by (rule Cons.prems(2) [OF _ Cons.prems(1) Inr]) simp
    have "P (each_left f left xs t)"
      by (rule Cons.IH [OF \<open>P t\<close>])
        (rule Cons.prems(2) [OF list.set_intros(2)] Cons.prems(3) [OF list.set_intros(2)]; assumption)+
    with Inr show ?thesis by simp
  qed
qed simp

lemma commit_left_keeps:
  "wf_book db \<Longrightarrow> row_of row db \<Longrightarrow> keeps db (commit_left n row m db)"
proof (induction n arbitrary: row db)
  case 0
  then show ?case by (simp add: keeps_refl)
next
  case (Suc n)
  obtain status fresh db1 where once: "apply_once row (mv_change m) db = (status, fresh, db1)"
    by (cases "apply_once row (mv_change m) db") auto
  note step = apply_once_moved [OF once Suc.prems(2)]
  then have k: "keeps db db1" using moved_keeps by blast
  have wf1: "wf_book db1" and row1: "row_of row db1"
    using k keeps_wf keeps_row Suc.prems by blast+
  consider b where "status = ST_applied" "fresh = Some b" | b where "status = ST_conflict" "fresh = Some b"
    | "commit_left (Suc n) row m db = db1"
    by (cases status; cases fresh) (auto simp: once)
  then show ?case
  proof cases
    case 1
    with k keeps_trans [OF k moved_keeps [OF append_flow_moved]] show ?thesis by (simp add: once)
  next
    case 2
    with step have b: "find_balance (bal_id row) db1 = Some b" by simp
    have "row_of b db1" using find_balance_SomeD [OF b] row_of_found by blast
    from keeps_trans [OF k Suc.IH [OF wf1 this]] 2 show ?thesis by (simp add: once)
  next
    case 3
    with k show ?thesis by simp
  qed
qed

lemma pair_left_keeps: "wf_book db \<Longrightarrow> keeps db (pair_left s w m db)"
  using commit_left_keeps get_pair_SomeD row_of_found
  by (fastforce simp: pair_left_def keeps_refl split: option.splits)

lemma alloc_keeps:
  assumes "wf_book db"
  shows "release_alloc h a db = Inr db' \<Longrightarrow> keeps db db'" and "ship_alloc s order a db = Inr db' \<Longrightarrow> keeps db db'"
  by (auto simp: release_alloc_def ship_alloc_def res_simps keeps_refl split: option.splits
      dest!: commit_pair [OF _ _ assms, THEN moved_keeps])

lemma allocs_left_keeps:
  assumes wf: "wf_book db" and f: "\<And>a db db'. wf_book db \<Longrightarrow> f a db = Inr db' \<Longrightarrow> keeps db db'"
    and left: "\<And>a db. wf_book db \<Longrightarrow> keeps db (left a db)"
  shows "keeps db (each_left f left as db)"
proof -
  have "keeps db (each_left f left as db) \<and> wf_book (each_left f left as db)"
    by (rule each_left_rule [where P = "\<lambda>x. keeps db x \<and> wf_book x"])
      (use wf f left keeps_refl keeps_trans keeps_wf in blast)+
  then show ?thesis ..
qed

lemma ship_allocs_left:
  "wf_book x \<Longrightarrow> keeps x (each_left (ship_alloc sku order)
     (\<lambda>a. pair_left sku (alloc_warehouse a) (ship_movement order a)) as x)"
  by (rule allocs_left_keeps) (use alloc_keeps(2) pair_left_keeps in blast)+

lemma release_left_fine: "fine db (release_left order db)"
proof -
  have loop: "desk_ok db \<Longrightarrow> distinct (map hold_item hs) \<Longrightarrow> set hs \<subseteq> set (holds db) \<Longrightarrow>
      fine db (each_left release_hold (\<lambda>h. each_left (release_alloc h)
        (\<lambda>a. pair_left (hold_sku h) (alloc_warehouse a) (release_movement h a)) (read_allocs (hold_allocs h))) hs db)" for hs
  proof (induction hs arbitrary: db)
    case (Cons h hs)
    show ?case
    proof (cases "release_hold h db")
      case (Inl e)
      have "fine db (each_left (release_alloc h)
        (\<lambda>a. pair_left (hold_sku h) (alloc_warehouse a) (release_movement h a)) (read_allocs (hold_allocs h)) db)"
        by (rule keeps_fine, rule allocs_left_keeps) (use desk_okD alloc_keeps(1) pair_left_keeps in blast)+
      with Inl show ?thesis by simp
    next
      case (Inr db1)
      have h: "h \<in> set (holds db)" using Cons.prems(3) by simp
      note s = shifted_fine [OF release_hold_shifted [OF Inr Cons.prems(1) h]]
      with Cons.prems(1) have ok1: "desk_ok db1" by (simp add: fine_def)
      have "set hs \<subseteq> set (holds db1)"
        using release_hold_others [OF Inr Cons.prems(1) h] Cons.prems(2,3) by (fastforce simp: image_iff)
      from fine_trans [OF s Cons.IH [OF ok1 _ this]] Cons.prems(2) Inr show ?thesis by simp
    qed
  qed simp
  show ?thesis
  proof (cases "desk_ok db")
    case True
    from desk_ok_holds [OF True] have "distinct (map hold_item (filter (\<lambda>h. hold_order h = order) (holds db)))"
      by (simp add: distinct_map_filter)
    from loop [OF True this] show ?thesis by (simp add: release_left_def)
  qed (simp add: fine_def)
qed

lemma ship_left_fine: "fine db (ship_left order db)"
proof (cases "desk_ok db")
  case True
  let ?P = "\<lambda>x. fine db x \<and> desk_ok x \<and> order_items x = order_items db"
  have "?P (ship_left order db)"
    unfolding ship_left_def
  proof (rule each_left_rule [where P = ?P])
    show "?P db" using True by simp
  next
    fix i x y assume i: "i \<in> set (list_items order db)" "?P x" "ship_item i x = Inr y"
    then have "i \<in> set (order_items x)" using list_items_mem by simp
    from ship_item_shifted [OF i(3) _ this] i(2) show "?P y"
      using shifted_fine fine_trans by (fastforce simp: fine_def)
  next
    fix i x assume i: "i \<in> set (list_items order db)" and P: "?P x"
    have "keeps x (case (oi_sku i, get_for_item (oi_id i) x) of
        (Some sku, Some h) \<Rightarrow> each_left (ship_alloc sku order)
          (\<lambda>a. pair_left sku (alloc_warehouse a) (ship_movement order a)) (read_allocs (hold_allocs h)) x | _ \<Rightarrow> x)"
      using desk_okD [of x] P
      by (auto split: option.splits intro: keeps_refl ship_allocs_left)
    with P keeps_fine [of x] keeps_desk_ok [of x] fine_trans [of db x] show "?P (case (oi_sku i, get_for_item (oi_id i) x) of
        (Some sku, Some h) \<Rightarrow> each_left (ship_alloc sku order)
          (\<lambda>a. pair_left sku (alloc_warehouse a) (ship_movement order a)) (read_allocs (hold_allocs h)) x | _ \<Rightarrow> x)"
      by (auto simp: keeps_def same_docs_def)
  qed
  then show ?thesis ..
qed (simp add: fine_def)

section \<open>Reservations do not raise\<close>

lemma take_planned_total:
  "\<forall>a\<in>set planned. \<exists>p\<in>set pairs. bal_warehouse (fst p) = alloc_warehouse a \<Longrightarrow>
     \<exists>x. take_planned mode rt r pairs planned db = Inr x"
proof (induction planned arbitrary: db)
  case (Cons a planned)
  from Cons.prems have "find (\<lambda>p. bal_warehouse (fst p) = alloc_warehouse a) pairs \<noteq> None"
    by (auto simp: find_None_iff)
  then obtain p where p: "find (\<lambda>p. bal_warehouse (fst p) = alloc_warehouse a) pairs = Some p" by auto
  have IH: "\<exists>x. take_planned mode rt r pairs planned db = Inr x" for db
    using Cons.IH Cons.prems by simp
  obtain status fresh db1 where once: "apply_once (fst p) (draw_change mode (alloc_quantity a)) db = (status, fresh, db1)"
    by (cases "apply_once (fst p) (draw_change mode (alloc_quantity a)) db") auto
  show ?case
  proof (cases "status = ST_applied \<and> fresh \<noteq> None")
    case True
    then obtain row where "fresh = Some row" by auto
    with IH [of "append_flow row (draw_kind mode) (alloc_quantity a) (qty (draw_bucket mode) row)
                    (qty (draw_bucket mode) row) rt r db1"] True p once
    show ?thesis by (auto split: prod.splits)
  next
    case False
    with p once show ?thesis by (auto split: apply_outcome.splits option.splits)
  qed
qed auto

lemma draw_loop_total:
  "wf_book db \<Longrightarrow> 0 \<le> left \<Longrightarrow> \<exists>x. draw_loop n mode rt r sku left db = Inr x"
proof (induction n arbitrary: left db)
  case (Suc n)
  let ?pairs = "list_for_sku sku db"
  have bins: "\<exists>planned rest. plan_allocations (map bin_of ?pairs) left = Inr (planned, rest)"
    using Suc.prems(2) by (simp add: plan_allocations_def)
  then obtain planned rest where plan: "plan_allocations (map bin_of ?pairs) left = Inr (planned, rest)" by blast
  note props = plan_allocations_props [OF plan]
  then have "\<forall>a\<in>set planned. \<exists>p\<in>set ?pairs. bal_warehouse (fst p) = alloc_warehouse a"
    by (force simp: bin_of_def)
  from take_planned_total [OF this] obtain got conflict db1 where
    take: "take_planned mode rt r ?pairs planned db = Inr (got, conflict, db1)" by fastforce
  have rows: "\<forall>p\<in>set ?pairs. row_of (fst p) db \<and> bal_sku (fst p) = sku" using list_for_sku_rows by blast
  note t = take_planned_moved [OF take Suc.prems(1) rows]
  then obtain tail where tail: "planned = got @ tail" by blast
  with props have le: "pieces got \<le> left" using pieces_prefix_le [of got tail] by auto
  have wf1: "wf_book db1" using t moved_keeps keeps_wf Suc.prems(1) by blast
  from Suc.IH [OF wf1, of "left - pieces got"] le obtain x where
    "draw_loop n mode rt r sku (left - pieces got) db1 = Inr x" by auto
  with plan take show ?case by (cases x) (auto simp: Let_def)
qed simp

lemma reserve_item_total:
  assumes "desk_ok db"
  shows "\<exists>db'. reserve_item i db = Inr db'"
proof (cases "oi_sku i")
  case None
  then show ?thesis by (simp add: reserve_item_def)
next
  case (Some sku)
  show ?thesis
  proof (cases "0 < oi_quantity i")
    case True
    with draw_loop_total [OF desk_okD [OF assms], of "oi_quantity i" version_retries]
    obtain taken short db1 where d: "draw Reserve ''ORDER'' (Some (oi_order i)) sku (oi_quantity i) db = Inr (taken, short, db1)"
      unfolding draw_def by fastforce
    from draw_moved [OF d desk_okD [OF assms]] True have "same_docs db db1" using docs_of_moved less_imp_le by blast
    then have "get_for_item (oi_id i) db1 = get_for_item (oi_id i) db" by (simp add: get_for_item_def same_docs_def)
    with d Some show ?thesis by (auto simp: reserve_item_def Let_def add_hold_def split: option.splits)
  qed (simp add: reserve_item_def should_reserve_line_def Some)
qed

lemma reserve_order_total:
  assumes "desk_ok db"
  shows "\<exists>db'. reserve_order order db = Inr db'"
proof -
  have "set is \<subseteq> set (order_items db) \<Longrightarrow> desk_ok db \<Longrightarrow> \<exists>db'. each reserve_item is db = Inr db'" for "is" db
  proof (induction "is" arbitrary: db)
    case (Cons i is')
    obtain db1 where r: "reserve_item i db = Inr db1" using reserve_item_total [OF Cons.prems(2)] by blast
    from reserve_item_shifted [OF r Cons.prems(2)] Cons.prems have "order_items db1 = order_items db" "desk_ok db1"
      by (simp_all add: shifted_def)
    with Cons.IH [of db1] Cons.prems(1) r show ?case by simp
  qed simp
  from this [of "list_items order db" db] list_items_mem assms show ?thesis
    by (auto simp: reserve_order_def)
qed

section \<open>Stock under the order handlers\<close>

definition tidy :: "stock_db \<Rightarrow> stock_db \<Rightarrow> 'a res \<Rightarrow> bool" where
  "tidy db db' res \<longleftrightarrow> fine db db' \<and> (\<forall>x. res = Inr x \<longrightarrow> shifted no_shift no_shift db db')"

lemma tidy_shifted: "shifted no_shift no_shift db db' \<Longrightarrow> tidy db db' res"
  by (simp add: tidy_def shifted_fine)

lemma tidy_refl [simp]: "tidy db db res"
  by (simp add: tidy_shifted)

lemma kept_tidy:
  assumes "kept f left db = (db', res)" and "\<And>x. f db = Inr x \<Longrightarrow> shifted no_shift no_shift db x"
    and "fine db (left db)"
  shows "tidy db db' res"
  using assms by (auto simp: kept_def tidy_def shifted_fine split: sum.splits)

lemma sync_inventory_tidy:
  assumes "sync_inventory order dec db = (db', res)"
  shows "tidy db db' res"
proof -
  have ship: "kept (ship_order order) (ship_left order) x = (y, r) \<Longrightarrow> tidy x y r" for x y r
    by (rule kept_tidy) (use ship_order_shifted ship_left_fine in blast)+
  have reserve: "kept (reserve_order order) (\<lambda>db. db) x = (y, r) \<Longrightarrow> tidy x y r" for x y r
    by (rule kept_tidy) (use reserve_order_shifted fine_refl in blast)+
  have release: "kept (release_order order) (release_left order) x = (y, r) \<Longrightarrow> tidy x y r" for x y r
    by (rule kept_tidy) (use release_order_shifted release_left_fine in blast)+
  have both: "tidy db db' res"
    if "(case kept (reserve_order order) (\<lambda>db. db) db of (db, Inl e) \<Rightarrow> (db, Inl e)
      | (db, Inr _) \<Rightarrow> kept (ship_order order) (ship_left order) db) = (db', res)"
  proof -
    obtain db1 r where r: "kept (reserve_order order) (\<lambda>db. db) db = (db1, r)" by fastforce
    note t = reserve [OF r]
    show ?thesis
    proof (cases r)
      case (Inl e)
      with t that r show ?thesis by (auto simp: tidy_def)
    next
      case (Inr u)
      with that r have "kept (ship_order order) (ship_left order) db1 = (db', res)" by simp
      from ship [OF this] t Inr show ?thesis
        using fine_trans shifted_trans [of no_shift no_shift db db1 no_shift no_shift db'] by (auto simp: tidy_def)
    qed
  qed
  from assms show ?thesis
    unfolding sync_inventory_def Let_def using ship reserve release both by (auto split: if_splits)
qed

lemma after_upsert_tidy:
  assumes "after_upsert source operator r row dec mid = (db', res)"
  shows "tidy (stock mid) (stock db') res"
  using after_upsert_core [OF assms] sync_inventory_tidy [of "so_id row" dec "stock mid" "stock db'" res]
  by (auto split: if_splits)

lemma tidy_bindr: "shifted no_shift no_shift a b \<Longrightarrow> tidy b c res \<Longrightarrow> tidy a c (bindr res f)"
  using fine_trans shifted_fine shifted_trans [of no_shift no_shift a b no_shift no_shift c]
  by (fastforce simp: tidy_def res_simps)

lemma ingest_order_tidy:
  assumes "orders_ok db" and "ingest_order shop source operator db r = (db', res)"
  shows "tidy (stock db) (stock db') res"
proof -
  have "ids_ok db" using assms(1) by (simp add: orders_ok_def)
  then show ?thesis using assms(2)
  proof (cases rule: ingest_order_cases)
    case (inserted key db1 mid row target dec res')
    with tidy_bindr [OF _ after_upsert_tidy [OF inserted(13)]] replace_items_shifted show ?thesis by metis
  next
    case (updated key db1 mid old row target dec res')
    with tidy_bindr [OF _ after_upsert_tidy [OF updated(13)]] replace_items_shifted show ?thesis by metis
  qed auto
qed

lemma undo_stock_shifted:
  assumes "fine before left"
  shows "shifted no_shift no_shift before (undo_stock before left)"
proof -
  let ?k = "take (length (rivals before) - length (rivals left)) (rivals before)"
  have land: "rivals (all_land (before\<lparr>rivals := rivals left\<rparr>) bs) = rivals left" for bs
    using rivals_land [OF all_land_def [symmetric], of "before\<lparr>rivals := rivals left\<rparr>" bs] by simp
  have "plain_rivals before \<Longrightarrow> plain_batches ?k"
    by (auto simp: plain_rivals_def plain_batches_def list_all_iff dest!: in_set_takeD)
  moreover have "plain_rivals left \<Longrightarrow> plain_rivals (undo_stock before left)"
    using land by (simp add: undo_stock_def plain_rivals_def)
  ultimately show ?thesis
    using all_land_ok [of "before\<lparr>rivals := rivals left\<rparr>" ?k] assms
    by (auto simp: shifted_def undo_stock_def fine_def)
qed

lemma ship_one_shifted:
  assumes ok: "orders_ok db" and one: "ship_one mk carrier user now (db, told) i = ((db', told'), line)"
  shows "shifted no_shift no_shift (stock db) (stock db')"
  using ok one
proof (cases rule: ship_one_cases)
  case (undone mid e)
  then have "mid = ship_left i (stock db)" by (auto simp: kept_def split: sum.splits)
  with undone undo_stock_shifted [OF ship_left_fine] show ?thesis by simp
next
  case (shipped c)
  with ship_order_shifted show ?thesis by blast
qed auto

lemma ship_batch_shifted:
  "ship_batch mk carrier user now (db, told) ids = ((db', told'), lines) \<Longrightarrow> orders_ok db \<Longrightarrow>
     shifted no_shift no_shift (stock db) (stock db')"
proof (induction ids arbitrary: db told lines)
  case (Cons i ids)
  obtain db1 told1 line where one: "ship_one mk carrier user now (db, told) i = ((db1, told1), line)" by (metis surj_pair)
  with Cons.prems(1) obtain lines' where rest: "ship_batch mk carrier user now (db1, told1) ids = ((db', told'), lines')"
    by (auto split: prod.splits)
  have "orders_ok db1" using order_step_ok [OF ship_one_step [OF Cons.prems(2) one] Cons.prems(2)] .
  from shifted_trans [OF ship_one_shifted [OF Cons.prems(2) one] Cons.IH [OF rest this]] show ?case by simp
qed simp

end
