(* ===== verification/OrderHistory.thy ===== *)
theory OrderHistory imports OrderService begin

text \<open>
  Histories of order requests: the invariants of the order desk as machines, and the properties
  of orders, returns, shipping and the stock they move.
\<close>

section \<open>Serving requests\<close>

definition world_ok :: "order_world \<Rightarrow> bool" where
  "world_ok w \<longleftrightarrow> orders_ok (ow_db w) \<and> desk_ok (stock (ow_db w))"

lemma plainly_result:
  "plainly db r = (db', res) \<Longrightarrow> (r = Inr db' \<and> res = Inr ()) \<or> (db' = db \<and> (\<exists>e. res = Inl e))"
  by (auto simp: plainly_def split: sum.splits)

lemma handle_order_stock:
  assumes ok: "orders_ok (fst s)" and h: "handle_order mk user now rq s = (s', res)"
  shows "fine (stock (fst s)) (stock (fst s')) \<and>
    (res = Inr () \<longrightarrow> (\<exists>et. shifted no_shift et (stock (fst s)) (stock (fst s'))))"
proof -
  let ?st = "stock (fst s)" and ?st' = "stock (fst s')"
  have still: ?thesis if "?st' = ?st" using that by (auto intro: exI [of _ no_shift])
  have moved: ?thesis if "shifted no_shift no_shift ?st ?st'" using that shifted_fine by blast
  show ?thesis
  proof (cases rq)
    case (Sync_report shop r)
    with h obtain x where "ingest_order shop Src_SYSTEM None (fst s) r = (fst s', x)" "res = bindr x (\<lambda>_. Inr ())"
      by (auto split: prod.splits)
    with ingest_order_tidy [OF ok this(1)] show ?thesis by (auto simp: tidy_def res_simps)
  next
    case (Webhook_report shop r)
    with h obtain x where "ingest_order shop Src_WEBHOOK None (fst s) r = (fst s', x)" "res = bindr x (\<lambda>_. Inr ())"
      by (auto split: prod.splits)
    with ingest_order_tidy [OF ok this(1)] show ?thesis by (auto simp: tidy_def res_simps)
  next
    case (Save_mapping p st u)
    with h have "plainly (fst s) (save_mapping p st u (fst s)) = (fst s', res)" by (auto split: prod.splits)
    from plainly_result [OF this] plain_steps(1) still show ?thesis by metis
  next
    case (Save_rule c a e)
    with h have "plainly (fst s) (save_rule c a e (fst s)) = (fst s', res)" by (auto split: prod.splits)
    from plainly_result [OF this] plain_steps(2) still show ?thesis by metis
  next
    case (Decide_review i d)
    with h have "plainly (fst s) (decide_review i d (fst s)) = (fst s', res)" by (auto split: prod.splits)
    from plainly_result [OF this] decide_review_step [OF ok] still show ?thesis by metis
  next
    case (Change_address i a)
    with h change_address_step [OF ok] still show ?thesis by (auto split: prod.splits)
  next
    case (Add_note i t)
    with h have "plainly (fst s) (add_note mk i t (fst s)) = (fst s', res)" by (auto split: prod.splits)
    from plainly_result [OF this] plain_steps(3) still show ?thesis by metis
  next
    case (Create_return i t a f g)
    with h have "plainly (fst s) (create_return i t a f g (fst s)) = (fst s', res)" by (auto split: prod.splits)
    from plainly_result [OF this] create_return_step still show ?thesis by metis
  next
    case (Step_return i a)
    with h have "plainly (fst s) (transition_return i a user (fst s)) = (fst s', res)" by (auto split: prod.splits)
    from plainly_result [OF this] show ?thesis
    proof (elim disjE conjE exE)
      assume "transition_return i a user (fst s) = Inr (fst s')"
      from transition_return_step [OF ok this] consider "?st' = ?st"
        | row row' where "restock_return row ?st = Inr (row', ?st')" by blast
      then show ?thesis
      proof cases
        case (2 row row')
        then have "?st' = ?st \<or> (\<exists>ro ro'. receive_return ro ?st = Inr (ro', ?st'))"
          by (auto simp: restock_return_def Let_def res_simps split: if_splits)
        with receive_return_shifted moved still show ?thesis by blast
      qed (rule still)
    qed (simp add: still)
  next
    case (Batch_ship ids c)
    with h have "s' = s \<or> (\<exists>lines. ship_batch mk (strip c) user now (fst s, snd s) (dedupe_ids ids) = ((fst s', snd s'), lines))"
      by (auto simp: batch_ship_def Let_def res_simps split: if_splits sum.splits prod.splits)
    with still ship_batch_shifted [OF _ ok] moved show ?thesis by blast
  next
    case (Stock_desk rq')
    with h have "s' = s \<or> (handle_stock rq' ?st = Inr ?st' \<and> res = Inr ())" by (auto split: sum.splits)
    with still handle_stock_shifted [of rq' ?st ?st'] shifted_fine show ?thesis by blast
  qed
qed

definition posed :: "order_world \<Rightarrow> (int \<times> change) list list \<Rightarrow> order_db" where
  "posed w batches = (ow_db w)\<lparr>stock := (stock (ow_db w))\<lparr>rivals := batches\<rparr>\<rparr>"

lemma orders_ok_stock [simp]: "orders_ok (db\<lparr>stock := st\<rparr>) \<longleftrightarrow> orders_ok db"
  by (rule same_core_ok) (simp add: same_core_def)

lemma serve_order_result:
  assumes "serve_order mk w ((user, now), request, batches) = Some w'"
  obtains db told where "handle_order mk user now request (posed w batches, ow_told w) = ((db, told), Inr ())"
      "ow_db w' = db\<lparr>stock := (stock db)\<lparr>rivals := []\<rparr>\<rparr>" "ow_told w' = told" "ow_caught w' = ow_caught w"
  | db told e where "handle_order mk user now request (posed w batches, ow_told w) = ((db, told), Inl e)"
      "keeps_on_error request" "ow_db w' = db\<lparr>stock := (stock db)\<lparr>rivals := []\<rparr>\<rparr>" "ow_told w' = told"
      "ow_caught w' = ow_caught w + 1"
  | db told e where "handle_order mk user now request (posed w batches, ow_told w) = ((db, told), Inl e)"
      "\<not> keeps_on_error request"
      "ow_db w' = (ow_db w)\<lparr>stock := all_land ((stock (ow_db w))\<lparr>rivals := []\<rparr>) batches\<rparr>" "ow_told w' = told"
      "ow_caught w' = ow_caught w"
proof -
  obtain db told res where h: "handle_order mk user now request (posed w batches, ow_told w) = ((db, told), res)"
    by (metis surj_pair)
  show thesis
  proof (cases res)
    case (Inl e)
    with h assms that(2,3) show thesis
      by (cases "keeps_on_error request") (auto simp: serve_order_def posed_def Let_def)
  next
    case (Inr u)
    with h assms that(1) show thesis by (auto simp: serve_order_def posed_def Let_def)
  qed
qed

lemma serve_order_step:
  assumes serve: "serve_order mk w ((user, now), request, batches) = Some w'" and ok: "world_ok w"
  shows "world_ok w' \<and> ow_caught w \<le> ow_caught w' \<and>
    (plain_batches batches \<longrightarrow> ow_caught w' = ow_caught w \<longrightarrow>
      (\<forall>s wh. occupied_gap s wh (stock (ow_db w')) = occupied_gap s wh (stock (ow_db w))))"
proof -
  have pok: "orders_ok (posed w batches)" "desk_ok (stock (posed w batches))"
    using ok by (simp_all add: posed_def world_ok_def)
  note steps = handle_order_steps [of "(posed w batches, ow_told w)", unfolded fst_conv, OF pok(1)]
  note st = handle_order_stock [of "(posed w batches, ow_told w)", unfolded fst_conv, OF pok(1)]
  from serve show ?thesis
  proof (cases rule: serve_order_result)
    case (1 db told)
    have "orders_ok db" using order_steps_ok [OF steps [OF 1(1)] pok(1)] by simp
    moreover from st [OF 1(1)] obtain et where "shifted no_shift et (stock (posed w batches)) (stock db)" by auto
    then have "desk_ok (stock db)" "plain_batches batches \<longrightarrow> (\<forall>s wh. occupied_gap s wh (stock db) = occupied_gap s wh (stock (ow_db w)))"
      using pok(2) by (auto simp: shifted_def posed_def)
    ultimately show ?thesis using 1 by (auto simp: world_ok_def)
  next
    case (2 db told e)
    have "orders_ok db" using order_steps_ok [OF steps [OF 2(1)] pok(1)] by simp
    moreover from st [OF 2(1)] have "desk_ok (stock db)" using pok(2) by (simp add: fine_def)
    ultimately show ?thesis using 2 by (auto simp: world_ok_def)
  next
    case (3 db told e)
    with ok all_land_ok [of "(stock (ow_db w))\<lparr>rivals := []\<rparr>" batches] show ?thesis
      by (auto simp: world_ok_def)
  qed
qed

interpretation order_desk: invariant_machine "serve_order mk" world_ok for mk
  by unfold_locales (metis serve_order_step surj_pair)

definition serve_order_plainly ::
  "market \<Rightarrow> order_world \<Rightarrow> (int \<times> datetime) \<times> order_request \<times> (int \<times> change) list list \<Rightarrow> order_world option" where
  "serve_order_plainly mk w rq = (if plain_batches (snd (snd rq)) then serve_order mk w rq else None)"

definition world_meets :: "order_world \<Rightarrow> bool" where
  "world_meets w \<longleftrightarrow> world_ok w \<and> (ow_caught w = 0 \<longrightarrow> books_meet (stock (ow_db w)))"

interpretation order_books: invariant_machine "serve_order_plainly mk" world_meets for mk
proof
  fix w rq w' assume w: "world_meets w" and serve: "serve_order_plainly mk w rq = Some w'"
  obtain user now request batches where rq: "rq = ((user, now), request, batches)" by (metis surj_pair)
  from serve have plain: "plain_batches batches" and s: "serve_order mk w ((user, now), request, batches) = Some w'"
    by (auto simp: serve_order_plainly_def rq split: if_splits)
  from serve_order_step [OF s] w plain show "world_meets w'"
    by (auto simp: world_meets_def books_meet_def world_ok_def occupied_gap_def)
qed

section \<open>Shipping once\<close>

definition past_shipping :: "string option \<Rightarrow> bool" where
  "past_shipping v \<longleftrightarrow> (\<exists>c. v = Some (unified_value c) \<and> c \<noteq> S_PENDING \<and> c \<noteq> S_PAID)"

lemma allowed_past:
  "allowed c t source \<Longrightarrow> c \<noteq> t \<Longrightarrow> c \<noteq> S_PENDING \<Longrightarrow> c \<noteq> S_PAID \<Longrightarrow>
     t \<noteq> S_SHIPPED \<and> t \<noteq> S_PENDING \<and> t \<noteq> S_PAID"
  by (cases c; cases t) (auto simp: allowed_def cancel_from_def refund_from_def return_from_def split: if_splits)

lemma shipped_at_most_once:
  "follows v ls = Some fin \<Longrightarrow> \<forall>l\<in>set ls. legal l \<Longrightarrow> past_shipping v \<or> v = None \<or> (\<exists>c. v = Some (unified_value c)) \<Longrightarrow>
     length (filter (\<lambda>l. sl_to l = unified_value S_SHIPPED) ls) \<le> (if past_shipping v then 0 else 1)"
proof (induction ls arbitrary: v)
  case (Cons l ls)
  from Cons.prems(1) have v: "sl_from l = v" and rest: "follows (Some (sl_to l)) ls = Some fin" by (auto split: if_splits)
  from Cons.prems(2) have l: "legal l" and ls: "\<forall>l\<in>set ls. legal l" by simp_all
  then obtain t where t: "sl_to l = unified_value t" by (auto simp: legal_def)
  note IH = Cons.IH [OF rest ls]
  show ?case
  proof (cases "past_shipping v")
    case True
    then obtain c where c: "v = Some (unified_value c)" "c \<noteq> S_PENDING" "c \<noteq> S_PAID" by (auto simp: past_shipping_def)
    with l v t obtain source where "c \<noteq> t" "allowed c t source" by (auto simp: legal_def unified_value_inj)
    from allowed_past [OF this(2,1) c(2,3)] have "t \<noteq> S_SHIPPED" "past_shipping (Some (sl_to l))"
      by (auto simp: past_shipping_def t)
    with IH True show ?thesis by (simp add: t unified_value_inj del: unified_value.simps)
  next
    case False
    have "past_shipping (Some (sl_to l))" if "t = S_SHIPPED"
      using that by (auto simp: past_shipping_def t simp del: unified_value.simps)
    with IH False t show ?thesis by (auto simp: unified_value_inj simp del: unified_value.simps split: if_splits)
  qed
qed simp

section \<open>One order in a batch\<close>

lemma find_put:
  "find (\<lambda>x. so_id x = j) (map (\<lambda>x. if so_id x = so_id row then row else x) xs) =
     (if j = so_id row then map_option (\<lambda>_. row) (find (\<lambda>x. so_id x = j) xs) else find (\<lambda>x. so_id x = j) xs)"
  by (induction xs) auto

lemma get_order_put:
  "get_order j (put_order row db) = (if j = so_id row then map_option (\<lambda>_. row) (get_order j db) else get_order j db)"
  unfolding get_order_def put_order_simps by (rule find_put)

lemma ship_one_line:
  "ship_one mk carrier user now (db, told) i = (s', line) \<Longrightarrow> ln_order line = i \<and>
     (ln_ok line \<longrightarrow> (\<exists>row. get_order i db = Some row \<and> ship_refusal row = None \<and>
        ln_tracking line = Some (make_tracking_no i ((case get_shipment i db of None \<Rightarrow> 0 | Some sh \<Rightarrow> sh_attempt sh) + 1))))"
  by (auto simp: ship_one_def Let_def split: option.splits reply.splits prod.splits sum.splits if_splits)

text \<open>What a line of the result says.\<close>

definition line_holds :: "order_db \<Rightarrow> order_db \<Rightarrow> string \<Rightarrow> told \<Rightarrow> ship_line \<Rightarrow> bool" where
  "line_holds db db' carrier told' line \<longleftrightarrow>
     (if ln_ok line then
        \<exists>old row tracking. get_order (ln_order line) db = Some old \<and> so_status old = ''PAID'' \<and>
          so_review old \<in> set shippable_review \<and>
          get_order (ln_order line) db' = Some row \<and> so_status row = ''SHIPPED'' \<and>
          ln_tracking line = Some tracking \<and> (ln_order line, carrier, tracking) \<in> set told'
      else get_order (ln_order line) db' = get_order (ln_order line) db)"

lemma ship_refusal_None:
  assumes "ship_refusal row = None" and "so_status row = unified_value c"
  shows "c = S_PAID \<and> so_review row \<in> set shippable_review"
proof -
  from assms have "kind (decide_status (Some c) (Some S_SHIPPED) Src_MANUAL) = D_APPLY" "review_blocks_ship (so_review row) = None"
    by (auto simp: ship_refusal_def refuse_ship_def split: option.splits if_splits)
  then show ?thesis
    by (cases c) (auto simp: decide_apply_iff allowed_def review_blocks_ship_def split: if_splits)
qed

lemma same_core_get: "same_core db db' \<Longrightarrow> get_order j db' = get_order j db"
  by (simp add: same_core_def get_order_def)

lemma ship_one_frame:
  assumes ok: "orders_ok db" and one: "ship_one mk carrier user now (db, told) i = ((db', told'), line)"
  shows "ln_order line = i \<and> (\<forall>j. j \<noteq> i \<longrightarrow> get_order j db' = get_order j db) \<and>
    line_holds db db' carrier told' line \<and> set told \<subseteq> set told'"
proof -
  note l = ship_one_line [OF one]
  from ok one show ?thesis
  proof (cases rule: ship_one_cases)
    case (shipped c)
    from l shipped(2) obtain row where row: "get_order i db = Some row" "ship_refusal row = None"
      and tr: "ln_tracking line = Some (make_tracking_no i ((case get_shipment i db of None \<Rightarrow> 0 | Some sh \<Rightarrow> sh_attempt sh) + 1))"
      by blast
    from known_row [OF ok row(1)] obtain cs where cs: "so_status row = unified_value cs" by metis
    note paid = ship_refusal_None [OF row(2) cs]
    from shipped(1) row(1) obtain new where new: "so_id new = i" "so_status new = unified_value S_SHIPPED"
      "orders db' = orders (put_order new db)" by (auto simp: status_move_def)
    from new(3) have "get_order j db' = get_order j (put_order new db)" for j by (simp only: get_order_def)
    then have "get_order j db' = (if j = i then Some new else get_order j db)" for j
      using row(1) by (simp add: get_order_put new(1))
    with l shipped row cs paid new tr show ?thesis by (auto simp: line_holds_def)
  qed (use l in \<open>auto simp: line_holds_def same_core_get\<close>)
qed

lemma line_holds_mono:
  "line_holds db db' carrier told line \<Longrightarrow> get_order (ln_order line) db'' = get_order (ln_order line) db' \<Longrightarrow>
     set told \<subseteq> set told' \<Longrightarrow> line_holds db db'' carrier told' line"
  unfolding line_holds_def by (cases "ln_ok line") (simp_all, metis subsetD)

lemma ship_batch_frame:
  "ship_batch mk carrier user now (db, told) ids = ((db', told'), lines) \<Longrightarrow> orders_ok db \<Longrightarrow> distinct ids \<Longrightarrow>
     map ln_order lines = ids \<and> (\<forall>j. j \<notin> set ids \<longrightarrow> get_order j db' = get_order j db) \<and>
     (\<forall>line\<in>set lines. line_holds db db' carrier told' line) \<and> set told \<subseteq> set told'"
proof (induction ids arbitrary: db told lines)
  case (Cons i ids)
  obtain db1 told1 line where one: "ship_one mk carrier user now (db, told) i = ((db1, told1), line)" by (metis surj_pair)
  with Cons.prems(1) obtain lines' where rest: "ship_batch mk carrier user now (db1, told1) ids = ((db', told'), lines')"
    and lines: "lines = line # lines'" by (auto split: prod.splits)
  note f = ship_one_frame [OF Cons.prems(2) one]
  have ok1: "orders_ok db1" using order_step_ok [OF ship_one_step [OF Cons.prems(2) one] Cons.prems(2)] .
  have d: "distinct ids" "i \<notin> set ids" using Cons.prems(3) by simp_all
  note IH = Cons.IH [OF rest ok1 d(1)]
  have "get_order i db' = get_order i db1" using IH d(2) by blast
  then have "line_holds db db' carrier told' line" using f IH line_holds_mono by metis
  moreover have "line_holds db db' carrier told' l" if l: "l \<in> set lines'" for l
  proof -
    have "ln_order l \<in> set ids" using IH l by (metis image_eqI list.set_map)
    then have "get_order (ln_order l) db1 = get_order (ln_order l) db" using f d(2) by metis
    with IH l show ?thesis by (auto simp: line_holds_def)
  qed
  ultimately show ?case using f IH by (auto simp: lines)
qed simp

lemma dedupe_loop_props: "distinct (dedupe_loop seen ids) \<and> set (dedupe_loop seen ids) = set ids - set seen"
  by (induction ids arbitrary: seen) auto

section \<open>Orders without matched items\<close>

text \<open>A stock desk that no order line and no hold refers to.\<close>

definition unmatched :: "stock_db \<Rightarrow> bool" where
  "unmatched db \<longleftrightarrow> (\<forall>i\<in>set (order_items db). oi_sku i = None) \<and> holds db = []"

definition same_stock :: "stock_db \<Rightarrow> stock_db \<Rightarrow> bool" where
  "same_stock db db' \<longleftrightarrow> balances db' = balances db \<and> flows db' = flows db \<and> rivals db' = rivals db \<and>
     (unmatched db \<longrightarrow> unmatched db')"

lemma same_stock_refl [simp]: "same_stock db db"
  by (simp add: same_stock_def)

lemma same_stock_trans: "same_stock a b \<Longrightarrow> same_stock b c \<Longrightarrow> same_stock a c"
  by (auto simp: same_stock_def)

lemma each_skip: "(\<And>x. x \<in> set xs \<Longrightarrow> f x s = Inr s) \<Longrightarrow> each f xs s = Inr s"
  by (induction xs) auto

lemma unmatched_orders:
  assumes "unmatched db"
  shows "reserve_order o' db = Inr db" and "ship_order o' db = Inr db" and "release_order o' db = Inr db"
    and "receive_return ro db = Inr (ro', db') \<Longrightarrow> db' = db"
proof -
  have none: "oi_sku i = None" if "i \<in> set (list_items n db)" for i n
    using assms that list_items_mem by (auto simp: unmatched_def)
  show "reserve_order o' db = Inr db" "ship_order o' db = Inr db"
    unfolding reserve_order_def ship_order_def by (rule each_skip; simp add: none reserve_item_def ship_item_def)+
  show "release_order o' db = Inr db" using assms by (simp add: release_order_def unmatched_def)
  have "each (return_item ro) (list_items (ro_order ro) db) db = Inr db"
    by (rule each_skip) (simp add: none return_item_def)
  then show "receive_return ro db = Inr (ro', db') \<Longrightarrow> db' = db"
    by (auto simp: receive_return_def res_simps split: if_splits)
qed

lemma new_lines_unmatched: "i \<in> set (new_lines n order (map (\<lambda>x. (None, f x)) xs)) \<Longrightarrow> oi_sku i = None"
  by (induction xs arbitrary: n) auto

lemma replace_items_unmatched:
  "same_stock db (replace_items order (map (\<lambda>i. (None, ri_quantity i)) xs) db)"
  by (auto simp: same_stock_def unmatched_def replace_items_def dest: new_lines_unmatched)

lemma sync_inventory_unmatched:
  "unmatched db \<Longrightarrow> sync_inventory order dec db = (db', res) \<Longrightarrow> db' = db"
  by (auto simp: sync_inventory_def Let_def kept_def unmatched_orders split: if_splits)

lemma after_upsert_unmatched:
  assumes "after_upsert source operator r row dec mid = (db', res)" and "unmatched (stock mid)"
  shows "stock db' = stock mid"
  using after_upsert_core [OF assms(1)] sync_inventory_unmatched [OF assms(2)]
  by (cases "kind dec = D_APPLY") auto

lemma ingest_order_unmatched:
  assumes "ids_ok db" and "unmatched (stock db)" and "ingest_order shop source operator db r = (db', res)"
  shows "same_stock (stock db) (stock db')"
  using assms(1,3)
proof (cases rule: ingest_order_cases)
  case (inserted key db1 mid row target dec res')
  have mid: "same_stock (stock db) (stock mid)" using inserted(2,12) replace_items_unmatched by simp
  then have "unmatched (stock mid)" using assms(2) by (simp add: same_stock_def)
  with after_upsert_unmatched [OF inserted(13)] mid show ?thesis by simp
next
  case (updated key db1 mid old row target dec res')
  have mid: "same_stock (stock db) (stock mid)" using updated(2,12) replace_items_unmatched by simp
  then have "unmatched (stock mid)" using assms(2) by (simp add: same_stock_def)
  with after_upsert_unmatched [OF updated(13)] mid show ?thesis by simp
qed auto

lemma ship_batch_unmatched:
  "ship_batch mk carrier user now (db, told) ids = ((db', told'), lines) \<Longrightarrow> orders_ok db \<Longrightarrow> unmatched (stock db) \<Longrightarrow>
     stock db' = stock db"
proof (induction ids arbitrary: db told lines)
  case (Cons i ids)
  obtain db1 told1 line where one: "ship_one mk carrier user now (db, told) i = ((db1, told1), line)" by (metis surj_pair)
  with Cons.prems(1) obtain lines' where rest: "ship_batch mk carrier user now (db1, told1) ids = ((db', told'), lines')"
    by (auto split: prod.splits)
  from Cons.prems(2) one have "stock db1 = stock db"
    by (cases rule: ship_one_cases) (use unmatched_orders [OF Cons.prems(3)] in \<open>auto simp: kept_def\<close>)
  moreover have "orders_ok db1" using order_step_ok [OF ship_one_step [OF Cons.prems(2) one] Cons.prems(2)] .
  ultimately show ?case using Cons.IH [OF rest] Cons.prems(3) by simp
qed simp

definition desk_request :: "order_request \<Rightarrow> bool" where
  "desk_request rq = (case rq of Stock_desk _ \<Rightarrow> True | _ \<Rightarrow> False)"

lemma handle_order_unmatched:
  assumes ok: "orders_ok (fst s)" and un: "unmatched (stock (fst s))" and d: "\<not> desk_request rq"
    and h: "handle_order mk user now rq s = (s', res)"
  shows "same_stock (stock (fst s)) (stock (fst s'))"
proof -
  have ids: "ids_ok (fst s)" using ok by (simp add: orders_ok_def)
  have still: ?thesis if "stock (fst s') = stock (fst s)" using that by simp
  show ?thesis
  proof (cases rq)
    case (Sync_report shop r)
    with h ingest_order_unmatched [OF ids un] show ?thesis by (auto split: prod.splits)
  next
    case (Webhook_report shop r)
    with h ingest_order_unmatched [OF ids un] show ?thesis by (auto split: prod.splits)
  next
    case (Save_mapping p st u)
    with h have "plainly (fst s) (save_mapping p st u (fst s)) = (fst s', res)" by (auto split: prod.splits)
    from plainly_result [OF this] plain_steps(1) still show ?thesis by metis
  next
    case (Save_rule c a e)
    with h have "plainly (fst s) (save_rule c a e (fst s)) = (fst s', res)" by (auto split: prod.splits)
    from plainly_result [OF this] plain_steps(2) still show ?thesis by metis
  next
    case (Decide_review i d)
    with h have "plainly (fst s) (decide_review i d (fst s)) = (fst s', res)" by (auto split: prod.splits)
    from plainly_result [OF this] decide_review_step [OF ok] still show ?thesis by metis
  next
    case (Change_address i a)
    with h change_address_step [OF ok] still show ?thesis by (auto split: prod.splits)
  next
    case (Add_note i t)
    with h have "plainly (fst s) (add_note mk i t (fst s)) = (fst s', res)" by (auto split: prod.splits)
    from plainly_result [OF this] plain_steps(3) still show ?thesis by metis
  next
    case (Create_return i t a f g)
    with h have "plainly (fst s) (create_return i t a f g (fst s)) = (fst s', res)" by (auto split: prod.splits)
    from plainly_result [OF this] create_return_step still show ?thesis by metis
  next
    case (Step_return i a)
    with h have "plainly (fst s) (transition_return i a user (fst s)) = (fst s', res)" by (auto split: prod.splits)
    from plainly_result [OF this] show ?thesis
    proof (elim disjE conjE exE)
      assume "transition_return i a user (fst s) = Inr (fst s')"
      from transition_return_step [OF ok this] unmatched_orders(4) [OF un] have "stock (fst s') = stock (fst s)"
        by (auto simp: restock_return_def Let_def res_simps split: if_splits)
      then show ?thesis by (rule still)
    qed simp
  next
    case (Batch_ship ids c)
    with h have "s' = s \<or> (\<exists>lines. ship_batch mk (strip c) user now (fst s, snd s) (dedupe_ids ids) = ((fst s', snd s'), lines))"
      by (auto simp: batch_ship_def Let_def res_simps split: if_splits sum.splits prod.splits)
    with still ship_batch_unmatched [OF _ ok un] show ?thesis by blast
  next
    case (Stock_desk rq')
    with d show ?thesis by (simp add: desk_request_def)
  qed
qed

text \<open>Order requests alone, with nothing else going on.\<close>

definition serve_order_alone :: "market \<Rightarrow> order_world \<Rightarrow> (int \<times> datetime) \<times> order_request \<Rightarrow> order_world option" where
  "serve_order_alone mk w rq =
     (if desk_request (snd rq) then None else serve_order mk w (fst rq, snd rq, []))"

definition stock_still :: "stock_db \<Rightarrow> order_world \<Rightarrow> bool" where
  "stock_still st w \<longleftrightarrow> orders_ok (ow_db w) \<and> unmatched (stock (ow_db w)) \<and>
     balances (stock (ow_db w)) = balances st \<and> flows (stock (ow_db w)) = flows st"

lemma unmatched_rivals [simp]: "unmatched (db\<lparr>rivals := bs\<rparr>) \<longleftrightarrow> unmatched db"
  by (simp add: unmatched_def)

interpretation orders_alone: invariant_machine "serve_order_alone mk" "stock_still st" for mk st
proof
  fix w rq w' assume w: "stock_still st w" and serve: "serve_order_alone mk w rq = Some w'"
  obtain user now request where rq: "rq = ((user, now), request)" by (metis surj_pair)
  from serve have d: "\<not> desk_request request" and s: "serve_order mk w ((user, now), request, []) = Some w'"
    by (auto simp: serve_order_alone_def rq split: if_splits)
  have ok: "orders_ok (posed w [])" and un: "unmatched (stock (posed w []))"
    and same: "balances (stock (posed w [])) = balances st" "flows (stock (posed w [])) = flows st"
    using w by (simp_all add: stock_still_def posed_def)
  have served: "stock_still st w'" if h: "handle_order mk user now request (posed w [], ow_told w) = ((db, told), res)"
    and w': "ow_db w' = db\<lparr>stock := (stock db)\<lparr>rivals := []\<rparr>\<rparr>" for db told res
  proof -
    have "orders_ok db" using order_steps_ok [OF handle_order_steps [OF _ h]] ok by simp
    moreover have "same_stock (stock (posed w [])) (stock db)"
      using handle_order_unmatched [OF _ _ d h] ok un by simp
    ultimately show ?thesis using un same by (simp add: stock_still_def w' same_stock_def)
  qed
  from s show "stock_still st w'"
  proof (cases rule: serve_order_result)
    case (3 db told e)
    with w show ?thesis by (simp add: stock_still_def all_land_def)
  qed (use served in blast)+
qed

section \<open>A small desk\<close>

definition demo_shop :: shop_info where
  "demo_shop = \<lparr>shop_number = 3, shop_platform = ''shopee''\<rparr>"

definition demo_report :: "string \<Rightarrow> int \<Rightarrow> report" where
  "demo_report st t =
     \<lparr>rp_number = ''A1'', rp_status = st, rp_buyer_name = Some ''Li'', rp_buyer_country = Some ''SG'',
      rp_buyer_phone = None, rp_state = None, rp_city = Some ''X'', rp_line1 = None, rp_postal = None,
      rp_currency = ''SGD'', rp_total = 30, rp_items = [\<lparr>ri_quantity = 2, ri_unit_price = 15\<rparr>],
      rp_fees = [], rp_paid_at = None, rp_updated_at = Aware t\<rparr>"

definition demo_market :: market where
  "demo_market =
     \<lparr>shop_exists = (\<lambda>_. True), shop_credential = (\<lambda>_. True), send_address = (\<lambda>_ _. Refused ''closed''),
      send_note = (\<lambda>_ _. Accepted), send_shipment = (\<lambda>_ _ _. Accepted)\<rparr>"

definition demo_orders_db :: order_db where
  "demo_orders_db =
     \<lparr>orders = [], logs = [], fees = [], shipments = [], returns = [], order_notes = [], address_logs = [],
      rules = [], mappings = [], stock = demo_stock_db, serial = 1\<rparr>"

definition demo_order_world :: order_world where
  "demo_order_world = \<lparr>ow_db = demo_orders_db, ow_told = [], ow_caught = 0\<rparr>"

definition demo_order_history ::
  "((int \<times> datetime) \<times> order_request \<times> (int \<times> change) list list) list" where
  "demo_order_history =
     map (\<lambda>rq. ((9, Aware 500), rq, []))
       [Sync_report demo_shop (demo_report ''READY_TO_SHIP'' 100), Change_address 1 [(''country'', ''sg''), (''city'', ''Y'')],
        Batch_ship [1, 1] ''DHL'', Webhook_report demo_shop (demo_report ''COMPLETED'' 200),
        Create_return 1 ''broken'' 5 True True, Create_return 1 ''again'' 6 False True,
        Step_return 2 ''approve'', Step_return 3 ''approve'', Step_return 2 ''refund'']"


end
