(* ===== verification/OrderPromises.thy ===== *)
theory OrderPromises imports OrderHistory begin

text \<open>
  What the order desk promises, and where it does not: typed rows, a status log that can be
  replayed, one refund per order, batches that are right line by line, stock books that meet; and
  four things the code does that it does not mean to do.
\<close>

lemma demo_world_ok: "world_meets demo_order_world"
  using demo_stock_ok
  by (simp add: world_meets_def world_ok_def demo_order_world_def demo_orders_db_def orders_ok_def ids_ok_def
      rows_ok_def logs_ok_def refunds_ok_def books_meet_def)

lemma demo_orders_run:
  "map_option (\<lambda>w. (map (\<lambda>row. (so_id row, so_status row)) (orders (ow_db w)),
      map (\<lambda>l. (sl_from l, sl_to l)) (logs (ow_db w)),
      map (\<lambda>r. (rr_id r, rr_order r, rr_status r)) (returns (ow_db w)), ow_told w, ow_caught w, address_logs (ow_db w)))
     (run_machine (serve_order_plainly demo_market) demo_order_world demo_order_history) =
   Some ([(1, ''REFUNDED'')],
     [(None, ''PAID''), (Some ''PAID'', ''SHIPPED''), (Some ''SHIPPED'', ''COMPLETED''),
      (Some ''COMPLETED'', ''REFUNDING''), (Some ''REFUNDING'', ''REFUNDED'')],
     [(2, 1, RT_REFUNDED), (3, 1, RT_REQUESTED)], [(1, ''DHL'', ''CP1A1'')], 0, [])"
  by code_simp

lemma plainly_run:
  "run_machine (serve_order_plainly mk) w history = Some w' \<Longrightarrow> run_machine (serve_order mk) w history = Some w'"
  by (induction history arbitrary: w) (auto simp: serve_order_plainly_def split: option.splits if_splits)

section \<open>Rows and logs\<close>

text \<open>C5: After any history of reports, decisions, returns and shipments, every order has one of the nine
  states and a known review code, every return a known status and an existing order, and no two orders
  share an idempotency key.\<close>

theorem order_rows_typed:
  assumes "run_machine (serve_order mk) w0 history = Some w" and "world_ok w0"
  shows "(\<forall>row\<in>set (orders (ow_db w)). (\<exists>u. so_status row = unified_value u) \<and> so_review row \<in> set review_codes) \<and>
    (\<forall>r\<in>set (returns (ow_db w)). rr_status r \<in> set return_codes \<and> (\<exists>row\<in>set (orders (ow_db w)). so_id row = rr_order r)) \<and>
    distinct (map so_key (orders (ow_db w)))"
proof -
  from order_desk.run_inv [OF assms(2,1)] have "ids_ok (ow_db w)" "rows_ok (ow_db w)"
    by (simp_all add: world_ok_def orders_ok_def)
  then show ?thesis
    unfolding ids_ok_def rows_ok_def order_typed_def by (fastforce simp: parse_unified_Some)
qed

theorem order_rows_typed_witness:
  "\<exists>w. run_machine (serve_order demo_market) demo_order_world demo_order_history = Some w \<and>
     map so_status (orders (ow_db w)) = [''REFUNDED''] \<and>
     list_all (\<lambda>row. so_review row \<in> set review_codes) (orders (ow_db w)) \<and>
     list_all (\<lambda>r. rr_status r \<in> set return_codes) (returns (ow_db w))"
proof -
  obtain w where w: "run_machine (serve_order_plainly demo_market) demo_order_world demo_order_history = Some w"
    "map (\<lambda>row. (so_id row, so_status row)) (orders (ow_db w)) = [(1, ''REFUNDED'')]"
    using demo_orders_run by auto
  from w(2) have "map so_status (orders (ow_db w)) = [''REFUNDED'']" by (cases "orders (ow_db w)") auto
  with order_rows_typed [OF plainly_run [OF w(1)]] demo_world_ok plainly_run [OF w(1)] show ?thesis
    by (auto simp: world_meets_def list_all_iff)
qed

text \<open>C4: The status log of an order, read from the beginning, replays to the state the order is in;
  every entry is a change its source may make, and the order is shipped at most once.\<close>

theorem status_log_replays:
  assumes "run_machine (serve_order mk) w0 history = Some w" and "world_ok w0" and "row \<in> set (orders (ow_db w))"
  shows "follows None (trail (so_id row) (ow_db w)) = Some (Some (so_status row)) \<and>
    (\<forall>l\<in>set (trail (so_id row) (ow_db w)). legal l) \<and>
    length (filter (\<lambda>l. sl_to l = ''SHIPPED'') (trail (so_id row) (ow_db w))) \<le> 1"
proof -
  from order_desk.run_inv [OF assms(2,1)] assms(3)
  have f: "follows None (trail (so_id row) (ow_db w)) = Some (Some (so_status row))"
    and l: "\<forall>l\<in>set (trail (so_id row) (ow_db w)). legal l"
    by (auto simp: world_ok_def orders_ok_def logs_ok_def trail_def)
  from shipped_at_most_once [OF f l] have "length (filter (\<lambda>l. sl_to l = ''SHIPPED'') (trail (so_id row) (ow_db w))) \<le> 1"
    by (simp split: if_splits)
  with f l show ?thesis by blast
qed

theorem status_log_replays_witness:
  "\<exists>w row. run_machine (serve_order demo_market) demo_order_world demo_order_history = Some w \<and>
     orders (ow_db w) = [row] \<and> so_status row = ''REFUNDED'' \<and>
     follows None (trail 1 (ow_db w)) = Some (Some ''REFUNDED'') \<and>
     length (filter (\<lambda>l. sl_to l = ''SHIPPED'') (trail 1 (ow_db w))) \<le> 1"
proof -
  obtain w where w: "run_machine (serve_order_plainly demo_market) demo_order_world demo_order_history = Some w"
    "map (\<lambda>row. (so_id row, so_status row)) (orders (ow_db w)) = [(1, ''REFUNDED'')]"
    using demo_orders_run by auto
  then obtain row where row: "orders (ow_db w) = [row]" "so_id row = 1" "so_status row = ''REFUNDED''"
    by (cases "orders (ow_db w)") auto
  with status_log_replays [OF plainly_run [OF w(1)], of row] demo_world_ok plainly_run [OF w(1)] show ?thesis
    by (auto simp: world_meets_def)
qed

text \<open>C6: An order has at most one return that was approved or refunded, and then the order is
  refunding, refunded or returned: no order is refunded twice.\<close>

theorem one_refund_per_order:
  assumes "run_machine (serve_order mk) w0 history = Some w" and "world_ok w0" and "row \<in> set (orders (ow_db w))"
  shows "length (filter (\<lambda>r. rr_order r = so_id row \<and> (rr_status r = ''APPROVED'' \<or> rr_status r = ''REFUNDED''))
      (returns (ow_db w))) \<le> 1 \<and>
    (so_status row \<notin> {''REFUNDING'', ''REFUNDED'', ''RETURNED''} \<longrightarrow>
      (\<forall>r\<in>set (returns (ow_db w)). rr_order r = so_id row \<longrightarrow> rr_status r \<in> {''REQUESTED'', ''REJECTED''}))"
proof -
  from order_desk.run_inv [OF assms(2,1)] have ok: "refunds_ok (ow_db w)" "rows_ok (ow_db w)"
    by (simp_all add: world_ok_def orders_ok_def)
  let ?settled = "filter (\<lambda>r. rr_order r = so_id row \<and> settled_return r) (returns (ow_db w))"
  from ok(1) assms(3) have r: "length ?settled \<le> 1" "?settled \<noteq> [] \<longrightarrow> so_status row \<in> set after_refund"
    by (simp_all add: refunds_ok_def Let_def)
  have "rr_status r \<in> {''REQUESTED'', ''REJECTED''}"
    if "so_status row \<notin> set after_refund" "r \<in> set (returns (ow_db w))" "rr_order r = so_id row" for r
  proof -
    from r(2) that have "\<not> settled_return r" by (auto simp: filter_empty_conv)
    moreover have "rr_status r \<in> set return_codes" using ok(2) that(2) by (simp add: rows_ok_def)
    ultimately show ?thesis by (auto simp: settled_return_def return_codes_def)
  qed
  with r(1) show ?thesis by (auto simp: settled_return_def after_refund_def)
qed

theorem one_refund_per_order_witness:
  "\<exists>w row. run_machine (serve_order demo_market) demo_order_world demo_order_history = Some w \<and>
     orders (ow_db w) = [row] \<and> map (\<lambda>r. (rr_id r, rr_order r, rr_status r)) (returns (ow_db w)) =
       [(2, 1, RT_REFUNDED), (3, 1, RT_REQUESTED)] \<and>
     length (filter (\<lambda>r. rr_order r = 1 \<and> (rr_status r = ''APPROVED'' \<or> rr_status r = ''REFUNDED'')) (returns (ow_db w))) \<le> 1"
proof -
  obtain w where w: "run_machine (serve_order_plainly demo_market) demo_order_world demo_order_history = Some w"
    "map (\<lambda>row. (so_id row, so_status row)) (orders (ow_db w)) = [(1, ''REFUNDED'')]"
    "map (\<lambda>r. (rr_id r, rr_order r, rr_status r)) (returns (ow_db w)) = [(2, 1, RT_REFUNDED), (3, 1, RT_REQUESTED)]"
    using demo_orders_run by auto
  then obtain row where row: "orders (ow_db w) = [row]" "so_id row = 1" by (cases "orders (ow_db w)") auto
  have "world_ok demo_order_world" using demo_world_ok by (simp add: world_meets_def)
  from one_refund_per_order [OF plainly_run [OF w(1)] this, of row] row w plainly_run [OF w(1)] show ?thesis by auto
qed

section \<open>Stock\<close>

text \<open>C8: As long as the sync run has not swallowed an exception, the orders keep the stock books: after
  any history of reports, cancellations, shipments and refunds the occupied stock of an item in a warehouse
  is exactly what the open holds claim there.\<close>

theorem order_requests_keep_books:
  assumes "run_machine (serve_order_plainly mk) w0 history = Some w" and "world_meets w0" and "ow_caught w = 0"
  shows "stock_at Occupied s wh (stock (ow_db w)) = held s wh (stock (ow_db w))"
  using order_books.run_inv [OF assms(2,1)] assms(3) by (simp add: world_meets_def books_meet_def)

theorem order_requests_keep_books_witness:
  "\<exists>w. run_machine (serve_order_plainly demo_market) demo_order_world demo_order_history = Some w \<and>
     stock_at Occupied 7 1 (stock (ow_db w)) = held 7 1 (stock (ow_db w))"
proof -
  obtain w where w: "run_machine (serve_order_plainly demo_market) demo_order_world demo_order_history = Some w" "ow_caught w = 0"
    using demo_orders_run by auto
  from order_requests_keep_books [OF w(1) demo_world_ok w(2)] w(1) show ?thesis by blast
qed

section \<open>Batches\<close>

text \<open>C7: A batch answers every order once and in order.  A line says yes exactly when the order
  was paid and cleared by review, is shipped now, and the market place was told the carrier and the number of the
  line; after any other answer the order is what it was.  Orders outside the batch are untouched.\<close>

theorem batch_ship_line_by_line:
  assumes "batch_ship mk order_ids carrier user now (db, told) = Inr ((db', told'), lines)" and "orders_ok db"
  shows "map ln_order lines = dedupe_ids order_ids \<and> distinct (map ln_order lines) \<and>
    set (map ln_order lines) = set order_ids \<and> length lines \<le> 200 \<and>
    (\<forall>line\<in>set lines. line_holds db db' (strip carrier) told' line) \<and>
    (\<forall>j. j \<notin> set order_ids \<longrightarrow> get_order j db' = get_order j db)"
proof -
  from assms(1) have b: "ship_batch mk (strip carrier) user now (db, told) (dedupe_ids order_ids) = ((db', told'), lines)"
    and n: "length (dedupe_ids order_ids) \<le> 200"
    by (auto simp: batch_ship_def Let_def res_simps check_batch_size_def batch_ship_limit_def split: if_splits)
  have d: "distinct (dedupe_ids order_ids)" "set (dedupe_ids order_ids) = set order_ids"
    using dedupe_loop_props [of "[]" order_ids] by (simp_all add: dedupe_ids_def)
  note f = ship_batch_frame [OF b assms(2) d(1)]
  then have "length lines = length (dedupe_ids order_ids)" by (metis length_map)
  with f d n show ?thesis by auto
qed

definition demo_paid_db :: order_db where
  "demo_paid_db = fst (ingest_order demo_shop Src_SYSTEM None demo_orders_db (demo_report ''READY_TO_SHIP'' 100))"

lemma demo_paid_ok: "orders_ok demo_paid_db"
  using ingest_order_steps [of demo_orders_db demo_shop Src_SYSTEM None "demo_report ''READY_TO_SHIP'' 100" demo_paid_db]
    order_steps_ok demo_world_ok
  by (metis demo_order_world_def demo_paid_db_def order_world.select_convs(1) prod.collapse world_meets_def world_ok_def)

theorem batch_ship_line_by_line_witness:
  "\<exists>db' told lines. batch_ship demo_market [1, 5, 1] '' DHL'' 9 (Aware 500) (demo_paid_db, []) = Inr ((db', told), lines) \<and>
     map (\<lambda>line. (ln_order line, ln_ok line)) lines = [(1, True), (5, False)] \<and>
     list_all (line_holds demo_paid_db db' ''DHL'' told) lines"
proof -
  have run: "(case batch_ship demo_market [1, 5, 1] '' DHL'' 9 (Aware 500) (demo_paid_db, []) of
      Inl _ \<Rightarrow> None | Inr (s, lines) \<Rightarrow> Some (map (\<lambda>line. (ln_order line, ln_ok line)) lines)) = Some [(1, True), (5, False)]"
    "strip '' DHL'' = ''DHL''"
    by code_simp+
  then obtain db' told lines where b: "batch_ship demo_market [1, 5, 1] '' DHL'' 9 (Aware 500) (demo_paid_db, []) = Inr ((db', told), lines)"
    "map (\<lambda>line. (ln_order line, ln_ok line)) lines = [(1, True), (5, False)]"
    by (auto split: sum.splits prod.splits)
  from batch_ship_line_by_line [OF b(1) demo_paid_ok] b run(2) show ?thesis by (auto simp: list_all_iff)
qed

section \<open>What the code does not mean to do\<close>

text \<open>C10: A report whose inventory step raised is never taken up again.  The sync run counts it as failed and
  keeps the window open, but the row already carries the report's time: when the market place is asked
  again, the same report is skipped and neither the order nor the stock moves.\<close>

theorem caught_report_skipped:
  assumes ok: "orders_ok db" and raised: "ingest_order shop source operator db r = (db', Inl e)"
    and written: "orders db' \<noteq> orders db"
  shows "\<exists>db''. ingest_order shop source' operator' db' r = (db'', Inr (SKIP, None)) \<and>
    orders db'' = orders db' \<and> logs db'' = logs db' \<and> stock db'' = stock db'"
proof -
  have ids: "ids_ok db" using ok by (simp add: orders_ok_def)
  have ok': "orders_ok db'" using order_steps_ok [OF ingest_order_steps [OF ok raised] ok] .
  then have ids': "ids_ok db'" by (simp add: orders_ok_def)
  have again: ?thesis if key: "order_idempotency_key (shop_platform shop) (ShopNumber (shop_number shop)) (rp_number r) = Inr key"
    and tab: "adapter_mapping (shop_platform shop) = Inr all"
    and row: "row \<in> set (orders db')" "so_key row = key" "so_updated_at row = Some (as_utc (rp_updated_at r))" for key all row
  proof -
    obtain table db1 where t: "mapping_table (shop_platform shop) db' = Inr (table, db1)"
      using tab by (simp add: mapping_table_def Let_def)
    note core = mapping_table_core [OF t]
    have "get_by_key key db1 = Some row"
      using get_by_keyI [OF ids' row(1)] row(2) find_by_id_core [of db' db1] core by simp
    then have "upsert_order shop r key resolve db1 = Inr (SKIP, None, db1)" for resolve
      by (simp add: upsert_order_def row(3) decide_write_def Let_def)
    with t key core show ?thesis by (auto simp: ingest_order_def Let_def same_core_def)
  qed
  have tab: "\<exists>all. adapter_mapping (shop_platform shop) = Inr all"
  proof (rule ccontr)
    assume "\<not> ?thesis"
    then obtain f where "adapter_mapping (shop_platform shop) = Inl f" by (cases "adapter_mapping (shop_platform shop)") auto
    with raised have "db' = db" by (simp add: ingest_order_def mapping_table_def)
    with written show False by simp
  qed
  from ids raised show ?thesis
  proof (cases rule: ingest_order_cases)
    case (inserted key db1 mid row target dec res')
    let ?row = "row\<lparr>so_review := next_review_status (Some (so_review row)) (so_total row) (so_currency row) (rules mid)\<rparr>"
    have "orders db' = orders (put_order ?row mid)" using after_upsert_core [OF inserted(13)] by (simp add: same_core_def)
    moreover have "row \<in> set (orders mid)" using inserted(11) by (simp add: same_core_def)
    ultimately have "?row \<in> set (orders db')" by force
    with again [OF inserted(3) _ this] tab show ?thesis by (auto simp: inserted(6,9))
  next
    case (updated key db1 mid old row target dec res')
    let ?row = "row\<lparr>so_review := next_review_status (Some (so_review row)) (so_total row) (so_currency row) (rules mid)\<rparr>"
    note o = get_by_key_SomeD [OF updated(4)]
    have "orders db' = orders (put_order ?row mid)" using after_upsert_core [OF updated(13)] by (simp add: same_core_def)
    moreover have "row \<in> set (orders mid)" using updated(5,11) o by (force simp: same_core_def)
    ultimately have "?row \<in> set (orders db')" by force
    with again [OF updated(3) _ this] tab o show ?thesis by (auto simp: updated(6,9))
  qed (use written in \<open>auto simp: same_core_def\<close>)
qed

text \<open>A paid order whose reservation cannot be released: the balance changes under every attempt.\<close>

definition demo_held_db :: order_db where
  "demo_held_db = demo_paid_db\<lparr>stock := (stock demo_paid_db)
     \<lparr>balances := [(new_balance 20 7 1)\<lparr>bal_available := 10, bal_occupied := 4\<rparr>], next_id := 30,
      holds := [\<lparr>hold_order = 1, hold_item = 5, hold_sku = 7, hold_quantity = 4, hold_short = 0,
        hold_allocs = [\<lparr>alloc_warehouse = 1, alloc_quantity = 4\<rparr>], hold_status = ''OPEN''\<rparr>],
      rivals := replicate 5 [(20, no_change\<lparr>d_available := 1\<rparr>)]\<rparr>\<rparr>"

theorem caught_report_skipped_witness:
  "\<exists>db' db''. ingest_order demo_shop Src_SYSTEM None demo_held_db (demo_report ''CANCELLED'' 300) =
       (db', Inl (AppError ''InventoryConflictError'')) \<and>
     map so_status (orders db') = [''CANCELLED''] \<and> map hold_status (holds (stock db')) = [''OPEN''] \<and>
     ingest_order demo_shop Src_SYSTEM None db' (demo_report ''CANCELLED'' 300) = (db'', Inr (SKIP, None)) \<and>
     stock db'' = stock db'"
proof -
  have run: "(case ingest_order demo_shop Src_SYSTEM None demo_held_db (demo_report ''CANCELLED'' 300) of (db', res) \<Rightarrow>
      (res, map so_status (orders db'), map hold_status (holds (stock db')))) =
      (Inl (AppError ''InventoryConflictError''), [''CANCELLED''], [''OPEN''])"
    "map so_status (orders demo_held_db) = [''PAID'']"
    by code_simp+
  obtain db' res where i: "ingest_order demo_shop Src_SYSTEM None demo_held_db (demo_report ''CANCELLED'' 300) = (db', res)"
    by fastforce
  with run(1) have r: "res = Inl (AppError ''InventoryConflictError'')" "map so_status (orders db') = [''CANCELLED'']"
    "map hold_status (holds (stock db')) = [''OPEN'']" by simp_all
  have "orders_ok demo_held_db" using demo_paid_ok by (simp add: demo_held_db_def)
  moreover have "orders db' \<noteq> orders demo_held_db" using r(2) run(2) by auto
  ultimately show ?thesis
    using caught_report_skipped [of demo_held_db demo_shop Src_SYSTEM None "demo_report ''CANCELLED'' 300" db'
      "AppError ''InventoryConflictError''" Src_SYSTEM None] i r by auto
qed

text \<open>C9: Orders never touch the stock.  The code writes order lines without an item and nothing fills it
  in later; so from an empty order book no report, shipment or refund ever reserves, ships or takes back a
  single piece: every balance and the journal stay as they were.\<close>

theorem orders_never_touch_stock:
  assumes "run_machine (serve_order_alone mk) w0 history = Some w" and "orders_ok (ow_db w0)"
    and "order_items (stock (ow_db w0)) = []" and "holds (stock (ow_db w0)) = []"
  shows "balances (stock (ow_db w)) = balances (stock (ow_db w0)) \<and>
    flows (stock (ow_db w)) = flows (stock (ow_db w0)) \<and> holds (stock (ow_db w)) = []"
proof -
  have "stock_still (stock (ow_db w0)) w0" using assms(2-4) by (simp add: stock_still_def unmatched_def)
  from orders_alone.run_inv [OF this assms(1)] show ?thesis by (simp add: stock_still_def unmatched_def)
qed

definition demo_stocked_world :: order_world where
  "demo_stocked_world = demo_order_world\<lparr>ow_db := demo_orders_db\<lparr>stock := demo_stock_db
     \<lparr>balances := [(new_balance 5 7 1)\<lparr>bal_available := 10\<rparr>]\<rparr>\<rparr>\<rparr>"

theorem orders_never_touch_stock_witness:
  "\<exists>w. run_machine (serve_order_alone demo_market) demo_stocked_world
       (map (\<lambda>rq. (fst rq, fst (snd rq))) demo_order_history) = Some w \<and>
     map so_status (orders (ow_db w)) = [''REFUNDED''] \<and>
     map bal_available (balances (stock (ow_db w))) = [10] \<and> flows (stock (ow_db w)) = []"
proof -
  have "map_option (\<lambda>w. map so_status (orders (ow_db w))) (run_machine (serve_order_alone demo_market) demo_stocked_world
       (map (\<lambda>rq. (fst rq, fst (snd rq))) demo_order_history)) = Some [''REFUNDED'']"
    by code_simp
  then obtain w where w: "run_machine (serve_order_alone demo_market) demo_stocked_world
       (map (\<lambda>rq. (fst rq, fst (snd rq))) demo_order_history) = Some w" "map so_status (orders (ow_db w)) = [''REFUNDED'']"
    by auto
  have "orders_ok (ow_db demo_stocked_world)"
    using demo_world_ok by (simp add: demo_stocked_world_def demo_order_world_def world_meets_def world_ok_def)
  from orders_never_touch_stock [OF w(1) this] w show ?thesis
    by (auto simp: demo_stocked_world_def demo_stock_db_def)
qed

text \<open>An address that the market place refuses is logged as failed and then raised, and the rollback of
  the request takes the log entry away again: no trace of the attempt remains.\<close>

theorem refused_address_forgotten:
  assumes "change_address mk i address (ow_db w) = (db', Inl (AppError ''ORDER_PLATFORM_REJECTED''))"
    and "map al_status (address_logs db') = map al_status (address_logs (ow_db w)) @ [''FAILED'']"
    and "rivals (stock (ow_db w)) = []"
  shows "\<exists>w'. serve_order mk w ((user, now), Change_address i address, []) = Some w' \<and>
    address_logs (ow_db w') = address_logs (ow_db w)"
proof -
  have same: "(ow_db w)\<lparr>stock := (stock (ow_db w))\<lparr>rivals := []\<rparr>\<rparr> = ow_db w" using assms(3) by simp
  from assms(1) show ?thesis by (simp add: serve_order_def Let_def same keeps_on_error_def)
qed

theorem refused_address_forgotten_witness:
  "\<exists>w'. serve_order demo_market \<lparr>ow_db = demo_paid_db, ow_told = [], ow_caught = 0\<rparr>
       ((9, Aware 500), Change_address 1 [(''country'', ''sg''), (''city'', ''Y'')], []) = Some w' \<and>
     address_logs (ow_db w') = []"
proof -
  let ?w = "\<lparr>ow_db = demo_paid_db, ow_told = [], ow_caught = 0\<rparr>"
  have run: "(case change_address demo_market 1 [(''country'', ''sg''), (''city'', ''Y'')] demo_paid_db of
      (db', res) \<Rightarrow> (map al_status (address_logs db'), res)) = ([''FAILED''], Inl (AppError ''ORDER_PLATFORM_REJECTED''))"
    "address_logs demo_paid_db = []" "rivals (stock demo_paid_db) = []"
    by code_simp+
  then obtain db' where "change_address demo_market 1 [(''country'', ''sg''), (''city'', ''Y'')] (ow_db ?w) =
      (db', Inl (AppError ''ORDER_PLATFORM_REJECTED''))" "map al_status (address_logs db') = [''FAILED'']"
    by (auto split: prod.splits)
  from refused_address_forgotten [OF this(1), of 9 "Aware 500"] this run show ?thesis by simp
qed

text \<open>Reports of one order, one after the other.\<close>

fun ingest_reports :: "shop_info \<Rightarrow> order_db \<Rightarrow> (change_source \<times> report) list \<Rightarrow> order_db" where
  "ingest_reports shop db [] = db"
| "ingest_reports shop db (sr # srs) = ingest_reports shop (fst (ingest_order shop (fst sr) None db (snd sr))) srs"

lemma refunding_sync:
  assumes "from_status dec = Some c" and "unified_value c \<in> set after_refund" and "unified_value (to_status dec) \<in> set after_refund"
  shows "sync_inventory order dec db = (db, Inr ())"
proof -
  have "c \<noteq> S_PENDING \<and> c \<noteq> S_PAID" using assms(2) by (cases c) (auto simp: after_refund_def)
  moreover have "to_status dec \<notin> {S_CANCELLED, S_PAID, S_SHIPPED, S_DELIVERED, S_COMPLETED}"
    using assms(3) by (cases "to_status dec") (auto simp: after_refund_def)
  ultimately show ?thesis using assms(1) by (simp add: sync_inventory_def Let_def)
qed

lemma refunding_report:
  assumes ok: "orders_ok db" and key: "order_idempotency_key (shop_platform shop) (ShopNumber (shop_number shop)) (rp_number r) = Inr key"
    and old: "get_by_key key db = Some old" "so_status old \<in> set after_refund"
    and ingest: "ingest_order shop source operator db r = (db', res)"
  shows "orders_ok db' \<and> (\<exists>row. get_by_key key db' = Some row \<and> so_status row \<in> set after_refund) \<and>
    balances (stock db') = balances (stock db) \<and> holds (stock db') = holds (stock db)"
proof -
  have ok': "orders_ok db'" using order_steps_ok [OF ingest_order_steps [OF ok ingest] ok] .
  then have ids': "ids_ok db'" by (simp add: orders_ok_def)
  have same: ?thesis if "same_core db db'" "stock db' = stock db"
    using ok' find_by_id_core [OF that(1)] old that(2) by simp
  have "ids_ok db" using ok by (simp add: orders_ok_def)
  then show ?thesis using ingest
  proof (cases rule: ingest_order_cases)
    case (stopped e)
    then show ?thesis by (intro same)
  next
    case (skipped key' old')
    then show ?thesis by (intro same)
  next
    case (inserted key' db1 mid row target dec res')
    with key old find_by_id_core [OF inserted(1)] show ?thesis by simp
  next
    case (updated key' db1 mid old' row target dec res')
    have k: "key' = key" "old' = old" using updated(3,4) key old find_by_id_core [OF updated(1)] by simp_all
    have ok1: "orders_ok db1" using same_core_ok [OF updated(1)] ok by simp
    note o = get_by_key_SomeD [OF updated(4), unfolded k]
    from ok1 o obtain c where c: "so_status old = unified_value c"
      by (auto simp: orders_ok_def rows_ok_def order_typed_def parse_unified_Some)
    let ?row = "row\<lparr>so_review := next_review_status (Some (so_review row)) (so_total row) (so_currency row) (rules mid)\<rparr>"
    note after = after_upsert_core [OF updated(13)]
    have dec: "dec = decide_status (Some c) target source" using updated(10) by (simp add: k c)
    have "unified_value c \<in> set after_refund" using old(2) c by simp
    then have to: "unified_value (to_status dec) \<in> set after_refund"
      using decide_applied [of c target source] decide_unchanged [of c target source] after_refund_closed
      by (cases "kind dec = D_APPLY") (auto simp: dec)
    have "stock db' = stock mid"
    proof (cases "kind dec = D_APPLY")
      case True
      then have "from_status dec = Some c" using decide_applied [of c target source] by (simp add: dec)
      from refunding_sync [OF this _ to] after True c old(2) show ?thesis by simp
    qed (use after in simp)
    moreover have "?row \<in> set (orders db')"
      using after updated(5,11) o k by (force simp: same_core_def)
    then have "get_by_key (so_key ?row) db' = Some ?row" by (rule get_by_keyI [OF ids'])
    ultimately show ?thesis
      using ok' updated(2,6,7,12) o k to by (auto simp: replace_items_def)
  qed
qed

text \<open>C11: Refunding is final for the synchronisation.  Once an order is refunding, refunded or returned, no report
  brings it back or cancels it, and none releases what it holds: a cancellation that the
  market place announces with a request first (Shopee's \<open>IN_CANCEL\<close>, which the table maps to
  refunding) never ends as cancelled, and its reservation stays open for ever.\<close>

theorem refunding_keeps_hold:
  assumes "orders_ok db" and "get_by_key key db = Some old"
    and "so_status old \<in> {''REFUNDING'', ''REFUNDED'', ''RETURNED''}"
    and "\<forall>sr\<in>set reports. order_idempotency_key (shop_platform shop) (ShopNumber (shop_number shop)) (rp_number (snd sr)) = Inr key"
  shows "holds (stock (ingest_reports shop db reports)) = holds (stock db) \<and>
    balances (stock (ingest_reports shop db reports)) = balances (stock db) \<and>
    (\<exists>row. get_by_key key (ingest_reports shop db reports) = Some row \<and>
       so_status row \<in> {''REFUNDING'', ''REFUNDED'', ''RETURNED''})"
  using assms
proof (induction reports arbitrary: db old)
  case (Cons sr srs)
  obtain db1 res where i: "ingest_order shop (fst sr) None db (snd sr) = (db1, res)" by fastforce
  have "so_status old \<in> set after_refund" using Cons.prems(3) by (auto simp: after_refund_def)
  from refunding_report [OF Cons.prems(1) _ Cons.prems(2) this i] Cons.prems(4) obtain row where
    r: "orders_ok db1" "get_by_key key db1 = Some row" "so_status row \<in> set after_refund"
      "balances (stock db1) = balances (stock db)" "holds (stock db1) = holds (stock db)" by auto
  then have "so_status row \<in> {''REFUNDING'', ''REFUNDED'', ''RETURNED''}" by (auto simp: after_refund_def)
  from Cons.IH [OF r(1,2) this] Cons.prems(4) i r(4,5) show ?case by simp
qed auto

definition demo_refunding_db :: order_db where
  "demo_refunding_db = fst (ingest_order demo_shop Src_SYSTEM None demo_held_db (demo_report ''IN_CANCEL'' 200))"

theorem refunding_keeps_hold_witness:
  "map hold_status (holds (stock (ingest_reports demo_shop demo_refunding_db
       [(Src_SYSTEM, demo_report ''CANCELLED'' 300), (Src_WEBHOOK, demo_report ''READY_TO_SHIP'' 400)]))) = [''OPEN''] \<and>
   (\<exists>row. get_by_key ''shopee:3:A1'' (ingest_reports demo_shop demo_refunding_db
       [(Src_SYSTEM, demo_report ''CANCELLED'' 300), (Src_WEBHOOK, demo_report ''READY_TO_SHIP'' 400)]) = Some row \<and>
     so_status row \<in> {''REFUNDING'', ''REFUNDED'', ''RETURNED''})"
proof -
  have run: "map_option so_status (get_by_key ''shopee:3:A1'' demo_refunding_db) = Some ''REFUNDING''"
    "map hold_status (holds (stock demo_refunding_db)) = [''OPEN'']"
    "order_idempotency_key ''shopee'' (ShopNumber 3) ''A1'' = Inr ''shopee:3:A1''"
    by code_simp+
  then obtain old where old: "get_by_key ''shopee:3:A1'' demo_refunding_db = Some old" "so_status old = ''REFUNDING''" by auto
  have "orders_ok demo_held_db" using demo_paid_ok by (simp add: demo_held_db_def)
  with ingest_order_steps [OF this, of demo_shop Src_SYSTEM None "demo_report ''IN_CANCEL'' 200"] order_steps_ok
  have "orders_ok demo_refunding_db" by (metis demo_refunding_db_def prod.collapse)
  from refunding_keeps_hold [OF this old(1), of "[(Src_SYSTEM, demo_report ''CANCELLED'' 300), (Src_WEBHOOK, demo_report ''READY_TO_SHIP'' 400)]" demo_shop]
    old(2) run(2,3) show ?thesis by (simp add: demo_shop_def demo_report_def)
qed

end
