(* ===== verification/Snowflake.thy ===== *)
theory Snowflake imports Machines "HOL-Library.Word" begin

text \<open>
  \<^verbatim>\<open>app/db/snowflake.py\<close>, the generator of every primary key: 41 bits of milliseconds, 10 bits of
  worker, 12 bits of sequence.  The clock is the list of readings that \<open>int(time.time() * 1000)\<close>
  gives, one per call; it may stand still or run backwards.  A generator that used up the sequence
  of its millisecond reads on until the clock has moved on; when the readings end first, the call
  has not returned yet and the result is \<^const>\<open>None\<close>.  Python's integers are unbounded: that an
  id fits the column's 64 bits is a theorem.  The lock that serialises the calls of a process is not
  modelled: a history is the sequence of calls it lets through.
\<close>

unbundle bit_operations_syntax

section \<open>The generator\<close>

definition epoch_ms :: int where
  "epoch_ms = 1735689600000"

definition worker_bits :: nat where
  "worker_bits = 10"

definition seq_bits :: nat where
  "seq_bits = 12"

definition max_worker :: int where
  "max_worker = push_bit worker_bits 1 - 1"

definition max_seq :: int where
  "max_seq = push_bit seq_bits 1 - 1"

record generator =
  worker_id :: int
  last_ms :: int
  next_seq :: int

definition new_generator :: "int \<Rightarrow> generator" where
  "new_generator worker = \<lparr>worker_id = worker AND max_worker, last_ms = -1, next_seq = 0\<rparr>"

fun block_until :: "int \<Rightarrow> int list \<Rightarrow> (int \<times> int list) option" where
  "block_until target [] = None"
| "block_until target (t # ts) = (if t < target then block_until target ts else Some (t, ts))"

definition make_id :: "generator \<Rightarrow> int" where
  "make_id g =
     (push_bit (worker_bits + seq_bits) (last_ms g - epoch_ms) OR push_bit seq_bits (worker_id g)) OR next_seq g"

definition next_id :: "generator \<Rightarrow> int list \<Rightarrow> (int \<times> generator \<times> int list) option" where
  "next_id g clock =
     (case clock of
        [] \<Rightarrow> None
      | t # ts \<Rightarrow>
          let now = (if t < last_ms g then last_ms g else t) in
          (case (if now = last_ms g
                 then (if next_seq g + 1 > max_seq
                       then map_option (\<lambda>(u, us). (u, 0, us)) (block_until (last_ms g + 1) ts)
                       else Some (now, next_seq g + 1, ts))
                 else Some (now, 0, ts)) of
             None \<Rightarrow> None
           | Some (now, seq, rest) \<Rightarrow>
               let g = g\<lparr>last_ms := now, next_seq := seq\<rparr> in Some (make_id g, g, rest)))"

definition parse_snowflake_timestamp :: "int \<Rightarrow> int" where
  "parse_snowflake_timestamp ident = drop_bit (worker_bits + seq_bits) ident + epoch_ms"

text \<open>The ids of a history of calls, each with the readings it makes of the clock.\<close>

fun draw_ids :: "generator \<Rightarrow> int list list \<Rightarrow> (int list \<times> generator) option" where
  "draw_ids g [] = Some ([], g)"
| "draw_ids g (clock # clocks) =
     (case next_id g clock of
        None \<Rightarrow> None
      | Some (i, g, _) \<Rightarrow> map_option (\<lambda>(ids, g). (i # ids, g)) (draw_ids g clocks))"

section \<open>The three fields of an id\<close>

definition generator_ok :: "generator \<Rightarrow> bool" where
  "generator_ok g \<longleftrightarrow> 0 \<le> worker_id g \<and> worker_id g < 1024 \<and> 0 \<le> next_seq g \<and> next_seq g < 4096"

lemma max_seq_value [simp]: "max_seq = 4095"
  by (simp add: max_seq_def seq_bits_def push_bit_eq_mult)

lemma max_worker_value [simp]: "max_worker = 1023"
  by (simp add: max_worker_def worker_bits_def push_bit_eq_mult)

lemma or_low_bits:
  fixes a b :: int
  assumes "0 \<le> b" and "b < 2 ^ n"
  shows "push_bit n a OR b = a * 2 ^ n + b"
proof -
  have b: "take_bit n b = b" using assms by (simp add: take_bit_int_eq_self)
  have "\<not> bit (push_bit n a) k \<or> \<not> bit b k" for k
    using bit_take_bit_iff [of n b k] b by (auto simp: bit_push_bit_iff)
  then have "push_bit n a + b = push_bit n a OR b" by (intro disjunctive_add_eq_or bit_eqI) (auto simp: bit_and_iff)
  then show ?thesis by (simp add: push_bit_eq_mult)
qed

lemma make_id_arith:
  assumes "generator_ok g"
  shows "make_id g = (last_ms g - epoch_ms) * 4194304 + worker_id g * 4096 + next_seq g"
proof -
  have "push_bit 12 (push_bit 10 (last_ms g - epoch_ms) OR worker_id g) =
      push_bit 22 (last_ms g - epoch_ms) OR push_bit 12 (worker_id g)"
    by (simp add: push_bit_or)
  then have "make_id g = push_bit 12 (push_bit 10 (last_ms g - epoch_ms) OR worker_id g) OR next_seq g"
    by (simp add: make_id_def worker_bits_def seq_bits_def)
  also have "\<dots> = ((last_ms g - epoch_ms) * 2 ^ 10 + worker_id g) * 2 ^ 12 + next_seq g"
    using assms by (subst or_low_bits, simp_all add: generator_ok_def or_low_bits)
  finally show ?thesis by (simp add: algebra_simps)
qed

lemma new_generator_ok [simp]: "generator_ok (new_generator w)"
proof -
  have "w AND 1023 = take_bit 10 w" by (simp add: take_bit_eq_mask mask_eq_exp_minus_1)
  moreover have "0 \<le> take_bit 10 w" "take_bit 10 w < 2 ^ 10" by (rule take_bit_nonnegative, rule take_bit_int_less_exp)
  ultimately show ?thesis by (simp add: generator_ok_def new_generator_def)
qed

section \<open>One call\<close>

lemma block_until_props:
  "block_until target ts = Some (t, rest) \<Longrightarrow> target \<le> t \<and> t \<in> set ts"
  by (induction target ts rule: block_until.induct) (auto split: if_splits)

lemma block_until_returns: "block_until target ts \<noteq> None \<longleftrightarrow> (\<exists>t\<in>set ts. target \<le> t)"
  by (induction target ts rule: block_until.induct) auto

lemma next_id_props:
  assumes ok: "generator_ok g" and n: "next_id g clock = Some (i, g', rest)"
  shows "generator_ok g' \<and> worker_id g' = worker_id g \<and> i = make_id g' \<and>
    (last_ms g < last_ms g' \<or> last_ms g' = last_ms g \<and> next_seq g < next_seq g') \<and>
    (last_ms g' = last_ms g \<or> last_ms g' \<in> set clock)"
proof -
  obtain t ts where c: "clock = t # ts" using n by (auto simp: next_id_def split: list.splits)
  show ?thesis
  proof (cases "t \<le> last_ms g")
    case True
    show ?thesis
    proof (cases "next_seq g + 1 > 4095")
      case full: True
      with n c True obtain u where u: "block_until (last_ms g + 1) ts = Some (u, rest)"
        and g': "g' = g\<lparr>last_ms := u, next_seq := 0\<rparr>" "i = make_id g'"
        by (auto simp: next_id_def Let_def split: if_splits option.splits)
      from block_until_props [OF u] g' ok c show ?thesis by (auto simp: generator_ok_def)
    next
      case False
      with n c True have "g' = g\<lparr>last_ms := last_ms g, next_seq := next_seq g + 1\<rparr>" "i = make_id g'"
        by (auto simp: next_id_def Let_def split: if_splits)
      with ok False show ?thesis by (auto simp: generator_ok_def)
    qed
  next
    case False
    with n c have "g' = g\<lparr>last_ms := t, next_seq := 0\<rparr>" "i = make_id g'"
      by (auto simp: next_id_def Let_def split: if_splits)
    with ok False c show ?thesis by (auto simp: generator_ok_def)
  qed
qed

lemma later_id_greater:
  assumes "generator_ok g" and "generator_ok g'" and "worker_id g' = worker_id g"
    and "last_ms g < last_ms g' \<or> last_ms g' = last_ms g \<and> next_seq g < next_seq g'"
  shows "make_id g < make_id g'"
proof -
  have b: "0 \<le> worker_id g" "worker_id g < 1024" "next_seq g < 4096" "0 \<le> next_seq g'"
    using assms by (auto simp: generator_ok_def)
  show ?thesis
  proof (cases "last_ms g < last_ms g'")
    case True
    then have "last_ms g + 1 \<le> last_ms g'" by simp
    with b assms show ?thesis by (simp add: make_id_arith)
  next
    case False
    with assms b show ?thesis by (simp add: make_id_arith)
  qed
qed

lemma draw_ids_above:
  assumes "generator_ok g" and "draw_ids g clocks = Some (ids, h)"
  shows "generator_ok h \<and> worker_id h = worker_id g \<and> length ids = length clocks \<and>
    sorted_wrt (<) (make_id g # ids)"
  using assms
proof (induction clocks arbitrary: g ids)
  case (Cons clock clocks)
  then obtain i g1 rest is' where n: "next_id g clock = Some (i, g1, rest)"
    and d: "draw_ids g1 clocks = Some (is', h)" and ids: "ids = i # is'"
    by (auto split: option.splits)
  note p = next_id_props [OF Cons.prems(1) n]
  from p have ok1: "generator_ok g1" by simp
  from Cons.IH [OF ok1 d] p later_id_greater [OF Cons.prems(1) ok1] ids show ?case by auto
qed simp

section \<open>What the generator promises\<close>

lemma drop_make_id:
  assumes "generator_ok g"
  shows "drop_bit 22 (make_id g) = last_ms g - epoch_ms" and "drop_bit 12 (make_id g) mod 1024 = worker_id g"
proof -
  have b: "0 \<le> worker_id g * 4096 + next_seq g" "worker_id g * 4096 + next_seq g < 4194304"
    "0 \<le> next_seq g" "next_seq g < 4096" "0 \<le> worker_id g" "worker_id g < 1024"
    using assms by (auto simp: generator_ok_def)
  have i: "make_id g = (last_ms g - epoch_ms) * 4194304 + (worker_id g * 4096 + next_seq g)"
    using make_id_arith [OF assms] by simp
  have "make_id g div 4194304 = last_ms g - epoch_ms"
    unfolding i by (rule int_div_pos_eq [OF _ b(1,2)]) simp
  then show "drop_bit 22 (make_id g) = last_ms g - epoch_ms" by (simp add: drop_bit_eq_div)
  have "make_id g div 4096 = (last_ms g - epoch_ms) * 1024 + worker_id g"
    unfolding i by (rule int_div_pos_eq [OF _ b(3,4)]) simp
  then have "drop_bit 12 (make_id g) = worker_id g + (last_ms g - epoch_ms) * 1024" by (simp add: drop_bit_eq_div)
  then show "drop_bit 12 (make_id g) mod 1024 = worker_id g" using b(5,6) by (simp only: mod_mult_self1 mod_pos_pos_trivial)
qed

text \<open>C40: Ids of one generator rise strictly, however the clock behaves; ids of two workers never
  meet; each gives back the millisecond it was drawn in.\<close>

theorem snowflake_ids_unique:
  assumes "draw_ids (new_generator v) clocks = Some (ids, g)"
    and "draw_ids (new_generator w) clocks' = Some (ids', g')"
  shows "sorted_wrt (<) ids \<and> (v AND max_worker \<noteq> w AND max_worker \<longrightarrow> set ids \<inter> set ids' = {})"
proof -
  have worker: "\<forall>i\<in>set xs. drop_bit 12 i mod 1024 = worker_id h"
    if "generator_ok h" "draw_ids h cs = Some (xs, k)" for h cs xs k
    using that
  proof (induction cs arbitrary: h xs)
    case (Cons c cs)
    then obtain i h1 rest ys where n: "next_id h c = Some (i, h1, rest)"
      and d: "draw_ids h1 cs = Some (ys, k)" and xs: "xs = i # ys"
      by (auto split: option.splits)
    from next_id_props [OF Cons.prems(1) n] Cons.IH [OF _ d] xs show ?case by (auto simp: drop_make_id)
  qed simp
  have "drop_bit 12 i mod 1024 = v AND max_worker" if "i \<in> set ids" for i
    using worker [OF new_generator_ok assms(1)] that by (simp add: new_generator_def)
  moreover have "drop_bit 12 i mod 1024 = w AND max_worker" if "i \<in> set ids'" for i
    using worker [OF new_generator_ok assms(2)] that by (simp add: new_generator_def)
  ultimately show ?thesis using draw_ids_above [OF new_generator_ok assms(1)] by fastforce
qed

theorem snowflake_ids_unique_witness:
  "\<exists>ids ids' g g'. draw_ids (new_generator 1) [[1735689600005], [1735689600003]] = Some (ids, g) \<and>
     draw_ids (new_generator 2) [[1735689600005]] = Some (ids', g') \<and> length ids = 2 \<and>
     sorted_wrt (<) ids \<and> set ids \<inter> set ids' = {}"
proof -
  have a: "draw_ids (new_generator 1) [[1735689600005], [1735689600003]] =
      Some ([20975616, 20975617], \<lparr>worker_id = 1, last_ms = 1735689600005, next_seq = 1\<rparr>)"
    and b: "draw_ids (new_generator 2) [[1735689600005]] =
      Some ([20979712], \<lparr>worker_id = 2, last_ms = 1735689600005, next_seq = 0\<rparr>)"
    by code_simp+
  have "(1 AND max_worker :: int) \<noteq> 2 AND max_worker" by code_simp
  with snowflake_ids_unique [OF a b] a b show ?thesis by auto
qed

text \<open>An id gives back the time it was drawn at, and stays a positive 64-bit integer until 41
  bits of milliseconds have passed since the epoch.\<close>

theorem snowflake_id_roundtrip:
  assumes "draw_ids (new_generator w) clocks = Some (ids, g)" and "next_id g clock = Some (i, g', rest)"
  shows "parse_snowflake_timestamp i = last_ms g' \<and>
    (epoch_ms \<le> last_ms g' \<and> last_ms g' < epoch_ms + 2 ^ 41 \<longrightarrow> 0 \<le> i \<and> i < 2 ^ 63)"
proof -
  have ok: "generator_ok g" using draw_ids_above [OF new_generator_ok assms(1)] by simp
  note p = next_id_props [OF ok assms(2)]
  then have "generator_ok g'" and i: "i = make_id g'" by simp_all
  moreover from this(1) have "0 \<le> worker_id g'" "worker_id g' < 1024" "0 \<le> next_seq g'" "next_seq g' < 4096"
    by (simp_all add: generator_ok_def)
  moreover have "drop_bit 22 i = last_ms g' - epoch_ms" using drop_make_id(1) [OF \<open>generator_ok g'\<close>] i by simp
  ultimately show ?thesis
    using make_id_arith [OF \<open>generator_ok g'\<close>] by (simp add: parse_snowflake_timestamp_def worker_bits_def seq_bits_def)
qed

theorem snowflake_id_roundtrip_witness:
  "\<exists>i g' rest. next_id (new_generator 1) [1735689600005] = Some (i, g', rest) \<and>
     parse_snowflake_timestamp i = 1735689600005 \<and> 0 \<le> i \<and> i < 2 ^ 63"
proof -
  have n: "next_id (new_generator 1) [1735689600005] =
      Some (20975616, \<lparr>worker_id = 1, last_ms = 1735689600005, next_seq = 0\<rparr>, [])" by code_simp
  have "draw_ids (new_generator 1) [] = Some ([], new_generator 1)" by simp
  from snowflake_id_roundtrip [OF this n] n show ?thesis by (simp add: epoch_ms_def)
qed

text \<open>A call returns as soon as the clock has moved past the millisecond whose sequence is used up.\<close>

theorem snowflake_call_returns:
  assumes "clock \<noteq> []" and "\<exists>t\<in>set (tl clock). last_ms g < t"
  shows "next_id g clock \<noteq> None"
proof -
  obtain t ts where c: "clock = t # ts" using assms(1) by (cases clock) auto
  from assms(2) c have "\<exists>u\<in>set ts. last_ms g + 1 \<le> u" by (auto intro: bexI zless_imp_add1_zle)
  then have "block_until (last_ms g + 1) ts \<noteq> None" by (simp only: block_until_returns)
  then show ?thesis by (auto simp: next_id_def c Let_def split: option.splits)
qed

end
