(* ===== verification/Tokens.thy ===== *)
theory Tokens imports PyJson begin

text \<open>
  Passwords, signed tokens and their revocation: \<^verbatim>\<open>app/core/security.py\<close> and
  \<^verbatim>\<open>app/core/token_blacklist.py\<close>.  Third-party code is the record \<open>library\<close>: PyJWT's \<open>encode\<close> and
  \<open>decode\<close> (claims are JSON, a token is opaque), bcrypt's \<open>hashpw\<close> (\<^const>\<open>None\<close> is a malformed hash)
  and its salts; SHA-256, the random ids of \<open>uuid4\<close> and the
  driver's text for a violated unique column are parameters too.  \<open>pyjwt_laws\<close> is what the
  code relies on.  Time is UTC in microseconds; \<open>int(now.timestamp())\<close> is \<open>epoch\<close>.  The revocation
  list is the memory of one process; Redis, behind it, is a parameter whose calls may fail.
\<close>

section \<open>Third-party code and settings\<close>

datatype jwt_failure = Expired_signature | Invalid_token

record 'tok library =
  jwt_encode :: "json \<Rightarrow> string \<Rightarrow> 'tok"
  jwt_decode :: "int \<Rightarrow> 'tok \<Rightarrow> string \<Rightarrow> jwt_failure + json"
  bcrypt_hashpw :: "string \<Rightarrow> string \<Rightarrow> string option"
  gensalt :: "nat \<Rightarrow> string"
  sha256_digest :: "string \<Rightarrow> string"
  sha256_hex :: "'tok \<Rightarrow> string"
  uuid_hex :: "nat \<Rightarrow> string"
  py_str :: "json \<Rightarrow> string"
  unique_detail :: "string \<Rightarrow> string \<Rightarrow> string"

record auth_settings =
  jwt_secret :: string
  jwt_access_ttl_minutes :: int
  jwt_refresh_ttl_days :: int
  login_max_failures :: int
  login_lock_minutes :: int
  email_verification_ttl_hours :: int
  member_invitation_ttl_hours :: int
  confirmation_ttl_minutes :: int

definition default_auth_settings :: "string \<Rightarrow> auth_settings" where
  "default_auth_settings secret =
     \<lparr>jwt_secret = secret, jwt_access_ttl_minutes = 15, jwt_refresh_ttl_days = 7, login_max_failures = 5,
      login_lock_minutes = 15, email_verification_ttl_hours = 24, member_invitation_ttl_hours = 72,
      confirmation_ttl_minutes = 5\<rparr>"

abbreviation unauthenticated :: py_error where
  "unauthenticated \<equiv> AppError ''UnauthenticatedError''"

definition minutes :: "int \<Rightarrow> int" where
  "minutes n = n * 60000000"

definition epoch :: "int \<Rightarrow> int" where
  "epoch now = now div 1000000"

section \<open>Passwords\<close>

text \<open>\<open>base64.b64encode\<close>: three bytes become four characters, the rest is padded with \<open>=\<close>.\<close>

definition b64_alphabet :: string where
  "b64_alphabet = ''ABCDEFGHIJKLMNOPQRSTUVWXYZabcdefghijklmnopqrstuvwxyz0123456789+/''"

definition b64_char :: "int \<Rightarrow> char" where
  "b64_char n = b64_alphabet ! nat n"

fun b64encode :: "string \<Rightarrow> string" where
  "b64encode (a # b # c # s) =
     (let n = (of_char a * 256 + of_char b) * 256 + of_char c :: int in
      b64_char (n div 262144) # b64_char (n div 4096 mod 64) # b64_char (n div 64 mod 64)
      # b64_char (n mod 64) # b64encode s)"
| "b64encode [a, b] =
     (let n = (of_char a * 256 + of_char b) * 4 :: int in
      [b64_char (n div 4096), b64_char (n div 64 mod 64), b64_char (n mod 64), CHR ''=''])"
| "b64encode [a] =
     (let n = of_char a * 16 :: int in [b64_char (n div 64), b64_char (n mod 64), CHR ''='', CHR ''=''])"
| "b64encode [] = []"

definition prehash :: "'tok library \<Rightarrow> string \<Rightarrow> string" where
  "prehash lib password = b64encode (sha256_digest lib password)"

definition hash_password :: "'tok library \<Rightarrow> nat \<Rightarrow> string \<Rightarrow> string res" where
  "hash_password lib draw password =
     (if password = [] then Inl ValueError
      else (case bcrypt_hashpw lib (prehash lib password) (gensalt lib draw) of
              None \<Rightarrow> Inl ValueError | Some h \<Rightarrow> Inr h))"

definition verify_password :: "'tok library \<Rightarrow> string \<Rightarrow> string \<Rightarrow> bool" where
  "verify_password lib password hashed =
     (if password = [] \<or> hashed = [] then False
      else (case bcrypt_hashpw lib (prehash lib password) hashed of None \<Rightarrow> False | Some h \<Rightarrow> h = hashed))"

definition char_in :: "nat \<Rightarrow> nat \<Rightarrow> char \<Rightarrow> bool" where
  "char_in lo hi c = (lo \<le> of_char c \<and> of_char c \<le> hi)"

definition is_lower :: "char \<Rightarrow> bool" where
  "is_lower c = char_in 97 122 c"

definition is_upper :: "char \<Rightarrow> bool" where
  "is_upper c = char_in 65 90 c"

definition is_alnum :: "char \<Rightarrow> bool" where
  "is_alnum c = (is_lower c \<or> is_upper c \<or> is_digit c)"

datatype weakness = Too_short | Too_few_classes

definition password_strength_error :: "string \<Rightarrow> weakness option" where
  "password_strength_error password =
     (if length password < 10 then Some Too_short
      else let classes = length (filter (\<lambda>b. b)
             [list_ex is_lower password, list_ex is_upper password, list_ex is_digit password,
              list_ex (\<lambda>c. \<not> is_alnum c) password]) in
           if classes < 3 then Some Too_few_classes else None)"

section \<open>Tokens\<close>

record token_payload =
  tp_sub :: int
  tp_tid :: "int option"
  tp_role :: "string option"
  tp_typ :: string
  tp_jti :: string
  tp_iat :: int
  tp_exp :: int

record purpose_payload =
  pp_sub :: int
  pp_tid :: "int option"
  pp_action :: "string option"
  pp_email :: "string option"
  pp_jti :: string
  pp_iat :: int
  pp_exp :: int

fun or_null :: "('a \<Rightarrow> json) \<Rightarrow> 'a option \<Rightarrow> json" where
  "or_null f None = JNull"
| "or_null f (Some x) = f x"

definition token_claims :: "int \<Rightarrow> string \<Rightarrow> int option \<Rightarrow> string option \<Rightarrow> string \<Rightarrow> int \<Rightarrow> int \<Rightarrow> json" where
  "token_claims user typ tenant role jti now ttl =
     JObj [(''sub'', JStr (str_int user)), (''tid'', or_null JInt tenant), (''role'', or_null JStr role),
           (''typ'', JStr typ), (''jti'', JStr jti), (''iat'', JInt (epoch now)), (''exp'', JInt (epoch (now + ttl)))]"

definition purpose_claims ::
  "int \<Rightarrow> string \<Rightarrow> int option \<Rightarrow> string option \<Rightarrow> string option \<Rightarrow> string \<Rightarrow> int \<Rightarrow> int \<Rightarrow> json" where
  "purpose_claims user purpose tenant action email jti now ttl =
     JObj [(''sub'', JStr (str_int user)), (''tid'', or_null JInt tenant), (''purpose'', JStr purpose),
           (''action'', or_null JStr action), (''email'', or_null JStr email), (''jti'', JStr jti),
           (''iat'', JInt (epoch now)), (''exp'', JInt (epoch (now + ttl)))]"

definition access_ttl :: "auth_settings \<Rightarrow> int" where
  "access_ttl st = minutes (jwt_access_ttl_minutes st)"

definition refresh_ttl :: "auth_settings \<Rightarrow> int" where
  "refresh_ttl st = hours (24 * jwt_refresh_ttl_days st)"

text \<open>The fields as \<open>int(...)\<close> and the Pydantic model read them; what they raise is caught.\<close>

definition opt_int :: "json \<Rightarrow> int option res" where
  "opt_int v = (if v = JNull then Inr None else bindr (json_int v) (\<lambda>n. Inr (Some n)))"

fun as_str :: "json \<Rightarrow> string res" where
  "as_str (JStr s) = Inr s"
| "as_str _ = Inl ValueError"

definition opt_str :: "json \<Rightarrow> string option res" where
  "opt_str v = (if v = JNull then Inr None else bindr (as_str v) (\<lambda>s. Inr (Some s)))"

definition incomplete_payload :: "'a res \<Rightarrow> 'a res" where
  "incomplete_payload m =
     (case m of
        Inl e \<Rightarrow> if e \<in> {KeyError, TypeError, ValueError} then Inl unauthenticated else Inl e
      | Inr x \<Rightarrow> Inr x)"

definition jwt_open :: "'tok library \<Rightarrow> auth_settings \<Rightarrow> int \<Rightarrow> 'tok \<Rightarrow> json res" where
  "jwt_open lib st now token =
     (case jwt_decode lib now token (jwt_secret st) of
        Inl Expired_signature \<Rightarrow> Inl (AppError ''TokenExpiredError'')
      | Inl Invalid_token \<Rightarrow> Inl unauthenticated
      | Inr raw \<Rightarrow> Inr raw)"

definition read_token :: "json \<Rightarrow> string \<Rightarrow> token_payload res" where
  "read_token raw expected_type =
     bindr (json_get raw ''typ'' JNull) (\<lambda>typ.
     if typ \<noteq> JStr expected_type then Inl unauthenticated
     else incomplete_payload (
       bindr (bindr (json_item raw ''sub'') json_int) (\<lambda>sub.
       bindr (bindr (json_get raw ''tid'' JNull) opt_int) (\<lambda>tid.
       bindr (json_get raw ''role'' JNull) (\<lambda>role.
       bindr (bindr (json_item raw ''typ'') as_str) (\<lambda>typ.
       bindr (json_item raw ''jti'') (\<lambda>jti.
       bindr (bindr (json_item raw ''iat'') json_int) (\<lambda>iat.
       bindr (bindr (json_item raw ''exp'') json_int) (\<lambda>exp.
       bindr (opt_str role) (\<lambda>role.
       bindr (as_str jti) (\<lambda>jti.
       Inr \<lparr>tp_sub = sub, tp_tid = tid, tp_role = role, tp_typ = typ, tp_jti = jti, tp_iat = iat,
            tp_exp = exp\<rparr>)))))))))))"

definition decode_token :: "'tok library \<Rightarrow> auth_settings \<Rightarrow> int \<Rightarrow> 'tok \<Rightarrow> string \<Rightarrow> token_payload res" where
  "decode_token lib st now token expected_type =
     bindr (jwt_open lib st now token) (\<lambda>raw. read_token raw expected_type)"

definition read_purpose :: "'tok library \<Rightarrow> json \<Rightarrow> string \<Rightarrow> purpose_payload res" where
  "read_purpose lib raw expected_purpose =
     bindr (json_get raw ''purpose'' JNull) (\<lambda>purpose.
     if purpose \<noteq> JStr expected_purpose then Inl unauthenticated
     else incomplete_payload (
       bindr (bindr (json_item raw ''sub'') json_int) (\<lambda>sub.
       bindr (bindr (json_get raw ''tid'' JNull) opt_int) (\<lambda>tid.
       bindr (json_get raw ''action'' JNull) (\<lambda>action.
       bindr (json_get raw ''email'' JNull) (\<lambda>email.
       bindr (json_item raw ''jti'') (\<lambda>jti.
       bindr (bindr (json_item raw ''iat'') json_int) (\<lambda>iat.
       bindr (bindr (json_item raw ''exp'') json_int) (\<lambda>exp.
       bindr (opt_str action) (\<lambda>action.
       bindr (opt_str email) (\<lambda>email.
       Inr \<lparr>pp_sub = sub, pp_tid = tid, pp_action = action, pp_email = email,
            pp_jti = (case jti of JStr s \<Rightarrow> s | _ \<Rightarrow> py_str lib jti), pp_iat = iat, pp_exp = exp\<rparr>)))))))))))"

definition decode_purpose_token :: "'tok library \<Rightarrow> auth_settings \<Rightarrow> int \<Rightarrow> 'tok \<Rightarrow> string \<Rightarrow> purpose_payload res" where
  "decode_purpose_token lib st now token expected_purpose =
     bindr (jwt_open lib st now token) (\<lambda>raw. read_purpose lib raw expected_purpose)"

text \<open>
  What PyJWT documents: a signed token reads back as its claims, whenever it reads at all, and
  raises once its \<open>exp\<close> is not in the future.
\<close>

definition pyjwt_laws :: "'tok library \<Rightarrow> bool" where
  "pyjwt_laws lib \<longleftrightarrow>
     (\<forall>token secret now now' raw raw'.
        jwt_decode lib now token secret = Inr raw \<longrightarrow> jwt_decode lib now' token secret = Inr raw' \<longrightarrow> raw = raw') \<and>
     (\<forall>token secret now raw v n.
        jwt_decode lib now token secret = Inr raw \<longrightarrow> json_item raw ''exp'' = Inr v \<longrightarrow> json_int v = Inr n \<longrightarrow>
        now < seconds n)"

section \<open>The revocation list\<close>

type_synonym revoked = "string \<Rightarrow> int option"

definition memory_revoke :: "int \<Rightarrow> string \<Rightarrow> int \<Rightarrow> revoked \<Rightarrow> revoked" where
  "memory_revoke now jti ttl until = (if jti = [] then until else until(jti \<mapsto> now + seconds (max 1 ttl)))"

definition memory_is_revoked :: "int \<Rightarrow> string \<Rightarrow> revoked \<Rightarrow> revoked \<times> bool" where
  "memory_is_revoked now jti until =
     (case until jti of
        None \<Rightarrow> (until, False)
      | Some expires \<Rightarrow> if expires \<le> now then (until(jti := None), False) else (until, True))"

text \<open>Redis: the connection with its ping, \<open>SET EX\<close> and \<open>EXISTS\<close>; \<open>Inl ()\<close> is any exception.\<close>

record 'r redis_keys =
  redis_ping :: "'r \<Rightarrow> 'r \<times> (unit + unit)"
  redis_setex :: "'r \<Rightarrow> string \<Rightarrow> int \<Rightarrow> 'r \<times> (unit + unit)"
  redis_exists :: "'r \<Rightarrow> string \<Rightarrow> 'r \<times> (unit + bool)"

record 'r blacklist =
  bl_memory :: revoked
  bl_disabled :: bool
  bl_connected :: bool
  bl_redis :: 'r

definition key_prefix :: string where
  "key_prefix = ''auth:jti:revoked:''"

definition redis_client_of :: "'r redis_keys \<Rightarrow> bool \<Rightarrow> 'r blacklist \<Rightarrow> 'r blacklist \<times> bool" where
  "redis_client_of ops is_test b =
     (if is_test \<or> bl_disabled b then (b, False)
      else if bl_connected b then (b, True)
      else (case redis_ping ops (bl_redis b) of
              (r, Inl _) \<Rightarrow> (b\<lparr>bl_redis := r, bl_disabled := True\<rparr>, False)
            | (r, Inr _) \<Rightarrow> (b\<lparr>bl_redis := r, bl_connected := True\<rparr>, True)))"

definition revoke :: "'r redis_keys \<Rightarrow> bool \<Rightarrow> int \<Rightarrow> string \<Rightarrow> int \<Rightarrow> 'r blacklist \<Rightarrow> 'r blacklist" where
  "revoke ops is_test now jti ttl b =
     (case redis_client_of ops is_test (b\<lparr>bl_memory := memory_revoke now jti ttl (bl_memory b)\<rparr>) of
        (b, False) \<Rightarrow> b
      | (b, True) \<Rightarrow> b\<lparr>bl_redis := fst (redis_setex ops (bl_redis b) (key_prefix @ jti) (max 1 ttl))\<rparr>)"

definition is_revoked :: "'r redis_keys \<Rightarrow> bool \<Rightarrow> int \<Rightarrow> string \<Rightarrow> 'r blacklist \<Rightarrow> 'r blacklist \<times> bool" where
  "is_revoked ops is_test now jti b =
     (case memory_is_revoked now jti (bl_memory b) of
        (m, True) \<Rightarrow> (b\<lparr>bl_memory := m\<rparr>, True)
      | (m, False) \<Rightarrow>
          (case redis_client_of ops is_test (b\<lparr>bl_memory := m\<rparr>) of
             (b, False) \<Rightarrow> (b, False)
           | (b, True) \<Rightarrow>
               (case redis_exists ops (bl_redis b) (key_prefix @ jti) of
                  (r, Inl _) \<Rightarrow> (b\<lparr>bl_redis := r\<rparr>, False)
                | (r, Inr found) \<Rightarrow> (b\<lparr>bl_redis := r\<rparr>, found))))"

definition remaining_ttl_seconds :: "int \<Rightarrow> int \<Rightarrow> int" where
  "remaining_ttl_seconds now expiry = max 1 (expiry - epoch now)"

end
