(* ===== verification/Accounts.thy ===== *)
theory Accounts imports Tokens Permissions begin

text \<open>
  Users, tenants, members and their requests: \<^verbatim>\<open>app/services/auth_service.py\<close>,
  \<^verbatim>\<open>registration_service.py\<close>, \<^verbatim>\<open>member_service.py\<close>, \<^verbatim>\<open>app/repositories/identity.py\<close> and the
  dependencies of \<^verbatim>\<open>app/core/deps.py\<close>.  \<open>accounts\<close> is the database; a query in the context of a
  tenant sees the rows of that tenant only, and rows with \<open>deleted_at\<close> are hidden, as the
  repositories do.  A handler runs on \<open>auth_world\<close>: the session's view of the database and what is
  committed of it, the revocation list of the process, the outbox, and the supplies of random ids and
  keys.  It returns or raises; the request's session then commits or rolls back.  Keys come from a
  counter (\<open>Snowflake\<close> shows the generator's ids to be distinct).  E-mail syntax, display texts and
  IP addresses are not modelled.
\<close>

section \<open>Rows\<close>

record sys_user =
  u_id :: int
  u_email :: string
  u_hash :: string
  u_name :: "string option"
  u_status :: int
  u_verified :: "int option"
  u_last_login :: "int option"
  u_failures :: int
  u_locked :: "int option"
  u_password_changed :: "int option"

record tenant =
  tn_id :: int
  tn_code :: string
  tn_name :: string
  tn_status :: int
  tn_currency :: string
  tn_timezone :: string

record tenant_user =
  m_id :: int
  m_tenant :: int
  m_user :: int
  m_role :: string
  m_status :: int
  m_joined :: "int option"
  m_deleted :: "int option"

record invitation =
  i_id :: int
  i_tenant :: int
  i_email :: string
  i_role :: string
  i_hash :: string
  i_expires :: int
  i_status :: int
  i_by :: int
  i_accepted :: "int option"

record data_scope =
  ds_tenant :: int
  ds_member :: int
  ds_resource :: int
  ds_type :: int
  ds_shops :: "int list"

record role_row =
  rl_tenant :: int
  rl_code :: string
  rl_system :: bool
  rl_permissions :: "string list"

record login_row =
  l_tenant :: "int option"
  l_user :: "int option"
  l_email :: string
  l_result :: int
  l_reason :: "string option"
  l_at :: int

record audit_row =
  a_tenant :: int
  a_action :: string
  a_resource :: string
  a_user :: "int option"
  a_ref :: "int option"

record accounts =
  tenants :: "tenant list"
  users :: "sys_user list"
  members :: "tenant_user list"
  invites :: "invitation list"
  scopes :: "data_scope list"
  role_rows :: "role_row list"
  login_log :: "login_row list"
  audit_log :: "audit_row list"

text \<open>Status numbers of \<^verbatim>\<open>models/enums.py\<close>: 1 is an active tenant, an active user, a pending invitation.\<close>

definition tenant_disabled :: int where
  "tenant_disabled = 3"

definition user_active :: int where
  "user_active = 1"

definition member_active :: int where
  "member_active = 2"

definition invitation_pending :: int where
  "invitation_pending = 1"

definition invitation_accepted :: int where
  "invitation_accepted = 2"

definition invitation_revoked :: int where
  "invitation_revoked = 4"

section \<open>Repositories\<close>

definition get_user :: "int \<Rightarrow> accounts \<Rightarrow> sys_user option" where
  "get_user ident db = find (\<lambda>u. u_id u = ident) (users db)"

definition get_by_email :: "string \<Rightarrow> accounts \<Rightarrow> sys_user option" where
  "get_by_email email db = find (\<lambda>u. u_email u = strip (lower email)) (users db)"

definition add_user :: "sys_user \<Rightarrow> accounts \<Rightarrow> accounts res" where
  "add_user u db =
     (if list_ex (\<lambda>x. u_email x = u_email u) (users db) then Inl IntegrityError
      else Inr (db\<lparr>users := users db @ [u]\<rparr>))"

definition put_user :: "sys_user \<Rightarrow> accounts \<Rightarrow> accounts" where
  "put_user u db = db\<lparr>users := map (\<lambda>x. if u_id x = u_id u then u else x) (users db)\<rparr>"

definition is_locked :: "int \<Rightarrow> sys_user \<Rightarrow> bool" where
  "is_locked now u = (case u_locked u of None \<Rightarrow> False | Some t \<Rightarrow> t > now)"

definition record_login_failure :: "auth_settings \<Rightarrow> int \<Rightarrow> sys_user \<Rightarrow> accounts \<Rightarrow> accounts" where
  "record_login_failure st now u db =
     (let n = u_failures u + 1; u = u\<lparr>u_failures := n\<rparr> in
      put_user (if n \<ge> login_max_failures st
                then u\<lparr>u_locked := Some (now + minutes (login_lock_minutes st))\<rparr> else u) db)"

definition record_login_success :: "int \<Rightarrow> sys_user \<Rightarrow> accounts \<Rightarrow> accounts" where
  "record_login_success now u db =
     put_user (u\<lparr>u_failures := 0, u_locked := None, u_last_login := Some now\<rparr>) db"

definition mark_email_verified :: "int \<Rightarrow> sys_user \<Rightarrow> accounts \<Rightarrow> accounts" where
  "mark_email_verified now u db =
     (if u_verified u = None then put_user (u\<lparr>u_verified := Some now\<rparr>) db else db)"

definition get_tenant :: "int \<Rightarrow> accounts \<Rightarrow> tenant option" where
  "get_tenant ident db = find (\<lambda>t. tn_id t = ident) (tenants db)"

text \<open>What every query of a tenant's table carries: the session's hook adds the tenant of the request
  (\<^verbatim>\<open>db/tenant_filter.py\<close>), and \<open>base_select\<close> hides what was deleted softly, where the table has that column.\<close>

definition tenant_criteria :: "int \<Rightarrow> int \<Rightarrow> bool" where
  [simp]: "tenant_criteria tid row_tenant = (row_tenant = tid)"

definition not_deleted :: "int option \<Rightarrow> bool" where
  [simp]: "not_deleted deleted_at = (deleted_at = None)"

definition visible :: "int \<Rightarrow> tenant_user \<Rightarrow> bool" where
  "visible tid m = (tenant_criteria tid (m_tenant m) \<and> not_deleted (m_deleted m))"

definition get_membership :: "int \<Rightarrow> int \<Rightarrow> accounts \<Rightarrow> tenant_user option" where
  "get_membership tid user db = find (\<lambda>m. visible tid m \<and> m_user m = user) (members db)"

definition get_member :: "int \<Rightarrow> int \<Rightarrow> accounts \<Rightarrow> tenant_user option" where
  "get_member tid ident db = find (\<lambda>m. visible tid m \<and> m_id m = ident) (members db)"

definition put_member :: "tenant_user \<Rightarrow> accounts \<Rightarrow> accounts" where
  "put_member m db = db\<lparr>members := map (\<lambda>x. if m_id x = m_id m then m else x) (members db)\<rparr>"

text \<open>The table's unique key ignores \<open>deleted_at\<close>.\<close>

definition add_member :: "tenant_user \<Rightarrow> accounts \<Rightarrow> accounts res" where
  "add_member m db =
     (if list_ex (\<lambda>x. m_tenant x = m_tenant m \<and> m_user x = m_user m) (members db) then Inl IntegrityError
      else Inr (db\<lparr>members := members db @ [m]\<rparr>))"

definition count_active_admins :: "int \<Rightarrow> accounts \<Rightarrow> nat" where
  "count_active_admins tid db =
     length (take 2 (filter (\<lambda>m. visible tid m \<and> m_role m \<in> {''OWNER'', ''ADMIN''} \<and> m_status m = member_active)
       (members db)))"

record membership =
  ms_tenant :: int
  ms_code :: string
  ms_name :: string
  ms_role :: string
  ms_status :: int

definition list_user_tenants :: "int \<Rightarrow> accounts \<Rightarrow> membership list" where
  "list_user_tenants user db =
     concat (map (\<lambda>m. case get_tenant (m_tenant m) db of
         None \<Rightarrow> []
       | Some t \<Rightarrow> [\<lparr>ms_tenant = tn_id t, ms_code = tn_code t, ms_name = tn_name t, ms_role = m_role m,
                      ms_status = m_status m\<rparr>])
       (filter (\<lambda>m. m_user m = user \<and> m_deleted m = None) (members db)))"

definition get_role_row :: "int \<Rightarrow> string \<Rightarrow> accounts \<Rightarrow> role_row option" where
  "get_role_row tid code db = find (\<lambda>r. rl_tenant r = tid \<and> rl_code r = code) (role_rows db)"

definition upsert_scope :: "data_scope \<Rightarrow> accounts \<Rightarrow> accounts" where
  "upsert_scope s db =
     (let same = (\<lambda>x. ds_tenant x = ds_tenant s \<and> ds_member x = ds_member s \<and> ds_resource x = ds_resource s) in
      if list_ex same (scopes db) then db\<lparr>scopes := map (\<lambda>x. if same x then s else x) (scopes db)\<rparr>
      else db\<lparr>scopes := scopes db @ [s]\<rparr>)"

definition scopes_of :: "int \<Rightarrow> int \<Rightarrow> accounts \<Rightarrow> data_scope list" where
  "scopes_of tid member db = filter (\<lambda>s. ds_tenant s = tid \<and> ds_member s = member) (scopes db)"

definition get_invitation :: "int \<Rightarrow> int \<Rightarrow> accounts \<Rightarrow> invitation option" where
  "get_invitation tid ident db = find (\<lambda>i. tenant_criteria tid (i_tenant i) \<and> i_id i = ident) (invites db)"

text \<open>The hash column is unique.\<close>

definition add_invitation :: "invitation \<Rightarrow> accounts \<Rightarrow> accounts res" where
  "add_invitation i db =
     (if list_ex (\<lambda>x. i_hash x = i_hash i) (invites db) then Inl IntegrityError
      else Inr (db\<lparr>invites := invites db @ [i]\<rparr>))"

definition live_invitation :: "int \<Rightarrow> invitation \<Rightarrow> bool" where
  "live_invitation now i = (i_expires i > now \<and> i_status i = invitation_pending)"

definition get_pending_by_hash :: "int \<Rightarrow> int \<Rightarrow> string \<Rightarrow> accounts \<Rightarrow> invitation option" where
  "get_pending_by_hash tid now hash db =
     find (\<lambda>i. i_tenant i = tid \<and> i_hash i = hash \<and> live_invitation now i) (invites db)"

definition revoke_pending_for_email :: "int \<Rightarrow> int \<Rightarrow> string \<Rightarrow> accounts \<Rightarrow> accounts" where
  "revoke_pending_for_email tid now email db =
     db\<lparr>invites := map (\<lambda>i. if i_tenant i = tid \<and> i_email i = strip (lower email) \<and> live_invitation now i
                            then i\<lparr>i_expires := now, i_status := invitation_revoked\<rparr> else i) (invites db)\<rparr>"

definition set_invitation_status :: "int \<Rightarrow> int \<Rightarrow> invitation \<Rightarrow> accounts \<Rightarrow> accounts" where
  "set_invitation_status now status row db =
     db\<lparr>invites := map (\<lambda>i. if i_id i = i_id row
                            then (if status = invitation_accepted
                                  then i\<lparr>i_status := status, i_accepted := Some now\<rparr> else i\<lparr>i_status := status\<rparr>)
                            else i) (invites db)\<rparr>"

definition append_action :: "int \<Rightarrow> string \<Rightarrow> string \<Rightarrow> int option \<Rightarrow> int option \<Rightarrow> accounts \<Rightarrow> accounts" where
  "append_action tid action resource user ref db =
     db\<lparr>audit_log := audit_log db @
       [\<lparr>a_tenant = tid, a_action = action, a_resource = resource, a_user = user, a_ref = ref\<rparr>]\<rparr>"

definition log_login ::
  "int option \<Rightarrow> string \<Rightarrow> int \<Rightarrow> string option \<Rightarrow> int option \<Rightarrow> int \<Rightarrow> accounts \<Rightarrow> accounts" where
  "log_login tid email result reason user now db =
     db\<lparr>login_log := login_log db @
       [\<lparr>l_tenant = tid, l_user = user, l_email = email, l_result = result, l_reason = reason, l_at = now\<rparr>]\<rparr>"

end
