(* ===== verification/Effects.thy ===== *)
theory Effects imports Prelude begin

text \<open>
  Code that works on the world of its process and may raise: \<open>act\<close>, with what an action leaves of the
  world (\<open>leaves\<close>) and what its results satisfy (\<open>yields\<close>).
\<close>

type_synonym ('w, 'a) act = "'w \<Rightarrow> 'w \<times> 'a res"

definition give :: "'a \<Rightarrow> ('w, 'a) act" where
  "give x = (\<lambda>w. (w, Inr x))"

definition fail :: "py_error \<Rightarrow> ('w, 'a) act" where
  "fail e = (\<lambda>w. (w, Inl e))"

definition bindw :: "('w, 'a) act \<Rightarrow> ('a \<Rightarrow> ('w, 'b) act) \<Rightarrow> ('w, 'b) act" where
  "bindw m f = (\<lambda>w. case m w of (w', Inl e) \<Rightarrow> (w', Inl e) | (w', Inr x) \<Rightarrow> f x w')"

text \<open>\<open>try: m except e: pass\<close>, and \<open>try: x = m except e: x = d\<close>.\<close>

definition suppressing :: "py_error \<Rightarrow> ('w, unit) act \<Rightarrow> ('w, unit) act" where
  "suppressing e m =
     (\<lambda>w. case m w of (w', Inl e') \<Rightarrow> (w', if e' = e then Inr () else Inl e') | (w', Inr x) \<Rightarrow> (w', Inr x))"

definition otherwise_at :: "py_error \<Rightarrow> 'a \<Rightarrow> ('w, 'a) act \<Rightarrow> ('w, 'a) act" where
  "otherwise_at e d m =
     (\<lambda>w. case m w of (w', Inl e') \<Rightarrow> (w', if e' = e then Inr d else Inl e') | (w', Inr x) \<Rightarrow> (w', Inr x))"

definition lift_res :: "'a res \<Rightarrow> ('w, 'a) act" where
  "lift_res r = (\<lambda>w. (w, r))"

section \<open>Composition\<close>

lemma bindw_eq:
  "bindw m f w = (w', r) \<longleftrightarrow>
     (\<exists>e. m w = (w', Inl e) \<and> r = Inl e) \<or> (\<exists>x w1. m w = (w1, Inr x) \<and> f x w1 = (w', r))"
  by (auto simp: bindw_def split: prod.splits sum.splits)

lemma bindw_Inr: "bindw m f w = (w', Inr y) \<longleftrightarrow> (\<exists>x w1. m w = (w1, Inr x) \<and> f x w1 = (w', Inr y))"
  by (auto simp: bindw_eq)

lemma bindw_ran: "m w = (w1, q) \<Longrightarrow> bindw m f w = (case q of Inl e \<Rightarrow> (w1, Inl e) | Inr x \<Rightarrow> f x w1)"
  by (simp add: bindw_def)

named_theorems acts \<open>what the primitive actions do\<close>

lemma act_simps [acts]:
  "give x w = (w, Inr x)" "fail e w = (w, Inl e)" "lift_res r w = (w, r)"
  by (simp_all add: give_def fail_def lift_res_def)

lemma bindw_pure [acts]: "bindw (give x) f w = f x w" "bindw (fail e) f' w = (w, Inl e)"
  by (simp_all add: bindw_def acts)

lemma bindw_lift [acts]:
  "bindw (lift_res r) f w = (case r of Inl e \<Rightarrow> (w, Inl e) | Inr x \<Rightarrow> f x w)"
  by (auto simp: bindw_def acts split: sum.splits)

section \<open>Parts of the world that are left alone\<close>

definition leaves :: "('w \<Rightarrow> 'b) \<Rightarrow> ('w, 'a) act \<Rightarrow> bool" where
  "leaves part m \<longleftrightarrow> (\<forall>w. part (fst (m w)) = part w)"

named_theorems leaving \<open>actions that leave a part of the world alone\<close>

lemma leavesD: "leaves part m \<Longrightarrow> m w = (w', r) \<Longrightarrow> part w' = part w"
  by (metis fst_conv leaves_def)

lemma leaves_bindw [leaving]:
  assumes "leaves part m" and "\<And>x. leaves part (f x)"
  shows "leaves part (bindw m f)"
  using assms by (auto simp: leaves_def bindw_def split: prod.splits sum.splits) (metis fst_conv)+

lemma leaves_pure [leaving]:
  "leaves part (give x)" "leaves part (fail e)" "leaves part (lift_res r)"
  by (simp_all add: leaves_def acts)

lemma leaves_if [leaving]: "leaves part m \<Longrightarrow> leaves part m' \<Longrightarrow> leaves part (if c then m else m')"
  by simp

lemma leaves_option [leaving]:
  "leaves part m \<Longrightarrow> (\<And>x. leaves part (f x)) \<Longrightarrow> leaves part (case v of None \<Rightarrow> m | Some x \<Rightarrow> f x)"
  by (cases v) simp_all

lemma leaves_Let [leaving]: "leaves part (f x) \<Longrightarrow> leaves part (let y = x in f y)"
  by simp

lemma fst_suppressing: "fst (suppressing e m w) = fst (m w)" "fst (otherwise_at e d m' w) = fst (m' w)"
  by (simp_all add: suppressing_def otherwise_at_def split: prod.splits sum.splits)

lemma leaves_suppressing [leaving]:
  "leaves part m \<Longrightarrow> leaves part (suppressing e m)" "leaves part m' \<Longrightarrow> leaves part (otherwise_at e d m')"
  by (simp_all add: leaves_def fst_suppressing)

section \<open>What every result satisfies\<close>

definition yields :: "('w, 'a) act \<Rightarrow> ('a \<Rightarrow> bool) \<Rightarrow> bool" where
  "yields m Q \<longleftrightarrow> (\<forall>w w' x. m w = (w', Inr x) \<longrightarrow> Q x)"

lemma yieldsD: "yields m Q \<Longrightarrow> m w = (w', Inr x) \<Longrightarrow> Q x"
  by (simp add: yields_def)

lemma yields_simps: "yields (fail e) Q" "yields (give x) Q \<longleftrightarrow> Q x" "yields m (\<lambda>_. True)"
  by (simp_all add: yields_def acts)

lemma yields_bindw: "yields m P \<Longrightarrow> (\<And>x. P x \<Longrightarrow> yields (f x) Q) \<Longrightarrow> yields (bindw m f) Q"
  unfolding yields_def bindw_Inr by blast

lemma yields_unless: "(\<not> c \<Longrightarrow> yields m Q) \<Longrightarrow> yields (if c then fail e else m) Q"
  by (simp add: yields_simps)

lemma yields_case: "(\<And>x. found = Some x \<Longrightarrow> yields (g x) Q) \<Longrightarrow> yields (case found of None \<Rightarrow> fail e | Some x \<Rightarrow> g x) Q"
  by (simp add: yields_simps split: option.split)

end
