(* ===== verification/Access.thy ===== *)
theory Access imports Accounts Effects begin

text \<open>
  The handlers over the tables of \<open>Accounts\<close>: sign-in, refresh, sign-out, the identity behind a
  bearer token, confirmations, registration, invitations and members, and the serving of a request.
\<close>

section \<open>The world and its effects\<close>

record 'tok link =
  k_kind :: string
  k_recipient :: string
  k_token :: 'tok

record ('tok, 'r) auth_world =
  aw_db :: accounts
  aw_saved :: accounts
  aw_list :: "'r blacklist"
  aw_outbox :: "'tok link list"
  aw_draws :: nat
  aw_ids :: int
  aw_issued :: "json list"

record ('tok, 'r) env =
  lib :: "'tok library"
  conf :: auth_settings
  keys :: "'r redis_keys"
  in_test :: bool

definition ask_db :: "(accounts \<Rightarrow> 'a) \<Rightarrow> (('tok, 'r) auth_world, 'a) act" where
  "ask_db f = (\<lambda>w. (w, Inr (f (aw_db w))))"

definition write_db :: "(accounts \<Rightarrow> accounts) \<Rightarrow> (('tok, 'r) auth_world, unit) act" where
  "write_db f = (\<lambda>w. (w\<lparr>aw_db := f (aw_db w)\<rparr>, Inr ()))"

definition commit :: "(('tok, 'r) auth_world, unit) act" where
  "commit = (\<lambda>w. (w\<lparr>aw_saved := aw_db w\<rparr>, Inr ()))"

definition draw_id :: "(('tok, 'r) auth_world, int) act" where
  "draw_id = (\<lambda>w. (w\<lparr>aw_ids := aw_ids w + 1\<rparr>, Inr (aw_ids w)))"

definition draw_random :: "(('tok, 'r) auth_world, nat) act" where
  "draw_random = (\<lambda>w. (w\<lparr>aw_draws := aw_draws w + 1\<rparr>, Inr (aw_draws w)))"

text \<open>Signing; \<open>aw_issued\<close> records what was signed, for the statements only.\<close>

definition sign :: "('tok, 'r) env \<Rightarrow> json \<Rightarrow> (('tok, 'r) auth_world, 'tok) act" where
  "sign E claims = (\<lambda>w. (w\<lparr>aw_issued := aw_issued w @ [claims]\<rparr>, Inr (jwt_encode (lib E) claims (jwt_secret (conf E)))))"

definition create_token ::
  "('tok, 'r) env \<Rightarrow> int \<Rightarrow> int \<Rightarrow> string \<Rightarrow> int option \<Rightarrow> string option \<Rightarrow> int \<Rightarrow> (('tok, 'r) auth_world, 'tok) act" where
  "create_token E now user typ tid role ttl =
     bindw draw_random (\<lambda>d. sign E (token_claims user typ tid role (uuid_hex (lib E) d) now ttl))"

definition create_purpose_token ::
  "('tok, 'r) env \<Rightarrow> int \<Rightarrow> int \<Rightarrow> string \<Rightarrow> int option \<Rightarrow> string option \<Rightarrow> string option \<Rightarrow> int
     \<Rightarrow> (('tok, 'r) auth_world, 'tok) act" where
  "create_purpose_token E now user purpose tid action email ttl =
     bindw draw_random (\<lambda>d. sign E (purpose_claims user purpose tid action email (uuid_hex (lib E) d) now ttl))"

record 'tok token_pair =
  access_token :: 'tok
  refresh_token :: 'tok
  expires_in :: int

definition create_token_pair ::
  "('tok, 'r) env \<Rightarrow> int \<Rightarrow> int \<Rightarrow> int option \<Rightarrow> string option \<Rightarrow> (('tok, 'r) auth_world, 'tok token_pair) act" where
  "create_token_pair E now user tid role =
     bindw (create_token E now user ''access'' tid role (access_ttl (conf E))) (\<lambda>a.
     bindw (create_token E now user ''refresh'' tid role (refresh_ttl (conf E))) (\<lambda>r.
     give \<lparr>access_token = a, refresh_token = r, expires_in = jwt_access_ttl_minutes (conf E) * 60\<rparr>))"

definition revoke_jti :: "('tok, 'r) env \<Rightarrow> int \<Rightarrow> string \<Rightarrow> int \<Rightarrow> (('tok, 'r) auth_world, unit) act" where
  "revoke_jti E now jti expiry =
     (\<lambda>w. (w\<lparr>aw_list := revoke (keys E) (in_test E) now jti (remaining_ttl_seconds now expiry) (aw_list w)\<rparr>, Inr ()))"

definition ask_revoked :: "('tok, 'r) env \<Rightarrow> int \<Rightarrow> string \<Rightarrow> (('tok, 'r) auth_world, bool) act" where
  "ask_revoked E now jti =
     (\<lambda>w. case is_revoked (keys E) (in_test E) now jti (aw_list w) of (b, r) \<Rightarrow> (w\<lparr>aw_list := b\<rparr>, Inr r))"

definition revoke_payload :: "('tok, 'r) env \<Rightarrow> int \<Rightarrow> token_payload \<Rightarrow> (('tok, 'r) auth_world, unit) act" where
  "revoke_payload E now p = revoke_jti E now (tp_jti p) (tp_exp p)"

definition assert_token_not_revoked :: "('tok, 'r) env \<Rightarrow> int \<Rightarrow> token_payload \<Rightarrow> (('tok, 'r) auth_world, unit) act" where
  "assert_token_not_revoked E now p =
     bindw (ask_revoked E now (tp_jti p)) (\<lambda>r. if r then fail unauthenticated else give ())"

definition decode :: "('tok, 'r) env \<Rightarrow> int \<Rightarrow> 'tok \<Rightarrow> string \<Rightarrow> (('tok, 'r) auth_world, token_payload) act" where
  "decode E now token expected_type = lift_res (decode_token (lib E) (conf E) now token expected_type)"

definition deliver_link :: "string \<Rightarrow> string \<Rightarrow> 'tok \<Rightarrow> (('tok, 'r) auth_world, unit) act" where
  "deliver_link what recipient token =
     (\<lambda>w. (w\<lparr>aw_outbox := aw_outbox w @ [\<lparr>k_kind = what, k_recipient = recipient, k_token = token\<rparr>]\<rparr>, Inr ()))"

section \<open>Signing in\<close>

definition reject_login ::
  "py_error \<Rightarrow> int option \<Rightarrow> string \<Rightarrow> string \<Rightarrow> int option \<Rightarrow> int \<Rightarrow> (('tok, 'r) auth_world, 'a) act" where
  "reject_login e tid email reason user now =
     bindw (write_db (log_login tid email 2 (Some reason) user now)) (\<lambda>_. bindw commit (\<lambda>_. fail e))"

definition pick_tenant :: "membership list \<Rightarrow> string option \<Rightarrow> membership res" where
  "pick_tenant ms tenant_code =
     (case tenant_code of
        Some (c # cs) \<Rightarrow>
          (case find (\<lambda>m. ms_code m = c # cs) ms of None \<Rightarrow> Inl unauthenticated | Some m \<Rightarrow> Inr m)
      | _ \<Rightarrow>
          if length ms > 1 then Inl unauthenticated
          else (case ms of [] \<Rightarrow> Inl IndexError | m # _ \<Rightarrow> Inr m))"

definition require_active_tenant :: "int \<Rightarrow> accounts \<Rightarrow> tenant res" where
  "require_active_tenant tid db =
     (case get_tenant tid db of
        None \<Rightarrow> Inl (AppError ''TenantDisabledError'')
      | Some t \<Rightarrow> if tn_status t = tenant_disabled then Inl (AppError ''TenantDisabledError'') else Inr t)"

definition require_membership :: "int \<Rightarrow> int \<Rightarrow> accounts \<Rightarrow> tenant_user res" where
  "require_membership user tid db =
     (case get_membership tid user db of
        None \<Rightarrow> Inl unauthenticated
      | Some m \<Rightarrow>
          if m_status m \<noteq> member_active then Inl unauthenticated
          else if m_tenant m \<noteq> tid then Inl unauthenticated else Inr m)"

record brief =
  b_tenant :: int
  b_code :: string
  b_role :: role

definition to_brief :: "int \<Rightarrow> string \<Rightarrow> string \<Rightarrow> brief res" where
  "to_brief tid code role =
     (case role_of role of None \<Rightarrow> Inl ValueError | Some r \<Rightarrow> Inr \<lparr>b_tenant = tid, b_code = code, b_role = r\<rparr>)"

record 'tok login_response =
  lr_pair :: "'tok token_pair"
  lr_tenant :: brief
  lr_available :: "brief list"

definition login ::
  "('tok, 'r) env \<Rightarrow> int \<Rightarrow> string \<Rightarrow> string \<Rightarrow> string option \<Rightarrow> (('tok, 'r) auth_world, 'tok login_response) act" where
  "login E now address password tenant_code =
     (let email = strip (lower address) in
      bindw (ask_db (get_by_email email)) (\<lambda>found.
      case found of
        None \<Rightarrow> reject_login unauthenticated None email ''user_not_found'' None now
      | Some u \<Rightarrow>
          if is_locked now u then
            reject_login (AppError ''AccountLockedError'') None email ''account_locked'' (Some (u_id u)) now
          else if u_status u \<noteq> user_active then
            reject_login unauthenticated None email ''user_disabled'' (Some (u_id u)) now
          else if \<not> verify_password (lib E) password (u_hash u) then
            bindw (write_db (record_login_failure (conf E) now u)) (\<lambda>_.
            reject_login unauthenticated None email ''bad_password'' (Some (u_id u)) now)
          else
            bindw (ask_db (list_user_tenants (u_id u))) (\<lambda>memberships.
            let active = filter (\<lambda>m. ms_status m = member_active) memberships in
            if active = [] then
              reject_login unauthenticated None email ''no_active_tenant'' (Some (u_id u)) now
            else
              bindw (lift_res (pick_tenant active tenant_code)) (\<lambda>chosen.
              bindw (ask_db (require_active_tenant (ms_tenant chosen))) (\<lambda>r. bindw (lift_res r) (\<lambda>tn.
              bindw (ask_db (require_membership (u_id u) (ms_tenant chosen))) (\<lambda>r. bindw (lift_res r) (\<lambda>m.
              bindw (write_db (record_login_success now u)) (\<lambda>_.
              bindw (write_db (log_login (Some (ms_tenant chosen)) email 1 None (Some (u_id u)) now)) (\<lambda>_.
              bindw (write_db (append_action (ms_tenant chosen) ''LOGIN'' ''auth'' (Some (u_id u)) (Some (u_id u)))) (\<lambda>_.
              bindw (create_token_pair E now (u_id u) (Some (tn_id tn)) (Some (m_role m))) (\<lambda>pair.
              bindw (lift_res (to_brief (tn_id tn) (tn_code tn) (m_role m))) (\<lambda>b.
              bindw (lift_res (mapr (\<lambda>x. to_brief (ms_tenant x) (ms_code x) (ms_role x)) active)) (\<lambda>bs.
              give \<lparr>lr_pair = pair, lr_tenant = b, lr_available = bs\<rparr>))))))))))))))"

definition refresh ::
  "('tok, 'r) env \<Rightarrow> int \<Rightarrow> 'tok \<Rightarrow> (('tok, 'r) auth_world, 'tok token_pair) act" where
  "refresh E now token =
     bindw (decode E now token ''refresh'') (\<lambda>p.
     bindw (assert_token_not_revoked E now p) (\<lambda>_.
     case tp_tid p of
       None \<Rightarrow> fail unauthenticated
     | Some tid \<Rightarrow>
         bindw (ask_db (get_user (tp_sub p))) (\<lambda>found.
         case found of
           None \<Rightarrow> fail unauthenticated
         | Some u \<Rightarrow>
             if u_status u \<noteq> user_active then fail unauthenticated
             else if is_locked now u then fail (AppError ''AccountLockedError'')
             else
               bindw (ask_db (require_membership (u_id u) tid)) (\<lambda>r. bindw (lift_res r) (\<lambda>m.
               bindw (ask_db (require_active_tenant tid)) (\<lambda>r. bindw (lift_res r) (\<lambda>_.
               if (case u_password_changed u of None \<Rightarrow> False | Some t \<Rightarrow> seconds (tp_iat p) < t)
               then fail unauthenticated
               else
                 bindw (revoke_payload E now p) (\<lambda>_.
                 create_token_pair E now (u_id u) (Some tid) (Some (m_role m))))))))))"

section \<open>The identity of a request\<close>

record identity =
  id_user :: sys_user
  id_tenant :: tenant
  id_member :: tenant_user
  id_payload :: token_payload

definition get_identity ::
  "('tok, 'r) env \<Rightarrow> int \<Rightarrow> 'tok option \<Rightarrow> (('tok, 'r) auth_world, identity) act" where
  "get_identity E now credentials =
     (case credentials of
        None \<Rightarrow> fail unauthenticated
      | Some token \<Rightarrow>
          bindw (decode E now token ''access'') (\<lambda>p.
          bindw (assert_token_not_revoked E now p) (\<lambda>_.
          case tp_tid p of
            None \<Rightarrow> fail unauthenticated
          | Some tid \<Rightarrow>
              bindw (ask_db (get_tenant tid)) (\<lambda>found.
              case found of
                None \<Rightarrow> fail unauthenticated
              | Some tn \<Rightarrow>
                  if tn_status tn = tenant_disabled then fail (AppError ''TenantDisabledError'')
                  else bindw (ask_db (get_membership tid (tp_sub p))) (\<lambda>found.
                    case found of
                      None \<Rightarrow> fail unauthenticated
                    | Some m \<Rightarrow>
                        if m_status m \<noteq> member_active then fail unauthenticated
                        else bindw (ask_db (get_user (tp_sub p))) (\<lambda>found.
                          case found of
                            None \<Rightarrow> fail unauthenticated
                          | Some u \<Rightarrow>
                              if u_status u \<noteq> user_active then fail unauthenticated
                              else if is_locked now u then fail (AppError ''AccountLockedError'')
                              else give \<lparr>id_user = u, id_tenant = tn, id_member = m, id_payload = p\<rparr>))))))"

definition has :: "perm list \<Rightarrow> identity \<Rightarrow> bool" where
  "has wanted i = list_ex (\<lambda>p. p \<in> set wanted) (permissions_for_role (m_role (id_member i)))"

definition require_permission ::
  "('tok, 'r) env \<Rightarrow> int \<Rightarrow> 'tok option \<Rightarrow> perm list \<Rightarrow> (('tok, 'r) auth_world, identity) act" where
  "require_permission E now credentials wanted =
     bindw (get_identity E now credentials) (\<lambda>i.
     if \<not> has wanted i then fail (AppError ''PermissionDeniedError'') else give i)"

definition consume_confirmation_token ::
  "('tok, 'r) env \<Rightarrow> int \<Rightarrow> 'tok \<Rightarrow> string \<Rightarrow> int \<Rightarrow> int \<Rightarrow> (('tok, 'r) auth_world, unit) act" where
  "consume_confirmation_token E now token action user tid =
     (case decode_purpose_token (lib E) (conf E) now token ''confirmation'' of
        Inl e \<Rightarrow>
          fail (if e = AppError ''TokenExpiredError'' \<or> e = unauthenticated then AppError ''CONFIRMATION_INVALID'' else e)
      | Inr p \<Rightarrow>
          if pp_sub p \<noteq> user \<or> pp_tid p \<noteq> Some tid \<or> pp_action p \<noteq> Some action
          then fail (AppError ''CONFIRMATION_INVALID'')
          else bindw (ask_revoked E now (pp_jti p)) (\<lambda>used.
            if used then fail (AppError ''CONFIRMATION_INVALID'')
            else revoke_jti E now (pp_jti p) (pp_exp p)))"

definition require_confirmation ::
  "('tok, 'r) env \<Rightarrow> int \<Rightarrow> identity \<Rightarrow> string \<Rightarrow> 'tok option \<Rightarrow> (('tok, 'r) auth_world, unit) act" where
  "require_confirmation E now i action confirmation =
     (case confirmation of
        None \<Rightarrow> fail (AppError ''CONFIRMATION_REQUIRED'')
      | Some token \<Rightarrow> consume_confirmation_token E now token action (u_id (id_user i)) (tn_id (id_tenant i)))"

definition logout ::
  "('tok, 'r) env \<Rightarrow> int \<Rightarrow> identity \<Rightarrow> 'tok option \<Rightarrow> (('tok, 'r) auth_world, unit) act" where
  "logout E now i token =
     bindw (revoke_payload E now (id_payload i)) (\<lambda>_.
     bindw (case token of
              None \<Rightarrow> give ()
            | Some t \<Rightarrow>
                suppressing unauthenticated (bindw (decode E now t ''refresh'') (\<lambda>p.
                bindw (assert_token_not_revoked E now p) (\<lambda>_. revoke_payload E now p)))) (\<lambda>_.
     write_db (append_action (tn_id (id_tenant i)) ''LOGOUT'' ''auth'' (Some (u_id (id_user i))) (Some (u_id (id_user i))))))"

definition confirm_password ::
  "('tok, 'r) env \<Rightarrow> int \<Rightarrow> identity \<Rightarrow> string \<Rightarrow> string \<Rightarrow> (('tok, 'r) auth_world, 'tok \<times> int) act" where
  "confirm_password E now i password action =
     (if \<not> verify_password (lib E) password (u_hash (id_user i)) then fail unauthenticated
      else bindw (create_purpose_token E now (u_id (id_user i)) ''confirmation'' (Some (tn_id (id_tenant i)))
             (Some action) None (minutes (confirmation_ttl_minutes (conf E)))) (\<lambda>t.
           give (t, confirmation_ttl_minutes (conf E) * 60)))"

end
