(* ===== verification/Members.thy ===== *)
theory Members imports Access begin

text \<open>
  Registration, invitations and members, and the requests of \<^verbatim>\<open>app/api/v1/auth.py\<close> and
  \<^verbatim>\<open>members.py\<close> with the request schemas that guard them.  \<open>serve\<close> runs one request in its session;
  \<open>auth_step\<close> is a history of requests: time does not run backwards, other processes may have
  changed Redis in between, and a token that reads at all was signed here (\<open>unforged\<close>).
\<close>

section \<open>Registration\<close>

record registration =
  rg_email :: string
  rg_password :: string
  rg_name :: "string option"
  rg_code :: string
  rg_tenant :: string
  rg_currency :: string
  rg_timezone :: string

text \<open>The SQL function behind \<open>TenantRepository.register\<close>: three inserts, the unique columns first.\<close>

definition app_register_tenant ::
  "int \<Rightarrow> int \<Rightarrow> int \<Rightarrow> string \<Rightarrow> string \<Rightarrow> registration \<Rightarrow> int \<Rightarrow> accounts \<Rightarrow> (string \<times> string) + accounts" where
  "app_register_tenant tid uid mid email hash rg now db =
     (if list_ex (\<lambda>t. tn_code t = rg_code rg) (tenants db) then Inl (''code'', rg_code rg)
      else if list_ex (\<lambda>u. u_email u = lower email) (users db) then Inl (''email'', lower email)
      else Inr (db\<lparr>
        tenants := tenants db @ [\<lparr>tn_id = tid, tn_code = rg_code rg, tn_name = rg_tenant rg, tn_status = 1,
          tn_currency = rg_currency rg, tn_timezone = rg_timezone rg\<rparr>],
        users := users db @ [\<lparr>u_id = uid, u_email = lower email, u_hash = hash, u_name = rg_name rg,
          u_status = user_active, u_verified = None, u_last_login = None, u_failures = 0, u_locked = None,
          u_password_changed = None\<rparr>],
        members := members db @ [\<lparr>m_id = mid, m_tenant = tid, m_user = uid, m_role = ''OWNER'',
          m_status = member_active, m_joined = Some now, m_deleted = None\<rparr>]\<rparr>))"

definition contains :: "string \<Rightarrow> string \<Rightarrow> bool" where
  "contains hay needle = list_ex (\<lambda>n. starts_with (drop n hay) needle) [0..<length hay + 1]"

definition register_error :: "'tok library \<Rightarrow> string \<times> string \<Rightarrow> py_error" where
  "register_error l violation =
     (let detail = lower (unique_detail l (fst violation) (snd violation)) in
      if contains detail ''email'' then AppError ''EMAIL_ALREADY_REGISTERED''
      else if contains detail ''tenant'' \<or> contains detail ''code'' then AppError ''TENANT_CODE_TAKEN''
      else IntegrityError)"

definition bootstrap_tenant :: "int \<Rightarrow> int \<Rightarrow> accounts \<Rightarrow> accounts" where
  "bootstrap_tenant tid mid db =
     db\<lparr>role_rows := role_rows db @
          map (\<lambda>r. \<lparr>rl_tenant = tid, rl_code = role_value r, rl_system = True,
                    rl_permissions = permission_codes_for_role (role_value r)\<rparr>) all_roles,
        scopes := scopes db @ [\<lparr>ds_tenant = tid, ds_member = mid, ds_resource = 1, ds_type = 1, ds_shops = []\<rparr>]\<rparr>"

definition deliver_verification ::
  "('tok, 'r) env \<Rightarrow> int \<Rightarrow> int \<Rightarrow> int \<Rightarrow> string \<Rightarrow> (('tok, 'r) auth_world, unit) act" where
  "deliver_verification E now uid tid email =
     bindw (create_purpose_token E now uid ''email_verify'' (Some tid) None (Some email)
       (hours (email_verification_ttl_hours (conf E)))) (\<lambda>t.
     deliver_link ''email_verification'' email t)"

definition register ::
  "('tok, 'r) env \<Rightarrow> int \<Rightarrow> registration \<Rightarrow> (('tok, 'r) auth_world, int) act" where
  "register E now rg =
     (case password_strength_error (rg_password rg) of
        Some _ \<Rightarrow> fail (AppError ''ParamInvalidError'')
      | None \<Rightarrow>
          bindw draw_id (\<lambda>tid. bindw draw_id (\<lambda>uid. bindw draw_id (\<lambda>mid.
          let email = strip (lower (rg_email rg)) in
          bindw draw_random (\<lambda>d.
          bindw (lift_res (hash_password (lib E) d (rg_password rg))) (\<lambda>hash.
          bindw (ask_db (app_register_tenant tid uid mid email hash rg now)) (\<lambda>r.
          case r of
            Inl violation \<Rightarrow> fail (register_error (lib E) violation)
          | Inr db \<Rightarrow>
              bindw (write_db (\<lambda>_. db)) (\<lambda>_.
              bindw (write_db (bootstrap_tenant tid mid)) (\<lambda>_.
              bindw (write_db (append_action tid ''TENANT_REGISTER'' ''tenant'' (Some uid) (Some tid))) (\<lambda>_.
              bindw commit (\<lambda>_.
              bindw (deliver_verification E now uid tid email) (\<lambda>_. give tid))))))))))))"

definition verify_email :: "('tok, 'r) env \<Rightarrow> int \<Rightarrow> 'tok \<Rightarrow> (('tok, 'r) auth_world, unit) act" where
  "verify_email E now token =
     (case decode_purpose_token (lib E) (conf E) now token ''email_verify'' of
        Inl e \<Rightarrow>
          fail (if e = AppError ''TokenExpiredError'' then AppError ''VERIFICATION_EXPIRED''
                else if e = unauthenticated then AppError ''ParamInvalidError'' else e)
      | Inr p \<Rightarrow>
          if pp_tid p = None \<or> pp_email p = None \<or> pp_email p = Some [] then fail (AppError ''ParamInvalidError'')
          else bindw (ask_db (get_user (pp_sub p))) (\<lambda>found.
            case found of
              None \<Rightarrow> fail (AppError ''ParamInvalidError'')
            | Some u \<Rightarrow>
                if lower (u_email u) \<noteq> lower (the (pp_email p)) then fail (AppError ''ParamInvalidError'')
                else write_db (mark_email_verified now u)))"

definition resend_verification :: "('tok, 'r) env \<Rightarrow> int \<Rightarrow> string \<Rightarrow> (('tok, 'r) auth_world, unit) act" where
  "resend_verification E now email =
     bindw (ask_db (get_by_email email)) (\<lambda>found.
     case found of
       None \<Rightarrow> give ()
     | Some u \<Rightarrow>
         if u_verified u \<noteq> None then give ()
         else bindw (ask_db (list_user_tenants (u_id u))) (\<lambda>ms.
           case ms of [] \<Rightarrow> give ()
           | m # _ \<Rightarrow> deliver_verification E now (u_id u) (ms_tenant m) (u_email u)))"

section \<open>Invitations\<close>

definition system_role :: "int \<Rightarrow> string \<Rightarrow> accounts \<Rightarrow> bool" where
  "system_role tid code db = (case get_role_row tid code db of None \<Rightarrow> False | Some r \<Rightarrow> rl_system r)"

definition invite ::
  "('tok, 'r) env \<Rightarrow> int \<Rightarrow> identity \<Rightarrow> string \<Rightarrow> role \<Rightarrow> (('tok, 'r) auth_world, int) act" where
  "invite E now i address role =
     (let tid = tn_id (id_tenant i); actor = u_id (id_user i) in
      bindw (ask_db (system_role tid (role_value role))) (\<lambda>known.
      if \<not> known then fail (AppError ''ParamInvalidError'')
      else
        let email = strip (lower address); ttl = hours (member_invitation_ttl_hours (conf E)) in
        bindw (write_db (revoke_pending_for_email tid now email)) (\<lambda>_.
        bindw draw_id (\<lambda>ident.
        bindw (create_purpose_token E now ident ''member_invite'' (Some tid) None (Some email) ttl) (\<lambda>token.
        bindw (ask_db (add_invitation \<lparr>i_id = ident, i_tenant = tid, i_email = email, i_role = role_value role,
          i_hash = sha256_hex (lib E) token, i_expires = now + ttl, i_status = invitation_pending,
          i_by = actor, i_accepted = None\<rparr>)) (\<lambda>r.
        bindw (lift_res r) (\<lambda>db.
        bindw (write_db (\<lambda>_. db)) (\<lambda>_.
        bindw (write_db (append_action tid ''MEMBER_INVITE'' ''member'' (Some actor) (Some ident))) (\<lambda>_.
        bindw commit (\<lambda>_.
        bindw (deliver_link ''member_invitation'' email token) (\<lambda>_. give ident)))))))))))"

definition revoke_invitation :: "int \<Rightarrow> identity \<Rightarrow> int \<Rightarrow> (('tok, 'r) auth_world, unit) act" where
  "revoke_invitation now i ident =
     (let tid = tn_id (id_tenant i); actor = u_id (id_user i) in
      bindw (ask_db (get_invitation tid ident)) (\<lambda>found.
      case found of
        None \<Rightarrow> fail (AppError ''NotFoundError'')
      | Some row \<Rightarrow>
          if i_status row \<noteq> invitation_pending then fail (AppError ''ConflictError'')
          else bindw (write_db (set_invitation_status now invitation_revoked row)) (\<lambda>_.
            write_db (append_action tid ''MEMBER_REMOVE'' ''member_invitation'' (Some actor) (Some ident)))))"

text \<open>The user an invitation is accepted by: found by its address, or made.\<close>

definition invited_user ::
  "('tok, 'r) env \<Rightarrow> int \<Rightarrow> string \<Rightarrow> string \<Rightarrow> string option \<Rightarrow> (('tok, 'r) auth_world, sys_user) act" where
  "invited_user E now email password display =
     bindw (ask_db (get_by_email email)) (\<lambda>found.
     case found of
       None \<Rightarrow>
         (case password_strength_error password of
            Some _ \<Rightarrow> fail (AppError ''ParamInvalidError'')
          | None \<Rightarrow>
              bindw draw_random (\<lambda>d.
              bindw (lift_res (hash_password (lib E) d password)) (\<lambda>hash.
              bindw draw_id (\<lambda>uid.
              let u = \<lparr>u_id = uid, u_email = email, u_hash = hash, u_name = display, u_status = user_active,
                       u_verified = Some now, u_last_login = None, u_failures = 0, u_locked = None,
                       u_password_changed = None\<rparr> in
              bindw (ask_db (add_user u)) (\<lambda>r.
              bindw (lift_res r) (\<lambda>db.
              bindw (write_db (\<lambda>_. db)) (\<lambda>_. give u)))))))
     | Some u \<Rightarrow>
         if \<not> verify_password (lib E) password (u_hash u) then fail (AppError ''INVITATION_INVALID'')
         else bindw (write_db (mark_email_verified now u)) (\<lambda>_. give u))"

definition accept ::
  "('tok, 'r) env \<Rightarrow> int \<Rightarrow> 'tok \<Rightarrow> string \<Rightarrow> string option \<Rightarrow> (('tok, 'r) auth_world, int \<times> int) act" where
  "accept E now token password display =
     (case decode_purpose_token (lib E) (conf E) now token ''member_invite'' of
        Inl e \<Rightarrow>
          fail (if e = AppError ''TokenExpiredError'' then AppError ''INVITATION_EXPIRED''
                else if e = unauthenticated then AppError ''INVITATION_INVALID'' else e)
      | Inr p \<Rightarrow>
          (case (pp_tid p, pp_email p) of
             (Some tid, Some (c # cs)) \<Rightarrow>
               bindw (ask_db (get_pending_by_hash tid now (sha256_hex (lib E) token))) (\<lambda>found.
               case found of
                 None \<Rightarrow> fail (AppError ''INVITATION_INVALID'')
               | Some row \<Rightarrow>
                   if i_id row \<noteq> pp_sub p then fail (AppError ''INVITATION_INVALID'')
                   else
                     bindw (invited_user E now (c # cs) password display) (\<lambda>u.
                     bindw (ask_db (get_membership tid (u_id u))) (\<lambda>already.
                     if already \<noteq> None then fail (AppError ''ConflictError'')
                     else
                       bindw draw_id (\<lambda>mid.
                       bindw (ask_db (add_member \<lparr>m_id = mid, m_tenant = tid, m_user = u_id u, m_role = i_role row,
                         m_status = member_active, m_joined = Some now, m_deleted = None\<rparr>)) (\<lambda>r.
                       bindw (lift_res r) (\<lambda>db.
                       bindw (write_db (\<lambda>_. db)) (\<lambda>_.
                       bindw (write_db (upsert_scope
                         \<lparr>ds_tenant = tid, ds_member = mid, ds_resource = 1, ds_type = 1, ds_shops = []\<rparr>)) (\<lambda>_.
                       bindw (write_db (set_invitation_status now invitation_accepted row)) (\<lambda>_.
                       bindw (write_db (append_action tid ''MEMBER_ACCEPT'' ''member'' (Some (u_id u)) (Some mid))) (\<lambda>_.
                       give (tid, mid))))))))))) 
           | _ \<Rightarrow> fail (AppError ''INVITATION_INVALID'')))"

section \<open>Members\<close>

definition protect_last_admin :: "int \<Rightarrow> accounts \<Rightarrow> unit res" where
  "protect_last_admin tid db =
     (if count_active_admins tid db \<le> 1 then Inl (AppError ''LAST_ADMIN_PROTECTED'') else Inr ())"

definition guard_admin :: "int \<Rightarrow> bool \<Rightarrow> (('tok, 'r) auth_world, unit) act" where
  "guard_admin tid needed =
     (if needed then bindw (ask_db (protect_last_admin tid)) lift_res else give ())"

record member_view =
  mv_id :: int
  mv_user :: int
  mv_email :: string
  mv_name :: "string option"
  mv_role :: role
  mv_status :: int
  mv_joined :: "int option"
  mv_scopes :: "data_scope list"

text \<open>The answer to a change: the account of the member must still be there, and its role be one of the known ones.\<close>

definition member_response :: "tenant_user \<Rightarrow> (('tok, 'r) auth_world, member_view) act" where
  "member_response m =
     bindw (ask_db (get_user (m_user m))) (\<lambda>found.
     case found of
       None \<Rightarrow> fail (AppError ''NotFoundError'')
     | Some u \<Rightarrow>
         (case role_of (m_role m) of
            None \<Rightarrow> fail ValueError
          | Some r \<Rightarrow>
              bindw (ask_db (scopes_of (m_tenant m) (m_id m))) (\<lambda>scopes.
              give \<lparr>mv_id = m_id m, mv_user = u_id u, mv_email = u_email u, mv_name = u_name u, mv_role = r,
                mv_status = m_status m, mv_joined = m_joined m, mv_scopes = scopes\<rparr>)))"

definition change_role ::
  "identity \<Rightarrow> int \<Rightarrow> role \<Rightarrow> (('tok, 'r) auth_world, member_view) act" where
  "change_role i ident role =
     (let tid = tn_id (id_tenant i); actor = u_id (id_user i) in
      bindw (ask_db (get_member tid ident)) (\<lambda>found.
      case found of
        None \<Rightarrow> fail (AppError ''NotFoundError'')
      | Some m \<Rightarrow>
          if m_role m = ''OWNER'' then fail (AppError ''LAST_ADMIN_PROTECTED'')
          else bindw (guard_admin tid (m_role m = ''ADMIN'' \<and> role \<noteq> R_ADMIN)) (\<lambda>_.
            bindw (ask_db (system_role tid (role_value role))) (\<lambda>known.
            if \<not> known then fail (AppError ''ParamInvalidError'')
            else bindw (write_db (put_member (m\<lparr>m_role := role_value role\<rparr>))) (\<lambda>_.
              bindw (write_db (append_action tid ''MEMBER_ROLE_CHANGE'' ''member'' (Some actor) (Some ident))) (\<lambda>_.
              member_response (m\<lparr>m_role := role_value role\<rparr>)))))))"

definition update_scope ::
  "identity \<Rightarrow> int \<Rightarrow> int \<Rightarrow> int \<Rightarrow> int list \<Rightarrow> (('tok, 'r) auth_world, member_view) act" where
  "update_scope i ident resource scope_type shop_ids =
     (let tid = tn_id (id_tenant i); actor = u_id (id_user i) in
      bindw (ask_db (get_member tid ident)) (\<lambda>found.
      case found of
        None \<Rightarrow> fail (AppError ''NotFoundError'')
      | Some m \<Rightarrow>
          if scope_type = 2 \<and> shop_ids = [] then fail (AppError ''ParamInvalidError'')
          else
            let shops = (if scope_type \<noteq> 2 then [] else shop_ids) in
            bindw (write_db (upsert_scope \<lparr>ds_tenant = tid, ds_member = m_id m, ds_resource = resource,
              ds_type = scope_type, ds_shops = shops\<rparr>)) (\<lambda>_.
            bindw (write_db (append_action tid ''MEMBER_SCOPE_CHANGE'' ''member'' (Some actor) (Some ident))) (\<lambda>_.
            member_response m))))"

definition remove_member :: "int \<Rightarrow> identity \<Rightarrow> int \<Rightarrow> (('tok, 'r) auth_world, unit) act" where
  "remove_member now i ident =
     (let tid = tn_id (id_tenant i); actor = u_id (id_user i) in
      bindw (ask_db (get_member tid ident)) (\<lambda>found.
      case found of
        None \<Rightarrow> fail (AppError ''NotFoundError'')
      | Some m \<Rightarrow>
          if m_role m = ''OWNER'' then fail (AppError ''LAST_ADMIN_PROTECTED'')
          else bindw (guard_admin tid (m_role m = ''ADMIN'')) (\<lambda>_.
            bindw (write_db (put_member (m\<lparr>m_deleted := Some now\<rparr>))) (\<lambda>_.
            write_db (append_action tid ''MEMBER_REMOVE'' ''member'' (Some actor) (Some ident))))))"

section \<open>Requests\<close>

datatype 'tok request =
    Login string string "string option"
  | Refresh 'tok
  | Logout "'tok option" "'tok option"
  | Me "'tok option"
  | Confirm "'tok option" string string
  | Register registration
  | Verify 'tok
  | Resend string
  | Invite "'tok option" string role
  | Accept 'tok string "string option"
  | Revoke_invite "'tok option" int
  | Set_role "'tok option" int role
  | Set_scope "'tok option" int int int "int list"
  | Remove "'tok option" int "'tok option"

record me =
  me_user :: int
  me_tenant :: int
  me_role :: role
  me_permissions :: "string list"
  me_cost :: bool
  me_scopes :: "data_scope list"

datatype 'tok response =
    Signed_in "'tok login_response"
  | Renewed "'tok token_pair"
  | Context me
  | Confirmed 'tok int
  | Made int
  | Joined int int
  | Done

definition build_tenant_context :: "identity \<Rightarrow> accounts \<Rightarrow> me res" where
  "build_tenant_context i db =
     (case role_of (m_role (id_member i)) of
        None \<Rightarrow> Inl ValueError
      | Some r \<Rightarrow> Inr
          \<lparr>me_user = u_id (id_user i), me_tenant = tn_id (id_tenant i), me_role = r,
           me_permissions = permission_codes_for_role (m_role (id_member i)),
           me_cost = role_can_view_cost (m_role (id_member i)),
           me_scopes = scopes_of (tn_id (id_tenant i)) (m_id (id_member i)) db\<rparr>)"

definition code_char :: "char \<Rightarrow> bool" where
  "code_char c = (is_lower c \<or> is_digit c \<or> c = CHR ''-'')"

definition registration_valid :: "registration \<Rightarrow> bool" where
  "registration_valid rg =
     (10 \<le> length (rg_password rg) \<and> length (rg_password rg) \<le> 128 \<and>
      3 \<le> length (rg_code rg) \<and> length (rg_code rg) \<le> 64 \<and> list_all code_char (rg_code rg) \<and> hd (rg_code rg) \<noteq> CHR ''-'' \<and>
      1 \<le> length (rg_tenant rg) \<and> length (rg_tenant rg) \<le> 128 \<and>
      (case rg_name rg of None \<Rightarrow> True | Some n \<Rightarrow> length n \<le> 64) \<and>
      length (rg_currency rg) = 3 \<and> 1 \<le> length (rg_timezone rg) \<and> length (rg_timezone rg) \<le> 64)"

definition scope_valid :: "int \<Rightarrow> int \<Rightarrow> int list \<Rightarrow> bool" where
  "scope_valid resource scope_type shop_ids =
     (1 \<le> resource \<and> resource \<le> 3 \<and> 1 \<le> scope_type \<and> scope_type \<le> 3 \<and> length shop_ids \<le> 500 \<and>
      list_all (\<lambda>i. 0 < i) shop_ids)"

text \<open>Pydantic's refusal is a 422 of its own.\<close>

definition valid :: "bool \<Rightarrow> ('w, 'a) act \<Rightarrow> ('w, 'a) act" where
  "valid ok m = (if ok then m else fail (AppError ''RequestValidationError''))"

definition respond :: "('a \<Rightarrow> 'b) \<Rightarrow> ('w, 'a) act \<Rightarrow> ('w, 'b) act" where
  "respond f m = bindw m (\<lambda>x. give (f x))"

definition password_valid :: "string \<Rightarrow> bool" where
  "password_valid p = (1 \<le> length p \<and> length p \<le> 128)"

abbreviation member_writer ::
  "('tok, 'r) env \<Rightarrow> int \<Rightarrow> 'tok option \<Rightarrow> (('tok, 'r) auth_world, identity) act" where
  "member_writer E now bearer \<equiv> require_permission E now bearer [P_MEMBER_WRITE]"

fun handle_auth :: "('tok, 'r) env \<Rightarrow> int \<Rightarrow> 'tok request \<Rightarrow> (('tok, 'r) auth_world, 'tok response) act" where
  "handle_auth E now (Login email password code) =
     valid (password_valid password \<and> (case code of None \<Rightarrow> True | Some c \<Rightarrow> length c \<le> 64))
       (respond Signed_in (login E now email password code))"
| "handle_auth E now (Refresh token) = respond Renewed (refresh E now token)"
| "handle_auth E now (Logout bearer token) =
     bindw (get_identity E now bearer) (\<lambda>i. respond (\<lambda>_. Done) (logout E now i token))"
| "handle_auth E now (Me bearer) =
     bindw (get_identity E now bearer) (\<lambda>i.
     bindw (ask_db (build_tenant_context i)) (\<lambda>r. respond Context (lift_res r)))"
| "handle_auth E now (Confirm bearer password action) =
     bindw (get_identity E now bearer) (\<lambda>i.
     valid (password_valid password \<and> 1 \<le> length action \<and> length action \<le> 64)
       (respond (\<lambda>(t, n). Confirmed t n) (confirm_password E now i password action)))"
| "handle_auth E now (Register rg) =
     valid (registration_valid rg) (respond Made (register E now (rg\<lparr>rg_currency := upper (rg_currency rg)\<rparr>)))"
| "handle_auth E now (Verify token) = respond (\<lambda>_. Done) (verify_email E now token)"
| "handle_auth E now (Resend email) = respond (\<lambda>_. Done) (resend_verification E now email)"
| "handle_auth E now (Invite bearer email role) =
     bindw (member_writer E now bearer) (\<lambda>i.
     valid (role \<noteq> R_OWNER) (respond Made (invite E now i email role)))"
| "handle_auth E now (Accept token password display) =
     valid (password_valid password \<and> (case display of None \<Rightarrow> True | Some n \<Rightarrow> length n \<le> 64))
       (respond (\<lambda>(t, m). Joined t m) (accept E now token password display))"
| "handle_auth E now (Revoke_invite bearer ident) =
     bindw (member_writer E now bearer) (\<lambda>i. respond (\<lambda>_. Done) (revoke_invitation now i ident))"
| "handle_auth E now (Set_role bearer ident role) =
     bindw (member_writer E now bearer) (\<lambda>i.
     valid (role \<noteq> R_OWNER) (respond (\<lambda>_. Done) (change_role i ident role)))"
| "handle_auth E now (Set_scope bearer ident resource scope_type shop_ids) =
     bindw (member_writer E now bearer) (\<lambda>i.
     valid (scope_valid resource scope_type shop_ids)
       (respond (\<lambda>_. Done) (update_scope i ident resource scope_type (uniq shop_ids))))"
| "handle_auth E now (Remove bearer ident confirmation) =
     bindw (member_writer E now bearer) (\<lambda>i.
     bindw (require_confirmation E now i ''member.remove'' confirmation) (\<lambda>_.
     respond (\<lambda>_. Done) (remove_member now i ident)))"

text \<open>\<open>get_db\<close>: commit when the handler returns, roll back to what is committed when it raises.\<close>

definition serve_auth ::
  "('tok, 'r) env \<Rightarrow> int \<Rightarrow> 'tok request \<Rightarrow> ('tok, 'r) auth_world \<Rightarrow> ('tok, 'r) auth_world \<times> 'tok response res" where
  "serve_auth E now rq w =
     (case handle_auth E now rq w of
        (w', Inl e) \<Rightarrow> (w'\<lparr>aw_db := aw_saved w'\<rparr>, Inl e)
      | (w', Inr x) \<Rightarrow> (w'\<lparr>aw_saved := aw_db w'\<rparr>, Inr x))"

fun tokens_of :: "'tok request \<Rightarrow> 'tok list" where
  "tokens_of (Refresh t) = [t]"
| "tokens_of (Logout b t) = case_option [] (\<lambda>x. [x]) b @ case_option [] (\<lambda>x. [x]) t"
| "tokens_of (Me b) = case_option [] (\<lambda>x. [x]) b"
| "tokens_of (Confirm b _ _) = case_option [] (\<lambda>x. [x]) b"
| "tokens_of (Verify t) = [t]"
| "tokens_of (Invite b _ _) = case_option [] (\<lambda>x. [x]) b"
| "tokens_of (Accept t _ _) = [t]"
| "tokens_of (Revoke_invite b _) = case_option [] (\<lambda>x. [x]) b"
| "tokens_of (Set_role b _ _) = case_option [] (\<lambda>x. [x]) b"
| "tokens_of (Set_scope b _ _ _ _) = case_option [] (\<lambda>x. [x]) b"
| "tokens_of (Remove b _ t) = case_option [] (\<lambda>x. [x]) b @ case_option [] (\<lambda>x. [x]) t"
| "tokens_of _ = []"

definition unforged :: "('tok, 'r) env \<Rightarrow> int \<Rightarrow> 'tok request \<Rightarrow> ('tok, 'r) auth_world \<Rightarrow> bool" where
  "unforged E now rq w =
     list_all (\<lambda>t. case jwt_decode (lib E) now t (jwt_secret (conf E)) of
         Inl _ \<Rightarrow> True | Inr raw \<Rightarrow> raw \<in> set (aw_issued w)) (tokens_of rq)"

record ('tok, 'r) auth_event =
  ev_now :: int
  ev_redis :: 'r
  ev_request :: "'tok request"

record ('tok, 'r) auth_history =
  ah_now :: int
  ah_world :: "('tok, 'r) auth_world"
  ah_served :: "('tok request \<times> 'tok response res) list"

definition auth_step ::
  "('tok, 'r) env \<Rightarrow> ('tok, 'r) auth_history \<Rightarrow> ('tok, 'r) auth_event \<Rightarrow> ('tok, 'r) auth_history option" where
  "auth_step E h ev =
     (let w = (ah_world h)\<lparr>aw_list := (aw_list (ah_world h))\<lparr>bl_redis := ev_redis ev\<rparr>\<rparr> in
      if ev_now ev < ah_now h \<or> \<not> unforged E (ev_now ev) (ev_request ev) w then None
      else (case serve_auth E (ev_now ev) (ev_request ev) w of
              (w, r) \<Rightarrow> Some \<lparr>ah_now = ev_now ev, ah_world = w, ah_served = ah_served h @ [(ev_request ev, r)]\<rparr>))"

definition no_accounts :: accounts where
  "no_accounts = \<lparr>tenants = [], users = [], members = [], invites = [], scopes = [], role_rows = [],
     login_log = [], audit_log = []\<rparr>"

text \<open>A process that starts: nothing signed, nothing revoked, and a database.\<close>

definition booted :: "'r \<Rightarrow> int \<Rightarrow> accounts \<Rightarrow> ('tok, 'r) auth_history" where
  "booted r next_key db =
     \<lparr>ah_now = 0,
      ah_world = \<lparr>aw_db = db, aw_saved = db,
        aw_list = \<lparr>bl_memory = (\<lambda>_. None), bl_disabled = False, bl_connected = False, bl_redis = r\<rparr>,
        aw_outbox = [], aw_draws = 0, aw_ids = next_key, aw_issued = []\<rparr>,
      ah_served = []\<rparr>"

end
