(* ===== verification/AccessLaws.thy ===== *)
theory AccessLaws imports Members Machines begin

text \<open>
  How the handlers compose: what an action leaves alone, what its results satisfy, and the contract
  of a revocation list with what it means for signed tokens (\<open>safe\<close>): whatever is served, a token
  once spent stays spent for as long as it could still be read.
\<close>

section \<open>Actions\<close>

lemma world_simps [acts]:
  "ask_db f w = (w, Inr (f (aw_db w)))" "write_db g w = (w\<lparr>aw_db := g (aw_db w)\<rparr>, Inr ())"
  "commit w = (w\<lparr>aw_saved := aw_db w\<rparr>, Inr ())"
  "draw_id w = (w\<lparr>aw_ids := aw_ids w + 1\<rparr>, Inr (aw_ids w))"
  by (simp_all add: ask_db_def write_db_def commit_def draw_id_def)

lemma bindw_simps [acts]:
  "bindw (ask_db h) g v = g (h (aw_db v)) v"
  "bindw (write_db k) g' v = g' () (v\<lparr>aw_db := k (aw_db v)\<rparr>)"
  "bindw commit g' v = g' () (v\<lparr>aw_saved := aw_db v\<rparr>)"
  "bindw draw_id i v = i (aw_ids v) (v\<lparr>aw_ids := aw_ids v + 1\<rparr>)"
  by (simp_all add: bindw_def acts)

lemma leaves_ask [leaving]: "leaves part (ask_db f)"
  by (simp add: leaves_def acts)

lemma leaves_tokens [leaving]:
  "leaves aw_db (create_token E now user typ tid role ttl)"
  "leaves aw_saved (create_token E now user typ tid role ttl)"
  "leaves aw_ids (create_token E now user typ tid role ttl)"
  "leaves aw_list (create_token E now user typ tid role ttl)"
  "leaves aw_db (create_purpose_token E now user purpose tid action email ttl)"
  "leaves aw_saved (create_purpose_token E now user purpose tid action email ttl)"
  "leaves aw_ids (create_purpose_token E now user purpose tid action email ttl)"
  "leaves aw_list (create_purpose_token E now user purpose tid action email ttl)"
  by (auto simp: leaves_def create_token_def create_purpose_token_def bindw_def draw_random_def sign_def)

lemma leaves_list [leaving]:
  "leaves aw_db (revoke_jti E now jti n)" "leaves aw_saved (revoke_jti E now jti n)"
  "leaves aw_ids (revoke_jti E now jti n)" "leaves aw_issued (revoke_jti E now jti n)"
  "leaves aw_draws (revoke_jti E now jti n)"
  "leaves aw_db (ask_revoked E now jti)" "leaves aw_saved (ask_revoked E now jti)"
  "leaves aw_ids (ask_revoked E now jti)" "leaves aw_issued (ask_revoked E now jti)"
  "leaves aw_draws (ask_revoked E now jti)"
  by (auto simp: leaves_def revoke_jti_def ask_revoked_def split: prod.splits)

lemma leaves_db [leaving]:
  "leaves aw_list (write_db g)" "leaves aw_issued (write_db g)" "leaves aw_draws (write_db g)"
  "leaves aw_saved (write_db g)" "leaves aw_ids (write_db g)"
  "leaves aw_list commit" "leaves aw_issued commit" "leaves aw_draws commit" "leaves aw_db commit" "leaves aw_ids commit"
  "leaves aw_list draw_id" "leaves aw_issued draw_id" "leaves aw_draws draw_id" "leaves aw_db draw_id" "leaves aw_saved draw_id"
  by (simp_all add: leaves_def acts)

lemma leaves_others [leaving]:
  "leaves aw_db (deliver_link k s t)" "leaves aw_saved (deliver_link k s t)" "leaves aw_ids (deliver_link k s t)"
  "leaves aw_list (deliver_link k s t)" "leaves aw_issued (deliver_link k s t)" "leaves aw_draws (deliver_link k s t)"
  "leaves aw_db draw_random" "leaves aw_saved draw_random" "leaves aw_ids draw_random" "leaves aw_list draw_random"
  "leaves aw_issued draw_random"
  by (simp_all add: leaves_def deliver_link_def draw_random_def)

section \<open>The contract of a revocation list\<close>

text \<open>
  \<open>bars t j s\<close>: until time \<open>t\<close>, the list answers that \<open>j\<close> is revoked.
\<close>

locale revocation_list =
  fixes put :: "int \<Rightarrow> string \<Rightarrow> int \<Rightarrow> 's \<Rightarrow> 's"
    and ask :: "int \<Rightarrow> string \<Rightarrow> 's \<Rightarrow> 's \<times> bool"
    and bars :: "int \<Rightarrow> string \<Rightarrow> 's \<Rightarrow> bool"
  assumes put_bars: "j \<noteq> [] \<Longrightarrow> t \<le> now + seconds (max 1 ttl) \<Longrightarrow> bars t j (put now j ttl s)"
    and put_keeps: "bars t j s \<Longrightarrow> (j' = j \<Longrightarrow> t \<le> now + seconds (max 1 ttl)) \<Longrightarrow> bars t j (put now j' ttl s)"
    and ask_keeps: "bars t j s \<Longrightarrow> now < t \<Longrightarrow> bars t j (fst (ask now j' s))"
    and ask_yes: "bars t j s \<Longrightarrow> now < t \<Longrightarrow> snd (ask now j s)"
begin

text \<open>Whatever is asked and revoked meanwhile, a revoked id is refused until its time.\<close>

fun list_run :: "(int \<times> string \<times> int option) list \<Rightarrow> 's \<Rightarrow> 's" where
  "list_run [] s = s"
| "list_run ((now, j, None) # ops) s = list_run ops (fst (ask now j s))"
| "list_run ((now, j, Some ttl) # ops) s = list_run ops (put now j ttl s)"

lemma run_bars:
  assumes "bars t j s"
    and "\<forall>(now, j', op)\<in>set ops. now < t \<and> (\<forall>ttl. op = Some ttl \<longrightarrow> j' = j \<longrightarrow> t \<le> now + seconds (max 1 ttl))"
  shows "bars t j (list_run ops s)"
  using assms
proof (induction ops s rule: list_run.induct)
  case (2 now j' ops s)
  then show ?case by (auto intro: ask_keeps)
next
  case (3 now j' ttl ops s)
  then show ?case by (auto intro: put_keeps)
qed simp

lemma run_refused:
  assumes "j \<noteq> []" and "t \<le> now + seconds (max 1 ttl)" and "later < t"
    and "\<forall>(now, j', op)\<in>set ops. now < t \<and> (\<forall>ttl. op = Some ttl \<longrightarrow> j' = j \<longrightarrow> t \<le> now + seconds (max 1 ttl))"
  shows "snd (ask later j (list_run ops (put now j ttl s)))"
  by (rule ask_yes [OF run_bars [OF put_bars [OF assms(1,2)] assms(4)] assms(3)])

end

definition listed_until :: "int \<Rightarrow> string \<Rightarrow> revoked \<Rightarrow> bool" where
  "listed_until t j m \<longleftrightarrow> (\<exists>e. m j = Some e \<and> t \<le> e)"

lemma memory_put: "j \<noteq> [] \<Longrightarrow> t \<le> now + seconds (max 1 ttl) \<Longrightarrow> listed_until t j (memory_revoke now j ttl m)"
  by (simp add: listed_until_def memory_revoke_def)

lemma memory_put_keeps:
  "listed_until t j m \<Longrightarrow> (j' = j \<Longrightarrow> t \<le> now + seconds (max 1 ttl)) \<Longrightarrow> listed_until t j (memory_revoke now j' ttl m)"
  by (auto simp: listed_until_def memory_revoke_def)

lemma memory_ask_keeps: "listed_until t j m \<Longrightarrow> now < t \<Longrightarrow> listed_until t j (fst (memory_is_revoked now j' m))"
  by (auto simp: listed_until_def memory_is_revoked_def split: option.splits)

lemma memory_ask_yes: "listed_until t j m \<Longrightarrow> now < t \<Longrightarrow> snd (memory_is_revoked now j m)"
  by (auto simp: listed_until_def memory_is_revoked_def)

interpretation memory_list: revocation_list memory_revoke memory_is_revoked listed_until
  by unfold_locales (auto intro: memory_put memory_put_keeps memory_ask_keeps memory_ask_yes)

lemma redis_client_memory [simp]: "bl_memory (fst (redis_client_of ops is_test b)) = bl_memory b"
  by (auto simp: redis_client_of_def split: prod.splits sum.splits)

lemma revoke_memory [simp]: "bl_memory (revoke ops is_test now j ttl b) = memory_revoke now j ttl (bl_memory b)"
proof -
  obtain c ok where c: "redis_client_of ops is_test (b\<lparr>bl_memory := memory_revoke now j ttl (bl_memory b)\<rparr>) = (c, ok)"
    by fastforce
  from redis_client_memory [of ops is_test "b\<lparr>bl_memory := memory_revoke now j ttl (bl_memory b)\<rparr>"] c
  have "bl_memory c = memory_revoke now j ttl (bl_memory b)" by simp
  with c show ?thesis by (cases ok) (simp_all add: revoke_def)
qed

lemma is_revoked_memory:
  "bl_memory (fst (is_revoked ops is_test now j b)) = fst (memory_is_revoked now j (bl_memory b)) \<and>
   (snd (memory_is_revoked now j (bl_memory b)) \<longrightarrow> snd (is_revoked ops is_test now j b))"
proof -
  obtain m found where m: "memory_is_revoked now j (bl_memory b) = (m, found)" by fastforce
  obtain c ok where c: "redis_client_of ops is_test (b\<lparr>bl_memory := m\<rparr>) = (c, ok)" by fastforce
  from redis_client_memory [of ops is_test "b\<lparr>bl_memory := m\<rparr>"] c have "bl_memory c = m" by simp
  with m c show ?thesis
    by (cases found; cases ok) (auto simp: is_revoked_def split: prod.splits sum.splits)
qed

definition barred :: "int \<Rightarrow> string \<Rightarrow> 'r blacklist \<Rightarrow> bool" where
  "barred t j b = listed_until t j (bl_memory b)"

text \<open>The list behind \<open>get_token_blacklist\<close> keeps the contract whatever Redis answers.\<close>

interpretation process_list: revocation_list "revoke ops is_test" "is_revoked ops is_test" barred
  by unfold_locales (auto simp: barred_def is_revoked_memory
    intro: memory_put memory_put_keeps memory_ask_keeps memory_ask_yes dest: memory_ask_yes)

end
