(* ===== verification/TokenSafety.thy ===== *)
theory TokenSafety imports AccessLaws begin

text \<open>
  Signed tokens over a history of requests: what was signed has an id of its own, and a token that
  a request has spent (exchanged, signed out, used as a confirmation) is refused from then on.
\<close>

section \<open>What is signed\<close>

definition claim_jti :: "json \<Rightarrow> string" where
  "claim_jti raw = (case json_item raw ''jti'' of Inr (JStr s) \<Rightarrow> s | _ \<Rightarrow> [])"

definition claim_exp :: "json \<Rightarrow> int" where
  "claim_exp raw = (case bindr (json_item raw ''exp'') json_int of Inr n \<Rightarrow> n | Inl _ \<Rightarrow> 0)"

definition signed_as :: "string \<Rightarrow> json \<Rightarrow> bool" where
  "signed_as j raw \<longleftrightarrow> json_item raw ''jti'' = Inr (JStr j)"

lemma claims_signed [simp]:
  "signed_as j (token_claims user typ tid role j now ttl)"
  "signed_as j (purpose_claims user purpose tid action email j now ttl)"
  by (simp_all add: signed_as_def token_claims_def purpose_claims_def json_item_def)

lemma signed_jti: "signed_as j raw \<Longrightarrow> claim_jti raw = j"
  by (simp add: signed_as_def claim_jti_def)

definition random_ids :: "'tok library \<Rightarrow> bool" where
  "random_ids l \<longleftrightarrow> inj (uuid_hex l) \<and> (\<forall>n. uuid_hex l n \<noteq> [])"

definition issued_ok :: "('tok, 'r) env \<Rightarrow> ('tok, 'r) auth_world \<Rightarrow> bool" where
  "issued_ok E w \<longleftrightarrow>
     (\<forall>raw\<in>set (aw_issued w). \<exists>n<aw_draws w. signed_as (uuid_hex (lib E) n) raw) \<and>
     distinct (map claim_jti (aw_issued w))"

lemma issued_same:
  assumes "issued_ok E w" and "raw \<in> set (aw_issued w)" and "raw' \<in> set (aw_issued w)" and "claim_jti raw = claim_jti raw'"
  shows "raw = raw'"
  using assms by (auto simp: issued_ok_def distinct_map inj_on_def)

lemma issued_jti:
  assumes "random_ids (lib E)" and "issued_ok E w" and "raw \<in> set (aw_issued w)"
  shows "claim_jti raw \<noteq> [] \<and> json_item raw ''jti'' = Inr (JStr (claim_jti raw))"
  using assms by (auto simp: issued_ok_def random_ids_def signed_as_def claim_jti_def)

lemma issued_sign:
  assumes "random_ids (lib E)" and "issued_ok E w" and "signed_as (uuid_hex (lib E) (aw_draws w)) raw"
  shows "issued_ok E (w\<lparr>aw_draws := aw_draws w + 1, aw_issued := aw_issued w @ [raw]\<rparr>)"
proof -
  have "claim_jti raw \<notin> claim_jti ` set (aw_issued w)"
  proof
    assume "claim_jti raw \<in> claim_jti ` set (aw_issued w)"
    then obtain r where r: "r \<in> set (aw_issued w)" "claim_jti r = claim_jti raw" by auto
    from assms(2) r(1) obtain n where n: "n < aw_draws w" "signed_as (uuid_hex (lib E) n) r"
      by (auto simp: issued_ok_def)
    from r(2) n(2) assms(3) have "uuid_hex (lib E) n = uuid_hex (lib E) (aw_draws w)" by (simp add: signed_jti)
    with assms(1) n(1) show False by (auto simp: random_ids_def dest: injD)
  qed
  with assms(2,3) show ?thesis by (auto simp: issued_ok_def less_Suc_eq)
qed

section \<open>Spent tokens\<close>

text \<open>A signed token that is not accepted any more: it has expired, or the list bars it until then.\<close>

definition spent :: "int \<Rightarrow> json \<Rightarrow> ('tok, 'r) auth_world \<Rightarrow> bool" where
  "spent now raw w \<longleftrightarrow> seconds (claim_exp raw) \<le> now \<or> barred (seconds (claim_exp raw)) (claim_jti raw) (aw_list w)"

lemma spent_later: "spent now raw w \<Longrightarrow> now \<le> later \<Longrightarrow> spent later raw w"
  by (auto simp: spent_def)

text \<open>
  \<open>safe E now R m\<close>: when the claims in \<open>R\<close> were signed here, \<open>m\<close> forgets nothing that was signed
  and revives nothing that was spent.
\<close>

definition safe :: "('tok, 'r) env \<Rightarrow> int \<Rightarrow> json set \<Rightarrow> (('tok, 'r) auth_world, 'a) act \<Rightarrow> bool" where
  "safe E now R m \<longleftrightarrow>
     (\<forall>w. issued_ok E w \<longrightarrow> R \<subseteq> set (aw_issued w) \<longrightarrow>
        issued_ok E (fst (m w)) \<and> set (aw_issued w) \<subseteq> set (aw_issued (fst (m w))) \<and>
        (\<forall>raw\<in>set (aw_issued w). spent now raw w \<longrightarrow> spent now raw (fst (m w))))"

lemma safeD:
  assumes "safe E now R m" and "m w = (w', r)" and "issued_ok E w" and "R \<subseteq> set (aw_issued w)"
  shows "issued_ok E w'" and "set (aw_issued w) \<subseteq> set (aw_issued w')" and "R \<subseteq> set (aw_issued w')"
    and "raw \<in> set (aw_issued w) \<Longrightarrow> spent now raw w \<Longrightarrow> spent now raw w'"
  using assms unfolding safe_def by (metis fst_conv, metis fst_conv, metis fst_conv order.trans, metis fst_conv)

named_theorems safety \<open>actions that revive no spent token\<close>

lemma safe_bindw_yields:
  assumes m: "safe E now R m" and y: "yields m Q" and f: "\<And>x. Q x \<Longrightarrow> safe E now R (f x)"
  shows "safe E now R (bindw m f)"
  unfolding safe_def
proof (intro allI impI)
  fix w :: "('a, 'b) auth_world"
  assume w: "issued_ok E w" "R \<subseteq> set (aw_issued w)"
  obtain w1 r where r: "m w = (w1, r)" by fastforce
  note s = safeD [OF m r w]
  show "issued_ok E (fst (bindw m f w)) \<and> set (aw_issued w) \<subseteq> set (aw_issued (fst (bindw m f w))) \<and>
    (\<forall>raw\<in>set (aw_issued w). spent now raw w \<longrightarrow> spent now raw (fst (bindw m f w)))"
  proof (cases r)
    case (Inl e)
    with r s show ?thesis by (simp add: bindw_def)
  next
    case (Inr x)
    with r y have "Q x" by (auto dest: yieldsD)
    obtain w2 r2 where r2: "f x w1 = (w2, r2)" by fastforce
    note t = safeD [OF f [OF \<open>Q x\<close>] r2 s(1,3)]
    from r Inr r2 have "bindw m f w = (w2, r2)" by (simp add: bindw_def)
    with s t show ?thesis by auto
  qed
qed

lemma safe_bindw [safety]: "safe E now R m \<Longrightarrow> (\<And>x. safe E now R (f x)) \<Longrightarrow> safe E now R (bindw m f)"
  by (rule safe_bindw_yields [where Q = "\<lambda>_. True"]) (simp_all add: yields_def)

lemma safe_quiet:
  assumes "leaves aw_list m" and "leaves aw_issued m" and "leaves aw_draws m"
  shows "safe E now R m"
  using assms by (auto simp: safe_def leaves_def issued_ok_def spent_def)

lemma safe_lift: "(\<And>x. r = Inr x \<Longrightarrow> safe E now R (f x)) \<Longrightarrow> safe E now R (bindw (lift_res r) f)"
  by (rule safe_bindw_yields [where Q = "\<lambda>x. r = Inr x"])
    (auto simp: yields_def acts intro: safe_quiet leaving)

lemma safe_pure [safety]:
  "safe E now R (give x)" "safe E now R (fail e)" "safe E now R (lift_res r)" "safe E now R (ask_db f)"
  "safe E now R (write_db g)" "safe E now R commit" "safe E now R draw_id" "safe E now R (deliver_link k s t)"
  by (rule safe_quiet; intro leaving)+

lemma safe_random [safety]: "safe E now R draw_random"
  by (simp add: safe_def draw_random_def issued_ok_def spent_def) (meson less_SucI)

lemma safe_if [safety]: "safe E now R m \<Longrightarrow> safe E now R n \<Longrightarrow> safe E now R (if b then m else n)"
  by simp

lemma safe_option [safety]:
  "safe E now R m \<Longrightarrow> (\<And>x. safe E now R (f x)) \<Longrightarrow> safe E now R (case v of None \<Rightarrow> m | Some x \<Rightarrow> f x)"
  by (cases v) simp_all

lemma safe_sum [safety]:
  "(\<And>e. safe E now R (g e)) \<Longrightarrow> (\<And>x. safe E now R (f x)) \<Longrightarrow> safe E now R (case v of Inl e \<Rightarrow> g e | Inr x \<Rightarrow> f x)"
  by (cases v) simp_all

lemma safe_list [safety]:
  "safe E now R m \<Longrightarrow> (\<And>x xs. safe E now R (f x xs)) \<Longrightarrow> safe E now R (case v of [] \<Rightarrow> m | x # xs \<Rightarrow> f x xs)"
  by (cases v) simp_all

lemma safe_Let [safety]: "(\<And>y. safe E now R (f y)) \<Longrightarrow> safe E now R (let y = x in f y)"
  by simp

lemma safe_signed:
  assumes "random_ids (lib E)" and "\<And>n. signed_as (uuid_hex (lib E) n) (claims n)"
  shows "safe E now R (bindw draw_random (\<lambda>n. sign E (claims n)))"
proof -
  have "bindw draw_random (\<lambda>n. sign E (claims n)) w =
      (w\<lparr>aw_draws := aw_draws w + 1, aw_issued := aw_issued w @ [claims (aw_draws w)]\<rparr>,
       Inr (jwt_encode (lib E) (claims (aw_draws w)) (jwt_secret (conf E))))" for w :: "('a, 'b) auth_world"
    by (simp add: bindw_def draw_random_def sign_def)
  with issued_sign [OF assms(1) _ assms(2)] show ?thesis by (auto simp: safe_def spent_def)
qed

lemma safe_tokens:
  assumes "random_ids (lib E)"
  shows "safe E now R (create_token E t user typ tid role ttl)"
    and "safe E now R (create_purpose_token E t user purpose tid action email ttl)"
  unfolding create_token_def create_purpose_token_def by (rule safe_signed [OF assms]; simp)+

lemma safe_pair:
  assumes "random_ids (lib E)"
  shows "safe E now R (create_token_pair E t user tid role)"
  unfolding create_token_pair_def by (intro safety safe_tokens assms)

lemma safe_ask [safety]: "safe E now R (ask_revoked E now j)"
proof -
  have "spent now raw (fst (ask_revoked E now j w))" if "spent now raw w" for raw and w :: "('a, 'b) auth_world"
  proof (cases "now < seconds (claim_exp raw)")
    case True
    with that have "barred (seconds (claim_exp raw)) (claim_jti raw) (aw_list w)" by (simp add: spent_def)
    from process_list.ask_keeps [OF this True, of "keys E" "in_test E" j] show ?thesis
      by (auto simp: ask_revoked_def spent_def split: prod.splits)
  qed (simp add: spent_def)
  then show ?thesis
    by (auto simp: safe_def ask_revoked_def issued_ok_def split: prod.splits)
qed

text \<open>A revocation lasts at least as long as the token could be read.\<close>

lemma remaining_covers: "seconds n \<le> now + seconds (max 1 (remaining_ttl_seconds now n))"
proof -
  have "seconds (epoch now) \<le> now"
    by (simp add: seconds_def epoch_def)
  moreover have "n - epoch now \<le> max 1 (remaining_ttl_seconds now n)" by (simp add: remaining_ttl_seconds_def)
  ultimately show ?thesis by (simp add: seconds_def)
qed

lemma revoke_spends:
  assumes "claim_jti raw \<noteq> []"
  shows "spent now raw (fst (revoke_jti E now (claim_jti raw) (claim_exp raw) w))"
proof -
  have "barred (seconds (claim_exp raw)) (claim_jti raw)
      (revoke (keys E) (in_test E) now (claim_jti raw) (remaining_ttl_seconds now (claim_exp raw)) (aw_list w))"
    by (rule process_list.put_bars [OF assms remaining_covers])
  then show ?thesis by (simp add: revoke_jti_def spent_def)
qed

lemma safe_revoke:
  assumes "raw \<in> R"
  shows "safe E now R (revoke_jti E now (claim_jti raw) (claim_exp raw))"
proof -
  let ?m = "revoke_jti E now (claim_jti raw) (claim_exp raw)"
  have "spent now raw' (fst (?m w))"
    if w: "issued_ok E w" "R \<subseteq> set (aw_issued w)" and r: "raw' \<in> set (aw_issued w)" "spent now raw' w"
    for raw' and w :: "('a, 'b) auth_world"
  proof (cases "seconds (claim_exp raw') \<le> now")
    case False
    with r have b: "barred (seconds (claim_exp raw')) (claim_jti raw') (aw_list w)" by (simp add: spent_def)
    have "claim_jti raw = claim_jti raw' \<Longrightarrow> raw = raw'" using issued_same [OF w(1)] w(2) r(1) assms by blast
    then have "claim_jti raw = claim_jti raw' \<Longrightarrow>
        seconds (claim_exp raw') \<le> now + seconds (max 1 (remaining_ttl_seconds now (claim_exp raw)))"
      using remaining_covers by blast
    from process_list.put_keeps [OF b this] show ?thesis by (simp add: revoke_jti_def spent_def)
  qed (simp add: spent_def)
  then show ?thesis by (auto simp: safe_def revoke_jti_def issued_ok_def)
qed

section \<open>Reading a token\<close>

lemma incomplete_Inr [simp]: "incomplete_payload m = Inr x \<longleftrightarrow> m = Inr x"
  by (auto simp: incomplete_payload_def split: sum.splits if_splits)

lemma read_token_claims:
  assumes "read_token raw typ = Inr p"
  shows "tp_jti p = claim_jti raw \<and> tp_exp p = claim_exp raw \<and> tp_typ p = typ \<and> json_get raw ''typ'' JNull = Inr (JStr typ)"
proof -
  have j: "as_str v = Inr s \<longleftrightarrow> v = JStr s" for v s by (cases v) auto
  have "json_item raw ''typ'' = Inr v \<Longrightarrow> json_get raw ''typ'' JNull = Inr v" for v
    by (auto simp: json_item_def json_get_def split: json.splits option.splits)
  with assms show ?thesis
    by (fastforce simp: read_token_def res_simps j claim_jti_def claim_exp_def split: if_splits)
qed

lemma read_purpose_claims:
  assumes "read_purpose l raw purpose = Inr p" and "json_item raw ''jti'' = Inr (JStr j)"
  shows "pp_jti p = claim_jti raw \<and> pp_exp p = claim_exp raw"
  using assms by (auto simp: read_purpose_def res_simps claim_jti_def claim_exp_def split: if_splits)

text \<open>The claims that the tokens of a request read as, at its time.\<close>

definition reads :: "('tok, 'r) env \<Rightarrow> int \<Rightarrow> 'tok \<Rightarrow> json \<Rightarrow> bool" where
  "reads E now t raw \<longleftrightarrow> jwt_decode (lib E) now t (jwt_secret (conf E)) = Inr raw"

lemma decode_token_reads:
  "decode_token (lib E) (conf E) now t typ = Inr p \<Longrightarrow>
     \<exists>raw. reads E now t raw \<and> read_token raw typ = Inr p"
  by (auto simp: decode_token_def jwt_open_def reads_def res_simps split: sum.splits jwt_failure.splits)

lemma decode_purpose_reads:
  "decode_purpose_token (lib E) (conf E) now t purpose = Inr p \<Longrightarrow>
     \<exists>raw. reads E now t raw \<and> read_purpose (lib E) raw purpose = Inr p"
  by (auto simp: decode_purpose_token_def jwt_open_def reads_def res_simps split: sum.splits jwt_failure.splits)

lemma read_not_expired:
  assumes "pyjwt_laws (lib E)" and "reads E now t raw" and "read_token raw typ = Inr p"
  shows "now < seconds (claim_exp raw)"
proof -
  from assms(3) obtain v n where "json_item raw ''exp'' = Inr v" "json_int v = Inr n"
    by (auto simp: read_token_def res_simps split: if_splits)
  with assms(1,2) show ?thesis by (fastforce simp: pyjwt_laws_def reads_def claim_exp_def)
qed

lemma read_purpose_not_expired:
  assumes "pyjwt_laws (lib E)" and "reads E now t raw" and "read_purpose l raw typ = Inr p"
  shows "now < seconds (claim_exp raw)"
proof -
  from assms(3) obtain v n where "json_item raw ''exp'' = Inr v" "json_int v = Inr n"
    by (auto simp: read_purpose_def res_simps split: if_splits)
  with assms(1,2) show ?thesis by (fastforce simp: pyjwt_laws_def reads_def claim_exp_def)
qed

lemma reads_same: "pyjwt_laws (lib E) \<Longrightarrow> reads E now t raw \<Longrightarrow> reads E now' t raw' \<Longrightarrow> raw = raw'"
  by (auto simp: pyjwt_laws_def reads_def)

lemma ask_spent:
  assumes "spent now raw w" and "now < seconds (claim_exp raw)"
  shows "\<exists>w'. ask_revoked E now (claim_jti raw) w = (w', Inr True)"
proof -
  from assms have "barred (seconds (claim_exp raw)) (claim_jti raw) (aw_list w)" by (simp add: spent_def)
  from process_list.ask_yes [OF this assms(2)] show ?thesis
    by (auto simp: ask_revoked_def split: prod.splits) (metis snd_conv)
qed

definition request_claims :: "('tok, 'r) env \<Rightarrow> int \<Rightarrow> 'tok request \<Rightarrow> json set" where
  "request_claims E now rq = {raw. \<exists>t\<in>set (tokens_of rq). reads E now t raw}"

lemma unforged_claims: "unforged E now rq w \<longleftrightarrow> request_claims E now rq \<subseteq> set (aw_issued w)"
  by (auto simp: unforged_def request_claims_def reads_def list_all_iff split: sum.splits)

end
