(* ===== verification/TokenHistory.thy ===== *)
theory TokenHistory imports TokenSafety begin

text \<open>
  Every handler is safe for spent tokens; what a request spends; and the history of requests as a
  machine that keeps what was signed and what was spent.
\<close>

section \<open>The handlers are safe\<close>

definition identifies :: "('tok, 'r) env \<Rightarrow> int \<Rightarrow> 'tok option \<Rightarrow> identity \<Rightarrow> bool" where
  "identifies E now credentials i \<longleftrightarrow>
     (\<exists>t raw. credentials = Some t \<and> reads E now t raw \<and> read_token raw ''access'' = Inr (id_payload i))"

lemma bindw_yields: "(\<And>x. yields (f x) Q) \<Longrightarrow> yields (bindw m f) Q"
  by (rule yields_bindw [OF yields_simps(3)])

declare yields_simps(1,2) [simp]

lemma yields_lift_bind: "(\<And>x. r = Inr x \<Longrightarrow> yields (f x) Q) \<Longrightarrow> yields (bindw (lift_res r) f) Q"
  by (cases r) (auto simp: yields_def acts)

lemma get_identity_yields: "yields (get_identity E now b) (identifies E now b)"
proof (cases b)
  case (Some t)
  show ?thesis
    unfolding get_identity_def Some option.case decode_def
  proof (rule yields_lift_bind)
    fix p assume "decode_token (lib E) (conf E) now t ''access'' = Inr p"
    from decode_token_reads [OF this] obtain raw where
      raw: "reads E now t raw" "read_token raw ''access'' = Inr p" by blast
    have i: "identifies E now (Some t) \<lparr>id_user = u, id_tenant = tn, id_member = m, id_payload = p\<rparr>" for u tn m
      using raw by (auto simp: identifies_def)
    show "yields (bindw (assert_token_not_revoked E now p) (\<lambda>_. case tp_tid p of None \<Rightarrow> fail unauthenticated
        | Some tid \<Rightarrow> bindw (ask_db (get_tenant tid)) (\<lambda>found. case found of None \<Rightarrow> fail unauthenticated
        | Some tn \<Rightarrow> if tn_status tn = tenant_disabled then fail (AppError ''TenantDisabledError'')
          else bindw (ask_db (get_membership tid (tp_sub p))) (\<lambda>found. case found of None \<Rightarrow> fail unauthenticated
        | Some m \<Rightarrow> if m_status m \<noteq> member_active then fail unauthenticated
          else bindw (ask_db (get_user (tp_sub p))) (\<lambda>found. case found of None \<Rightarrow> fail unauthenticated
        | Some u \<Rightarrow> if u_status u \<noteq> user_active then fail unauthenticated
          else if is_locked now u then fail (AppError ''AccountLockedError'')
          else give \<lparr>id_user = u, id_tenant = tn, id_member = m, id_payload = p\<rparr>))))) (identifies E now (Some t))"
      by (intro bindw_yields) (auto simp: i intro!: bindw_yields split: option.split)
  qed
qed (simp add: get_identity_def)

lemma require_permission_yields: "yields (require_permission E now b wanted) (identifies E now b)"
  using get_identity_yields [of E now b]
  by (auto simp: yields_def require_permission_def bindw_Inr acts split: if_splits)

lemma safe_decode:
  assumes "\<And>raw p. reads E now t raw \<Longrightarrow> read_token raw typ = Inr p \<Longrightarrow> safe E now R (f p)"
  shows "safe E now R (bindw (decode E now t typ) f)"
  unfolding decode_def by (rule safe_lift) (use assms in \<open>blast dest: decode_token_reads\<close>)

lemma safe_assert [safety]: "safe E now R (assert_token_not_revoked E now p)"
  unfolding assert_token_not_revoked_def by (intro safety)

lemma safe_revoke_payload:
  assumes "raw \<in> R" and "read_token raw typ = Inr p"
  shows "safe E now R (revoke_payload E now p)"
  using safe_revoke [OF assms(1)] read_token_claims [OF assms(2)] by (simp add: revoke_payload_def)

lemma safe_get_identity [safety]: "safe E now R (get_identity E now b)"
  unfolding get_identity_def decode_def by (intro safety)

lemma safe_require_permission [safety]: "safe E now R (require_permission E now b wanted)"
  unfolding require_permission_def by (intro safety)

lemma safe_reject [safety]: "safe E now R (reject_login e tid email reason user t)"
  unfolding reject_login_def by (intro safety)

lemma safe_login:
  assumes "random_ids (lib E)"
  shows "safe E now R (login E now address password code)"
  unfolding login_def by (intro safety safe_pair assms)

lemma safe_refresh:
  assumes ids: "random_ids (lib E)" and t: "\<And>raw. reads E now t raw \<Longrightarrow> raw \<in> R"
  shows "safe E now R (refresh E now t)"
  unfolding refresh_def
proof (rule safe_decode)
  fix raw p assume "reads E now t raw" "read_token raw ''refresh'' = Inr p"
  with t have "safe E now R (revoke_payload E now p)" by (blast intro: safe_revoke_payload)
  then show "safe E now R (bindw (assert_token_not_revoked E now p) (\<lambda>_. case tp_tid p of
         None \<Rightarrow> fail unauthenticated
       | Some tid \<Rightarrow>
           bindw (ask_db (get_user (tp_sub p))) (\<lambda>found. case found of
               None \<Rightarrow> fail unauthenticated
             | Some u \<Rightarrow>
                 if u_status u \<noteq> user_active then fail unauthenticated
                 else if is_locked now u then fail (AppError ''AccountLockedError'')
                 else bindw (ask_db (require_membership (u_id u) tid)) (\<lambda>r. bindw (lift_res r) (\<lambda>m.
                   bindw (ask_db (require_active_tenant tid)) (\<lambda>r. bindw (lift_res r) (\<lambda>_.
                   if (case u_password_changed u of None \<Rightarrow> False | Some t \<Rightarrow> seconds (tp_iat p) < t)
                   then fail unauthenticated
                   else bindw (revoke_payload E now p) (\<lambda>_.
                     create_token_pair E now (u_id u) (Some tid) (Some (m_role m)))))))))
    )" by (intro safety safe_pair ids)
qed

lemma safe_suppressing [safety]: "safe E now R m \<Longrightarrow> safe E now R (suppressing e m)"
  by (simp add: safe_def fst_suppressing)

lemma safe_second:
  assumes "\<And>t raw. token = Some t \<Longrightarrow> reads E now t raw \<Longrightarrow> raw \<in> R"
  shows "safe E now R (case token of None \<Rightarrow> give () | Some t \<Rightarrow>
     suppressing unauthenticated (bindw (decode E now t ''refresh'') (\<lambda>p.
     bindw (assert_token_not_revoked E now p) (\<lambda>_. revoke_payload E now p))))"
proof (cases token)
  case (Some k)
  have "safe E now R (suppressing unauthenticated (bindw (decode E now k ''refresh'') (\<lambda>p.
      bindw (assert_token_not_revoked E now p) (\<lambda>_. revoke_payload E now p))))"
    by (intro safe_suppressing safe_decode safe_bindw safe_assert) (use assms Some in \<open>blast intro: safe_revoke_payload\<close>)
  with Some show ?thesis by simp
qed (simp add: safety)

lemma safe_logout:
  assumes p: "raw \<in> R" "read_token raw typ = Inr (id_payload i)"
    and t: "\<And>t raw. token = Some t \<Longrightarrow> reads E now t raw \<Longrightarrow> raw \<in> R"
  shows "safe E now R (logout E now i token)"
  unfolding logout_def by (intro safe_bindw safe_second safe_revoke_payload [OF p] safe_pure t)

lemma safe_confirm_password:
  assumes "random_ids (lib E)"
  shows "safe E now R (confirm_password E now i password action)"
  unfolding confirm_password_def by (intro safety safe_tokens assms)

lemma safe_consume:
  assumes ids: "random_ids (lib E)" and t: "\<And>raw. reads E now token raw \<Longrightarrow> raw \<in> R"
  shows "safe E now R (consume_confirmation_token E now token action user tid)"
proof (cases "decode_purpose_token (lib E) (conf E) now token ''confirmation''")
  case (Inl e)
  then show ?thesis by (simp add: consume_confirmation_token_def safety)
next
  case (Inr p)
  from decode_purpose_reads [OF this] obtain raw where
    raw: "reads E now token raw" "read_purpose (lib E) raw ''confirmation'' = Inr p" by blast
  have "safe E now R (revoke_jti E now (pp_jti p) (pp_exp p))"
    unfolding safe_def
  proof (intro allI impI)
    fix w :: "('a, 'b) auth_world"
    assume w: "issued_ok E w" "R \<subseteq> set (aw_issued w)"
    with t raw(1) have r: "raw \<in> R" "raw \<in> set (aw_issued w)" by auto
    with issued_jti [OF ids w(1)] read_purpose_claims [OF raw(2)]
    have "pp_jti p = claim_jti raw" "pp_exp p = claim_exp raw" by blast+
    with safe_revoke [OF r(1), of E now] w
    show "issued_ok E (fst (revoke_jti E now (pp_jti p) (pp_exp p) w)) \<and>
      set (aw_issued w) \<subseteq> set (aw_issued (fst (revoke_jti E now (pp_jti p) (pp_exp p) w))) \<and>
      (\<forall>raw\<in>set (aw_issued w). spent now raw w \<longrightarrow> spent now raw (fst (revoke_jti E now (pp_jti p) (pp_exp p) w)))"
      by (simp add: safe_def)
  qed
  then show ?thesis unfolding consume_confirmation_token_def Inr sum.case by (intro safety)
qed

lemma safe_members:
  "safe E now R (revoke_invitation t i ident)" "safe E now R (change_role i ident role)"
  "safe E now R (update_scope i ident resource scope_type shops)" "safe E now R (remove_member t i ident)"
  unfolding revoke_invitation_def change_role_def update_scope_def remove_member_def member_response_def guard_admin_def Let_def
  by (intro safety)+

lemma safe_accounts:
  assumes ids: "random_ids (lib E)"
  shows "safe E now R (register E t rg)" and "safe E now R (verify_email E t token)"
    and "safe E now R (resend_verification E t email)" and "safe E now R (invite E t i email role)"
    and "safe E now R (accept E t token password display)"
  unfolding register_def verify_email_def resend_verification_def invite_def accept_def invited_user_def
    deliver_verification_def Let_def prod.case
  by (intro safety safe_tokens ids; auto intro!: safety safe_tokens ids split: list.split)+

lemma safe_valid [safety]: "safe E now R m \<Longrightarrow> safe E now R (valid ok m)"
  unfolding valid_def by (intro safety)

lemma safe_respond [safety]: "safe E now R m \<Longrightarrow> safe E now R (respond f m)"
  unfolding respond_def by (intro safety)

theorem handle_auth_safe:
  assumes ids: "random_ids (lib E)"
  shows "safe E now (request_claims E now rq) (handle_auth E now rq)"
proof (cases rq)
  case (Refresh t)
  then show ?thesis
    by (auto simp: request_claims_def intro!: safe_respond safe_refresh ids)
next
  case (Logout b t)
  have "safe E now (request_claims E now rq) (logout E now i t)" if i: "identifies E now b i" for i
  proof -
    from i obtain k raw where k: "b = Some k" "reads E now k raw" "read_token raw ''access'' = Inr (id_payload i)"
      by (auto simp: identifies_def)
    then have "raw \<in> request_claims E now rq" using Logout by (auto simp: request_claims_def)
    then show ?thesis by (rule safe_logout [OF _ k(3)]) (use Logout in \<open>auto simp: request_claims_def\<close>)
  qed
  then show ?thesis
    using Logout by (auto intro!: safe_bindw_yields [OF safe_get_identity get_identity_yields] safe_respond)
next
  case (Remove b ident c)
  have "safe E now (request_claims E now rq) (require_confirmation E now i ''member.remove'' c)" for i
    by (cases c) (auto simp: require_confirmation_def Remove request_claims_def intro!: safety safe_consume ids)
  then show ?thesis using Remove by (auto intro!: safety safe_members)
qed (auto intro!: safety safe_login safe_confirm_password safe_members safe_accounts ids)

section \<open>What a request spends\<close>

lemma assert_passed:
  assumes "assert_token_not_revoked E now p w = (w1, Inr x)" and "tp_jti p = claim_jti raw" and "now < seconds (claim_exp raw)"
  shows "\<not> spent now raw w"
proof
  assume "spent now raw w"
  from ask_spent [OF this assms(3)] obtain v where "ask_revoked E now (claim_jti raw) w = (v, Inr True)" by blast
  with assms(1,2) show False by (simp add: assert_token_not_revoked_def bindw_def acts)
qed

lemma get_identity_accepts:
  assumes laws: "pyjwt_laws (lib E)" and g: "get_identity E now (Some t) w = (w1, Inr i)"
  shows "\<exists>raw. reads E now t raw \<and> read_token raw ''access'' = Inr (id_payload i) \<and> \<not> spent now raw w"
proof -
  from g obtain p w0 x where p: "decode_token (lib E) (conf E) now t ''access'' = Inr p"
    and a: "assert_token_not_revoked E now p w = (w0, Inr x)"
    by (auto simp: get_identity_def decode_def bindw_Inr acts split: sum.splits)
  from decode_token_reads [OF p] obtain raw where raw: "reads E now t raw" "read_token raw ''access'' = Inr p" by blast
  with assert_passed [OF a] read_token_claims [OF raw(2)] read_not_expired [OF laws raw]
  have "\<not> spent now raw w" by blast
  moreover from get_identity_yields g have "identifies E now (Some t) i" by (rule yieldsD)
  then obtain raw' where "reads E now t raw'" "read_token raw' ''access'' = Inr (id_payload i)"
    by (auto simp: identifies_def)
  moreover from this(1) raw(1) have "raw' = raw" by (simp add: reads_def)
  ultimately show ?thesis by blast
qed

lemma revoke_payload_spends:
  assumes "random_ids (lib E)" and "issued_ok E w" and "raw \<in> set (aw_issued w)" and "read_token raw typ = Inr p"
  shows "\<exists>w'. revoke_payload E now p w = (w', Inr ()) \<and> spent now raw w' \<and> issued_ok E w' \<and> aw_issued w' = aw_issued w"
proof -
  obtain w' where w': "revoke_payload E now p w = (w', Inr ())"
    by (simp add: revoke_payload_def revoke_jti_def)
  from revoke_spends [of raw] issued_jti [OF assms(1-3)] read_token_claims [OF assms(4)] w'
  have "spent now raw w'" by (metis fst_conv revoke_payload_def)
  with w' assms(2) show ?thesis
    by (auto simp: revoke_payload_def revoke_jti_def issued_ok_def)
qed

lemma assert_issued:
  assumes "assert_token_not_revoked E now p w = (w1, r)" and "issued_ok E w"
  shows "issued_ok E w1 \<and> aw_issued w1 = aw_issued w"
proof -
  have "leaves aw_issued (assert_token_not_revoked E now p)" "leaves aw_draws (assert_token_not_revoked E now p)"
    unfolding assert_token_not_revoked_def by (intro leaving)+
  from leavesD [OF this(1) assms(1)] leavesD [OF this(2) assms(1)] assms(2) show ?thesis by (simp add: issued_ok_def)
qed

lemma bindw_decode:
  "bindw (decode E now t typ) f w =
     (case decode_token (lib E) (conf E) now t typ of Inl e \<Rightarrow> (w, Inl e) | Inr p \<Rightarrow> f p w)"
  by (simp add: decode_def acts)

lemma refresh_spends:
  assumes laws: "pyjwt_laws (lib E)" and ids: "random_ids (lib E)"
    and ok: "issued_ok E w" and u: "request_claims E now (Refresh t) \<subseteq> set (aw_issued w)"
    and r: "refresh E now t w = (w', Inr pair)"
  shows "\<exists>raw. reads E now t raw \<and> \<not> spent now raw w \<and> spent now raw w'"
proof -
  from r obtain p where p: "decode_token (lib E) (conf E) now t ''refresh'' = Inr p"
    by (auto simp: refresh_def bindw_decode split: sum.splits)
  let ?rest = "\<lambda>_. case tp_tid p of
       None \<Rightarrow> fail unauthenticated
     | Some tid \<Rightarrow>
         bindw (ask_db (get_user (tp_sub p))) (\<lambda>found.
         case found of
           None \<Rightarrow> fail unauthenticated
         | Some u \<Rightarrow>
             if u_status u \<noteq> user_active then fail unauthenticated
             else if is_locked now u then fail (AppError ''AccountLockedError'')
             else
               bindw (ask_db (require_membership (u_id u) tid)) (\<lambda>r. bindw (lift_res r) (\<lambda>m.
               bindw (ask_db (require_active_tenant tid)) (\<lambda>r. bindw (lift_res r) (\<lambda>_.
               if (case u_password_changed u of None \<Rightarrow> False | Some t \<Rightarrow> seconds (tp_iat p) < t)
               then fail unauthenticated
               else
                 bindw (revoke_payload E now p) (\<lambda>_.
                 create_token_pair E now (u_id u) (Some tid) (Some (m_role m))))))))"
  from r p have "bindw (assert_token_not_revoked E now p) ?rest w = (w', Inr pair)"
    by (simp add: refresh_def bindw_decode)
  then obtain w1 x where a: "assert_token_not_revoked E now p w = (w1, Inr x)" and w1': "?rest x w1 = (w', Inr pair)"
    by (auto simp: bindw_Inr)
  from w1' have rest: "\<exists>role tid user. bindw (revoke_payload E now p)
      (\<lambda>_. create_token_pair E now user (Some tid) (Some role)) w1 = (w', Inr pair)"
    by (auto simp: acts split: sum.splits option.splits if_splits)
  from decode_token_reads [OF p] obtain raw where raw: "reads E now t raw" "read_token raw ''refresh'' = Inr p" by blast
  with assert_passed [OF a] read_token_claims [OF raw(2)] read_not_expired [OF laws raw]
  have fresh: "\<not> spent now raw w" by blast
  from assert_issued [OF a ok] u raw(1) have w1: "issued_ok E w1" "raw \<in> set (aw_issued w1)"
    by (auto simp: request_claims_def)
  from revoke_payload_spends [OF ids w1 raw(2)] obtain w2 where
    w2: "revoke_payload E now p w1 = (w2, Inr ())" "spent now raw w2" "issued_ok E w2" "aw_issued w2 = aw_issued w1" by blast
  from rest w2(1) obtain user tid role where "create_token_pair E now user (Some tid) (Some role) w2 = (w', Inr pair)"
    by (auto simp: bindw_def)
  from safeD(4) [OF safe_pair [OF ids] this w2(3), of "{}"] w1(2) w2 raw fresh show ?thesis by auto
qed

lemma logout_spends:
  assumes laws: "pyjwt_laws (lib E)" and ids: "random_ids (lib E)"
    and ok: "issued_ok E w" and u: "request_claims E now (Logout (Some b) t) \<subseteq> set (aw_issued w)"
    and r: "handle_auth E now (Logout (Some b) t) w = (w', Inr x)"
  shows "\<exists>raw. reads E now b raw \<and> spent now raw w'"
proof -
  from r obtain i w1 y where g: "get_identity E now (Some b) w = (w1, Inr i)"
    and l: "logout E now i t w1 = (w', Inr y)"
    by (auto simp: bindw_Inr respond_def acts)
  from get_identity_accepts [OF laws g] obtain raw where
    raw: "reads E now b raw" "read_token raw ''access'' = Inr (id_payload i)" by blast
  note s = safeD [OF safe_get_identity g ok, of "{}"]
  from s u raw(1) have w1: "issued_ok E w1" "raw \<in> set (aw_issued w1)" by (auto simp: request_claims_def)
  from revoke_payload_spends [OF ids w1 raw(2)] obtain w2 where
    w2: "revoke_payload E now (id_payload i) w1 = (w2, Inr ())" "spent now raw w2" "issued_ok E w2"
      "aw_issued w2 = aw_issued w1" by blast
  let ?rest = "bindw (case t of None \<Rightarrow> give () | Some k \<Rightarrow>
      suppressing unauthenticated (bindw (decode E now k ''refresh'') (\<lambda>p.
      bindw (assert_token_not_revoked E now p) (\<lambda>_. revoke_payload E now p))))
    (\<lambda>_. write_db (append_action (tn_id (id_tenant i)) ''LOGOUT'' ''auth'' (Some (u_id (id_user i))) (Some (u_id (id_user i)))))"
  have cl: "raw \<in> request_claims E now (Logout (Some b) t)" if "t = Some k" "reads E now k raw" for k raw
    using that by (simp add: request_claims_def)
  have "safe E now (request_claims E now (Logout (Some b) t)) ?rest"
    by (rule safe_bindw [OF safe_second [OF cl] safe_pure(5)])
  moreover from l w2(1) have "?rest w2 = (w', Inr y)" by (simp add: logout_def bindw_def)
  moreover have "request_claims E now (Logout (Some b) t) \<subseteq> set (aw_issued w2)" using s(2) u w2(4) by auto
  ultimately have "spent now raw w'" using safeD(4) [of E now _ ?rest w2 w' "Inr y" raw] w2 w1(2) by simp
  with raw(1) show ?thesis by blast
qed

lemma confirmation_spends:
  assumes laws: "pyjwt_laws (lib E)" and ids: "random_ids (lib E)"
    and ok: "issued_ok E w" and u: "request_claims E now (Remove b ident (Some c)) \<subseteq> set (aw_issued w)"
    and r: "handle_auth E now (Remove b ident (Some c)) w = (w', Inr x)"
  shows "\<exists>raw. reads E now c raw \<and> \<not> spent now raw w \<and> spent now raw w'"
proof -
  from r obtain i w1 w2 y z where g: "require_permission E now b [P_MEMBER_WRITE] w = (w1, Inr i)"
    and k: "require_confirmation E now i ''member.remove'' (Some c) w1 = (w2, Inr y)"
    and m: "remove_member now i ident w2 = (w', Inr z)"
    by (auto simp: bindw_Inr respond_def acts)
  from k obtain p w3 where p: "decode_purpose_token (lib E) (conf E) now c ''confirmation'' = Inr p"
    and a: "ask_revoked E now (pp_jti p) w1 = (w3, Inr False)" and v: "revoke_jti E now (pp_jti p) (pp_exp p) w3 = (w2, Inr y)"
    by (auto simp: require_confirmation_def consume_confirmation_token_def bindw_Inr acts split: sum.splits if_splits)
  from decode_purpose_reads [OF p] obtain raw where
    raw: "reads E now c raw" "read_purpose (lib E) raw ''confirmation'' = Inr p" by blast
  note s = safeD [OF safe_require_permission g ok, of "{}"]
  from u raw(1) have i0: "raw \<in> set (aw_issued w)" by (auto simp: request_claims_def)
  with s have w1: "issued_ok E w1" "raw \<in> set (aw_issued w1)" by auto
  from issued_jti [OF ids w1] read_purpose_claims [OF raw(2)]
  have j: "pp_jti p = claim_jti raw" "pp_exp p = claim_exp raw" "claim_jti raw \<noteq> []" by blast+
  have "\<not> spent now raw w1"
  proof
    assume "spent now raw w1"
    from ask_spent [OF this read_purpose_not_expired [OF laws raw]] obtain v where
      "ask_revoked E now (claim_jti raw) w1 = (v, Inr True)" by blast
    with a j show False by simp
  qed
  with s(4) [OF _ i0] have fresh: "\<not> spent now raw w" by blast
  from safeD [OF safe_ask a w1(1), of "{}"] w1(2) have w3: "issued_ok E w3" "raw \<in> set (aw_issued w3)" by auto
  from revoke_spends [OF j(3)] v j have w2: "spent now raw w2" by (metis fst_conv)
  from safeD [OF safe_revoke [of raw "{raw}" E now] _ w3(1)] v j w3(2)
  have "issued_ok E w2" "raw \<in> set (aw_issued w2)" by (auto dest: subsetD)
  from safeD(4) [OF safe_members(4) [where now = now] m this(1), where raw = raw and R = "{}"] this(2) w2 raw(1) fresh show ?thesis by auto
qed

section \<open>Histories\<close>

lemma spent_redis [simp]:
  "spent now raw (w\<lparr>aw_list := (aw_list w)\<lparr>bl_redis := r\<rparr>\<rparr>) = spent now raw w"
  "spent now raw (w\<lparr>aw_db := db\<rparr>) = spent now raw w" "spent now raw (w\<lparr>aw_saved := db\<rparr>) = spent now raw w"
  by (simp_all add: spent_def barred_def)

lemma issued_redis [simp]:
  "issued_ok E (w\<lparr>aw_list := l\<rparr>) = issued_ok E w"
  "issued_ok E (w\<lparr>aw_db := db\<rparr>) = issued_ok E w" "issued_ok E (w\<lparr>aw_saved := db\<rparr>) = issued_ok E w"
  by (simp_all add: issued_ok_def)

text \<open>A step of a history, taken apart: the world the request is served in, and what it leaves.\<close>

lemma auth_step_cases:
  assumes "auth_step E h ev = Some h'"
  obtains w w' r where "w = (ah_world h)\<lparr>aw_list := (aw_list (ah_world h))\<lparr>bl_redis := ev_redis ev\<rparr>\<rparr>"
    and "ah_now h \<le> ev_now ev" and "unforged E (ev_now ev) (ev_request ev) w"
    and "handle_auth E (ev_now ev) (ev_request ev) w = (w', r)"
    and "ah_world h' = (case r of Inl _ \<Rightarrow> w'\<lparr>aw_db := aw_saved w'\<rparr> | Inr _ \<Rightarrow> w'\<lparr>aw_saved := aw_db w'\<rparr>)"
    and "ah_now h' = ev_now ev" and "ah_served h' = ah_served h @ [(ev_request ev, r)]"
proof -
  let ?w = "(ah_world h)\<lparr>aw_list := (aw_list (ah_world h))\<lparr>bl_redis := ev_redis ev\<rparr>\<rparr>"
  obtain w' r where r: "handle_auth E (ev_now ev) (ev_request ev) ?w = (w', r)" by fastforce
  let ?v = "case r of Inl _ \<Rightarrow> w'\<lparr>aw_db := aw_saved w'\<rparr> | Inr _ \<Rightarrow> w'\<lparr>aw_saved := aw_db w'\<rparr>"
  from r have v: "serve_auth E (ev_now ev) (ev_request ev) ?w = (?v, r)" by (simp add: serve_auth_def split: sum.splits)
  have "\<not> (ev_now ev < ah_now h \<or> \<not> unforged E (ev_now ev) (ev_request ev) ?w)"
    using assms by (auto simp only: auth_step_def Let_def if_True split: if_splits)
  then have g: "ah_now h \<le> ev_now ev" "unforged E (ev_now ev) (ev_request ev) ?w" by auto
  from assms g v have "h' = \<lparr>ah_now = ev_now ev, ah_world = ?v, ah_served = ah_served h @ [(ev_request ev, r)]\<rparr>"
    by (simp add: auth_step_def Let_def)
  then have "ah_world h' = ?v" "ah_now h' = ev_now ev" "ah_served h' = ah_served h @ [(ev_request ev, r)]" by simp_all
  with r g that show thesis by blast
qed

lemma auth_step_spent:
  assumes ids: "random_ids (lib E)" and s: "auth_step E h ev = Some h'" and ok: "issued_ok E (ah_world h)"
  shows "issued_ok E (ah_world h') \<and> set (aw_issued (ah_world h)) \<subseteq> set (aw_issued (ah_world h')) \<and>
    (\<forall>raw\<in>set (aw_issued (ah_world h)). spent (ah_now h) raw (ah_world h) \<longrightarrow> spent (ah_now h') raw (ah_world h'))"
proof -
  obtain w w' r where w: "w = (ah_world h)\<lparr>aw_list := (aw_list (ah_world h))\<lparr>bl_redis := ev_redis ev\<rparr>\<rparr>"
    and t: "ah_now h \<le> ev_now ev" "ah_now h' = ev_now ev" and u: "unforged E (ev_now ev) (ev_request ev) w"
    and r: "handle_auth E (ev_now ev) (ev_request ev) w = (w', r)"
    and h': "ah_world h' = (case r of Inl _ \<Rightarrow> w'\<lparr>aw_db := aw_saved w'\<rparr> | Inr _ \<Rightarrow> w'\<lparr>aw_saved := aw_db w'\<rparr>)"
    using s by (rule auth_step_cases)
  from w ok have w_ok: "issued_ok E w" and i: "aw_issued w = aw_issued (ah_world h)" by simp_all
  note k = safeD [OF handle_auth_safe [OF ids] r w_ok u [unfolded unforged_claims]]
  have "issued_ok E (ah_world h')" "aw_issued (ah_world h') = aw_issued w'"
    "\<And>raw. spent (ev_now ev) raw (ah_world h') = spent (ev_now ev) raw w'"
    using k(1) h' by (auto split: sum.splits)
  with k i t w show ?thesis by (auto dest: spent_later)
qed

lemma auth_run_spent:
  assumes ids: "random_ids (lib E)"
  shows "run_machine (auth_step E) h evs = Some h' \<Longrightarrow> issued_ok E (ah_world h) \<Longrightarrow>
    issued_ok E (ah_world h') \<and> set (aw_issued (ah_world h)) \<subseteq> set (aw_issued (ah_world h')) \<and>
    (\<forall>raw\<in>set (aw_issued (ah_world h)). spent (ah_now h) raw (ah_world h) \<longrightarrow> spent (ah_now h') raw (ah_world h'))"
proof (induction evs arbitrary: h)
  case (Cons ev evs)
  then obtain h1 where s: "auth_step E h ev = Some h1" and run: "run_machine (auth_step E) h1 evs = Some h'"
    by (auto split: option.splits)
  note one = auth_step_spent [OF ids s Cons.prems(2)]
  from one Cons.IH [OF run] show ?case by (meson subset_trans subsetD)
qed simp

lemma booted_issued [simp]: "issued_ok E (ah_world (booted r k db))"
  by (simp add: issued_ok_def booted_def)

lemma auth_step_logs: "auth_step E h ev = Some h' \<Longrightarrow> \<exists>r. ah_served h' = ah_served h @ [(ev_request ev, r)]"
  by (erule auth_step_cases) blast

interpretation auth_log: logging_machine "auth_step E" ah_served ev_request for E
  by unfold_locales (rule auth_step_logs)

lemmas auth_run_split = auth_log.run_entry

end
