(* ===== verification/TokenPromises.thy ===== *)
theory TokenPromises imports TokenHistory begin

text \<open>
  What sign-in and its tokens promise over any history of requests, with a closed world to run: a
  library whose tokens are their claims.
\<close>

section \<open>A closed world\<close>

definition demo_uuid :: "nat \<Rightarrow> string" where
  "demo_uuid n = replicate (Suc n) (CHR ''u'')"

definition demo_library :: "json library" where
  "demo_library =
     \<lparr>jwt_encode = (\<lambda>claims secret. claims),
      jwt_decode = (\<lambda>now t secret. case bindr (json_item t ''exp'') json_int of
         Inl _ \<Rightarrow> Inr t | Inr n \<Rightarrow> if now < seconds n then Inr t else Inl Expired_signature),
      bcrypt_hashpw = (\<lambda>p salt. Some (CHR ''$'' # p)), gensalt = (\<lambda>n. ''salt''),
      sha256_digest = (\<lambda>p. p), sha256_hex = claim_jti, uuid_hex = demo_uuid, py_str = (\<lambda>_. []),
      unique_detail = (\<lambda>column v. ''Key '' @ column @ '' taken: '' @ v)\<rparr>"

definition demo_redis :: "unit redis_keys" where
  "demo_redis = \<lparr>redis_ping = (\<lambda>s. (s, Inl ())), redis_setex = (\<lambda>s k n. (s, Inl ())), redis_exists = (\<lambda>s k. (s, Inl ()))\<rparr>"

definition demo_env :: "(json, unit) env" where
  "demo_env = \<lparr>lib = demo_library, conf = default_auth_settings ''secret'', keys = demo_redis, in_test = False\<rparr>"

lemma demo_laws: "pyjwt_laws (lib demo_env)" and demo_random: "random_ids (lib demo_env)"
proof -
  have "json_item t ''exp'' = Inr v \<Longrightarrow> json_int v = Inr n \<Longrightarrow> bindr (json_item t ''exp'') json_int = Inr n" for t v n
    by simp
  then show "pyjwt_laws (lib demo_env)"
    by (auto simp: demo_env_def demo_library_def pyjwt_laws_def split: sum.splits if_splits)
  have "inj demo_uuid" by (auto simp: inj_def demo_uuid_def dest: arg_cong [of _ _ length])
  then show "random_ids (lib demo_env)" by (simp add: demo_env_def demo_library_def random_ids_def demo_uuid_def)
qed

definition demo_accounts :: accounts where
  "demo_accounts = no_accounts\<lparr>
     tenants := [\<lparr>tn_id = 1, tn_code = ''acme'', tn_name = ''Acme'', tn_status = 1, tn_currency = ''CNY'', tn_timezone = ''UTC''\<rparr>],
     users := [\<lparr>u_id = 2, u_email = ''ann@acme.com'', u_hash = ''$Q29ycmVjdC1Ib3JzZTE='', u_name = None, u_status = 1,
       u_verified = None, u_last_login = None, u_failures = 0, u_locked = None, u_password_changed = None\<rparr>],
     members := [\<lparr>m_id = 3, m_tenant = 1, m_user = 2, m_role = ''OWNER'', m_status = 2, m_joined = None, m_deleted = None\<rparr>]\<rparr>"

definition at_time :: "int \<Rightarrow> json request \<Rightarrow> (json, unit) auth_event" where
  "at_time now rq = \<lparr>ev_now = seconds now, ev_redis = (), ev_request = rq\<rparr>"

text \<open>The tokens of the demonstration: what the n-th random id signs.\<close>

definition demo_token :: "string \<Rightarrow> nat \<Rightarrow> int \<Rightarrow> int \<Rightarrow> json" where
  "demo_token typ n now ttl = token_claims 2 typ (Some 1) (Some ''OWNER'') (demo_uuid n) (seconds now) ttl"

definition demo_access :: json where
  "demo_access = demo_token ''access'' 0 200 (minutes 15)"

definition demo_refresh :: json where
  "demo_refresh = demo_token ''refresh'' 1 200 (hours 168)"

definition demo_events :: "(json, unit) auth_event list" where
  "demo_events =
     [at_time 200 (Login '' Ann@acme.com'' ''Correct-Horse1'' None),
      at_time 220 (Refresh demo_refresh),
      at_time 230 (Refresh demo_refresh),
      at_time 240 (Logout (Some demo_access) None),
      at_time 250 (Confirm (Some demo_access) ''Correct-Horse1'' ''member.remove'')]"

definition refusal :: "'a res \<Rightarrow> py_error option" where
  "refusal r = (case r of Inl e \<Rightarrow> Some e | Inr _ \<Rightarrow> None)"

lemma refusal_simps [simp]: "refusal r = None \<longleftrightarrow> (\<exists>x. r = Inr x)" "refusal r = Some e \<longleftrightarrow> r = Inl e"
  by (auto simp: refusal_def split: sum.splits)

definition verdicts :: "('tok, 'r) auth_history \<Rightarrow> py_error option list" where
  "verdicts h = map (refusal \<circ> snd) (ah_served h)"

lemma demo_verdicts:
  "map_option verdicts (run_machine (auth_step demo_env) (booted () 10 demo_accounts) demo_events) =
     Some [None, None, Some unauthenticated, None, Some unauthenticated]"
  by code_simp

lemma demo_requests:
  "run_machine (auth_step E) h evs = Some h' \<Longrightarrow> map fst (ah_served h') = map fst (ah_served h) @ map ev_request evs"
  by (drule auth_log.run_logs) auto

section \<open>Spent tokens stay spent\<close>

lemma spent_after_run:
  assumes ids: "random_ids (lib E)" and run: "run_machine (auth_step E) (booted r0 k db) evs = Some h"
    and s: "auth_step E h ev = Some h1" and raw: "raw \<in> set (aw_issued (ah_world h1))" "spent (ah_now h1) raw (ah_world h1)"
    and rest: "run_machine (auth_step E) h1 evs' = Some h2"
  shows "issued_ok E (ah_world h2) \<and> raw \<in> set (aw_issued (ah_world h2)) \<and> spent (ah_now h2) raw (ah_world h2)"
proof -
  have "issued_ok E (ah_world h)" using auth_run_spent [OF ids run] by simp
  then have "issued_ok E (ah_world h1)" using auth_step_spent [OF ids s] by blast
  from auth_run_spent [OF ids rest this] raw show ?thesis by blast
qed

text \<open>Two steps of a history that one token would both be spent in: the second finds it spent.\<close>

lemma spent_twice:
  assumes laws: "pyjwt_laws (lib E)" and ids: "random_ids (lib E)"
    and run: "run_machine (auth_step E) (booted r0 k db) evs = Some h"
    and served: "ah_served h = pre @ (rq, Inr x) # mid @ (rq', Inr y) # post"
    and first: "\<And>now w w' x. issued_ok E w \<Longrightarrow> request_claims E now rq \<subseteq> set (aw_issued w) \<Longrightarrow>
      handle_auth E now rq w = (w', Inr x) \<Longrightarrow> \<exists>raw. reads E now t raw \<and> raw \<in> set (aw_issued w) \<and> spent now raw w'"
    and second: "\<And>now w w' x. issued_ok E w \<Longrightarrow> request_claims E now rq' \<subseteq> set (aw_issued w) \<Longrightarrow>
      handle_auth E now rq' w = (w', Inr x) \<Longrightarrow> \<exists>raw. reads E now t raw \<and> \<not> spent now raw w"
  shows False
proof -
  let ?w = "\<lambda>h ev. (ah_world h)\<lparr>aw_list := (aw_list (ah_world h))\<lparr>bl_redis := ev_redis ev\<rparr>\<rparr>"
  have "ah_served h = ah_served (booted r0 k db) @ pre @ (rq, Inr x) # (mid @ (rq', Inr y) # post)"
    using served by (simp add: booted_def)
  from auth_run_split [OF run this] obtain before ev after h1 h2 where
    b: "run_machine (auth_step E) (booted r0 k db) before = Some h1" and s: "auth_step E h1 ev = Some h2"
    and a: "run_machine (auth_step E) h2 after = Some h" and ev: "ev_request ev = rq"
    and h2: "ah_served h1 = pre" "ah_served h2 = ah_served h1 @ [(rq, Inr x)]"
    by (auto simp: booted_def)
  have ok1: "issued_ok E (ah_world h1)" using auth_run_spent [OF ids b] by simp
  from s obtain w' where u: "unforged E (ev_now ev) rq (?w h1 ev)"
    and hd: "handle_auth E (ev_now ev) rq (?w h1 ev) = (w', Inr x)" and w2: "ah_world h2 = w'\<lparr>aw_saved := aw_db w'\<rparr>"
    and n2: "ah_now h2 = ev_now ev"
    by (rule auth_step_cases) (use ev h2 in auto)
  from first [OF _ u [unfolded unforged_claims] hd] ok1 obtain raw where
    raw: "reads E (ev_now ev) t raw" "raw \<in> set (aw_issued (ah_world h1))" "spent (ev_now ev) raw w'" by auto
  with auth_step_spent [OF ids s ok1] w2 n2
  have sp: "raw \<in> set (aw_issued (ah_world h2))" "spent (ah_now h2) raw (ah_world h2)" by auto
  have "ah_served h = ah_served h2 @ mid @ (rq', Inr y) # post" using served h2 by simp
  from auth_run_split [OF a this] obtain between ev' after' h3 h4 where
    b': "run_machine (auth_step E) h2 between = Some h3" and s': "auth_step E h3 ev' = Some h4"
    and ev': "ev_request ev' = rq'" and h4: "ah_served h4 = ah_served h3 @ [(rq', Inr y)]" by blast
  note k = spent_after_run [OF ids b s sp b']
  from s' obtain w'' where u': "unforged E (ev_now ev') rq' (?w h3 ev')" and le: "ah_now h3 \<le> ev_now ev'"
    and hd': "handle_auth E (ev_now ev') rq' (?w h3 ev') = (w'', Inr y)"
    by (rule auth_step_cases) (use ev' h4 in auto)
  from second [OF _ u' [unfolded unforged_claims] hd'] k obtain raw' where
    raw': "reads E (ev_now ev') t raw'" "\<not> spent (ev_now ev') raw' (ah_world h3)" by auto
  from reads_same [OF laws raw(1) raw'(1)] k le raw'(2) show False by (auto dest: spent_later)
qed

text \<open>C33: In a history of one process that serves its requests one after another, a refresh token is
  exchanged at most once, however often it is presented to that process afterwards, whatever else is served in
  between and whatever Redis answers.  Requests that overlap are not in it (two exchanges may both pass the
  check before either revokes), nor is a second process while Redis is away (\<open>other_process_renews\<close>).\<close>

theorem refresh_exchanged_once:
  assumes "pyjwt_laws (lib E)" and "random_ids (lib E)"
    and "run_machine (auth_step E) (booted r0 k db) evs = Some h"
    and "ah_served h = pre @ (Refresh t, Inr x) # mid @ (Refresh t, res) # post"
  shows "\<exists>e. res = Inl e"
proof (cases res)
  case (Inr y)
  have r: "\<exists>raw. reads E now t raw \<and> raw \<in> set (aw_issued w) \<and> \<not> spent now raw w \<and> spent now raw w'"
    if w: "issued_ok E w" "request_claims E now (Refresh t) \<subseteq> set (aw_issued w)"
      and h: "handle_auth E now (Refresh t) w = (w', Inr x)" for now w w' x
  proof -
    from h obtain pair where "refresh E now t w = (w', Inr pair)" by (auto simp: respond_def bindw_Inr acts)
    from refresh_spends [OF assms(1,2) w this] w(2) show ?thesis by (auto simp: request_claims_def)
  qed
  have False
    by (rule spent_twice [OF assms(1-3) assms(4) [unfolded Inr], of t]) (blast dest: r)+
  then show ?thesis ..
qed simp

theorem refresh_exchanged_once_witness:
  "\<exists>h x res pre post. run_machine (auth_step demo_env) (booted () 10 demo_accounts) demo_events = Some h \<and>
     ah_served h = pre @ (Refresh demo_refresh, Inr x)
       # (Refresh demo_refresh, res) # post \<and> (\<exists>e. res = Inl e)"
proof -
  from demo_verdicts obtain h where h: "run_machine (auth_step demo_env) (booted () 10 demo_accounts) demo_events = Some h"
    and v: "verdicts h = [None, None, Some unauthenticated, None, Some unauthenticated]" by auto
  from demo_requests [OF h] have "map fst (ah_served h) = map ev_request demo_events" by (simp add: booted_def)
  with v obtain q1 x res q4 q5 where s: "ah_served h = [q1, (Refresh demo_refresh, Inr x), (Refresh demo_refresh, res), q4, q5]"
    by (auto simp: verdicts_def demo_events_def at_time_def map_eq_Cons_conv)
  then have t: "ah_served h = [q1] @ (Refresh demo_refresh, Inr x)
      # [] @ (Refresh demo_refresh, res) # [q4, q5]" by simp
  from refresh_exchanged_once [OF demo_laws demo_random h t] h t show ?thesis
    by (intro exI [of _ h] exI [of _ x] exI [of _ res] exI [of _ "[q1]"] exI [of _ "[q4, q5]"]) simp
qed

text \<open>What the bound does not reach: without Redis the list is the process's own, and a second process on the
  same tables exchanges the token again.\<close>

definition fresh_process :: "('tok, 'r) auth_world \<Rightarrow> ('tok, 'r) auth_world" where
  "fresh_process w = w\<lparr>aw_list := (aw_list w)\<lparr>bl_memory := (\<lambda>_. None), bl_disabled := False, bl_connected := False\<rparr>\<rparr>"

lemma other_process_renews:
  "map_option (\<lambda>h. (isl (snd (ah_served h ! 1)),
       isl (snd (serve_auth demo_env (seconds 250) (Refresh demo_refresh) (ah_world h))),
       isl (snd (serve_auth demo_env (seconds 250) (Refresh demo_refresh) (fresh_process (ah_world h))))))
     (run_machine (auth_step demo_env) (booted () 10 demo_accounts) (take 2 demo_events)) = Some (False, True, False)"
  by code_simp

text \<open>Every request that carries a bearer token first finds the identity behind it.\<close>

fun bearer_of :: "'tok request \<Rightarrow> 'tok option" where
  "bearer_of (Logout b _) = b"
| "bearer_of (Me b) = b"
| "bearer_of (Confirm b _ _) = b"
| "bearer_of (Invite b _ _) = b"
| "bearer_of (Revoke_invite b _) = b"
| "bearer_of (Set_role b _ _) = b"
| "bearer_of (Set_scope b _ _ _ _) = b"
| "bearer_of (Remove b _ _) = b"
| "bearer_of _ = None"

lemma bearer_identified:
  assumes "bearer_of rq = Some t" and "handle_auth E now rq w = (w', Inr x)"
  shows "\<exists>w1 i. get_identity E now (Some t) w = (w1, Inr i)"
proof -
  have p: "\<exists>w1 i. get_identity E now b v = (w1, Inr i)" if "require_permission E now b ps v = (v', Inr j)" for b ps v v' j
    using that by (auto simp: require_permission_def bindw_Inr)
  from assms show ?thesis by (cases rq) (auto simp: bindw_Inr dest: p)
qed

lemma bearer_not_spent:
  assumes laws: "pyjwt_laws (lib E)" and b: "bearer_of rq = Some t" and h: "handle_auth E now rq w = (w', Inr x)"
  shows "\<exists>raw. reads E now t raw \<and> \<not> spent now raw w"
proof -
  from bearer_identified [OF b h] obtain w1 i where "get_identity E now (Some t) w = (w1, Inr i)" by blast
  from get_identity_accepts [OF laws this] show ?thesis by blast
qed

text \<open>C34: Once a user has signed out, the access token the request carried opens nothing any more: every
  later request that presents it is refused, before and after the token's own expiry.\<close>

theorem signed_out_token_dead:
  assumes "pyjwt_laws (lib E)" and "random_ids (lib E)"
    and "run_machine (auth_step E) (booted r0 k db) evs = Some h"
    and "ah_served h = pre @ (Logout (Some b) t, Inr x) # mid @ (rq, res) # post" and "bearer_of rq = Some b"
  shows "\<exists>e. res = Inl e"
proof (cases res)
  case (Inr y)
  have l: "\<exists>raw. reads E now b raw \<and> raw \<in> set (aw_issued w) \<and> spent now raw w'"
    if w: "issued_ok E w" "request_claims E now (Logout (Some b) t) \<subseteq> set (aw_issued w)"
      and h: "handle_auth E now (Logout (Some b) t) w = (w', Inr x)" for now w w' x
    using logout_spends [OF assms(1,2) w h] w(2) by (auto simp: request_claims_def)
  have False
    by (rule spent_twice [OF assms(1-3) assms(4) [unfolded Inr], of b])
      (blast dest: l bearer_not_spent [OF assms(1,5)])+
  then show ?thesis ..
qed simp

theorem signed_out_token_dead_witness:
  "\<exists>h x res pre. run_machine (auth_step demo_env) (booted () 10 demo_accounts) demo_events = Some h \<and>
     ah_served h = pre @ [(Logout (Some demo_access) None, Inr x),
       (Confirm (Some demo_access) ''Correct-Horse1'' ''member.remove'', res)] \<and> (\<exists>e. res = Inl e)"
proof -
  from demo_verdicts obtain h where h: "run_machine (auth_step demo_env) (booted () 10 demo_accounts) demo_events = Some h"
    and v: "verdicts h = [None, None, Some unauthenticated, None, Some unauthenticated]" by auto
  from demo_requests [OF h] have "map fst (ah_served h) = map ev_request demo_events" by (simp add: booted_def)
  with v obtain q1 q2 q3 x res where s: "ah_served h = [q1, q2, q3, (Logout (Some demo_access) None, Inr x),
      (Confirm (Some demo_access) ''Correct-Horse1'' ''member.remove'', res)]"
    by (auto simp: verdicts_def demo_events_def at_time_def map_eq_Cons_conv)
  then have t: "ah_served h = [q1, q2, q3] @ (Logout (Some demo_access) None, Inr x)
      # [] @ (Confirm (Some demo_access) ''Correct-Horse1'' ''member.remove'', res) # []" by simp
  have b: "bearer_of (Confirm (Some demo_access) ''Correct-Horse1'' ''member.remove'') = Some demo_access" by simp
  from signed_out_token_dead [OF demo_laws demo_random h t b] h s show ?thesis
    by (intro exI [of _ h] exI [of _ x] exI [of _ res] exI [of _ "[q1, q2, q3]"]) simp
qed

text \<open>A confirmation of the password allows one removal.\<close>

theorem confirmation_used_once:
  assumes "pyjwt_laws (lib E)" and "random_ids (lib E)"
    and "run_machine (auth_step E) (booted r0 k db) evs = Some h"
    and "ah_served h = pre @ (Remove b m (Some c), Inr x) # mid @ (Remove b' m' (Some c), res) # post"
  shows "\<exists>e. res = Inl e"
proof (cases res)
  case (Inr y)
  have r: "\<exists>raw. reads E now c raw \<and> raw \<in> set (aw_issued w) \<and> \<not> spent now raw w \<and> spent now raw w'"
    if w: "issued_ok E w" "request_claims E now (Remove d n (Some c)) \<subseteq> set (aw_issued w)"
      and h: "handle_auth E now (Remove d n (Some c)) w = (w', Inr x)" for now w w' x d n
    using confirmation_spends [OF assms(1,2) w h] w(2) by (auto simp: request_claims_def)
  have False
    by (rule spent_twice [OF assms(1-3) assms(4) [unfolded Inr], of c]) (blast dest: r)+
  then show ?thesis ..
qed simp

end
