(* ===== verification/AccountSteps.thy ===== *)
theory AccountSteps imports TokenPromises begin

text \<open>
  What a request may do to the tables, as an abstract step \<open>account_step E now t (n, db) (n', db')\<close>:
  at time \<open>now\<close>, in tenant \<open>t\<close>, with the next free key \<open>n\<close>.  Every handler takes such a step, whether
  it returns or raises; a request with a bearer token takes it in the tenant of its token.
\<close>

section \<open>The abstract steps\<close>

type_synonym keyed = "int \<times> accounts"

inductive account_step :: "('tok, 'r) env \<Rightarrow> int \<Rightarrow> int option \<Rightarrow> keyed \<Rightarrow> keyed \<Rightarrow> bool" for E now where
  idle: "n \<le> n' \<Longrightarrow> account_step E now None (n, db) (n', db)"
| refused: "reason \<noteq> ''bad_password'' \<Longrightarrow> (case user of None \<Rightarrow> True | Some i \<Rightarrow> get_user i db \<noteq> None) \<Longrightarrow>
    account_step E now None (n, db) (n, log_login None email 2 (Some reason) user now db)"
| wrong_password: "u \<in> set (users db) \<Longrightarrow> \<not> is_locked now u \<Longrightarrow>
    account_step E now None (n, db)
      (n, log_login None email 2 (Some ''bad_password'') (Some (u_id u)) now (record_login_failure (conf E) now u db))"
| signed_in: "u \<in> set (users db) \<Longrightarrow> \<not> is_locked now u \<Longrightarrow> u_status u = user_active \<Longrightarrow>
    verify_password (lib E) password (u_hash u) \<Longrightarrow> require_active_tenant t db = Inr tn \<Longrightarrow>
    require_membership (u_id u) t db = Inr m \<Longrightarrow>
    account_step E now (Some t) (n, db)
      (n, append_action t ''LOGIN'' ''auth'' (Some (u_id u)) (Some (u_id u))
            (log_login (Some t) email 1 None (Some (u_id u)) now (record_login_success now u db)))"
| audited: "account_step E now (Some t) (n, db) (n, append_action t action resource user ref db)"
| registered: "app_register_tenant n (n + 1) (n + 2) email hash rg now db = Inr db1 \<Longrightarrow>
    account_step E now (Some n) (n, db)
      (n + 3, append_action n ''TENANT_REGISTER'' ''tenant'' (Some (n + 1)) (Some n) (bootstrap_tenant n (n + 2) db1))"
| verified: "u \<in> set (users db) \<Longrightarrow> account_step E now None (n, db) (n, mark_email_verified now u db)"
| invited: "role \<noteq> R_OWNER \<Longrightarrow> system_role t (role_value role) db \<Longrightarrow>
    add_invitation \<lparr>i_id = n, i_tenant = t, i_email = strip (lower address), i_role = role_value role, i_hash = hash,
      i_expires = expires, i_status = invitation_pending, i_by = actor, i_accepted = None\<rparr>
      (revoke_pending_for_email t now (strip (lower address)) db) = Inr db1 \<Longrightarrow>
    account_step E now (Some t) (n, db)
      (n + 1, append_action t ''MEMBER_INVITE'' ''member'' (Some actor) (Some n) db1)"
| invitation_withdrawn: "get_invitation t ident db = Some i \<Longrightarrow> i_status i = invitation_pending \<Longrightarrow>
    account_step E now (Some t) (n, db)
      (n, append_action t ''MEMBER_REMOVE'' ''member_invitation'' user (Some ident)
            (set_invitation_status now invitation_revoked i db))"
| joined: "get_pending_by_hash t now hash db = Some i \<Longrightarrow> u \<in> set (users db) \<Longrightarrow>
    add_member \<lparr>m_id = n, m_tenant = t, m_user = u_id u, m_role = i_role i, m_status = member_active,
      m_joined = Some now, m_deleted = None\<rparr> (mark_email_verified now u db) = Inr db1 \<Longrightarrow>
    account_step E now (Some t) (n, db)
      (n + 1, append_action t ''MEMBER_ACCEPT'' ''member'' (Some (u_id u)) (Some n)
        (set_invitation_status now invitation_accepted i
          (upsert_scope \<lparr>ds_tenant = t, ds_member = n, ds_resource = 1, ds_type = 1, ds_shops = []\<rparr> db1)))"
| joined_new: "get_pending_by_hash t now hash db = Some i \<Longrightarrow> get_by_email email db = None \<Longrightarrow>
    u_id u = n \<Longrightarrow> u_email u = email \<Longrightarrow> u_status u = user_active \<Longrightarrow> u_failures u = 0 \<Longrightarrow> u_locked u = None \<Longrightarrow>
    add_user u db = Inr db0 \<Longrightarrow>
    add_member \<lparr>m_id = n + 1, m_tenant = t, m_user = n, m_role = i_role i, m_status = member_active,
      m_joined = Some now, m_deleted = None\<rparr> db0 = Inr db1 \<Longrightarrow>
    account_step E now (Some t) (n, db)
      (n + 2, append_action t ''MEMBER_ACCEPT'' ''member'' (Some n) (Some (n + 1))
        (set_invitation_status now invitation_accepted i
          (upsert_scope \<lparr>ds_tenant = t, ds_member = n + 1, ds_resource = 1, ds_type = 1, ds_shops = []\<rparr> db1)))"
| role_changed: "get_member t ident db = Some m \<Longrightarrow> m_role m \<noteq> ''OWNER'' \<Longrightarrow> role \<noteq> R_OWNER \<Longrightarrow>
    (m_role m = ''ADMIN'' \<and> role \<noteq> R_ADMIN \<Longrightarrow> count_active_admins t db > 1) \<Longrightarrow>
    account_step E now (Some t) (n, db)
      (n, append_action t ''MEMBER_ROLE_CHANGE'' ''member'' user (Some ident) (put_member (m\<lparr>m_role := role_value role\<rparr>) db))"
| scope_changed: "get_member t ident db = Some m \<Longrightarrow> ds_tenant s = t \<Longrightarrow> ds_member s = m_id m \<Longrightarrow>
    (ds_type s = 2 \<longleftrightarrow> ds_shops s \<noteq> []) \<Longrightarrow>
    account_step E now (Some t) (n, db)
      (n, append_action t ''MEMBER_SCOPE_CHANGE'' ''member'' user (Some ident) (upsert_scope s db))"
| removed: "get_member t ident db = Some m \<Longrightarrow> m_role m \<noteq> ''OWNER'' \<Longrightarrow>
    (m_role m = ''ADMIN'' \<Longrightarrow> count_active_admins t db > 1) \<Longrightarrow>
    account_step E now (Some t) (n, db)
      (n, append_action t ''MEMBER_REMOVE'' ''member'' user (Some ident) (put_member (m\<lparr>m_deleted := Some now\<rparr>) db))"

inductive_cases account_stepE: "account_step E now t (n, db) (n', db')"

section \<open>The handlers take abstract steps\<close>

text \<open>What the session keeps of a handler's work.\<close>

definition kept_db :: "('tok, 'r) auth_world \<Rightarrow> 'a res \<Rightarrow> accounts" where
  "kept_db w r = (case r of Inl _ \<Rightarrow> aw_saved w | Inr _ \<Rightarrow> aw_db w)"

lemma kept_simps [simp]: "kept_db w (Inl e) = aw_saved w" "kept_db w (Inr x) = aw_db w"
  by (simp_all add: kept_db_def)

definition steps :: "('tok, 'r) env \<Rightarrow> int \<Rightarrow> int option \<Rightarrow> ('tok, 'r) auth_world \<Rightarrow> ('tok, 'r) auth_world \<Rightarrow> 'a res \<Rightarrow> bool" where
  "steps E now t w w' r \<longleftrightarrow>
     account_step E now None (aw_ids w, aw_db w) (aw_ids w', kept_db w' r) \<or>
     account_step E now t (aw_ids w, aw_db w) (aw_ids w', kept_db w' r)"

lemma steps_idle: "aw_ids w \<le> aw_ids w' \<Longrightarrow> kept_db w' r = aw_db w \<Longrightarrow> steps E now t w w' r"
  by (simp add: steps_def account_step.idle)

lemma find_member: "find P xs = Some x \<Longrightarrow> x \<in> set xs \<and> P x"
  by (auto simp: find_Some_iff)

lemma get_by_email_member: "get_by_email e db = Some u \<Longrightarrow> u \<in> set (users db)"
  by (auto simp: get_by_email_def dest: find_member)

lemma get_user_member: "u \<in> set (users db) \<Longrightarrow> get_user (u_id u) db \<noteq> None"
  by (auto simp: get_user_def find_None_iff)

lemma get_user_Some: "get_user i db = Some u \<Longrightarrow> u \<in> set (users db) \<and> u_id u = i"
  by (auto simp: get_user_def dest: find_member)

lemma pair_leaves:
  assumes "create_token_pair E now user tid role w = (w', r)"
  shows "aw_db w' = aw_db w \<and> aw_saved w' = aw_saved w \<and> aw_ids w' = aw_ids w"
proof -
  have "leaves aw_db (create_token_pair E now user tid role)" "leaves aw_saved (create_token_pair E now user tid role)"
    "leaves aw_ids (create_token_pair E now user tid role)"
    unfolding create_token_pair_def by (intro leaving)+
  with assms show ?thesis by (auto dest: leavesD)
qed

lemma purpose_leaves:
  assumes "create_purpose_token E now user purpose tid action email ttl w = (w', r)"
  shows "aw_db w' = aw_db w \<and> aw_saved w' = aw_saved w \<and> aw_ids w' = aw_ids w"
  using leavesD [OF leaves_tokens(5) assms] leavesD [OF leaves_tokens(6) assms] leavesD [OF leaves_tokens(7) assms] by simp

lemma list_leaves:
  assumes "ask_revoked E now j w = (w', r)"
  shows "aw_db w' = aw_db w \<and> aw_saved w' = aw_saved w \<and> aw_ids w' = aw_ids w"
  using leavesD [OF leaves_list(6) assms] leavesD [OF leaves_list(7) assms] leavesD [OF leaves_list(8) assms] by simp

lemma reject_steps:
  assumes "reject_login e None email reason user now w = (w', r)" and "reason \<noteq> ''bad_password''"
    and "case user of None \<Rightarrow> True | Some i \<Rightarrow> get_user i (aw_db w) \<noteq> None"
  shows "steps E now t w w' r"
  using assms by (auto simp: reject_login_def acts steps_def intro: account_step.refused)

lemma login_steps:
  assumes l: "login E now address password code w = (w', r)" and sync: "aw_saved w = aw_db w"
  shows "\<exists>t. steps E now t w w' r"
proof -
  let ?email = "strip (lower address)"
  show ?thesis
  proof (cases "get_by_email ?email (aw_db w)")
    case None
    with l have "reject_login unauthenticated None ?email ''user_not_found'' None now w = (w', r)"
      by (simp add: login_def acts Let_def)
    then show ?thesis using reject_steps by fastforce
  next
    case (Some u)
    then have u: "u \<in> set (users (aw_db w))" by (rule get_by_email_member)
    note known = get_user_member [OF u]
    have rej: ?thesis if "reject_login e None ?email reason (Some (u_id u)) now w = (w', r)" "reason \<noteq> ''bad_password''" for e reason
      using reject_steps [OF that] known by auto
    consider "is_locked now u" | "\<not> is_locked now u" "u_status u \<noteq> user_active"
      | "\<not> is_locked now u" "u_status u = user_active" "\<not> verify_password (lib E) password (u_hash u)"
      | "\<not> is_locked now u" "u_status u = user_active" "verify_password (lib E) password (u_hash u)" by blast
    then show ?thesis
    proof cases
      case 1
      with l Some have "reject_login (AppError ''AccountLockedError'') None ?email ''account_locked'' (Some (u_id u)) now w = (w', r)"
        by (simp add: login_def acts Let_def)
      then show ?thesis by (rule rej) simp
    next
      case 2
      with l Some have "reject_login unauthenticated None ?email ''user_disabled'' (Some (u_id u)) now w = (w', r)"
        by (simp add: login_def acts Let_def)
      then show ?thesis by (rule rej) simp
    next
      case 3
      with l Some have "r = Inl unauthenticated" "aw_ids w' = aw_ids w" "aw_saved w' =
          log_login None ?email 2 (Some ''bad_password'') (Some (u_id u)) now (record_login_failure (conf E) now u (aw_db w))"
        by (auto simp: login_def acts reject_login_def Let_def)
      with account_step.wrong_password [OF u 3(1)] show ?thesis by (auto simp: steps_def)
    next
      case 4
      let ?active = "filter (\<lambda>m. ms_status m = member_active) (list_user_tenants (u_id u) (aw_db w))"
      show ?thesis
      proof (cases "?active = []")
        case True
        with l Some 4 have "reject_login unauthenticated None ?email ''no_active_tenant'' (Some (u_id u)) now w = (w', r)"
          by (simp add: login_def acts Let_def)
        then show ?thesis by (rule rej) simp
      next
        case False
        show ?thesis
        proof (cases "pick_tenant ?active code")
          case (Inl e)
          with l Some 4 False have "w' = w" "r = Inl e" by (auto simp: login_def acts Let_def)
          with sync show ?thesis by (intro exI steps_idle) simp_all
        next
          case (Inr ch)
          show ?thesis
          proof (cases "require_active_tenant (ms_tenant ch) (aw_db w)")
            case (Inl e)
            with l Some 4 False \<open>pick_tenant ?active code = Inr ch\<close> have "w' = w" "r = Inl e"
              by (auto simp: login_def acts Let_def)
            with sync show ?thesis by (intro exI steps_idle) simp_all
          next
            case tn: (Inr tn)
            show ?thesis
            proof (cases "require_membership (u_id u) (ms_tenant ch) (aw_db w)")
              case (Inl e)
              with l Some 4 False \<open>pick_tenant ?active code = Inr ch\<close> tn have "w' = w" "r = Inl e"
                by (auto simp: login_def acts Let_def)
              with sync show ?thesis by (intro exI steps_idle) simp_all
            next
              case m: (Inr m)
              let ?db = "append_action (ms_tenant ch) ''LOGIN'' ''auth'' (Some (u_id u)) (Some (u_id u))
                (log_login (Some (ms_tenant ch)) ?email 1 None (Some (u_id u)) now (record_login_success now u (aw_db w)))"
              have step: "account_step E now (Some (ms_tenant ch)) (aw_ids w, aw_db w) (aw_ids w, ?db)"
                by (rule account_step.signed_in [OF u 4(1,2) 4(3) tn m])
              obtain w1 q where q: "create_token_pair E now (u_id u) (Some (tn_id tn)) (Some (m_role m)) (w\<lparr>aw_db := ?db\<rparr>) = (w1, q)"
                by fastforce
              from pair_leaves [OF this] have w1: "aw_db w1 = ?db" "aw_saved w1 = aw_db w" "aw_ids w1 = aw_ids w"
                using sync by simp_all
              from l Some 4 False \<open>pick_tenant ?active code = Inr ch\<close> tn m q
              have "w' = w1" by (auto simp: login_def acts Let_def bindw_def split: sum.splits)
              then show ?thesis using step w1 by (cases r) (auto simp: steps_def account_step.idle)
            qed
          qed
        qed
      qed
    qed
  qed
qed

text \<open>Handlers that only read the tables, besides the list and the supplies.\<close>

lemma quiet_steps:
  assumes "leaves aw_db m" and "leaves aw_saved m" and "leaves aw_ids m" and "m w = (w', r)" and "aw_saved w = aw_db w"
  shows "steps E now t w w' r"
  using leavesD [OF assms(1,4)] leavesD [OF assms(2,4)] leavesD [OF assms(3,4)] assms(5)
  by (intro steps_idle) (cases r; simp)+

lemma leaves_identity [leaving]:
  "leaves aw_db (get_identity E now b)" "leaves aw_saved (get_identity E now b)" "leaves aw_ids (get_identity E now b)"
  "leaves aw_db (require_permission E now b ps)" "leaves aw_saved (require_permission E now b ps)"
  "leaves aw_ids (require_permission E now b ps)"
  unfolding get_identity_def require_permission_def decode_def assert_token_not_revoked_def by (intro leaving)+

lemma leaves_refresh [leaving]:
  "leaves aw_db (refresh E now t)" "leaves aw_saved (refresh E now t)" "leaves aw_ids (refresh E now t)"
  unfolding refresh_def decode_def assert_token_not_revoked_def revoke_payload_def create_token_pair_def
  by (intro leaving)+

lemma leaves_confirmation [leaving]:
  "leaves aw_db (require_confirmation E now i a c)" "leaves aw_saved (require_confirmation E now i a c)"
  "leaves aw_ids (require_confirmation E now i a c)"
  "leaves aw_db (confirm_password E now i p a)" "leaves aw_saved (confirm_password E now i p a)"
  "leaves aw_ids (confirm_password E now i p a)"
  unfolding require_confirmation_def consume_confirmation_token_def confirm_password_def
  by (auto intro!: leaving split: option.split sum.split)

lemma logout_steps:
  assumes l: "logout E now i token w = (w', r)" and sync: "aw_saved w = aw_db w"
  shows "steps E now (Some (tn_id (id_tenant i))) w w' r"
proof -
  let ?m = "bindw (revoke_payload E now (id_payload i)) (\<lambda>_. case token of None \<Rightarrow> give () | Some t \<Rightarrow>
      suppressing unauthenticated (bindw (decode E now t ''refresh'') (\<lambda>p.
      bindw (assert_token_not_revoked E now p) (\<lambda>_. revoke_payload E now p))))"
  have m: "leaves aw_db ?m" "leaves aw_saved ?m" "leaves aw_ids ?m"
    unfolding decode_def assert_token_not_revoked_def revoke_payload_def by (intro leaving)+
  obtain w1 q where q: "?m w = (w1, q)" by fastforce
  from leavesD [OF m(1) q] leavesD [OF m(2) q] leavesD [OF m(3) q] sync
  have w1: "aw_db w1 = aw_db w" "aw_saved w1 = aw_db w" "aw_ids w1 = aw_ids w" by simp_all
  have "logout E now i token w = bindw ?m (\<lambda>_. write_db (append_action (tn_id (id_tenant i)) ''LOGOUT'' ''auth''
      (Some (u_id (id_user i))) (Some (u_id (id_user i))))) w"
    by (simp add: logout_def bindw_def split: prod.splits sum.splits)
  with l q w1 show ?thesis
    by (cases q) (auto simp: bindw_def acts steps_def account_step.idle intro: account_step.audited)
qed

lemma deliver_leaves:
  "leaves aw_db (deliver_verification E now u t e)" "leaves aw_saved (deliver_verification E now u t e)"
  "leaves aw_ids (deliver_verification E now u t e)"
  unfolding deliver_verification_def by (intro leaving)+

lemma register_steps:
  assumes l: "register E now rg w = (w', r)" and sync: "aw_saved w = aw_db w"
  shows "\<exists>t. steps E now t w w' r"
proof (cases "password_strength_error (rg_password rg)")
  case (Some e)
  with l sync have "w' = w" "r = Inl (AppError ''ParamInvalidError'')" by (simp_all add: register_def acts)
  with sync show ?thesis by (intro exI steps_idle) simp_all
next
  case None
  let ?n = "aw_ids w"
  let ?w = "w\<lparr>aw_ids := ?n + 1 + 1 + 1, aw_draws := aw_draws w + 1\<rparr>"
  have draw: "bindw draw_random f v = f (aw_draws v) (v\<lparr>aw_draws := aw_draws v + 1\<rparr>)"
    for f :: "nat \<Rightarrow> (('a, 'b) auth_world, int) act" and v :: "('a, 'b) auth_world" by (simp add: bindw_def draw_random_def)
  show ?thesis
  proof (cases "hash_password (lib E) (aw_draws w) (rg_password rg)")
    case (Inl e)
    with l None have "w' = ?w" "r = Inl e" by (simp_all add: register_def acts draw Let_def)
    with sync show ?thesis by (intro exI steps_idle) simp_all
  next
    case (Inr hash)
    let ?reg = "app_register_tenant ?n (?n + 1) (?n + 1 + 1) (strip (lower (rg_email rg))) hash rg now (aw_db w)"
    show ?thesis
    proof (cases ?reg)
      case (Inl v)
      with l None \<open>hash_password _ _ _ = Inr hash\<close> have "w' = ?w" "r = Inl (register_error (lib E) v)"
        by (simp_all add: register_def acts draw Let_def)
      with sync show ?thesis by (intro exI steps_idle) simp_all
    next
      case reg: (Inr db)
      let ?db = "append_action ?n ''TENANT_REGISTER'' ''tenant'' (Some (?n + 1)) (Some ?n) (bootstrap_tenant ?n (?n + 1 + 1) db)"
      let ?v = "?w\<lparr>aw_db := ?db, aw_saved := ?db\<rparr>"
      obtain w1 q where q: "deliver_verification E now (?n + 1) ?n (strip (lower (rg_email rg))) ?v = (w1, q)" by fastforce
      from leavesD [OF deliver_leaves(1) q] leavesD [OF deliver_leaves(2) q] leavesD [OF deliver_leaves(3) q]
      have w1: "aw_db w1 = ?db" "aw_saved w1 = ?db" "aw_ids w1 = ?n + 3" by simp_all
      from l None Inr reg q have "w' = w1" by (auto simp: register_def acts draw Let_def
          bindw_def [of "deliver_verification _ _ _ _ _"] split: sum.splits)
      moreover have "account_step E now (Some ?n) (?n, aw_db w) (?n + 3, ?db)"
        using account_step.registered [of ?n "strip (lower (rg_email rg))" hash rg now "aw_db w" db E] reg by (simp add: add.assoc)
      ultimately show ?thesis using w1 by (intro exI [of _ "Some ?n"]) (cases r; simp add: steps_def)
    qed
  qed
qed

lemma verify_steps:
  assumes l: "verify_email E now token w = (w', r)" and sync: "aw_saved w = aw_db w"
  shows "steps E now t w w' r"
proof -
  have still: ?thesis if "w' = w" using that sync by (intro steps_idle) (cases r; simp)+
  show ?thesis
  proof (cases "decode_purpose_token (lib E) (conf E) now token ''email_verify''")
    case (Inl e)
    with l show ?thesis by (intro still) (auto simp: verify_email_def acts)
  next
    case (Inr p)
    show ?thesis
    proof (cases "get_user (pp_sub p) (aw_db w)")
      case None
      with l Inr show ?thesis by (intro still) (auto simp: verify_email_def acts split: if_splits)
    next
      case (Some u)
      with get_user_Some have "u \<in> set (users (aw_db w))" by blast
      from account_step.verified [OF this] have v: "account_step E now None (aw_ids w, aw_db w) (aw_ids w, mark_email_verified now u (aw_db w))" .
      from l Inr Some consider "w' = w" | "w' = w\<lparr>aw_db := mark_email_verified now u (aw_db w)\<rparr>" "r = Inr ()"
        by (auto simp: verify_email_def acts split: if_splits)
      then show ?thesis by cases (use still v in \<open>auto simp: steps_def\<close>)
    qed
  qed
qed

lemma leaves_resend:
  "leaves aw_db (resend_verification E now a)" "leaves aw_saved (resend_verification E now a)"
  "leaves aw_ids (resend_verification E now a)"
  unfolding resend_verification_def by (auto intro!: leaving deliver_leaves split: option.split list.split)

lemma bindw_deliver:
  "bindw (deliver_link k a t) f w =
     f () (w\<lparr>aw_outbox := aw_outbox w @ [\<lparr>k_kind = k, k_recipient = a, k_token = t\<rparr>]\<rparr>)"
  by (simp add: bindw_def deliver_link_def)

lemma invite_steps:
  assumes l: "invite E now i address role w = (w', r)" and sync: "aw_saved w = aw_db w" and role: "role \<noteq> R_OWNER"
  shows "steps E now (Some (tn_id (id_tenant i))) w w' r"
proof (cases "system_role (tn_id (id_tenant i)) (role_value role) (aw_db w)")
  case False
  with l have "w' = w" "r = Inl (AppError ''ParamInvalidError'')" by (simp_all add: invite_def acts Let_def)
  with sync show ?thesis by (intro steps_idle) simp_all
next
  case True
  let ?t = "tn_id (id_tenant i)" and ?email = "strip (lower address)" and ?n = "aw_ids w"
    and ?ttl = "hours (member_invitation_ttl_hours (conf E))"
  let ?db = "revoke_pending_for_email ?t now ?email (aw_db w)"
  let ?w = "w\<lparr>aw_db := ?db, aw_ids := ?n + 1\<rparr>"
  obtain w1 q where q: "create_purpose_token E now ?n ''member_invite'' (Some ?t) None (Some ?email) ?ttl ?w = (w1, q)" by fastforce
  from purpose_leaves [OF this] sync have w1: "aw_db w1 = ?db" "aw_saved w1 = aw_db w" "aw_ids w1 = ?n + 1" by simp_all
  show ?thesis
  proof (cases q)
    case (Inl e)
    with l True q have "w' = w1" "r = Inl e" by (auto simp: invite_def acts Let_def bindw_def [of "create_purpose_token _ _ _ _ _ _ _ _"])
    with w1 show ?thesis by (intro steps_idle) simp_all
  next
    case (Inr token)
    let ?row = "\<lparr>i_id = ?n, i_tenant = ?t, i_email = ?email, i_role = role_value role, i_hash = sha256_hex (lib E) token,
      i_expires = now + ?ttl, i_status = invitation_pending, i_by = u_id (id_user i), i_accepted = None\<rparr>"
    show ?thesis
    proof (cases "add_invitation ?row ?db")
      case (Inl e)
      with l True q \<open>q = Inr token\<close> w1 have "w' = w1" "r = Inl e"
        by (auto simp: invite_def acts Let_def bindw_def [of "create_purpose_token _ _ _ _ _ _ _ _"])
      with w1 show ?thesis by (intro steps_idle) simp_all
    next
      case db1: (Inr db1)
      let ?db1 = "append_action ?t ''MEMBER_INVITE'' ''member'' (Some (u_id (id_user i))) (Some ?n) db1"
      from l True q Inr w1 db1 have "aw_db w' = ?db1" "aw_saved w' = ?db1" "aw_ids w' = ?n + 1"
        by (auto simp: invite_def acts Let_def bindw_def [of "create_purpose_token _ _ _ _ _ _ _ _"] bindw_deliver)
      moreover have "account_step E now (Some ?t) (?n, aw_db w) (?n + 1, ?db1)"
        by (rule account_step.invited [OF role True db1])
      ultimately show ?thesis by (cases r) (auto simp: steps_def)
    qed
  qed
qed

lemma revoke_invitation_steps:
  assumes l: "revoke_invitation now i ident w = (w', r)" and sync: "aw_saved w = aw_db w"
  shows "steps E now (Some (tn_id (id_tenant i))) w w' r"
proof (cases "get_invitation (tn_id (id_tenant i)) ident (aw_db w)")
  case None
  with l sync show ?thesis by (intro steps_idle) (auto simp: revoke_invitation_def acts Let_def)
next
  case (Some row)
  show ?thesis
  proof (cases "i_status row = invitation_pending")
    case False
    with l Some sync show ?thesis by (intro steps_idle) (auto simp: revoke_invitation_def acts Let_def)
  next
    case True
    with l Some account_step.invitation_withdrawn [OF Some True, where E = E] show ?thesis
      by (auto simp: revoke_invitation_def acts Let_def steps_def)
  qed
qed

lemma guard_admin_eq:
  "bindw (guard_admin t needed) f w =
     (if needed \<and> count_active_admins t (aw_db w) \<le> 1 then (w, Inl (AppError ''LAST_ADMIN_PROTECTED'')) else f () w)"
  by (simp add: guard_admin_def protect_last_admin_def acts bindw_def)

lemma member_response_still: "member_response m w = (w', r) \<Longrightarrow> w' = w"
  by (auto simp: member_response_def acts split: option.splits)

lemma change_role_steps:
  assumes l: "change_role i ident role w = (w', r)" and sync: "aw_saved w = aw_db w" and role: "role \<noteq> R_OWNER"
  shows "steps E now (Some (tn_id (id_tenant i))) w w' r"
proof -
  let ?t = "tn_id (id_tenant i)"
  have still: ?thesis if "w' = w" using that sync by (intro steps_idle) (cases r; simp)+
  show ?thesis
  proof (cases "get_member ?t ident (aw_db w)")
    case None
    with l show ?thesis by (intro still) (auto simp: change_role_def acts Let_def)
  next
    case (Some m)
    let ?g = "m_role m = ''ADMIN'' \<and> role \<noteq> R_ADMIN"
    consider "m_role m = ''OWNER'' \<or> ?g \<and> count_active_admins ?t (aw_db w) \<le> 1 \<or> \<not> system_role ?t (role_value role) (aw_db w)"
      | "m_role m \<noteq> ''OWNER''" "?g \<longrightarrow> count_active_admins ?t (aw_db w) > 1" "system_role ?t (role_value role) (aw_db w)"
      by linarith
    then show ?thesis
    proof cases
      case 1
      with l Some show ?thesis by (intro still) (auto simp: change_role_def acts Let_def guard_admin_eq split: if_splits)
    next
      case 2
      let ?db = "append_action ?t ''MEMBER_ROLE_CHANGE'' ''member'' (Some (u_id (id_user i))) (Some ident)
          (put_member (m\<lparr>m_role := role_value role\<rparr>) (aw_db w))"
      have "member_response (m\<lparr>m_role := role_value role\<rparr>) (w\<lparr>aw_db := ?db\<rparr>) = (w', r)"
        using l Some 2 by (auto simp: change_role_def acts Let_def guard_admin_eq split: if_splits)
      then have "w' = w\<lparr>aw_db := ?db\<rparr>" by (rule member_response_still)
      with account_step.role_changed [OF Some 2(1) role, where E = E] 2(2) sync show ?thesis
        by (cases r) (auto simp: steps_def account_step.idle)
    qed
  qed
qed

lemma update_scope_steps:
  assumes l: "update_scope i ident resource kind shops w = (w', r)" and sync: "aw_saved w = aw_db w"
  shows "steps E now (Some (tn_id (id_tenant i))) w w' r"
proof -
  let ?t = "tn_id (id_tenant i)"
  have still: ?thesis if "w' = w" using that sync by (intro steps_idle) (cases r; simp)+
  show ?thesis
  proof (cases "get_member ?t ident (aw_db w)")
    case None
    with l show ?thesis by (intro still) (auto simp: update_scope_def acts Let_def)
  next
    case (Some m)
    show ?thesis
    proof (cases "kind = 2 \<and> shops = []")
      case True
      with l Some show ?thesis by (intro still) (auto simp: update_scope_def acts Let_def)
    next
      case False
      let ?s = "\<lparr>ds_tenant = ?t, ds_member = m_id m, ds_resource = resource, ds_type = kind,
        ds_shops = if kind \<noteq> 2 then [] else shops\<rparr>"
      have "w' = w\<lparr>aw_db := append_action ?t ''MEMBER_SCOPE_CHANGE'' ''member'' (Some (u_id (id_user i))) (Some ident)
          (upsert_scope ?s (aw_db w))\<rparr>"
        using l Some False by (auto simp: update_scope_def acts Let_def dest!: member_response_still)
      moreover have "account_step E now (Some ?t) (aw_ids w, aw_db w) (aw_ids w, append_action ?t ''MEMBER_SCOPE_CHANGE'' ''member''
          (Some (u_id (id_user i))) (Some ident) (upsert_scope ?s (aw_db w)))"
        by (rule account_step.scope_changed [OF Some]) (use False in auto)
      ultimately show ?thesis using sync by (cases r) (auto simp: steps_def account_step.idle)
    qed
  qed
qed

lemma remove_member_steps:
  assumes l: "remove_member now i ident w = (w', r)" and sync: "aw_saved w = aw_db w"
  shows "steps E now (Some (tn_id (id_tenant i))) w w' r"
proof -
  let ?t = "tn_id (id_tenant i)"
  have still: ?thesis if "w' = w" using that sync by (intro steps_idle) (cases r; simp)+
  show ?thesis
  proof (cases "get_member ?t ident (aw_db w)")
    case None
    with l show ?thesis by (intro still) (auto simp: remove_member_def acts Let_def)
  next
    case (Some m)
    consider "m_role m = ''OWNER'' \<or> m_role m = ''ADMIN'' \<and> count_active_admins ?t (aw_db w) \<le> 1"
      | "m_role m \<noteq> ''OWNER''" "m_role m = ''ADMIN'' \<longrightarrow> count_active_admins ?t (aw_db w) > 1" by linarith
    then show ?thesis
    proof cases
      case 1
      with l Some show ?thesis by (intro still) (auto simp: remove_member_def acts Let_def guard_admin_eq split: if_splits)
    next
      case 2
      have "w' = w\<lparr>aw_db := append_action ?t ''MEMBER_REMOVE'' ''member'' (Some (u_id (id_user i))) (Some ident)
          (put_member (m\<lparr>m_deleted := Some now\<rparr>) (aw_db w))\<rparr> \<and> r = Inr ()"
        using l Some 2 by (auto simp: remove_member_def acts Let_def guard_admin_eq)
      with account_step.removed [OF Some 2(1), where E = E] 2(2) show ?thesis by (auto simp: steps_def)
    qed
  qed
qed

lemma invited_user_cases:
  assumes "invited_user E now email password display w = (w1, r)"
  shows "aw_saved w1 = aw_saved w \<and> aw_ids w \<le> aw_ids w1 \<and>
    (case r of
       Inl e \<Rightarrow> True
     | Inr u \<Rightarrow>
         (u \<in> set (users (aw_db w)) \<and> aw_db w1 = mark_email_verified now u (aw_db w) \<and> aw_ids w1 = aw_ids w) \<or>
         (get_by_email email (aw_db w) = None \<and> u_id u = aw_ids w \<and> u_email u = email \<and> u_status u = user_active \<and>
          u_failures u = 0 \<and> u_locked u = None \<and> add_user u (aw_db w) = Inr (aw_db w1) \<and> aw_ids w1 = aw_ids w + 1))"
proof -
  have draw: "bindw draw_random f v = f (aw_draws v) (v\<lparr>aw_draws := aw_draws v + 1\<rparr>)"
    for f :: "nat \<Rightarrow> (('a, 'b) auth_world, sys_user) act" and v :: "('a, 'b) auth_world" by (simp add: bindw_def draw_random_def)
  show ?thesis
  proof (cases "get_by_email email (aw_db w)")
    case None
    with assms show ?thesis
      by (auto simp: invited_user_def acts draw Let_def split: option.splits sum.splits)
  next
    case (Some u)
    with assms get_by_email_member [OF Some] show ?thesis
      by (auto simp: invited_user_def acts split: if_splits)
  qed
qed

lemma accept_steps:
  assumes l: "accept E now token password display w = (w', r)" and sync: "aw_saved w = aw_db w"
  shows "\<exists>t. steps E now t w w' r"
proof -
  have idle: ?thesis if "aw_ids w \<le> aw_ids w'" "aw_saved w' = aw_db w" "r = Inl e" for e
    using that by (intro exI [of _ None] steps_idle) simp_all
  show ?thesis
  proof (cases "decode_purpose_token (lib E) (conf E) now token ''member_invite''")
    case (Inl e)
    with l have "w' = w" "\<exists>e. r = Inl e" by (auto simp: accept_def acts)
    with sync show ?thesis using idle by auto
  next
    case (Inr p)
    note dec = this
    show ?thesis
    proof (cases "pp_tid p = None \<or> pp_email p = None \<or> pp_email p = Some []")
      case True
      with l sync Inr show ?thesis
        by (intro idle [of "AppError ''INVITATION_INVALID''"])
          (auto simp: accept_def acts split: option.splits list.splits)
    next
      case False
      then obtain tid c cs where t: "pp_tid p = Some tid" "pp_email p = Some (c # cs)" by (auto simp: neq_Nil_conv)
      let ?find = "get_pending_by_hash tid now (sha256_hex (lib E) token) (aw_db w)"
      show ?thesis
      proof (cases "?find = None \<or> i_id (the ?find) \<noteq> pp_sub p")
        case True
        with l dec t have "w' = w \<and> r = Inl (AppError ''INVITATION_INVALID'')"
          by (cases ?find) (auto simp: accept_def acts)
        with sync show ?thesis using idle by auto
      next
        case False
        then obtain i where i: "?find = Some i" "i_id i = pp_sub p" by auto
        obtain w1 q where q: "invited_user E now (c # cs) password display w = (w1, q)" by fastforce
        note u = invited_user_cases [OF q]
        let ?rest = "\<lambda>u. bindw (ask_db (get_membership tid (u_id u))) (\<lambda>already.
            if already \<noteq> None then fail (AppError ''ConflictError'')
            else bindw draw_id (\<lambda>mid.
              bindw (ask_db (add_member \<lparr>m_id = mid, m_tenant = tid, m_user = u_id u, m_role = i_role i,
                m_status = member_active, m_joined = Some now, m_deleted = None\<rparr>)) (\<lambda>r.
              bindw (lift_res r) (\<lambda>db. bindw (write_db (\<lambda>_. db)) (\<lambda>_.
              bindw (write_db (upsert_scope
                \<lparr>ds_tenant = tid, ds_member = mid, ds_resource = 1, ds_type = 1, ds_shops = []\<rparr>)) (\<lambda>_.
              bindw (write_db (set_invitation_status now invitation_accepted i)) (\<lambda>_.
              bindw (write_db (append_action tid ''MEMBER_ACCEPT'' ''member'' (Some (u_id u)) (Some mid))) (\<lambda>_.
              give (tid, mid)))))))))"
        from l dec t i q have l': "(case q of Inl e \<Rightarrow> (w1, Inl e) | Inr u \<Rightarrow> ?rest u w1) = (w', r)"
          by (cases q) (simp_all add: accept_def acts bindw_ran [of "invited_user E now (c # cs) password display", OF q])
        show ?thesis
        proof (cases q)
          case (Inl e)
          with l' u sync show ?thesis by (intro idle [of e]) auto
        next
          case (Inr v)
          let ?n = "aw_ids w1"
          let ?m = "\<lparr>m_id = ?n, m_tenant = tid, m_user = u_id v, m_role = i_role i, m_status = member_active,
            m_joined = Some now, m_deleted = None\<rparr>"
          have rest: "?rest v w1 = (w', r)" using l' Inr by simp
          show ?thesis
          proof (cases "get_membership tid (u_id v) (aw_db w1)")
            case (Some _)
            with rest u sync show ?thesis by (intro idle [of "AppError ''ConflictError''"]) (auto simp: acts)
          next
            case None
            show ?thesis
            proof (cases "add_member ?m (aw_db w1)")
              case (Inl e)
              with rest None u sync show ?thesis by (intro idle [of e]) (auto simp: acts)
            next
              case add: (Inr db1)
              let ?db = "append_action tid ''MEMBER_ACCEPT'' ''member'' (Some (u_id v)) (Some ?n)
                (set_invitation_status now invitation_accepted i
                  (upsert_scope \<lparr>ds_tenant = tid, ds_member = ?n, ds_resource = 1, ds_type = 1, ds_shops = []\<rparr> db1))"
              from rest None add have w': "aw_db w' = ?db" "aw_ids w' = ?n + 1" "\<exists>x. r = Inr x"
                by (auto simp: acts)
              have "account_step E now (Some tid) (aw_ids w, aw_db w) (?n + 1, ?db)"
                using u Inr
              proof (simp, elim conjE disjE)
                assume "v \<in> set (users (aw_db w))" "aw_db w1 = mark_email_verified now v (aw_db w)" "?n = aw_ids w"
                with account_step.joined [where E = E, OF i(1), of v ?n db1] add show ?thesis by simp
              next
                assume "get_by_email (c # cs) (aw_db w) = None" "u_id v = aw_ids w" "u_email v = c # cs"
                  "u_status v = user_active" "u_failures v = 0" "u_locked v = None"
                  "add_user v (aw_db w) = Inr (aw_db w1)" "?n = aw_ids w + 1"
                with account_step.joined_new [where E = E, OF i(1), of "c # cs" v "aw_ids w" "aw_db w1" db1] add show ?thesis
                  by (simp add: add.assoc)
              qed
              with w' show ?thesis by (auto simp: steps_def)
            qed
          qed
        qed
      qed
    qed
  qed
qed

section \<open>Requests\<close>

lemma steps_after:
  assumes "leaves aw_db m" and "leaves aw_saved m" and "leaves aw_ids m" and "m w = (w1, q)" and "aw_saved w = aw_db w"
  shows "aw_saved w1 = aw_db w1" and "steps E now t w1 w' r \<Longrightarrow> steps E now t w w' r"
  using leavesD [OF assms(1,4)] leavesD [OF assms(2,4)] leavesD [OF assms(3,4)] assms(5) by (simp_all add: steps_def)

text \<open>A handler behind the identity of its bearer token.\<close>

definition speaks_for :: "('tok, 'r) env \<Rightarrow> int \<Rightarrow> 'tok option \<Rightarrow> identity \<Rightarrow> bool" where
  "speaks_for E now b i \<longleftrightarrow>
     (\<exists>t p. b = Some t \<and> decode_token (lib E) (conf E) now t ''access'' = Inr p \<and> tp_tid p = Some (tn_id (id_tenant i)))"

lemma get_tenant_id: "get_tenant t db = Some tn \<Longrightarrow> tn_id tn = t"
  by (auto simp: get_tenant_def dest: find_member)

lemma yields_decode:
  "(\<And>p. decode_token (lib E) (conf E) now t k = Inr p \<Longrightarrow> yields (f p) Q) \<Longrightarrow> yields (bindw (decode E now t k) f) Q"
  by (auto simp: yields_def decode_def acts split: sum.splits)

lemma yields_found:
  "(\<And>x db. f db = Some x \<Longrightarrow> yields (g x) Q) \<Longrightarrow>
     yields (bindw (ask_db f) (\<lambda>found. case found of None \<Rightarrow> fail e | Some x \<Rightarrow> g x)) Q"
  by (auto simp: yields_def acts split: option.splits)

lemma identity_speaks: "yields (get_identity E now b) (speaks_for E now b)"
  unfolding get_identity_def
  apply (rule yields_case)
  apply (rule yields_decode)
  apply (rule yields_bindw [OF yields_simps(3)])
  apply (rule yields_case)
  apply (rule yields_found)
  apply (rule yields_unless)
  apply (rule yields_found)
  apply (rule yields_unless)
  apply (rule yields_found)
  apply (rule yields_unless)
  apply (rule yields_unless)
  apply (auto simp: yields_simps speaks_for_def dest: get_tenant_id)
  done

lemma permission_speaks: "yields (require_permission E now b ps) (speaks_for E now b)"
  using identity_speaks [of E now b]
  by (auto simp: yields_def require_permission_def bindw_Inr acts split: if_splits)

definition acts_for :: "('tok, 'r) env \<Rightarrow> int \<Rightarrow> 'tok option \<Rightarrow> int option \<Rightarrow> bool" where
  "acts_for E now b t \<longleftrightarrow> t = None \<or> (\<exists>i. speaks_for E now b i \<and> t = Some (tn_id (id_tenant i)))"

lemma behind_bearer:
  assumes m: "leaves aw_db m" "leaves aw_saved m" "leaves aw_ids m" and y: "yields m (speaks_for E now b)"
    and h: "bindw m f w = (w', r)" and sync: "aw_saved w = aw_db w"
    and f: "\<And>i w1. aw_saved w1 = aw_db w1 \<Longrightarrow> f i w1 = (w', r) \<Longrightarrow> steps E now (Some (tn_id (id_tenant i))) w1 w' r"
  shows "\<exists>t. steps E now t w w' r \<and> acts_for E now b t"
proof -
  obtain w1 q where q: "m w = (w1, q)" by fastforce
  note k = steps_after [OF m q sync]
  show ?thesis
  proof (cases q)
    case (Inl e)
    with h q have "w' = w1" "r = Inl e" by (simp_all add: bindw_def)
    with leavesD [OF m(2) q] leavesD [OF m(3) q] sync show ?thesis
      by (intro exI [of _ None]) (simp add: steps_idle acts_for_def)
  next
    case (Inr i)
    with h q have "f i w1 = (w', r)" by (simp add: bindw_def)
    from k(2) [OF f [OF k(1) this]] yieldsD [OF y q [unfolded Inr]] show ?thesis by (auto simp: acts_for_def)
  qed
qed

lemma respond_steps:
  assumes "respond g m w = (w', r)" and "\<And>r'. m w = (w', r') \<Longrightarrow> steps E now t w w' r'"
  shows "steps E now t w w' r"
proof -
  obtain w1 q where q: "m w = (w1, q)" by fastforce
  with assms(1) have "w' = w1" "kept_db w' r = kept_db w' q" by (auto simp: respond_def bindw_def acts split: sum.splits)
  with assms(2) q show ?thesis by (simp add: steps_def)
qed

lemma respond_some:
  assumes "respond g m w = (w', r)" and "\<And>r'. m w = (w', r') \<Longrightarrow> \<exists>t. steps E now t w w' r'"
  shows "\<exists>t. steps E now t w w' r"
proof -
  obtain w1 q where q: "m w = (w1, q)" by fastforce
  with assms(1) have "w' = w1" "kept_db w' r = kept_db w' q" by (auto simp: respond_def bindw_def acts split: sum.splits)
  with assms(2) q show ?thesis by (simp add: steps_def)
qed

lemma valid_steps:
  assumes "valid ok m w = (w', r)" and "aw_saved w = aw_db w" and "ok \<Longrightarrow> m w = (w', r) \<Longrightarrow> steps E now t w w' r"
  shows "steps E now t w w' r"
  using assms by (cases ok) (auto simp: valid_def acts intro: steps_idle)

lemma valid_some:
  assumes "valid ok m w = (w', r)" and "aw_saved w = aw_db w" and "m w = (w', r) \<Longrightarrow> \<exists>t. steps E now t w w' r"
  shows "\<exists>t. steps E now t w w' r"
proof (cases ok)
  case True
  with assms show ?thesis by (simp add: valid_def)
next
  case False
  with assms show ?thesis by (intro exI [of _ None] steps_idle) (auto simp: valid_def acts)
qed

lemma bearer_done:
  assumes "\<exists>t. steps E now t w w' r \<and> acts_for E now b t"
  shows "\<exists>t. steps E now t w w' r \<and> (\<forall>b'. b = Some b' \<longrightarrow> acts_for E now (Some b') t)"
  using assms by auto

theorem handle_auth_steps:
  assumes h: "handle_auth E now rq w = (w', r)" and sync: "aw_saved w = aw_db w"
  shows "\<exists>t. steps E now t w w' r \<and> (\<forall>b. bearer_of rq = Some b \<longrightarrow> acts_for E now (Some b) t)"
proof (cases rq)
  case (Login a p c)
  with h have "valid (password_valid p \<and> (case c of None \<Rightarrow> True | Some c \<Rightarrow> length c \<le> 64))
      (respond Signed_in (login E now a p c)) w = (w', r)" by simp
  from valid_some [OF this sync respond_some [OF _ login_steps [OF _ sync]]] Login show ?thesis by auto
next
  case (Refresh t)
  with h have "respond Renewed (refresh E now t) w = (w', r)" by simp
  from respond_steps [OF this quiet_steps [OF leaves_refresh _ sync]] Refresh show ?thesis by auto
next
  case (Logout b t)
  then have "bindw (get_identity E now b) (\<lambda>i. respond (\<lambda>_. Done) (logout E now i t)) w = (w', r)" using h by simp
  note handler = behind_bearer [OF leaves_identity(1-3) identity_speaks this sync]
  show ?thesis
    unfolding Logout bearer_of.simps by (rule bearer_done, rule handler) (auto intro: respond_steps logout_steps)
next
  case (Me b)
  then have "bindw (get_identity E now b) (\<lambda>i.
     bindw (ask_db (build_tenant_context i)) (\<lambda>r. respond Context (lift_res r))) w = (w', r)" using h by simp
  note handler = behind_bearer [OF leaves_identity(1-3) identity_speaks this sync]
  show ?thesis
    unfolding Me bearer_of.simps by (rule bearer_done, rule handler) (auto simp: acts respond_def intro!: steps_idle split: sum.splits)
next
  case (Confirm b p a)
  then have "bindw (get_identity E now b) (\<lambda>i. valid (password_valid p \<and> 1 \<le> length a \<and> length a \<le> 64)
       (respond (\<lambda>(t, n). Confirmed t n) (confirm_password E now i p a))) w = (w', r)" using h by simp
  note handler = behind_bearer [OF leaves_identity(1-3) identity_speaks this sync]
  show ?thesis
    unfolding Confirm bearer_of.simps by (rule bearer_done, rule handler) (auto intro: valid_steps respond_steps quiet_steps leaves_confirmation)
next
  case (Register rg)
  with h have "valid (registration_valid rg) (respond Made (register E now (rg\<lparr>rg_currency := upper (rg_currency rg)\<rparr>))) w = (w', r)"
    by simp
  from valid_some [OF this sync respond_some [OF _ register_steps [OF _ sync]]] Register show ?thesis by auto
next
  case (Verify t)
  with h have "respond (\<lambda>_. Done) (verify_email E now t) w = (w', r)" by simp
  from respond_steps [OF this verify_steps [OF _ sync]] Verify show ?thesis by auto
next
  case (Resend a)
  with h have "respond (\<lambda>_. Done) (resend_verification E now a) w = (w', r)" by simp
  from respond_steps [OF this quiet_steps [OF leaves_resend _ sync]] Resend show ?thesis by auto
next
  case (Invite b a role)
  then have "bindw (member_writer E now b) (\<lambda>i. valid (role \<noteq> R_OWNER) (respond Made (invite E now i a role))) w = (w', r)"
    using h by simp
  note handler = behind_bearer [OF leaves_identity(4-6) permission_speaks this sync]
  show ?thesis
    unfolding Invite bearer_of.simps by (rule bearer_done, rule handler) (auto intro: valid_steps respond_steps invite_steps)
next
  case (Accept t p d)
  then have "valid (password_valid p \<and> (case d of None \<Rightarrow> True | Some n \<Rightarrow> length n \<le> 64))
       (respond (\<lambda>(t, m). Joined t m) (accept E now t p d)) w = (w', r)" using h by simp
  from valid_some [OF this sync respond_some [OF _ accept_steps [OF _ sync]]] Accept show ?thesis by auto
next
  case (Revoke_invite b ident)
  then have "bindw (member_writer E now b) (\<lambda>i. respond (\<lambda>_. Done) (revoke_invitation now i ident)) w = (w', r)" using h by simp
  note handler = behind_bearer [OF leaves_identity(4-6) permission_speaks this sync]
  show ?thesis
    unfolding Revoke_invite bearer_of.simps by (rule bearer_done, rule handler) (auto intro: respond_steps revoke_invitation_steps)
next
  case (Set_role b ident role)
  then have "bindw (member_writer E now b) (\<lambda>i. valid (role \<noteq> R_OWNER) (respond (\<lambda>_. Done) (change_role i ident role))) w = (w', r)"
    using h by simp
  note handler = behind_bearer [OF leaves_identity(4-6) permission_speaks this sync]
  show ?thesis
    unfolding Set_role bearer_of.simps by (rule bearer_done, rule handler) (auto intro: valid_steps respond_steps change_role_steps)
next
  case (Set_scope b ident resource kind shops)
  then have "bindw (member_writer E now b) (\<lambda>i. valid (scope_valid resource kind shops)
       (respond (\<lambda>_. Done) (update_scope i ident resource kind (uniq shops)))) w = (w', r)" using h by simp
  note handler = behind_bearer [OF leaves_identity(4-6) permission_speaks this sync]
  show ?thesis
    unfolding Set_scope bearer_of.simps by (rule bearer_done, rule handler) (auto intro: valid_steps respond_steps update_scope_steps)
next
  case (Remove b ident c)
  then have h': "bindw (member_writer E now b) (\<lambda>i. bindw (require_confirmation E now i ''member.remove'' c) (\<lambda>_.
     respond (\<lambda>_. Done) (remove_member now i ident))) w = (w', r)" using h by simp
  have "steps E now (Some (tn_id (id_tenant i))) w1 w' r"
    if s: "aw_saved w1 = aw_db w1" and f: "bindw (require_confirmation E now i ''member.remove'' c) (\<lambda>_.
      respond (\<lambda>_. Done) (remove_member now i ident)) w1 = (w', r)" for i w1
  proof -
    obtain w2 q where q: "require_confirmation E now i ''member.remove'' c w1 = (w2, q)" by fastforce
    note k = steps_after [OF leaves_confirmation(1-3) q s]
    show ?thesis
    proof (cases q)
      case (Inl e)
      with f q have "w' = w2" "r = Inl e" by (simp_all add: bindw_def)
      with leavesD [OF leaves_confirmation(2) q] leavesD [OF leaves_confirmation(3) q] s show ?thesis
        by (intro steps_idle) simp_all
    next
      case (Inr x)
      with f q have "respond (\<lambda>_. Done) (remove_member now i ident) w2 = (w', r)" by (simp add: bindw_def)
      from k(2) [OF respond_steps [OF this remove_member_steps [OF _ k(1)]]] show ?thesis .
    qed
  qed
  from behind_bearer [OF leaves_identity(4-6) permission_speaks h' sync this] Remove show ?thesis by auto
qed

end
