(* ===== verification/AccountInvariant.thy ===== *)
theory AccountInvariant imports AccountSteps begin

text \<open>
  What every abstract step keeps of the tables: keys and unique columns (\<open>keyed_ok\<close>), one owner for
  every tenant (\<open>owned\<close>), at most one live invitation for an address (\<open>one_live\<close>), the account of
  wrong passwords at the sign-in (\<open>guesses_ok\<close>); what it never undoes (\<open>gone\<close>, \<open>taken_up\<close>); and the rows of other
  tenants (\<open>elsewhere\<close>).  By \<open>handle_auth_steps\<close> every request of every history keeps them.
\<close>

lemmas account_step_cases = account_stepE [consumes 1, case_names idle refused wrong_password signed_in audited registered
  verified invited invitation_withdrawn joined joined_new role_changed scope_changed removed]

section \<open>Rows\<close>

lemma lower_char_lower [simp]: "lower_char (lower_char c) = lower_char c"
  by (auto simp: lower_char_def Let_def)

lemma set_strip: "set (strip s) \<subseteq> set s"
  unfolding strip_def by (metis order_trans set_dropWhileD set_rev subsetI)

lemma strip_lower_twice [simp]: "strip (lower (strip (lower s))) = strip (lower s)"
proof -
  have "lower (strip (lower s)) = strip (lower s)"
    using set_strip [of "lower s"] unfolding lower_def by (intro map_idI) auto
  then show ?thesis by simp
qed

lemma put_map:
  assumes "distinct (map key rows)" and "x \<in> set rows" and "key y = key x"
  shows "map (\<lambda>z. if key z = key y then y else z) rows = map (\<lambda>z. if z = x then y else z) rows"
  using assms by (auto simp: distinct_map inj_on_def)

lemma map_put:
  assumes "x \<in> set rows" and "f y = f x"
  shows "map f (map (\<lambda>z. if z = x then y else z) rows) = map f rows"
  using assms by auto

lemma filter_put:
  assumes "\<not> P x" and "\<not> P y"
  shows "filter P (map (\<lambda>z. if z = x then y else z) rows) = filter P rows"
  using assms by (induction rows) auto

section \<open>Keys and unique columns\<close>

definition keyed_ok :: "int \<Rightarrow> accounts \<Rightarrow> bool" where
  "keyed_ok n db \<longleftrightarrow>
     distinct (map u_id (users db)) \<and> distinct (map u_email (users db)) \<and> (\<forall>u\<in>set (users db). u_id u < n) \<and>
     distinct (map tn_id (tenants db)) \<and> distinct (map tn_code (tenants db)) \<and> (\<forall>t\<in>set (tenants db). tn_id t < n) \<and>
     distinct (map m_id (members db)) \<and> distinct (map (\<lambda>m. (m_tenant m, m_user m)) (members db)) \<and>
     (\<forall>m\<in>set (members db). m_id m < n \<and> m_tenant m < n \<and> m_user m < n) \<and>
     distinct (map i_id (invites db)) \<and> distinct (map i_hash (invites db)) \<and>
     (\<forall>i\<in>set (invites db). i_id i < n \<and> i_tenant i < n) \<and>
     (\<forall>r\<in>set (role_rows db). rl_tenant r < n) \<and>
     (\<forall>r\<in>set (login_log db). \<forall>u. l_user r = Some u \<longrightarrow> u < n)"

lemma keyed_later: "keyed_ok n db \<Longrightarrow> n \<le> n' \<Longrightarrow> keyed_ok n' db"
  unfolding keyed_ok_def by force

text \<open>The tables an operation leaves alone, and what it makes of the others.\<close>

lemma log_fields [simp]:
  "users (log_login t e r s u now db) = users db" "tenants (log_login t e r s u now db) = tenants db"
  "members (log_login t e r s u now db) = members db" "invites (log_login t e r s u now db) = invites db"
  "scopes (log_login t e r s u now db) = scopes db" "role_rows (log_login t e r s u now db) = role_rows db"
  "audit_log (log_login t e r s u now db) = audit_log db"
  "login_log (log_login t e r s u now db) =
     login_log db @ [\<lparr>l_tenant = t, l_user = u, l_email = e, l_result = r, l_reason = s, l_at = now\<rparr>]"
  by (simp_all add: log_login_def)

lemma audit_fields [simp]:
  "users (append_action t a r u i db) = users db" "tenants (append_action t a r u i db) = tenants db"
  "members (append_action t a r u i db) = members db" "invites (append_action t a r u i db) = invites db"
  "scopes (append_action t a r u i db) = scopes db" "role_rows (append_action t a r u i db) = role_rows db"
  "login_log (append_action t a r u i db) = login_log db"
  "audit_log (append_action t a r u i db) =
     audit_log db @ [\<lparr>a_tenant = t, a_action = a, a_resource = r, a_user = u, a_ref = i\<rparr>]"
  by (simp_all add: append_action_def)

lemma put_user_fields [simp]:
  "tenants (put_user u db) = tenants db" "members (put_user u db) = members db" "invites (put_user u db) = invites db"
  "scopes (put_user u db) = scopes db" "role_rows (put_user u db) = role_rows db"
  "login_log (put_user u db) = login_log db" "audit_log (put_user u db) = audit_log db"
  by (simp_all add: put_user_def)

lemma put_member_fields [simp]:
  "users (put_member m db) = users db" "tenants (put_member m db) = tenants db" "invites (put_member m db) = invites db"
  "scopes (put_member m db) = scopes db" "role_rows (put_member m db) = role_rows db"
  "login_log (put_member m db) = login_log db" "audit_log (put_member m db) = audit_log db"
  by (simp_all add: put_member_def)

lemma scope_fields [simp]:
  "users (upsert_scope s db) = users db" "tenants (upsert_scope s db) = tenants db"
  "members (upsert_scope s db) = members db" "invites (upsert_scope s db) = invites db"
  "role_rows (upsert_scope s db) = role_rows db" "login_log (upsert_scope s db) = login_log db"
  "audit_log (upsert_scope s db) = audit_log db"
  by (simp_all add: upsert_scope_def Let_def)

lemma status_fields [simp]:
  "users (set_invitation_status now s i db) = users db" "tenants (set_invitation_status now s i db) = tenants db"
  "members (set_invitation_status now s i db) = members db" "scopes (set_invitation_status now s i db) = scopes db"
  "role_rows (set_invitation_status now s i db) = role_rows db"
  "login_log (set_invitation_status now s i db) = login_log db"
  "audit_log (set_invitation_status now s i db) = audit_log db"
  by (simp_all add: set_invitation_status_def)

lemma revoke_fields [simp]:
  "users (revoke_pending_for_email t now e db) = users db" "tenants (revoke_pending_for_email t now e db) = tenants db"
  "members (revoke_pending_for_email t now e db) = members db" "scopes (revoke_pending_for_email t now e db) = scopes db"
  "role_rows (revoke_pending_for_email t now e db) = role_rows db"
  "login_log (revoke_pending_for_email t now e db) = login_log db"
  "audit_log (revoke_pending_for_email t now e db) = audit_log db"
  by (simp_all add: revoke_pending_for_email_def)

lemma bootstrap_fields [simp]:
  "users (bootstrap_tenant t m db) = users db" "tenants (bootstrap_tenant t m db) = tenants db"
  "members (bootstrap_tenant t m db) = members db" "invites (bootstrap_tenant t m db) = invites db"
  "login_log (bootstrap_tenant t m db) = login_log db" "audit_log (bootstrap_tenant t m db) = audit_log db"
  by (simp_all add: bootstrap_tenant_def)

lemma add_fields:
  "add_user u db = Inr db' \<longleftrightarrow> (\<forall>x\<in>set (users db). u_email x \<noteq> u_email u) \<and> db' = db\<lparr>users := users db @ [u]\<rparr>"
  "add_member m db = Inr db' \<longleftrightarrow> (\<forall>x\<in>set (members db). \<not> (m_tenant x = m_tenant m \<and> m_user x = m_user m)) \<and>
     db' = db\<lparr>members := members db @ [m]\<rparr>"
  "add_invitation i db = Inr db' \<longleftrightarrow> (\<forall>x\<in>set (invites db). i_hash x \<noteq> i_hash i) \<and>
     db' = db\<lparr>invites := invites db @ [i]\<rparr>"
  by (auto simp: add_user_def add_member_def add_invitation_def list_ex_iff)

lemma verified_fields [simp]:
  "tenants (mark_email_verified now u db) = tenants db" "members (mark_email_verified now u db) = members db"
  "invites (mark_email_verified now u db) = invites db" "scopes (mark_email_verified now u db) = scopes db"
  "role_rows (mark_email_verified now u db) = role_rows db" "login_log (mark_email_verified now u db) = login_log db"
  "audit_log (mark_email_verified now u db) = audit_log db"
  by (simp_all add: mark_email_verified_def)

text \<open>A user that is written back: one row is replaced, by one with the same key and address.\<close>

definition same_user :: "sys_user \<Rightarrow> sys_user \<Rightarrow> bool" where
  "same_user u v \<longleftrightarrow> u_id v = u_id u \<and> u_email v = u_email u"

lemma user_written:
  "\<exists>v. record_login_failure st now u db = put_user v db \<and> same_user u v"
  "\<exists>v. record_login_success now u db = put_user v db \<and> same_user u v"
  "mark_email_verified now u db = db \<or> (\<exists>v. mark_email_verified now u db = put_user v db \<and> same_user u v)"
  by (auto simp: record_login_failure_def record_login_success_def mark_email_verified_def same_user_def Let_def)

lemma put_user_keyed:
  assumes "keyed_ok n db" and "u \<in> set (users db)" and "same_user u v"
  shows "keyed_ok n (put_user v db)"
proof -
  from assms have us: "users (put_user v db) = map (\<lambda>z. if z = u then v else z) (users db)"
    using put_map [of u_id "users db" u v] by (simp add: put_user_def same_user_def keyed_ok_def)
  have "map u_id (users (put_user v db)) = map u_id (users db)" "map u_email (users (put_user v db)) = map u_email (users db)"
    using map_put [OF assms(2), of _ v] assms(3) unfolding us same_user_def by simp_all
  moreover have "\<forall>x\<in>set (users (put_user v db)). u_id x < n" using assms unfolding us keyed_ok_def same_user_def by auto
  ultimately show ?thesis using assms(1) unfolding keyed_ok_def by simp
qed

lemma put_member_rows:
  assumes "keyed_ok n db" and "m \<in> set (members db)" and "m_id m' = m_id m"
  shows "members (put_member m' db) = map (\<lambda>z. if z = m then m' else z) (members db)"
  using assms put_map [of m_id "members db" m m'] by (simp add: put_member_def keyed_ok_def)

lemma put_member_keyed:
  assumes "keyed_ok n db" and "m \<in> set (members db)"
    and "m_id m' = m_id m" "m_tenant m' = m_tenant m" "m_user m' = m_user m"
  shows "keyed_ok n (put_member m' db)"
proof -
  note ms = put_member_rows [OF assms(1-3)]
  have "map m_id (members (put_member m' db)) = map m_id (members db)"
    "map (\<lambda>m. (m_tenant m, m_user m)) (members (put_member m' db)) = map (\<lambda>m. (m_tenant m, m_user m)) (members db)"
    using map_put [OF assms(2), of _ m'] assms(3-5) unfolding ms by simp_all
  moreover have "\<forall>x\<in>set (members (put_member m' db)). m_id x < n \<and> m_tenant x < n \<and> m_user x < n"
    using assms unfolding ms keyed_ok_def by auto
  ultimately show ?thesis using assms(1) unfolding keyed_ok_def by simp
qed

lemma get_member_in: "get_member t i db = Some m \<Longrightarrow> m \<in> set (members db) \<and> m_tenant m = t \<and> m_deleted m = None \<and> m_id m = i"
  by (auto simp: get_member_def visible_def dest: find_member)

lemma get_invitation_in: "get_invitation t i db = Some v \<Longrightarrow> v \<in> set (invites db) \<and> i_tenant v = t \<and> i_id v = i"
  by (auto simp: get_invitation_def dest: find_member)

lemma get_pending_in:
  "get_pending_by_hash t now h db = Some v \<Longrightarrow>
     v \<in> set (invites db) \<and> i_tenant v = t \<and> i_hash v = h \<and> live_invitation now v"
  by (auto simp: get_pending_by_hash_def dest: find_member)

text \<open>The columns of invitations that an answer to one keeps.\<close>

lemma invitation_columns:
  "map i_id (invites (set_invitation_status now s i db)) = map i_id (invites db)"
  "map i_hash (invites (set_invitation_status now s i db)) = map i_hash (invites db)"
  "map i_id (invites (revoke_pending_for_email t now e db)) = map i_id (invites db)"
  "map i_hash (invites (revoke_pending_for_email t now e db)) = map i_hash (invites db)"
  "map i_tenant (invites (set_invitation_status now s i db)) = map i_tenant (invites db)"
  "map i_tenant (invites (revoke_pending_for_email t now e db)) = map i_tenant (invites db)"
  "map i_role (invites (set_invitation_status now s i db)) = map i_role (invites db)"
  "map i_role (invites (revoke_pending_for_email t now e db)) = map i_role (invites db)"
  by (simp_all add: set_invitation_status_def revoke_pending_for_email_def)

lemma keyed_invites:
  assumes "keyed_ok n db" and "map i_id rows = map i_id (invites db)" and "map i_hash rows = map i_hash (invites db)"
    and "map i_tenant rows = map i_tenant (invites db)"
  shows "keyed_ok n (db\<lparr>invites := rows\<rparr>)"
proof -
  have "\<forall>i\<in>set rows. i_id i < n \<and> i_tenant i < n"
  proof
    fix i
    assume "i \<in> set rows"
    then have "i_id i \<in> set (map i_id (invites db))" "i_tenant i \<in> set (map i_tenant (invites db))"
      unfolding assms(2,4) [symmetric] by simp_all
    with assms(1) show "i_id i < n \<and> i_tenant i < n" by (auto simp: keyed_ok_def)
  qed
  with assms show ?thesis by (simp add: keyed_ok_def)
qed

lemma answered_keyed:
  assumes "keyed_ok n db"
  shows "keyed_ok n (set_invitation_status now s i db)" and "keyed_ok n (revoke_pending_for_email t now e db)"
proof -
  have "set_invitation_status now s i db = db\<lparr>invites := invites (set_invitation_status now s i db)\<rparr>"
    "revoke_pending_for_email t now e db = db\<lparr>invites := invites (revoke_pending_for_email t now e db)\<rparr>"
    by (simp_all add: set_invitation_status_def revoke_pending_for_email_def)
  with keyed_invites [OF assms] invitation_columns show "keyed_ok n (set_invitation_status now s i db)"
    and "keyed_ok n (revoke_pending_for_email t now e db)" by metis+
qed

lemma keyed_unchanged [simp]:
  "keyed_ok n (append_action t a r u i db) = keyed_ok n db" "keyed_ok n (upsert_scope s db) = keyed_ok n db"
  by (simp_all add: keyed_ok_def)

lemma keyed_logged:
  assumes "keyed_ok n db" and "case user of None \<Rightarrow> True | Some i \<Rightarrow> i < n"
  shows "keyed_ok n (log_login t e r s user now db)"
  using assms by (auto simp: keyed_ok_def)

lemma keyed_verified:
  assumes "keyed_ok n db" and "u \<in> set (users db)"
  shows "keyed_ok n (mark_email_verified now u db)"
  using put_user_keyed [OF assms] user_written(3) [of now u db] assms(1) by auto

lemma keyed_new_member:
  assumes "keyed_ok n db" and "add_member m db = Inr db'" and "m_id m = n" "m_tenant m < n" "m_user m < n"
  shows "keyed_ok (n + 1) db'"
  using assms unfolding add_fields keyed_ok_def by force

lemma keyed_new_user:
  assumes "keyed_ok n db" and "add_user u db = Inr db'" and "u_id u = n"
  shows "keyed_ok (n + 1) db'"
  using assms unfolding add_fields keyed_ok_def by force

lemma keyed_new_invitation:
  assumes "keyed_ok n db" and "add_invitation i db = Inr db'" and "i_id i = n" "i_tenant i < n"
  shows "keyed_ok (n + 1) db'"
  using assms unfolding add_fields keyed_ok_def by force

lemma registered_db:
  "app_register_tenant tid uid mid email hash rg now db = Inr db' \<Longrightarrow>
     (\<forall>t\<in>set (tenants db). tn_code t \<noteq> rg_code rg) \<and> (\<forall>u\<in>set (users db). u_email u \<noteq> lower email) \<and>
     db' = db\<lparr>
        tenants := tenants db @ [\<lparr>tn_id = tid, tn_code = rg_code rg, tn_name = rg_tenant rg, tn_status = 1,
          tn_currency = rg_currency rg, tn_timezone = rg_timezone rg\<rparr>],
        users := users db @ [\<lparr>u_id = uid, u_email = lower email, u_hash = hash, u_name = rg_name rg,
          u_status = user_active, u_verified = None, u_last_login = None, u_failures = 0, u_locked = None,
          u_password_changed = None\<rparr>],
        members := members db @ [\<lparr>m_id = mid, m_tenant = tid, m_user = uid, m_role = ''OWNER'',
          m_status = member_active, m_joined = Some now, m_deleted = None\<rparr>]\<rparr>"
  by (simp add: app_register_tenant_def list_ex_iff split: if_splits)

lemma keyed_registered:
  assumes "keyed_ok n db" and "app_register_tenant n (n + 1) (n + 2) email hash rg now db = Inr db'"
  shows "keyed_ok (n + 3) (bootstrap_tenant n (n + 2) db')"
proof -
  have n: "\<And>t. t \<in> set (tenants db) \<Longrightarrow> tn_id t < n" "\<And>m. m \<in> set (members db) \<Longrightarrow> m_id m < n \<and> m_tenant m < n \<and> m_user m < n"
    "\<And>u. u \<in> set (users db) \<Longrightarrow> u_id u < n" "\<And>i. i \<in> set (invites db) \<Longrightarrow> i_id i < n \<and> i_tenant i < n"
    "\<And>r. r \<in> set (role_rows db) \<Longrightarrow> rl_tenant r < n"
    "\<And>r u. r \<in> set (login_log db) \<Longrightarrow> l_user r = Some u \<Longrightarrow> u < n"
    using assms(1) by (auto simp: keyed_ok_def)
  show ?thesis using registered_db [OF assms(2)] assms(1) unfolding keyed_ok_def
    by (auto simp: bootstrap_tenant_def dest: n)
qed

theorem step_keyed:
  assumes "account_step E now t (n, db) (n', db')" and k: "keyed_ok n db"
  shows "keyed_ok n' db' \<and> n \<le> n'"
  using assms(1)
proof (cases rule: account_step_cases)
  case idle
  with k show ?thesis by (auto intro: keyed_later)
next
  case (refused reason user email)
  have "case user of None \<Rightarrow> True | Some i \<Rightarrow> i < n"
    using refused k by (auto simp: keyed_ok_def dest!: get_user_Some split: option.split)
  with refused k show ?thesis by (auto intro: keyed_logged)
next
  case (wrong_password u email)
  obtain v where v: "record_login_failure (conf E) now u db = put_user v db" "same_user u v" using user_written by blast
  with put_user_keyed [OF k wrong_password(2) v(2)] wrong_password k show ?thesis
    by (auto intro!: keyed_logged simp: keyed_ok_def)
next
  case (signed_in u password t tn m email)
  obtain v where v: "record_login_success now u db = put_user v db" "same_user u v" using user_written by blast
  have "keyed_ok n (log_login (Some t) email 1 None (Some (u_id u)) now (put_user v db))"
    using put_user_keyed [OF k signed_in(2) v(2)] signed_in(2) k by (intro keyed_logged) (auto simp: keyed_ok_def)
  with signed_in v show ?thesis by auto
next
  case (audited t action resource user ref)
  with k show ?thesis by auto
next
  case (registered email hash rg db1)
  with keyed_registered [OF k] show ?thesis by auto
next
  case (verified u)
  with keyed_verified [OF k] show ?thesis by auto
next
  case (invited role t address hash expires actor db1)
  have "t < n" using invited(3) k by (auto simp: system_role_def get_role_row_def keyed_ok_def dest!: find_member split: option.splits)
  with keyed_new_invitation [OF answered_keyed(2) [OF k] invited(4)] invited show ?thesis by auto
next
  case (invitation_withdrawn t ident i user)
  with answered_keyed(1) [OF k] show ?thesis by auto
next
  case (joined t hash i u db1)
  have "t < n" "u_id u < n" using joined(3) k get_pending_in [OF joined(2)] by (auto simp: keyed_ok_def)
  with keyed_new_member [OF keyed_verified [OF k] joined(4)] joined
  have "keyed_ok (n + 1) db1" by simp
  with joined show ?thesis using answered_keyed(1) by auto
next
  case (joined_new t hash i u db0 db1)
  have "t < n" using k get_pending_in [OF joined_new(2)] by (auto simp: keyed_ok_def)
  with keyed_new_member [OF keyed_new_user [OF k joined_new(8,4)] joined_new(9)]
  have "keyed_ok (n + 2) db1" by (simp add: add.assoc)
  with joined_new(10,11) show ?thesis using answered_keyed(1) by simp
next
  case (role_changed t ident m role user)
  with get_member_in put_member_keyed [OF k, of m "m\<lparr>m_role := role_value role\<rparr>"] show ?thesis by auto
next
  case (scope_changed ident m s user)
  with k show ?thesis by auto
next
  case (removed t ident m user)
  with get_member_in put_member_keyed [OF k, of m "m\<lparr>m_deleted := Some now\<rparr>"] show ?thesis by auto
qed

section \<open>One owner for every tenant\<close>

definition owner_rows :: "int \<Rightarrow> accounts \<Rightarrow> tenant_user list" where
  "owner_rows t db = filter (\<lambda>m. m_tenant m = t \<and> m_role m = ''OWNER'') (members db)"

definition owned :: "accounts \<Rightarrow> bool" where
  "owned db \<longleftrightarrow>
     (\<forall>t\<in>set (tenants db). \<exists>m. owner_rows (tn_id t) db = [m] \<and> m_status m = member_active \<and> m_deleted m = None) \<and>
     (\<forall>i\<in>set (invites db). i_role i \<noteq> ''OWNER'')"

lemma owned_cong:
  assumes "owned db" and "tenants db' = tenants db" and "\<And>t. owner_rows t db' = owner_rows t db"
    and "set (map i_role (invites db')) \<subseteq> insert (role_value r) (set (map i_role (invites db)))" and "r \<noteq> R_OWNER"
  shows "owned db'"
proof -
  have "role_value r \<noteq> ''OWNER''" using assms(5) by (cases r) simp_all
  with assms(1,4) have "\<forall>i\<in>set (invites db'). i_role i \<noteq> ''OWNER''" unfolding owned_def by fastforce
  with assms(1-3) show ?thesis unfolding owned_def by simp
qed

lemma owner_rows_simps [simp]:
  "owner_rows t (append_action s a r u i db) = owner_rows t db" "owner_rows t (log_login e f g h j now db) = owner_rows t db"
  "owner_rows t (put_user v db) = owner_rows t db" "owner_rows t (mark_email_verified now v db) = owner_rows t db"
  "owner_rows t (upsert_scope s' db) = owner_rows t db" "owner_rows t (set_invitation_status now s'' i' db) = owner_rows t db"
  "owner_rows t (revoke_pending_for_email t' now e' db) = owner_rows t db"
  by (simp_all add: owner_rows_def)

lemma owner_rows_put:
  assumes "keyed_ok n db" and "m \<in> set (members db)" and "m_id m' = m_id m"
    and "m_role m \<noteq> ''OWNER''" "m_role m' \<noteq> ''OWNER''"
  shows "owner_rows t (put_member m' db) = owner_rows t db"
  using put_member_rows [OF assms(1-3)] assms(4,5) by (simp add: owner_rows_def filter_put)

lemma owner_rows_new:
  assumes "add_member m db = Inr db'" and "m_role m \<noteq> ''OWNER''"
  shows "owner_rows t db' = owner_rows t db" and "tenants db' = tenants db" and "invites db' = invites db"
  using assms by (auto simp: add_fields owner_rows_def)

lemma invite_roles:
  "set (map i_role (invites db')) \<subseteq> insert r (set (map i_role (invites db)))"
  if "map i_role (invites db') = map i_role (invites db)"
  using that by auto

lemma step_owned:
  assumes "account_step E now t (n, db) (n', db')" and k: "keyed_ok n db" and o: "owned db"
  shows "owned db'"
proof -
  have same: ?thesis if "tenants db' = tenants db" "\<And>t. owner_rows t db' = owner_rows t db"
    "map i_role (invites db') = map i_role (invites db)"
    using owned_cong [OF o that(1,2) invite_roles [OF that(3)], of R_VIEWER] by simp
  from assms(1) show ?thesis
  proof (cases rule: account_step_cases)
    case idle
    with o show ?thesis by simp
  next
    case (refused reason user email)
    then show ?thesis by (intro same) simp_all
  next
    case (wrong_password u email)
    then show ?thesis using user_written(1) [of "conf E" now u db] by (intro same) auto
  next
    case (signed_in u password t tn m email)
    then show ?thesis using user_written(2) [of now u db] by (intro same) auto
  next
    case (audited t action resource user ref)
    then show ?thesis by (intro same) simp_all
  next
    case (registered email hash rg db1)
    have "owner_rows n db = []" using k by (auto simp: owner_rows_def keyed_ok_def filter_empty_conv)
    moreover have "\<forall>t\<in>set (tenants db). tn_id t \<noteq> n" using k by (auto simp: keyed_ok_def)
    moreover note registered_db [OF registered(2)]
    ultimately show ?thesis using registered(4) o by (auto simp: owned_def owner_rows_def)
  next
    case (verified u)
    then show ?thesis by (intro same) simp_all
  next
    case (invited role t address hash expires actor db1)
    let ?db = "revoke_pending_for_email t now (strip (lower address)) db"
    have "invites db1 = invites ?db @ [\<lparr>i_id = n, i_tenant = t, i_email = strip (lower address),
      i_role = role_value role, i_hash = hash, i_expires = expires, i_status = invitation_pending, i_by = actor,
      i_accepted = None\<rparr>]" "tenants db1 = tenants db" "members db1 = members db"
      using invited(4) by (simp_all add: add_fields)
    then show ?thesis using invited(2,6) invitation_columns(8) [of t now "strip (lower address)" db]
      by (intro owned_cong [OF o, of _ role]) (auto simp: owner_rows_def)
  next
    case (invitation_withdrawn t ident i user)
    then show ?thesis using invitation_columns(7) by (intro same) simp_all
  next
    case (joined t hash i u db1)
    have "i_role i \<noteq> ''OWNER''" using get_pending_in [OF joined(2)] o by (auto simp: owned_def)
    with owner_rows_new [OF joined(4)] joined(6) show ?thesis using invitation_columns(7)
      by (intro same) simp_all
  next
    case (joined_new t hash i u db0 db1)
    have "i_role i \<noteq> ''OWNER''" using get_pending_in [OF joined_new(2)] o by (auto simp: owned_def)
    moreover have "members db0 = members db" "tenants db0 = tenants db" "invites db0 = invites db"
      using joined_new(8) by (simp_all add: add_fields)
    ultimately show ?thesis using owner_rows_new [OF joined_new(9)] joined_new(11) invitation_columns(7)
      by (intro same) (simp_all add: owner_rows_def)
  next
    case (role_changed t ident m role user)
    have "role_value role \<noteq> ''OWNER''" using role_changed(4) by (cases role) simp_all
    with role_changed get_member_in [OF role_changed(2)] show ?thesis
      using owner_rows_put [OF k, of m "m\<lparr>m_role := role_value role\<rparr>"] by (intro same) simp_all
  next
    case (scope_changed ident m s user)
    then show ?thesis by (intro same) simp_all
  next
    case (removed t ident m user)
    with get_member_in [OF removed(2)] show ?thesis
      using owner_rows_put [OF k, of m "m\<lparr>m_deleted := Some now\<rparr>"] by (intro same) simp_all
  qed
qed

section \<open>One live invitation for an address\<close>

definition one_live :: "int \<Rightarrow> accounts \<Rightarrow> bool" where
  "one_live now db \<longleftrightarrow>
     (\<forall>i\<in>set (invites db). \<forall>j\<in>set (invites db). live_invitation now i \<and> live_invitation now j \<and>
        i_tenant i = i_tenant j \<and> i_email i = i_email j \<longrightarrow> i = j)"

lemma live_earlier: "live_invitation now i \<Longrightarrow> now' \<le> now \<Longrightarrow> live_invitation now' i"
  by (simp add: live_invitation_def)

lemma one_live_later: "one_live now db \<Longrightarrow> now \<le> now' \<Longrightarrow> one_live now' db"
  unfolding one_live_def by (meson live_earlier)

lemma one_live_fewer:
  assumes "one_live now db" and "\<And>i. i \<in> set (invites db') \<Longrightarrow> live_invitation now i \<Longrightarrow> i \<in> set (invites db)"
  shows "one_live now db'"
  using assms unfolding one_live_def by meson

lemma one_live_answered:
  assumes "one_live now db" and "s \<noteq> invitation_pending"
  shows "one_live now (set_invitation_status now s i db)"
  by (rule one_live_fewer [OF assms(1)])
    (use assms(2) in \<open>auto simp: set_invitation_status_def live_invitation_def split: if_splits\<close>)

lemma step_one_live:
  assumes "account_step E now t (n, db) (n', db')" and o: "one_live now db"
  shows "one_live now db'"
proof -
  have same: ?thesis if "invites db' = invites db" using o that by (simp add: one_live_def)
  note answered = one_live_answered [OF o, of invitation_accepted] one_live_answered [OF o, of invitation_revoked]
  note codes = invitation_accepted_def invitation_revoked_def invitation_pending_def
  from assms(1) show ?thesis
  proof (cases rule: account_step_cases)
    case (wrong_password u email)
    then show ?thesis using user_written(1) [of "conf E" now u db] by (intro same) auto
  next
    case (signed_in u password t tn m email)
    then show ?thesis using user_written(2) [of now u db] by (intro same) auto
  next
    case (registered email hash rg db1)
    with registered_db [OF registered(2)] show ?thesis by (intro same) simp
  next
    case (invited role t address hash expires actor db1)
    let ?db = "revoke_pending_for_email t now (strip (lower address)) db"
    have i: "invites db' = invites ?db @ [\<lparr>i_id = n, i_tenant = t, i_email = strip (lower address),
      i_role = role_value role, i_hash = hash, i_expires = expires, i_status = invitation_pending, i_by = actor,
      i_accepted = None\<rparr>]"
      using invited(4,6) by (simp add: add_fields)
    have "\<forall>i\<in>set (invites ?db). i \<in> set (invites db) \<and> \<not> (live_invitation now i \<and> i_tenant i = t \<and>
        i_email i = strip (lower address)) \<or> \<not> live_invitation now i"
      by (auto simp: revoke_pending_for_email_def live_invitation_def)
    then show ?thesis using o unfolding one_live_def i by auto
  next
    case (invitation_withdrawn t ident i user)
    with answered(2) [of i] show ?thesis by (simp add: codes one_live_def)
  next
    case (joined t hash i u db1)
    have "invites db1 = invites db" using joined(4) by (simp add: add_fields)
    then have "invites db' = invites (set_invitation_status now invitation_accepted i db)"
      using joined(6) by (simp add: set_invitation_status_def)
    with answered(1) [of i] show ?thesis by (simp add: codes one_live_def)
  next
    case (joined_new t hash i u db0 db1)
    have "invites db1 = invites db" using joined_new(8,9) by (auto simp: add_fields)
    then have "invites db' = invites (set_invitation_status now invitation_accepted i db)"
      using joined_new(11) by (simp add: set_invitation_status_def)
    with answered(1) [of i] show ?thesis by (simp add: codes one_live_def)
  qed (rule same, simp)+
qed

end
