(* ===== verification/AccountHistory.thy ===== *)
theory AccountHistory imports AccountInvariant begin

text \<open>
  Wrong passwords, rows that never come back, and the rows of other tenants, over the abstract steps;
  then all invariants over histories of requests (\<open>accounts_kept\<close>).
\<close>

section \<open>Wrong passwords at the sign-in\<close>

text \<open>The times of the wrong passwords of a user at the sign-in since its last success there, read off the login log.\<close>

definition guess_after :: "int \<Rightarrow> int list \<Rightarrow> login_row \<Rightarrow> int list" where
  "guess_after uid ts r =
     (if l_user r \<noteq> Some uid then ts
      else if l_result r = 1 then []
      else if l_reason r = Some ''bad_password'' then ts @ [l_at r] else ts)"

definition sign_in_guesses :: "int \<Rightarrow> accounts \<Rightarrow> int list" where
  "sign_in_guesses uid db = foldl (guess_after uid) [] (login_log db)"

lemma guesses_log [simp]:
  "sign_in_guesses uid (log_login t e res why user now db) =
     guess_after uid (sign_in_guesses uid db) \<lparr>l_tenant = t, l_user = user, l_email = e, l_result = res, l_reason = why, l_at = now\<rparr>"
  by (simp add: sign_in_guesses_def)

lemma guesses_same: "login_log db' = login_log db \<Longrightarrow> sign_in_guesses uid db' = sign_in_guesses uid db"
  by (simp add: sign_in_guesses_def)

lemma guesses_unseen:
  assumes "\<forall>r\<in>set rows. l_user r \<noteq> Some uid"
  shows "foldl (guess_after uid) ts rows = ts"
  using assms by (induction rows arbitrary: ts) (simp_all add: guess_after_def)

definition lock_span :: "auth_settings \<Rightarrow> int" where
  "lock_span st = minutes (login_lock_minutes st)"

definition locks :: "auth_settings \<Rightarrow> int list \<Rightarrow> bool" where
  "locks st ts \<longleftrightarrow> ts \<noteq> [] \<and> login_max_failures st \<le> int (length ts)"

definition guesses_ok :: "auth_settings \<Rightarrow> accounts \<Rightarrow> bool" where
  "guesses_ok st db \<longleftrightarrow>
     (\<forall>u\<in>set (users db). let ts = sign_in_guesses (u_id u) db in
        u_failures u = int (length ts) \<and>
        u_locked u = (if locks st ts then Some (last ts + lock_span st) else None) \<and>
        (\<forall>k. k + 1 < length ts \<longrightarrow> login_max_failures st \<le> int (k + 1) \<longrightarrow> ts ! k + lock_span st \<le> ts ! (k + 1)))"

lemma spaced_append:
  assumes "\<forall>k. k + 1 < length ts \<longrightarrow> m \<le> int (k + 1) \<longrightarrow> ts ! k + s \<le> ts ! (k + 1)"
    and "ts \<noteq> [] \<Longrightarrow> m \<le> int (length ts) \<Longrightarrow> last ts + s \<le> now"
  shows "\<forall>k. k + 1 < length (ts @ [now]) \<longrightarrow> m \<le> int (k + 1) \<longrightarrow> (ts @ [now]) ! k + s \<le> (ts @ [now]) ! (k + 1)"
proof (intro allI impI)
  fix k
  assume k: "k + 1 < length (ts @ [now])" "m \<le> int (k + 1)"
  show "(ts @ [now]) ! k + s \<le> (ts @ [now]) ! (k + 1)"
  proof (cases "k + 1 < length ts")
    case True
    with assms(1) k show ?thesis by (simp add: nth_append)
  next
    case False
    with k have "length ts = k + 1" by simp
    moreover from this have "ts \<noteq> []" by auto
    moreover from this have "last ts = ts ! k" using \<open>length ts = k + 1\<close> by (simp add: last_conv_nth)
    ultimately show ?thesis using assms(2) k(2) by (simp add: nth_append)
  qed
qed

text \<open>Rows of a user that is written back.\<close>

lemma users_put:
  assumes "keyed_ok n db" and "u \<in> set (users db)" and "u_id v = u_id u" and "x \<in> set (users (put_user v db))"
  shows "x = v \<or> x \<in> set (users db) \<and> u_id x \<noteq> u_id u"
  using assms by (auto simp: put_user_def)

lemma guesses_put [simp]: "sign_in_guesses uid (put_user v db) = sign_in_guesses uid db"
  by (rule guesses_same) simp

lemma failure_row:
  "\<exists>v. record_login_failure st now u db = put_user v db \<and> u_id v = u_id u \<and> u_failures v = u_failures u + 1 \<and>
     u_locked v = (if u_failures u + 1 \<ge> login_max_failures st then Some (now + lock_span st) else u_locked u)"
  unfolding record_login_failure_def Let_def lock_span_def by (rule exI, rule conjI, rule refl) simp

lemma wrong_password_kept:
  assumes g: "guesses_ok st db" and k: "keyed_ok n db" and u: "u \<in> set (users db)" and open_: "\<not> is_locked now u"
  shows "guesses_ok st (log_login None email 2 (Some ''bad_password'') (Some (u_id u)) now (record_login_failure st now u db))"
    (is "guesses_ok st ?db")
proof -
  obtain v where v: "record_login_failure st now u db = put_user v db" "u_id v = u_id u" "u_failures v = u_failures u + 1"
      "u_locked v = (if u_failures u + 1 \<ge> login_max_failures st then Some (now + lock_span st) else u_locked u)"
    using failure_row by blast
  let ?ts = "sign_in_guesses (u_id u) db"
  have own: "u_failures u = int (length ?ts)" "u_locked u = (if locks st ?ts then Some (last ?ts + lock_span st) else None)"
    "\<forall>k. k + 1 < length ?ts \<longrightarrow> login_max_failures st \<le> int (k + 1) \<longrightarrow> ?ts ! k + lock_span st \<le> ?ts ! (k + 1)"
    using g u by (auto simp: guesses_ok_def Let_def)
  have ts: "sign_in_guesses (u_id u) ?db = ?ts @ [now]" using v by (simp add: guess_after_def)
  have "?ts \<noteq> [] \<Longrightarrow> login_max_failures st \<le> int (length ?ts) \<Longrightarrow> last ?ts + lock_span st \<le> now"
    using open_ own(2) by (simp add: is_locked_def locks_def)
  note sp = spaced_append [OF own(3) this]
  show ?thesis
    unfolding guesses_ok_def
  proof
    fix x
    assume "x \<in> set (users ?db)"
    then have "x \<in> set (users (put_user v db))" using v by simp
    then consider "x = v" | "x \<in> set (users db)" "u_id x \<noteq> u_id u" using users_put [OF k u v(2)] by blast
    then show "let ts = sign_in_guesses (u_id x) ?db in u_failures x = int (length ts) \<and>
        u_locked x = (if locks st ts then Some (last ts + lock_span st) else None) \<and>
        (\<forall>k. k + 1 < length ts \<longrightarrow> login_max_failures st \<le> int (k + 1) \<longrightarrow> ts ! k + lock_span st \<le> ts ! (k + 1))"
    proof cases
      case 1
      have "u_locked v = (if locks st (?ts @ [now]) then Some (now + lock_span st) else None)"
        unfolding v(4) own(1) own(2) locks_def by simp
      moreover have "u_failures v = int (length (?ts @ [now]))" using v(3) own(1) by simp
      ultimately show ?thesis unfolding 1 v(2) ts Let_def last_snoc using sp by blast
    next
      case 2
      then have "sign_in_guesses (u_id x) ?db = sign_in_guesses (u_id x) db" using v by (simp add: guess_after_def)
      with 2(1) g show ?thesis by (simp add: guesses_ok_def)
    qed
  qed
qed

lemma signed_in_kept:
  assumes g: "guesses_ok st db" and k: "keyed_ok n db" and u: "u \<in> set (users db)"
  shows "guesses_ok st (log_login t email 1 None (Some (u_id u)) now (record_login_success now u db))" (is "guesses_ok st ?db")
  unfolding guesses_ok_def
proof
  fix x
  assume "x \<in> set (users ?db)"
  then consider "u_id x = u_id u" "u_failures x = 0" "u_locked x = None" | "x \<in> set (users db)" "u_id x \<noteq> u_id u"
    by (auto simp: record_login_success_def put_user_def)
  then show "let ts = sign_in_guesses (u_id x) ?db in u_failures x = int (length ts) \<and>
      u_locked x = (if locks st ts then Some (last ts + lock_span st) else None) \<and>
      (\<forall>k. k + 1 < length ts \<longrightarrow> login_max_failures st \<le> int (k + 1) \<longrightarrow> ts ! k + lock_span st \<le> ts ! (k + 1))"
  proof cases
    case 1
    then have "sign_in_guesses (u_id x) ?db = []" by (simp add: guess_after_def record_login_success_def)
    with 1 show ?thesis by (simp add: locks_def)
  next
    case 2
    then have "sign_in_guesses (u_id x) ?db = sign_in_guesses (u_id x) db" by (simp add: guess_after_def record_login_success_def)
    with 2(1) g show ?thesis by (simp add: guesses_ok_def)
  qed
qed

lemma guesses_kept:
  assumes "guesses_ok st db" and "login_log db' = login_log db"
    and "\<And>x. x \<in> set (users db') \<Longrightarrow>
      (\<exists>y\<in>set (users db). u_id x = u_id y \<and> u_failures x = u_failures y \<and> u_locked x = u_locked y) \<or>
      u_failures x = 0 \<and> u_locked x = None \<and> (\<forall>r\<in>set (login_log db). l_user r \<noteq> Some (u_id x))"
  shows "guesses_ok st db'"
  unfolding guesses_ok_def
proof
  fix x
  assume "x \<in> set (users db')"
  from assms(3) [OF this] show "let ts = sign_in_guesses (u_id x) db' in u_failures x = int (length ts) \<and>
      u_locked x = (if locks st ts then Some (last ts + lock_span st) else None) \<and>
      (\<forall>k. k + 1 < length ts \<longrightarrow> login_max_failures st \<le> int (k + 1) \<longrightarrow> ts ! k + lock_span st \<le> ts ! (k + 1))"
  proof
    assume "\<exists>y\<in>set (users db). u_id x = u_id y \<and> u_failures x = u_failures y \<and> u_locked x = u_locked y"
    then obtain y where y: "y \<in> set (users db)" "u_id x = u_id y" "u_failures x = u_failures y" "u_locked x = u_locked y" by blast
    from assms(1) y(1) have "let ts = sign_in_guesses (u_id y) db in u_failures y = int (length ts) \<and>
      u_locked y = (if locks st ts then Some (last ts + lock_span st) else None) \<and>
      (\<forall>k. k + 1 < length ts \<longrightarrow> login_max_failures st \<le> int (k + 1) \<longrightarrow> ts ! k + lock_span st \<le> ts ! (k + 1))"
      unfolding guesses_ok_def by blast
    then show ?thesis unfolding guesses_same [OF assms(2)] y(2-4) .
  next
    assume n: "u_failures x = 0 \<and> u_locked x = None \<and> (\<forall>r\<in>set (login_log db). l_user r \<noteq> Some (u_id x))"
    then have "sign_in_guesses (u_id x) db' = []" unfolding sign_in_guesses_def assms(2) by (simp add: guesses_unseen)
    with n show ?thesis by (simp add: locks_def)
  qed
qed

lemma verified_users:
  assumes "x \<in> set (users (mark_email_verified now u db))" and "u \<in> set (users db)"
  shows "\<exists>y\<in>set (users db). u_id x = u_id y \<and> u_failures x = u_failures y \<and> u_locked x = u_locked y"
  using assms by (auto simp: mark_email_verified_def put_user_def split: if_splits)

lemma step_guesses:
  assumes "account_step E now t (n, db) (n', db')" and k: "keyed_ok n db" and g: "guesses_ok (conf E) db"
  shows "guesses_ok (conf E) db'"
proof -
  have same: ?thesis if "users db' = users db" "login_log db' = login_log db"
    by (rule guesses_kept [OF g that(2)]) (auto simp: that(1))
  have fresh: "\<forall>r\<in>set (login_log db). l_user r \<noteq> Some i" if "n \<le> i" for i
    using k that by (auto simp: keyed_ok_def)
  have audit: "guesses_ok (conf E) (append_action s a r u i d) = guesses_ok (conf E) d" for s a r u i d
    by (simp add: guesses_ok_def sign_in_guesses_def)
  from assms(1) show ?thesis
  proof (cases rule: account_step_cases)
    case (refused reason user email)
    have "sign_in_guesses u db' = sign_in_guesses u db" for u using refused(2,5) by (simp add: guess_after_def)
    moreover have "users db' = users db" using refused(5) by simp
    ultimately show ?thesis using g by (simp add: guesses_ok_def)
  next
    case (wrong_password u email)
    with wrong_password_kept [OF g k wrong_password(2,3)] show ?thesis by simp
  next
    case (signed_in u password t tn m email)
    with signed_in_kept [OF g k signed_in(2)] show ?thesis by (simp add: audit)
  next
    case (registered email hash rg db1)
    with registered_db [OF registered(2)] show ?thesis using fresh [of "n + 1"] by (intro guesses_kept [OF g]) auto
  next
    case (verified u)
    then show ?thesis using verified_users by (intro guesses_kept [OF g]) auto
  next
    case (invited role t address hash expires actor db1)
    then show ?thesis by (intro same) (auto simp: add_fields)
  next
    case (joined t hash i u db1)
    then show ?thesis using verified_users [OF _ joined(3), of _ now] by (intro guesses_kept [OF g]) (auto simp: add_fields)
  next
    case (joined_new t hash i u db0 db1)
    then show ?thesis using fresh [of n] by (intro guesses_kept [OF g]) (auto simp: add_fields)
  qed (rule same, simp, simp)+
qed

section \<open>What is never undone\<close>

text \<open>A member that was removed, and an invitation that was answered.\<close>

definition gone :: "int \<Rightarrow> int \<Rightarrow> accounts \<Rightarrow> bool" where
  "gone t u db \<longleftrightarrow> (\<exists>m\<in>set (members db). m_tenant m = t \<and> m_user m = u \<and> m_deleted m \<noteq> None)"

definition taken_up :: "string \<Rightarrow> accounts \<Rightarrow> bool" where
  "taken_up hash db \<longleftrightarrow> (\<exists>i\<in>set (invites db). i_hash i = hash \<and> i_status i \<noteq> invitation_pending)"

lemma gone_no_member:
  assumes "gone t u db" and k: "keyed_ok n db"
  shows "get_membership t u db = None"
proof (rule ccontr)
  assume "get_membership t u db \<noteq> None"
  then obtain m where m: "m \<in> set (members db)" "m_tenant m = t" "m_user m = u" "m_deleted m = None"
    by (auto simp: get_membership_def visible_def dest: find_member)
  from assms(1) obtain m' where m': "m' \<in> set (members db)" "m_tenant m' = t" "m_user m' = u" "m_deleted m' \<noteq> None"
    by (auto simp: gone_def)
  have "inj_on (\<lambda>m. (m_tenant m, m_user m)) (set (members db))" using k by (simp add: keyed_ok_def distinct_map)
  from inj_onD [OF this, of m m'] m m' show False by auto
qed

lemma taken_up_none:
  assumes "taken_up hash db" and k: "keyed_ok n db"
  shows "get_pending_by_hash t now hash db = None"
proof (rule ccontr)
  assume "get_pending_by_hash t now hash db \<noteq> None"
  then obtain i where "get_pending_by_hash t now hash db = Some i" by blast
  from get_pending_in [OF this] have i: "i \<in> set (invites db)" "i_hash i = hash" "i_status i = invitation_pending"
    by (simp_all add: live_invitation_def)
  from assms(1) obtain j where j: "j \<in> set (invites db)" "i_hash j = hash" "i_status j \<noteq> invitation_pending"
    by (auto simp: taken_up_def)
  have "inj_on i_hash (set (invites db))" using k by (simp add: keyed_ok_def distinct_map)
  from inj_onD [OF this, of i j] i j show False by auto
qed

text \<open>The rows of a table that an operation keeps.\<close>

lemma gone_more: "gone t u db \<Longrightarrow> set (members db) \<subseteq> set (members db') \<Longrightarrow> gone t u db'"
  unfolding gone_def by blast

lemma gone_put:
  assumes "gone t u db" and "keyed_ok n db" and "m \<in> set (members db)" and "m_deleted m = None" and "m_id m' = m_id m"
  shows "gone t u (append_action s a r w i (put_member m' db))"
proof -
  from assms(1) obtain x where x: "x \<in> set (members db)" "m_tenant x = t" "m_user x = u" "m_deleted x \<noteq> None"
    by (auto simp: gone_def)
  with assms(4) have "x \<noteq> m" by auto
  with x(1) have "x \<in> set (members (put_member m' db))" unfolding put_member_rows [OF assms(2,3,5)] by force
  with x show ?thesis by (auto simp: gone_def)
qed

lemma step_gone:
  assumes "account_step E now s (n, db) (n', db')" and k: "keyed_ok n db" and g: "gone t u db"
  shows "gone t u db'"
  using assms(1)
proof (cases rule: account_step_cases)
  case (wrong_password u email)
  then show ?thesis using user_written(1) [of "conf E" now u db] by (intro gone_more [OF g]) auto
next
  case (signed_in u password t tn m email)
  then show ?thesis using user_written(2) [of now u db] by (intro gone_more [OF g]) auto
next
  case (registered email hash rg db1)
  with registered_db [OF registered(2)] show ?thesis by (intro gone_more [OF g]) auto
next
  case (invited role t address hash expires actor db1)
  then show ?thesis by (intro gone_more [OF g]) (auto simp: add_fields)
next
  case (joined t hash i u db1)
  then show ?thesis by (intro gone_more [OF g]) (auto simp: add_fields)
next
  case (joined_new t hash i u db0 db1)
  then show ?thesis by (intro gone_more [OF g]) (auto simp: add_fields)
next
  case (role_changed t ident m role user)
  with get_member_in [OF role_changed(2)] show ?thesis using gone_put [OF g k, of m "m\<lparr>m_role := role_value role\<rparr>"] by simp
next
  case (removed t ident m user)
  with get_member_in [OF removed(2)] show ?thesis using gone_put [OF g k, of m "m\<lparr>m_deleted := Some now\<rparr>"] by simp
qed (rule gone_more [OF g], simp)+

lemma taken_up_more:
  assumes "taken_up hash db" and "\<And>i. i \<in> set (invites db) \<Longrightarrow> i_status i \<noteq> invitation_pending \<Longrightarrow>
    \<exists>j\<in>set (invites db'). i_hash j = i_hash i \<and> i_status j \<noteq> invitation_pending"
  shows "taken_up hash db'"
  using assms unfolding taken_up_def by metis

lemma answered_kept:
  assumes "i \<in> set (invites db)" and "i_status i \<noteq> invitation_pending"
  shows "s \<noteq> invitation_pending \<Longrightarrow>
      \<exists>j\<in>set (invites (set_invitation_status now s v db)). i_hash j = i_hash i \<and> i_status j \<noteq> invitation_pending"
    and "\<exists>j\<in>set (invites (revoke_pending_for_email t now e db)). i_hash j = i_hash i \<and> i_status j \<noteq> invitation_pending"
proof -
  assume s: "s \<noteq> invitation_pending"
  let ?j = "if i_id i = i_id v then (if s = invitation_accepted then i\<lparr>i_status := s, i_accepted := Some now\<rparr>
    else i\<lparr>i_status := s\<rparr>) else i"
  have "?j \<in> set (invites (set_invitation_status now s v db))" using assms(1) by (auto simp: set_invitation_status_def)
  moreover have "i_hash ?j = i_hash i" "i_status ?j \<noteq> invitation_pending" using s assms(2) by simp_all
  ultimately show "\<exists>j\<in>set (invites (set_invitation_status now s v db)). i_hash j = i_hash i \<and> i_status j \<noteq> invitation_pending"
    by blast
next
  have "i \<in> set (invites (revoke_pending_for_email t now e db))"
    using assms by (force simp: revoke_pending_for_email_def live_invitation_def)
  with assms show "\<exists>j\<in>set (invites (revoke_pending_for_email t now e db)). i_hash j = i_hash i \<and> i_status j \<noteq> invitation_pending"
    by blast
qed

lemma status_codes:
  "invitation_accepted \<noteq> invitation_pending" "invitation_revoked \<noteq> invitation_pending"
  by (simp_all add: invitation_accepted_def invitation_revoked_def invitation_pending_def)

lemma step_taken_up:
  assumes "account_step E now s (n, db) (n', db')" and g: "taken_up hash db"
  shows "taken_up hash db'"
proof -
  have same: ?thesis if "invites db' = invites db" using g that by (simp add: taken_up_def)
  have status: ?thesis if "invites db' = invites (set_invitation_status now c i db)" "c \<noteq> invitation_pending" for c i
    using taken_up_more [OF g] answered_kept(1) that by metis
  from assms(1) show ?thesis
  proof (cases rule: account_step_cases)
    case (wrong_password u email)
    then show ?thesis using user_written(1) [of "conf E" now u db] by (intro same) auto
  next
    case (signed_in u password t tn m email)
    then show ?thesis using user_written(2) [of now u db] by (intro same) auto
  next
    case (registered email hash rg db1)
    with registered_db [OF registered(2)] show ?thesis by (intro same) simp
  next
    case (invited role t address hash expires actor db1)
    then have "set (invites (revoke_pending_for_email t now (strip (lower address)) db)) \<subseteq> set (invites db')"
      by (auto simp: add_fields)
    then show ?thesis using answered_kept(2) by (intro taken_up_more [OF g]) blast
  next
    case (invitation_withdrawn t ident i user)
    then show ?thesis using status_codes(2) by (intro status [of invitation_revoked i]) simp_all
  next
    case (joined t hash i u db1)
    then have "invites db1 = invites db" by (simp add: add_fields)
    with joined show ?thesis using status_codes(1) by (intro status [of invitation_accepted i]) (simp_all add: set_invitation_status_def)
  next
    case (joined_new t hash i u db0 db1)
    then have "invites db1 = invites db" by (auto simp: add_fields)
    with joined_new show ?thesis using status_codes(1)
      by (intro status [of invitation_accepted i]) (simp_all add: set_invitation_status_def)
  qed (rule same, simp)+
qed

section \<open>The rows of other tenants\<close>

text \<open>Everything a tenant other than \<open>t\<close> owns, and the tenants themselves.\<close>

definition elsewhere :: "int \<Rightarrow> accounts \<Rightarrow>
  tenant list \<times> tenant_user list \<times> invitation list \<times> data_scope list \<times> role_row list \<times> audit_row list" where
  "elsewhere t db =
     (filter (\<lambda>x. tn_id x \<noteq> t) (tenants db), filter (\<lambda>x. m_tenant x \<noteq> t) (members db),
      filter (\<lambda>x. i_tenant x \<noteq> t) (invites db), filter (\<lambda>x. ds_tenant x \<noteq> t) (scopes db),
      filter (\<lambda>x. rl_tenant x \<noteq> t) (role_rows db), filter (\<lambda>x. a_tenant x \<noteq> t) (audit_log db))"

lemma elsewhere_audit [simp]: "elsewhere t (append_action t a r u i db) = elsewhere t db"
  by (simp add: elsewhere_def)

lemma filter_map_keep:
  assumes "\<And>x. x \<in> set xs \<Longrightarrow> P (f x) = P x" and "\<And>x. x \<in> set xs \<Longrightarrow> P x \<Longrightarrow> f x = x"
  shows "filter P (map f xs) = filter P xs"
  using assms by (induction xs) auto

lemma elsewhere_scope [simp]: "ds_tenant s = t \<Longrightarrow> elsewhere t (upsert_scope s db) = elsewhere t db"
  unfolding elsewhere_def upsert_scope_def Let_def by (auto intro!: filter_map_keep split: if_splits)

lemma elsewhere_revoked [simp]: "elsewhere t (revoke_pending_for_email t now e db) = elsewhere t db"
  unfolding elsewhere_def revoke_pending_for_email_def by (auto intro!: filter_map_keep split: if_splits)

lemma elsewhere_member:
  assumes "keyed_ok n db" and "m \<in> set (members db)" and "m_id m' = m_id m" and "m_tenant m = t" "m_tenant m' = t"
  shows "elsewhere t (put_member m' db) = elsewhere t db"
  using put_member_rows [OF assms(1-3)] assms(4,5) by (simp add: elsewhere_def filter_put)

lemma elsewhere_status:
  assumes "keyed_ok n db" and "i \<in> set (invites db)" and "i_tenant i = t"
  shows "elsewhere t (set_invitation_status now s i db) = elsewhere t db"
proof -
  have inj: "inj_on i_id (set (invites db))" using assms(1) by (simp add: keyed_ok_def distinct_map)
  have own: "i_tenant x = t" if "x \<in> set (invites db)" "i_id x = i_id i" for x
    using inj_onD [OF inj that(2,1) assms(2)] assms(3) by simp
  have "filter (\<lambda>x. i_tenant x \<noteq> t) (invites (set_invitation_status now s i db)) = filter (\<lambda>x. i_tenant x \<noteq> t) (invites db)"
    by (auto simp: set_invitation_status_def intro!: filter_map_keep dest: own split: if_splits)
  then show ?thesis by (simp add: elsewhere_def)
qed

lemma elsewhere_cong:
  assumes "tenants db' = tenants db" "members db' = members db" "invites db' = invites db" "scopes db' = scopes db"
    and "role_rows db' = role_rows db" "audit_log db' = audit_log db"
  shows "elsewhere t db' = elsewhere t db"
  using assms by (simp add: elsewhere_def)

text \<open>Without a tenant, a step touches users and the login log only.\<close>

lemma step_nobody:
  assumes "account_step E now None (n, db) (n', db')"
  shows "elsewhere t db' = elsewhere t db"
  using assms
proof (cases rule: account_step_cases)
  case (wrong_password u email)
  then show ?thesis using user_written(1) [of "conf E" now u db] by (intro elsewhere_cong) auto
qed (auto intro: elsewhere_cong)

lemma step_elsewhere:
  assumes "account_step E now (Some t) (n, db) (n', db')" and k: "keyed_ok n db"
  shows "elsewhere t db' = elsewhere t db"
  using assms(1)
proof (cases rule: account_step_cases)
  case (signed_in u password t' tn m email)
  then show ?thesis using user_written(2) [of now u db] by (auto intro: elsewhere_cong)
next
  case (registered email hash rg db1)
  with registered_db [OF registered(2)] show ?thesis by (simp add: elsewhere_def bootstrap_tenant_def)
next
  case (invited role t' address hash expires actor db1)
  then have "elsewhere t db' = elsewhere t (revoke_pending_for_email t now (strip (lower address)) db)"
    by (auto simp: add_fields elsewhere_def)
  then show ?thesis by simp
next
  case (invitation_withdrawn t' ident i user)
  with get_invitation_in [OF invitation_withdrawn(2)] show ?thesis by (simp add: elsewhere_status [OF k])
next
  case (joined t' hash i u db1)
  have e: "elsewhere t db1 = elsewhere t db" "invites db1 = invites db"
    using joined(1,4) by (auto simp: add_fields elsewhere_def)
  have "keyed_ok (n + 1) db1"
    using keyed_new_member [OF keyed_verified [OF k joined(3)] joined(4)] get_pending_in [OF joined(2)] joined(3) k
    by (auto simp: keyed_ok_def)
  then have "keyed_ok (n + 1) (upsert_scope \<lparr>ds_tenant = t, ds_member = n, ds_resource = 1, ds_type = 1, ds_shops = []\<rparr> db1)"
    by simp
  from elsewhere_status [OF this, of i t] get_pending_in [OF joined(2)] joined e show ?thesis by simp
next
  case (joined_new t' hash i u db0 db1)
  have e: "elsewhere t db1 = elsewhere t db" "invites db1 = invites db"
    using joined_new(1,8,9) by (auto simp: add_fields elsewhere_def)
  have "keyed_ok (n + 2) db1"
    using keyed_new_member [OF keyed_new_user [OF k joined_new(8,4)] joined_new(9)] get_pending_in [OF joined_new(2)] k
    by (auto simp: keyed_ok_def add.assoc)
  then have "keyed_ok (n + 2) (upsert_scope \<lparr>ds_tenant = t, ds_member = n + 1, ds_resource = 1, ds_type = 1, ds_shops = []\<rparr> db1)"
    by simp
  from elsewhere_status [OF this, of i t] get_pending_in [OF joined_new(2)] joined_new e show ?thesis by simp
next
  case (role_changed t' ident m role user)
  with get_member_in [OF role_changed(2)] show ?thesis by (simp add: elsewhere_member [OF k, where m = m])
next
  case (removed t' ident m user)
  with get_member_in [OF removed(2)] show ?thesis by (simp add: elsewhere_member [OF k, where m = m])
qed auto

section \<open>Histories\<close>

definition accounts_ok :: "auth_settings \<Rightarrow> int \<Rightarrow> int \<Rightarrow> accounts \<Rightarrow> bool" where
  "accounts_ok st now n db \<longleftrightarrow> keyed_ok n db \<and> owned db \<and> one_live now db \<and> guesses_ok st db"

lemma step_accounts_ok:
  assumes "account_step E now t (n, db) (n', db')" and "accounts_ok (conf E) now n db"
  shows "accounts_ok (conf E) now n' db'"
  using assms step_keyed [OF assms(1)] step_owned [OF assms(1)] step_one_live [OF assms(1)] step_guesses [OF assms(1)]
  by (simp add: accounts_ok_def)

definition history_ok :: "auth_settings \<Rightarrow> ('tok, 'r) auth_history \<Rightarrow> bool" where
  "history_ok st h \<longleftrightarrow> aw_saved (ah_world h) = aw_db (ah_world h) \<and>
     accounts_ok st (ah_now h) (aw_ids (ah_world h)) (aw_db (ah_world h))"

text \<open>A request of a history takes one abstract step of the tables.\<close>

lemma auth_step_steps:
  assumes s: "auth_step E h ev = Some h'" and sync: "aw_saved (ah_world h) = aw_db (ah_world h)"
  shows "aw_saved (ah_world h') = aw_db (ah_world h') \<and> ah_now h \<le> ah_now h' \<and>
    (\<exists>t. account_step E (ah_now h') t (aw_ids (ah_world h), aw_db (ah_world h)) (aw_ids (ah_world h'), aw_db (ah_world h')) \<and>
      (\<forall>b. bearer_of (ev_request ev) = Some b \<longrightarrow> acts_for E (ah_now h') (Some b) t))"
proof -
  obtain w w' r where w: "w = (ah_world h)\<lparr>aw_list := (aw_list (ah_world h))\<lparr>bl_redis := ev_redis ev\<rparr>\<rparr>"
    and t: "ah_now h \<le> ev_now ev" "ah_now h' = ev_now ev"
    and r: "handle_auth E (ev_now ev) (ev_request ev) w = (w', r)"
    and h': "ah_world h' = (case r of Inl _ \<Rightarrow> w'\<lparr>aw_db := aw_saved w'\<rparr> | Inr _ \<Rightarrow> w'\<lparr>aw_saved := aw_db w'\<rparr>)"
    using s by (rule auth_step_cases)
  from w sync have w_sync: "aw_saved w = aw_db w" and same: "aw_db w = aw_db (ah_world h)" "aw_ids w = aw_ids (ah_world h)"
    by simp_all
  have kept: "aw_db (ah_world h') = kept_db w' r" "aw_saved (ah_world h') = kept_db w' r" "aw_ids (ah_world h') = aw_ids w'"
    using h' by (auto split: sum.splits)
  from handle_auth_steps [OF r w_sync] obtain tn where tn: "steps E (ev_now ev) tn w w' r"
    "\<forall>b. bearer_of (ev_request ev) = Some b \<longrightarrow> acts_for E (ev_now ev) (Some b) tn" by blast
  have "acts_for E (ev_now ev) b None" for b by (simp add: acts_for_def)
  with tn kept same t show ?thesis unfolding steps_def by auto
qed

lemma step_history_ok:
  assumes "auth_step E h ev = Some h'" and ok: "history_ok (conf E) h"
  shows "history_ok (conf E) h'"
proof -
  from ok have "aw_saved (ah_world h) = aw_db (ah_world h)" by (simp add: history_ok_def)
  from auth_step_steps [OF assms(1) this] obtain t where sync: "aw_saved (ah_world h') = aw_db (ah_world h')"
    and le: "ah_now h \<le> ah_now h'" and step: "account_step E (ah_now h') t (aw_ids (ah_world h), aw_db (ah_world h))
      (aw_ids (ah_world h'), aw_db (ah_world h'))" by blast
  from ok le have "accounts_ok (conf E) (ah_now h') (aw_ids (ah_world h)) (aw_db (ah_world h))"
    by (auto simp: history_ok_def accounts_ok_def intro: one_live_later)
  from step_accounts_ok [OF step this] sync show ?thesis by (simp add: history_ok_def)
qed

interpretation kept: invariant_machine "auth_step E" "history_ok (conf E)" for E
  by unfold_locales (rule step_history_ok)

lemmas accounts_kept = kept.run_inv

lemma booted_ok: "accounts_ok st 0 n db \<Longrightarrow> history_ok st (booted r n db)"
  by (simp add: history_ok_def booted_def)

text \<open>Nothing that was undone for good comes back.\<close>

lemma run_gone:
  assumes "run_machine (auth_step E) h evs = Some h'" and "history_ok (conf E) h"
  shows "(gone t u (aw_db (ah_world h)) \<longrightarrow> gone t u (aw_db (ah_world h'))) \<and>
    (taken_up s (aw_db (ah_world h)) \<longrightarrow> taken_up s (aw_db (ah_world h')))"
  using assms
proof (induction evs arbitrary: h)
  case (Cons ev evs)
  then obtain h1 where s: "auth_step E h ev = Some h1" and run: "run_machine (auth_step E) h1 evs = Some h'"
    by (auto split: option.splits)
  from Cons.prems(2) have sync: "aw_saved (ah_world h) = aw_db (ah_world h)" and k: "keyed_ok (aw_ids (ah_world h)) (aw_db (ah_world h))"
    by (simp_all add: history_ok_def accounts_ok_def)
  from auth_step_steps [OF s sync] obtain t' where step: "account_step E (ah_now h1) t'
    (aw_ids (ah_world h), aw_db (ah_world h)) (aw_ids (ah_world h1), aw_db (ah_world h1))" by blast
  from Cons.IH [OF run step_history_ok [OF s Cons.prems(2)]] step_gone [OF step k] step_taken_up [OF step] show ?case by blast
qed simp

end
