(* ===== verification/AccountPromises.thy ===== *)
theory AccountPromises imports AccountHistory begin

text \<open>
  What accounts promise over any history of requests that starts from sound tables: owners, tenants
  kept apart, passwords that cannot be tried faster, invitations and removals that hold.
\<close>

section \<open>A closed history\<close>

definition team_accounts :: accounts where
  "team_accounts = demo_accounts\<lparr>role_rows :=
     [\<lparr>rl_tenant = 1, rl_code = ''VIEWER'', rl_system = True, rl_permissions = []\<rparr>]\<rparr>"

definition demo_invite :: json where
  "demo_invite = purpose_claims 10 ''member_invite'' (Some 1) None (Some ''bob@acme.com'') (demo_uuid 2) (seconds 210) (hours 72)"

definition bob_access :: json where
  "bob_access = token_claims 11 ''access'' (Some 1) (Some ''VIEWER'') (demo_uuid 4) (seconds 240) (minutes 15)"

definition demo_confirm :: json where
  "demo_confirm = purpose_claims 2 ''confirmation'' (Some 1) (Some ''member.remove'') None (demo_uuid 6) (seconds 250) (minutes 5)"

definition team_events :: "(json, unit) auth_event list" where
  "team_events =
     [at_time 200 (Login ''ann@acme.com'' ''Correct-Horse1'' None),
      at_time 210 (Invite (Some demo_access) '' Bob@acme.com'' R_VIEWER),
      at_time 220 (Accept demo_invite ''Battery-Staple2'' None),
      at_time 230 (Accept demo_invite ''Battery-Staple2'' None),
      at_time 240 (Login ''bob@acme.com'' ''Battery-Staple2'' None),
      at_time 250 (Confirm (Some demo_access) ''Correct-Horse1'' ''member.remove''),
      at_time 260 (Remove (Some demo_access) 12 (Some demo_confirm))]"

text \<open>How the history goes, whose rows it leaves, and what the next request of the removed member meets.\<close>

definition team_outcome :: "(json, unit) auth_history \<Rightarrow>
  (py_error option list \<times> int list \<times> (int \<times> int \<times> int) list) \<times> py_error option list option" where
  "team_outcome h =
     ((verdicts h, map tn_id (tenants (aw_db (ah_world h))),
       map (\<lambda>m. (m_id m, m_tenant m, m_user m)) (members (aw_db (ah_world h)))),
      map_option verdicts (auth_step demo_env h (at_time 270 (Me (Some bob_access)))))"

lemma team_outcomes:
  "map_option team_outcome (run_machine (auth_step demo_env) (booted () 10 team_accounts) team_events) =
     Some (([None, None, None, Some (AppError ''INVITATION_INVALID''), None, None, None], [1], [(3, 1, 2), (12, 1, 11)]),
       Some [None, None, None, Some (AppError ''INVITATION_INVALID''), None, None, None, Some unauthenticated])"
  by code_simp

lemma no_accounts_ok: "accounts_ok st 0 k no_accounts"
  by (simp add: accounts_ok_def keyed_ok_def owned_def one_live_def guesses_ok_def no_accounts_def)

lemma team_accounts_ok: "accounts_ok (conf demo_env) 0 10 team_accounts"
  by (simp add: accounts_ok_def keyed_ok_def owned_def owner_rows_def one_live_def guesses_ok_def no_accounts_def
      team_accounts_def demo_accounts_def demo_env_def default_auth_settings_def sign_in_guesses_def locks_def member_active_def)

lemma team_run:
  obtains h where "run_machine (auth_step demo_env) (booted () 10 team_accounts) team_events = Some h"
    and "map fst (ah_served h) = map ev_request team_events"
    and "verdicts h = [None, None, None, Some (AppError ''INVITATION_INVALID''), None, None, None]"
    and "map tn_id (tenants (aw_db (ah_world h))) = [1]"
    and "map (\<lambda>m. (m_id m, m_tenant m, m_user m)) (members (aw_db (ah_world h))) = [(3, 1, 2), (12, 1, 11)]"
    and "auth_step demo_env h (at_time 270 (Me (Some bob_access))) \<noteq> None"
proof -
  from team_outcomes obtain h where h: "run_machine (auth_step demo_env) (booted () 10 team_accounts) team_events = Some h"
    and v: "team_outcome h =
      (([None, None, None, Some (AppError ''INVITATION_INVALID''), None, None, None], [1], [(3, 1, 2), (12, 1, 11)]),
       Some [None, None, None, Some (AppError ''INVITATION_INVALID''), None, None, None, Some unauthenticated])"
    by auto
  from v have o: "verdicts h = [None, None, None, Some (AppError ''INVITATION_INVALID''), None, None, None]"
    "map tn_id (tenants (aw_db (ah_world h))) = [1]"
    "map (\<lambda>m. (m_id m, m_tenant m, m_user m)) (members (aw_db (ah_world h))) = [(3, 1, 2), (12, 1, 11)]"
    "auth_step demo_env h (at_time 270 (Me (Some bob_access))) \<noteq> None"
    unfolding team_outcome_def by auto
  have "map fst (ah_served h) = map ev_request team_events" using demo_requests [OF h] by (simp add: booted_def)
  from that [OF h this o] show thesis .
qed

lemma run_machine_middle:
  assumes "run_machine step s (xs @ a # ys) = Some t"
  obtains u v where "run_machine step s xs = Some u" and "step u a = Some v" and "run_machine step v ys = Some t"
  using assms by (auto simp: run_machine_append split: option.splits)

lemma team_parts:
  assumes "n < length team_events"
  obtains h1 h2 h where "run_machine (auth_step demo_env) (booted () 10 team_accounts) (take n team_events) = Some h1"
    and "auth_step demo_env h1 (team_events ! n) = Some h2" and "run_machine (auth_step demo_env) h2 (drop (Suc n) team_events) = Some h"
    and "run_machine (auth_step demo_env) (booted () 10 team_accounts) team_events = Some h"
proof -
  obtain h where h: "run_machine (auth_step demo_env) (booted () 10 team_accounts) team_events = Some h" by (rule team_run)
  then have "run_machine (auth_step demo_env) (booted () 10 team_accounts)
    (take n team_events @ (team_events ! n) # drop (Suc n) team_events) = Some h"
    using id_take_nth_drop [OF assms] by simp
  then obtain h1 h2 where "run_machine (auth_step demo_env) (booted () 10 team_accounts) (take n team_events) = Some h1"
    "auth_step demo_env h1 (team_events ! n) = Some h2" "run_machine (auth_step demo_env) h2 (drop (Suc n) team_events) = Some h"
    by (rule run_machine_middle)
  with that h show thesis by blast
qed

section \<open>Owners\<close>

text \<open>C28: Whatever is requested, by whomever, a tenant has exactly one owner, an active member: nobody is
  promoted to owner, invited as one, and the owner is neither demoted nor removed.\<close>

theorem tenants_keep_their_owner:
  assumes "accounts_ok (conf E) 0 k db" and "run_machine (auth_step E) (booted r0 k db) evs = Some h"
    and "tn \<in> set (tenants (aw_db (ah_world h)))"
  shows "\<exists>m. filter (\<lambda>m. m_tenant m = tn_id tn \<and> m_role m = ''OWNER'') (members (aw_db (ah_world h))) = [m] \<and>
    m_status m = member_active \<and> m_deleted m = None"
proof -
  have "history_ok (conf E) h" by (rule accounts_kept [OF booted_ok [OF assms(1)] assms(2)])
  with assms(3) show ?thesis by (auto simp: history_ok_def accounts_ok_def owned_def owner_rows_def)
qed

theorem tenants_keep_their_owner_witness:
  "\<exists>h tn m. run_machine (auth_step demo_env) (booted () 10 team_accounts) team_events = Some h \<and>
     tn \<in> set (tenants (aw_db (ah_world h))) \<and>
     filter (\<lambda>m. m_tenant m = tn_id tn \<and> m_role m = ''OWNER'') (members (aw_db (ah_world h))) = [m]"
proof -
  obtain h where h: "run_machine (auth_step demo_env) (booted () 10 team_accounts) team_events = Some h"
    and t: "map tn_id (tenants (aw_db (ah_world h))) = [1]" by (rule team_run)
  from t obtain tn where tn: "tn \<in> set (tenants (aw_db (ah_world h)))" by auto
  from tenants_keep_their_owner [OF team_accounts_ok h tn] h tn show ?thesis by blast
qed

section \<open>Tenants kept apart\<close>

text \<open>C29: A request that presents the access token of a tenant leaves every row of every other tenant as it
  is, answered or refused.\<close>

theorem tenants_kept_apart:
  assumes "accounts_ok (conf E) 0 k db" and "run_machine (auth_step E) (booted r0 k db) evs = Some h"
    and "auth_step E h ev = Some h'" and "bearer_of (ev_request ev) = Some b"
    and "decode_token (lib E) (conf E) (ev_now ev) b ''access'' = Inr p" and "tp_tid p = Some t"
  shows "elsewhere t (aw_db (ah_world h')) = elsewhere t (aw_db (ah_world h))"
proof -
  have ok: "history_ok (conf E) h" by (rule accounts_kept [OF booted_ok [OF assms(1)] assms(2)])
  then have sync: "aw_saved (ah_world h) = aw_db (ah_world h)" and k: "keyed_ok (aw_ids (ah_world h)) (aw_db (ah_world h))"
    by (simp_all add: history_ok_def accounts_ok_def)
  have n: "ah_now h' = ev_now ev" using assms(3) by (rule auth_step_cases)
  from auth_step_steps [OF assms(3) sync] assms(4) obtain s where
    step: "account_step E (ah_now h') s (aw_ids (ah_world h), aw_db (ah_world h)) (aw_ids (ah_world h'), aw_db (ah_world h'))"
    and a: "acts_for E (ah_now h') (Some b) s" by blast
  from a assms(5,6) n have "s = None \<or> s = Some t" by (auto simp: acts_for_def speaks_for_def)
  then show ?thesis using step step_nobody step_elsewhere [OF _ k] by blast
qed

theorem tenants_kept_apart_witness:
  "\<exists>h h'. run_machine (auth_step demo_env) (booted () 10 team_accounts) (take 1 team_events) = Some h \<and>
     auth_step demo_env h (at_time 210 (Invite (Some demo_access) '' Bob@acme.com'' R_VIEWER)) = Some h' \<and>
     elsewhere 1 (aw_db (ah_world h')) = elsewhere 1 (aw_db (ah_world h))"
proof -
  have n: "1 < length team_events" by (simp add: team_events_def)
  obtain h h' where h: "run_machine (auth_step demo_env) (booted () 10 team_accounts) (take 1 team_events) = Some h"
    and s: "auth_step demo_env h (team_events ! 1) = Some h'" by (rule team_parts [OF n])
  have d: "map_option tp_tid (case decode_token (lib demo_env) (conf demo_env) (ev_now (team_events ! 1)) demo_access ''access'' of
      Inl e \<Rightarrow> None | Inr p \<Rightarrow> Some p) = Some (Some 1)" by code_simp
  then obtain p where p: "decode_token (lib demo_env) (conf demo_env) (ev_now (team_events ! 1)) demo_access ''access'' = Inr p"
    "tp_tid p = Some 1" by (auto split: sum.splits)
  have "bearer_of (ev_request (team_events ! 1)) = Some demo_access" by (simp add: team_events_def at_time_def)
  from tenants_kept_apart [OF team_accounts_ok h s this p] h s show ?thesis by (auto simp: team_events_def)
qed

section \<open>Passwords\<close>

text \<open>The counter belongs to the sign-in: a wrong password at the confirmation of an action, or for a known
  address at the acceptance of an invitation, is refused without being counted, and the lock is not asked.\<close>

lemma confirm_uncounted:
  "\<not> verify_password (lib E) password (u_hash (id_user i)) \<Longrightarrow> confirm_password E now i password action w = (w, Inl unauthenticated)"
  by (simp add: confirm_password_def acts)

lemma accept_uncounted:
  assumes "get_by_email email (aw_db w) = Some u" and "\<not> verify_password (lib E) password (u_hash u)"
  shows "invited_user E now email password display w = (w, Inl (AppError ''INVITATION_INVALID''))"
  using assms by (simp add: invited_user_def acts)

text \<open>C30: With requests served one after another: the wrong passwords tried at the sign-in (\<^verbatim>\<open>/login\<close>) against an
  account since its last success there are a list of times; once there are \<open>login_max_failures\<close> of them, each
  further one comes at least the lock's length after the one before.\<close>

theorem guesses_spaced:
  assumes "accounts_ok (conf E) 0 k db" and "run_machine (auth_step E) (booted r0 k db) evs = Some h"
    and "u \<in> set (users (aw_db (ah_world h)))" and "i + 1 < length (sign_in_guesses (u_id u) (aw_db (ah_world h)))"
    and "login_max_failures (conf E) \<le> int (i + 1)"
  shows "sign_in_guesses (u_id u) (aw_db (ah_world h)) ! i + minutes (login_lock_minutes (conf E))
    \<le> sign_in_guesses (u_id u) (aw_db (ah_world h)) ! (i + 1)"
proof -
  have "history_ok (conf E) h" by (rule accounts_kept [OF booted_ok [OF assms(1)] assms(2)])
  with assms(3-5) show ?thesis by (auto simp: history_ok_def accounts_ok_def guesses_ok_def Let_def lock_span_def)
qed

definition guess_events :: "(json, unit) auth_event list" where
  "guess_events = map (\<lambda>t. at_time t (Login ''ann@acme.com'' ''wrong'' None)) [300, 301, 302, 303, 304, 400, 1300]"

lemma guess_times:
  "map_option (\<lambda>h. (map u_id (users (aw_db (ah_world h))), sign_in_guesses 2 (aw_db (ah_world h))))
     (run_machine (auth_step demo_env) (booted () 10 team_accounts) guess_events) =
     Some ([2], map seconds [300, 301, 302, 303, 304, 1300])"
  by code_simp

theorem guesses_spaced_witness:
  "\<exists>h. run_machine (auth_step demo_env) (booted () 10 team_accounts) guess_events = Some h \<and>
     sign_in_guesses 2 (aw_db (ah_world h)) ! 4 + minutes 15 \<le> sign_in_guesses 2 (aw_db (ah_world h)) ! 5"
proof -
  from guess_times obtain h where h: "run_machine (auth_step demo_env) (booted () 10 team_accounts) guess_events = Some h"
    and g: "map u_id (users (aw_db (ah_world h))) = [2]" "sign_in_guesses 2 (aw_db (ah_world h)) = map seconds [300, 301, 302, 303, 304, 1300]"
    by auto
  from g(1) obtain u where u: "u \<in> set (users (aw_db (ah_world h)))" "u_id u = 2" by auto
  have l: "4 + 1 < length (sign_in_guesses (u_id u) (aw_db (ah_world h)))" "login_max_failures (conf demo_env) \<le> int (4 + 1)"
    using g(2) u(2) by (simp_all add: demo_env_def default_auth_settings_def)
  from guesses_spaced [OF team_accounts_ok h u(1) l] h u(2) show ?thesis
    by (auto simp: demo_env_def default_auth_settings_def)
qed

section \<open>Invitations\<close>

lemma accept_takes:
  assumes "accept E now token password display w = (w', Inr x)"
  shows "\<exists>t i. get_pending_by_hash t now (sha256_hex (lib E) token) (aw_db w) = Some i \<and>
    invites (aw_db w') = invites (set_invitation_status now invitation_accepted i (aw_db w))"
proof -
  from assms obtain p where dec: "decode_purpose_token (lib E) (conf E) now token ''member_invite'' = Inr p"
    by (cases "decode_purpose_token (lib E) (conf E) now token ''member_invite''") (auto simp: accept_def acts)
  from assms dec obtain tid c cs where t: "pp_tid p = Some tid" "pp_email p = Some (c # cs)"
    by (auto simp: accept_def acts split: option.splits list.splits)
  let ?find = "get_pending_by_hash tid now (sha256_hex (lib E) token) (aw_db w)"
  from assms dec t obtain i where i: "?find = Some i" "i_id i = pp_sub p"
    by (cases ?find) (auto simp: accept_def acts split: if_splits)
  obtain w1 q where q: "invited_user E now (c # cs) password display w = (w1, q)" by fastforce
  from assms dec t i obtain u where u: "q = Inr u"
    by (cases q) (auto simp: accept_def acts bindw_ran [of "invited_user E now (c # cs) password display", OF q])
  have keep: "invites (aw_db w1) = invites (aw_db w)"
    using invited_user_cases [OF q] u by (auto simp: add_fields)
  obtain db1 where "invites db1 = invites (aw_db w1)"
    "invites (aw_db w') = invites (set_invitation_status now invitation_accepted i db1)"
    using assms dec t i u
    by (auto simp: accept_def acts bindw_ran [of "invited_user E now (c # cs) password display", OF q] add_fields
        set_invitation_status_def split: if_splits sum.splits)
  with keep i(1) show ?thesis by (auto simp: set_invitation_status_def)
qed

text \<open>C32: An invitation is taken up at most once: of the requests that present its token, however they are
  spread over a history, at most one is answered.\<close>

theorem invitation_used_once:
  assumes "accounts_ok (conf E) 0 k db" and "run_machine (auth_step E) (booted r0 k db) evs = Some h"
    and "ah_served h = pre @ (Accept t p d, Inr x) # mid @ (Accept t p' d', res) # post"
  shows "\<exists>e. res = Inl e"
proof (cases res)
  case (Inr y)
  have served: "ah_served h = ah_served (booted r0 k db) @ pre @ (Accept t p d, Inr x) # (mid @ (Accept t p' d', Inr y) # post)"
    using assms(3) Inr by (simp add: booted_def)
  have hd: "\<exists>t' i. get_pending_by_hash t' (ev_now ev) (sha256_hex (lib E) t) (aw_db (ah_world g)) = Some i \<and>
      invites (aw_db (ah_world g')) = invites (set_invitation_status (ev_now ev) invitation_accepted i (aw_db (ah_world g)))"
    if s: "auth_step E g ev = Some g'" and "ev_request ev = Accept t a b" "ah_served g' = ah_served g @ [(Accept t a b, Inr z)]"
    for g g' ev a b z
  proof -
    obtain w w' r where w: "w = (ah_world g)\<lparr>aw_list := (aw_list (ah_world g))\<lparr>bl_redis := ev_redis ev\<rparr>\<rparr>"
      and r: "handle_auth E (ev_now ev) (ev_request ev) w = (w', r)"
      and g': "ah_world g' = (case r of Inl _ \<Rightarrow> w'\<lparr>aw_db := aw_saved w'\<rparr> | Inr _ \<Rightarrow> w'\<lparr>aw_saved := aw_db w'\<rparr>)"
      and l: "ah_served g' = ah_served g @ [(ev_request ev, r)]" using s by (rule auth_step_cases)
    from l that(3) have z: "r = Inr z" by simp
    from r z that(2) obtain x where "accept E (ev_now ev) t a b w = (w', Inr x)"
      by (auto simp: valid_def respond_def bindw_Inr acts split: if_splits)
    from accept_takes [OF this] w g' z show ?thesis by auto
  qed
  from auth_run_split [OF assms(2) served] obtain before ev after h1 h2 where
    b: "run_machine (auth_step E) (booted r0 k db) before = Some h1" and s: "auth_step E h1 ev = Some h2"
    and a: "run_machine (auth_step E) h2 after = Some h" and ev: "ev_request ev = Accept t p d"
    and h2: "ah_served h1 = ah_served (booted r0 k db) @ pre" "ah_served h2 = ah_served h1 @ [(Accept t p d, Inr x)]" by blast
  have ok1: "history_ok (conf E) h1" by (rule accounts_kept [OF booted_ok [OF assms(1)] b])
  have ok2: "history_ok (conf E) h2" by (rule step_history_ok [OF s ok1])
  from hd [OF s ev h2(2)] obtain t' i where i: "get_pending_by_hash t' (ev_now ev) (sha256_hex (lib E) t) (aw_db (ah_world h1)) = Some i"
    "invites (aw_db (ah_world h2)) = invites (set_invitation_status (ev_now ev) invitation_accepted i (aw_db (ah_world h1)))" by blast
  note j = get_pending_in [OF i(1)]
  then have "i\<lparr>i_status := invitation_accepted, i_accepted := Some (ev_now ev)\<rparr> \<in> set (invites (aw_db (ah_world h2)))"
    unfolding i(2) by (auto simp: set_invitation_status_def)
  with j status_codes(1) have up: "taken_up (sha256_hex (lib E) t) (aw_db (ah_world h2))"
    unfolding taken_up_def by (intro bexI [of _ "i\<lparr>i_status := invitation_accepted, i_accepted := Some (ev_now ev)\<rparr>"]) simp_all
  have "ah_served h = ah_served h2 @ mid @ (Accept t p' d', Inr y) # post" using served h2 by simp
  from auth_run_split [OF a this] obtain between ev' after' h3 h4 where
    b': "run_machine (auth_step E) h2 between = Some h3" and s': "auth_step E h3 ev' = Some h4"
    and ev': "ev_request ev' = Accept t p' d'" and h4: "ah_served h4 = ah_served h3 @ [(Accept t p' d', Inr y)]" by blast
  have "taken_up (sha256_hex (lib E) t) (aw_db (ah_world h3))" using run_gone [OF b' ok2] up by blast
  moreover have "keyed_ok (aw_ids (ah_world h3)) (aw_db (ah_world h3))"
    using accounts_kept [OF ok2 b'] by (simp add: history_ok_def accounts_ok_def)
  ultimately show ?thesis using hd [OF s' ev' h4] taken_up_none by fastforce
qed simp

theorem invitation_used_once_witness:
  "\<exists>h x res pre post. run_machine (auth_step demo_env) (booted () 10 team_accounts) team_events = Some h \<and>
     ah_served h = pre @ (Accept demo_invite ''Battery-Staple2'' None, Inr x)
       # (Accept demo_invite ''Battery-Staple2'' None, res) # post \<and> (\<exists>e. res = Inl e)"
proof -
  obtain h where h: "run_machine (auth_step demo_env) (booted () 10 team_accounts) team_events = Some h"
    and f: "map fst (ah_served h) = map ev_request team_events"
    and v: "verdicts h = [None, None, None, Some (AppError ''INVITATION_INVALID''), None, None, None]"
    by (rule team_run)
  from f v obtain q1 q2 x res post where s: "ah_served h = [q1, q2] @ (Accept demo_invite ''Battery-Staple2'' None, Inr x)
      # [] @ (Accept demo_invite ''Battery-Staple2'' None, res) # post"
    by (auto simp: verdicts_def team_events_def at_time_def map_eq_Cons_conv)
  from invitation_used_once [OF team_accounts_ok h s] h s show ?thesis
    by (intro exI [of _ h] exI [of _ x] exI [of _ res] exI [of _ "[q1, q2]"] exI [of _ post]) simp
qed

section \<open>Removal\<close>

lemma remove_marks:
  assumes "handle_auth E now (Remove a ident c) w = (w', Inr x)"
  shows "\<exists>t m. get_member t ident (aw_db w) = Some m \<and>
    members (aw_db w') = members (put_member (m\<lparr>m_deleted := Some now\<rparr>) (aw_db w))"
proof -
  from assms obtain i w1 w2 where p: "member_writer E now a w = (w1, Inr i)"
    and c: "require_confirmation E now i ''member.remove'' c w1 = (w2, Inr ())"
    and r: "remove_member now i ident w2 = (w', Inr ())"
    by (auto simp: bindw_Inr respond_def acts)
  have db: "aw_db w2 = aw_db w"
    using leavesD [OF leaves_identity(4) p] leavesD [OF leaves_confirmation(1) c] by simp
  from r obtain m where "get_member (tn_id (id_tenant i)) ident (aw_db w2) = Some m"
    "aw_db w' = append_action (tn_id (id_tenant i)) ''MEMBER_REMOVE'' ''member'' (Some (u_id (id_user i))) (Some ident)
      (put_member (m\<lparr>m_deleted := Some now\<rparr>) (aw_db w2))"
    by (auto simp: remove_member_def guard_admin_def protect_last_admin_def Let_def acts bindw_Inr split: option.splits if_splits)
  with db show ?thesis by auto
qed

lemma identity_member:
  assumes "get_identity E now (Some b) w = (w1, Inr i)" and "decode_token (lib E) (conf E) now b ''access'' = Inr p" and "tp_tid p = Some t"
  shows "get_membership t (tp_sub p) (aw_db w) \<noteq> None"
proof
  assume none: "get_membership t (tp_sub p) (aw_db w) = None"
  obtain w2 q where q: "assert_token_not_revoked E now p w = (w2, q)" by fastforce
  have "leaves aw_db (assert_token_not_revoked E now p)" unfolding assert_token_not_revoked_def by (intro leaving)
  from leavesD [OF this q] none assms show False
    by (cases q) (auto simp: get_identity_def decode_def acts bindw_ran [of "assert_token_not_revoked E now p", OF q]
        split: option.splits if_splits)
qed

text \<open>C31: Once a member is removed, every later request that presents an access token of that user for that
  tenant is refused, however long the token would still have been valid.\<close>

theorem removed_member_locked_out:
  assumes "accounts_ok (conf E) 0 k db" and "run_machine (auth_step E) (booted r0 k db) evs = Some h"
    and "auth_step E h ev = Some h1" and "ev_request ev = Remove a ident c" and "ah_served h1 = ah_served h @ [(Remove a ident c, Inr x)]"
    and "m \<in> set (members (aw_db (ah_world h1)))" and "m_id m = ident"
    and "run_machine (auth_step E) h1 evs' = Some h2"
    and "auth_step E h2 ev' = Some h3" and "bearer_of (ev_request ev') = Some b"
    and "decode_token (lib E) (conf E) (ev_now ev') b ''access'' = Inr p"
    and "tp_sub p = m_user m" and "tp_tid p = Some (m_tenant m)"
  shows "\<exists>e. ah_served h3 = ah_served h2 @ [(ev_request ev', Inl e)]"
proof -
  have ok: "history_ok (conf E) h" by (rule accounts_kept [OF booted_ok [OF assms(1)] assms(2)])
  have ok1: "history_ok (conf E) h1" by (rule step_history_ok [OF assms(3) ok])
  have ok2: "history_ok (conf E) h2" by (rule accounts_kept [OF ok1 assms(8)])
  from ok ok2 have k: "keyed_ok (aw_ids (ah_world h)) (aw_db (ah_world h))" and k2: "keyed_ok (aw_ids (ah_world h2)) (aw_db (ah_world h2))"
    by (simp_all add: history_ok_def accounts_ok_def)
  obtain w w' r where w: "w = (ah_world h)\<lparr>aw_list := (aw_list (ah_world h))\<lparr>bl_redis := ev_redis ev\<rparr>\<rparr>"
    and r: "handle_auth E (ev_now ev) (ev_request ev) w = (w', r)"
    and h1: "ah_world h1 = (case r of Inl _ \<Rightarrow> w'\<lparr>aw_db := aw_saved w'\<rparr> | Inr _ \<Rightarrow> w'\<lparr>aw_saved := aw_db w'\<rparr>)"
    and l: "ah_served h1 = ah_served h @ [(ev_request ev, r)]" using assms(3) by (rule auth_step_cases)
  from l assms(4,5) have rx: "r = Inr x" by simp
  from remove_marks r rx assms(4) obtain t v where v: "get_member t ident (aw_db w) = Some v"
    "members (aw_db w') = members (put_member (v\<lparr>m_deleted := Some (ev_now ev)\<rparr>) (aw_db w))" by metis
  note in_v = get_member_in [OF v(1)]
  have ms: "members (aw_db (ah_world h1)) = map (\<lambda>z. if z = v then v\<lparr>m_deleted := Some (ev_now ev)\<rparr> else z) (members (aw_db (ah_world h)))"
    using put_member_rows [OF k, of v "v\<lparr>m_deleted := Some (ev_now ev)\<rparr>"] in_v v(2) w h1 rx by simp
  have "inj_on m_id (set (members (aw_db (ah_world h))))" using k by (simp add: keyed_ok_def distinct_map)
  from inj_onD [OF this] ms assms(6,7) in_v w have "m = v\<lparr>m_deleted := Some (ev_now ev)\<rparr>" by (auto split: if_splits)
  then have "gone (m_tenant m) (m_user m) (aw_db (ah_world h1))" unfolding gone_def by (intro bexI [OF _ assms(6)]) simp
  with run_gone [OF assms(8) ok1] have "gone (m_tenant m) (m_user m) (aw_db (ah_world h2))" by blast
  from gone_no_member [OF this k2] have none: "get_membership (m_tenant m) (tp_sub p) (aw_db (ah_world h2)) = None"
    using assms(12) by simp
  obtain w2 w3 q where w2: "w2 = (ah_world h2)\<lparr>aw_list := (aw_list (ah_world h2))\<lparr>bl_redis := ev_redis ev'\<rparr>\<rparr>"
    and q: "handle_auth E (ev_now ev') (ev_request ev') w2 = (w3, q)"
    and l3: "ah_served h3 = ah_served h2 @ [(ev_request ev', q)]" using assms(9) by (rule auth_step_cases)
  show ?thesis
  proof (cases q)
    case (Inr y)
    from bearer_identified [OF assms(10) q [unfolded Inr]] obtain w4 i where "get_identity E (ev_now ev') (Some b) w2 = (w4, Inr i)"
      by blast
    from identity_member [OF this assms(11,13)] none w2 show ?thesis by simp
  qed (use l3 in simp)
qed

theorem removed_member_locked_out_witness:
  "\<exists>h h3 m. run_machine (auth_step demo_env) (booted () 10 team_accounts) team_events = Some h \<and>
     m \<in> set (members (aw_db (ah_world h))) \<and> m_user m = 11 \<and>
     auth_step demo_env h (at_time 270 (Me (Some bob_access))) = Some h3 \<and>
     (\<exists>e. ah_served h3 = ah_served h @ [(Me (Some bob_access), Inl e)])"
proof -
  obtain h where h: "run_machine (auth_step demo_env) (booted () 10 team_accounts) team_events = Some h"
    and v: "verdicts h = [None, None, None, Some (AppError ''INVITATION_INVALID''), None, None, None]"
    and ms: "map (\<lambda>m. (m_id m, m_tenant m, m_user m)) (members (aw_db (ah_world h))) = [(3, 1, 2), (12, 1, 11)]"
    and asked: "auth_step demo_env h (at_time 270 (Me (Some bob_access))) \<noteq> None" by (rule team_run)
  have n: "6 < length team_events" by (simp add: team_events_def)
  have e: "ev_request (team_events ! 6) = Remove (Some demo_access) 12 (Some demo_confirm)" "drop (Suc 6) team_events = []"
    by (simp_all add: team_events_def at_time_def)
  obtain h0 h1 h' where h0: "run_machine (auth_step demo_env) (booted () 10 team_accounts) (take 6 team_events) = Some h0"
    and s: "auth_step demo_env h0 (team_events ! 6) = Some h1"
    and r: "run_machine (auth_step demo_env) h1 (drop (Suc 6) team_events) = Some h'"
    and h': "run_machine (auth_step demo_env) (booted () 10 team_accounts) team_events = Some h'" by (rule team_parts [OF n])
  from h h' r e(2) have h1: "h1 = h" by simp
  obtain res where l: "ah_served h1 = ah_served h0 @ [(ev_request (team_events ! 6), res)]" using s by (rule auth_step_cases)
  from v l h1 obtain x where x: "res = Inr x" by (auto simp: verdicts_def append_eq_Cons_conv)
  from ms obtain l m where "members (aw_db (ah_world h)) = [l, m]" "m_id m = 12" "m_tenant m = 1" "m_user m = 11" by auto
  then have m: "m \<in> set (members (aw_db (ah_world h)))" "m_id m = 12" "m_tenant m = 1" "m_user m = 11" by simp_all
  from asked obtain h3 where h3: "auth_step demo_env h (at_time 270 (Me (Some bob_access))) = Some h3" by blast
  have "map_option (\<lambda>p. (tp_sub p, tp_tid p)) (case decode_token (lib demo_env) (conf demo_env) (seconds 270) bob_access ''access'' of
      Inl e \<Rightarrow> None | Inr p \<Rightarrow> Some p) = Some (11, Some 1)" by code_simp
  then obtain p where p: "decode_token (lib demo_env) (conf demo_env) (ev_now (at_time 270 (Me (Some bob_access)))) bob_access ''access'' = Inr p"
    "tp_sub p = m_user m" "tp_tid p = Some (m_tenant m)" using m by (auto simp: at_time_def split: sum.splits)
  have b: "bearer_of (ev_request (at_time 270 (Me (Some bob_access)))) = Some bob_access" by (simp add: at_time_def)
  have "run_machine (auth_step demo_env) h1 [] = Some h" using h1 by simp
  from removed_member_locked_out [OF team_accounts_ok h0 s e(1) l [unfolded e(1) x] m(1) [folded h1] m(2) this h3 b p]
  show ?thesis using h m h3 by (auto simp: at_time_def)
qed

end
