(* ===== verification/Webhooks.thy ===== *)
theory Webhooks imports Effects OrderSync OrderBook begin

text \<open>
  Pushes of the platforms: the stores of \<^verbatim>\<open>app/webhooks/store.py\<close>, the entrance of
  \<^verbatim>\<open>services/webhook_ingress.py\<close> and the background work of \<^verbatim>\<open>services/webhook_dispatch.py\<close> with its
  task in \<^verbatim>\<open>tasks/sync.py\<close>.  The entrance works on a world of its ports: the store of claimed events,
  the limiter, the broker, the dead letters and the clock.  A platform's adapter, the address library,
  UTF-8 and SHA-256 are parameters.  The entrance and the dead letters read one clock.  Logging is not modelled.
\<close>

section \<open>Claimed events and the limiter\<close>

record 's event_dedup =
  dedup_claim :: "string \<Rightarrow> int \<Rightarrow> int \<Rightarrow> ('s, bool) act"
  dedup_release :: "string \<Rightarrow> ('s, unit) act"

type_synonym claims = "string \<Rightarrow> int option"

definition memory_claim :: "string \<Rightarrow> int \<Rightarrow> int \<Rightarrow> (claims, bool) act" where
  "memory_claim key ttl now = (\<lambda>until.
     if (case until key of None \<Rightarrow> False | Some expiry \<Rightarrow> expiry > now) then (until, Inr False)
     else (until(key \<mapsto> now + seconds (max 1 ttl)), Inr True))"

definition memory_unclaim :: "string \<Rightarrow> (claims, unit) act" where
  "memory_unclaim key = (\<lambda>until. (until(key := None), Inr ()))"

definition memory_event_dedup :: "claims event_dedup" where
  "memory_event_dedup = \<lparr>dedup_claim = memory_claim, dedup_release = memory_unclaim\<rparr>"

type_synonym push_counts = "string \<times> int \<Rightarrow> int option"

text \<open>\<open>int(now.timestamp())\<close>, for instants after 1970.\<close>

definition push_second :: "int \<Rightarrow> int" where
  "push_second now = now div 1000000"

definition memory_allow :: "string \<Rightarrow> int \<Rightarrow> int \<Rightarrow> (push_counts, bool) act" where
  "memory_allow platform now per_second = (\<lambda>counts.
     if per_second < 1 then (counts, Inr False)
     else
       let second = push_second now; name = lower (strip platform);
           recent = (\<lambda>(p, t). if t \<ge> second - 1 then counts (p, t) else None);
           used = (case recent (name, second) of None \<Rightarrow> 0 | Some n \<Rightarrow> n) + 1 in
       (recent((name, second) \<mapsto> used), Inr (used \<le> per_second)))"

text \<open>Over Redis: \<open>SET NX EX\<close>, \<open>DEL\<close>, \<open>INCR\<close> and \<open>EXPIRE\<close>; each may fail.\<close>

record 's push_redis =
  redis_set_nx :: "'s \<Rightarrow> string \<Rightarrow> int \<Rightarrow> 's \<times> (unit + bool)"
  redis_delete :: "'s \<Rightarrow> string \<Rightarrow> 's \<times> (unit + unit)"
  redis_incr :: "'s \<Rightarrow> string \<Rightarrow> 's \<times> (unit + int)"
  redis_expire :: "'s \<Rightarrow> string \<Rightarrow> int \<Rightarrow> 's \<times> (unit + unit)"

definition or_unavailable :: "'s \<times> (unit + 'a) \<Rightarrow> 's \<times> 'a res" where
  "or_unavailable m = (case m of (s, Inl _) \<Rightarrow> (s, Inl StoreUnavailable) | (s, Inr x) \<Rightarrow> (s, Inr x))"

definition redis_claim :: "'s push_redis \<Rightarrow> string \<Rightarrow> int \<Rightarrow> int \<Rightarrow> ('s, bool) act" where
  "redis_claim client key ttl now = (\<lambda>s. or_unavailable (redis_set_nx client s (''wh:event:'' @ key) (max 1 ttl)))"

definition redis_unclaim :: "'s push_redis \<Rightarrow> string \<Rightarrow> ('s, unit) act" where
  "redis_unclaim client key = (\<lambda>s. or_unavailable (redis_delete client s (''wh:event:'' @ key)))"

definition redis_event_dedup :: "'s push_redis \<Rightarrow> 's event_dedup" where
  "redis_event_dedup client = \<lparr>dedup_claim = redis_claim client, dedup_release = redis_unclaim client\<rparr>"

definition redis_allow :: "'s push_redis \<Rightarrow> string \<Rightarrow> int \<Rightarrow> int \<Rightarrow> ('s, bool) act" where
  "redis_allow client platform now per_second =
     (if per_second < 1 then give False
      else
        let key = ''wh:rl:'' @ lower (strip platform) @ '':'' @ str_int (push_second now) in
        bindw (\<lambda>s. or_unavailable (redis_incr client s key)) (\<lambda>used.
        bindw (if used = 1 then (\<lambda>s. or_unavailable (redis_expire client s key 2)) else give ()) (\<lambda>_.
        give (used \<le> per_second))))"

section \<open>The entrance\<close>

record push_library =
  utf8_decode :: "string \<Rightarrow> string option"
  sha256_text :: "string \<Rightarrow> string"
  ip_address :: "string \<Rightarrow> string option"
  ip_in_network :: "string \<Rightarrow> string \<Rightarrow> bool option"

record push_settings =
  webhook_qps :: int
  webhook_event_ttl_seconds :: int
  webhook_max_body_bytes :: int
  webhook_source_cidrs :: string
  webhook_public_base_url :: string
  api_v1_prefix :: string

definition default_push_settings :: push_settings where
  "default_push_settings =
     \<lparr>webhook_qps = 100, webhook_event_ttl_seconds = 86400, webhook_max_body_bytes = 1048576,
      webhook_source_cidrs = [], webhook_public_base_url = [], api_v1_prefix = ''/api/v1''\<rparr>"

definition ip_allowed :: "push_library \<Rightarrow> string option \<Rightarrow> string \<Rightarrow> bool" where
  "ip_allowed l client raw_cidrs =
     (let rules = filter (\<lambda>r. r \<noteq> []) (map strip (split_on (CHR '','') raw_cidrs)) in
      if rules = [] then True
      else case client of
        None \<Rightarrow> False
      | Some c \<Rightarrow>
          if c = [] then False
          else (case ip_address l c of
              None \<Rightarrow> False
            | Some a \<Rightarrow> list_ex (\<lambda>rule. if CHR ''/'' \<in> set rule then ip_in_network l a rule = Some True
                                       else ip_address l rule = Some a) rules))"

definition rstrip_slash :: "string \<Rightarrow> string" where
  "rstrip_slash s = rev (dropWhile (\<lambda>c. c = CHR ''/'') (rev s))"

definition callback_url_for :: "push_settings \<Rightarrow> string \<Rightarrow> string \<Rightarrow> string" where
  "callback_url_for st request_url platform =
     (let base = rstrip_slash (strip (webhook_public_base_url st)) in
      if base \<noteq> [] then base @ api_v1_prefix st @ ''/webhooks/'' @ platform
      else hd (split_on (CHR ''?'') request_url))"

text \<open>An event as an adapter reads it; \<open>subscribe_url\<close> is the text of that field of \<open>raw\<close>, or empty.\<close>

record webhook_event =
  event_id :: string
  event_kind :: string
  event_shop :: string
  event_order :: "string option"
  subscribe_url :: string

record 's push_adapter =
  verify_webhook :: "string \<Rightarrow> (string \<times> string) list \<Rightarrow> string \<Rightarrow> ('s, bool) act"
  parse_webhook :: "string \<Rightarrow> sync_error + webhook_event"

record push_payload =
  push_platform :: string
  push_body :: string
  push_event :: string
  push_kind :: string

record 's push_ports =
  port_dedup :: "'s event_dedup"
  port_limiter :: "string \<Rightarrow> int \<Rightarrow> int \<Rightarrow> ('s, bool) act"
  port_publish :: "push_payload \<Rightarrow> ('s, unit) act"
  port_letters :: "'s letter_list"
  port_clock :: "('s, int) act"
  port_adapter :: "string \<Rightarrow> 's push_adapter"

record push_answer =
  accepted :: bool
  duplicate :: bool

definition fresh_answer :: push_answer where
  "fresh_answer = \<lparr>accepted = True, duplicate = False\<rparr>"

definition duplicate_answer :: push_answer where
  "duplicate_answer = \<lparr>accepted = True, duplicate = True\<rparr>"

definition body_text :: "push_library \<Rightarrow> string \<Rightarrow> string" where
  "body_text l body = (case utf8_decode l body of Some t \<Rightarrow> t | None \<Rightarrow> sha256_text l body)"

definition push_allowed :: "'s push_ports \<Rightarrow> push_settings \<Rightarrow> string \<Rightarrow> int \<Rightarrow> ('s, bool) act" where
  "push_allowed P st platform now =
     otherwise_at StoreUnavailable True (port_limiter P platform now (webhook_qps st))"

definition claim_event :: "'s push_ports \<Rightarrow> push_settings \<Rightarrow> string \<Rightarrow> int \<Rightarrow> ('s, bool) act" where
  "claim_event P st key now = dedup_claim (port_dedup P) key (webhook_event_ttl_seconds st) now"

definition release_event :: "'s push_ports \<Rightarrow> string \<Rightarrow> ('s, unit) act" where
  "release_event P key = suppressing StoreUnavailable (dedup_release (port_dedup P) key)"

definition letter_for :: "string \<Rightarrow> string \<Rightarrow> string \<Rightarrow> string \<Rightarrow> string \<Rightarrow> int \<Rightarrow> dead_letter" where
  "letter_for platform text ident what err now =
     make_dead_letter ''sync.webhook_event'' 0
       [(''platform'', JStr platform), (''body'', JStr text), (''event_id'', JStr ident), (''kind'', JStr what)]
       err None now"

definition push_letter ::
  "'s push_ports \<Rightarrow> push_library \<Rightarrow> string \<Rightarrow> string \<Rightarrow> string \<Rightarrow> string \<Rightarrow> string \<Rightarrow> ('s, bool) act" where
  "push_letter P l platform body ident what err =
     bindw (port_clock P) (\<lambda>now.
     otherwise_at StoreUnavailable False
       (bindw (\<lambda>s. dlq_push (port_letters P) s (letter_for platform (body_text l body) ident what err now)) (\<lambda>_. give True)))"

text \<open>What to do with an event once it is claimed or not.\<close>

definition event_key :: "string \<Rightarrow> string \<Rightarrow> string" where
  "event_key platform ident = platform @ '':'' @ ident"

definition enqueue_failed :: py_error where
  "enqueue_failed = AppError ''INTERNAL_ERROR''"

definition keep_letter ::
  "'s push_ports \<Rightarrow> push_library \<Rightarrow> string \<Rightarrow> string \<Rightarrow> string \<Rightarrow> string \<Rightarrow> string \<Rightarrow> ('s, push_answer) act" where
  "keep_letter P l platform body ident what err =
     bindw (push_letter P l platform body ident what err) (\<lambda>saved.
     if saved then give fresh_answer
     else bindw (release_event P (event_key platform ident)) (\<lambda>_. fail enqueue_failed))"

definition retain ::
  "'s push_ports \<Rightarrow> push_settings \<Rightarrow> push_library \<Rightarrow> string \<Rightarrow> string \<Rightarrow> string \<Rightarrow> string \<Rightarrow> string
     \<Rightarrow> ('s, push_answer) act" where
  "retain P st l platform body ident what err =
     bindw (port_clock P) (\<lambda>now.
     bindw (otherwise_at StoreUnavailable True (claim_event P st (event_key platform ident) now)) (\<lambda>claimed.
     if \<not> claimed then give duplicate_answer
     else keep_letter P l platform body ident what err))"

definition accept_push ::
  "'s push_ports \<Rightarrow> push_settings \<Rightarrow> push_library \<Rightarrow> string \<Rightarrow> string \<Rightarrow> (string \<times> string) list \<Rightarrow> string
     \<Rightarrow> string option \<Rightarrow> ('s, push_answer) act" where
  "accept_push P st l platform body headers callback_url client_ip =
     (let code = lower (strip platform) in
      if code \<notin> set supported_platforms then fail (AppError ''PlatformUnsupportedError'')
      else if int (length body) > webhook_max_body_bytes st then fail (AppError ''PARAM_INVALID'')
      else
        bindw (port_clock P) (\<lambda>now.
        bindw (push_allowed P st code now) (\<lambda>ok.
        if \<not> ok then fail (AppError ''PLATFORM_RATE_LIMITED'')
        else if \<not> ip_allowed l client_ip (webhook_source_cidrs st) then fail (AppError ''WEBHOOK_REJECTED'')
        else
          bindw (verify_webhook (port_adapter P code) body headers callback_url) (\<lambda>good.
          if \<not> good then fail (AppError ''WEBHOOK_REJECTED'')
          else (case parse_webhook (port_adapter P code) body of
              Inl (AdapterFailed _) \<Rightarrow> retain P st l code body (sha256_text l body) ''ignored'' ''parse_failed''
            | Inl (OtherError e) \<Rightarrow> fail e
            | Inr ev \<Rightarrow>
                bindw (otherwise_at StoreUnavailable True (claim_event P st (event_key code (event_id ev)) now)) (\<lambda>claimed.
                if \<not> claimed then give duplicate_answer
                else (\<lambda>s. case port_publish P \<lparr>push_platform = code, push_body = body_text l body,
                        push_event = event_id ev, push_kind = event_kind ev\<rparr> s of
                    (s', Inl _) \<Rightarrow> keep_letter P l code body (event_id ev) (event_kind ev) ''enqueue_failed'' s'
                  | (s', Inr _) \<Rightarrow> (s', Inr fresh_answer))))))))"

section \<open>The background work\<close>

record url_parts =
  url_scheme :: string
  url_host :: "string option"
  url_user :: "string option"
  url_password :: "string option"
  url_port :: "int option res"

definition ends_with :: "string \<Rightarrow> string \<Rightarrow> bool" where
  "ends_with s p = starts_with (rev s) (rev p)"

definition given :: "string option \<Rightarrow> bool" where
  "given x = (x \<noteq> None \<and> x \<noteq> Some [])"

definition amazon_sns_host_allowed :: "(string \<Rightarrow> url_parts res) \<Rightarrow> string \<Rightarrow> bool res" where
  "amazon_sns_host_allowed urlsplit url =
     bindr (urlsplit (strip url)) (\<lambda>parsed.
     let host = lower (case url_host parsed of None \<Rightarrow> [] | Some h \<Rightarrow> h) in
     if url_scheme parsed \<noteq> ''https'' \<or> given (url_user parsed) \<or> given (url_password parsed) then Inr False
     else bindr (url_port parsed) (\<lambda>port.
       if port \<noteq> None \<and> port \<noteq> Some 443 then Inr False
       else if \<not> starts_with host ''sns.'' then Inr False
       else Inr (ends_with host ''.amazonaws.com'' \<or> ends_with host ''.amazonaws.com.cn'')))"

datatype push_failure = Process_failed bool | Crashed py_error

datatype push_result =
    Push_ignored
  | Push_deferred
  | Shop_not_found
  | Push_applied write_action
  | Url_rejected
  | Confirm_skipped
  | Confirmed_subscription

record shop_row =
  shop_tenant :: int
  shop_id :: int
  shop_code :: string
  shop_platform_id :: string
  shop_active :: bool

text \<open>The world of a worker: shops, the shops with credentials, the orders of each tenant, the
  platform and the dead letters.  Rows with \<open>deleted_at\<close> are left out.\<close>

record ('a, 'l) push_world =
  pw_shops :: "shop_row list"
  pw_credentials :: "int list"
  pw_orders :: "int \<Rightarrow> order_db"
  pw_platform :: 'a
  pw_letters :: 'l

record ('a, 'l) push_worker =
  wk_parse :: "string \<Rightarrow> string \<Rightarrow> sync_error + webhook_event"
  wk_fetch :: "shop_row \<Rightarrow> string \<Rightarrow> 'a \<Rightarrow> 'a \<times> (sync_error + report option)"
  wk_get :: "string \<Rightarrow> 'a \<Rightarrow> 'a \<times> (unit + int)"
  wk_urlsplit :: "string \<Rightarrow> url_parts res"
  wk_fixture :: bool
  wk_letters :: "'l letter_list"
  wk_policy :: sync_policy

type_synonym ('a, 'l, 'x) work = "('a, 'l) push_world \<Rightarrow> ('a, 'l) push_world \<times> (push_failure + 'x)"

definition list_active_identities :: "string \<Rightarrow> string \<Rightarrow> shop_row list \<Rightarrow> (int \<times> int) list" where
  "list_active_identities platform shop rows =
     take 2 (map (\<lambda>s. (shop_tenant s, shop_id s))
       (filter (\<lambda>s. shop_code s = platform \<and> shop_platform_id s = shop \<and> shop_active s) rows))"

definition locate_shop :: "string \<Rightarrow> string \<Rightarrow> shop_row list \<Rightarrow> (int \<times> int) option" where
  "locate_shop platform shop rows =
     (case list_active_identities platform shop rows of [row] \<Rightarrow> Some row | _ \<Rightarrow> None)"

definition fetch_failure :: "sync_error \<Rightarrow> push_failure" where
  "fetch_failure e =
     (case e of AdapterFailed f \<Rightarrow> Process_failed (decision f \<noteq> D_FAIL_FAST) | OtherError x \<Rightarrow> Crashed x)"

text \<open>\<open>session_scope\<close>: the orders change only when the report was ingested without an exception.\<close>

definition ingest_push :: "('a, 'l) push_worker \<Rightarrow> int \<Rightarrow> int \<Rightarrow> string \<Rightarrow> ('a, 'l, push_result) work" where
  "ingest_push W tenant shop order w =
     (case find (\<lambda>s. shop_tenant s = tenant \<and> shop_id s = shop) (pw_shops w) of
        None \<Rightarrow> (w, Inl (Crashed (AppError ''NotFoundError'')))
      | Some row \<Rightarrow>
          if shop_id row \<notin> set (pw_credentials w) then (w, Inl (Process_failed False))
          else (case wk_fetch W row order (pw_platform w) of
              (a, Inl e) \<Rightarrow> (w\<lparr>pw_platform := a\<rparr>, Inl (fetch_failure e))
            | (a, Inr None) \<Rightarrow> (w\<lparr>pw_platform := a\<rparr>, Inl (Process_failed False))
            | (a, Inr (Some report)) \<Rightarrow>
                (case ingest_order \<lparr>shop_number = shop_id row, shop_platform = shop_code row\<rparr> Src_WEBHOOK None
                        (pw_orders w tenant) report of
                   (_, Inl e) \<Rightarrow> (w\<lparr>pw_platform := a\<rparr>, Inl (Crashed e))
                 | (db, Inr (action, _)) \<Rightarrow>
                     (w\<lparr>pw_platform := a, pw_orders := (pw_orders w)(tenant := db)\<rparr>, Inr (Push_applied action)))))"

definition live_order_sink :: "('a, 'l) push_worker \<Rightarrow> string \<Rightarrow> string \<Rightarrow> string \<Rightarrow> ('a, 'l, push_result) work" where
  "live_order_sink W platform shop order w =
     (case locate_shop platform shop (pw_shops w) of
        None \<Rightarrow> (w, Inr Shop_not_found)
      | Some (tenant, ident) \<Rightarrow> ingest_push W tenant ident order w)"

definition confirm_subscription :: "('a, 'l) push_worker \<Rightarrow> string \<Rightarrow> ('a, 'l, push_result) work" where
  "confirm_subscription W url w =
     (case amazon_sns_host_allowed (wk_urlsplit W) url of
        Inl e \<Rightarrow> (w, Inl (Crashed e))
      | Inr False \<Rightarrow> (w, Inr Url_rejected)
      | Inr True \<Rightarrow>
          if wk_fixture W then (w, Inr Confirm_skipped)
          else (case wk_get W url (pw_platform w) of
              (a, Inl _) \<Rightarrow> (w\<lparr>pw_platform := a\<rparr>, Inl (Process_failed True))
            | (a, Inr status) \<Rightarrow>
                (w\<lparr>pw_platform := a\<rparr>,
                 if status \<ge> 400 then Inl (Process_failed True) else Inr Confirmed_subscription)))"

definition dispatch_webhook_body :: "('a, 'l) push_worker \<Rightarrow> string \<Rightarrow> string \<Rightarrow> ('a, 'l, push_result) work" where
  "dispatch_webhook_body W platform body w =
     (case wk_parse W platform body of
        Inl (AdapterFailed f) \<Rightarrow> (w, Inl (Process_failed (decision f = D_RETRY)))
      | Inl (OtherError e) \<Rightarrow> (w, Inl (Crashed e))
      | Inr ev \<Rightarrow>
          if event_kind ev = ''ignored'' then (w, Inr Push_ignored)
          else if event_kind ev = ''subscription.confirm'' then confirm_subscription W (subscribe_url ev) w
          else if event_kind ev = ''inventory.changed'' \<or> event_kind ev = ''message.created'' then (w, Inr Push_deferred)
          else if event_kind ev \<notin> {''order.created'', ''order.status_changed''} then (w, Inr Push_ignored)
          else (case event_order ev of
              Some (c # cs) \<Rightarrow>
                if event_shop ev = [] then (w, Inl (Process_failed False))
                else live_order_sink W platform (event_shop ev) (c # cs) w
            | _ \<Rightarrow> (w, Inl (Process_failed False))))"

section \<open>The task\<close>

datatype task_outcome = Task_done push_result | Task_parked | Task_retried float64 | Task_crashed py_error

definition push_max_retries :: nat where
  "push_max_retries = 3"

definition park_push ::
  "('a, 'l) push_worker \<Rightarrow> int \<Rightarrow> push_payload \<Rightarrow> string \<Rightarrow> ('a, 'l) push_world \<Rightarrow> ('a, 'l) push_world \<times> task_outcome" where
  "park_push W now p err w =
     (case dlq_push (wk_letters W) (pw_letters w)
             (letter_for (push_platform p) (push_body p) (push_event p) (push_kind p) err now) of
        (l, Inl e) \<Rightarrow> (w\<lparr>pw_letters := l\<rparr>, Task_crashed e)
      | (l, Inr _) \<Rightarrow> (w\<lparr>pw_letters := l\<rparr>, Task_parked))"

text \<open>Celery raises \<open>MaxRetriesExceededError\<close> when the next attempt would be one too many.\<close>

definition retry_push ::
  "('a, 'l) push_worker \<Rightarrow> int \<Rightarrow> float64 \<Rightarrow> nat \<Rightarrow> push_payload \<Rightarrow> string \<Rightarrow> ('a, 'l) push_world
     \<Rightarrow> ('a, 'l) push_world \<times> task_outcome" where
  "retry_push W now rnd retries p err w =
     (let plan = plan_retry D_RETRY retries False (wk_policy W) None rnd in
      if plan_action plan \<noteq> A_RETRY then park_push W now p err w
      else if retries + 1 > push_max_retries then park_push W now p err w
      else (w, Task_retried (delay_seconds plan)))"

definition webhook_event_task ::
  "('a, 'l) push_worker \<Rightarrow> int \<Rightarrow> float64 \<Rightarrow> nat \<Rightarrow> push_payload \<Rightarrow> ('a, 'l) push_world
     \<Rightarrow> ('a, 'l) push_world \<times> task_outcome" where
  "webhook_event_task W now rnd retries p w =
     (case dispatch_webhook_body W (push_platform p) (push_body p) w of
        (w, Inr done) \<Rightarrow> (w, Task_done done)
      | (w, Inl (Process_failed True)) \<Rightarrow> retry_push W now rnd retries p ''process_failed'' w
      | (w, Inl (Process_failed False)) \<Rightarrow> park_push W now p ''process_failed'' w
      | (w, Inl (Crashed e)) \<Rightarrow> (w, Task_crashed e))"

text \<open>The task from its first attempt on, with the clock and the draw of each attempt.\<close>

fun run_push_task ::
  "('a, 'l) push_worker \<Rightarrow> push_payload \<Rightarrow> nat \<Rightarrow> (int \<times> float64) list \<Rightarrow> ('a, 'l) push_world
     \<Rightarrow> ('a, 'l) push_world \<times> task_outcome list" where
  "run_push_task W p n [] w = (w, [])"
| "run_push_task W p n ((now, rnd) # ticks) w =
     (case webhook_event_task W now rnd n p w of
        (w', Task_retried d) \<Rightarrow> (case run_push_task W p (n + 1) ticks w' of (v, os) \<Rightarrow> (v, Task_retried d # os))
      | (w', out) \<Rightarrow> (w', [out]))"

end
