(* ===== verification/PushHistory.thy ===== *)
theory PushHistory imports Webhooks begin

text \<open>
  The entrance over histories of pushes: a backend whose parts may fail, each on its own and in any
  request, the abstract step that every request takes (\<open>entrance_step\<close>), and what follows for claims,
  for what is kept and for the limiter.
\<close>

section \<open>A store of claims\<close>

text \<open>\<open>until s k\<close>: the instant up to which \<open>k\<close> is claimed.\<close>

locale claim_store =
  fixes claim :: "string \<Rightarrow> int \<Rightarrow> int \<Rightarrow> ('s, bool) act"
    and unclaim :: "string \<Rightarrow> ('s, unit) act"
    and until :: "'s \<Rightarrow> string \<Rightarrow> int option"
  assumes claim_free: "\<forall>t. until s k = Some t \<longrightarrow> t \<le> now \<Longrightarrow> claim k ttl now s = (s', r) \<Longrightarrow>
      r = Inr True \<and> until s' = (until s)(k \<mapsto> now + seconds (max 1 ttl))"
    and claim_held: "until s k = Some t \<Longrightarrow> now < t \<Longrightarrow> claim k ttl now s = (s', r) \<Longrightarrow> r = Inr False \<and> until s' = until s"
    and unclaimed: "unclaim k s = (s', u) \<Longrightarrow> u = Inr () \<and> until s' = (until s)(k := None)"
begin

lemma claim_outcome:
  assumes "claim k ttl now s = (s', r)"
  shows "(\<exists>t. until s k = Some t \<and> now < t \<and> r = Inr False \<and> until s' = until s) \<or>
    (\<forall>t. until s k = Some t \<longrightarrow> t \<le> now) \<and> r = Inr True \<and> until s' = (until s)(k \<mapsto> now + seconds (max 1 ttl))"
proof (cases "\<exists>t. until s k = Some t \<and> now < t")
  case True
  with claim_held assms show ?thesis by blast
next
  case False
  then have "\<forall>t. until s k = Some t \<longrightarrow> t \<le> now" by auto
  with claim_free [OF this assms] show ?thesis by blast
qed

end

interpretation memory_claims: claim_store memory_claim memory_unclaim "\<lambda>s. s"
  by unfold_locales (auto simp: memory_claim_def memory_unclaim_def split: option.splits if_splits)

section \<open>A backend that may fail\<close>

record weather =
  limiter_down :: bool
  claim_down :: bool
  publish_down :: bool
  letters_down :: bool
  release_down :: bool

record backend =
  be_now :: int
  be_weather :: weather
  be_claims :: claims
  be_counts :: push_counts
  be_queue :: "push_payload list"
  be_letters :: "dead_letter list"

definition unless_down :: "(weather \<Rightarrow> bool) \<Rightarrow> (backend, 'a) act \<Rightarrow> (backend, 'a) act" where
  "unless_down part m = (\<lambda>w. if part (be_weather w) then (w, Inl StoreUnavailable) else m w)"

definition on_claims :: "(claims, 'a) act \<Rightarrow> (backend, 'a) act" where
  "on_claims m = (\<lambda>w. case m (be_claims w) of (c, r) \<Rightarrow> (w\<lparr>be_claims := c\<rparr>, r))"

definition on_counts :: "(push_counts, 'a) act \<Rightarrow> (backend, 'a) act" where
  "on_counts m = (\<lambda>w. case m (be_counts w) of (c, r) \<Rightarrow> (w\<lparr>be_counts := c\<rparr>, r))"

text \<open>What a platform's adapter makes of a body: does the signature hold, and what does it say.\<close>

record push_reader =
  rd_verify :: "string \<Rightarrow> string \<Rightarrow> (string \<times> string) list \<Rightarrow> string \<Rightarrow> bool res"
  rd_parse :: "string \<Rightarrow> string \<Rightarrow> sync_error + webhook_event"

definition backend_ports :: "push_reader \<Rightarrow> backend push_ports" where
  "backend_ports a =
     \<lparr>port_dedup =
        \<lparr>dedup_claim = (\<lambda>k ttl now. unless_down claim_down (on_claims (dedup_claim memory_event_dedup k ttl now))),
         dedup_release = (\<lambda>k. unless_down release_down (on_claims (dedup_release memory_event_dedup k)))\<rparr>,
      port_limiter = (\<lambda>p now q. unless_down limiter_down (on_counts (memory_allow p now q))),
      port_publish = (\<lambda>p. unless_down publish_down (\<lambda>w. (w\<lparr>be_queue := be_queue w @ [p]\<rparr>, Inr ()))),
      port_letters =
        \<lparr>letters_push = (\<lambda>w d. unless_down letters_down (\<lambda>w. (w\<lparr>be_letters := be_letters w @ [d]\<rparr>, Inr ())) w),
         letters_pop = (\<lambda>w. (w, Inr None)), letters_size = (\<lambda>w. Inr (int (length (be_letters w))))\<rparr>,
      port_clock = (\<lambda>w. (w, Inr (be_now w))),
      port_adapter = (\<lambda>code. \<lparr>verify_webhook = (\<lambda>b h c. lift_res (rd_verify a code b h c)), parse_webhook = rd_parse a code\<rparr>)\<rparr>"

lemma port_simps [simp]:
  "port_clock (backend_ports a) = (\<lambda>w. (w, Inr (be_now w)))"
  "port_adapter (backend_ports a) code = \<lparr>verify_webhook = (\<lambda>b h c. lift_res (rd_verify a code b h c)), parse_webhook = rd_parse a code\<rparr>"
  "port_publish (backend_ports a) p = unless_down publish_down (\<lambda>w. (w\<lparr>be_queue := be_queue w @ [p]\<rparr>, Inr ()))"
  "port_limiter (backend_ports a) = (\<lambda>p now q. unless_down limiter_down (on_counts (memory_allow p now q)))"
  "dedup_claim (port_dedup (backend_ports a)) k ttl now = unless_down claim_down (on_claims (memory_claim k ttl now))"
  "dedup_release (port_dedup (backend_ports a)) k = unless_down release_down (on_claims (memory_unclaim k))"
  "letters_push (port_letters (backend_ports a)) w d =
     unless_down letters_down (\<lambda>w. (w\<lparr>be_letters := be_letters w @ [d]\<rparr>, Inr ())) w"
  by (simp_all add: backend_ports_def memory_event_dedup_def)

section \<open>What a request does\<close>

definition reading_key :: "push_library \<Rightarrow> push_reader \<Rightarrow> string \<Rightarrow> string \<Rightarrow> string" where
  "reading_key l a code body =
     event_key code (case rd_parse a code body of Inr ev \<Rightarrow> event_id ev | Inl _ \<Rightarrow> sha256_text l body)"

definition letter_key :: "dead_letter \<Rightarrow> string option" where
  "letter_key d =
     (case (map_of (letter_kwargs d) ''platform'', map_of (letter_kwargs d) ''event_id'') of
        (Some (JStr p), Some (JStr e)) \<Rightarrow> Some (event_key p e) | _ \<Rightarrow> None)"

definition kept :: "string \<Rightarrow> backend \<Rightarrow> bool" where
  "kept k w \<longleftrightarrow> (\<exists>q\<in>set (be_queue w). event_key (push_platform q) (push_event q) = k) \<or>
     (\<exists>d\<in>set (be_letters w). letter_key d = Some k)"

definition held :: "int \<Rightarrow> string \<Rightarrow> claims \<Rightarrow> bool" where
  "held now k c \<longleftrightarrow> (\<exists>t. c k = Some t \<and> now < t)"

text \<open>The claims after the event \<open>k\<close> was claimed, or the store was down.\<close>

definition claimed :: "int \<Rightarrow> string \<Rightarrow> backend \<Rightarrow> claims" where
  "claimed ttl k w =
     (if claim_down (be_weather w) then be_claims w else (be_claims w)(k \<mapsto> be_now w + seconds (max 1 ttl)))"

inductive entrance_step :: "int \<Rightarrow> string \<Rightarrow> backend \<Rightarrow> backend \<Rightarrow> push_answer res \<Rightarrow> bool" for ttl k w where
  refused: "be_claims w' = be_claims w \<Longrightarrow> be_queue w' = be_queue w \<Longrightarrow> be_letters w' = be_letters w \<Longrightarrow>
    entrance_step ttl k w w' (Inl e)"
| repeated: "held (be_now w) k (be_claims w) \<Longrightarrow> be_claims w' = be_claims w \<Longrightarrow> be_queue w' = be_queue w \<Longrightarrow>
    be_letters w' = be_letters w \<Longrightarrow> entrance_step ttl k w w' (Inr duplicate_answer)"
| taken: "claim_down (be_weather w) \<or> \<not> held (be_now w) k (be_claims w) \<Longrightarrow> be_claims w' = claimed ttl k w \<Longrightarrow>
    be_queue w' = be_queue w @ qs \<Longrightarrow> be_letters w' = be_letters w @ ds \<Longrightarrow> kept k w' \<Longrightarrow>
    \<forall>q\<in>set qs. event_key (push_platform q) (push_event q) = k \<Longrightarrow> \<forall>d\<in>set ds. letter_key d = Some k \<Longrightarrow>
    entrance_step ttl k w w' (Inr fresh_answer)"
| failed: "claim_down (be_weather w) \<or> \<not> held (be_now w) k (be_claims w) \<Longrightarrow>
    be_claims w' = (if release_down (be_weather w) then claimed ttl k w else (claimed ttl k w)(k := None)) \<Longrightarrow>
    be_queue w' = be_queue w \<Longrightarrow> be_letters w' = be_letters w \<Longrightarrow> entrance_step ttl k w w' (Inl enqueue_failed)"

lemma claim_up:
  assumes "\<not> claim_down (be_weather w)"
    and "memory_claim k (webhook_event_ttl_seconds st) (be_now w) (be_claims w) = (c, Inr b)"
  shows "otherwise_at StoreUnavailable True (claim_event (backend_ports a) st k (be_now w)) w = (w\<lparr>be_claims := c\<rparr>, Inr b)"
  using assms by (simp add: otherwise_at_def claim_event_def unless_down_def on_claims_def)

lemma claim_backend:
  assumes "otherwise_at StoreUnavailable True (claim_event (backend_ports a) st k (be_now w)) w = (w1, r)"
  shows "\<exists>b. r = Inr b \<and> w1 = w\<lparr>be_claims := be_claims w1\<rparr> \<and>
    (if b then (claim_down (be_weather w) \<or> \<not> held (be_now w) k (be_claims w)) \<and>
        be_claims w1 = claimed (webhook_event_ttl_seconds st) k w
     else held (be_now w) k (be_claims w) \<and> be_claims w1 = be_claims w)"
proof (cases "claim_down (be_weather w)")
  case True
  with assms show ?thesis by (auto simp: otherwise_at_def claim_event_def unless_down_def claimed_def)
next
  case False
  obtain c q where c: "memory_claim k (webhook_event_ttl_seconds st) (be_now w) (be_claims w) = (c, q)" by fastforce
  from memory_claims.claim_outcome [OF this] show ?thesis
  proof (elim disjE conjE exE)
    fix t
    assume t: "be_claims w k = Some t" "be_now w < t" "q = Inr False" "c = be_claims w"
    with assms claim_up [OF False c [unfolded t(3)]] have "w1 = w" "r = Inr False" by simp_all
    with t show ?thesis by (auto simp: held_def)
  next
    assume t: "\<forall>t. be_claims w k = Some t \<longrightarrow> t \<le> be_now w" "q = Inr True"
      "c = (be_claims w)(k \<mapsto> be_now w + seconds (max 1 (webhook_event_ttl_seconds st)))"
    have "w1 = w\<lparr>be_claims := c\<rparr>" "r = Inr True" using assms claim_up [OF False c [unfolded t(2)]] by simp_all
    moreover have "\<not> held (be_now w) k (be_claims w)" unfolding held_def using t(1) by (metis leD)
    moreover have "c = claimed (webhook_event_ttl_seconds st) k w" using t(3) False by (simp add: claimed_def)
    ultimately show ?thesis by (intro exI [of _ True]) simp
  qed
qed

lemma release_backend:
  "release_event (backend_ports a) k w =
     (w\<lparr>be_claims := if release_down (be_weather w) then be_claims w else (be_claims w)(k := None)\<rparr>, Inr ())"
  by (simp add: release_event_def suppressing_def unless_down_def on_claims_def memory_unclaim_def)

lemma letter_key_for [simp]: "letter_key (letter_for p t ident what err now) = Some (event_key p ident)"
  by (simp add: letter_key_def letter_for_def make_dead_letter_def)

lemma push_letter_backend:
  "push_letter (backend_ports a) l p body ident what err w =
     (if letters_down (be_weather w) then (w, Inr False)
      else (w\<lparr>be_letters := be_letters w @ [letter_for p (body_text l body) ident what err (be_now w)]\<rparr>, Inr True))"
  by (simp add: push_letter_def bindw_def otherwise_at_def dlq_push_def unless_down_def acts)

text \<open>An event that is claimed, or whose claim could not be asked for, and could not be queued.\<close>

lemma keep_letter_backend:
  assumes k: "keep_letter (backend_ports a) l p body ident what err w1 = (w', r)"
    and w1: "be_claims w1 = claimed ttl (event_key p ident) w" "be_queue w1 = be_queue w" "be_letters w1 = be_letters w"
      "be_weather w1 = be_weather w"
    and free: "claim_down (be_weather w) \<or> \<not> held (be_now w) (event_key p ident) (be_claims w)"
  shows "entrance_step ttl (event_key p ident) w w' r"
proof (cases "letters_down (be_weather w)")
  case True
  with k w1 have "w' = w1\<lparr>be_claims := if release_down (be_weather w) then be_claims w1 else (be_claims w1)(event_key p ident := None)\<rparr>"
    "r = Inl enqueue_failed"
    by (auto simp: keep_letter_def bindw_def push_letter_backend release_backend acts)
  with w1 free show ?thesis by (auto intro: entrance_step.failed)
next
  case False
  with k w1 have "w' = w1\<lparr>be_letters := be_letters w1 @ [letter_for p (body_text l body) ident what err (be_now w1)]\<rparr>"
    "r = Inr fresh_answer"
    by (auto simp: keep_letter_def bindw_def push_letter_backend acts)
  with w1 free show ?thesis by (auto intro!: entrance_step.taken simp: kept_def)
qed

lemma allowed_backend:
  obtains c b where "push_allowed (backend_ports a) st p now w = (w\<lparr>be_counts := c\<rparr>, Inr b)"
    and "\<not> limiter_down (be_weather w) \<Longrightarrow> memory_allow p now (webhook_qps st) (be_counts w) = (c, Inr b)"
proof (cases "limiter_down (be_weather w)")
  case True
  then have "push_allowed (backend_ports a) st p now w = (w\<lparr>be_counts := be_counts w\<rparr>, Inr True)"
    by (simp add: push_allowed_def otherwise_at_def unless_down_def)
  with that True show thesis by blast
next
  case False
  obtain c b where m: "memory_allow p now (webhook_qps st) (be_counts w) = (c, Inr b)"
    by (cases "webhook_qps st < 1") (auto simp: memory_allow_def Let_def)
  with False have "push_allowed (backend_ports a) st p now w = (w\<lparr>be_counts := c\<rparr>, Inr b)"
    by (simp add: push_allowed_def otherwise_at_def unless_down_def on_counts_def)
  with that m show thesis by blast
qed

lemma entrance_counts:
  assumes "entrance_step ttl k (w\<lparr>be_counts := c\<rparr>) w' r"
  shows "entrance_step ttl k w w' r"
  using assms
proof cases
  case (refused e)
  then show ?thesis by (simp add: entrance_step.refused)
next
  case repeated
  then show ?thesis by (simp add: entrance_step.repeated)
next
  case (taken qs ds)
  then show ?thesis by (simp add: claimed_def entrance_step.taken [of w k w' ttl qs ds])
next
  case failed
  then show ?thesis by (simp add: claimed_def entrance_step.failed)
qed

lemma be_clock: "bindw (\<lambda>w. (w, Inr (be_now w))) f w = f (be_now w) w"
  by (simp add: bindw_def)

lemma retain_step:
  assumes "retain (backend_ports a) st l p body ident what err w = (w', r)"
  shows "entrance_step (webhook_event_ttl_seconds st) (event_key p ident) w w' r"
proof -
  obtain w1 q where q: "otherwise_at StoreUnavailable True (claim_event (backend_ports a) st (event_key p ident) (be_now w)) w = (w1, q)"
    by fastforce
  from claim_backend [OF q] obtain b where b: "q = Inr b" "w1 = w\<lparr>be_claims := be_claims w1\<rparr>"
    "if b then (claim_down (be_weather w) \<or> \<not> held (be_now w) (event_key p ident) (be_claims w)) \<and>
        be_claims w1 = claimed (webhook_event_ttl_seconds st) (event_key p ident) w
     else held (be_now w) (event_key p ident) (be_claims w) \<and> be_claims w1 = be_claims w" by blast
  have same: "be_queue w1 = be_queue w" "be_letters w1 = be_letters w" "be_weather w1 = be_weather w"
    using b(2) by (metis backend.surjective backend.update_convs(3) backend.select_convs(2,5,6))+
  have run: "(if \<not> b then give duplicate_answer else keep_letter (backend_ports a) l p body ident what err) w1 = (w', r)"
    using assms b(1) by (simp add: retain_def be_clock
      bindw_ran [of "otherwise_at StoreUnavailable True (claim_event (backend_ports a) st (event_key p ident) (be_now w))", OF q])
  show ?thesis
  proof (cases b)
    case True
    with keep_letter_backend [of a l p body ident what err w1 w' r "webhook_event_ttl_seconds st" w] run b(3) same show ?thesis by simp
  next
    case False
    with run b(3) same show ?thesis by (auto simp: acts intro!: entrance_step.repeated)
  qed
qed

lemma leaves_counts [leaving]:
  "leaves be_counts (claim_event (backend_ports a) st k now)" "leaves be_counts (release_event (backend_ports a) k)"
  "leaves be_counts (push_letter (backend_ports a) l p body ident what err)"
  "leaves be_counts (keep_letter (backend_ports a) l p body ident what err)"
  "leaves be_counts (retain (backend_ports a) st l p body ident what err)"
proof -
  show claim: "leaves be_counts (claim_event (backend_ports a) st k now)" for k now
    by (simp add: leaves_def claim_event_def unless_down_def on_claims_def split: prod.splits)
  show release: "leaves be_counts (release_event (backend_ports a) k)" for k by (simp add: leaves_def release_backend)
  show letter: "leaves be_counts (push_letter (backend_ports a) l p body ident what err)" by (simp add: leaves_def push_letter_backend)
  show keep: "leaves be_counts (keep_letter (backend_ports a) l p body ident what err)"
    unfolding keep_letter_def by (intro leaving letter release)
  have "leaves be_counts (\<lambda>w. (w, Inr (be_now w)))" by (simp add: leaves_def)
  then show "leaves be_counts (retain (backend_ports a) st l p body ident what err)"
    unfolding retain_def port_simps by (intro leaving claim keep)
qed

text \<open>The entrance once the limiter let a request in.\<close>

definition admitted :: "push_reader \<Rightarrow> push_settings \<Rightarrow> push_library \<Rightarrow> string \<Rightarrow> string \<Rightarrow> string option
    \<Rightarrow> (string \<times> string) list \<Rightarrow> string \<Rightarrow> int \<Rightarrow> (backend, push_answer) act" where
  "admitted a st l code body ip headers callback now =
     (if \<not> ip_allowed l ip (webhook_source_cidrs st) then fail (AppError ''WEBHOOK_REJECTED'')
      else bindw (lift_res (rd_verify a code body headers callback)) (\<lambda>good.
        if \<not> good then fail (AppError ''WEBHOOK_REJECTED'')
        else (case rd_parse a code body of
            Inl (AdapterFailed _) \<Rightarrow>
              retain (backend_ports a) st l code body (sha256_text l body) ''ignored'' ''parse_failed''
          | Inl (OtherError e) \<Rightarrow> fail e
          | Inr ev \<Rightarrow>
              bindw (otherwise_at StoreUnavailable True
                (claim_event (backend_ports a) st (event_key code (event_id ev)) now)) (\<lambda>claimed.
              if \<not> claimed then give duplicate_answer
              else (\<lambda>s. case port_publish (backend_ports a) \<lparr>push_platform = code, push_body = body_text l body,
                      push_event = event_id ev, push_kind = event_kind ev\<rparr> s of
                  (s', Inl _) \<Rightarrow> keep_letter (backend_ports a) l code body (event_id ev) (event_kind ev) ''enqueue_failed'' s'
                | (s', Inr _) \<Rightarrow> (s', Inr fresh_answer))))))"

lemma leaves_publish [leaving]:
  assumes "\<And>v. leaves be_counts (keep_letter (backend_ports a) l code body ident what err)"
  shows "leaves be_counts (\<lambda>s. case port_publish (backend_ports a) q s of
      (s', Inl _) \<Rightarrow> keep_letter (backend_ports a) l code body ident what err s' | (s', Inr _) \<Rightarrow> (s', Inr x))"
  using assms by (simp add: leaves_def unless_down_def)

lemma leaves_admitted: "leaves be_counts (admitted a st l code body ip headers callback now)"
  unfolding admitted_def by (intro leaving) (auto intro!: leaving split: sum.split sync_error.split)

lemma admitted_step:
  assumes "admitted a st l code body ip headers callback (be_now w) w = (w', r)"
  shows "entrance_step (webhook_event_ttl_seconds st) (reading_key l a code body) w w' r"
proof (cases "ip_allowed l ip (webhook_source_cidrs st) \<and> rd_verify a code body headers callback = Inr True")
  case False
  with assms have "w' = w" "\<exists>e. r = Inl e" by (auto simp: admitted_def acts split: if_splits sum.splits)
  then show ?thesis by (auto intro: entrance_step.refused)
next
  case in_: True
  show ?thesis
  proof (cases "rd_parse a code body")
    case (Inl e)
    show ?thesis
    proof (cases e)
      case (AdapterFailed f)
      with assms in_ Inl have "retain (backend_ports a) st l code body (sha256_text l body) ''ignored'' ''parse_failed'' w = (w', r)"
        by (simp add: admitted_def acts)
      from retain_step [OF this] Inl show ?thesis by (simp add: reading_key_def)
    next
      case (OtherError x)
      with assms in_ Inl have "w' = w" "r = Inl x" by (auto simp: admitted_def acts)
      then show ?thesis by (auto intro: entrance_step.refused)
    qed
  next
    case (Inr ev)
    let ?k = "event_key code (event_id ev)"
    let ?q = "\<lparr>push_platform = code, push_body = body_text l body, push_event = event_id ev, push_kind = event_kind ev\<rparr>"
    let ?m = "otherwise_at StoreUnavailable True (claim_event (backend_ports a) st ?k (be_now w))"
    have key: "reading_key l a code body = ?k" using Inr by (simp add: reading_key_def)
    obtain w1 q where q: "?m w = (w1, q)" by fastforce
    from claim_backend [OF q] obtain b where b: "q = Inr b" "w1 = w\<lparr>be_claims := be_claims w1\<rparr>"
      "if b then (claim_down (be_weather w) \<or> \<not> held (be_now w) ?k (be_claims w)) \<and>
          be_claims w1 = claimed (webhook_event_ttl_seconds st) ?k w
       else held (be_now w) ?k (be_claims w) \<and> be_claims w1 = be_claims w" by blast
    have same: "be_queue w1 = be_queue w" "be_letters w1 = be_letters w" "be_weather w1 = be_weather w"
      using b(2) by (metis backend.surjective backend.update_convs(3) backend.select_convs(2,5,6))+
    have run: "(if \<not> b then give duplicate_answer
        else (\<lambda>s. case port_publish (backend_ports a) ?q s of
              (s', Inl _) \<Rightarrow> keep_letter (backend_ports a) l code body (event_id ev) (event_kind ev) ''enqueue_failed'' s'
            | (s', Inr _) \<Rightarrow> (s', Inr fresh_answer))) w1 = (w', r)"
      using assms in_ Inr b(1) by (simp add: admitted_def acts bindw_ran [of ?m, OF q] del: port_simps)
    show ?thesis
    proof (cases b)
      case False
      with run b(3) same key show ?thesis by (auto simp: acts intro!: entrance_step.repeated)
    next
      case True
      note c = b(3) [unfolded if_P [OF True]]
      show ?thesis
      proof (cases "publish_down (be_weather w)")
        case down: True
        with run True same have "keep_letter (backend_ports a) l code body (event_id ev) (event_kind ev) ''enqueue_failed'' w1 = (w', r)"
          by (simp add: unless_down_def)
        from keep_letter_backend [OF this _ same, of "webhook_event_ttl_seconds st"] c key show ?thesis by simp
      next
        case up: False
        with run True same have "w' = w1\<lparr>be_queue := be_queue w1 @ [?q]\<rparr>" "r = Inr fresh_answer"
          by (auto simp: unless_down_def)
        with c same key show ?thesis
          by (auto simp: kept_def intro!: entrance_step.taken [where qs = "[?q]" and ds = "[]"])
      qed
    qed
  qed
qed

lemma accept_push_eq:
  "accept_push (backend_ports a) st l platform body headers callback ip w =
     (let code = lower (strip platform) in
      if code \<notin> set supported_platforms then (w, Inl (AppError ''PlatformUnsupportedError''))
      else if int (length body) > webhook_max_body_bytes st then (w, Inl (AppError ''PARAM_INVALID''))
      else bindw (push_allowed (backend_ports a) st code (be_now w)) (\<lambda>ok.
        if \<not> ok then fail (AppError ''PLATFORM_RATE_LIMITED'')
        else admitted a st l code body ip headers callback (be_now w)) w)"
  unfolding accept_push_def admitted_def port_simps be_clock push_adapter.simps by (simp add: acts Let_def be_clock)

text \<open>The entrance on the backend, with what it leaves of the counts.\<close>

lemma accept_step:
  assumes run: "accept_push (backend_ports a) st l platform body headers callback ip w = (w', r)"
  shows "entrance_step (webhook_event_ttl_seconds st) (reading_key l a (lower (strip platform)) body) w w' r \<and>
    (\<not> limiter_down (be_weather w) \<longrightarrow>
      be_counts w' = be_counts w \<and> (\<exists>e. r = Inl e) \<or>
      (\<exists>b. lower (strip platform) \<in> set supported_platforms \<and>
        memory_allow (lower (strip platform)) (be_now w) (webhook_qps st) (be_counts w) = (be_counts w', Inr b) \<and>
        (b \<or> (\<exists>e. r = Inl e))))"
proof (cases "lower (strip platform) \<in> set supported_platforms \<and> \<not> int (length body) > webhook_max_body_bytes st")
  case False
  with run have "w' = w" "\<exists>e. r = Inl e" by (auto simp: accept_push_eq Let_def split: if_splits)
  then show ?thesis by (auto intro: entrance_step.refused)
next
  case True
  let ?code = "lower (strip platform)"
  obtain c b where c: "push_allowed (backend_ports a) st ?code (be_now w) w = (w\<lparr>be_counts := c\<rparr>, Inr b)"
    "\<not> limiter_down (be_weather w) \<Longrightarrow> memory_allow ?code (be_now w) (webhook_qps st) (be_counts w) = (c, Inr b)"
    using allowed_backend [of a st ?code "be_now w" w] by blast
  have next_: "(if \<not> b then fail (AppError ''PLATFORM_RATE_LIMITED'')
      else admitted a st l ?code body ip headers callback (be_now w)) (w\<lparr>be_counts := c\<rparr>) = (w', r)"
    using run True by (simp add: accept_push_eq Let_def bindw_ran [of "push_allowed (backend_ports a) st ?code (be_now w)", OF c(1)])
  show ?thesis
  proof (cases b)
    case False
    with next_ have "w' = w\<lparr>be_counts := c\<rparr>" "\<exists>e. r = Inl e" by (auto simp: acts)
    with c(2) True False show ?thesis by (auto intro: entrance_step.refused)
  next
    case b: True
    with next_ have ad: "admitted a st l ?code body ip headers callback (be_now (w\<lparr>be_counts := c\<rparr>)) (w\<lparr>be_counts := c\<rparr>) = (w', r)"
      by simp
    from leavesD [OF leaves_admitted ad] have "be_counts w' = c" by simp
    with entrance_counts [OF admitted_step [OF ad]] c(2) True b show ?thesis by auto
  qed
qed

section \<open>Histories\<close>

record push_request =
  pr_now :: int
  pr_weather :: weather
  pr_platform :: string
  pr_body :: string
  pr_headers :: "(string \<times> string) list"
  pr_callback :: string
  pr_ip :: "string option"

record push_history =
  ph_now :: int
  ph_world :: backend
  ph_served :: "(push_request \<times> push_answer res) list"

text \<open>One push after the other; time does not run backwards.\<close>

definition push_step ::
  "push_reader \<Rightarrow> push_settings \<Rightarrow> push_library \<Rightarrow> push_history \<Rightarrow> push_request \<Rightarrow> push_history option" where
  "push_step a st l h rq =
     (if pr_now rq < ph_now h then None
      else (case accept_push (backend_ports a) st l (pr_platform rq) (pr_body rq) (pr_headers rq) (pr_callback rq) (pr_ip rq)
                   ((ph_world h)\<lparr>be_now := pr_now rq, be_weather := pr_weather rq\<rparr>) of
              (w, r) \<Rightarrow> Some \<lparr>ph_now = pr_now rq, ph_world = w, ph_served = ph_served h @ [(rq, r)]\<rparr>))"

definition fair_weather :: weather where
  "fair_weather = \<lparr>limiter_down = False, claim_down = False, publish_down = False, letters_down = False, release_down = False\<rparr>"

definition opened :: push_history where
  "opened = \<lparr>ph_now = 0, ph_world = \<lparr>be_now = 0, be_weather = fair_weather, be_claims = (\<lambda>_. None), be_counts = (\<lambda>_. None),
     be_queue = [], be_letters = []\<rparr>, ph_served = []\<rparr>"

definition request_code :: "push_request \<Rightarrow> string" where
  "request_code rq = lower (strip (pr_platform rq))"

definition request_key :: "push_library \<Rightarrow> push_reader \<Rightarrow> push_request \<Rightarrow> string" where
  "request_key l a rq = reading_key l a (request_code rq) (pr_body rq)"

lemma push_step_cases:
  assumes "push_step a st l h rq = Some h'"
  obtains w r where "w = (ph_world h)\<lparr>be_now := pr_now rq, be_weather := pr_weather rq\<rparr>" and "ph_now h \<le> pr_now rq" and "ph_now h' = pr_now rq"
    and "ph_served h' = ph_served h @ [(rq, r)]"
    and "accept_push (backend_ports a) st l (pr_platform rq) (pr_body rq) (pr_headers rq) (pr_callback rq) (pr_ip rq) w = (ph_world h', r)"
    and "entrance_step (webhook_event_ttl_seconds st) (request_key l a rq) w (ph_world h') r"
proof -
  let ?w = "(ph_world h)\<lparr>be_now := pr_now rq, be_weather := pr_weather rq\<rparr>"
  obtain v r where v: "accept_push (backend_ports a) st l (pr_platform rq) (pr_body rq) (pr_headers rq) (pr_callback rq) (pr_ip rq) ?w = (v, r)"
    by fastforce
  have le: "ph_now h \<le> pr_now rq" using assms by (simp add: push_step_def split: if_splits)
  with assms v have "h' = \<lparr>ph_now = pr_now rq, ph_world = v, ph_served = ph_served h @ [(rq, r)]\<rparr>" by (simp add: push_step_def)
  with that [of ?w r] v le accept_step [OF v] show thesis by (simp add: request_key_def request_code_def)
qed

lemma push_step_logs: "push_step a st l h rq = Some h' \<Longrightarrow> \<exists>r. ph_served h' = ph_served h @ [(rq, r)]"
  by (erule push_step_cases) blast

interpretation push_log: logging_machine "push_step a st l" ph_served "\<lambda>rq. rq" for a st l
  by unfold_locales (rule push_step_logs)

section \<open>A request that reaches its claim\<close>

text \<open>What a request must pass before its event is claimed.\<close>

definition passes :: "push_reader \<Rightarrow> push_settings \<Rightarrow> push_library \<Rightarrow> push_request \<Rightarrow> backend \<Rightarrow> bool" where
  "passes a st l rq w \<longleftrightarrow>
     request_code rq \<in> set supported_platforms \<and> int (length (pr_body rq)) \<le> webhook_max_body_bytes st \<and>
     (limiter_down (pr_weather rq) \<or> snd (memory_allow (request_code rq) (pr_now rq) (webhook_qps st) (be_counts w)) = Inr True) \<and>
     ip_allowed l (pr_ip rq) (webhook_source_cidrs st) \<and>
     rd_verify a (request_code rq) (pr_body rq) (pr_headers rq) (pr_callback rq) = Inr True \<and>
     (case rd_parse a (request_code rq) (pr_body rq) of Inl (OtherError _) \<Rightarrow> False | _ \<Rightarrow> True)"

lemma claim_plain:
  assumes "\<not> claim_down (be_weather w)"
  shows "otherwise_at StoreUnavailable True (claim_event (backend_ports a) st k (be_now w)) w =
    (if held (be_now w) k (be_claims w) then (w, Inr False)
     else (w\<lparr>be_claims := claimed (webhook_event_ttl_seconds st) k w\<rparr>, Inr True))"
proof -
  obtain w1 r where o: "otherwise_at StoreUnavailable True (claim_event (backend_ports a) st k (be_now w)) w = (w1, r)" by fastforce
  obtain c where c: "w1 = w\<lparr>be_claims := c\<rparr>" and cb: "c = be_claims w1"
    using claim_backend [OF o] assms by blast
  from claim_backend [OF o] assms have
    "if held (be_now w) k (be_claims w) then r = Inr False \<and> c = be_claims w
     else r = Inr True \<and> c = claimed (webhook_event_ttl_seconds st) k w" unfolding cb by (auto split: if_splits)
  with o c show ?thesis by (cases "held (be_now w) k (be_claims w)") simp_all
qed

lemma claim_first:
  "\<not> claim_down (be_weather w) \<Longrightarrow> bindw (otherwise_at StoreUnavailable True (claim_event (backend_ports a) st k (be_now w))) f w =
    (if held (be_now w) k (be_claims w) then f False w
     else f True (w\<lparr>be_claims := claimed (webhook_event_ttl_seconds st) k w\<rparr>))"
  by (simp add: bindw_def claim_plain)

lemma keep_letter_dark:
  "letters_down (be_weather w) \<Longrightarrow> release_down (be_weather w) \<Longrightarrow>
     keep_letter (backend_ports a) l p body ident what err w = (w, Inl enqueue_failed)"
  by (simp add: keep_letter_def bindw_def push_letter_backend release_backend acts)

lemma admitted_plain:
  assumes "ip_allowed l ip (webhook_source_cidrs st)" and "rd_verify a code body headers callback = Inr True"
    and "case rd_parse a code body of Inl (OtherError _) \<Rightarrow> False | _ \<Rightarrow> True" and "\<not> claim_down (be_weather w)"
    and "held (be_now w) (reading_key l a code body) (be_claims w) \<or>
      publish_down (be_weather w) \<and> letters_down (be_weather w) \<and> release_down (be_weather w)"
  shows "admitted a st l code body ip headers callback (be_now w) w =
    (if held (be_now w) (reading_key l a code body) (be_claims w) then (w, Inr duplicate_answer)
     else (w\<lparr>be_claims := claimed (webhook_event_ttl_seconds st) (reading_key l a code body) w\<rparr>, Inl enqueue_failed))"
proof (cases "rd_parse a code body")
  case (Inl e)
  with assms(3) obtain f where "e = AdapterFailed f" by (cases e) auto
  with Inl assms(1,2,4,5) show ?thesis
    by (cases "held (be_now w) (reading_key l a code body) (be_claims w)") (simp_all add: admitted_def acts retain_def be_clock reading_key_def keep_letter_dark claim_first [OF assms(4)])
next
  case (Inr ev)
  with assms(1,2,4,5) show ?thesis
    by (cases "held (be_now w) (reading_key l a code body) (be_claims w)") (simp_all add: admitted_def acts reading_key_def keep_letter_dark unless_down_def claim_first [OF assms(4)])
qed

lemma passing_step:
  assumes s: "push_step a st l h rq = Some h'" and p: "passes a st l rq (ph_world h)" and up: "\<not> claim_down (pr_weather rq)"
    and k: "held (pr_now rq) (request_key l a rq) (be_claims (ph_world h)) \<or>
      publish_down (pr_weather rq) \<and> letters_down (pr_weather rq) \<and> release_down (pr_weather rq)"
  shows "ph_served h' = ph_served h @ [(rq, if held (pr_now rq) (request_key l a rq) (be_claims (ph_world h))
      then Inr duplicate_answer else Inl enqueue_failed)] \<and>
    be_queue (ph_world h') = be_queue (ph_world h) \<and> be_letters (ph_world h') = be_letters (ph_world h) \<and>
    (\<not> held (pr_now rq) (request_key l a rq) (be_claims (ph_world h)) \<longrightarrow>
      be_claims (ph_world h') (request_key l a rq) = Some (pr_now rq + seconds (max 1 (webhook_event_ttl_seconds st)))) \<and>
    (\<not> limiter_down (pr_weather rq) \<longrightarrow>
      be_counts (ph_world h') = fst (memory_allow (request_code rq) (pr_now rq) (webhook_qps st) (be_counts (ph_world h))))"
proof -
  let ?w = "(ph_world h)\<lparr>be_now := pr_now rq, be_weather := pr_weather rq\<rparr>"
  obtain c b where c: "push_allowed (backend_ports a) st (request_code rq) (be_now ?w) ?w = (?w\<lparr>be_counts := c\<rparr>, Inr b)"
    "\<not> limiter_down (be_weather ?w) \<Longrightarrow> memory_allow (request_code rq) (be_now ?w) (webhook_qps st) (be_counts ?w) = (c, Inr b)"
    by (rule allowed_backend [of a st "request_code rq" "be_now ?w" ?w]) blast
  have b: b
  proof (cases "limiter_down (pr_weather rq)")
    case True
    with c(1) show ?thesis by (simp add: push_allowed_def otherwise_at_def unless_down_def)
  next
    case False
    with c(2) p show ?thesis by (simp add: passes_def)
  qed
  have "accept_push (backend_ports a) st l (pr_platform rq) (pr_body rq) (pr_headers rq) (pr_callback rq) (pr_ip rq) ?w =
      admitted a st l (request_code rq) (pr_body rq) (pr_ip rq) (pr_headers rq) (pr_callback rq) (be_now (?w\<lparr>be_counts := c\<rparr>)) (?w\<lparr>be_counts := c\<rparr>)"
    using p b c(1) by (simp add: accept_push_eq passes_def request_code_def Let_def
      bindw_ran [of "push_allowed (backend_ports a) st (lower (strip (pr_platform rq))) (pr_now rq)"])
  moreover note admitted_plain [of l "pr_ip rq" st a "request_code rq" "pr_body rq" "pr_headers rq" "pr_callback rq" "?w\<lparr>be_counts := c\<rparr>"]
  ultimately show ?thesis
    using s p up k c(2) by (auto simp: push_step_def passes_def request_key_def claimed_def split: if_splits)
qed

section \<open>What is claimed is kept\<close>

definition claims_kept :: "backend \<Rightarrow> bool" where
  "claims_kept w \<longleftrightarrow> (\<forall>k. be_claims w k \<noteq> None \<longrightarrow> kept k w)"

lemma kept_more: "kept k w \<Longrightarrow> be_queue w' = be_queue w @ qs \<Longrightarrow> be_letters w' = be_letters w @ ds \<Longrightarrow> kept k w'"
  by (auto simp: kept_def)

lemma entrance_keeps:
  assumes "entrance_step ttl k w w' r" and "claims_kept w" and "\<not> release_down (be_weather w)"
  shows "claims_kept w' \<and> (\<forall>j. kept j w \<longrightarrow> kept j w') \<and> (\<forall>x. r = Inr x \<longrightarrow> kept k w')"
  using assms(1)
proof cases
  case (refused e)
  then have "kept j w' = kept j w" for j by (simp add: kept_def)
  with refused assms(2) show ?thesis by (simp add: claims_kept_def)
next
  case repeated
  then have "kept j w' = kept j w" for j by (simp add: kept_def)
  with repeated assms(2) show ?thesis by (auto simp: claims_kept_def held_def)
next
  case (taken qs ds)
  have m: "kept j w \<Longrightarrow> kept j w'" for j using kept_more taken(4,5) by blast
  have "claims_kept w'" using taken(3,6) assms(2) m by (auto simp: claims_kept_def claimed_def split: if_splits)
  with taken(1,6) m show ?thesis by simp
next
  case failed
  then have m: "kept j w' = kept j w" for j by (simp add: kept_def)
  have "claims_kept w'" using failed(3) assms(2,3) m by (auto simp: claims_kept_def claimed_def split: if_splits)
  with failed(1) m show ?thesis by simp
qed

lemma history_keeps:
  assumes "run_machine (push_step a st l) h rqs = Some h'" and "list_all (\<lambda>rq. \<not> release_down (pr_weather rq)) rqs"
    and "claims_kept (ph_world h)" and "\<forall>(rq, r)\<in>set (ph_served h). \<forall>x. r = Inr x \<longrightarrow> kept (request_key l a rq) (ph_world h)"
  shows "claims_kept (ph_world h') \<and> (\<forall>(rq, r)\<in>set (ph_served h'). \<forall>x. r = Inr x \<longrightarrow> kept (request_key l a rq) (ph_world h'))"
  using assms
proof (induction rqs arbitrary: h)
  case (Cons rq rqs)
  then obtain h1 where s: "push_step a st l h rq = Some h1" and run: "run_machine (push_step a st l) h1 rqs = Some h'"
    by (auto split: option.splits)
  obtain w r where w: "w = (ph_world h)\<lparr>be_now := pr_now rq, be_weather := pr_weather rq\<rparr>"
    and h1: "ph_served h1 = ph_served h @ [(rq, r)]"
    and e: "entrance_step (webhook_event_ttl_seconds st) (request_key l a rq) w (ph_world h1) r" using s by (rule push_step_cases)
  have "claims_kept w" "\<not> release_down (be_weather w)" using Cons.prems(2,3) w by (simp_all add: claims_kept_def kept_def)
  note k = entrance_keeps [OF e this]
  have kept_w: "kept j w = kept j (ph_world h)" for j using w by (simp add: kept_def)
  have "kept j (ph_world h) \<Longrightarrow> kept j (ph_world h1)" for j using k kept_w by simp
  with Cons.prems(4) k h1 have "\<forall>(rq, r)\<in>set (ph_served h1). \<forall>x. r = Inr x \<longrightarrow> kept (request_key l a rq) (ph_world h1)"
    by fastforce
  with Cons.IH [OF run] Cons.prems(2) k show ?case by simp
qed simp

section \<open>What is claimed is not taken again\<close>

text \<open>Nothing that is claimed is added to the queue or the letters.\<close>

lemma entrance_adds_nothing:
  assumes "entrance_step ttl k w w' r" and "\<not> claim_down (be_weather w)" and "be_claims w j = Some t" and "be_now w < t"
  shows "kept j w' \<longleftrightarrow> kept j w"
  using assms(1)
proof cases
  case (taken qs ds)
  with assms(2-4) have "j \<noteq> k" by (auto simp: held_def)
  with taken show ?thesis by (auto simp: kept_def)
qed (simp_all add: kept_def)

lemma entrance_holds:
  assumes "entrance_step ttl k w w' r" and "\<not> claim_down (be_weather w)" and "be_claims w j = Some t" and "be_now w < t"
  shows "be_claims w' j = Some t \<and> (j = k \<longrightarrow> r \<noteq> Inr fresh_answer)"
  using assms
  by cases (auto simp: held_def claimed_def fresh_answer_def duplicate_answer_def)

lemma entrance_claims:
  assumes "entrance_step ttl k w w' (Inr fresh_answer)" and "\<not> claim_down (be_weather w)"
  shows "be_claims w' k = Some (be_now w + seconds (max 1 ttl))"
  using assms
  by cases (auto simp: claimed_def fresh_answer_def duplicate_answer_def)

lemma history_time: "run_machine (push_step a st l) h rqs = Some h' \<Longrightarrow> ph_now h \<le> ph_now h'"
proof (induction rqs arbitrary: h)
  case (Cons rq rqs)
  then obtain h1 where s: "push_step a st l h rq = Some h1" and run: "run_machine (push_step a st l) h1 rqs = Some h'"
    by (auto split: option.splits)
  have "ph_now h \<le> ph_now h1" using s by (rule push_step_cases) simp
  with Cons.IH [OF run] show ?case by simp
qed simp

lemma history_holds:
  assumes "run_machine (push_step a st l) h rqs = Some h'" and "list_all (\<lambda>rq. \<not> claim_down (pr_weather rq)) rqs"
    and "be_claims (ph_world h) k = Some t"
  shows "ph_now h \<le> ph_now h' \<and> (t \<le> ph_now h' \<or> be_claims (ph_world h') k = Some t)"
  using assms
proof (induction rqs arbitrary: h)
  case (Cons rq rqs)
  then obtain h1 where s: "push_step a st l h rq = Some h1" and run: "run_machine (push_step a st l) h1 rqs = Some h'"
    by (auto split: option.splits)
  obtain w r where w: "w = (ph_world h)\<lparr>be_now := pr_now rq, be_weather := pr_weather rq\<rparr>"
    and n: "ph_now h \<le> pr_now rq" "ph_now h1 = pr_now rq"
    and e: "entrance_step (webhook_event_ttl_seconds st) (request_key l a rq) w (ph_world h1) r" using s by (rule push_step_cases)
  note later = history_time [OF run]
  show ?case
  proof (cases "t \<le> pr_now rq")
    case True
    with later n show ?thesis by simp
  next
    case False
    with entrance_holds [OF e, of k t] Cons.prems(2,3) w have "be_claims (ph_world h1) k = Some t" by simp
    from Cons.IH [OF run _ this] Cons.prems(2) n show ?thesis by simp
  qed
qed simp

lemma history_adds_nothing:
  assumes "run_machine (push_step a st l) h rqs = Some h'" and "list_all (\<lambda>rq. \<not> claim_down (pr_weather rq)) rqs"
    and "be_claims (ph_world h) k = Some t" and "ph_now h' < t"
  shows "kept k (ph_world h') \<longleftrightarrow> kept k (ph_world h)"
  using assms
proof (induction rqs arbitrary: h)
  case (Cons rq rqs)
  then obtain h1 where s: "push_step a st l h rq = Some h1" and run: "run_machine (push_step a st l) h1 rqs = Some h'"
    by (auto split: option.splits)
  obtain w r where w: "w = (ph_world h)\<lparr>be_now := pr_now rq, be_weather := pr_weather rq\<rparr>"
    and n: "ph_now h \<le> pr_now rq" "ph_now h1 = pr_now rq"
    and e: "entrance_step (webhook_event_ttl_seconds st) (request_key l a rq) w (ph_world h1) r" using s by (rule push_step_cases)
  have soon: "be_now w < t" using history_time [OF run] n w Cons.prems(4) by simp
  have c: "\<not> claim_down (be_weather w)" "be_claims w k = Some t" using Cons.prems(2,3) w by simp_all
  from entrance_holds [OF e c soon] have "be_claims (ph_world h1) k = Some t" by simp
  from Cons.IH [OF run _ this] Cons.prems(2,4) entrance_adds_nothing [OF e c soon] w show ?case by (simp add: kept_def)
qed simp

section \<open>The limiter\<close>

text \<open>The answered requests of a platform in one second.\<close>

definition answered :: "string \<Rightarrow> int \<Rightarrow> (push_request \<times> push_answer res) list \<Rightarrow> (push_request \<times> push_answer res) list" where
  "answered p t = filter (\<lambda>(rq, r). request_code rq = p \<and> push_second (pr_now rq) = t \<and> (\<exists>x. r = Inr x))"

definition limited :: "int \<Rightarrow> push_history \<Rightarrow> bool" where
  "limited per_second h \<longleftrightarrow> (\<forall>p t. int (length (answered p t (ph_served h))) \<le> max 0 per_second \<and>
     (push_second (ph_now h) \<le> t + 1 \<longrightarrow>
       int (length (answered p t (ph_served h))) \<le> (case be_counts (ph_world h) (p, t) of None \<Rightarrow> 0 | Some n \<Rightarrow> n)))"

lemma limitedD:
  assumes "limited q h"
  shows "int (length (answered p t (ph_served h))) \<le> max 0 q"
    and "push_second (ph_now h) \<le> t + 1 \<Longrightarrow>
      int (length (answered p t (ph_served h))) \<le> (case be_counts (ph_world h) (p, t) of None \<Rightarrow> 0 | Some n \<Rightarrow> n)"
  using assms unfolding limited_def by blast+

lemma answered_snoc:
  "answered p t (rs @ [(rq, r)]) = answered p t rs @
     (if request_code rq = p \<and> push_second (pr_now rq) = t \<and> (\<exists>x. r = Inr x) then [(rq, r)] else [])"
  by (simp add: answered_def)

lemma code_again: "p \<in> set supported_platforms \<Longrightarrow> lower (strip p) = p"
  by (auto simp: supported_platforms_def) (code_simp)+

lemma allow_counts:
  assumes "memory_allow p now q c = (c', Inr b)" and "lower (strip p) = p" and "t \<ge> push_second now - 1"
  shows "(case c (p', t) of None \<Rightarrow> 0 | Some n \<Rightarrow> n) + (if p' = p \<and> t = push_second now \<and> b then 1 else 0)
      \<le> (case c' (p', t) of None \<Rightarrow> 0 | Some n \<Rightarrow> n)"
  using assms by (auto simp: memory_allow_def Let_def split: if_splits option.splits)

lemma allow_granted:
  assumes "memory_allow p now q c = (c', Inr True)" and "lower (strip p) = p"
  shows "1 \<le> q \<and> (case c (p, push_second now) of None \<Rightarrow> 0 | Some n \<Rightarrow> n) + 1 \<le> q"
  using assms by (auto simp: memory_allow_def Let_def split: if_splits option.splits)

lemma step_limited:
  assumes s: "push_step a st l h rq = Some h'" and up: "\<not> limiter_down (pr_weather rq)" and ok: "limited (webhook_qps st) h"
  shows "limited (webhook_qps st) h'"
proof -
  obtain w r where w: "w = (ph_world h)\<lparr>be_now := pr_now rq, be_weather := pr_weather rq\<rparr>"
    and n: "ph_now h \<le> pr_now rq" "ph_now h' = pr_now rq" and served: "ph_served h' = ph_served h @ [(rq, r)]"
    and run: "accept_push (backend_ports a) st l (pr_platform rq) (pr_body rq) (pr_headers rq) (pr_callback rq) (pr_ip rq) w = (ph_world h', r)"
    using s by (rule push_step_cases)
  have sec: "push_second (ph_now h) \<le> push_second (pr_now rq)" using n(1) by (simp add: push_second_def zdiv_mono1)
  from accept_step [OF run] up w consider
      "be_counts (ph_world h') = be_counts (ph_world h)" "\<exists>e. r = Inl e"
    | b where "request_code rq \<in> set supported_platforms"
        "memory_allow (request_code rq) (pr_now rq) (webhook_qps st) (be_counts (ph_world h)) = (be_counts (ph_world h'), Inr b)"
        "b \<or> (\<exists>e. r = Inl e)" by (auto simp: request_code_def)
  then show ?thesis
  proof cases
    case 1
    then have "answered p t (ph_served h') = answered p t (ph_served h)" for p t by (auto simp: served answered_snoc)
    then show ?thesis using ok sec 1(1) n(2) unfolding limited_def by auto
  next
    case 2
    note code = code_again [OF 2(1)]
    show ?thesis
      unfolding limited_def
    proof (intro allI conjI impI)
      fix p t
      let ?here = "request_code rq = p \<and> push_second (pr_now rq) = t \<and> (\<exists>x. r = Inr x)"
      have len: "int (length (answered p t (ph_served h'))) = int (length (answered p t (ph_served h))) + (if ?here then 1 else 0)"
        by (simp add: served answered_snoc)
      show "int (length (answered p t (ph_served h'))) \<le> max 0 (webhook_qps st)"
      proof (cases ?here)
        case True
        with 2(2,3) have "memory_allow (request_code rq) (pr_now rq) (webhook_qps st) (be_counts (ph_world h)) = (be_counts (ph_world h'), Inr True)"
          by auto
        note a = allow_granted [OF this code]
        from True sec have "push_second (ph_now h) \<le> t + 1" by simp
        with limitedD(2) [OF ok, of t p] a len True show ?thesis by auto
      next
        case False
        with limitedD(1) [OF ok, of p t] len show ?thesis by (simp only: if_False)
      qed
      assume t: "push_second (ph_now h') \<le> t + 1"
      with n(2) sec have "push_second (ph_now h) \<le> t + 1" "t \<ge> push_second (pr_now rq) - 1" by simp_all
      with limitedD(2) [OF ok, of t p] allow_counts [OF 2(2) code this(2), of p] len 2(3)
      show "int (length (answered p t (ph_served h'))) \<le> (case be_counts (ph_world h') (p, t) of None \<Rightarrow> 0 | Some n \<Rightarrow> n)"
        by (auto split: if_splits)
    qed
  qed
qed

lemma history_limited:
  assumes "run_machine (push_step a st l) h rqs = Some h'" and "list_all (\<lambda>rq. \<not> limiter_down (pr_weather rq)) rqs"
    and "limited (webhook_qps st) h"
  shows "limited (webhook_qps st) h'"
  using assms
proof (induction rqs arbitrary: h)
  case (Cons rq rqs)
  then obtain h1 where s: "push_step a st l h rq = Some h1" and run: "run_machine (push_step a st l) h1 rqs = Some h'"
    by (auto split: option.splits)
  from Cons.IH [OF run] step_limited [OF s] Cons.prems show ?case by simp
qed simp

end
