(* ===== verification/PushPromises.thy ===== *)
theory PushPromises imports PushHistory begin

text \<open>
  What the entrance and the task of pushes promise: what was acknowledged is queued or kept as a dead
  letter, an event is taken once in its time, the limiter holds, and a task comes to an end.
\<close>

section \<open>A closed history\<close>

definition demo_push_library :: push_library where
  "demo_push_library =
     \<lparr>utf8_decode = Some, sha256_text = (\<lambda>s. CHR ''#'' # s), ip_address = (\<lambda>_. None), ip_in_network = (\<lambda>_ _. None)\<rparr>"

definition demo_reader :: push_reader where
  "demo_reader =
     \<lparr>rd_verify = (\<lambda>code body headers callback. Inr True),
      rd_parse = (\<lambda>code body. Inr \<lparr>event_id = body, event_kind = ''order.created'', event_shop = ''s1'',
        event_order = Some body, subscribe_url = []\<rparr>)\<rparr>"

definition demo_push :: "int \<Rightarrow> weather \<Rightarrow> string \<Rightarrow> push_request" where
  "demo_push now w body = \<lparr>pr_now = seconds now, pr_weather = w, pr_platform = '' Shopee'', pr_body = body,
     pr_headers = [], pr_callback = [], pr_ip = None\<rparr>"

definition demo_push_settings :: push_settings where
  "demo_push_settings = default_push_settings\<lparr>webhook_qps := 2\<rparr>"

definition demo_pushes :: "push_request list" where
  "demo_pushes =
     [demo_push 100 fair_weather ''o1'',
      demo_push 100 fair_weather ''o2'',
      demo_push 100 fair_weather ''o3'',
      demo_push 101 fair_weather ''o1'',
      demo_push 86600 fair_weather ''o1'']"


text \<open>What a request does in this history, when nothing fails: a small machine of its own.\<close>

lemma demo_code: "lower (strip '' Shopee'') = ''shopee'' \<and> lower (strip ''shopee'') = ''shopee'' \<and> ''shopee'' \<in> set supported_platforms"
  by code_simp

lemma demo_accept:
  assumes "be_weather w = fair_weather" and "length body < 1000"
    and "memory_allow ''shopee'' (be_now w) 2 (be_counts w) = (c, Inr ok)"
    and "memory_claim (event_key ''shopee'' body) 86400 (be_now w) (be_claims w) = (k, Inr new)"
  shows "accept_push (backend_ports demo_reader) demo_push_settings demo_push_library '' Shopee'' body [] [] None w =
    (if \<not> ok then (w\<lparr>be_counts := c\<rparr>, Inl (AppError ''PLATFORM_RATE_LIMITED''))
     else if \<not> new then (w\<lparr>be_counts := c, be_claims := k\<rparr>, Inr duplicate_answer)
     else (w\<lparr>be_counts := c, be_claims := k,
         be_queue := be_queue w @ [\<lparr>push_platform = ''shopee'', push_body = body, push_event = body, push_kind = ''order.created''\<rparr>]\<rparr>,
       Inr fresh_answer))"
  using assms demo_code
  by (auto simp: accept_push_eq admitted_def demo_push_settings_def default_push_settings_def push_allowed_def otherwise_at_def
     unless_down_def on_counts_def fair_weather_def bindw_def acts ip_allowed_def demo_reader_def demo_push_library_def
     claim_event_def on_claims_def body_text_def Let_def strip_def)

text \<open>The history by hand: what each request leaves of the counts and the claims.\<close>

lemma claim_answers: "\<exists>c b. memory_claim key ttl now claims = (c, Inr b)"
  by (cases "case claims key of None \<Rightarrow> False | Some t \<Rightarrow> now < t") (auto simp: memory_claim_def)

definition demo_next :: "push_history \<Rightarrow> int \<Rightarrow> string \<Rightarrow> backend \<times> push_answer res" where
  "demo_next h now body =
     (let w = (ph_world h)\<lparr>be_now := seconds now, be_weather := fair_weather\<rparr> in
      case memory_allow ''shopee'' (seconds now) 2 (be_counts w) of (c, ok) \<Rightarrow>
      case memory_claim (event_key ''shopee'' body) 86400 (seconds now) (be_claims w) of (k, new) \<Rightarrow>
        if ok \<noteq> Inr True then (w\<lparr>be_counts := c\<rparr>, Inl (AppError ''PLATFORM_RATE_LIMITED''))
        else if new \<noteq> Inr True then (w\<lparr>be_counts := c, be_claims := k\<rparr>, Inr duplicate_answer)
        else (w\<lparr>be_counts := c, be_claims := k,
            be_queue := be_queue w @ [\<lparr>push_platform = ''shopee'', push_body = body, push_event = body, push_kind = ''order.created''\<rparr>]\<rparr>,
          Inr fresh_answer))"

lemma demo_step:
  assumes "ph_now h \<le> seconds now" and "length body < 1000"
  shows "push_step demo_reader demo_push_settings demo_push_library h (demo_push now fair_weather body) =
    Some \<lparr>ph_now = seconds now, ph_world = fst (demo_next h now body),
      ph_served = ph_served h @ [(demo_push now fair_weather body, snd (demo_next h now body))]\<rparr>"
proof -
  let ?w = "(ph_world h)\<lparr>be_now := seconds now, be_weather := fair_weather\<rparr>"
  obtain c ok where c: "memory_allow ''shopee'' (seconds now) 2 (be_counts (ph_world h)) = (c, Inr ok)"
    by (auto simp: memory_allow_def Let_def)
  obtain k new where k: "memory_claim (event_key ''shopee'' body) 86400 (seconds now) (be_claims (ph_world h)) = (k, Inr new)"
    using claim_answers by blast
  from demo_accept [of ?w body c ok k new] assms c k
  show ?thesis by (auto simp: push_step_def demo_push_def demo_next_def)
qed

lemma demo_push_served:
  obtains h where "run_machine (push_step demo_reader demo_push_settings demo_push_library) opened demo_pushes = Some h"
    and "ph_served h = zip demo_pushes
      [Inr fresh_answer, Inr fresh_answer, Inl (AppError ''PLATFORM_RATE_LIMITED''), Inr duplicate_answer, Inr fresh_answer]"
proof -
  have "map_option ph_served (run_machine (push_step demo_reader demo_push_settings demo_push_library) opened demo_pushes) =
      Some (zip demo_pushes
        [Inr fresh_answer, Inr fresh_answer, Inl (AppError ''PLATFORM_RATE_LIMITED''), Inr duplicate_answer, Inr fresh_answer])"
    by (simp add: demo_pushes_def demo_step demo_next_def opened_def memory_allow_def memory_claim_def Let_def push_second_def
      event_key_def fresh_answer_def duplicate_answer_def seconds_def)
  with that show thesis by auto
qed

lemma demo_key: "request_key demo_push_library demo_reader (demo_push now w body) = event_key ''shopee'' body"
  using demo_code by (simp add: request_key_def reading_key_def request_code_def demo_push_def demo_reader_def)

section \<open>What is acknowledged is kept\<close>

text \<open>C35: A push that was acknowledged, as new or as a duplicate, is in the queue or among the dead letters,
  whatever was served before and after it and whichever parts of the backend failed in any of the requests,
  as long as claims could be released.\<close>

theorem acknowledged_push_kept:
  assumes "run_machine (push_step a st l) opened rqs = Some h" and "list_all (\<lambda>rq. \<not> release_down (pr_weather rq)) rqs"
    and "(rq, Inr x) \<in> set (ph_served h)"
  shows "kept (request_key l a rq) (ph_world h)"
  using history_keeps [OF assms(1,2)] assms(3) by (fastforce simp: opened_def claims_kept_def)

theorem acknowledged_push_kept_witness:
  "\<exists>h. run_machine (push_step demo_reader demo_push_settings demo_push_library) opened demo_pushes = Some h \<and>
     kept ''shopee:o1'' (ph_world h)"
proof -
  obtain h where run: "run_machine (push_step demo_reader demo_push_settings demo_push_library) opened demo_pushes = Some h"
    and "ph_served h = zip demo_pushes
      [Inr fresh_answer, Inr fresh_answer, Inl (AppError ''PLATFORM_RATE_LIMITED''), Inr duplicate_answer, Inr fresh_answer]"
    by (rule demo_push_served)
  then have served: "(demo_push 101 fair_weather ''o1'', Inr duplicate_answer) \<in> set (ph_served h)" by (simp add: demo_pushes_def)
  have "list_all (\<lambda>rq. \<not> release_down (pr_weather rq)) demo_pushes" by (simp add: demo_pushes_def demo_push_def fair_weather_def)
  from acknowledged_push_kept [OF run this served] run show ?thesis by (auto simp: demo_key event_key_def)
qed

section \<open>An event is taken once in its time\<close>

text \<open>C36: While the store of claims answers, an event that was taken is not taken again before
  \<open>webhook_event_ttl_seconds\<close> (at least one second) have passed, however often it is pushed.\<close>

theorem push_taken_once:
  assumes "run_machine (push_step a st l) opened rqs = Some h" and "list_all (\<lambda>rq. \<not> claim_down (pr_weather rq)) rqs"
    and "ph_served h = pre @ (rq, Inr fresh_answer) # mid @ (rq', Inr fresh_answer) # post"
    and "request_key l a rq = request_key l a rq'"
  shows "pr_now rq + seconds (max 1 (webhook_event_ttl_seconds st)) \<le> pr_now rq'"
proof (rule ccontr)
  assume soon: "\<not> ?thesis"
  let ?t = "pr_now rq + seconds (max 1 (webhook_event_ttl_seconds st))"
  have "ph_served h = ph_served opened @ pre @ (rq, Inr fresh_answer) # (mid @ (rq', Inr fresh_answer) # post)"
    using assms(3) by (simp add: opened_def)
  from push_log.run_entry [OF assms(1) this] obtain before after u v where
    b: "rqs = before @ rq # after" and s: "push_step a st l u rq = Some v" and rest: "run_machine (push_step a st l) v after = Some h"
    and log: "ph_served v = pre @ [(rq, Inr fresh_answer)]" "ph_served v = ph_served u @ [(rq, Inr fresh_answer)]"
    by (auto simp: opened_def)
  have claim: "be_claims (ph_world v) (request_key l a rq) = Some ?t"
    using s by (rule push_step_cases) (use log assms(2) b entrance_claims in fastforce)
  have "ph_served h = ph_served v @ mid @ (rq', Inr fresh_answer) # post" using assms(3) log by simp
  from push_log.run_entry [OF rest this] obtain between rq2 later u' v' where
    b': "after = between @ rq2 # later" "run_machine (push_step a st l) v between = Some u'" "push_step a st l u' rq2 = Some v'"
    and log': "rq2 = rq'" "ph_served v' = ph_served u' @ [(rq', Inr fresh_answer)]" by blast
  have up: "list_all (\<lambda>rq. \<not> claim_down (pr_weather rq)) between" "\<not> claim_down (pr_weather rq')" using assms(2) b b' log' by simp_all
  obtain w where w: "w = (ph_world u')\<lparr>be_now := pr_now rq', be_weather := pr_weather rq'\<rparr>" "ph_now u' \<le> pr_now rq'"
    and e: "entrance_step (webhook_event_ttl_seconds st) (request_key l a rq') w (ph_world v') (Inr fresh_answer)"
    using b'(3) by (rule push_step_cases) (use log' in auto)
  from history_holds [OF b'(2) up(1) claim] soon w(2) have "be_claims w (request_key l a rq) = Some ?t" using w(1) by simp
  from entrance_holds [OF e _ this] up(2) w(1) soon assms(4) show False by simp
qed

theorem push_taken_once_witness: "seconds 100 + seconds 86400 \<le> seconds 86600"
proof -
  obtain h where run: "run_machine (push_step demo_reader demo_push_settings demo_push_library) opened demo_pushes = Some h"
    and "ph_served h = zip demo_pushes
      [Inr fresh_answer, Inr fresh_answer, Inl (AppError ''PLATFORM_RATE_LIMITED''), Inr duplicate_answer, Inr fresh_answer]"
    by (rule demo_push_served)
  then have served: "ph_served h = [] @ (demo_push 100 fair_weather ''o1'', Inr fresh_answer) #
      [(demo_push 100 fair_weather ''o2'', Inr fresh_answer),
       (demo_push 100 fair_weather ''o3'', Inl (AppError ''PLATFORM_RATE_LIMITED'')),
       (demo_push 101 fair_weather ''o1'', Inr duplicate_answer)] @
      (demo_push 86600 fair_weather ''o1'', Inr fresh_answer) # []"
    by (simp add: demo_pushes_def)
  have "list_all (\<lambda>rq. \<not> claim_down (pr_weather rq)) demo_pushes" by (simp add: demo_pushes_def demo_push_def fair_weather_def)
  from push_taken_once [OF run this served] show ?thesis
    by (simp add: demo_key) (simp add: demo_push_def demo_push_settings_def default_push_settings_def)
qed

section \<open>The limiter holds\<close>

text \<open>C37: While the limiter answers, no platform has more than \<open>webhook_qps\<close> pushes acknowledged in any second.\<close>

theorem pushes_rate_limited:
  assumes "run_machine (push_step a st l) opened rqs = Some h" and "list_all (\<lambda>rq. \<not> limiter_down (pr_weather rq)) rqs"
  shows "int (length (answered platform second (ph_served h))) \<le> max 0 (webhook_qps st)"
proof -
  have "limited (webhook_qps st) opened" by (simp add: limited_def opened_def answered_def)
  from history_limited [OF assms this] show ?thesis by (rule limitedD(1))
qed

theorem pushes_rate_limited_witness:
  "\<exists>h. run_machine (push_step demo_reader demo_push_settings demo_push_library) opened demo_pushes = Some h \<and>
     int (length (answered ''shopee'' 100 (ph_served h))) \<le> 2"
proof -
  obtain h where run: "run_machine (push_step demo_reader demo_push_settings demo_push_library) opened demo_pushes = Some h"
    by (rule demo_push_served)
  have "list_all (\<lambda>rq. \<not> limiter_down (pr_weather rq)) demo_pushes" by (simp add: demo_pushes_def demo_push_def fair_weather_def)
  from pushes_rate_limited [OF run this, of "''shopee''" 100] run show ?thesis by (simp add: demo_push_settings_def)
qed

section \<open>When the claim cannot be released\<close>

definition dark_weather :: weather where
  "dark_weather = fair_weather\<lparr>publish_down := True, letters_down := True, release_down := True\<rparr>"

text \<open>C38: What the release is needed for: when the broker, the dead letters and the release of a claim fail in
  one request whose event is new and which passes every check, the platform is told that the push failed; but
  until the time of the claim is over every further push of the same event that passes the checks is answered as
  a duplicate, although everything may work again, and whatever is pushed in between the event is not queued or
  kept unless it was before.\<close>

theorem release_outage_loses_push:
  assumes first: "push_step a st l h rq = Some h1" "passes a st l rq (ph_world h)" "\<not> claim_down (pr_weather rq)"
      "\<not> held (pr_now rq) (request_key l a rq) (be_claims (ph_world h))"
    and outage: "publish_down (pr_weather rq)" "letters_down (pr_weather rq)" "release_down (pr_weather rq)"
    and between: "run_machine (push_step a st l) h1 rqs = Some h2" "list_all (\<lambda>rq. \<not> claim_down (pr_weather rq)) rqs"
    and again: "push_step a st l h2 rq' = Some h3" "passes a st l rq' (ph_world h2)" "\<not> claim_down (pr_weather rq')"
      "request_key l a rq' = request_key l a rq"
      "pr_now rq' < pr_now rq + seconds (max 1 (webhook_event_ttl_seconds st))"
  shows "ph_served h1 = ph_served h @ [(rq, Inl enqueue_failed)] \<and> ph_served h3 = ph_served h2 @ [(rq', Inr duplicate_answer)] \<and>
    (kept (request_key l a rq) (ph_world h3) \<longleftrightarrow> kept (request_key l a rq) (ph_world h))"
proof -
  let ?k = "request_key l a rq" and ?t = "pr_now rq + seconds (max 1 (webhook_event_ttl_seconds st))"
  from passing_step [OF first(1-3)] first(4) outage have one: "ph_served h1 = ph_served h @ [(rq, Inl enqueue_failed)]"
    "be_queue (ph_world h1) = be_queue (ph_world h)" "be_letters (ph_world h1) = be_letters (ph_world h)"
    "be_claims (ph_world h1) ?k = Some ?t" by simp_all
  have later: "ph_now h2 \<le> pr_now rq'" using again(1) by (rule push_step_cases)
  with again(5) have soon: "ph_now h2 < ?t" by simp
  from history_holds [OF between one(4)] soon have held: "be_claims (ph_world h2) ?k = Some ?t" by simp
  with again(4,5) have "held (pr_now rq') (request_key l a rq') (be_claims (ph_world h2))" by (simp add: held_def)
  with passing_step [OF again(1-3)] have two: "ph_served h3 = ph_served h2 @ [(rq', Inr duplicate_answer)]"
    "be_queue (ph_world h3) = be_queue (ph_world h2)" "be_letters (ph_world h3) = be_letters (ph_world h2)" by simp_all
  from history_adds_nothing [OF between one(4) soon] one(2,3) two(2,3) have "kept ?k (ph_world h3) \<longleftrightarrow> kept ?k (ph_world h)"
    by (simp add: kept_def)
  with one(1) two(1) show ?thesis by blast
qed

text \<open>The platform tries again after a hundred seconds, when everything works; another push comes in between.\<close>

lemma demo_passes:
  assumes "length body < 1000" and "snd (memory_allow ''shopee'' (seconds now) 2 (be_counts w)) = Inr True"
  shows "passes demo_reader demo_push_settings demo_push_library (demo_push now v body) w"
  using assms demo_code
  by (simp add: passes_def request_code_def demo_push_def demo_push_settings_def default_push_settings_def demo_reader_def
      ip_allowed_def demo_push_library_def strip_def)

lemma demo_next_counts:
  "be_counts (fst (demo_next h now body)) = fst (memory_allow ''shopee'' (seconds now) 2 (be_counts (ph_world h)))"
  by (simp add: demo_next_def Let_def split: prod.split)

lemma fresh_second:
  assumes "\<And>p t. push_second (seconds now) \<le> t \<Longrightarrow> c (p, t) = None"
  shows "snd (memory_allow ''shopee'' (seconds now) 2 c) = Inr True"
    and "push_second (seconds now) < t \<Longrightarrow> fst (memory_allow ''shopee'' (seconds now) 2 c) (p, t) = None"
  using assms by (auto simp: memory_allow_def Let_def)

theorem release_outage_loses_push_witness:
  "\<exists>h1 h2 h3. push_step demo_reader demo_push_settings demo_push_library opened (demo_push 100 dark_weather ''o1'') = Some h1 \<and>
     run_machine (push_step demo_reader demo_push_settings demo_push_library) h1 [demo_push 150 fair_weather ''o2''] = Some h2 \<and>
     push_step demo_reader demo_push_settings demo_push_library h2 (demo_push 200 fair_weather ''o1'') = Some h3 \<and>
     ph_served h3 = ph_served h2 @ [(demo_push 200 fair_weather ''o1'', Inr duplicate_answer)] \<and>
     \<not> kept ''shopee:o1'' (ph_world h3)"
proof -
  let ?step = "push_step demo_reader demo_push_settings demo_push_library"
  let ?rq = "demo_push 100 dark_weather ''o1''" and ?rq' = "demo_push 200 fair_weather ''o1''"
  have runs: "\<exists>h'. ?step h (demo_push now v body) = Some h'" if "ph_now h \<le> seconds now" for h now v body
    using that by (auto simp: push_step_def demo_push_def split: prod.split)
  obtain h1 where h1: "?step opened ?rq = Some h1" using runs [of opened 100] by (auto simp: opened_def seconds_def)
  then have n1: "ph_now h1 = seconds 100" by (rule push_step_cases) (simp add: demo_push_def)
  obtain h2 where h2: "?step h1 (demo_push 150 fair_weather ''o2'') = Some h2" using runs [of h1 150] n1 by (auto simp: seconds_def)
  then have n2: "ph_now h2 = seconds 150" by (rule push_step_cases) (simp add: demo_push_def)
  obtain h3 where h3: "?step h2 ?rq' = Some h3" using runs [of h2 200] n2 by (auto simp: seconds_def)
  have weather: "publish_down dark_weather" "letters_down dark_weather" "release_down dark_weather" "\<not> claim_down dark_weather"
    "\<not> limiter_down dark_weather" "\<not> claim_down fair_weather" by (simp_all add: dark_weather_def fair_weather_def)
  have seconds: "push_second (seconds n) = n" for n by (simp add: push_second_def seconds_def)
  have p1: "passes demo_reader demo_push_settings demo_push_library ?rq (ph_world opened)"
    by (rule demo_passes) (simp_all add: fresh_second opened_def)
  have k1: "\<not> held (pr_now ?rq) (request_key demo_push_library demo_reader ?rq) (be_claims (ph_world opened))"
    by (simp add: held_def opened_def)
  have "be_counts (ph_world h1) = fst (memory_allow ''shopee'' (seconds 100) 2 (be_counts (ph_world opened)))"
    using passing_step [OF h1 p1] weather k1
    by (simp add: demo_push_def demo_push_settings_def default_push_settings_def request_code_def demo_code)
  then have c1: "be_counts (ph_world h1) (p, t) = None" if "100 < t" for p t
    using that by (simp add: fresh_second(2) seconds opened_def)
  have "be_counts (ph_world h2) = fst (memory_allow ''shopee'' (seconds 150) 2 (be_counts (ph_world h1)))"
    using demo_step [of h1 150 "''o2''"] h2 n1 demo_next_counts [of h1 150 "''o2''"] by (auto simp: seconds_def)
  then have c2: "be_counts (ph_world h2) (p, t) = None" if "150 < t" for p t
    using fresh_second(2) [of 150 "be_counts (ph_world h1)" t p] that c1 by (simp add: seconds)
  have p2: "passes demo_reader demo_push_settings demo_push_library ?rq' (ph_world h2)"
    using fresh_second(1) [of 200 "be_counts (ph_world h2)"] c2 by (intro demo_passes) (simp_all add: seconds)
  have run: "run_machine ?step h1 [demo_push 150 fair_weather ''o2''] = Some h2" using h2 by simp
  have "ph_served h1 = ph_served opened @ [(?rq, Inl enqueue_failed)] \<and> ph_served h3 = ph_served h2 @ [(?rq', Inr duplicate_answer)] \<and>
    (kept (request_key demo_push_library demo_reader ?rq) (ph_world h3) \<longleftrightarrow>
      kept (request_key demo_push_library demo_reader ?rq) (ph_world opened))"
    by (rule release_outage_loses_push [OF h1 p1 _ k1 _ _ _ run _ h3 p2])
      (simp_all add: weather demo_push_def request_key_def request_code_def demo_push_settings_def default_push_settings_def seconds_def)
  with h1 run h3 show ?thesis by (auto simp: demo_key event_key_def kept_def opened_def)
qed

section \<open>The task comes to an end\<close>

lemma dispatch_keeps_letters: "dispatch_webhook_body W platform body w = (w', r) \<Longrightarrow> pw_letters w' = pw_letters w"
  by (auto simp: dispatch_webhook_body_def confirm_subscription_def live_order_sink_def ingest_push_def
    split: sum.splits sync_error.splits if_splits option.splits list.splits prod.splits bool.splits)

lemma park_push_memory:
  assumes "wk_letters W = memory_letters"
  shows "\<exists>d. park_push W now p err w = (w\<lparr>pw_letters := pw_letters w @ [d]\<rparr>, Task_parked) \<and>
    letter_key d = Some (event_key (push_platform p) (push_event p))"
  using assms by (intro exI [of _ "letter_for (push_platform p) (push_body p) (push_event p) (push_kind p) err now"])
    (simp add: park_push_def dlq_push_def memory_letters_def memory_push_def)

lemma task_letters:
  assumes "webhook_event_task W now rnd n p w = (w', out)" and "wk_letters W = memory_letters"
  shows "\<exists>ls. pw_letters w' = pw_letters w @ ls \<and>
    map letter_key ls = (if out = Task_parked then [Some (event_key (push_platform p) (push_event p))] else [])"
proof -
  obtain v r where d: "dispatch_webhook_body W (push_platform p) (push_body p) w = (v, r)" by fastforce
  note same = dispatch_keeps_letters [OF d]
  obtain d1 where d1: "park_push W now p ''process_failed'' v = (v\<lparr>pw_letters := pw_letters v @ [d1]\<rparr>, Task_parked)"
    "letter_key d1 = Some (event_key (push_platform p) (push_event p))"
    using park_push_memory [OF assms(2)] by blast
  show ?thesis
    using assms(1) d d1 same
    by (auto simp: webhook_event_task_def retry_push_def Let_def split: sum.splits push_failure.splits bool.splits if_splits)
qed

lemma task_retried: "webhook_event_task W now rnd n p w = (w', Task_retried d) \<Longrightarrow> n < push_max_retries"
  by (auto simp: webhook_event_task_def retry_push_def Let_def park_push_def
    split: prod.splits sum.splits push_failure.splits bool.splits if_splits)

lemma run_push_task_end:
  assumes "run_push_task W p n ticks w = (w', os)" and "n \<le> push_max_retries" and "push_max_retries < n + length ticks"
    and "wk_letters W = memory_letters"
  shows "os \<noteq> [] \<and> length os \<le> Suc (push_max_retries - n) \<and> (\<forall>d. last os \<noteq> Task_retried d) \<and>
    (\<exists>ls. pw_letters w' = pw_letters w @ ls \<and>
       map letter_key ls = (if last os = Task_parked then [Some (event_key (push_platform p) (push_event p))] else []))"
  using assms(1-3)
proof (induction ticks arbitrary: n w os)
  case (Cons tick ticks)
  obtain now rnd where t: "tick = (now, rnd)" by fastforce
  obtain v out where v: "webhook_event_task W now rnd n p w = (v, out)" by fastforce
  note letters = task_letters [OF v assms(4)]
  show ?case
  proof (cases "\<exists>d. out = Task_retried d")
    case False
    with Cons.prems(1) t v have "w' = v" "os = [out]" by (auto split: task_outcome.splits)
    with False letters show ?thesis by simp
  next
    case True
    then obtain d where d: "out = Task_retried d" ..
    with task_retried v have n: "n < push_max_retries" by blast
    obtain u rest where u: "run_push_task W p (n + 1) ticks v = (u, rest)" by fastforce
    with Cons.prems(1) t v d have "w' = u" "os = Task_retried d # rest" by simp_all
    with Cons.IH [of "n + 1" v rest] u n Cons.prems(3) letters d show ?thesis by auto
  qed
qed simp

text \<open>C39: The task of a queued push ends after at most four attempts, whatever the platform, the shops and the
  orders do; only its last attempt is not retried, and it leaves exactly one dead letter, under the key of
  the event, when it was parked, and none otherwise.\<close>

theorem push_task_ends:
  assumes "wk_letters W = memory_letters" and "4 \<le> length ticks"
  shows "let (w', os) = run_push_task W p 0 ticks w in
    os \<noteq> [] \<and> length os \<le> 4 \<and> (\<forall>d. last os \<noteq> Task_retried d) \<and>
    (\<exists>ls. pw_letters w' = pw_letters w @ ls \<and>
       map letter_key ls = (if last os = Task_parked then [Some (event_key (push_platform p) (push_event p))] else []))"
proof -
  obtain w' os where r: "run_push_task W p 0 ticks w = (w', os)" by fastforce
  from run_push_task_end [OF r _ _ assms(1)] assms(2) show ?thesis by (simp add: r push_max_retries_def)
qed

text \<open>A worker whose platform never answers.\<close>

definition demo_worker :: "(unit, dead_letter list) push_worker" where
  "demo_worker =
     \<lparr>wk_parse = (\<lambda>code body. Inr \<lparr>event_id = body, event_kind = ''subscription.confirm'', event_shop = [],
        event_order = None, subscribe_url = ''https://sns.eu.amazonaws.com/x''\<rparr>),
      wk_fetch = (\<lambda>_ _ a. (a, Inr None)), wk_get = (\<lambda>_ a. (a, Inl ())),
      wk_urlsplit = (\<lambda>_. Inr \<lparr>url_scheme = ''https'', url_host = Some ''sns.eu.amazonaws.com'', url_user = None,
        url_password = None, url_port = Inr None\<rparr>),
      wk_fixture = False, wk_letters = memory_letters, wk_policy = default_policy\<rparr>"

definition demo_no_orders :: order_db where
  "demo_no_orders =
     \<lparr>orders = [], logs = [], fees = [], shipments = [], returns = [], order_notes = [], address_logs = [], rules = [], mappings = [],
      stock = \<lparr>skus = [], warehouses = [], balances = [], flows = [], holds = [], order_items = [], transfers = [], takings = [],
        next_id = 1, rivals = []\<rparr>, serial = 1\<rparr>"

definition demo_push_world :: "(unit, dead_letter list) push_world" where
  "demo_push_world = \<lparr>pw_shops = [], pw_credentials = [], pw_orders = (\<lambda>_. demo_no_orders), pw_platform = (), pw_letters = []\<rparr>"

definition demo_ticks :: "(int \<times> float64) list" where
  "demo_ticks = map (\<lambda>n. (seconds n, 0)) [10, 20, 40, 80, 160]"

definition demo_payload :: push_payload where
  "demo_payload = \<lparr>push_platform = ''amazon'', push_body = ''b'', push_event = ''e1'', push_kind = ''subscription.confirm''\<rparr>"

theorem push_task_ends_witness:
  "length (snd (run_push_task demo_worker demo_payload 0 demo_ticks demo_push_world)) \<le> 4"
  using push_task_ends [of demo_worker demo_ticks demo_payload demo_push_world]
  by (simp add: demo_worker_def demo_ticks_def case_prod_beta del: run_push_task.simps)

end
