(* ===== verification/Spec2Isabelle.thy ===== *)
theory Spec2Isabelle
  imports OrderStatus OrderDesk OrderPrivacy Permissions Stock LandedCost Purchase PurchaseOrder Profit Pricing Queues Idempotency Locks OrderSync Settlement
    CustomerService Compliance StockService OrderPromises Snowflake AccountPromises PushPromises
begin

text \<open>
  A verification development for the business core of CrossPilot, the back end of a shop management
  system for sellers on several market places (\<^verbatim>\<open>src/backend/app\<close>).

  \<^bold>\<open>The program.\<close>  Orders are pulled from the platforms by the sync engine
  (\<^verbatim>\<open>sync_engine/\<close>, \<^verbatim>\<open>adapters/ratelimit.py\<close>, \<^verbatim>\<open>services/order_sync.py\<close>): a task per shop asks the
  circuit breaker and the rate limiter, walks the pages of a time window, writes every order under
  its idempotency key and stores a checkpoint.  Platforms also push: \<^verbatim>\<open>services/webhook_ingress.py\<close> admits
  a push, claims its event and queues it, and a task (\<^verbatim>\<open>services/webhook_dispatch.py\<close>) fetches the order and
  ingests it in the same way.  The status machine (\<^verbatim>\<open>engines/order_status.py\<close>)
  decides whether a reported status may be written, the order desk (\<^verbatim>\<open>engines/order_desk.py\<close>) which
  orders wait for a person.  Orders reserve and ship stock (\<^verbatim>\<open>services/inventory.py\<close> over
  \<^verbatim>\<open>engines/inventory.py\<close>); purchasing brings stock in (\<^verbatim>\<open>services/purchase.py\<close> over
  \<^verbatim>\<open>engines/purchase.py\<close>).  Money is computed by the engines for landed cost, price search, profit
  and settlement; compliance and customer service have engines of their own.  Every request comes
  from a user of a tenant: sign-in, its tokens, registration, invitations and members are
  \<^verbatim>\<open>services/auth_service.py\<close>, \<^verbatim>\<open>registration_service.py\<close> and \<^verbatim>\<open>member_service.py\<close> over
  \<^verbatim>\<open>core/security.py\<close>, \<^verbatim>\<open>core/token_blacklist.py\<close> and \<^verbatim>\<open>core/deps.py\<close>; rows get their keys from
  \<^verbatim>\<open>db/snowflake.py\<close>.

  \<^bold>\<open>Conventions.\<close>  A Python function is a HOL function of the same name, or, where the name
  is taken, of a name that the manifest maps.  A dataclass or a table row is a record, an enum a datatype, a stored
  code its string.  An exception is a value of \<open>py_error\<close>, code that may raise returns \<open>res\<close>
  and is sequenced by \<open>bindr\<close> (\<open>Prelude\<close>); a handler of a request takes the tables and returns the new
  ones, and a request that raises is rolled back.  \<open>Decimal\<close> has Python's decimals with 28 digits,
  rounding half to even, and floats with 53 bits, both as rationals that every operation
  rounds; \<open>PyTime\<close> has aware and naive datetimes as microseconds; \<open>PyText\<close> and \<open>PyJson\<close> what the
  code uses of \<open>str\<close>, \<open>int\<close> and \<open>json\<close>.  Text is ASCII, and messages for people are dropped or kept
  as constructors with the numbers they print.  Redis, SHA-256, the random draw, the clock, the market place and
  JSON readers are arguments, with the laws that are used of them as hypotheses or as
  \<open>assumes\<close> of a locale, and each has an instance here.

  \<^bold>\<open>Theories and code.\<close>
  \<^item> Contracts.  \<open>Machines\<close>: machines with an invariant, machines that never go back, machines
    that always advance and machines that keep a log, interpreted by every theory below that has states.
  \<^item> Orders.  \<open>OrderStatus\<close> (\<^verbatim>\<open>engines/order_status.py\<close>), \<open>OrderDesk\<close> (\<^verbatim>\<open>engines/order_desk.py\<close>) and
    \<open>OrderPrivacy\<close> (\<^verbatim>\<open>engines/order_privacy.py\<close>) are the engines.  \<open>OrderBook\<close> holds the rows and the
    ingestion of reports (\<^verbatim>\<open>services/order_status.py\<close>, \<^verbatim>\<open>repositories/order.py\<close>), \<open>OrderLife\<close> review,
    rules, addresses, returns and shipping in batches (\<^verbatim>\<open>services/order_desk.py\<close>,
    \<^verbatim>\<open>services/order_ship.py\<close>).  \<open>OrderInvariant\<close> says what each handler keeps of the rows, \<open>OrderRefine\<close>
    which moves of stock it makes, \<open>OrderService\<close> serves requests in their sessions, \<open>OrderHistory\<close> runs
    histories of them and \<open>OrderPromises\<close> holds the properties.
  \<^item> Accounts.  \<open>Permissions\<close> (\<^verbatim>\<open>core/permissions.py\<close>); \<open>Tokens\<close> (passwords, tokens and the list of
    revoked ones); \<open>Accounts\<close> (the tables of \<^verbatim>\<open>models/tenant.py\<close> with \<^verbatim>\<open>repositories/identity.py\<close>);
    \<open>Access\<close> (\<^verbatim>\<open>services/auth_service.py\<close> and the dependencies of \<^verbatim>\<open>core/deps.py\<close>); \<open>Members\<close>
    (registration, invitations, members, and the requests of \<^verbatim>\<open>api/v1/auth.py\<close> and \<^verbatim>\<open>members.py\<close>).
    A handler is a function of the world of its process, \<open>auth_world\<close>; \<open>auth_step\<close> serves one request of a
    history.  \<open>AccessLaws\<close> has the composition of handlers and the contract of a list of revoked
    tokens, \<open>TokenSafety\<close> and \<open>TokenHistory\<close> carry it through every request, and \<open>TokenPromises\<close> holds
    the properties of tokens.  \<open>AccountSteps\<close> is the abstract step that every request takes on the tables,
    with the refinement; \<open>AccountInvariant\<close> and \<open>AccountHistory\<close> prove over it what is kept, and
    \<open>AccountPromises\<close> holds the properties.  \<open>Snowflake\<close> is the key generator.
  \<^item> Stock.  \<open>Stock\<close> is \<^verbatim>\<open>engines/inventory.py\<close> with the optimistic operations as a locale.
    \<open>StockBook\<close>, \<open>StockDesk\<close> and \<open>StockDocs\<close> are \<^verbatim>\<open>services/inventory.py\<close> with its repositories: rows and the
    guarded update, the handlers of orders and returns, transfers, counts and warehouses.
    \<open>StockLaws\<close> says of each operation which quantity it moves where (\<open>moved\<close>),
    \<open>StockInvariant\<close> what every handler does to holds and debts (\<open>shifted\<close>), and
    \<open>StockService\<close> what follows for any history.  The writes of other transactions are part of the
    state (\<open>rivals\<close>): a batch lands before each guarded update.
  \<^item> Purchasing.  \<open>Purchase\<close> (\<^verbatim>\<open>engines/purchase.py\<close>) and \<open>PurchaseOrder\<close> (the life of a
    purchase order in \<^verbatim>\<open>services/purchase.py\<close> with the stock rows it posts to).
  \<^item> Money.  \<open>LandedCost\<close>, \<open>Pricing\<close>, \<open>Profit\<close> and \<open>Settlement\<close>, each the engine of that
    name.
  \<^item> Sync engine.  \<open>Policy\<close> and \<open>Queues\<close>, \<open>StateStore\<close> (compare and set under interleaving), \<open>Expiry\<close> (keys
    that Redis forgets after their time to live),
    \<open>Idempotency\<close> (keys, upserts and the Bloom filter), \<open>Locks\<close>, \<open>Resilience\<close> (retries, circuits and
    dead letters), \<open>RateLimit\<close>, \<open>Cursor\<close>, and \<open>OrderSync\<close> where they meet in the run of a shop.
  \<^item> Pushes.  \<open>Webhooks\<close>: the stores of \<^verbatim>\<open>webhooks/store.py\<close>, the entrance \<open>accept_push\<close>
    (\<^verbatim>\<open>WebhookIngress.accept\<close>), the dispatcher and the task with its retries, which ends in the ingestion of
    \<open>OrderBook\<close>.  \<open>PushHistory\<close> runs the entrance on a backend whose limiter, claims, broker, dead letters and
    release may each fail in any request (\<open>weather\<close>); \<open>entrance_step\<close> is the abstract step that every
    request takes, and \<open>PushPromises\<close> holds the properties.
  \<^item> Effects.  Handlers that keep their changes when they raise are values of \<open>act\<close> (\<open>Effects\<close>), used by accounts
    and pushes.
  \<^item> Other engines.  \<open>Compliance\<close> (\<^verbatim>\<open>engines/compliance.py\<close>) and \<open>CustomerService\<close>
    (\<^verbatim>\<open>engines/cs.py\<close>).

  \<^bold>\<open>What is shown.\<close>  For stock: no history of requests under any interleaving makes a
  balance negative or over-reserved; what is reserved is exactly what open holds
  claim; what is in transit is what transfers and purchasing owe.  For purchasing: the stock posted is what the
  order lines say.  For orders: how the status moves, who may ship, what a role
  sees.  For money: totals are the exact sums of their lines or absent, splits conserve, searched
  prices are the best of their neighbourhood; a cost is there exactly when the rules and inputs it needs are
  (\<open>needs_met\<close>), and a settlement loses no line and no amount.  For the sync engine: updates are atomic under
  interleaving, keys and codecs do not confuse, quotas and circuits hold, a cursor leaves no gap from its
  first window on, and how a circuit can lock a platform out.
  For accounts: spent and signed-out tokens stay dead, every tenant keeps one owner, tenants do
  not touch each other's rows, passwords cannot be tried at the sign-in faster than the lock allows,
  invitations are taken up once, a removed member stays out.  For pushes: what was acknowledged is queued or
  kept, an event is taken once in its time, the limit holds, the task ends, and what is lost when a claim
  cannot be released.

  \<^bold>\<open>Parameters of accounts.\<close>  PyJWT, bcrypt, SHA-256 and the random ids are the record \<open>library\<close>, Redis
  the record \<open>redis_keys\<close>.  \<open>pyjwt_laws\<close> is what PyJWT documents of reading a token: the same claims
  whenever it reads, and not after its \<open>exp\<close>; \<open>random_ids\<close> that two draws differ.  A history serves requests
  one after the other, with time in microseconds not running backwards and Redis free to change in
  between (another process may revoke, a server may forget).  What is shown of accounts is therefore of one
  process without overlapping requests: two refreshes at the same time, or in two processes while Redis is away
  (\<open>other_process_renews\<close>), both get tokens, and parallel sign-ins count as one failure; the confirmation
  of an action and the acceptance of an invitation test a password without counting it
  (\<open>confirm_uncounted\<close>, \<open>accept_uncounted\<close>).  In the same way the upserts of one order are shown for writes
  one after the other and for workers that found no row; an update decided on a stale row overwrites a newer one
  (\<open>stale_update_wins\<close>).  Of a request, \<open>unforged\<close> says that a token that reads was
  signed in the history.  Keys are drawn from a counter, which \<open>Snowflake\<close> justifies for one
  generator, and for several with different worker numbers.

  \<^bold>\<open>Parameters of pushes.\<close>  An adapter's signature check and parser (\<open>push_reader\<close>, \<open>wk_parse\<close>), its call for one
  order (\<open>wk_fetch\<close>), the address library, UTF-8, SHA-256 (\<open>push_library\<close>), \<^verbatim>\<open>urlsplit\<close> and the HTTP client.
  Nothing is assumed of them.  Histories are of one process, with the claims and counts in its memory.

  \<^bold>\<open>Bounds.\<close>  The retry loops of the code are bounded by the code itself: five attempts for a
  version conflict (\<open>version_retries\<close>), eight for a compare and set (\<open>max_attempts\<close>), the policy's for
  a task; they are recursions on that number, and running out is the exception the code
  raises.  The task of a push has four attempts; \<open>run_push_task\<close> recurses on the list of its clock readings, and
  four of them are enough (\<open>push_task_ends\<close>).  Page loops recurse on the page limit; the margin curve on a measure.
  No other fuel is used.

  \<^bold>\<open>Interfaces.\<close>  \<open>invariant_machine\<close>, \<open>monotone_machine\<close>, \<open>ranked_machine\<close> and \<open>logging_machine\<close>
  (\<open>Machines\<close>); \<open>optimistic_op\<close> and \<open>optimistic_pair\<close> (\<open>Stock\<close>); \<open>json_kv_laws\<close> and \<open>state_workers\<close>
  (\<open>StateStore\<close>, interpreted again for circuits and counters); \<open>ttl_store\<close> (\<open>Expiry\<close>, interpreted on the
  memory and on Redis with expiry) and \<open>circuit_ttl\<close> (\<open>OrderSync\<close>), which extends it; \<open>bit_store\<close> (\<open>Idempotency\<close>),
  \<open>lock_store\<close> (\<open>Locks\<close>), \<open>letter_queue\<close> (\<open>Resilience\<close>), \<open>revocation_list\<close> (\<open>AccessLaws\<close>, interpreted on
  the memory of a process and on the list over Redis), \<open>claim_store\<close> (\<open>PushHistory\<close>).  Each is interpreted on the model's own
  definitions, and the properties rest on its facts.

  \<^bold>\<open>Not modelled.\<close>  Request parsing, the schemas and the middleware (FastAPI and
  pydantic decide what they do), the SQL of list and report queries, the platform adapters' HTTP
  and OAuth calls, background task wiring, database migrations and the TypeScript front end.
  Of the services, the ones not named above (advertising, listings, reports, dashboards and shops): most fetch rows, call an engine and save rows.  Of accounts: the lists of members and
  roles, the syntax of e-mail addresses, IP addresses and user agents, and two requests of one
  account running at the same time.  The models of orders, stock and purchasing keep to one tenant and leave out
  audit columns; the model of accounts has many tenants, and a query in the context of one sees its rows
  only.
\<close>

end
